(* ===== verification/JS_Prelude.thy ===== *)
theory JS_Prelude
  imports Main "HOL-Library.Product_Lexorder" "HOL-Library.AList"
begin

text \<open>
  Shared vocabulary of the development: the part of JavaScript's standard library that the
  modelled TypeScript uses, with the list lemmas the components share.

  A JavaScript string is a sequence of UTF-16 code units, so it is a list of naturals
  (\<open>jsstr\<close>); \<open>js ''abc''\<close> is the string literal \<open>"abc"\<close>. An absent value
  (\<open>undefined\<close> or \<open>null\<close>) is \<open>None\<close>. Numbers that the code keeps integral are
  \<open>nat\<close> or \<open>int\<close>; every bound in the code is far below \<open>2 ^ 53\<close>, where doubles are
  exact. A \<open>Map\<close> keeps its insertion order, so it is an association list updated with
  \<open>AList.update\<close>.
\<close>

section \<open>Collections of facts\<close>

named_theorems js_simps "unfolding of the string primitives"
named_theorems range_laws "facts about ranges found in a source text"
named_theorems inv_intros "preservation of component invariants"

section \<open>Strings\<close>

type_synonym code_unit = nat
type_synonym jsstr = "code_unit list"

definition js :: "string \<Rightarrow> jsstr" where
  "js s = map of_char s"

lemma js_inject: "js s = js t \<longleftrightarrow> s = t"
proof -
  have "inj (of_char :: char \<Rightarrow> nat)" by (simp add: inj_def)
  then show ?thesis by (simp add: js_def inj_map_eq_map)
qed

text \<open>Every JavaScript string satisfies \<open>js_string\<close>: its units are 16 bits wide.\<close>

definition js_string :: "jsstr \<Rightarrow> bool" where
  "js_string s \<longleftrightarrow> (\<forall>c \<in> set s. c < 2 ^ 16)"

text \<open>\<open>s[i]\<close>: \<open>undefined\<close> out of range.\<close>

definition charAt :: "'a list \<Rightarrow> nat \<Rightarrow> 'a option" where
  "charAt s i = (if i < length s then Some (s ! i) else None)"

text \<open>\<open>s.slice(i, j)\<close> for non-negative offsets; empty when \<open>j \<le> i\<close>.\<close>

definition slice :: "'a list \<Rightarrow> nat \<Rightarrow> nat \<Rightarrow> 'a list" where
  "slice s i j = take (j - i) (drop i s)"

definition startsWith :: "'a list \<Rightarrow> 'a list \<Rightarrow> bool" where
  "startsWith s p \<longleftrightarrow> take (length p) s = p"

lemma startsWith_append: "startsWith s (p @ q) \<Longrightarrow> startsWith s p"
proof -
  assume "startsWith s (p @ q)"
  then have "take (length p) (take (length (p @ q)) s) = p" by (simp add: startsWith_def)
  then show ?thesis by (simp add: startsWith_def min_def)
qed

definition startsWithAt :: "'a list \<Rightarrow> 'a list \<Rightarrow> nat \<Rightarrow> bool" where
  "startsWithAt s p i \<longleftrightarrow> startsWith (drop i s) p"

definition endsWith :: "'a list \<Rightarrow> 'a list \<Rightarrow> bool" where
  "endsWith s p \<longleftrightarrow> length p \<le> length s \<and> drop (length s - length p) s = p"

fun indexOf :: "'a list \<Rightarrow> 'a list \<Rightarrow> nat option" where
  "indexOf [] p = (if p = [] then Some 0 else None)"
| "indexOf (c # s) p =
     (if startsWith (c # s) p then Some 0 else map_option Suc (indexOf s p))"

definition strIncludes :: "'a list \<Rightarrow> 'a list \<Rightarrow> bool" where
  "strIncludes s p \<longleftrightarrow> indexOf s p \<noteq> None"

text \<open>\<open>s.split(c)\<close> for a one-unit separator, and \<open>xs.join(sep)\<close>.\<close>

fun split_on :: "'a \<Rightarrow> 'a list \<Rightarrow> 'a list list" where
  "split_on c [] = [[]]"
| "split_on c (x # xs) =
     (if x = c then [] # split_on c xs
      else (case split_on c xs of [] \<Rightarrow> [[x]] | w # ws \<Rightarrow> (x # w) # ws))"

fun join :: "'a list \<Rightarrow> 'a list list \<Rightarrow> 'a list" where
  "join sep [] = []"
| "join sep [w] = w"
| "join sep (w # ws) = w @ sep @ join sep ws"

lemma split_on_nonempty [simp]: "split_on c s \<noteq> []"
  by (cases s) (auto split: list.splits)

lemma split_on_absent: "c \<notin> set s \<Longrightarrow> split_on c s = [s]"
  by (induction s) auto

lemma split_on_append: "c \<notin> set s \<Longrightarrow> split_on c (s @ c # t) = s # split_on c t"
  by (induction s) auto

lemma split_join: "ws \<noteq> [] \<Longrightarrow> (\<And>w. w \<in> set ws \<Longrightarrow> c \<notin> set w) \<Longrightarrow> split_on c (join [c] ws) = ws"
  by (induction "[c]" ws rule: join.induct) (simp_all add: split_on_absent split_on_append)

lemma split_on_parts: "w \<in> set (split_on c s) \<Longrightarrow> set w \<subseteq> set s \<and> c \<notin> set w"
  by (induction s arbitrary: w) (fastforce split: if_splits list.splits)+

lemma join_split: "join [c] (split_on c s) = s"
proof (induction s)
  case (Cons x s)
  then show ?case by (cases "split_on c s") (auto, (metis join.simps(2,3) list.exhaust append_Cons append_Nil)+)
qed simp

text \<open>The white space and line terminators that \<open>trim\<close> and the regular expression class
  \<open>\s\<close> agree on.\<close>

definition isWhiteSpace :: "code_unit \<Rightarrow> bool" where
  "isWhiteSpace c \<longleftrightarrow>
     9 \<le> c \<and> c \<le> 13 \<or> c = 32 \<or> c = 160 \<or> c = 5760 \<or> 8192 \<le> c \<and> c \<le> 8202
     \<or> c = 8232 \<or> c = 8233 \<or> c = 8239 \<or> c = 8287 \<or> c = 12288 \<or> c = 65279"

definition trimStart :: "jsstr \<Rightarrow> jsstr" where
  "trimStart s = dropWhile isWhiteSpace s"

definition trimEnd :: "jsstr \<Rightarrow> jsstr" where
  "trimEnd s = rev (dropWhile isWhiteSpace (rev s))"

definition trim :: "jsstr \<Rightarrow> jsstr" where
  "trim s = trimEnd (trimStart s)"

definition isDigit :: "code_unit \<Rightarrow> bool" where
  "isDigit c \<longleftrightarrow> 48 \<le> c \<and> c \<le> 57"

definition isAsciiAlpha :: "code_unit \<Rightarrow> bool" where
  "isAsciiAlpha c \<longleftrightarrow> 65 \<le> c \<and> c \<le> 90 \<or> 97 \<le> c \<and> c \<le> 122"

definition isAsciiAlnum :: "code_unit \<Rightarrow> bool" where
  "isAsciiAlnum c \<longleftrightarrow> isDigit c \<or> isAsciiAlpha c"

text \<open>\<open>String(n)\<close> for a natural number.\<close>

fun dec :: "nat \<Rightarrow> jsstr" where
  "dec n = (if n < 10 then [48 + n] else dec (n div 10) @ [48 + n mod 10])"

declare dec.simps [simp del]

text \<open>\<open>Number(s)\<close> of a string of decimal digits.\<close>

definition undec :: "jsstr \<Rightarrow> nat" where
  "undec s = foldl (\<lambda>n c. 10 * n + (c - 48)) 0 s"

lemma undec_snoc: "undec (s @ [c]) = 10 * undec s + (c - 48)"
  by (simp add: undec_def)

lemma undec_dec [simp]: "undec (dec n) = n"
proof (induction n rule: less_induct)
  case (less n)
  show ?case
  proof (cases "n < 10")
    case True
    then show ?thesis by (simp add: dec.simps undec_def)
  next
    case False
    then have "undec (dec n) = 10 * undec (dec (n div 10)) + n mod 10" by (simp add: dec.simps [of n] undec_snoc)
    then show ?thesis using less.IH [of "n div 10"] False by simp
  qed
qed

lemma dec_digits: "list_all isDigit (dec n)"
proof (induction n rule: less_induct)
  case (less n)
  then show ?case by (cases "n < 10") (auto simp: dec.simps [of n] isDigit_def)
qed

lemma dec_nonempty [simp]: "dec n \<noteq> []"
  by (simp add: dec.simps [of n])

definition padStart2 :: "jsstr \<Rightarrow> jsstr" where
  "padStart2 s = replicate (2 - length s) 48 @ s"

text \<open>\<open>if (!s)\<close> on an optional string: absent and empty are both falsy.\<close>

definition truthy :: "jsstr option \<Rightarrow> bool" where
  "truthy s \<longleftrightarrow> (case s of None \<Rightarrow> False | Some t \<Rightarrow> t \<noteq> [])"

lemma truthy_simps [simp]: "truthy (Some s) \<longleftrightarrow> s \<noteq> []" "\<not> truthy None"
  by (simp_all add: truthy_def)

section \<open>Ordered collections\<close>

text \<open>\<open>Set.add\<close> on a set kept as a list in insertion order.\<close>

definition set_add :: "'a \<Rightarrow> 'a list \<Rightarrow> 'a list" where
  "set_add x xs = (if x \<in> set xs then xs else xs @ [x])"

lemma set_set_add [simp]: "set (set_add x xs) = insert x (set xs)"
  by (auto simp: set_add_def)

lemma distinct_set_add [simp]: "distinct xs \<Longrightarrow> distinct (set_add x xs)"
  by (simp add: set_add_def)

lemma set_add_nonempty [simp]: "set_add x xs \<noteq> []"
  by (auto simp: set_add_def)

text \<open>\<open>new Set(xs)\<close>, in insertion order.\<close>

definition set_of :: "'a list \<Rightarrow> 'a list" where
  "set_of xs = foldl (\<lambda>acc x. set_add x acc) [] xs"

lemma set_set_of [simp]: "set (set_of xs) = set xs" and distinct_set_of [simp]: "distinct (set_of xs)"
proof -
  have "set (foldl (\<lambda>acc x. set_add x acc) acc xs) = set acc \<union> set xs
    \<and> (distinct acc \<longrightarrow> distinct (foldl (\<lambda>acc x. set_add x acc) acc xs))" for acc :: "'a list"
    by (induction xs arbitrary: acc) auto
  then show "set (set_of xs) = set xs" "distinct (set_of xs)" by (simp_all add: set_of_def)
qed

text \<open>Keep the first element of every key, the shape of every \<open>seen\<close>-set filter.\<close>

fun dedupe_from :: "('a \<Rightarrow> 'k) \<Rightarrow> 'k set \<Rightarrow> 'a list \<Rightarrow> 'a list" where
  "dedupe_from key seen [] = []"
| "dedupe_from key seen (x # xs) =
     (if key x \<in> seen then dedupe_from key seen xs
      else x # dedupe_from key (insert (key x) seen) xs)"

lemma dedupe_from_set: "set (dedupe_from key seen xs) \<subseteq> {x \<in> set xs. key x \<notin> seen}"
  by (induction key seen xs rule: dedupe_from.induct) auto

lemma dedupe_from_keys: "key ` set (dedupe_from key seen xs) = key ` set xs - seen"
  by (induction key seen xs rule: dedupe_from.induct) auto

lemma dedupe_from_distinct: "distinct (map key (dedupe_from key seen xs))"
  using dedupe_from_set by (induction key seen xs rule: dedupe_from.induct) fastforce+

lemma dedupe_from_id: "distinct (map key xs) \<Longrightarrow> key ` set xs \<inter> seen = {} \<Longrightarrow> dedupe_from key seen xs = xs"
  by (induction key seen xs rule: dedupe_from.induct) auto

section \<open>Code points of a UTF-16 string\<close>

definition isHighSurrogate :: "code_unit \<Rightarrow> bool" where
  "isHighSurrogate c \<longleftrightarrow> 55296 \<le> c \<and> c \<le> 56319"

definition isLowSurrogate :: "code_unit \<Rightarrow> bool" where
  "isLowSurrogate c \<longleftrightarrow> 56320 \<le> c \<and> c \<le> 57343"

text \<open>\<open>s.codePointAt(i)\<close> and \<open>String.fromCodePoint(v)\<close>.\<close>

definition code_point_at :: "jsstr \<Rightarrow> nat \<Rightarrow> nat option" where
  "code_point_at s i =
     (if i < length s then
        (if isHighSurrogate (s ! i) \<and> Suc i < length s \<and> isLowSurrogate (s ! Suc i)
         then Some (65536 + (s ! i - 55296) * 1024 + (s ! Suc i - 56320))
         else Some (s ! i))
      else None)"

definition fromCodePoint :: "nat \<Rightarrow> jsstr" where
  "fromCodePoint v =
     (if v \<le> 65535 then [v]
      else [55296 + (v - 65536) div 1024, 56320 + (v - 65536) mod 1024])"

lemma fromCodePoint_length: "length (fromCodePoint v) = (if v \<le> 65535 then 1 else 2)"
  by (simp add: fromCodePoint_def)

lemma code_unit_bound: "js_string s \<Longrightarrow> i < length s \<Longrightarrow> s ! i \<le> 65535"
  using nth_mem [of i s] unfolding js_string_def by fastforce

section \<open>Ranges of a source text\<close>

text \<open>Ascending, non-empty, disjoint ranges between \<open>lo\<close> and \<open>hi\<close>: what every scanner of a
  source text has to deliver.\<close>

fun ordered_ranges :: "nat \<Rightarrow> nat \<Rightarrow> (nat \<times> nat) list \<Rightarrow> bool" where
  "ordered_ranges lo hi [] \<longleftrightarrow> lo \<le> hi"
| "ordered_ranges lo hi ((a, b) # rs) \<longleftrightarrow> lo \<le> a \<and> a < b \<and> ordered_ranges b hi rs"

lemma ordered_ranges_bounds [range_laws]: "ordered_ranges lo hi rs \<Longrightarrow> lo \<le> hi"
  by (induction lo hi rs rule: ordered_ranges.induct) auto

lemma ordered_ranges_weaken [range_laws]:
  "ordered_ranges lo hi rs \<Longrightarrow> lo' \<le> lo \<Longrightarrow> lo' \<le> hi \<Longrightarrow> ordered_ranges lo' hi rs"
  by (cases "(lo, hi, rs)" rule: ordered_ranges.cases) auto

lemma ordered_ranges_append [range_laws]:
  "ordered_ranges lo mid rs \<Longrightarrow> ordered_ranges mid hi rs' \<Longrightarrow> ordered_ranges lo hi (rs @ rs')"
proof (induction lo mid rs rule: ordered_ranges.induct)
  case (1 lo mid)
  then have "mid \<le> hi" by (auto dest: ordered_ranges_bounds)
  with 1 show ?case using ordered_ranges_weaken [of mid hi rs' lo] by simp
qed auto

lemma ordered_ranges_mem [range_laws]:
  "ordered_ranges lo hi rs \<Longrightarrow> (a, b) \<in> set rs \<Longrightarrow> lo \<le> a \<and> a < b \<and> b \<le> hi"
proof (induction lo hi rs rule: ordered_ranges.induct)
  case (2 lo hi c d rs)
  then show ?case by (auto dest: ordered_ranges_bounds)
qed simp

section \<open>Slices\<close>

lemma slice_append: "i \<le> j \<Longrightarrow> j \<le> k \<Longrightarrow> slice s i j @ slice s j k = slice s i k"
proof -
  assume a: "i \<le> j" "j \<le> k"
  then have "take (k - i) (drop i s) = take ((j - i) + (k - j)) (drop i s)" by simp
  also have "\<dots> = take (j - i) (drop i s) @ take (k - j) (drop (j - i) (drop i s))"
    by (simp only: take_add)
  finally show ?thesis using a by (simp add: slice_def)
qed

lemma slice_length [simp]: "j \<le> length s \<Longrightarrow> length (slice s i j) = j - i"
  by (simp add: slice_def)

lemma slice_all [simp]: "slice s 0 (length s) = s"
  by (simp add: slice_def)

lemma slice_empty [simp]: "slice s i i = []"
  by (simp add: slice_def)

end
