(* ===== verification/Tag_Unicode_Data.thy ===== *)
theory Tag_Unicode_Data
  imports JS_Prelude
begin

text \<open>
  The code point tables of \<^verbatim>\<open>web/src/utils/tag-unicode-data.ts\<close>, copied as they stand:
  flat lists \<open>[from, to, from, to, \<dots>]\<close> of inclusive ranges. The list
  \<open>FULLY_QUALIFIED_EMOJI\<close> of the same file is not copied: the tag grammar takes the emoji
  sequences as an argument.
\<close>

definition XID_CONTINUE_RANGES :: "nat list" where
  "XID_CONTINUE_RANGES = [48, 57, 65, 90, 95, 95, 97, 122, 170, 170, 181, 181, 183, 183, 186, 186,
    192, 214, 216, 246, 248, 705, 710, 721, 736, 740, 748, 748, 750, 750, 768, 884, 886, 887, 891,
    893, 895, 895, 902, 906, 908, 908, 910, 929, 931, 1013, 1015, 1153, 1155, 1159, 1162, 1327,
    1329, 1366, 1369, 1369, 1376, 1416, 1425, 1469, 1471, 1471, 1473, 1474, 1476, 1477, 1479,
    1479, 1488, 1514, 1519, 1522, 1552, 1562, 1568, 1641, 1646, 1747, 1749, 1756, 1759, 1768,
    1770, 1788, 1791, 1791, 1808, 1866, 1869, 1969, 1984, 2037, 2042, 2042, 2045, 2045, 2048,
    2093, 2112, 2139, 2144, 2154, 2160, 2183, 2185, 2191, 2199, 2273, 2275, 2403, 2406, 2415,
    2417, 2435, 2437, 2444, 2447, 2448, 2451, 2472, 2474, 2480, 2482, 2482, 2486, 2489, 2492,
    2500, 2503, 2504, 2507, 2510, 2519, 2519, 2524, 2525, 2527, 2531, 2534, 2545, 2556, 2556,
    2558, 2558, 2561, 2563, 2565, 2570, 2575, 2576, 2579, 2600, 2602, 2608, 2610, 2611, 2613,
    2614, 2616, 2617, 2620, 2620, 2622, 2626, 2631, 2632, 2635, 2637, 2641, 2641, 2649, 2652,
    2654, 2654, 2662, 2677, 2689, 2691, 2693, 2701, 2703, 2705, 2707, 2728, 2730, 2736, 2738,
    2739, 2741, 2745, 2748, 2757, 2759, 2761, 2763, 2765, 2768, 2768, 2784, 2787, 2790, 2799,
    2809, 2815, 2817, 2819, 2821, 2828, 2831, 2832, 2835, 2856, 2858, 2864, 2866, 2867, 2869,
    2873, 2876, 2884, 2887, 2888, 2891, 2893, 2901, 2903, 2908, 2909, 2911, 2915, 2918, 2927,
    2929, 2929, 2946, 2947, 2949, 2954, 2958, 2960, 2962, 2965, 2969, 2970, 2972, 2972, 2974,
    2975, 2979, 2980, 2984, 2986, 2990, 3001, 3006, 3010, 3014, 3016, 3018, 3021, 3024, 3024,
    3031, 3031, 3046, 3055, 3072, 3084, 3086, 3088, 3090, 3112, 3114, 3129, 3132, 3140, 3142,
    3144, 3146, 3149, 3157, 3158, 3160, 3162, 3164, 3165, 3168, 3171, 3174, 3183, 3200, 3203,
    3205, 3212, 3214, 3216, 3218, 3240, 3242, 3251, 3253, 3257, 3260, 3268, 3270, 3272, 3274,
    3277, 3285, 3286, 3292, 3294, 3296, 3299, 3302, 3311, 3313, 3315, 3328, 3340, 3342, 3344,
    3346, 3396, 3398, 3400, 3402, 3406, 3412, 3415, 3423, 3427, 3430, 3439, 3450, 3455, 3457,
    3459, 3461, 3478, 3482, 3505, 3507, 3515, 3517, 3517, 3520, 3526, 3530, 3530, 3535, 3540,
    3542, 3542, 3544, 3551, 3558, 3567, 3570, 3571, 3585, 3642, 3648, 3662, 3664, 3673, 3713,
    3714, 3716, 3716, 3718, 3722, 3724, 3747, 3749, 3749, 3751, 3773, 3776, 3780, 3782, 3782,
    3784, 3790, 3792, 3801, 3804, 3807, 3840, 3840, 3864, 3865, 3872, 3881, 3893, 3893, 3895,
    3895, 3897, 3897, 3902, 3911, 3913, 3948, 3953, 3972, 3974, 3991, 3993, 4028, 4038, 4038,
    4096, 4169, 4176, 4253, 4256, 4293, 4295, 4295, 4301, 4301, 4304, 4346, 4348, 4680, 4682,
    4685, 4688, 4694, 4696, 4696, 4698, 4701, 4704, 4744, 4746, 4749, 4752, 4784, 4786, 4789,
    4792, 4798, 4800, 4800, 4802, 4805, 4808, 4822, 4824, 4880, 4882, 4885, 4888, 4954, 4957,
    4959, 4969, 4977, 4992, 5007, 5024, 5109, 5112, 5117, 5121, 5740, 5743, 5759, 5761, 5786,
    5792, 5866, 5870, 5880, 5888, 5909, 5919, 5940, 5952, 5971, 5984, 5996, 5998, 6000, 6002,
    6003, 6016, 6099, 6103, 6103, 6108, 6109, 6112, 6121, 6155, 6157, 6159, 6169, 6176, 6264,
    6272, 6314, 6320, 6389, 6400, 6430, 6432, 6443, 6448, 6459, 6470, 6509, 6512, 6516, 6528,
    6571, 6576, 6601, 6608, 6618, 6656, 6683, 6688, 6750, 6752, 6780, 6783, 6793, 6800, 6809,
    6823, 6823, 6832, 6845, 6847, 6877, 6880, 6891, 6912, 6988, 6992, 7001, 7019, 7027, 7040,
    7155, 7168, 7223, 7232, 7241, 7245, 7293, 7296, 7306, 7312, 7354, 7357, 7359, 7376, 7378,
    7380, 7418, 7424, 7957, 7960, 7965, 7968, 8005, 8008, 8013, 8016, 8023, 8025, 8025, 8027,
    8027, 8029, 8029, 8031, 8061, 8064, 8116, 8118, 8124, 8126, 8126, 8130, 8132, 8134, 8140,
    8144, 8147, 8150, 8155, 8160, 8172, 8178, 8180, 8182, 8188, 8204, 8205, 8255, 8256, 8276,
    8276, 8305, 8305, 8319, 8319, 8336, 8348, 8400, 8412, 8417, 8417, 8421, 8432, 8450, 8450,
    8455, 8455, 8458, 8467, 8469, 8469, 8472, 8477, 8484, 8484, 8486, 8486, 8488, 8488, 8490,
    8505, 8508, 8511, 8517, 8521, 8526, 8526, 8544, 8584, 11264, 11492, 11499, 11507, 11520,
    11557, 11559, 11559, 11565, 11565, 11568, 11623, 11631, 11631, 11647, 11670, 11680, 11686,
    11688, 11694, 11696, 11702, 11704, 11710, 11712, 11718, 11720, 11726, 11728, 11734, 11736,
    11742, 11744, 11775, 12293, 12295, 12321, 12335, 12337, 12341, 12344, 12348, 12353, 12438,
    12441, 12442, 12445, 12447, 12449, 12543, 12549, 12591, 12593, 12686, 12704, 12735, 12784,
    12799, 13312, 19903, 19968, 42124, 42192, 42237, 42240, 42508, 42512, 42539, 42560, 42607,
    42612, 42621, 42623, 42737, 42775, 42783, 42786, 42888, 42891, 42972, 42993, 43047, 43052,
    43052, 43072, 43123, 43136, 43205, 43216, 43225, 43232, 43255, 43259, 43259, 43261, 43309,
    43312, 43347, 43360, 43388, 43392, 43456, 43471, 43481, 43488, 43518, 43520, 43574, 43584,
    43597, 43600, 43609, 43616, 43638, 43642, 43714, 43739, 43741, 43744, 43759, 43762, 43766,
    43777, 43782, 43785, 43790, 43793, 43798, 43808, 43814, 43816, 43822, 43824, 43866, 43868,
    43881, 43888, 44010, 44012, 44013, 44016, 44025, 44032, 55203, 55216, 55238, 55243, 55291,
    63744, 64109, 64112, 64217, 64256, 64262, 64275, 64279, 64285, 64296, 64298, 64310, 64312,
    64316, 64318, 64318, 64320, 64321, 64323, 64324, 64326, 64433, 64467, 64605, 64612, 64829,
    64848, 64911, 64914, 64967, 65008, 65017, 65024, 65039, 65056, 65071, 65075, 65076, 65101,
    65103, 65137, 65137, 65139, 65139, 65143, 65143, 65145, 65145, 65147, 65147, 65149, 65149,
    65151, 65276, 65296, 65305, 65313, 65338, 65343, 65343, 65345, 65370, 65381, 65470, 65474,
    65479, 65482, 65487, 65490, 65495, 65498, 65500, 65536, 65547, 65549, 65574, 65576, 65594,
    65596, 65597, 65599, 65613, 65616, 65629, 65664, 65786, 65856, 65908, 66045, 66045, 66176,
    66204, 66208, 66256, 66272, 66272, 66304, 66335, 66349, 66378, 66384, 66426, 66432, 66461,
    66464, 66499, 66504, 66511, 66513, 66517, 66560, 66717, 66720, 66729, 66736, 66771, 66776,
    66811, 66816, 66855, 66864, 66915, 66928, 66938, 66940, 66954, 66956, 66962, 66964, 66965,
    66967, 66977, 66979, 66993, 66995, 67001, 67003, 67004, 67008, 67059, 67072, 67382, 67392,
    67413, 67424, 67431, 67456, 67461, 67463, 67504, 67506, 67514, 67584, 67589, 67592, 67592,
    67594, 67637, 67639, 67640, 67644, 67644, 67647, 67669, 67680, 67702, 67712, 67742, 67808,
    67826, 67828, 67829, 67840, 67861, 67872, 67897, 67904, 67929, 67968, 68023, 68030, 68031,
    68096, 68099, 68101, 68102, 68108, 68115, 68117, 68119, 68121, 68149, 68152, 68154, 68159,
    68159, 68192, 68220, 68224, 68252, 68288, 68295, 68297, 68326, 68352, 68405, 68416, 68437,
    68448, 68466, 68480, 68497, 68608, 68680, 68736, 68786, 68800, 68850, 68864, 68903, 68912,
    68921, 68928, 68965, 68969, 68973, 68975, 68997, 69248, 69289, 69291, 69292, 69296, 69297,
    69314, 69319, 69370, 69404, 69415, 69415, 69424, 69456, 69488, 69509, 69552, 69572, 69600,
    69622, 69632, 69702, 69734, 69749, 69759, 69818, 69826, 69826, 69840, 69864, 69872, 69881,
    69888, 69940, 69942, 69951, 69956, 69959, 69968, 70003, 70006, 70006, 70016, 70084, 70089,
    70092, 70094, 70106, 70108, 70108, 70144, 70161, 70163, 70199, 70206, 70209, 70272, 70278,
    70280, 70280, 70282, 70285, 70287, 70301, 70303, 70312, 70320, 70378, 70384, 70393, 70400,
    70403, 70405, 70412, 70415, 70416, 70419, 70440, 70442, 70448, 70450, 70451, 70453, 70457,
    70459, 70468, 70471, 70472, 70475, 70477, 70480, 70480, 70487, 70487, 70493, 70499, 70502,
    70508, 70512, 70516, 70528, 70537, 70539, 70539, 70542, 70542, 70544, 70581, 70583, 70592,
    70594, 70594, 70597, 70597, 70599, 70602, 70604, 70611, 70625, 70626, 70656, 70730, 70736,
    70745, 70750, 70753, 70784, 70853, 70855, 70855, 70864, 70873, 71040, 71093, 71096, 71104,
    71128, 71133, 71168, 71232, 71236, 71236, 71248, 71257, 71296, 71352, 71360, 71369, 71376,
    71395, 71424, 71450, 71453, 71467, 71472, 71481, 71488, 71494, 71680, 71738, 71840, 71913,
    71935, 71942, 71945, 71945, 71948, 71955, 71957, 71958, 71960, 71989, 71991, 71992, 71995,
    72003, 72016, 72025, 72096, 72103, 72106, 72151, 72154, 72161, 72163, 72164, 72192, 72254,
    72263, 72263, 72272, 72345, 72349, 72349, 72368, 72440, 72544, 72551, 72640, 72672, 72688,
    72697, 72704, 72712, 72714, 72758, 72760, 72768, 72784, 72793, 72818, 72847, 72850, 72871,
    72873, 72886, 72960, 72966, 72968, 72969, 72971, 73014, 73018, 73018, 73020, 73021, 73023,
    73031, 73040, 73049, 73056, 73061, 73063, 73064, 73066, 73102, 73104, 73105, 73107, 73112,
    73120, 73129, 73136, 73179, 73184, 73193, 73440, 73462, 73472, 73488, 73490, 73530, 73534,
    73538, 73552, 73562, 73648, 73648, 73728, 74649, 74752, 74862, 74880, 75075, 77712, 77808,
    77824, 78895, 78912, 78933, 78944, 82938, 82944, 83526, 90368, 90425, 92160, 92728, 92736,
    92766, 92768, 92777, 92784, 92862, 92864, 92873, 92880, 92909, 92912, 92916, 92928, 92982,
    92992, 92995, 93008, 93017, 93027, 93047, 93053, 93071, 93504, 93548, 93552, 93561, 93760,
    93823, 93856, 93880, 93883, 93907, 93952, 94026, 94031, 94087, 94095, 94111, 94176, 94177,
    94179, 94180, 94192, 94198, 94208, 101589, 101631, 101662, 101760, 101874, 110576, 110579,
    110581, 110587, 110589, 110590, 110592, 110882, 110898, 110898, 110928, 110930, 110933,
    110933, 110948, 110951, 110960, 111355, 113664, 113770, 113776, 113788, 113792, 113800,
    113808, 113817, 113821, 113822, 118000, 118009, 118528, 118573, 118576, 118598, 119141,
    119145, 119149, 119154, 119163, 119170, 119173, 119179, 119210, 119213, 119362, 119364,
    119808, 119892, 119894, 119964, 119966, 119967, 119970, 119970, 119973, 119974, 119977,
    119980, 119982, 119993, 119995, 119995, 119997, 120003, 120005, 120069, 120071, 120074,
    120077, 120084, 120086, 120092, 120094, 120121, 120123, 120126, 120128, 120132, 120134,
    120134, 120138, 120144, 120146, 120485, 120488, 120512, 120514, 120538, 120540, 120570,
    120572, 120596, 120598, 120628, 120630, 120654, 120656, 120686, 120688, 120712, 120714,
    120744, 120746, 120770, 120772, 120779, 120782, 120831, 121344, 121398, 121403, 121452,
    121461, 121461, 121476, 121476, 121499, 121503, 121505, 121519, 122624, 122654, 122661,
    122666, 122880, 122886, 122888, 122904, 122907, 122913, 122915, 122916, 122918, 122922,
    122928, 122989, 123023, 123023, 123136, 123180, 123184, 123197, 123200, 123209, 123214,
    123214, 123536, 123566, 123584, 123641, 124112, 124153, 124368, 124410, 124608, 124638,
    124640, 124661, 124670, 124671, 124896, 124902, 124904, 124907, 124909, 124910, 124912,
    124926, 124928, 125124, 125136, 125142, 125184, 125259, 125264, 125273, 126464, 126467,
    126469, 126495, 126497, 126498, 126500, 126500, 126503, 126503, 126505, 126514, 126516,
    126519, 126521, 126521, 126523, 126523, 126530, 126530, 126535, 126535, 126537, 126537,
    126539, 126539, 126541, 126543, 126545, 126546, 126548, 126548, 126551, 126551, 126553,
    126553, 126555, 126555, 126557, 126557, 126559, 126559, 126561, 126562, 126564, 126564,
    126567, 126570, 126572, 126578, 126580, 126583, 126585, 126588, 126590, 126590, 126592,
    126601, 126603, 126619, 126625, 126627, 126629, 126633, 126635, 126651, 130032, 130041,
    131072, 173791, 173824, 178205, 178208, 183981, 183984, 191456, 191472, 192093, 194560,
    195101, 196608, 201546, 201552, 210041, 917760, 917999]"

definition DEFAULT_IGNORABLE_RANGES :: "nat list" where
  "DEFAULT_IGNORABLE_RANGES = [173, 173, 847, 847, 1564, 1564, 4447, 4448, 6068, 6069, 6155, 6159,
    8203, 8207, 8234, 8238, 8288, 8303, 12644, 12644, 65024, 65039, 65279, 65279, 65440, 65440,
    65520, 65528, 113824, 113827, 119155, 119162, 917504, 921599]"

definition COMBINING_MARK_RANGES :: "nat list" where
  "COMBINING_MARK_RANGES = [768, 879, 1155, 1159, 1425, 1469, 1471, 1471, 1473, 1474, 1476, 1477,
    1479, 1479, 1552, 1562, 1611, 1631, 1648, 1648, 1750, 1756, 1759, 1764, 1767, 1768, 1770,
    1773, 1809, 1809, 1840, 1866, 1958, 1968, 2027, 2035, 2045, 2045, 2070, 2073, 2075, 2083,
    2085, 2087, 2089, 2093, 2137, 2139, 2199, 2207, 2250, 2273, 2275, 2307, 2362, 2364, 2366,
    2383, 2385, 2391, 2402, 2403, 2433, 2435, 2492, 2492, 2494, 2500, 2503, 2504, 2507, 2509,
    2519, 2519, 2530, 2531, 2558, 2558, 2561, 2563, 2620, 2620, 2622, 2626, 2631, 2632, 2635,
    2637, 2641, 2641, 2672, 2673, 2677, 2677, 2689, 2691, 2748, 2748, 2750, 2757, 2759, 2761,
    2763, 2765, 2786, 2787, 2810, 2815, 2817, 2819, 2876, 2876, 2878, 2884, 2887, 2888, 2891,
    2893, 2901, 2903, 2914, 2915, 2946, 2946, 3006, 3010, 3014, 3016, 3018, 3021, 3031, 3031,
    3072, 3076, 3132, 3132, 3134, 3140, 3142, 3144, 3146, 3149, 3157, 3158, 3170, 3171, 3201,
    3203, 3260, 3260, 3262, 3268, 3270, 3272, 3274, 3277, 3285, 3286, 3298, 3299, 3315, 3315,
    3328, 3331, 3387, 3388, 3390, 3396, 3398, 3400, 3402, 3405, 3415, 3415, 3426, 3427, 3457,
    3459, 3530, 3530, 3535, 3540, 3542, 3542, 3544, 3551, 3570, 3571, 3633, 3633, 3636, 3642,
    3655, 3662, 3761, 3761, 3764, 3772, 3784, 3790, 3864, 3865, 3893, 3893, 3895, 3895, 3897,
    3897, 3902, 3903, 3953, 3972, 3974, 3975, 3981, 3991, 3993, 4028, 4038, 4038, 4139, 4158,
    4182, 4185, 4190, 4192, 4194, 4196, 4199, 4205, 4209, 4212, 4226, 4237, 4239, 4239, 4250,
    4253, 4957, 4959, 5906, 5909, 5938, 5940, 5970, 5971, 6002, 6003, 6068, 6099, 6109, 6109,
    6155, 6157, 6159, 6159, 6277, 6278, 6313, 6313, 6432, 6443, 6448, 6459, 6679, 6683, 6741,
    6750, 6752, 6780, 6783, 6783, 6832, 6845, 6847, 6877, 6880, 6891, 6912, 6916, 6964, 6980,
    7019, 7027, 7040, 7042, 7073, 7085, 7142, 7155, 7204, 7223, 7376, 7378, 7380, 7400, 7405,
    7405, 7412, 7412, 7415, 7417, 7616, 7679, 8400, 8412, 8417, 8417, 8421, 8432, 11503, 11505,
    11647, 11647, 11744, 11775, 12330, 12335, 12441, 12442, 42607, 42607, 42612, 42621, 42654,
    42655, 42736, 42737, 43010, 43010, 43014, 43014, 43019, 43019, 43043, 43047, 43052, 43052,
    43136, 43137, 43188, 43205, 43232, 43249, 43263, 43263, 43302, 43309, 43335, 43347, 43392,
    43395, 43443, 43456, 43493, 43493, 43561, 43574, 43587, 43587, 43596, 43597, 43643, 43645,
    43696, 43696, 43698, 43700, 43703, 43704, 43710, 43711, 43713, 43713, 43755, 43759, 43765,
    43766, 44003, 44010, 44012, 44013, 64286, 64286, 65024, 65039, 65056, 65071, 66045, 66045,
    66272, 66272, 66422, 66426, 68097, 68099, 68101, 68102, 68108, 68111, 68152, 68154, 68159,
    68159, 68325, 68326, 68900, 68903, 68969, 68973, 69291, 69292, 69370, 69375, 69446, 69456,
    69506, 69509, 69632, 69634, 69688, 69702, 69744, 69744, 69747, 69748, 69759, 69762, 69808,
    69818, 69826, 69826, 69888, 69890, 69927, 69940, 69957, 69958, 70003, 70003, 70016, 70018,
    70067, 70080, 70089, 70092, 70094, 70095, 70188, 70199, 70206, 70206, 70209, 70209, 70367,
    70378, 70400, 70403, 70459, 70460, 70462, 70468, 70471, 70472, 70475, 70477, 70487, 70487,
    70498, 70499, 70502, 70508, 70512, 70516, 70584, 70592, 70594, 70594, 70597, 70597, 70599,
    70602, 70604, 70608, 70610, 70610, 70625, 70626, 70709, 70726, 70750, 70750, 70832, 70851,
    71087, 71093, 71096, 71104, 71132, 71133, 71216, 71232, 71339, 71351, 71453, 71467, 71724,
    71738, 71984, 71989, 71991, 71992, 71995, 71998, 72000, 72000, 72002, 72003, 72145, 72151,
    72154, 72160, 72164, 72164, 72193, 72202, 72243, 72249, 72251, 72254, 72263, 72263, 72273,
    72283, 72330, 72345, 72544, 72551, 72751, 72758, 72760, 72767, 72850, 72871, 72873, 72886,
    73009, 73014, 73018, 73018, 73020, 73021, 73023, 73029, 73031, 73031, 73098, 73102, 73104,
    73105, 73107, 73111, 73459, 73462, 73472, 73473, 73475, 73475, 73524, 73530, 73534, 73538,
    73562, 73562, 78912, 78912, 78919, 78933, 90398, 90415, 92912, 92916, 92976, 92982, 94031,
    94031, 94033, 94087, 94095, 94098, 94180, 94180, 94192, 94193, 113821, 113822, 118528, 118573,
    118576, 118598, 119141, 119145, 119149, 119154, 119163, 119170, 119173, 119179, 119210,
    119213, 119362, 119364, 121344, 121398, 121403, 121452, 121461, 121461, 121476, 121476,
    121499, 121503, 121505, 121519, 122880, 122886, 122888, 122904, 122907, 122913, 122915,
    122916, 122918, 122922, 123023, 123023, 123184, 123190, 123566, 123566, 123628, 123631,
    124140, 124143, 124398, 124399, 124643, 124643, 124646, 124646, 124654, 124655, 124661,
    124661, 125136, 125142, 125252, 125258, 917760, 917999]"

section \<open>The tables are sorted and disjoint\<close>

text \<open>What the binary search relies on: the ranges are in order, each is non-empty and they do
  not overlap.\<close>

fun wf_ranges :: "nat list \<Rightarrow> bool" where
  "wf_ranges [] = True"
| "wf_ranges [a, b] = (a \<le> b)"
| "wf_ranges (a # b # c # rs) = (a \<le> b \<and> b < c \<and> wf_ranges (c # rs))"
| "wf_ranges _ = False"

lemma wf_XID_CONTINUE_RANGES: "wf_ranges XID_CONTINUE_RANGES"
  by (simp add: XID_CONTINUE_RANGES_def)

lemma wf_DEFAULT_IGNORABLE_RANGES: "wf_ranges DEFAULT_IGNORABLE_RANGES"
  by (simp add: DEFAULT_IGNORABLE_RANGES_def)

lemma wf_COMBINING_MARK_RANGES: "wf_ranges COMBINING_MARK_RANGES"
  by (simp add: COMBINING_MARK_RANGES_def)

lemma wf_ranges_sorted: "wf_ranges rs \<Longrightarrow> sorted rs"
  by (induction rs rule: wf_ranges.induct) auto

lemma wf_ranges_even: "wf_ranges rs \<Longrightarrow> even (length rs)"
  by (induction rs rule: wf_ranges.induct) auto

lemmas unicode_tables_sorted =
  wf_ranges_sorted [OF wf_XID_CONTINUE_RANGES] wf_ranges_sorted [OF wf_DEFAULT_IGNORABLE_RANGES]
  wf_ranges_sorted [OF wf_COMBINING_MARK_RANGES]

end
