(* ===== verification/Tag_Grammar.thy ===== *)
theory Tag_Grammar
  imports Tag_Unicode_Data "HOL-Library.Sublist"
begin

text \<open>
  The tag lexer of \<^verbatim>\<open>web/src/utils/tag-grammar.ts\<close>: the emoji trie, the binary search in
  the code point tables, the segment and tag scanners and the enumeration of all tags of a
  literal run. The root of the emoji trie is an argument (\<open>R\<close>); \<open>emojiTrie\<close> builds it
  from the list of emoji sequences as the module does when it is loaded.
\<close>

section \<open>Data\<close>

record TagMatch =
  tag_from :: nat
  tag_to :: nat
  tag_source :: jsstr
  tag_value :: jsstr

datatype EmojiTrieNode = EmojiTrieNode (children: "(nat \<times> EmojiTrieNode) list") (terminal: bool)

record SegmentMatch =
  seg_to :: nat
  seg_value :: jsstr

section \<open>The code point at an offset\<close>

definition codePointAt :: "jsstr \<Rightarrow> nat \<Rightarrow> jsstr" where
  "codePointAt source index =
     (case code_point_at source index of None \<Rightarrow> [] | Some v \<Rightarrow> fromCodePoint v)"

section \<open>The emoji trie\<close>

fun trie_insert :: "nat list \<Rightarrow> EmojiTrieNode \<Rightarrow> EmojiTrieNode" where
  "trie_insert [] node = EmojiTrieNode (children node) True"
| "trie_insert (v # vs) node =
     (let child = (case map_of (children node) v of
                     None \<Rightarrow> EmojiTrieNode [] False | Some c \<Rightarrow> c)
      in EmojiTrieNode (AList.update v (trie_insert vs child) (children node)) (terminal node))"

definition emojiTrie :: "nat list list \<Rightarrow> EmojiTrieNode" where
  "emojiTrie emojis = foldl (\<lambda>root emoji. trie_insert emoji root) (EmojiTrieNode [] False) emojis"

section \<open>Character classes\<close>

function isInRangesLoop :: "nat \<Rightarrow> nat list \<Rightarrow> int \<Rightarrow> int \<Rightarrow> bool" where
  "isInRangesLoop codePoint ranges low high =
     (if low \<le> high then
        let middle = (low + high) div 2;
            from = ranges ! nat (middle * 2);
            to = ranges ! nat (middle * 2 + 1)
        in if codePoint < from then isInRangesLoop codePoint ranges low (middle - 1)
           else if codePoint > to then isInRangesLoop codePoint ranges (middle + 1) high
           else True
      else False)"
  by pat_completeness auto
termination
  by (relation "measure (\<lambda>(_, _, low, high). nat (high - low + 1))") auto

declare isInRangesLoop.simps [simp del]

definition isInRanges :: "nat \<Rightarrow> nat list \<Rightarrow> bool" where
  "isInRanges codePoint ranges =
     isInRangesLoop codePoint ranges 0 (int (length ranges) div 2 - 1)"

definition first_code_point :: "jsstr \<Rightarrow> nat" where
  "first_code_point s = (case code_point_at s 0 of None \<Rightarrow> 0 | Some v \<Rightarrow> v)"

definition isDefaultIgnorable :: "jsstr \<Rightarrow> bool" where
  "isDefaultIgnorable s = isInRanges (first_code_point s) DEFAULT_IGNORABLE_RANGES"

definition isXIDContinue :: "jsstr \<Rightarrow> bool" where
  "isXIDContinue s \<longleftrightarrow>
     isInRanges (first_code_point s) XID_CONTINUE_RANGES \<and> \<not> isDefaultIgnorable s"

definition isCombiningMark :: "jsstr \<Rightarrow> bool" where
  "isCombiningMark s = isInRanges (first_code_point s) COMBINING_MARK_RANGES"

definition isExtensionUnit :: "jsstr \<Rightarrow> bool" where
  "isExtensionUnit s \<longleftrightarrow> s = js ''-'' \<or> s = js ''+'' \<or> s = js ''&''"

text \<open>U+0027 and U+2019.\<close>

definition isApostropheJoiner :: "jsstr \<Rightarrow> bool" where
  "isApostropheJoiner s \<longleftrightarrow> s = [39] \<or> s = [8217]"

section \<open>Emoji matching\<close>

function emojiLoop ::
  "jsstr \<Rightarrow> nat \<Rightarrow> EmojiTrieNode \<Rightarrow> nat \<Rightarrow> nat option \<Rightarrow> nat option" where
  "emojiLoop source limit node cursor longestEnd =
     (if cursor < limit then
        (case code_point_at source cursor of
           None \<Rightarrow> longestEnd
         | Some codePoint \<Rightarrow>
             (case map_of (children node) codePoint of
                None \<Rightarrow> longestEnd
              | Some child \<Rightarrow>
                  let cursor' = cursor + (if codePoint > 65535 then 2 else 1)
                  in if cursor' > limit then longestEnd
                     else emojiLoop source limit child cursor'
                            (if terminal child then Some cursor' else longestEnd)))
      else longestEnd)"
  by pat_completeness auto
termination
  by (relation "measure (\<lambda>(_, limit, _, cursor, _). limit - cursor)") auto

declare emojiLoop.simps [simp del]

definition emojiAt :: "EmojiTrieNode \<Rightarrow> jsstr \<Rightarrow> nat \<Rightarrow> nat \<Rightarrow> jsstr option" where
  "emojiAt R source index limit =
     map_option (\<lambda>longestEnd. slice source index longestEnd)
       (emojiLoop source limit R index None)"

definition isTagIntroducerAt :: "EmojiTrieNode \<Rightarrow> jsstr \<Rightarrow> int \<Rightarrow> nat \<Rightarrow> bool" where
  "isTagIntroducerAt R source index limit \<longleftrightarrow>
     index \<ge> 0 \<and> index < int limit \<and> charAt source (nat index) = Some 35
     \<and> emojiAt R source (nat index) limit = None"

definition isNonCombiningXIDContinuationAt ::
  "EmojiTrieNode \<Rightarrow> jsstr \<Rightarrow> nat \<Rightarrow> nat \<Rightarrow> bool" where
  "isNonCombiningXIDContinuationAt R source index limit \<longleftrightarrow>
     (if index \<ge> limit \<or> emojiAt R source index limit \<noteq> None then False
      else let v = codePointAt source index
           in index + length v \<le> limit \<and> isXIDContinue v \<and> \<not> isCombiningMark v)"

section \<open>The trie refines the set of emoji sequences\<close>

fun accepts :: "EmojiTrieNode \<Rightarrow> nat list \<Rightarrow> bool" where
  "accepts node [] = terminal node"
| "accepts node (v # vs) =
     (case map_of (children node) v of None \<Rightarrow> False | Some c \<Rightarrow> accepts c vs)"

lemma accepts_empty [simp]: "\<not> accepts (EmojiTrieNode [] False) vs"
  by (cases vs) auto

lemma accepts_insert [simp]: "accepts (trie_insert w node) vs \<longleftrightarrow> vs = w \<or> accepts node vs"
proof (induction w arbitrary: node vs)
  case Nil
  then show ?case by (cases vs) auto
next
  case (Cons v w)
  then show ?case
    by (cases vs) (auto simp: Let_def update_conv split: option.splits)
qed

lemma accepts_emojiTrie: "accepts (emojiTrie E) vs \<longleftrightarrow> vs \<in> set E"
proof -
  have "accepts (foldl (\<lambda>root emoji. trie_insert emoji root) n E) vs \<longleftrightarrow> vs \<in> set E \<or> accepts n vs" for n
    by (induction E arbitrary: n) auto
  then show ?thesis by (simp add: emojiTrie_def)
qed

text \<open>\<open>reads_code_points s l i vs e\<close>: the code points of \<open>s\<close> from \<open>i\<close> to \<open>e \<le> l\<close> are \<open>vs\<close>.\<close>

fun reads_code_points :: "jsstr \<Rightarrow> nat \<Rightarrow> nat \<Rightarrow> nat list \<Rightarrow> nat \<Rightarrow> bool" where
  "reads_code_points s l i [] e = (e = i)"
| "reads_code_points s l i (v # vs) e \<longleftrightarrow>
     i < l \<and> code_point_at s i = Some v \<and> i + length (fromCodePoint v) \<le> l
     \<and> reads_code_points s l (i + length (fromCodePoint v)) vs e"

lemma reads_mono: "reads_code_points s l i vs e \<Longrightarrow> i \<le> e"
  by (induction vs arbitrary: i) fastforce+

lemma reads_limit: "reads_code_points s l i vs e \<Longrightarrow> vs \<noteq> [] \<Longrightarrow> i < e \<and> e \<le> l"
proof (induction vs arbitrary: i)
  case (Cons v vs)
  then show ?case by (cases vs) (auto simp: fromCodePoint_length split: if_splits dest: reads_mono)
qed simp

definition emoji_ends :: "EmojiTrieNode \<Rightarrow> jsstr \<Rightarrow> nat \<Rightarrow> nat \<Rightarrow> nat set" where
  "emoji_ends n s l i = {e. \<exists>vs. vs \<noteq> [] \<and> accepts n vs \<and> reads_code_points s l i vs e}"

lemma emoji_ends_cases:
  assumes "e \<in> emoji_ends n s l i"
  obtains v vs where "accepts n (v # vs)" "reads_code_points s l i (v # vs) e"
proof -
  from assms obtain ws where ws: "ws \<noteq> []" "accepts n ws" "reads_code_points s l i ws e"
    by (auto simp: emoji_ends_def)
  show thesis using ws by (cases ws) (auto intro: that)
qed

lemma emoji_ends_step:
  assumes "i < l" "code_point_at s i = Some v" "map_of (children n) v = Some c"
    and "i' = i + length (fromCodePoint v)" "i' \<le> l"
  shows "emoji_ends n s l i = (if terminal c then {i'} else {}) \<union> emoji_ends c s l i'"
proof (intro set_eqI iffI)
  fix e assume "e \<in> emoji_ends n s l i"
  then obtain w ws where "accepts n (w # ws)" "reads_code_points s l i (w # ws) e"
    by (rule emoji_ends_cases)
  with assms show "e \<in> (if terminal c then {i'} else {}) \<union> emoji_ends c s l i'"
    by (cases ws) (auto simp: emoji_ends_def)
next
  fix e assume e: "e \<in> (if terminal c then {i'} else {}) \<union> emoji_ends c s l i'"
  then obtain ws where "accepts c ws" "reads_code_points s l i' ws e"
    by (auto simp: emoji_ends_def split: if_splits intro: that [of "[]"])
  with assms show "e \<in> emoji_ends n s l i"
    unfolding emoji_ends_def by (intro CollectI exI [of _ "v # ws"]) auto
qed

lemma emoji_ends_stuck:
  assumes "\<not> i < l \<or> code_point_at s i = None"
  shows "emoji_ends n s l i = {}"
  using assms by (auto elim!: emoji_ends_cases)

lemma emoji_ends_miss:
  assumes "code_point_at s i = Some v"
    and "map_of (children n) v = None \<or> l < i + length (fromCodePoint v)"
  shows "emoji_ends n s l i = {}"
  using assms by (auto elim!: emoji_ends_cases split: option.splits)

lemma emojiLoop_spec:
  "emojiLoop s l n i d = Some r \<longleftrightarrow>
     r \<in> emoji_ends n s l i \<and> (\<forall>e \<in> emoji_ends n s l i. e \<le> r)
     \<or> emoji_ends n s l i = {} \<and> d = Some r"
proof (induction s l n i d rule: emojiLoop.induct)
  case (1 s l n i d)
  consider (stop) "\<not> i < l \<or> code_point_at s i = None"
    | (miss) v where "i < l" "code_point_at s i = Some v" "map_of (children n) v = None"
    | (over) v c where "i < l" "code_point_at s i = Some v" "map_of (children n) v = Some c"
        "l < i + length (fromCodePoint v)"
    | (step) v c where "i < l" "code_point_at s i = Some v" "map_of (children n) v = Some c"
        "i + length (fromCodePoint v) \<le> l"
    by (metis not_le option.exhaust)
  then show ?case
  proof cases
    case step
    let ?i = "i + length (fromCodePoint v)"
    have i: "i + (if v > 65535 then 2 else 1) = ?i" by (simp add: fromCodePoint_length)
    have above: "?i < e" if "e \<in> emoji_ends c s l ?i" for e
      using that reads_limit by (auto simp: emoji_ends_def)
    have "emojiLoop s l n i d = emojiLoop s l c ?i (if terminal c then Some ?i else d)"
      using step by (simp add: emojiLoop.simps [of s l n] i Let_def)
    also have "\<dots> = Some r \<longleftrightarrow> r \<in> emoji_ends c s l ?i \<and> (\<forall>e \<in> emoji_ends c s l ?i. e \<le> r)
      \<or> emoji_ends c s l ?i = {} \<and> (if terminal c then Some ?i else d) = Some r"
      using "1.IH" [OF step(1-3) i [symmetric]] step(4) by simp
    also have "\<dots> \<longleftrightarrow> r \<in> emoji_ends n s l i \<and> (\<forall>e \<in> emoji_ends n s l i. e \<le> r)
     \<or> emoji_ends n s l i = {} \<and> d = Some r"
      using above unfolding emoji_ends_step [OF step(1-3) refl step(4)]
      by (cases "emoji_ends c s l ?i = {}") (auto intro: less_imp_le dest: leD)
    finally show ?thesis .
  next
    case stop
    then show ?thesis
      by (auto simp: emojiLoop.simps [of s l n] emoji_ends_stuck)
  next
    case miss
    then show ?thesis by (simp add: emojiLoop.simps [of s l n] emoji_ends_miss)
  next
    case over
    then have "emoji_ends n s l i = {}" by (intro emoji_ends_miss) auto
    with over show ?thesis
      by (auto simp: emojiLoop.simps [of s l n] Let_def fromCodePoint_length split: if_splits)
  qed
qed

section \<open>Binary search\<close>

lemma isInRangesLoop_iff:
  assumes "sorted rs" and "0 \<le> low" and "2 * high + 1 < int (length rs)"
  shows "isInRangesLoop c rs low high \<longleftrightarrow>
    (\<exists>i. low \<le> i \<and> i \<le> high \<and> rs ! nat (2 * i) \<le> c \<and> c \<le> rs ! nat (2 * i + 1))"
  using assms
proof (induction c rs low high rule: isInRangesLoop.induct)
  case (1 c rs low high)
  let ?m = "(low + high) div 2"
  show ?case
  proof (cases "low \<le> high")
    case False
    then show ?thesis by (auto simp: isInRangesLoop.simps [of c rs low high])
  next
    case True
    note m = True "1.prems"
    have above: "rs ! nat (2 * ?m) \<le> rs ! nat (2 * i)" if "?m \<le> i" "i \<le> high" for i
      using that m by (intro sorted_nth_mono) auto
    have below: "rs ! nat (2 * i + 1) \<le> rs ! nat (2 * ?m + 1)" if "low \<le> i" "i \<le> ?m" for i
      using that m by (intro sorted_nth_mono) auto
    consider (lt) "c < rs ! nat (?m * 2)" | (gt) "\<not> c < rs ! nat (?m * 2)" "c > rs ! nat (?m * 2 + 1)"
      | (hit) "rs ! nat (?m * 2) \<le> c" "c \<le> rs ! nat (?m * 2 + 1)" by linarith
    then show ?thesis
    proof cases
      case lt
      have IH: "isInRangesLoop c rs low (?m - 1) \<longleftrightarrow>
        (\<exists>i. low \<le> i \<and> i \<le> ?m - 1 \<and> rs ! nat (2 * i) \<le> c \<and> c \<le> rs ! nat (2 * i + 1))"
        using "1.IH"(1) [OF True refl refl refl lt] m by simp
      have "i \<le> ?m - 1" if "i \<le> high" "rs ! nat (2 * i) \<le> c" for i
        using above [of i] that lt by (cases "?m \<le> i") (auto simp: mult.commute)
      moreover have "i \<le> high" if "i \<le> ?m - 1" for i using that True by linarith
      moreover have "isInRangesLoop c rs low high = isInRangesLoop c rs low (?m - 1)"
        using True lt by (simp add: isInRangesLoop.simps [of c rs low high] Let_def)
      ultimately show ?thesis unfolding IH by blast
    next
      case gt
      have IH: "isInRangesLoop c rs (?m + 1) high \<longleftrightarrow>
        (\<exists>i. ?m + 1 \<le> i \<and> i \<le> high \<and> rs ! nat (2 * i) \<le> c \<and> c \<le> rs ! nat (2 * i + 1))"
        using "1.IH"(2) [OF True refl refl refl gt] m by simp
      have "?m + 1 \<le> i" if "low \<le> i" "c \<le> rs ! nat (2 * i + 1)" for i
        using below [of i] that gt by (cases "i \<le> ?m") (auto simp: mult.commute)
      moreover have "low \<le> i" if "?m + 1 \<le> i" for i using that True by linarith
      moreover have "isInRangesLoop c rs low high = isInRangesLoop c rs (?m + 1) high"
        using True gt by (simp add: isInRangesLoop.simps [of c rs low high] Let_def)
      ultimately show ?thesis unfolding IH by blast
    next
      case hit
      have "isInRangesLoop c rs low high"
        using True hit by (simp add: isInRangesLoop.simps [of c rs low high] Let_def)
      moreover have "low \<le> ?m" "?m \<le> high" using True by auto
      ultimately show ?thesis using hit by (auto simp: mult.commute)
    qed
  qed
qed

lemma isInRanges_iff:
  assumes "sorted rs"
  shows "isInRanges c rs \<longleftrightarrow>
    (\<exists>i. Suc (2 * i) < length rs \<and> rs ! (2 * i) \<le> c \<and> c \<le> rs ! Suc (2 * i))"
    (is "?l = ?r")
proof -
  have "2 * (int (length rs) div 2 - 1) + 1 < int (length rs)" by presburger
  from isInRangesLoop_iff [OF assms order_refl this]
  have "?l \<longleftrightarrow> (\<exists>j. 0 \<le> j \<and> j \<le> int (length rs) div 2 - 1 \<and>
      rs ! nat (2 * j) \<le> c \<and> c \<le> rs ! nat (2 * j + 1))"
    by (simp add: isInRanges_def)
  also have "\<dots> = ?r"
  proof safe
    fix j assume "0 \<le> j" "j \<le> int (length rs) div 2 - 1"
      "rs ! nat (2 * j) \<le> c" "c \<le> rs ! nat (2 * j + 1)"
    moreover from \<open>0 \<le> j\<close> have "nat (2 * j) = 2 * nat j" "nat (2 * j + 1) = Suc (2 * nat j)" by auto
    ultimately show ?r by (intro exI [of _ "nat j"]) auto
  next
    fix i assume "Suc (2 * i) < length rs" "rs ! (2 * i) \<le> c" "c \<le> rs ! Suc (2 * i)"
    moreover have "nat (2 * int i) = 2 * i" "nat (2 * int i + 1) = Suc (2 * i)" by auto
    ultimately show "\<exists>j. 0 \<le> j \<and> j \<le> int (length rs) div 2 - 1 \<and>
      rs ! nat (2 * j) \<le> c \<and> c \<le> rs ! nat (2 * j + 1)"
      by (intro exI [of _ "int i"]) auto
  qed
  finally show ?thesis .
qed

definition in_some_pair :: "nat \<Rightarrow> nat list \<Rightarrow> bool" where
  "in_some_pair c rs \<longleftrightarrow>
     (\<exists>i < length rs. Suc (2 * i) < length rs \<and> rs ! (2 * i) \<le> c \<and> c \<le> rs ! Suc (2 * i))"

lemma isInRanges_in_some_pair: "sorted rs \<Longrightarrow> isInRanges c rs = in_some_pair c rs"
  unfolding isInRanges_iff in_some_pair_def by (rule ex_cong1) auto

text \<open>The same test by a linear walk that stops at the first range above the code point: what
  the kernel evaluates on small code points.\<close>

fun in_pairs :: "nat \<Rightarrow> nat list \<Rightarrow> bool" where
  "in_pairs c (a # b # rs) = (if c < a then False else if c \<le> b then True else in_pairs c rs)"
| "in_pairs c _ = False"

lemma in_pairs_iff:
  "sorted rs \<Longrightarrow> in_pairs c rs \<longleftrightarrow>
    (\<exists>i. Suc (2 * i) < length rs \<and> rs ! (2 * i) \<le> c \<and> c \<le> rs ! Suc (2 * i))"
proof (induction c rs rule: in_pairs.induct)
  case (1 c a b rs)
  have *: "(\<exists>i. Suc (2 * i) < length (a # b # rs) \<and> (a # b # rs) ! (2 * i) \<le> c \<and>
      c \<le> (a # b # rs) ! Suc (2 * i)) \<longleftrightarrow> a \<le> c \<and> c \<le> b \<or>
      (\<exists>i. Suc (2 * i) < length rs \<and> rs ! (2 * i) \<le> c \<and> c \<le> rs ! Suc (2 * i))"
    (is "(\<exists>i. ?P i) = (?h \<or> (\<exists>i. ?Q i))")
  proof -
    have "?P 0 = ?h" "?P (Suc i) = ?Q i" for i by auto
    then show ?thesis by (metis not0_implies_Suc)
  qed
  have "a \<le> rs ! (2 * i)" if "Suc (2 * i) < length rs" for i
    using "1.prems" that by simp
  then have "\<not> (\<exists>i. Suc (2 * i) < length rs \<and> rs ! (2 * i) \<le> c \<and> c \<le> rs ! Suc (2 * i))" if "c < a"
    using that by fastforce
  then show ?case unfolding * using 1 by auto
qed auto

lemma isInRanges_pairs: "sorted rs \<Longrightarrow> isInRanges c rs = in_pairs c rs"
  by (simp add: isInRanges_iff in_pairs_iff)

lemmas class_defs = isDefaultIgnorable_def isXIDContinue_def isCombiningMark_def
  unicode_tables_sorted [THEN isInRanges_pairs]

lemma first_code_point_simps [simp]:
  "first_code_point [] = 0" "first_code_point [c] = c"
  by (simp_all add: first_code_point_def code_point_at_def)

lemma ascii_ignorable [simp]: "c < 128 \<Longrightarrow> \<not> isDefaultIgnorable [c]"
  unfolding class_defs by (simp add: DEFAULT_IGNORABLE_RANGES_def)

lemma ascii_combining [simp]: "c < 128 \<Longrightarrow> \<not> isCombiningMark [c]"
  unfolding class_defs by (simp add: COMBINING_MARK_RANGES_def)

lemma ascii_xid: "c < 128 \<Longrightarrow> isXIDContinue [c] \<longleftrightarrow> isAsciiAlnum c \<or> c = 95"
  unfolding isXIDContinue_def unicode_tables_sorted(1) [THEN isInRanges_pairs]
  by (auto simp: XID_CONTINUE_RANGES_def isAsciiAlnum_def isDigit_def isAsciiAlpha_def)

lemma class_empty [simp]: "\<not> isDefaultIgnorable []" "\<not> isXIDContinue []" "\<not> isExtensionUnit []"
  unfolding class_defs
  by (simp_all add: DEFAULT_IGNORABLE_RANGES_def XID_CONTINUE_RANGES_def isExtensionUnit_def js_def)

section \<open>Scanning one segment\<close>

text \<open>A code point string is empty exactly past the end of the source.\<close>

lemma codePointAt_pos: "i < length s \<Longrightarrow> codePointAt s i \<noteq> []"
  by (auto simp: codePointAt_def code_point_at_def fromCodePoint_def)

lemma code_point_size:
  assumes "js_string s" and "code_point_at s i = Some v"
  shows "i + length (fromCodePoint v) \<le> length s"
  using assms code_unit_bound [OF assms(1)]
  by (auto simp: code_point_at_def fromCodePoint_length split: if_splits)

lemma codePointAt_slice:
  assumes "js_string s" and "i < length s"
  shows "codePointAt s i = slice s i (i + length (codePointAt s i))"
proof (cases "isHighSurrogate (s ! i) \<and> Suc i < length s \<and> isLowSurrogate (s ! Suc i)")
  case True
  obtain a b where ab: "s ! i = 55296 + a" "s ! Suc i = 56320 + b" "a < 1024" "b < 1024"
    using True by (auto simp: isHighSurrogate_def isLowSurrogate_def le_iff_add)
  then have "codePointAt s i = [s ! i, s ! Suc i]"
    using True assms(2) by (simp add: codePointAt_def code_point_at_def fromCodePoint_def)
  moreover have "drop i s = s ! i # s ! Suc i # drop (Suc (Suc i)) s"
    using True assms(2) by (simp add: Cons_nth_drop_Suc)
  ultimately show ?thesis by (simp add: slice_def)
next
  case False
  then have "codePointAt s i = [s ! i]"
    using assms code_unit_bound [OF assms]
    by (auto simp: codePointAt_def code_point_at_def fromCodePoint_def)
  then show ?thesis using assms(2) by (simp add: slice_def take_Suc_conv_app_nth flip: Cons_nth_drop_Suc)
qed

lemma codePointAt_beyond [simp]: "length s \<le> i \<Longrightarrow> codePointAt s i = []"
  by (simp add: codePointAt_def code_point_at_def)

text \<open>The loop over the ignorable code points and combining marks before a segment.\<close>

function skipIgnored :: "jsstr \<Rightarrow> nat \<Rightarrow> nat \<Rightarrow> nat" where
  "skipIgnored source limit index =
     (if index < limit then
        let codePoint = codePointAt source index
        in if isDefaultIgnorable codePoint \<or> isXIDContinue codePoint \<and> isCombiningMark codePoint
           then skipIgnored source limit (index + length codePoint)
           else index
      else index)"
  by pat_completeness auto
termination
  by (relation "measure (\<lambda>(_, limit, index). limit - index)")
     (auto intro!: diff_less_mono2)

declare skipIgnored.simps [simp del]

text \<open>The main loop: emoji, ignorable code points, apostrophes between two XID continuations, XID
  continuations and extension units.\<close>

function scanUnits ::
  "EmojiTrieNode \<Rightarrow> jsstr \<Rightarrow> nat \<Rightarrow> nat \<Rightarrow> jsstr \<Rightarrow> bool \<Rightarrow> nat \<times> jsstr" where
  "scanUnits R source limit index val previousWasXIDContinuation =
     (if index < limit then
        (case emojiAt R source index limit of
           Some emoji \<Rightarrow>
             (if emoji = [] then (index, val)
              else scanUnits R source limit (index + length emoji) (val @ emoji) False)
         | None \<Rightarrow>
             let codePoint = codePointAt source index
             in if isDefaultIgnorable codePoint
                then scanUnits R source limit (index + length codePoint) val False
                else if isApostropheJoiner codePoint \<and> previousWasXIDContinuation
                     \<and> isNonCombiningXIDContinuationAt R source (index + length codePoint) limit
                then scanUnits R source limit (index + length codePoint) (val @ codePoint) False
                else if isXIDContinue codePoint \<or> isExtensionUnit codePoint
                then scanUnits R source limit (index + length codePoint) (val @ codePoint)
                       (isXIDContinue codePoint)
                else (index, val))
      else (index, val))"
  by pat_completeness auto
termination
  by (relation "measure (\<lambda>(_, _, limit, index, _, _). limit - index)")
     (auto intro!: diff_less_mono2 simp: isApostropheJoiner_def)

declare scanUnits.simps [simp del]


definition scanSegment :: "EmojiTrieNode \<Rightarrow> jsstr \<Rightarrow> nat \<Rightarrow> nat \<Rightarrow> SegmentMatch option" where
  "scanSegment R source from limit =
     (let index = skipIgnored source limit from;
          finish = (\<lambda>(i, v). Some \<lparr>seg_to = i, seg_value = v\<rparr>)
      in case emojiAt R source index limit of
           Some starterEmoji \<Rightarrow>
             finish (scanUnits R source limit (index + length starterEmoji) starterEmoji False)
         | None \<Rightarrow>
             let starter = codePointAt source index
             in if starter = []
                   \<or> \<not> (isXIDContinue starter \<and> \<not> isCombiningMark starter) \<and> \<not> isExtensionUnit starter
                then None
                else finish (scanUnits R source limit (index + length starter) starter
                               (isXIDContinue starter)))"

text \<open>Progress: both loops only move forward, so a segment ends after its start.\<close>

lemma skipIgnored_mono: "i \<le> skipIgnored s l i"
proof (induction s l i rule: skipIgnored.induct)
  case (1 s l i)
  then show ?case
    by (subst skipIgnored.simps) (force simp: Let_def intro: order_trans [OF le_add1])
qed

lemma scanUnits_mono: "i \<le> fst (scanUnits R s l i v p)"
proof (induction R s l i v p rule: scanUnits.induct)
  case (1 R s l i v p)
  show ?case
  proof (cases "i < l")
    case False
    then show ?thesis by (simp add: scanUnits.simps [of R s l i v p])
  next
    case True
    show ?thesis
      by (subst scanUnits.simps)
         (use "1.IH" True in \<open>auto simp: Let_def split: option.split intro: order_trans [OF le_add1]\<close>)
  qed
qed


lemma emojiAt_end:
  assumes "emojiAt R s i l = Some w"
  obtains e where "e \<in> emoji_ends R s l i" "w = slice s i e" "i < e" "e \<le> l" "i < length s"
proof -
  from assms obtain e where e: "emojiLoop s l R i None = Some e" "w = slice s i e"
    by (auto simp: emojiAt_def)
  then have fin: "e \<in> emoji_ends R s l i" by (simp add: emojiLoop_spec)
  then obtain v vs where "reads_code_points s l i (v # vs) e" by (rule emoji_ends_cases)
  then have "i < e" "e \<le> l" "i < length s"
    using reads_limit [of s l i "v # vs" e] by (auto simp: code_point_at_def split: if_splits)
  with fin e(2) show thesis by (rule that)
qed

lemma emojiAt_nonempty: "emojiAt R s i l = Some w \<Longrightarrow> w \<noteq> []"
  by (auto elim!: emojiAt_end simp: slice_def)

lemma scanSegment_cases:
  assumes "scanSegment R s i l = Some m"
  obtains k w p where "k = skipIgnored s l i" "w \<noteq> []"
    "emojiAt R s k l = Some w \<or> w = codePointAt s k"
    "scanUnits R s l (k + length w) w p = (seg_to m, seg_value m)"
proof (cases "emojiAt R s (skipIgnored s l i) l")
  case (Some w)
  with assms have "scanUnits R s l (skipIgnored s l i + length w) w False = (seg_to m, seg_value m)"
    by (auto simp: scanSegment_def split: prod.splits)
  with Some show thesis by (intro that [of "skipIgnored s l i" w False]) (auto dest: emojiAt_nonempty)
next
  case None
  let ?w = "codePointAt s (skipIgnored s l i)"
  from None assms have "?w \<noteq> []"
    "scanUnits R s l (skipIgnored s l i + length ?w) ?w (isXIDContinue ?w) = (seg_to m, seg_value m)"
    by (auto simp: scanSegment_def Let_def split: prod.splits if_splits)
  then show thesis by (intro that [of "skipIgnored s l i" ?w "isXIDContinue ?w"]) auto
qed

lemma scanSegment_progress:
  assumes "scanSegment R s i l = Some m"
  shows "i < seg_to m"
proof -
  from assms obtain k w p where k: "k = skipIgnored s l i" "w \<noteq> []"
    "scanUnits R s l (k + length w) w p = (seg_to m, seg_value m)" by (rule scanSegment_cases)
  have "i \<le> k" using k(1) skipIgnored_mono by simp
  moreover have "k + length w \<le> seg_to m" using scanUnits_mono [of "k + length w" R s l w p] k(3) by simp
  ultimately show ?thesis using k(2) by (cases w) auto
qed

section \<open>Scanning one tag\<close>

function tagLoop :: "EmojiTrieNode \<Rightarrow> jsstr \<Rightarrow> nat \<Rightarrow> nat \<Rightarrow> jsstr \<Rightarrow> nat \<times> jsstr" where
  "tagLoop R source limit to val =
     (if to < limit \<and> charAt source to = Some 47 then
        (case scanSegment R source (to + 1) limit of
           None \<Rightarrow> (to, val)
         | Some nextSegment \<Rightarrow>
             tagLoop R source limit (seg_to nextSegment) (val @ [47] @ seg_value nextSegment))
      else (to, val))"
  by pat_completeness auto
termination
  by (relation "measure (\<lambda>(_, _, limit, to, _). limit - to)")
     (auto dest!: scanSegment_progress)

declare tagLoop.simps [simp del]

definition scanTagAt :: "EmojiTrieNode \<Rightarrow> jsstr \<Rightarrow> nat \<Rightarrow> nat \<Rightarrow> TagMatch option" where
  "scanTagAt R source from limit =
     (if \<not> isTagIntroducerAt R source (int from) limit then None
      else case scanSegment R source (from + 1) limit of
             None \<Rightarrow> None
           | Some firstSegment \<Rightarrow>
               let (to, val) = tagLoop R source limit (seg_to firstSegment) (seg_value firstSegment)
               in Some \<lparr>tag_from = from, tag_to = to, tag_source = slice source (from + 1) to,
                        tag_value = val\<rparr>)"

section \<open>All tags of a literal run\<close>

text \<open>The loop never ends when \<open>limit\<close> exceeds the length of the source, because the code point
  past the end is the empty string: not returning is \<open>None\<close>.\<close>

partial_function (option) findTagLoop ::
  "EmojiTrieNode \<Rightarrow> jsstr \<Rightarrow> nat \<Rightarrow> nat \<Rightarrow> TagMatch list \<Rightarrow> TagMatch list option" where
  "findTagLoop R source limit index matches =
     (if index < limit then
        (case emojiAt R source index limit of
           Some emoji \<Rightarrow> findTagLoop R source limit (index + length emoji) matches
         | None \<Rightarrow>
             (case (if charAt source index = Some 35 then scanTagAt R source index limit else None) of
                Some m \<Rightarrow> findTagLoop R source limit (tag_to m) (matches @ [m])
              | None \<Rightarrow>
                  findTagLoop R source limit (index + length (codePointAt source index)) matches))
      else Some matches)"

definition findTagMatches :: "EmojiTrieNode \<Rightarrow> jsstr \<Rightarrow> nat \<Rightarrow> nat \<Rightarrow> TagMatch list option" where
  "findTagMatches R source from limit = findTagLoop R source limit from []"

section \<open>Where a match lies\<close>

lemma codePointAt_bound:
  assumes "js_string s" "i \<le> length s"
  shows "i + length (codePointAt s i) \<le> length s"
  using assms code_point_size [OF assms(1)]
  by (auto simp: codePointAt_def code_point_at_def split: option.split)

lemma reads_length: "js_string s \<Longrightarrow> reads_code_points s l i vs e \<Longrightarrow> vs \<noteq> [] \<Longrightarrow> e \<le> length s"
proof (induction vs arbitrary: i)
  case (Cons v vs)
  then show ?case by (cases vs) (auto dest: code_point_size)
qed simp

lemma emojiAt_span:
  assumes "js_string s" "emojiAt R s i l = Some w"
  shows "w = slice s i (i + length w) \<and> i + length w \<le> length s \<and> i + length w \<le> l"
proof -
  from assms(2) obtain e where e: "e \<in> emoji_ends R s l i" "w = slice s i e" "i < e" "e \<le> l"
    by (rule emojiAt_end)
  from e(1) obtain v vs where "reads_code_points s l i (v # vs) e" by (rule emoji_ends_cases)
  then have "e \<le> length s" using reads_length [OF assms(1)] by blast
  then have "i + length w = e" using e by (simp add: slice_length)
  with e \<open>e \<le> length s\<close> show ?thesis by simp
qed

lemma codePointAt_span:
  assumes "js_string s"
  shows "codePointAt s i = slice s i (i + length (codePointAt s i))"
  using assms codePointAt_slice [of s i] by (cases "i < length s") (auto simp: slice_def)

text \<open>A unit that the scanner appends, or drops, keeps the value a subsequence of the source.\<close>

definition emitted :: "jsstr \<Rightarrow> nat \<Rightarrow> nat \<Rightarrow> jsstr \<Rightarrow> bool" where
  "emitted s i j u \<longleftrightarrow> i \<le> j \<and> j \<le> length s \<and> subseq u (slice s i j)"

lemma emitted_refl [intro]: "i \<le> length s \<Longrightarrow> emitted s i i []"
  by (simp add: emitted_def)

lemma emitted_trans:
  "emitted s i j u \<Longrightarrow> emitted s j k v \<Longrightarrow> emitted s i k (u @ v)"
  unfolding emitted_def
  by (metis le_trans list_emb_append_mono slice_append)

lemma emitted_unit:
  "js_string s \<Longrightarrow> i \<le> length s \<Longrightarrow> emitted s i (i + length (codePointAt s i)) (codePointAt s i)"
  using codePointAt_bound codePointAt_span by (fastforce simp: emitted_def)

lemma emitted_skip:
  "js_string s \<Longrightarrow> i \<le> length s \<Longrightarrow> emitted s i (i + length (codePointAt s i)) []"
  using codePointAt_bound by (simp add: emitted_def)

lemma emitted_emoji:
  "js_string s \<Longrightarrow> emojiAt R s i l = Some w \<Longrightarrow> emitted s i (i + length w) w"
  using emojiAt_span [of s R i l w] by (simp add: emitted_def)


lemma scanUnits_emitted:
  assumes "js_string s" "i \<le> length s" "scanUnits R s l i v p = (j, v')"
  shows "\<exists>u. v' = v @ u \<and> emitted s i j u"
  using assms
proof (induction R s l i v p rule: scanUnits.induct)
  case (1 R s l i v p)
  note unit = emitted_unit [OF "1.prems"(1,2)] and skip = emitted_skip [OF "1.prems"(1,2)]
  have step: "\<exists>u. v' = v @ u \<and> emitted s i j u"
    if "\<exists>u. v' = (v @ w) @ u \<and> emitted s k j u" "emitted s i k w" for w k
    using that by (metis append.assoc emitted_trans)
  consider (emoji) w where "i < l" "emojiAt R s i l = Some w"
    | (unit) "i < l" "emojiAt R s i l = None" | (stop) "\<not> i < l" by fastforce
  then show ?case
  proof cases
    case stop
    with "1.prems" show ?thesis by (auto simp: scanUnits.simps [of R s l i])
  next
    case emoji
    note w = emojiAt_nonempty [OF emoji(2)] emitted_emoji [OF "1.prems"(1) emoji(2)]
    have "scanUnits R s l (i + length w) (v @ w) False = (j, v')"
      using "1.prems"(3) emoji w(1) by (simp add: scanUnits.simps [of R s l i])
    from "1.IH"(4) [OF emoji w(1) "1.prems"(1) _ this] w(2) show ?thesis
      by (intro step [of w "i + length w"]) (auto simp: emitted_def)
  next
    case unit
    let ?c = "codePointAt s i" and ?k = "i + length (codePointAt s i)"
    have k: "?k \<le> length s" by (rule codePointAt_bound [OF "1.prems"(1,2)])
    note IH = "1.IH"(1-3) [OF unit refl]
    consider (ign) "isDefaultIgnorable ?c" "scanUnits R s l ?k v False = (j, v')"
      | (apo) "\<not> isDefaultIgnorable ?c" "isApostropheJoiner ?c \<and> p \<and> isNonCombiningXIDContinuationAt R s ?k l"
          "scanUnits R s l ?k (v @ ?c) False = (j, v')"
      | (xid) "\<not> isDefaultIgnorable ?c"
          "\<not> (isApostropheJoiner ?c \<and> p \<and> isNonCombiningXIDContinuationAt R s ?k l)"
          "isXIDContinue ?c \<or> isExtensionUnit ?c"
          "scanUnits R s l ?k (v @ ?c) (isXIDContinue ?c) = (j, v')"
      | (stop) "(j, v') = (i, v)"
      using "1.prems"(3) unit by (auto simp: scanUnits.simps [of R s l i] Let_def split: if_splits)
    then show ?thesis
    proof cases
      case ign
      show ?thesis using IH(1) [OF ign(1) "1.prems"(1) k ign(2)] skip by (intro step [of "[]" ?k]) auto
    next
      case apo
      show ?thesis using IH(2) [OF apo(1,2) "1.prems"(1) k apo(3)] \<open>emitted s i ?k ?c\<close>
        by (intro step [of ?c ?k]) auto
    next
      case xid
      show ?thesis using IH(3) [OF xid(1-3) "1.prems"(1) k xid(4)] \<open>emitted s i ?k ?c\<close>
        by (intro step [of ?c ?k]) auto
    next
      case stop
      then show ?thesis using "1.prems"(2) by auto
    qed
  qed
qed

lemma skipIgnored_bound:
  "js_string s \<Longrightarrow> i \<le> length s \<Longrightarrow> skipIgnored s l i \<le> length s"
proof (induction s l i rule: skipIgnored.induct)
  case (1 s l i)
  then show ?case
    by (subst skipIgnored.simps) (simp add: Let_def codePointAt_bound)
qed

lemma scanSegment_emitted:
  assumes "js_string s" "i \<le> length s" "scanSegment R s i l = Some m"
  shows "emitted s i (seg_to m) (seg_value m) \<and> seg_value m \<noteq> [] \<and> i < seg_to m"
proof -
  from assms(3) obtain k w p where k: "k = skipIgnored s l i" "w \<noteq> []"
    "emojiAt R s k l = Some w \<or> w = codePointAt s k"
    "scanUnits R s l (k + length w) w p = (seg_to m, seg_value m)" by (rule scanSegment_cases)
  have kb: "k \<le> length s" using skipIgnored_bound assms(1,2) k(1) by simp
  then have w: "emitted s k (k + length w) w"
    using k(3) emitted_emoji emitted_unit assms(1) by blast
  moreover have "emitted s i k []"
    using kb k(1) skipIgnored_mono by (auto simp: emitted_def)
  ultimately have iw: "emitted s i (k + length w) w" using emitted_trans by fastforce
  have "k + length w \<le> length s" using w by (simp add: emitted_def)
  from scanUnits_emitted [OF assms(1) this k(4)] obtain u
    where "seg_value m = w @ u" "emitted s (k + length w) (seg_to m) u" by blast
  then show ?thesis using iw emitted_trans k(2) scanSegment_progress [OF assms(3)] by auto
qed


lemma tagLoop_emitted:
  assumes "js_string s" "i \<le> length s" "tagLoop R s l i v = (j, v')"
  shows "\<exists>u. v' = v @ u \<and> emitted s i j u"
  using assms
proof (induction R s l i v rule: tagLoop.induct)
  case (1 R s l i v)
  consider (next_seg) m where "i < l \<and> charAt s i = Some 47" "scanSegment R s (i + 1) l = Some m"
    | (stop) "(j, v') = (i, v)"
    using "1.prems"(3) by (auto simp: tagLoop.simps [of R s l i] split: if_splits option.splits)
  then show ?case
  proof cases
    case stop
    with "1.prems"(2) show ?thesis by auto
  next
    case next_seg
    then have i: "i < length s" "s ! i = 47" by (auto simp: charAt_def split: if_splits)
    have m: "emitted s (i + 1) (seg_to m) (seg_value m)"
      using scanSegment_emitted [OF "1.prems"(1) _ next_seg(2)] i(1) by simp
    have "tagLoop R s l (seg_to m) (v @ [47] @ seg_value m) = (j, v')"
      using "1.prems"(3) next_seg by (simp add: tagLoop.simps [of R s l i])
    from "1.IH" [OF next_seg "1.prems"(1) _ this] m obtain u
      where u: "v' = (v @ [47] @ seg_value m) @ u" "emitted s (seg_to m) j u"
      by (auto simp: emitted_def)
    have "emitted s i (i + 1) [47]"
      using i by (auto simp: emitted_def slice_def take_Suc_conv_app_nth simp flip: Cons_nth_drop_Suc)
    from emitted_trans [OF emitted_trans [OF this m] u(2)] u(1) show ?thesis by auto
  qed
qed

text \<open>What a match is: it starts at a hash, its source is the text behind the hash, and its value is
  a non-empty subsequence of that source.\<close>

definition tag_match_ok :: "jsstr \<Rightarrow> TagMatch \<Rightarrow> bool" where
  "tag_match_ok s m \<longleftrightarrow>
     charAt s (tag_from m) = Some 35 \<and> tag_from m + 1 < tag_to m \<and> tag_to m \<le> length s
     \<and> tag_source m = slice s (tag_from m + 1) (tag_to m)
     \<and> tag_value m \<noteq> [] \<and> subseq (tag_value m) (tag_source m)"

lemma scanTagAt_ok:
  assumes "js_string s" "scanTagAt R s i l = Some m"
  shows "tag_match_ok s m \<and> tag_from m = i"
proof -
  from assms(2) obtain g j v where g: "isTagIntroducerAt R s (int i) l"
    "scanSegment R s (i + 1) l = Some g" "tagLoop R s l (seg_to g) (seg_value g) = (j, v)"
    "m = \<lparr>tag_from = i, tag_to = j, tag_source = slice s (i + 1) j, tag_value = v\<rparr>"
    by (auto simp: scanTagAt_def split: if_splits option.splits prod.splits)
  then have i: "i < length s" "charAt s i = Some 35"
    by (auto simp: isTagIntroducerAt_def charAt_def split: if_splits)
  have e: "emitted s (i + 1) (seg_to g) (seg_value g)" "seg_value g \<noteq> []" "i + 1 < seg_to g"
    using scanSegment_emitted [OF assms(1) _ g(2)] i(1) by auto
  from tagLoop_emitted [OF assms(1) _ g(3)] e(1) obtain u
    where u: "v = seg_value g @ u" "emitted s (seg_to g) j u" by (auto simp: emitted_def)
  from emitted_trans [OF e(1) u(2)] e u g(4) i(2) show ?thesis
    by (auto simp: tag_match_ok_def emitted_def)
qed

abbreviation tag_range :: "TagMatch \<Rightarrow> nat \<times> nat" where
  "tag_range m \<equiv> (tag_from m, tag_to m)"

lemma findTagLoop_sound:
  assumes "js_string s" "l \<le> length s" "i \<le> length s"
  shows "\<exists>ms. findTagLoop R s l i acc = Some (acc @ ms)
    \<and> ordered_ranges i (length s) (map tag_range ms)
    \<and> (\<forall>m \<in> set ms. tag_match_ok s m \<and> tag_from m < l)"
  using assms(3)
proof (induction "length s - i" arbitrary: i acc rule: less_induct)
  case less
  have step: ?case if "i < k" "k \<le> length s" "findTagLoop R s l i acc = findTagLoop R s l k acc" for k
    using less.hyps [of k acc] that less.prems
    by (fastforce intro: ordered_ranges_weaken [of k])
  consider (stop) "\<not> i < l" | (emoji) w where "i < l" "emojiAt R s i l = Some w"
    | (tag) m where "i < l" "emojiAt R s i l = None" "charAt s i = Some 35" "scanTagAt R s i l = Some m"
    | (unit) "i < l" "emojiAt R s i l = None"
        "(if charAt s i = Some 35 then scanTagAt R s i l else None) = None"
    by (metis not_Some_eq)
  then show ?case
  proof cases
    case stop
    with less.prems show ?thesis by (auto simp: findTagLoop.simps [of R s l i])
  next
    case emoji
    have "i + length w \<le> length s" "w \<noteq> []"
      using emojiAt_span [OF assms(1) emoji(2)] emojiAt_nonempty [OF emoji(2)] by auto
    then show ?thesis using emoji by (intro step) (auto simp: findTagLoop.simps [of R s l i])
  next
    case unit
    have "i < length s" using unit(1) assms(2) by simp
    then show ?thesis using unit codePointAt_pos codePointAt_bound [OF assms(1)]
      by (intro step [of "i + length (codePointAt s i)"]) (auto simp: findTagLoop.simps [of R s l i])
  next
    case tag
    have m: "tag_match_ok s m" "tag_from m = i" using scanTagAt_ok [OF assms(1) tag(4)] by auto
    then have b: "i < tag_to m" "tag_to m \<le> length s" by (auto simp: tag_match_ok_def)
    have "findTagLoop R s l i acc = findTagLoop R s l (tag_to m) (acc @ [m])"
      using tag by (simp add: findTagLoop.simps [of R s l i])
    moreover have "length s - tag_to m < length s - i" using b by linarith
    ultimately obtain ms
      where "findTagLoop R s l i acc = Some (acc @ m # ms)"
        "ordered_ranges (tag_to m) (length s) (map tag_range ms)"
        "\<forall>m \<in> set ms. tag_match_ok s m \<and> tag_from m < l"
      using less.hyps [of "tag_to m" "acc @ [m]"] b(2) by auto
    with m b tag(1) show ?thesis by (intro exI [of _ "m # ms"]) auto
  qed
qed


section \<open>Tags written in ASCII\<close>

definition ascii_tag_unit :: "code_unit \<Rightarrow> bool" where
  "ascii_tag_unit c \<longleftrightarrow> isAsciiAlnum c \<or> c = 95 \<or> c = 45 \<or> c = 43 \<or> c = 38"

definition ascii_segment :: "jsstr \<Rightarrow> bool" where
  "ascii_segment w \<longleftrightarrow> w \<noteq> [] \<and> (\<forall>c \<in> set w. ascii_tag_unit c)"

text \<open>Every fully qualified emoji has a code point outside ASCII, a variation selector at least.\<close>

definition emoji_list_ok :: "nat list list \<Rightarrow> bool" where
  "emoji_list_ok E \<longleftrightarrow> (\<forall>e \<in> set E. \<exists>v \<in> set e. 128 \<le> v)"

lemma ascii_tag_unit_lt: "ascii_tag_unit c \<Longrightarrow> c < 128 \<and> c \<noteq> 47"
  by (auto simp: ascii_tag_unit_def isAsciiAlnum_def isDigit_def isAsciiAlpha_def)

lemma code_point_at_ascii: "i < length s \<Longrightarrow> s ! i < 128 \<Longrightarrow> code_point_at s i = Some (s ! i)"
  by (simp add: code_point_at_def isHighSurrogate_def)

lemma codePointAt_ascii: "i < length s \<Longrightarrow> s ! i < 128 \<Longrightarrow> codePointAt s i = [s ! i]"
  by (simp add: codePointAt_def code_point_at_ascii fromCodePoint_def)

lemma reads_ascii:
  "\<lbrakk>\<forall>c \<in> set s. c < 128; reads_code_points s l i vs e; v \<in> set vs\<rbrakk> \<Longrightarrow> v < 128"
proof (induction vs arbitrary: i)
  case (Cons a vs)
  then have "i < length s" by (auto simp: code_point_at_def split: if_splits)
  with Cons.prems(1) have "s ! i < 128" by auto
  with Cons \<open>i < length s\<close> show ?case by (auto simp: code_point_at_ascii)
qed simp

lemma emojiAt_ascii:
  assumes "emoji_list_ok E" "\<forall>c \<in> set s. c < 128"
  shows "emojiAt (emojiTrie E) s i l = None"
proof (rule ccontr)
  assume "emojiAt (emojiTrie E) s i l \<noteq> None"
  then obtain w where "emojiAt (emojiTrie E) s i l = Some w" by auto
  then obtain e where "e \<in> emoji_ends (emojiTrie E) s l i" by (rule emojiAt_end)
  then obtain vs where "vs \<in> set E" "reads_code_points s l i vs e"
    by (auto simp: emoji_ends_def accepts_emojiTrie)
  with assms reads_ascii show False unfolding emoji_list_ok_def by (metis not_le)
qed

lemma ascii_unit_classes:
  assumes "ascii_tag_unit c"
  shows "\<not> isDefaultIgnorable [c]" "\<not> isCombiningMark [c]" "\<not> isApostropheJoiner [c]"
    "isXIDContinue [c] \<or> isExtensionUnit [c]"
  using assms ascii_tag_unit_lt [OF assms] ascii_xid [of c]
  by (auto simp: isApostropheJoiner_def isExtensionUnit_def ascii_tag_unit_def js_def
        isAsciiAlnum_def isDigit_def isAsciiAlpha_def)

lemma drop_Cons_nth: "drop i s = c # r \<Longrightarrow> i < length s \<and> s ! i = c \<and> drop (Suc i) s = r"
  by (metis Cons_nth_drop_Suc drop_all linorder_not_less list.inject list.simps(3))

lemma scanUnits_ascii:
  assumes "\<And>i. emojiAt R s i (length s) = None" "drop i s = w @ r" "\<forall>c \<in> set w. ascii_tag_unit c"
    "r = [] \<or> hd r = 47"
  shows "scanUnits R s (length s) i v p = (i + length w, v @ w)"
  using assms(2,3)
proof (induction w arbitrary: i v p)
  case Nil
  show ?case
  proof (cases "i < length s")
    case True
    with Nil assms(4) have "s ! i = 47" by (metis append_Nil drop_eq_Nil hd_drop_conv_nth linorder_not_less)
    with True show ?thesis
      by (subst scanUnits.simps)
         (simp add: assms(1) codePointAt_ascii Let_def isApostropheJoiner_def isExtensionUnit_def js_def
           ascii_xid isAsciiAlnum_def isDigit_def isAsciiAlpha_def)
  qed (simp add: scanUnits.simps)
next
  case (Cons c w)
  then have d: "i < length s" "s ! i = c" "drop (Suc i) s = w @ r" "ascii_tag_unit c"
    using drop_Cons_nth [of i s c "w @ r"] by auto
  with ascii_tag_unit_lt ascii_unit_classes [of c] show ?case
    using Cons.IH [OF d(3)] Cons.prems(2)
    by (subst scanUnits.simps) (simp add: assms(1) codePointAt_ascii Let_def)
qed

lemma scanSegment_ascii:
  assumes "\<And>i. emojiAt R s i (length s) = None" "drop i s = w @ r" "ascii_segment w"
    "r = [] \<or> hd r = 47"
  shows "scanSegment R s i (length s) = Some \<lparr>seg_to = i + length w, seg_value = w\<rparr>"
proof -
  obtain c w' where w: "w = c # w'" "ascii_tag_unit c" "\<forall>c \<in> set w'. ascii_tag_unit c"
    using assms(3) by (cases w) (auto simp: ascii_segment_def)
  have d: "i < length s" "s ! i = c" "drop (Suc i) s = w' @ r"
    using drop_Cons_nth [of i s c "w' @ r"] assms(2) w(1) by auto
  note cl = ascii_unit_classes [OF w(2)] ascii_tag_unit_lt [OF w(2)]
  have "skipIgnored s (length s) i = i"
    using d cl by (subst skipIgnored.simps) (simp add: codePointAt_ascii)
  then show ?thesis
    using d cl scanUnits_ascii [OF assms(1) d(3) w(3) assms(4), of "[c]"] w(1)
    by (auto simp: scanSegment_def assms(1) codePointAt_ascii Let_def)
qed

lemma join_Cons: "join sep (w # ws) = w @ (if ws = [] then [] else sep @ join sep ws)"
  by (cases ws) auto

lemma tagLoop_ascii:
  assumes "\<And>i. emojiAt R s i (length s) = None"
  shows "\<lbrakk>drop i s = concat (map (\<lambda>w. 47 # w) ws); \<forall>w \<in> set ws. ascii_segment w\<rbrakk> \<Longrightarrow>
    tagLoop R s (length s) i v = (length s, v @ concat (map (\<lambda>w. 47 # w) ws)) \<or> length s < i"
proof (induction ws arbitrary: i v)
  case Nil
  then show ?case by (cases "i = length s") (auto simp: tagLoop.simps)
next
  case (Cons w ws)
  let ?r = "concat (map (\<lambda>w. 47 # w) ws)"
  have d: "i < length s" "s ! i = 47" "drop (Suc i) s = w @ ?r"
    using drop_Cons_nth [of i s 47 "w @ ?r"] Cons.prems(1) by auto
  have r: "?r = [] \<or> hd ?r = 47" by (cases ws) auto
  have seg: "scanSegment R s (Suc i) (length s) = Some \<lparr>seg_to = Suc i + length w, seg_value = w\<rparr>"
    using scanSegment_ascii [OF assms d(3) _ r] Cons.prems(2) by simp
  have "drop (Suc i + length w) s = ?r" using d(3) by (metis append_eq_conv_conj drop_drop add.commute)
  moreover have "Suc i + length w \<le> length s"
    using d by (metis add.commute add_le_cancel_left append_eq_conv_conj d(1) diff_diff_left le_add1
      length_append length_drop less_eq_Suc_le ordered_cancel_comm_monoid_diff_class.le_diff_conv2)
  ultimately show ?case using Cons.IH [of "Suc i + length w" "v @ 47 # w"] Cons.prems(2) d(1,2) seg
    by (subst tagLoop.simps) (auto simp: charAt_def)
qed


lemma join_slash: "ws \<noteq> [] \<Longrightarrow> [47] @ join [47] ws = concat (map (\<lambda>w. 47 # w) ws)"
  by (induction ws) (auto simp: join_Cons split: if_splits)

section \<open>Properties\<close>

text \<open>C12. The enumeration of tags always returns when the limit is inside the source; its matches are
  ascending, disjoint and inside the source, each starts at a hash before the limit, its source
  spelling is the text behind the hash and its identifier is a non-empty subsequence of that
  spelling (the spelling less the ignored code points).\<close>

theorem findTagMatches_sound:
  assumes "js_string s" "l \<le> length s" "i \<le> length s"
  shows "\<exists>ms. findTagMatches R s i l = Some ms
    \<and> ordered_ranges i (length s) (map tag_range ms)
    \<and> (\<forall>m \<in> set ms. tag_match_ok s m \<and> tag_from m < l)"
  using findTagLoop_sound [OF assms, of R "[]"] by (simp add: findTagMatches_def)

theorem findTagMatches_sound_witness:
  "js_string (js ''x #a'') \<and> (\<exists>ms. findTagMatches (emojiTrie [[35, 65039, 8419]]) (js ''x #a'') 0 4 = Some ms
    \<and> ordered_ranges 0 (length (js ''x #a'')) (map tag_range ms)
    \<and> (\<forall>m \<in> set ms. tag_match_ok (js ''x #a'') m \<and> tag_from m < 4))"
  using findTagMatches_sound [of "js ''x #a''" 4 0 "emojiTrie [[35, 65039, 8419]]"]
  by (simp add: js_string_def js_def)

text \<open>A hash followed by slash-separated segments of ASCII letters, digits, underscores and
  extension units is exactly one tag: the whole text, with the text behind the hash as its
  identifier.\<close>

theorem findTagMatches_ascii:
  assumes "emoji_list_ok E" "ws \<noteq> []" "\<forall>w \<in> set ws. ascii_segment w"
  shows "findTagMatches (emojiTrie E) (35 # join [47] ws) 0 (1 + length (join [47] ws)) =
    Some [\<lparr>tag_from = 0, tag_to = 1 + length (join [47] ws),
           tag_source = join [47] ws, tag_value = join [47] ws\<rparr>]"
proof -
  define s where "s = 35 # join [47] ws"
  obtain w ws' where ws: "ws = w # ws'" using assms(2) by (cases ws) auto
  let ?R = "emojiTrie E" and ?t = "concat (map (\<lambda>w. 47 # w) ws')"
  have s: "s = 35 # w @ ?t" using join_slash [of ws'] by (auto simp: s_def ws join_Cons)
  have "\<forall>c \<in> set s. c = 35 \<or> c = 47 \<or> ascii_tag_unit c"
    using assms(3) by (auto simp: s ws ascii_segment_def)
  then have "\<forall>c \<in> set s. c < 128" by (auto dest: ascii_tag_unit_lt)
  then have no: "\<And>i l. emojiAt ?R s i l = None" using emojiAt_ascii [OF assms(1)] by blast
  have seg: "scanSegment ?R s 1 (length s) = Some \<lparr>seg_to = 1 + length w, seg_value = w\<rparr>"
    using assms(3) by (intro scanSegment_ascii [of ?R s 1 w ?t] no) (cases ws'; auto simp: s ws)+
  have loop: "tagLoop ?R s (length s) (1 + length w) w = (length s, w @ ?t)"
    using tagLoop_ascii [of ?R s "1 + length w" ws' w] no assms(3) by (auto simp: s ws)
  have "isTagIntroducerAt ?R s 0 (length s)"
    by (simp add: isTagIntroducerAt_def no) (simp add: s charAt_def)
  then have scan: "scanTagAt ?R s 0 (length s) =
    Some \<lparr>tag_from = 0, tag_to = length s, tag_source = w @ ?t, tag_value = w @ ?t\<rparr>"
    using seg loop by (simp add: scanTagAt_def) (simp add: s slice_def)
  have "findTagLoop ?R s (length s) 0 [] = findTagLoop ?R s (length s) (length s)
      [\<lparr>tag_from = 0, tag_to = length s, tag_source = w @ ?t, tag_value = w @ ?t\<rparr>]"
    by (subst findTagLoop.simps) (simp add: no scan, simp add: s charAt_def)
  moreover have "w @ ?t = join [47] ws" using s by (simp add: s_def)
  moreover have "1 + length (join [47] ws) = length s" by (simp add: s_def)
  ultimately show ?thesis
    by (simp add: findTagMatches_def findTagLoop.simps [of _ _ "length s" "length s"] flip: s_def)
qed

theorem findTagMatches_ascii_witness:
  "emoji_list_ok [[35, 65039, 8419]]
   \<and> findTagMatches (emojiTrie [[35, 65039, 8419]]) (js ''#a-b/c'') 0 (length (js ''#a-b/c'')) =
       Some [\<lparr>tag_from = 0, tag_to = length (js ''#a-b/c''), tag_source = js ''a-b/c'', tag_value = js ''a-b/c''\<rparr>]"
  using findTagMatches_ascii [of "[[35, 65039, 8419]]" "[js ''a-b'', js ''c'']"]
  by (simp add: emoji_list_ok_def ascii_segment_def ascii_tag_unit_def js_def
        isAsciiAlnum_def isDigit_def isAsciiAlpha_def)

text \<open>The trie implements the set of emoji sequences: the scanner returns the longest sequence of
  the list that the code points at the offset spell before the limit, and nothing when no sequence
  of the list does.\<close>

theorem emojiAt_longest:
  "emojiAt (emojiTrie E) s i l =
     (let ends = {e. \<exists>vs \<in> set E. vs \<noteq> [] \<and> reads_code_points s l i vs e}
      in if ends = {} then None else Some (slice s i (Max ends)))"
proof -
  let ?E = "emoji_ends (emojiTrie E) s l i"
  have ends: "{e. \<exists>vs \<in> set E. vs \<noteq> [] \<and> reads_code_points s l i vs e} = ?E"
    by (auto simp: emoji_ends_def accepts_emojiTrie)
  have "?E \<subseteq> {..l}" using reads_limit by (auto simp: emoji_ends_def)
  then have fin: "finite ?E" by (rule finite_subset) simp
  show ?thesis
  proof (cases "?E = {}")
    case True
    then have "emojiLoop s l (emojiTrie E) i None = None"
      using emojiLoop_spec [of s l "emojiTrie E" i None]
      by (cases "emojiLoop s l (emojiTrie E) i None") auto
    then show ?thesis unfolding ends using True by (simp add: emojiAt_def)
  next
    case False
    then have "emojiLoop s l (emojiTrie E) i None = Some (Max ?E)"
      using fin by (simp add: emojiLoop_spec)
    then show ?thesis unfolding ends using False by (simp add: emojiAt_def)
  qed
qed

text \<open>On the three code point tables of the module the binary search decides membership: a code
  point is found exactly when some pair of the table encloses it.\<close>

theorem isInRanges_tables:
  "isInRanges c XID_CONTINUE_RANGES = in_some_pair c XID_CONTINUE_RANGES
   \<and> isInRanges c DEFAULT_IGNORABLE_RANGES = in_some_pair c DEFAULT_IGNORABLE_RANGES
   \<and> isInRanges c COMBINING_MARK_RANGES = in_some_pair c COMBINING_MARK_RANGES"
  by (simp add: isInRanges_in_some_pair unicode_tables_sorted)

text \<open>The limit of the scan does not bound the first code point of a segment, which is read without
  comparing its offset with the limit: scanning \<open>#a\<close> up to offset 1 yields the whole tag, whose
  end lies behind the limit. The same happens behind a slash, so the tag \<open>#a/b\<close> scanned up to
  offset 3 ends at 4.\<close>

theorem scanTagAt_passes_limit:
  assumes "emoji_list_ok E"
  shows "scanTagAt (emojiTrie E) (js ''#a'') 0 1 =
      Some \<lparr>tag_from = 0, tag_to = 2, tag_source = js ''a'', tag_value = js ''a''\<rparr>
    \<and> scanTagAt (emojiTrie E) (js ''#a/b'') 0 3 =
      Some \<lparr>tag_from = 0, tag_to = 4, tag_source = js ''a/b'', tag_value = js ''a/b''\<rparr>"
proof -
  have no: "emojiAt (emojiTrie E) (js ''#a'') i l = None" "emojiAt (emojiTrie E) (js ''#a/b'') i l = None"
    for i l using emojiAt_ascii [OF assms] by (auto simp: js_def)
  have xid: "isXIDContinue [97]" "isXIDContinue [98]" "\<not> isXIDContinue [47]"
    by (simp_all add: ascii_xid isAsciiAlnum_def isDigit_def isAsciiAlpha_def)
  have "scanTagAt (emojiTrie E) (js ''#a'') 0 1 =
      Some \<lparr>tag_from = 0, tag_to = 2, tag_source = js ''a'', tag_value = js ''a''\<rparr>"
    using no(1) xid
    by (simp add: scanTagAt_def isTagIntroducerAt_def charAt_def js_def scanSegment_def skipIgnored.simps
        codePointAt_ascii scanUnits.simps tagLoop.simps slice_def Let_def)
  moreover have "scanTagAt (emojiTrie E) (js ''#a/b'') 0 3 =
      Some \<lparr>tag_from = 0, tag_to = 4, tag_source = js ''a/b'', tag_value = js ''a/b''\<rparr>"
    using no(2) xid
    by (simp add: scanTagAt_def isTagIntroducerAt_def charAt_def js_def scanSegment_def skipIgnored.simps
        codePointAt_ascii scanUnits.simps tagLoop.simps slice_def Let_def isApostropheJoiner_def
        isExtensionUnit_def)
  ultimately show ?thesis by blast
qed

theorem scanTagAt_passes_limit_witness:
  "emoji_list_ok [[35, 65039, 8419]]
   \<and> tag_to (the (scanTagAt (emojiTrie [[35, 65039, 8419]]) (js ''#a'') 0 1)) = 2"
  using scanTagAt_passes_limit [of "[[35, 65039, 8419]]"] by (simp add: emoji_list_ok_def)

end
