(* ===== verification/Mention_Grammar.thy ===== *)
theory Mention_Grammar
  imports JS_Prelude
begin

text \<open>
  User names (\<^verbatim>\<open>web/src/utils/username.ts\<close>) and the mention scanner
  (\<^verbatim>\<open>web/src/utils/mention-grammar.ts\<close>). The scanner is shown equal to a declarative
  enumeration: a mention starts at every at-sign behind a boundary whose maximal run of user name
  characters is a valid user name.
\<close>

section \<open>User names\<close>

definition MAX_USERNAME_LENGTH :: nat where
  "MAX_USERNAME_LENGTH = 36"

definition isUsernameCharacter :: "code_unit \<Rightarrow> bool" where
  "isUsernameCharacter c \<longleftrightarrow> isAsciiAlnum c \<or> c = 45"

definition isValidUsername :: "jsstr \<Rightarrow> bool" where
  "isValidUsername username \<longleftrightarrow>
     (if username = [] \<or> length username > MAX_USERNAME_LENGTH then False
      else if \<not> isAsciiAlnum (hd username) \<or> \<not> isAsciiAlnum (last username) then False
      else list_all isUsernameCharacter username)"

section \<open>The scanner\<close>

record MentionMatch =
  mention_from :: nat
  mention_to :: nat
  mention_username :: jsstr

definition hasLeftBoundary :: "jsstr \<Rightarrow> nat \<Rightarrow> bool \<Rightarrow> bool" where
  "hasLeftBoundary source position runHasLeftBoundary \<longleftrightarrow>
     (if position = 0 then runHasLeftBoundary
      else \<not> isUsernameCharacter (source ! (position - 1)))"

function usernameEnd :: "jsstr \<Rightarrow> nat \<Rightarrow> nat" where
  "usernameEnd source end' =
     (if end' < length source \<and> isUsernameCharacter (source ! end')
      then usernameEnd source (end' + 1) else end')"
  by pat_completeness auto
termination
  by (relation "measure (\<lambda>(source, end'). length source - end')") auto

declare usernameEnd.simps [simp del]

lemma usernameEnd_ge: "e \<le> usernameEnd s e"
proof (induction s e rule: usernameEnd.induct)
  case (1 s e)
  then show ?case by (subst usernameEnd.simps) force
qed

function mentionLoop :: "jsstr \<Rightarrow> bool \<Rightarrow> nat \<Rightarrow> MentionMatch list \<Rightarrow> MentionMatch list" where
  "mentionLoop source runHasLeftBoundary position matches =
     (if position < length source then
        if source ! position \<noteq> 64 \<or> \<not> hasLeftBoundary source position runHasLeftBoundary
        then mentionLoop source runHasLeftBoundary (position + 1) matches
        else let end' = usernameEnd source (position + 1);
                 username = slice source (position + 1) end'
             in mentionLoop source runHasLeftBoundary
                  (if end' = position + 1 then position + 1 else end')
                  (if isValidUsername username
                   then matches @ [\<lparr>mention_from = position, mention_to = end',
                                     mention_username = username\<rparr>]
                   else matches)
      else matches)"
  by pat_completeness auto
termination
proof (relation "measure (\<lambda>(source, _, position, _). length source - position)", goal_cases)
  case (3 s b p ms e u)
  then show ?case using usernameEnd_ge [of "p + 1" s] by auto
qed auto

declare mentionLoop.simps [simp del]

definition findMentionMatches :: "jsstr \<Rightarrow> bool \<Rightarrow> MentionMatch list" where
  "findMentionMatches source runHasLeftBoundary = mentionLoop source runHasLeftBoundary 0 []"

section \<open>Declarative enumeration\<close>

definition mention_at :: "jsstr \<Rightarrow> bool \<Rightarrow> nat \<Rightarrow> bool" where
  "mention_at s b p \<longleftrightarrow> s ! p = 64 \<and> hasLeftBoundary s p b
     \<and> isValidUsername (takeWhile isUsernameCharacter (drop (p + 1) s))"

definition mention_of :: "jsstr \<Rightarrow> nat \<Rightarrow> MentionMatch" where
  "mention_of s p =
     (let u = takeWhile isUsernameCharacter (drop (p + 1) s)
      in \<lparr>mention_from = p, mention_to = p + 1 + length u, mention_username = u\<rparr>)"

lemma usernameEnd_takeWhile:
  "e \<le> length s \<Longrightarrow> usernameEnd s e = e + length (takeWhile isUsernameCharacter (drop e s))"
proof (induction s e rule: usernameEnd.induct)
  case (1 s e)
  show ?case
  proof (cases "e < length s")
    case True
    then have "drop e s = s ! e # drop (Suc e) s" by (simp add: Cons_nth_drop_Suc)
    with 1 True show ?thesis by (subst usernameEnd.simps) simp
  qed (use 1 in \<open>simp add: usernameEnd.simps\<close>)
qed

lemma usernameEnd_le: "e \<le> length s \<Longrightarrow> usernameEnd s e \<le> length s"
  using length_takeWhile_le [of isUsernameCharacter "drop e s"] by (simp add: usernameEnd_takeWhile)

lemma username_slice:
  "e \<le> length s \<Longrightarrow> slice s e (usernameEnd s e) = takeWhile isUsernameCharacter (drop e s)"
  by (simp add: slice_def usernameEnd_takeWhile takeWhile_eq_take [symmetric])

lemma username_run:
  assumes "e \<le> i" "i < usernameEnd s e" "e \<le> length s"
  shows "i < length s \<and> isUsernameCharacter (s ! i)"
proof -
  let ?t = "takeWhile isUsernameCharacter (drop e s)"
  have j: "i - e < length ?t" using assms usernameEnd_takeWhile by simp
  then have "isUsernameCharacter (?t ! (i - e))" by (meson nth_mem set_takeWhileD)
  moreover have "?t ! (i - e) = s ! i"
    using j assms by (simp add: takeWhile_nth)
  moreover have "i < length s" using j length_takeWhile_le [of isUsernameCharacter "drop e s"] by simp
  ultimately show ?thesis by simp
qed

lemma at_not_username: "\<not> isUsernameCharacter 64"
  by (simp add: isUsernameCharacter_def isAsciiAlnum_def isDigit_def isAsciiAlpha_def)

lemma mentionLoop_eq:
  "p \<le> length s \<Longrightarrow>
   mentionLoop s b p ms = ms @ map (mention_of s) (filter (mention_at s b) [p..<length s])"
proof (induction s b p ms rule: mentionLoop.induct)
  case (1 s b p ms)
  consider (stop) "p = length s"
    | (skip) "p < length s" "s ! p \<noteq> 64 \<or> \<not> hasLeftBoundary s p b"
    | (scan) "p < length s" "\<not> (s ! p \<noteq> 64 \<or> \<not> hasLeftBoundary s p b)" using 1 by linarith
  then show ?case
  proof cases
    case stop
    then show ?thesis by (simp add: mentionLoop.simps)
  next
    case skip
    then have "\<not> mention_at s b p" by (auto simp: mention_at_def)
    then have "filter (mention_at s b) [p..<length s] = filter (mention_at s b) [Suc p..<length s]"
      using skip(1) by (simp add: upt_conv_Cons)
    with skip "1.IH"(1) show ?thesis by (subst mentionLoop.simps) auto
  next
    case scan
    let ?e = "usernameEnd s (p + 1)"
    have e: "p + 1 \<le> ?e" "?e \<le> length s"
      using usernameEnd_ge usernameEnd_le scan(1) by auto
    have inner: "\<not> mention_at s b i" if "p + 1 \<le> i" "i < ?e" for i
      using username_run [OF that] scan(1) at_not_username by (auto simp: mention_at_def)
    have "[p..<length s] = p # [p + 1..<?e] @ [?e..<length s]"
      using e scan(1) by (metis Suc_eq_plus1 le_add_diff_inverse upt_add_eq_append upt_conv_Cons)
    moreover have "filter (mention_at s b) [p + 1..<?e] = []"
      using inner by (auto simp: filter_empty_conv)
    ultimately have f: "filter (mention_at s b) [p..<length s] =
      (if mention_at s b p then [p] else []) @ filter (mention_at s b) [?e..<length s]" by simp
    have "mention_at s b p \<longleftrightarrow> isValidUsername (slice s (p + 1) ?e)"
      "mention_of s p = \<lparr>mention_from = p, mention_to = ?e, mention_username = slice s (p + 1) ?e\<rparr>"
      unfolding mention_at_def mention_of_def Let_def
      using scan username_slice [of "p + 1" s] usernameEnd_takeWhile [of "p + 1" s] by auto
    then show ?thesis using scan e(2) f "1.IH"(2) [OF scan refl refl]
      by (subst mentionLoop.simps) (auto simp: Let_def)
  qed
qed

text \<open>C13. The mention scanner enumerates, in order, exactly the at-signs behind a boundary whose maximal
  run of user name characters is a valid user name, with that run as the user name.\<close>

theorem findMentionMatches_eq:
  "findMentionMatches s b = map (mention_of s) (filter (mention_at s b) [0..<length s])"
  by (simp add: findMentionMatches_def mentionLoop_eq)

lemma mention_of_bounds:
  "p < length s \<Longrightarrow> p < mention_to (mention_of s p) \<and> mention_to (mention_of s p) \<le> length s"
  using length_takeWhile_le [of isUsernameCharacter "drop (Suc p) s"] by (auto simp: mention_of_def Let_def)

abbreviation mention_range :: "MentionMatch \<Rightarrow> nat \<times> nat" where
  "mention_range m \<equiv> (mention_from m, mention_to m)"

lemma mentionLoop_ranges:
  assumes "ordered_ranges 0 p (map mention_range ms)" "p \<le> length s"
  shows "ordered_ranges 0 (length s) (map mention_range (mentionLoop s b p ms))"
  using assms
proof (induction s b p ms rule: mentionLoop.induct)
  case (1 s b p ms)
  let ?e = "usernameEnd s (p + 1)"
  have grow: "ordered_ranges 0 q (map mention_range ms)" if "p \<le> q" for q
    using ordered_ranges_append [OF "1.prems"(1), of q "[]"] that by simp
  have e: "p < length s \<Longrightarrow> p + 1 \<le> ?e \<and> ?e \<le> length s"
    using usernameEnd_ge usernameEnd_le by simp
  have snoc: "p < length s \<Longrightarrow> ordered_ranges 0 ?e (map mention_range ms @ [(p, ?e)])"
    using e by (intro ordered_ranges_append [OF "1.prems"(1)]) auto
  show ?case using "1.IH" "1.prems" grow snoc e
    by (subst mentionLoop.simps) (auto simp: Let_def)
qed

lemma findMentionMatches_ranges:
  "ordered_ranges 0 (length s) (map mention_range (findMentionMatches s b))"
  by (simp add: findMentionMatches_def mentionLoop_ranges)

end
