(* ===== verification/JS_URI.thy ===== *)
theory JS_URI
  imports JS_Prelude
begin

text \<open>
  The URI functions of JavaScript that the client uses: \<open>encodeURIComponent\<close>,
  \<open>decodeURIComponent\<close> and the serialiser of \<open>URLSearchParams\<close>. The first two throw
  \<open>URIError\<close>, here \<open>None\<close>, on a lone surrogate and on a malformed escape. Decoding undoes
  encoding, and an encoded component has no character with a meaning in a URL.
\<close>

section \<open>Code points and UTF-8\<close>

fun codePoints :: "jsstr \<Rightarrow> nat list" where
  "codePoints (c # d # s) =
     (if isHighSurrogate c \<and> isLowSurrogate d
      then (65536 + (c - 55296) * 1024 + (d - 56320)) # codePoints s
      else c # codePoints (d # s))"
| "codePoints s = s"

definition isSurrogate :: "nat \<Rightarrow> bool" where
  "isSurrogate v \<longleftrightarrow> 55296 \<le> v \<and> v \<le> 57343"

definition isScalar :: "nat \<Rightarrow> bool" where
  "isScalar v \<longleftrightarrow> v < 1114112 \<and> \<not> isSurrogate v"

definition utf8 :: "nat \<Rightarrow> nat list" where
  "utf8 v =
     (if v < 128 then [v]
      else if v < 2048 then [192 + v div 64, 128 + v mod 64]
      else if v < 65536 then [224 + v div 4096, 128 + v div 64 mod 64, 128 + v mod 64]
      else [240 + v div 262144, 128 + v div 4096 mod 64, 128 + v div 64 mod 64, 128 + v mod 64])"

definition hexDigit :: "nat \<Rightarrow> code_unit" where
  "hexDigit n = (if n < 10 then 48 + n else 55 + n)"

definition hexVal :: "code_unit \<Rightarrow> nat option" where
  "hexVal c = (if isDigit c then Some (c - 48)
     else if 65 \<le> c \<and> c \<le> 70 then Some (c - 55)
     else if 97 \<le> c \<and> c \<le> 102 then Some (c - 87) else None)"

definition pct :: "nat \<Rightarrow> jsstr" where
  "pct b = [37, hexDigit (b div 16), hexDigit (b mod 16)]"

section \<open>Encoding and decoding\<close>

text \<open>\<open>- _ . ! ~ * ' ( )\<close> and the alphanumerics stay.\<close>

definition uriUnescaped :: "code_unit \<Rightarrow> bool" where
  "uriUnescaped c \<longleftrightarrow> isAsciiAlnum c \<or> c \<in> {45, 95, 46, 33, 126, 42, 39, 40, 41}"

definition encodeCodePoint :: "nat \<Rightarrow> jsstr" where
  "encodeCodePoint v = (if uriUnescaped v then [v] else concat (map pct (utf8 v)))"

definition encodeURIComponent :: "jsstr \<Rightarrow> jsstr option" where
  "encodeURIComponent s =
     (if list_ex isSurrogate (codePoints s) then None
      else Some (concat (map encodeCodePoint (codePoints s))))"

fun readByte :: "jsstr \<Rightarrow> (nat \<times> jsstr) option" where
  "readByte (p # a # b # r) =
     (if p = 37 then
        (case (hexVal a, hexVal b) of (Some x, Some y) \<Rightarrow> Some (16 * x + y, r) | _ \<Rightarrow> None)
      else None)"
| "readByte _ = None"

text \<open>The continuation bytes \<open>10xxxxxx\<close>, accumulated into the code point.\<close>

fun readContinuation :: "nat \<Rightarrow> nat \<Rightarrow> jsstr \<Rightarrow> (nat \<times> jsstr) option" where
  "readContinuation 0 v s = Some (v, s)"
| "readContinuation (Suc n) v s =
     (case readByte s of
        None \<Rightarrow> None
      | Some (b, r) \<Rightarrow>
          if 128 \<le> b \<and> b < 192 then readContinuation n (64 * v + (b - 128)) r else None)"

lemma readByte_shorter: "readByte s = Some (b, r) \<Longrightarrow> length r < length s"
  by (induction s rule: readByte.induct) (auto split: if_splits option.splits)

lemma readContinuation_shorter: "readContinuation n v s = Some (w, r) \<Longrightarrow> length r \<le> length s"
proof (induction n arbitrary: v s)
  case (Suc n)
  then obtain b q where b: "readByte s = Some (b, q)"
    "readContinuation n (64 * v + (b - 128)) q = Some (w, r)"
    by (auto split: option.splits if_splits)
  from Suc.IH [OF b(2)] readByte_shorter [OF b(1)] show ?case by simp
qed simp

text \<open>The code point that starts at an escape: bytes outside the well-formed sequences of UTF-8
  are rejected.\<close>

definition readEscape :: "jsstr \<Rightarrow> (nat \<times> jsstr) option" where
  "readEscape s =
     (case readByte s of
        None \<Rightarrow> None
      | Some (b, r) \<Rightarrow>
          if b < 128 then Some (b, r)
          else if 192 \<le> b \<and> b < 224 then
            (case readContinuation 1 (b - 192) r of
               Some (v, q) \<Rightarrow> if 128 \<le> v then Some (v, q) else None | None \<Rightarrow> None)
          else if 224 \<le> b \<and> b < 240 then
            (case readContinuation 2 (b - 224) r of
               Some (v, q) \<Rightarrow> if 2048 \<le> v \<and> \<not> isSurrogate v then Some (v, q) else None | None \<Rightarrow> None)
          else if 240 \<le> b \<and> b < 248 then
            (case readContinuation 3 (b - 240) r of
               Some (v, q) \<Rightarrow> if 65536 \<le> v \<and> v < 1114112 then Some (v, q) else None | None \<Rightarrow> None)
          else None)"

lemma readEscape_shorter: "readEscape s = Some (v, r) \<Longrightarrow> length r < length s"
  by (auto simp: readEscape_def split: option.splits if_splits prod.splits
        dest!: readByte_shorter readContinuation_shorter)

function decodeURIComponent :: "jsstr \<Rightarrow> jsstr option" where
  "decodeURIComponent [] = Some []"
| "decodeURIComponent (c # s) =
     (if c \<noteq> 37 then map_option (\<lambda>t. c # t) (decodeURIComponent s)
      else case readEscape (c # s) of
             None \<Rightarrow> None
           | Some (v, r) \<Rightarrow> map_option (\<lambda>t. fromCodePoint v @ t) (decodeURIComponent r))"
  by pat_completeness auto
termination
  by (relation "measure length") (auto dest: readEscape_shorter)

section \<open>Round trip\<close>

lemma hexVal_hexDigit: "n < 16 \<Longrightarrow> hexVal (hexDigit n) = Some n"
  by (auto simp: hexVal_def hexDigit_def isDigit_def)

lemma readByte_pct [simp]: "b < 256 \<Longrightarrow> readByte (pct b @ r) = Some (b, r)"
  by (simp add: pct_def hexVal_hexDigit)

lemma escape_step: "b < 256 \<Longrightarrow> pct b @ r = 37 # hexDigit (b div 16) # hexDigit (b mod 16) # r"
  by (simp add: pct_def)

lemma utf8_value: "64 * (64 * (v div 4096) + v div 64 mod 64) + v mod 64 = (v::nat)"
proof -
  have "v div 4096 = v div 64 div 64" by (simp add: div_mult2_eq [symmetric])
  then show ?thesis by simp
qed

lemma readEscape_utf8:
  assumes "isScalar v"
  shows "readEscape (concat (map pct (utf8 v)) @ r) = Some (v, r)"
proof -
  consider "v < 128" | "128 \<le> v" "v < 2048" | "2048 \<le> v" "v < 65536" | "65536 \<le> v" "v < 1114112"
    using assms by (fastforce simp: isScalar_def)
  then show ?thesis
  proof cases
    case 2
    then have "v div 64 < 32" by auto
    then show ?thesis using 2 by (simp add: utf8_def readEscape_def)
  next
    case 3
    then have "v div 4096 < 16" by auto
    moreover have "64 * (64 * (v div 4096) + v div 64 mod 64) + v mod 64 = v"
      using utf8_value [of v] by simp
    ultimately show ?thesis using 3 assms by (simp add: utf8_def readEscape_def isScalar_def numeral_2_eq_2)
  next
    case 4
    then have "v div 262144 < 5" by auto
    moreover have "64 * (64 * (64 * (v div 262144) + v div 4096 mod 64) + v div 64 mod 64) + v mod 64 = v"
      using utf8_value [of v] utf8_value [of "v div 64"] by (simp add: div_mult2_eq [symmetric])
    ultimately show ?thesis using 4 assms by (simp add: utf8_def readEscape_def numeral_3_eq_3)
  qed (simp add: utf8_def readEscape_def)
qed

lemma utf8_escape: "\<exists>t. concat (map pct (utf8 v)) = 37 # t"
  by (simp add: utf8_def pct_def)

lemma uriUnescaped_bound: "uriUnescaped v \<Longrightarrow> v < 128 \<and> v \<noteq> 37"
  by (auto simp: uriUnescaped_def isAsciiAlnum_def isDigit_def isAsciiAlpha_def)

lemma decode_step:
  assumes "isScalar v"
  shows "decodeURIComponent (encodeCodePoint v @ r) =
    map_option (\<lambda>t. fromCodePoint v @ t) (decodeURIComponent r)"
proof (cases "uriUnescaped v")
  case True
  then have "v < 128" "v \<noteq> 37" using uriUnescaped_bound by auto
  with True show ?thesis by (simp add: encodeCodePoint_def fromCodePoint_def)
next
  case False
  obtain t where t: "concat (map pct (utf8 v)) = 37 # t" using utf8_escape by blast
  with False readEscape_utf8 [OF assms, of r] show ?thesis by (simp add: encodeCodePoint_def)
qed

lemma decode_codePoints:
  "list_all isScalar vs \<Longrightarrow>
   decodeURIComponent (concat (map encodeCodePoint vs)) = Some (concat (map fromCodePoint vs))"
  by (induction vs) (simp_all add: decode_step)

lemma codePoints_units: "js_string s \<Longrightarrow> concat (map fromCodePoint (codePoints s)) = s"
proof (induction s rule: codePoints.induct)
  case (1 c d s)
  show ?case
  proof (cases "isHighSurrogate c \<and> isLowSurrogate d")
    case True
    then obtain a b where "c = 55296 + a" "d = 56320 + b" "a < 1024" "b < 1024"
      by (auto simp: isHighSurrogate_def isLowSurrogate_def le_iff_add)
    with 1 True show ?thesis by (auto simp: fromCodePoint_def js_string_def)
  next
    case False
    with 1 show ?thesis by (auto simp: fromCodePoint_def js_string_def)
  qed
qed (auto simp: fromCodePoint_def js_string_def)

lemma codePoints_range: "js_string s \<Longrightarrow> v \<in> set (codePoints s) \<Longrightarrow> v < 1114112"
  by (induction s rule: codePoints.induct)
     (auto simp: js_string_def isHighSurrogate_def isLowSurrogate_def split: if_splits)

lemma decode_encode:
  assumes "js_string s" "encodeURIComponent s = Some e"
  shows "decodeURIComponent e = Some s"
proof -
  have "list_all isScalar (codePoints s)" "e = concat (map encodeCodePoint (codePoints s))"
    using assms codePoints_range
    by (auto simp: encodeURIComponent_def isScalar_def list_all_iff list_ex_iff split: if_splits)
  then show ?thesis using decode_codePoints codePoints_units [OF assms(1)] by simp
qed

section \<open>Characters of an encoded component\<close>

definition uriComponentChar :: "code_unit \<Rightarrow> bool" where
  "uriComponentChar c \<longleftrightarrow> uriUnescaped c \<or> c = 37"

lemma hexDigit_char: "n < 16 \<Longrightarrow> uriComponentChar (hexDigit n)"
  by (auto simp: uriComponentChar_def uriUnescaped_def hexDigit_def isAsciiAlnum_def isDigit_def isAsciiAlpha_def)

lemma pct_chars: "b < 256 \<Longrightarrow> list_all uriComponentChar (pct b)"
  by (simp add: pct_def hexDigit_char) (simp add: uriComponentChar_def)

lemma utf8_bytes: "v < 1114112 \<Longrightarrow> list_all (\<lambda>b. b < 256) (utf8 v)"
  by (auto simp: utf8_def less_mult_imp_div_less)

lemma encodeURIComponent_chars:
  assumes "js_string s" "encodeURIComponent s = Some e"
  shows "list_all uriComponentChar e"
proof -
  have "list_all uriComponentChar (encodeCodePoint v)" if "v < 1114112" for v
    using utf8_bytes [OF that] pct_chars
    by (auto simp: encodeCodePoint_def list_all_iff) (auto simp: uriComponentChar_def)
  then have "list_all (\<lambda>v. list_all uriComponentChar (encodeCodePoint v)) (codePoints s)"
    using codePoints_range [OF assms(1)] by (auto simp: list_all_iff)
  then show ?thesis using assms(2)
    by (auto simp: encodeURIComponent_def list_all_iff split: if_splits)
qed

lemma encodeURIComponent_empty [simp]: "encodeURIComponent [] = Some []"
  by (simp add: encodeURIComponent_def)

lemma codePoints_ascii: "\<forall>c \<in> set s. c < 128 \<Longrightarrow> codePoints s = s"
  by (induction s rule: codePoints.induct) (auto simp: isHighSurrogate_def)

lemma encodeURIComponent_ascii:
  assumes "\<forall>c \<in> set s. uriUnescaped c"
  shows "encodeURIComponent s = Some s"
proof -
  have lt: "\<forall>c \<in> set s. c < 128" using assms uriUnescaped_bound by blast
  then have "codePoints s = s" by (rule codePoints_ascii)
  moreover have "\<not> list_ex isSurrogate s"
    using lt by (auto simp: list_ex_iff isSurrogate_def)
  moreover have "concat (map encodeCodePoint s) = s"
    using assms by (induction s) (simp_all add: encodeCodePoint_def)
  ultimately show ?thesis by (simp add: encodeURIComponent_def)
qed

section \<open>Query strings\<close>

text \<open>\<open>URLSearchParams.toString()\<close>: \<open>application/x-www-form-urlencoded\<close>. Lone surrogates become
  U+FFFD, a space becomes a plus sign.\<close>

definition toScalar :: "nat \<Rightarrow> nat" where
  "toScalar v = (if isSurrogate v then 65533 else v)"

definition formUnescaped :: "code_unit \<Rightarrow> bool" where
  "formUnescaped c \<longleftrightarrow> isAsciiAlnum c \<or> c \<in> {42, 45, 46, 95}"

definition formEncodeCodePoint :: "nat \<Rightarrow> jsstr" where
  "formEncodeCodePoint v =
     (if v = 32 then [43] else if formUnescaped v then [v] else concat (map pct (utf8 v)))"

definition formEncode :: "jsstr \<Rightarrow> jsstr" where
  "formEncode s = concat (map (\<lambda>v. formEncodeCodePoint (toScalar v)) (codePoints s))"

type_synonym search_params = "(jsstr \<times> jsstr) list"

definition searchParams_toString :: "search_params \<Rightarrow> jsstr" where
  "searchParams_toString ps = join [38] (map (\<lambda>(k, v). formEncode k @ [61] @ formEncode v) ps)"

text \<open>\<open>set\<close> replaces the first pair with the name and removes the others.\<close>

definition searchParams_set :: "jsstr \<Rightarrow> jsstr \<Rightarrow> search_params \<Rightarrow> search_params" where
  "searchParams_set k v ps =
     (if k \<in> fst ` set ps
      then takeWhile (\<lambda>p. fst p \<noteq> k) ps @ (k, v) #
           filter (\<lambda>p. fst p \<noteq> k) (tl (dropWhile (\<lambda>p. fst p \<noteq> k) ps))
      else ps @ [(k, v)])"

definition searchParams_delete :: "jsstr \<Rightarrow> search_params \<Rightarrow> search_params" where
  "searchParams_delete k ps = filter (\<lambda>p. fst p \<noteq> k) ps"

definition searchParams_get :: "jsstr \<Rightarrow> search_params \<Rightarrow> jsstr option" where
  "searchParams_get k ps = map_of ps k"

end
