(* ===== verification/Routes.thy ===== *)
theory Routes
  imports JS_URI
begin

text \<open>
  Client side routing: the collection routes of \<^verbatim>\<open>web/src/router/routes.ts\<close>, the redirect guards of
  \<^verbatim>\<open>web/src/utils/redirect-safety.ts\<close>, the memo scopes of \<^verbatim>\<open>web/src/lib/memo-views.ts\<close>, memo
  navigation (\<^verbatim>\<open>web/src/components/MemoView/navigation.ts\<close>), the sidebar policies
  (\<^verbatim>\<open>web/src/components/AppSidebar/routes.ts\<close>) and the display of Space names
  (\<^verbatim>\<open>web/src/lib/space-display.ts\<close>).

  \<open>matchPath\<close> of react-router and the Unicode case mapping are fields of \<open>route_env\<close>. A function
  that can throw \<open>URIError\<close> has an optional result, \<open>None\<close> when it throws.
\<close>

section \<open>Environment and constants\<close>

record route_env =
  matchPath :: "jsstr \<Rightarrow> jsstr \<Rightarrow> (jsstr \<times> jsstr) list option"
  toLowerCase :: "jsstr \<Rightarrow> jsstr"

definition HOME :: jsstr where "HOME = js ''/''"
definition ABOUT :: jsstr where "ABOUT = js ''/about''"
definition ATTACHMENTS :: jsstr where "ATTACHMENTS = js ''/attachments''"
definition INBOX :: jsstr where "INBOX = js ''/inbox''"
definition ARCHIVED :: jsstr where "ARCHIVED = js ''/archived''"
definition CALENDAR :: jsstr where "CALENDAR = js ''/calendar''"
definition MAP :: jsstr where "MAP = js ''/map''"
definition HABITS :: jsstr where "HABITS = js ''/habits''"
definition AI :: jsstr where "AI = js ''/ai''"
definition VIEWS :: jsstr where "VIEWS = js ''/views''"
definition SETTING :: jsstr where "SETTING = js ''/setting''"
definition EXPLORE :: jsstr where "EXPLORE = js ''/explore''"
definition AUTH :: jsstr where "AUTH = js ''/auth''"
definition SHARED_MEMO :: jsstr where "SHARED_MEMO = js ''/memos/shares''"

definition CALENDAR_ROUTE_PATTERN :: jsstr where
  "CALENDAR_ROUTE_PATTERN = CALENDAR @ js ''/:year?/:month?/:day?''"

definition SPACE_ROUTE_PATTERN :: jsstr where
  "SPACE_ROUTE_PATTERN = js ''/spaces/:spaceUid''"

definition COLLECTION_ROUTE_PATTERNS :: "jsstr list" where
  "COLLECTION_ROUTE_PATTERNS = [HOME, EXPLORE, ATTACHMENTS, CALENDAR_ROUTE_PATTERN, MAP]"

lemmas route_consts = HOME_def ABOUT_def ATTACHMENTS_def INBOX_def ARCHIVED_def CALENDAR_def MAP_def
  HABITS_def AI_def VIEWS_def SETTING_def EXPLORE_def AUTH_def SHARED_MEMO_def
  CALENDAR_ROUTE_PATTERN_def SPACE_ROUTE_PATTERN_def js_def

section \<open>Space names\<close>

definition extractSpaceUidFromName :: "jsstr \<Rightarrow> jsstr" where
  "extractSpaceUidFromName name = last (split_on 47 name)"

definition getDuplicateSpaceTitles :: "jsstr list \<Rightarrow> jsstr list" where
  "getDuplicateSpaceTitles titles =
     snd (foldl (\<lambda>(seen, duplicates) title.
            if title \<in> set seen then (seen, set_add title duplicates)
            else (set_add title seen, duplicates)) ([], []) titles)"

definition isHexChar :: "code_unit \<Rightarrow> bool" where
  "isHexChar c \<longleftrightarrow> isDigit c \<or> 97 \<le> c \<and> c \<le> 102 \<or> 65 \<le> c \<and> c \<le> 70"

definition UUID_PATTERN :: "jsstr \<Rightarrow> bool" where
  "UUID_PATTERN s \<longleftrightarrow>
     (let ws = split_on 45 s
      in map length ws = [8, 4, 4, 4, 12] \<and> list_all (list_all isHexChar) ws)"

definition formatSpaceUidForDisplay :: "jsstr \<Rightarrow> jsstr" where
  "formatSpaceUidForDisplay name =
     (let uid = extractSpaceUidFromName name
      in if UUID_PATTERN uid then slice uid 0 8 @ [8230]
         else if length uid > 18 then slice uid 0 8 @ [8230] @ slice uid (length uid - 6) (length uid)
         else uid)"

section \<open>Collection routes\<close>

text \<open>\<open>path.split(/[?#]/, 1)[0]\<close>, \<open>s || "/"\<close> and \<open>s.replace(/\/+$/, "")\<close>.\<close>

definition pathnamePart :: "jsstr \<Rightarrow> jsstr" where
  "pathnamePart path = takeWhile (\<lambda>c. c \<noteq> 63 \<and> c \<noteq> 35) path"

definition orHome :: "jsstr \<Rightarrow> jsstr" where
  "orHome s = (if s = [] then HOME else s)"

definition stripTrailingSlashes :: "jsstr \<Rightarrow> jsstr" where
  "stripTrailingSlashes s = rev (dropWhile (\<lambda>c. c = 47) (rev s))"

record CollectionRoute =
  route_spaceName :: "jsstr option"
  route_pathname :: jsstr
  route_isCollection :: bool

definition isCollectionPathname :: "route_env \<Rightarrow> jsstr \<Rightarrow> bool" where
  "isCollectionPathname E pathname =
     list_ex (\<lambda>path. matchPath E path pathname \<noteq> None) COLLECTION_ROUTE_PATTERNS"

definition param :: "(jsstr \<times> jsstr) list \<Rightarrow> jsstr \<Rightarrow> jsstr" where
  "param ps k = (case map_of ps k of None \<Rightarrow> [] | Some v \<Rightarrow> v)"

definition resolveCollectionRoute :: "route_env \<Rightarrow> jsstr \<Rightarrow> CollectionRoute" where
  "resolveCollectionRoute E path =
     (let pathname = orHome (stripTrailingSlashes (orHome (pathnamePart path)))
      in case matchPath E (SPACE_ROUTE_PATTERN @ js ''/*'') pathname of
           None \<Rightarrow> \<lparr>route_spaceName = None, route_pathname = pathname,
                    route_isCollection = isCollectionPathname E pathname\<rparr>
         | Some params \<Rightarrow>
             let uid = param params (js ''spaceUid'');
                 collectionPath = 47 # param params (js ''*'')
             in if uid = [] \<or> 47 \<in> set uid \<or> \<not> isCollectionPathname E collectionPath
                then \<lparr>route_spaceName = None, route_pathname = pathname, route_isCollection = False\<rparr>
                else \<lparr>route_spaceName = Some (js ''spaces/'' @ uid), route_pathname = collectionPath,
                       route_isCollection = True\<rparr>)"

definition buildCollectionPath :: "route_env \<Rightarrow> jsstr \<Rightarrow> jsstr option \<Rightarrow> jsstr option" where
  "buildCollectionPath E pathname spaceName =
     (let route = resolveCollectionRoute E pathname
      in if \<not> route_isCollection route then Some pathname
         else if \<not> truthy spaceName then Some (route_pathname route)
         else case encodeURIComponent (extractSpaceUidFromName (the spaceName)) of
                None \<Rightarrow> None
              | Some e \<Rightarrow>
                  let base = js ''/spaces/'' @ e
                  in Some (if route_pathname route = HOME then base else base @ route_pathname route))"

definition collectionPathForLocation :: "route_env \<Rightarrow> jsstr \<Rightarrow> jsstr \<Rightarrow> jsstr option" where
  "collectionPathForLocation E pathname currentPath =
     buildCollectionPath E pathname (route_spaceName (resolveCollectionRoute E currentPath))"

record location =
  loc_pathname :: jsstr
  loc_search :: jsstr
  loc_hash :: jsstr

definition getSpaceSwitchPath :: "route_env \<Rightarrow> location \<Rightarrow> jsstr option \<Rightarrow> jsstr option" where
  "getSpaceSwitchPath E location spaceName =
     (let route = resolveCollectionRoute E (loc_pathname location)
      in if route_isCollection route
         then map_option (\<lambda>p. p @ loc_search location @ loc_hash location)
                (buildCollectionPath E (route_pathname route) spaceName)
         else buildCollectionPath E HOME spaceName)"

section \<open>Redirect guards\<close>

definition AUTH_REDIRECT_PARAM :: jsstr where "AUTH_REDIRECT_PARAM = js ''redirect''"
definition AUTH_REASON_PARAM :: jsstr where "AUTH_REASON_PARAM = js ''reason''"

definition getSafeRedirectPath :: "jsstr option \<Rightarrow> jsstr option" where
  "getSafeRedirectPath path =
     (if \<not> truthy path then None
      else let p = the path
           in if \<not> startsWith p (js ''/'') \<or> startsWith p (js ''//'') then None
              else if p = AUTH \<or> startsWith p (AUTH @ js ''/'') \<or> startsWith p (AUTH @ js ''?'') then None
              else Some p)"

definition buildAuthRoute :: "jsstr option \<Rightarrow> jsstr option \<Rightarrow> jsstr" where
  "buildAuthRoute redirect reason =
     (let p0 = [];
          p1 = (case getSafeRedirectPath redirect of
                  None \<Rightarrow> p0 | Some r \<Rightarrow> searchParams_set AUTH_REDIRECT_PARAM r p0);
          p2 = (if truthy reason then searchParams_set AUTH_REASON_PARAM (the reason) p1 else p1);
          search = searchParams_toString p2
      in if search \<noteq> [] then AUTH @ js ''?'' @ search else AUTH)"

definition PUBLIC_ROUTE_PREFIXES :: "jsstr list" where
  "PUBLIC_ROUTE_PREFIXES =
     [AUTH, ABOUT, EXPLORE, SHARED_MEMO @ js ''/'', js ''/u/'', js ''/memos/'']"

definition isPublicRoute :: "jsstr \<Rightarrow> bool" where
  "isPublicRoute path = list_ex (\<lambda>route. startsWith path route) PUBLIC_ROUTE_PREFIXES"

definition shouldGatePrivateInstance :: "bool \<Rightarrow> bool \<Rightarrow> jsstr \<Rightarrow> bool" where
  "shouldGatePrivateInstance isPrivateInstance isAuthenticated pathname =
     (if \<not> isPrivateInstance \<or> isAuthenticated then False
      else \<not> startsWith pathname (SHARED_MEMO @ js ''/''))"

definition appendSearchParams :: "jsstr \<Rightarrow> search_params \<Rightarrow> jsstr" where
  "appendSearchParams path searchParams =
     (let queryString = searchParams_toString searchParams
      in if queryString \<noteq> [] then path @ js ''?'' @ queryString else path)"

section \<open>Memo scopes\<close>

datatype MemoScope = home | explore | archived

definition getMemoViewId :: "jsstr \<Rightarrow> jsstr" where
  "getMemoViewId name =
     (let parts = split_on 47 name in if length parts = 4 then parts ! 3 else name)"

definition cleanPathname :: "jsstr \<Rightarrow> jsstr" where
  "cleanPathname val =
     (let pathname = orHome (pathnamePart val)
      in if length pathname > 1 then stripTrailingSlashes pathname else pathname)"

definition comparablePathname :: "route_env \<Rightarrow> jsstr \<Rightarrow> jsstr" where
  "comparablePathname E pathname = toLowerCase E (route_pathname (resolveCollectionRoute E pathname))"

definition isMemoScopeRoute :: "route_env \<Rightarrow> jsstr \<Rightarrow> bool" where
  "isMemoScopeRoute E pathname =
     (let comparablePath = comparablePathname E pathname
      in comparablePath = HOME \<or> comparablePath = EXPLORE \<or> comparablePath = ARCHIVED)"

text \<open>The outer option is \<open>None\<close> when \<open>decodeURIComponent\<close> throws.\<close>

definition getProfileUsername :: "jsstr \<Rightarrow> jsstr option option" where
  "getProfileUsername pathname =
     (case cleanPathname pathname of
        a # b # c # u \<Rightarrow>
          (if a = 47 \<and> (b = 117 \<or> b = 85) \<and> c = 47 \<and> u \<noteq> [] \<and> 47 \<notin> set u
           then map_option Some (decodeURIComponent u) else Some None)
      | _ \<Rightarrow> Some None)"

definition isCalendarRoute :: "route_env \<Rightarrow> jsstr \<Rightarrow> bool" where
  "isCalendarRoute E pathname =
     (let comparablePath = comparablePathname E pathname
      in comparablePath = CALENDAR \<or> startsWith comparablePath (CALENDAR @ js ''/''))"

definition isMemoCollectionRoute :: "route_env \<Rightarrow> jsstr \<Rightarrow> bool option" where
  "isMemoCollectionRoute E pathname =
     (if isMemoScopeRoute E pathname then Some True
      else case getProfileUsername pathname of
             None \<Rightarrow> None
           | Some (Some _) \<Rightarrow> Some True
           | Some None \<Rightarrow>
               Some (isCalendarRoute E pathname
                     \<or> matchPath E MAP (comparablePathname E pathname) \<noteq> None))"

definition getMemoScopePath :: "MemoScope \<Rightarrow> jsstr" where
  "getMemoScopePath scope = (if scope = explore then EXPLORE else HOME)"

record ResolveMemoScopeOptions =
  currentUsername :: "jsstr option"
  detailFrom :: "jsstr option"
  memoArchived :: bool
  fallback :: "MemoScope option"

function resolveMemoScope ::
  "route_env \<Rightarrow> jsstr \<Rightarrow> ResolveMemoScopeOptions \<Rightarrow> MemoScope option" where
  "resolveMemoScope E pathname options =
     (let cleanPath = cleanPathname pathname;
          comparablePath = comparablePathname E cleanPath
      in if comparablePath = EXPLORE then Some explore
         else if comparablePath = ARCHIVED then Some archived
         else if comparablePath = HOME then Some home
         else case getProfileUsername cleanPath of
                None \<Rightarrow> None
              | Some (Some profileUsername) \<Rightarrow>
                  Some (if truthy (currentUsername options)
                           \<and> Some profileUsername = currentUsername options
                        then home else explore)
              | Some None \<Rightarrow>
                  if startsWith comparablePath (js ''/memos/'') \<and> truthy (detailFrom options)
                  then resolveMemoScope E (the (detailFrom options))
                         \<lparr>currentUsername = currentUsername options, detailFrom = None,
                          memoArchived = False, fallback = fallback options\<rparr>
                  else if startsWith comparablePath (js ''/memos/'') \<and> memoArchived options
                  then Some archived
                  else Some (case fallback options of None \<Rightarrow> home | Some f \<Rightarrow> f))"
  by pat_completeness auto
termination
  by (relation "measure (\<lambda>(_, _, options). if detailFrom options = None then 0 else 1)")
     (auto simp: truthy_def split: option.splits)

declare resolveMemoScope.simps [simp del]

section \<open>Memo navigation\<close>

definition normalizePathname :: "route_env \<Rightarrow> jsstr \<Rightarrow> jsstr" where
  "normalizePathname E pathname =
     toLowerCase E (if length pathname > 1 then stripTrailingSlashes pathname else pathname)"

definition isMemoResourcePath :: "route_env \<Rightarrow> jsstr \<Rightarrow> bool" where
  "isMemoResourcePath E pathname =
     (let normalizedPath = normalizePathname E pathname;
          sharedMemoPrefix = SHARED_MEMO @ js ''/'';
          directMemoPrefix = js ''/memos/''
      in if startsWith normalizedPath sharedMemoPrefix
         then let shareToken = drop (length sharedMemoPrefix) normalizedPath
              in shareToken \<noteq> [] \<and> 47 \<notin> set shareToken
         else if \<not> startsWith normalizedPath directMemoPrefix then False
         else let memoID = drop (length directMemoPrefix) normalizedPath
              in memoID \<noteq> [] \<and> 47 \<notin> set memoID)"

text \<open>The router state: \<open>Some f\<close> is an object whose string property \<open>from\<close> is \<open>f\<close>.\<close>

definition resolveMemoDetailOrigin :: "jsstr option \<Rightarrow> bool \<Rightarrow> jsstr" where
  "resolveMemoDetailOrigin from_state memo_archived =
     (if truthy from_state then the from_state else if memo_archived then ARCHIVED else HOME)"

definition isMemoDetailPath :: "route_env \<Rightarrow> jsstr \<Rightarrow> jsstr \<Rightarrow> bool" where
  "isMemoDetailPath E pathname memoName =
     (let normalizedPath = normalizePathname E pathname
      in if normalizedPath = toLowerCase E (47 # memoName) then True
         else startsWith normalizedPath (SHARED_MEMO @ js ''/'') \<and> isMemoResourcePath E normalizedPath)"

definition resolveMemoParentPage ::
  "route_env \<Rightarrow> jsstr option \<Rightarrow> jsstr \<Rightarrow> jsstr \<Rightarrow> jsstr \<Rightarrow> jsstr" where
  "resolveMemoParentPage E explicitParentPage pathname search memoName =
     (case explicitParentPage of
        Some p \<Rightarrow> orHome p
      | None \<Rightarrow> if isMemoDetailPath E pathname memoName then HOME else pathname @ search)"

text \<open>The parser of \<open>URLSearchParams\<close> is the argument \<open>parse\<close>.\<close>

definition withMemoFilter :: "(jsstr \<Rightarrow> search_params) \<Rightarrow> jsstr \<Rightarrow> jsstr \<Rightarrow> jsstr" where
  "withMemoFilter parse page filter_text =
     (let pathAndSearch = takeWhile (\<lambda>c. c \<noteq> 35) page;
          pathname = takeWhile (\<lambda>c. c \<noteq> 63) pathAndSearch;
          search = tl (dropWhile (\<lambda>c. c \<noteq> 63) pathAndSearch);
          searchParams = searchParams_set (js ''filter'') filter_text (parse search)
      in orHome pathname @ js ''?'' @ searchParams_toString searchParams)"

section \<open>Sidebar policies\<close>

datatype SidebarRouteKind =
    Scope MemoScope | profile | views | calendar | map_kind | attachments | habits | ai | inbox
  | settings | memo_kind | common

datatype RouteSearchScope = route_collection | user_collection | profile_scope | all_scope

record RouteActionPolicy =
  searchScope :: RouteSearchScope
  searchDestination :: "jsstr option"

abbreviation no_options :: ResolveMemoScopeOptions where
  "no_options \<equiv> \<lparr>currentUsername = None, detailFrom = None, memoArchived = False, fallback = None\<rparr>"

definition getSidebarRouteKind :: "route_env \<Rightarrow> jsstr \<Rightarrow> SidebarRouteKind option" where
  "getSidebarRouteKind E path =
     (let normalizedPath = route_pathname (resolveCollectionRoute E path);
          matches = (\<lambda>p. matchPath E p normalizedPath \<noteq> None)
      in if isMemoScopeRoute E normalizedPath
         then map_option Scope (resolveMemoScope E normalizedPath no_options)
         else case getProfileUsername normalizedPath of
                None \<Rightarrow> None
              | Some (Some _) \<Rightarrow> Some profile
              | Some None \<Rightarrow> Some (
                  if matches VIEWS then views
                  else if isCalendarRoute E normalizedPath then calendar
                  else if matches MAP then map_kind
                  else if matches ATTACHMENTS then attachments
                  else if matches HABITS then habits
                  else if matches AI then ai
                  else if matches INBOX then inbox
                  else if matches SETTING then settings
                  else if matches (js ''/memos/:uid'') \<or> matches (SHARED_MEMO @ js ''/:token'') then memo_kind
                  else common))"

definition getRouteActionPolicy :: "route_env \<Rightarrow> jsstr \<Rightarrow> RouteActionPolicy option" where
  "getRouteActionPolicy E path =
     (case getSidebarRouteKind E path of
        None \<Rightarrow> None
      | Some kind \<Rightarrow>
          if kind = Scope home \<or> kind = Scope explore
          then Some \<lparr>searchScope = route_collection, searchDestination = None\<rparr>
          else if kind = Scope archived
          then Some \<lparr>searchScope = user_collection, searchDestination = None\<rparr>
          else if kind = calendar \<or> kind = map_kind \<or> kind = attachments
          then map_option (\<lambda>d. \<lparr>searchScope = route_collection, searchDestination = Some d\<rparr>)
                 (collectionPathForLocation E HOME path)
          else if kind = profile
          then Some \<lparr>searchScope = profile_scope, searchDestination =
                      Some (if length path > 1 then stripTrailingSlashes path else path)\<rparr>
          else Some \<lparr>searchScope = all_scope, searchDestination = Some HOME\<rparr>)"

section \<open>Path normalisation\<close>

lemma extractSpaceUid_no_slash: "47 \<notin> set (extractSpaceUidFromName name)"
proof -
  have "last (split_on 47 name) \<in> set (split_on 47 name)" by (rule last_in_set) (rule split_on_nonempty)
  from split_on_parts [OF this] show ?thesis by (simp add: extractSpaceUidFromName_def)
qed

lemma extractSpaceUid_space [simp]:
  "47 \<notin> set uid \<Longrightarrow> extractSpaceUidFromName (js ''spaces/'' @ uid) = uid"
  using split_on_append [of 47 "js ''spaces''" uid] split_on_absent [of 47 uid]
  by (simp add: extractSpaceUidFromName_def js_def)

lemma stripTrailingSlashes_id: "s = [] \<or> last s \<noteq> 47 \<Longrightarrow> stripTrailingSlashes s = s"
  by (cases s rule: rev_cases) (auto simp: stripTrailingSlashes_def)

lemma stripTrailingSlashes_last: "stripTrailingSlashes s \<noteq> [] \<Longrightarrow> last (stripTrailingSlashes s) \<noteq> 47"
  using hd_dropWhile [of "\<lambda>c. c = 47" "rev s"] by (auto simp: stripTrailingSlashes_def last_rev)

lemma stripTrailingSlashes_subset: "set (stripTrailingSlashes s) \<subseteq> set s"
  by (auto simp: stripTrailingSlashes_def dest: set_dropWhileD)

text \<open>A normalised pathname has no query or fragment and no trailing slash, except Home itself.\<close>

definition normal_pathname :: "jsstr \<Rightarrow> bool" where
  "normal_pathname p \<longleftrightarrow> p = HOME \<or> p \<noteq> [] \<and> last p \<noteq> 47 \<and> 63 \<notin> set p \<and> 35 \<notin> set p"

definition collectionPathname :: "jsstr \<Rightarrow> jsstr" where
  "collectionPathname path = orHome (stripTrailingSlashes (orHome (pathnamePart path)))"

lemma pathnamePart_set: "63 \<notin> set (pathnamePart p) \<and> 35 \<notin> set (pathnamePart p)"
  by (auto simp: pathnamePart_def dest: set_takeWhileD)

lemma pathnamePart_id: "63 \<notin> set p \<Longrightarrow> 35 \<notin> set p \<Longrightarrow> pathnamePart p = p"
  by (auto simp: pathnamePart_def takeWhile_eq_all_conv)

lemma normalize_normal: "normal_pathname (collectionPathname path)"
proof -
  have "63 \<notin> set (orHome (pathnamePart path)) \<and> 35 \<notin> set (orHome (pathnamePart path))"
    using pathnamePart_set by (auto simp: orHome_def route_consts)
  then have "63 \<notin> set (stripTrailingSlashes (orHome (pathnamePart path)))"
    "35 \<notin> set (stripTrailingSlashes (orHome (pathnamePart path)))"
    using stripTrailingSlashes_subset by blast+
  then show ?thesis using stripTrailingSlashes_last [of "orHome (pathnamePart path)"]
    by (auto simp: collectionPathname_def normal_pathname_def orHome_def [of "stripTrailingSlashes _"])
qed

lemma normalize_id: "normal_pathname p \<Longrightarrow> collectionPathname p = p"
proof (unfold normal_pathname_def, elim disjE conjE)
  assume "p = HOME"
  then show ?thesis by (simp add: collectionPathname_def orHome_def pathnamePart_def stripTrailingSlashes_def route_consts)
qed (simp add: collectionPathname_def orHome_def pathnamePart_id stripTrailingSlashes_id)

lemma resolve_normalize:
  "resolveCollectionRoute E path =
     (case matchPath E (SPACE_ROUTE_PATTERN @ js ''/*'') (collectionPathname path) of
        None \<Rightarrow> \<lparr>route_spaceName = None, route_pathname = collectionPathname path,
                 route_isCollection = isCollectionPathname E (collectionPathname path)\<rparr>
      | Some params \<Rightarrow>
          let uid = param params (js ''spaceUid'');
              collectionPath = 47 # param params (js ''*'')
          in if uid = [] \<or> 47 \<in> set uid \<or> \<not> isCollectionPathname E collectionPath
             then \<lparr>route_spaceName = None, route_pathname = collectionPathname path, route_isCollection = False\<rparr>
             else \<lparr>route_spaceName = Some (js ''spaces/'' @ uid), route_pathname = collectionPath,
                    route_isCollection = True\<rparr>)"
  unfolding resolveCollectionRoute_def collectionPathname_def Let_def ..

section \<open>What the client relies on in the router\<close>

text \<open>Documented behaviour of \<open>matchPath\<close>: the pattern of Space routes matches \<open>/spaces/\<close>, a decoded
  segment and a rest, and the patterns of the global collections match no path under
  \<open>/spaces/\<close> and only absolute paths.\<close>

definition matchPath_ok :: "route_env \<Rightarrow> bool" where
  "matchPath_ok E \<longleftrightarrow>
     (\<forall>uid e rest. js_string uid \<and> uid \<noteq> [] \<and> encodeURIComponent uid = Some e \<and> (rest = [] \<or> hd rest = 47)
        \<longrightarrow> matchPath E (SPACE_ROUTE_PATTERN @ js ''/*'') (js ''/spaces/'' @ e @ rest) =
              Some [(js ''spaceUid'', uid), (js ''*'', tl rest)])
     \<and> (\<forall>p. isCollectionPathname E p \<longrightarrow>
          p \<noteq> [] \<and> hd p = 47 \<and> matchPath E (SPACE_ROUTE_PATTERN @ js ''/*'') p = None)"

lemma space_url_normal:
  assumes "js_string uid" "uid \<noteq> []" "encodeURIComponent uid = Some e" "normal_pathname p"
  shows "normal_pathname (js ''/spaces/'' @ e @ (if p = HOME then [] else p))"
proof -
  have "list_all uriComponentChar e" using encodeURIComponent_chars assms by blast
  then have e: "47 \<notin> set e" "63 \<notin> set e" "35 \<notin> set e"
    by (auto simp: list_all_iff uriComponentChar_def uriUnescaped_def isAsciiAlnum_def isDigit_def isAsciiAlpha_def)
  have "e \<noteq> []" using assms decode_encode by force
  then have "last (js ''/spaces/'' @ e) \<noteq> 47" using e(1) by (auto dest: last_in_set)
  with e assms(4) \<open>e \<noteq> []\<close> show ?thesis by (auto simp: normal_pathname_def js_def)
qed

lemma build_resolve:
  assumes E: "matchPath_ok E" and uid: "js_string uid" "uid \<noteq> []" "47 \<notin> set uid"
    and r: "resolveCollectionRoute E path = r" "route_isCollection r" "normal_pathname (route_pathname r)"
    and q: "buildCollectionPath E path (Some (js ''spaces/'' @ uid)) = Some q"
  shows "resolveCollectionRoute E q =
    \<lparr>route_spaceName = Some (js ''spaces/'' @ uid), route_pathname = route_pathname r,
     route_isCollection = True\<rparr>"
proof -
  let ?p = "route_pathname r"
  let ?rest = "if ?p = HOME then [] else ?p"
  have t: "truthy (Some (js ''spaces/'' @ uid))" by (simp add: truthy_def js_def)
  from q r t obtain e where e: "encodeURIComponent uid = Some e" "q = js ''/spaces/'' @ e @ ?rest"
    using extractSpaceUid_space [OF uid(3)]
    by (auto simp: buildCollectionPath_def Let_def split: option.splits)
  have coll: "isCollectionPathname E ?p"
    using r by (auto simp: resolve_normalize Let_def split: option.splits if_splits)
  then have p: "?p \<noteq> []" "hd ?p = 47" using E by (auto simp: matchPath_ok_def)
  have "collectionPathname q = q" using space_url_normal [OF uid(1,2) e(1) r(3)] e(2) by (simp add: normalize_id)
  moreover have "matchPath E (SPACE_ROUTE_PATTERN @ js ''/*'') q =
      Some [(js ''spaceUid'', uid), (js ''*'', tl ?rest)]"
    using E uid e p unfolding matchPath_ok_def by auto
  moreover have "47 # tl ?rest = ?p" using p by (cases ?p) (auto simp: route_consts)
  ultimately show ?thesis using uid coll
    by (simp add: resolve_normalize [of E q] param_def Let_def js_def)
qed

text \<open>A matcher of literal patterns and of the Space pattern has this behaviour.\<close>

definition literal_router :: route_env where
  "literal_router = \<lparr>
     matchPath = (\<lambda>pattern path.
       if pattern = SPACE_ROUTE_PATTERN @ js ''/*'' then
         if startsWith path (js ''/spaces/'') then
           let r = drop (length (js ''/spaces/'')) path
           in map_option (\<lambda>uid. [(js ''spaceUid'', uid), (js ''*'', tl (dropWhile (\<lambda>c. c \<noteq> 47) r))])
                (decodeURIComponent (takeWhile (\<lambda>c. c \<noteq> 47) r))
         else None
       else if pattern = path then Some [] else None),
     toLowerCase = (\<lambda>s. s)\<rparr>"

lemma encoded_no_slash:
  assumes "js_string uid" "encodeURIComponent uid = Some e"
  shows "47 \<notin> set e"
  using encodeURIComponent_chars [OF assms]
  by (auto simp: list_all_iff uriComponentChar_def uriUnescaped_def isAsciiAlnum_def isDigit_def isAsciiAlpha_def)

lemma literal_router_ok: "matchPath_ok literal_router"
proof -
  have "matchPath literal_router (SPACE_ROUTE_PATTERN @ js ''/*'') (js ''/spaces/'' @ e @ rest) =
      Some [(js ''spaceUid'', uid), (js ''*'', tl rest)]"
    if "js_string uid" "encodeURIComponent uid = Some e" "rest = [] \<or> hd rest = 47" for uid e rest
  proof -
    have "takeWhile (\<lambda>c. c \<noteq> 47) (e @ rest) = e" "dropWhile (\<lambda>c. c \<noteq> 47) (e @ rest) = rest"
      using encoded_no_slash [OF that(1,2)] that(3)
      by (cases rest; auto simp: takeWhile_append dropWhile_append dropWhile_eq_Nil_conv)+
    then show ?thesis using decode_encode [OF that(1,2)]
      by (simp add: literal_router_def startsWith_def)
  qed
  moreover have "p \<noteq> [] \<and> hd p = 47 \<and> matchPath literal_router (SPACE_ROUTE_PATTERN @ js ''/*'') p = None"
    if "isCollectionPathname literal_router p" for p
  proof -
    have "p \<in> set COLLECTION_ROUTE_PATTERNS"
      using that by (auto simp: isCollectionPathname_def literal_router_def list_ex_iff
          COLLECTION_ROUTE_PATTERNS_def route_consts split: if_splits)
    then show ?thesis
      by (auto simp: COLLECTION_ROUTE_PATTERNS_def literal_router_def route_consts startsWith_def)
  qed
  ultimately show ?thesis unfolding matchPath_ok_def by blast
qed

lemma literal_explore: "isCollectionPathname literal_router (collectionPathname (js ''/explore''))"
  by (simp add: isCollectionPathname_def COLLECTION_ROUTE_PATTERNS_def collectionPathname_def orHome_def
      pathnamePart_def stripTrailingSlashes_def literal_router_def route_consts)

lemma encode_abc: "encodeURIComponent (js ''abc'') = Some (js ''abc'')"
  by (rule encodeURIComponent_ascii)
     (simp add: js_def uriUnescaped_def isAsciiAlnum_def isDigit_def isAsciiAlpha_def)

section \<open>Properties\<close>

text \<open>A collection URL built for a Space resolves back to that Space and to the same global
  collection page, for every Space whose identifier can be percent-encoded and every global
  collection path.\<close>

theorem collection_route_roundtrip:
  assumes "matchPath_ok E" "js_string uid" "uid \<noteq> []" "47 \<notin> set uid"
    "isCollectionPathname E (collectionPathname path)" "encodeURIComponent uid \<noteq> None"
  shows "\<exists>q. buildCollectionPath E path (Some (js ''spaces/'' @ uid)) = Some q
    \<and> resolveCollectionRoute E q =
        \<lparr>route_spaceName = Some (js ''spaces/'' @ uid), route_pathname = collectionPathname path,
         route_isCollection = True\<rparr>"
proof -
  have "matchPath E (SPACE_ROUTE_PATTERN @ js ''/*'') (collectionPathname path) = None"
    using assms(1,5) by (simp add: matchPath_ok_def)
  then have r: "resolveCollectionRoute E path = \<lparr>route_spaceName = None,
      route_pathname = collectionPathname path, route_isCollection = True\<rparr>"
    using assms(5) by (simp add: resolve_normalize)
  obtain e where "encodeURIComponent uid = Some e" using assms(6) by auto
  then obtain q where q: "buildCollectionPath E path (Some (js ''spaces/'' @ uid)) = Some q"
    using r extractSpaceUid_space [OF assms(4)] by (simp add: buildCollectionPath_def truthy_def js_def Let_def)
  from build_resolve [OF assms(1-4) r _ _ q] normalize_normal q show ?thesis by simp
qed

theorem collection_route_roundtrip_witness:
  "matchPath_ok literal_router
   \<and> (\<exists>q. buildCollectionPath literal_router (js ''/explore'') (Some (js ''spaces/'' @ js ''abc'')) = Some q
      \<and> resolveCollectionRoute literal_router q =
          \<lparr>route_spaceName = Some (js ''spaces/'' @ js ''abc''),
           route_pathname = collectionPathname (js ''/explore''), route_isCollection = True\<rparr>)"
  using collection_route_roundtrip [OF literal_router_ok _ _ _ literal_explore, of "js ''abc''"]
    literal_router_ok encode_abc by (simp add: js_string_def js_def)

text \<open>A redirect target that the guard accepts is the given text, an absolute path that is not
  protocol-relative and neither the auth page nor below it nor the auth page with a query; and the
  auth URL that the client builds is never accepted as a target, so sign-in cannot redirect to
  itself.\<close>

theorem safe_redirect:
  "(getSafeRedirectPath x = Some p \<longleftrightarrow>
      x = Some p \<and> startsWith p (js ''/'') \<and> \<not> startsWith p (js ''//'') \<and> p \<noteq> AUTH
      \<and> \<not> startsWith p (AUTH @ js ''/'') \<and> \<not> startsWith p (AUTH @ js ''?''))
   \<and> getSafeRedirectPath (Some (buildAuthRoute redirect reason)) = None"
proof -
  have "getSafeRedirectPath x = Some p \<longleftrightarrow>
      x = Some p \<and> startsWith p (js ''/'') \<and> \<not> startsWith p (js ''//'') \<and> p \<noteq> AUTH
      \<and> \<not> startsWith p (AUTH @ js ''/'') \<and> \<not> startsWith p (AUTH @ js ''?'')"
    by (cases x) (auto simp: getSafeRedirectPath_def truthy_def Let_def startsWith_def js_def split: if_splits)
  moreover have "buildAuthRoute redirect reason = AUTH
      \<or> (\<exists>q. buildAuthRoute redirect reason = AUTH @ js ''?'' @ q)"
    by (auto simp: buildAuthRoute_def Let_def)
  ultimately show ?thesis
    by (auto simp: getSafeRedirectPath_def truthy_def Let_def startsWith_def)
qed

text \<open>A Space-scoped URL has the memo scope of its global twin: whether it is a scope route and
  whether it is the calendar do not depend on the Space.\<close>

theorem space_scope_twin:
  assumes "matchPath_ok E" "js_string uid" "uid \<noteq> []" "47 \<notin> set uid"
    "isCollectionPathname E (collectionPathname path)"
    "buildCollectionPath E path (Some (js ''spaces/'' @ uid)) = Some q"
  shows "isMemoScopeRoute E q = isMemoScopeRoute E path \<and> isCalendarRoute E q = isCalendarRoute E path
    \<and> comparablePathname E q = comparablePathname E path"
proof -
  have "matchPath E (SPACE_ROUTE_PATTERN @ js ''/*'') (collectionPathname path) = None"
    using assms(1,5) by (simp add: matchPath_ok_def)
  then have r: "resolveCollectionRoute E path = \<lparr>route_spaceName = None,
      route_pathname = collectionPathname path, route_isCollection = True\<rparr>"
    using assms(5) by (simp add: resolve_normalize)
  then have "route_pathname (resolveCollectionRoute E q) = route_pathname (resolveCollectionRoute E path)"
    using build_resolve [OF assms(1-4) r _ _ assms(6)] normalize_normal by simp
  then show ?thesis
    by (simp add: isMemoScopeRoute_def isCalendarRoute_def comparablePathname_def)
qed

theorem space_scope_twin_witness:
  "isMemoScopeRoute literal_router (js ''/spaces/abc/explore'')
     = isMemoScopeRoute literal_router (js ''/explore'')"
proof -
  have "buildCollectionPath literal_router (js ''/explore'') (Some (js ''spaces/'' @ js ''abc'')) =
      Some (js ''/spaces/abc/explore'')"
    using encode_abc literal_explore
    by (simp add: buildCollectionPath_def resolve_normalize collectionPathname_def orHome_def
        pathnamePart_def stripTrailingSlashes_def truthy_def literal_router_def route_consts
        startsWith_def Let_def extractSpaceUidFromName_def)
  then show ?thesis
    using space_scope_twin [OF literal_router_ok _ _ _ literal_explore, of "js ''abc''"]
    by (simp add: js_string_def js_def)
qed

text \<open>The guard accepts the auth page with a fragment, and a path that starts with a slash and a
  backslash.\<close>

lemma safe_redirect_accepts_fragment:
  "getSafeRedirectPath (Some (js ''/auth#'' @ f)) = Some (js ''/auth#'' @ f)"
  by (simp add: getSafeRedirectPath_def truthy_def startsWith_def route_consts)

lemma safe_redirect_accepts_backslash:
  "getSafeRedirectPath (Some (47 # 92 # h)) = Some (47 # 92 # h)"
  by (simp add: getSafeRedirectPath_def truthy_def startsWith_def route_consts)

text \<open>A malformed escape in a profile URL makes the sidebar throw.\<close>

lemma profile_route_throws: "getProfileUsername (js ''/u/%'') = None"
  by (simp add: getProfileUsername_def cleanPathname_def orHome_def pathnamePart_def
      stripTrailingSlashes_def route_consts readEscape_def)

end
