(* ===== verification/Web_Storage.thy ===== *)
theory Web_Storage
  imports JS_Prelude
begin

text \<open>
  The key-value stores of the browser (\<open>localStorage\<close>, \<open>sessionStorage\<close>) and the
  \<open>Map\<close> objects that modules keep: the interface \<open>key_value\<close> with the laws that the clients
  rely on, and its implementation by association lists in insertion order.
\<close>

locale key_value =
  fixes get :: "'s \<Rightarrow> 'k \<Rightarrow> 'v option"
    and put :: "'k \<Rightarrow> 'v \<Rightarrow> 's \<Rightarrow> 's"
    and del :: "'k \<Rightarrow> 's \<Rightarrow> 's"
  assumes get_put: "get (put k v s) k' = (if k' = k then Some v else get s k')"
    and get_del: "get (del k s) k' = (if k' = k then None else get s k')"
begin

lemma get_put_same [simp]: "get (put k v s) k = Some v"
  by (simp add: get_put)

lemma get_del_same [simp]: "get (del k s) k = None"
  by (simp add: get_del)

lemma put_other [simp]: "k' \<noteq> k \<Longrightarrow> get (put k v s) k' = get s k'"
  by (simp add: get_put)

lemma del_other [simp]: "k' \<noteq> k \<Longrightarrow> get (del k s) k' = get s k'"
  by (simp add: get_del)

lemma put_put_commute: "k \<noteq> k' \<Longrightarrow> get (put k v (put k' v' s)) = get (put k' v' (put k v s))"
  by (auto simp: get_put fun_eq_iff)

lemma del_many: "get (foldr del ks s) k = (if k \<in> set ks then None else get s k)"
  by (induction ks) (auto simp: get_del)

lemma put_many:
  "get (foldr (\<lambda>(k, v). put k v) kvs s) k = (case map_of kvs k of None \<Rightarrow> get s k | Some v \<Rightarrow> Some v)"
  by (induction kvs) (auto simp: get_put)

end

text \<open>The association list implementation.\<close>

definition getItem :: "('k \<times> 'v) list \<Rightarrow> 'k \<Rightarrow> 'v option" where
  "getItem storage key = map_of storage key"

definition setItem :: "'k \<Rightarrow> 'v \<Rightarrow> ('k \<times> 'v) list \<Rightarrow> ('k \<times> 'v) list" where
  "setItem key val storage = AList.update key val storage"

definition removeItem :: "'k \<Rightarrow> ('k \<times> 'v) list \<Rightarrow> ('k \<times> 'v) list" where
  "removeItem key storage = AList.delete key storage"

interpretation web_storage: key_value getItem setItem removeItem
  by unfold_locales (auto simp: getItem_def setItem_def removeItem_def update_conv' delete_conv')

declare web_storage.get_put [simp] web_storage.get_del [simp]

end
