(* ===== verification/Auth_State.thy ===== *)
theory Auth_State
  imports Web_Storage
begin

text \<open>
  The access token of the session, \<^verbatim>\<open>web/src/auth-state.ts\<close>: the two module variables, the copies in
  \<open>localStorage\<close>, and the broadcast channel that lets other tabs adopt a refreshed token.
  Instants are milliseconds. A stored ISO date is the instant it denotes (\<open>IsoDate\<close>), any other
  stored text is \<open>Text\<close>; a \<open>Date\<close> object is \<open>None\<close> when it is an invalid date. Storage that throws on
  every access (privacy modes) is \<open>storage_available = False\<close>.
\<close>

section \<open>State\<close>

type_synonym date = "int option"

datatype stored = Text jsstr | IsoDate int

definition stored_truthy :: "stored \<Rightarrow> bool" where
  "stored_truthy x = (case x of Text s \<Rightarrow> s \<noteq> [] | IsoDate _ \<Rightarrow> True)"

definition new_Date :: "stored \<Rightarrow> date" where
  "new_Date x = (case x of Text _ \<Rightarrow> None | IsoDate t \<Rightarrow> Some t)"

definition stored_text :: "stored \<Rightarrow> jsstr option" where
  "stored_text x = (case x of Text s \<Rightarrow> Some s | IsoDate _ \<Rightarrow> None)"

record TokenBroadcastMessage =
  msg_token :: "jsstr option"
  msg_expiresAt :: "stored option"

record auth_state =
  accessToken :: "jsstr option"
  tokenExpiresAt :: "date option"
  localStorage :: "(jsstr \<times> stored) list"
  storage_available :: bool
  channel_available :: bool
  outbox :: "TokenBroadcastMessage list"

definition TOKEN_KEY :: jsstr where "TOKEN_KEY = js ''memos_access_token''"
definition EXPIRES_KEY :: jsstr where "EXPIRES_KEY = js ''memos_token_expires_at''"
definition REQUEST_TOKEN_EXPIRY_BUFFER_MS :: int where "REQUEST_TOKEN_EXPIRY_BUFFER_MS = 30 * 1000"
definition FOCUS_TOKEN_EXPIRY_BUFFER_MS :: int where "FOCUS_TOKEN_EXPIRY_BUFFER_MS = 2 * 60 * 1000"

lemma keys_distinct [simp]: "TOKEN_KEY \<noteq> EXPIRES_KEY" "EXPIRES_KEY \<noteq> TOKEN_KEY"
  by (simp_all add: TOKEN_KEY_def EXPIRES_KEY_def js_def)

section \<open>Operations\<close>

text \<open>The listener of the channel.\<close>

definition onmessage :: "TokenBroadcastMessage \<Rightarrow> auth_state \<Rightarrow> auth_state" where
  "onmessage msg st =
     (case (msg_token msg, msg_expiresAt msg) of
        (Some token, Some expiresAt) \<Rightarrow>
          (if token \<noteq> [] \<and> stored_truthy expiresAt
           then st\<lparr>accessToken := Some token, tokenExpiresAt := Some (new_Date expiresAt)\<rparr>
           else st)
      | _ \<Rightarrow> st)"

definition getAccessToken :: "int \<Rightarrow> auth_state \<Rightarrow> jsstr option \<times> auth_state" where
  "getAccessToken now st =
     (let st' =
        (if \<not> truthy (accessToken st) \<and> storage_available st then
           (case (getItem (localStorage st) TOKEN_KEY, getItem (localStorage st) EXPIRES_KEY) of
              (Some storedToken, Some storedExpires) \<Rightarrow>
                (if stored_truthy storedToken \<and> stored_truthy storedExpires then
                   (case new_Date storedExpires of
                      Some expiresAt \<Rightarrow>
                        (if expiresAt > now
                         then st\<lparr>accessToken := stored_text storedToken,
                                 tokenExpiresAt := Some (Some expiresAt)\<rparr>
                         else st)
                    | None \<Rightarrow> st)
                 else st)
            | _ \<Rightarrow> st)
         else st)
      in (accessToken st', st'))"

definition setAccessToken :: "jsstr option \<Rightarrow> int option \<Rightarrow> auth_state \<Rightarrow> auth_state" where
  "setAccessToken token expiresAt st =
     (let st1 = st\<lparr>accessToken := token, tokenExpiresAt := map_option Some expiresAt\<rparr>
      in if \<not> storage_available st then st1
         else case expiresAt of
                Some e \<Rightarrow>
                  (if truthy token then
                     st1\<lparr>localStorage :=
                           setItem EXPIRES_KEY (IsoDate e) (setItem TOKEN_KEY (Text (the token)) (localStorage st)),
                         outbox := (if channel_available st
                           then outbox st @ [\<lparr>msg_token = token, msg_expiresAt = Some (IsoDate e)\<rparr>]
                           else outbox st)\<rparr>
                   else st1\<lparr>localStorage := removeItem EXPIRES_KEY (removeItem TOKEN_KEY (localStorage st))\<rparr>)
              | None \<Rightarrow>
                  st1\<lparr>localStorage := removeItem EXPIRES_KEY (removeItem TOKEN_KEY (localStorage st))\<rparr>)"

definition isTokenExpired :: "int \<Rightarrow> int \<Rightarrow> auth_state \<Rightarrow> bool" where
  "isTokenExpired bufferMs now st =
     (case tokenExpiresAt st of
        None \<Rightarrow> True
      | Some None \<Rightarrow> False
      | Some (Some t) \<Rightarrow> now \<ge> t - bufferMs)"

definition hasStoredToken :: "auth_state \<Rightarrow> bool" where
  "hasStoredToken st =
     (if truthy (accessToken st) then True
      else if storage_available st
      then (case getItem (localStorage st) TOKEN_KEY of None \<Rightarrow> False | Some x \<Rightarrow> stored_truthy x)
      else False)"

definition clearAccessToken :: "auth_state \<Rightarrow> auth_state" where
  "clearAccessToken st =
     (let st1 = st\<lparr>accessToken := None, tokenExpiresAt := None\<rparr>
      in if storage_available st
         then st1\<lparr>localStorage := removeItem EXPIRES_KEY (removeItem TOKEN_KEY (localStorage st))\<rparr>
         else st1)"

section \<open>Invariant\<close>

text \<open>A stored token is a text, and a token in memory is non-empty.\<close>

definition auth_inv :: "auth_state \<Rightarrow> bool" where
  "auth_inv st \<longleftrightarrow> accessToken st \<noteq> Some [] \<and>
     (\<forall>x. getItem (localStorage st) TOKEN_KEY = Some x \<longrightarrow> (\<exists>t. x = Text t \<and> t \<noteq> []))"

lemma getAccessToken_inv [inv_intros]: "auth_inv st \<Longrightarrow> auth_inv (snd (getAccessToken now st))"
  by (auto simp: auth_inv_def getAccessToken_def Let_def stored_text_def
      split: option.splits stored.splits)

lemma setAccessToken_inv [inv_intros]:
  "auth_inv st \<Longrightarrow> token \<noteq> Some [] \<Longrightarrow> auth_inv (setAccessToken token e st)"
  by (cases token) (auto simp: auth_inv_def setAccessToken_def Let_def split: option.splits)

lemma clearAccessToken_inv [inv_intros]: "auth_inv st \<Longrightarrow> auth_inv (clearAccessToken st)"
  by (auto simp: auth_inv_def clearAccessToken_def Let_def)

lemma onmessage_inv [inv_intros]: "auth_inv st \<Longrightarrow> auth_inv (onmessage m st)"
  by (auto simp: auth_inv_def onmessage_def split: option.splits)

section \<open>The interface to the transport\<close>

text \<open>What the request interceptor relies on: a token that was set is read back until it is cleared,
  and clearing forgets every copy.\<close>

locale token_store =
  fixes get :: "int \<Rightarrow> 's \<Rightarrow> jsstr option \<times> 's"
    and put :: "jsstr option \<Rightarrow> int option \<Rightarrow> 's \<Rightarrow> 's"
    and clear :: "'s \<Rightarrow> 's"
    and stored :: "'s \<Rightarrow> bool"
  assumes get_put: "t \<noteq> [] \<Longrightarrow> fst (get now (put (Some t) e s)) = Some t"
    and get_clear: "fst (get now (clear s)) = None"
    and get_keeps: "fst (get now s) = Some t \<Longrightarrow> t \<noteq> [] \<Longrightarrow> fst (get now' (snd (get now s))) = Some t"
    and clear_get: "snd (get now (clear s)) = clear s"
    and stored_put: "t \<noteq> [] \<Longrightarrow> stored (put (Some t) e s)"
    and stored_clear: "\<not> stored (clear s)"
begin

lemma clear_forgets: "fst (get now' (snd (get now (clear s)))) = None \<and> \<not> stored (snd (get now (clear s)))"
  by (simp add: clear_get get_clear stored_clear)

lemma put_after_clear: "t \<noteq> [] \<Longrightarrow> fst (get now (put (Some t) e (clear s))) = Some t"
  by (rule get_put)

text \<open>Any number of reads after a clear still finds nothing.\<close>

lemma reads_after_clear: "foldl (\<lambda>s now. snd (get now s)) (clear s) nows = clear s"
  by (induction nows) (simp_all add: clear_get)

lemma reads_after_put:
  "t \<noteq> [] \<Longrightarrow> fst (get now s) = Some t \<Longrightarrow> fst (get now' (snd (get now s))) = Some t"
  by (rule get_keeps)

end

lemma getAccessToken_cached: "accessToken st = Some t \<Longrightarrow> t \<noteq> [] \<Longrightarrow> getAccessToken now st = (Some t, st)"
  by (simp add: getAccessToken_def)

lemma setAccessToken_token [simp]: "accessToken (setAccessToken t e st) = t"
  by (simp add: setAccessToken_def Let_def split: option.splits)

lemma clear_getAccessToken: "getAccessToken now (clearAccessToken st) = (None, clearAccessToken st)"
  by (auto simp: getAccessToken_def clearAccessToken_def Let_def split: option.splits)

lemma getAccessToken_fst: "fst (getAccessToken now st) = accessToken (snd (getAccessToken now st))"
  by (simp add: getAccessToken_def Let_def)

lemma getAccessToken_keeps:
  "fst (getAccessToken now st) = Some t \<Longrightarrow> t \<noteq> [] \<Longrightarrow> fst (getAccessToken now' (snd (getAccessToken now st))) = Some t"
  using getAccessToken_fst getAccessToken_cached by simp


interpretation session: token_store getAccessToken setAccessToken clearAccessToken hasStoredToken
proof (unfold_locales, goal_cases)
  case (1 t now e s)
  then show ?case by (simp add: getAccessToken_cached)
next
  case (3 now s t now')
  then show ?case by (rule getAccessToken_keeps)
next
  case (6 s)
  then show ?case by (auto simp: hasStoredToken_def clearAccessToken_def Let_def split: option.splits)
qed (simp_all add: clear_getAccessToken hasStoredToken_def)

section \<open>Properties\<close>

text \<open>Clearing the session forgets every copy of the token: whatever reads follow, no token is found
  in memory or storage, and the next request is anonymous.\<close>

theorem clear_forgets_token:
  "foldl (\<lambda>s now. snd (getAccessToken now s)) (clearAccessToken st) nows = clearAccessToken st
   \<and> fst (getAccessToken now (clearAccessToken st)) = None
   \<and> \<not> hasStoredToken (clearAccessToken st)"
  using session.reads_after_clear session.get_clear session.stored_clear by simp

text \<open>A token that one tab sets with an expiry is adopted by every other tab once the broadcast
  message arrives: the other tab then reads the new token and considers it expired at the same
  instants, whatever it held before.\<close>

theorem broadcast_adopted:
  assumes "t \<noteq> []" "storage_available a" "channel_available a"
  shows "\<exists>m. outbox (setAccessToken (Some t) (Some e) a) = outbox a @ [m]
    \<and> fst (getAccessToken now (onmessage m b)) = Some t
    \<and> isTokenExpired buf now (onmessage m b) =
        isTokenExpired buf now (setAccessToken (Some t) (Some e) a)"
  using assms
  by (simp add: setAccessToken_def onmessage_def getAccessToken_def isTokenExpired_def stored_truthy_def new_Date_def)

theorem broadcast_adopted_witness:
  "\<exists>m. outbox (setAccessToken (Some (js ''t'')) (Some 5)
        \<lparr>accessToken = None, tokenExpiresAt = None, localStorage = [], storage_available = True,
         channel_available = True, outbox = []\<rparr>) = [m]
    \<and> fst (getAccessToken 9 (onmessage m
        \<lparr>accessToken = Some (js ''old''), tokenExpiresAt = None, localStorage = [],
         storage_available = False, channel_available = True, outbox = []\<rparr>)) = Some (js ''t'')"
  using broadcast_adopted [of "js ''t''" "\<lparr>accessToken = None, tokenExpiresAt = None, localStorage = [],
      storage_available = True, channel_available = True, outbox = []\<rparr>" 5 9
      "\<lparr>accessToken = Some (js ''old''), tokenExpiresAt = None, localStorage = [],
        storage_available = False, channel_available = True, outbox = []\<rparr>"]
  by (auto simp: js_def)

text \<open>A page load, which finds no token in memory, only adopts a stored token that has not expired,
  and a token stored with an expiry survives the reload until that instant.\<close>

theorem reload_adopts_fresh_token:
  assumes "storage_available st" "t \<noteq> []"
  shows "fst (getAccessToken now ((setAccessToken (Some t) (Some e) st)
           \<lparr>accessToken := None, tokenExpiresAt := None\<rparr>)) = (if now < e then Some t else None)"
  using assms
  by (simp add: setAccessToken_def getAccessToken_def stored_truthy_def new_Date_def stored_text_def)

theorem reload_adopts_fresh_token_witness:
  "fst (getAccessToken 4 ((setAccessToken (Some (js ''t'')) (Some 5)
        \<lparr>accessToken = None, tokenExpiresAt = None, localStorage = [], storage_available = True,
         channel_available = True, outbox = []\<rparr>)\<lparr>accessToken := None, tokenExpiresAt := None\<rparr>))
     = Some (js ''t'')"
  using reload_adopts_fresh_token [of "\<lparr>accessToken = None, tokenExpiresAt = None, localStorage = [],
      storage_available = True, channel_available = True, outbox = []\<rparr>" "js ''t''" 4 5]
  by (simp add: js_def)

end
