(* ===== verification/Connect.thy ===== *)
theory Connect
  imports Auth_State Routes
begin

text \<open>
  The RPC transport, \<^verbatim>\<open>web/src/connect.ts\<close>, with the redirect of \<^verbatim>\<open>web/src/utils/auth-redirect.ts\<close>. The server
  is a script: the answers to come, each with the time it takes; what the client does is logged
  (requests sent, refresh calls made, redirects). The refresh manager, which deduplicates concurrent
  refreshes, is a state machine of its own.
\<close>

section \<open>Errors, requests and the world\<close>

datatype Code = Unauthenticated | Internal | OtherCode nat

datatype rpc_error = ConnectError jsstr Code | OtherError

type_synonym header = "(jsstr \<times> jsstr) list"

record refresh_response =
  resp_accessToken :: jsstr
  resp_expiresAt :: "int option"

record 'r world =
  auth :: auth_state
  clock :: int
  rpc_answers :: "(nat \<times> (rpc_error + 'r)) list"
  refresh_answers :: "(nat \<times> (rpc_error + refresh_response)) list"
  sent :: "header list"
  refresh_calls :: nat
  redirects :: "jsstr list"
  window_location :: location

definition RETRY_HEADER :: jsstr where "RETRY_HEADER = js ''X-Retry''"
definition RETRY_HEADER_VALUE :: jsstr where "RETRY_HEADER_VALUE = js ''true''"
definition AUTHORIZATION :: jsstr where "AUTHORIZATION = js ''Authorization''"

lemma headers_distinct [simp]: "RETRY_HEADER \<noteq> AUTHORIZATION" "AUTHORIZATION \<noteq> RETRY_HEADER"
  by (simp_all add: RETRY_HEADER_def AUTHORIZATION_def js_def)

section \<open>Redirect to the auth page\<close>

definition redirectOnAuthFailure ::
  "bool \<Rightarrow> jsstr option \<Rightarrow> jsstr option \<Rightarrow> 'r world \<Rightarrow> 'r world" where
  "redirectOnAuthFailure forceRedirect redirect reason w =
     (let currentPath = loc_pathname (window_location w);
          currentRedirectPath = currentPath @ loc_search (window_location w) @ loc_hash (window_location w)
      in if startsWith currentPath AUTH then w
         else if \<not> forceRedirect \<and> isPublicRoute currentPath then w
         else w\<lparr>auth := clearAccessToken (auth w),
                redirects := redirects w @
                  [buildAuthRoute (Some (case redirect of None \<Rightarrow> currentRedirectPath | Some r \<Rightarrow> r)) reason]\<rparr>)"

section \<open>Refreshing the token\<close>

text \<open>One call of the refresh endpoint; a server that does not answer is a network error.\<close>

definition call_refresh :: "'r world \<Rightarrow> (rpc_error + refresh_response) \<times> 'r world" where
  "call_refresh w =
     (case refresh_answers w of
        [] \<Rightarrow> (Inl OtherError, w\<lparr>refresh_calls := Suc (refresh_calls w)\<rparr>)
      | (dt, a) # as \<Rightarrow> (a, w\<lparr>refresh_calls := Suc (refresh_calls w), refresh_answers := as,
                             clock := clock w + int dt\<rparr>))"

definition doRefreshAccessToken :: "'r world \<Rightarrow> rpc_error option \<times> 'r world" where
  "doRefreshAccessToken w =
     (case call_refresh w of
        (Inl e, w1) \<Rightarrow> (Some e, w1)
      | (Inr response, w1) \<Rightarrow>
          if resp_accessToken response = []
          then (Some (ConnectError (js ''Refresh token response missing access token'') Internal), w1)
          else (None, w1\<lparr>auth := setAccessToken (Some (resp_accessToken response))
                                  (resp_expiresAt response) (auth w1)\<rparr>))"

definition refreshAccessToken :: "'r world \<Rightarrow> rpc_error option \<times> 'r world" where
  "refreshAccessToken w = doRefreshAccessToken w"

definition read_token :: "'r world \<Rightarrow> jsstr option \<times> 'r world" where
  "read_token w = (let (t, a) = getAccessToken (clock w) (auth w) in (t, w\<lparr>auth := a\<rparr>))"

definition refreshAndGetAccessToken :: "'r world \<Rightarrow> (rpc_error + jsstr) \<times> 'r world" where
  "refreshAndGetAccessToken w =
     (case refreshAccessToken w of
        (Some e, w1) \<Rightarrow> (Inl e, w1)
      | (None, w1) \<Rightarrow>
          (case read_token w1 of
             (token, w2) \<Rightarrow>
               if \<not> truthy token
               then (Inl (ConnectError (js ''Token refresh succeeded but no token available'') Internal), w2)
               else (Inr (the token), w2)))"

definition getRequestToken :: "'r world \<Rightarrow> jsstr option \<times> 'r world" where
  "getRequestToken w =
     (case read_token w of
        (token, w1) \<Rightarrow>
          if \<not> truthy token then
            (if \<not> hasStoredToken (auth w1) then (None, w1)
             else case refreshAndGetAccessToken w1 of
                    (Inl _, w2) \<Rightarrow> (None, w2)
                  | (Inr t, w2) \<Rightarrow> (Some t, w2))
          else if isTokenExpired REQUEST_TOKEN_EXPIRY_BUFFER_MS (clock w1) (auth w1) then
            (case refreshAndGetAccessToken w1 of
               (Inl _, w2) \<Rightarrow> (token, w2)
             | (Inr t, w2) \<Rightarrow> (Some t, w2))
          else (token, w1))"

section \<open>The interceptor\<close>

definition setAuthorizationHeader :: "header \<Rightarrow> jsstr option \<Rightarrow> header" where
  "setAuthorizationHeader h token =
     (if \<not> truthy token then h else AList.update AUTHORIZATION (js ''Bearer '' @ the token) h)"

definition shouldHandleUnauthenticatedRetry :: "rpc_error \<Rightarrow> bool \<Rightarrow> bool" where
  "shouldHandleUnauthenticatedRetry error isRetryAttempt =
     (case error of
        OtherError \<Rightarrow> False
      | ConnectError _ code \<Rightarrow>
          if code \<noteq> Unauthenticated then False else if isRetryAttempt then False else True)"

text \<open>\<open>next(req)\<close>: the request goes out and the next answer of the script comes back.\<close>

definition next_call :: "header \<Rightarrow> 'r world \<Rightarrow> (rpc_error + 'r) \<times> 'r world" where
  "next_call h w =
     (case rpc_answers w of
        [] \<Rightarrow> (Inl OtherError, w\<lparr>sent := sent w @ [h]\<rparr>)
      | (dt, a) # as \<Rightarrow> (a, w\<lparr>sent := sent w @ [h], rpc_answers := as, clock := clock w + int dt\<rparr>))"

definition authInterceptor :: "header \<Rightarrow> 'r world \<Rightarrow> (rpc_error + 'r) \<times> 'r world" where
  "authInterceptor h w =
     (let isRetryAttempt = (map_of h RETRY_HEADER = Some RETRY_HEADER_VALUE);
          (token, w1) = getRequestToken w;
          h1 = setAuthorizationHeader h token
      in case next_call h1 w1 of
           (Inr r, w2) \<Rightarrow> (Inr r, w2)
         | (Inl error, w2) \<Rightarrow>
             if \<not> shouldHandleUnauthenticatedRetry error isRetryAttempt then (Inl error, w2)
             else case refreshAndGetAccessToken w2 of
                    (Inl e, w3) \<Rightarrow> (Inl e, redirectOnAuthFailure False None None w3)
                  | (Inr newToken, w3) \<Rightarrow>
                      (let h2 = AList.update RETRY_HEADER RETRY_HEADER_VALUE
                                  (setAuthorizationHeader h1 (Some newToken))
                       in case next_call h2 w3 of
                            (Inr r, w4) \<Rightarrow> (Inr r, w4)
                          | (Inl e, w4) \<Rightarrow> (Inl e, redirectOnAuthFailure False None None w4)))"

section \<open>What each step leaves alone\<close>

lemma read_token_frame [simp]:
  "sent (snd (read_token w)) = sent w" "refresh_calls (snd (read_token w)) = refresh_calls w"
  "redirects (snd (read_token w)) = redirects w" "rpc_answers (snd (read_token w)) = rpc_answers w"
  "refresh_answers (snd (read_token w)) = refresh_answers w"
  "window_location (snd (read_token w)) = window_location w" "clock (snd (read_token w)) = clock w"
  by (simp_all add: read_token_def split: prod.splits)

lemma refresh_frame [simp]:
  "sent (snd (refreshAndGetAccessToken w)) = sent w"
  "redirects (snd (refreshAndGetAccessToken w)) = redirects w"
  "rpc_answers (snd (refreshAndGetAccessToken w)) = rpc_answers w"
  "window_location (snd (refreshAndGetAccessToken w)) = window_location w"
  "refresh_calls (snd (refreshAndGetAccessToken w)) = Suc (refresh_calls w)"
  by (auto simp: refreshAndGetAccessToken_def refreshAccessToken_def doRefreshAccessToken_def
      call_refresh_def read_token_def split: prod.splits sum.splits option.splits list.splits)

lemma getRequestToken_frame [simp]:
  "sent (snd (getRequestToken w)) = sent w" "redirects (snd (getRequestToken w)) = redirects w"
  "rpc_answers (snd (getRequestToken w)) = rpc_answers w"
  "window_location (snd (getRequestToken w)) = window_location w"
  using refresh_frame [of "snd (read_token w)"] read_token_frame [of w]
  by (auto simp: getRequestToken_def split: prod.splits sum.splits simp del: refresh_frame read_token_frame)

lemma getRequestToken_refreshes: "refresh_calls (snd (getRequestToken w)) \<le> Suc (refresh_calls w)"
  using refresh_frame(5) [of "snd (read_token w)"] read_token_frame(2) [of w]
  by (auto simp: getRequestToken_def split: prod.splits sum.splits simp del: refresh_frame read_token_frame)

lemma redirect_frame [simp]:
  "sent (redirectOnAuthFailure f r s w) = sent w"
  "refresh_calls (redirectOnAuthFailure f r s w) = refresh_calls w"
  "rpc_answers (redirectOnAuthFailure f r s w) = rpc_answers w"
  by (simp_all add: redirectOnAuthFailure_def Let_def)

lemma next_call_frame [simp]:
  "sent (snd (next_call h w)) = sent w @ [h]"
  "refresh_calls (snd (next_call h w)) = refresh_calls w"
  "redirects (snd (next_call h w)) = redirects w"
  "window_location (snd (next_call h w)) = window_location w"
  "auth (snd (next_call h w)) = auth w"
  by (simp_all add: next_call_def split: list.splits prod.splits)

text \<open>The answer that the server gives to the next request.\<close>

definition next_answer :: "'r world \<Rightarrow> rpc_error + 'r" where
  "next_answer w = (case rpc_answers w of [] \<Rightarrow> Inl OtherError | (_, a) # _ \<Rightarrow> a)"

lemma next_call_fst [simp]: "fst (next_call h w) = next_answer w"
  by (simp add: next_call_def next_answer_def split: list.splits prod.splits)

text \<open>A refresh succeeds exactly when the endpoint answers with a token, which is then the token of the
  session.\<close>

definition refresh_grants :: "'r world \<Rightarrow> jsstr option" where
  "refresh_grants w =
     (case refresh_answers w of
        (_, Inr r) # _ \<Rightarrow> (if resp_accessToken r = [] then None else Some (resp_accessToken r))
      | _ \<Rightarrow> None)"

lemma refresh_result:
  "(case refresh_grants w of
      Some t \<Rightarrow> fst (refreshAndGetAccessToken w) = Inr t \<and> t \<noteq> []
        \<and> accessToken (auth (snd (refreshAndGetAccessToken w))) = Some t
    | None \<Rightarrow> \<exists>e. fst (refreshAndGetAccessToken w) = Inl e)"
proof -
  have get: "getAccessToken now (setAccessToken (Some t) e a) = (Some t, setAccessToken (Some t) e a)"
    if "t \<noteq> []" for now t e a using that by (simp add: getAccessToken_cached)
  show ?thesis
    by (auto simp: refresh_grants_def refreshAndGetAccessToken_def refreshAccessToken_def
        doRefreshAccessToken_def call_refresh_def read_token_def get
        split: option.splits list.splits sum.splits prod.splits if_splits)
qed

lemma refresh_cases:
  obtains (granted) t w' where "refreshAndGetAccessToken w = (Inr t, w')" "refresh_grants w = Some t" "t \<noteq> []"
  | (refused) e w' where "refreshAndGetAccessToken w = (Inl e, w')" "refresh_grants w = None"
  using refresh_result [of w] by (cases "refreshAndGetAccessToken w"; cases "refresh_grants w") auto

section \<open>The interceptor by cases\<close>

text \<open>One request (\<open>once\<close>), or a refresh that fails (\<open>refused\<close>), or a refresh and one retry.\<close>

lemma authInterceptor_cases:
  assumes "authInterceptor h w = (res, w')"
  obtains
    (once) w1 token w2 where "getRequestToken w = (token, w1)"
      "next_call (setAuthorizationHeader h token) w1 = (res, w2)" "w' = w2"
      "\<And>e. res = Inl e \<Longrightarrow> \<not> shouldHandleUnauthenticatedRetry e (map_of h RETRY_HEADER = Some RETRY_HEADER_VALUE)"
  | (refused) w1 token w2 error e w3 where "getRequestToken w = (token, w1)"
      "next_call (setAuthorizationHeader h token) w1 = (Inl error, w2)"
      "shouldHandleUnauthenticatedRetry error (map_of h RETRY_HEADER = Some RETRY_HEADER_VALUE)"
      "refreshAndGetAccessToken w2 = (Inl e, w3)" "res = Inl e" "w' = redirectOnAuthFailure False None None w3"
  | (retried) w1 token w2 error t w3 w4 where "getRequestToken w = (token, w1)"
      "next_call (setAuthorizationHeader h token) w1 = (Inl error, w2)"
      "shouldHandleUnauthenticatedRetry error (map_of h RETRY_HEADER = Some RETRY_HEADER_VALUE)"
      "refreshAndGetAccessToken w2 = (Inr t, w3)"
      "next_call (AList.update RETRY_HEADER RETRY_HEADER_VALUE
         (setAuthorizationHeader (setAuthorizationHeader h token) (Some t))) w3 = (res, w4)"
      "w' = (case res of Inr _ \<Rightarrow> w4 | Inl _ \<Rightarrow> redirectOnAuthFailure False None None w4)"
proof -
  obtain token w1 where 1: "getRequestToken w = (token, w1)" by fastforce
  obtain a w2 where 2: "next_call (setAuthorizationHeader h token) w1 = (a, w2)" by fastforce
  let ?retry = "map_of h RETRY_HEADER = Some RETRY_HEADER_VALUE"
  show thesis
  proof (cases "\<exists>e. a = Inl e \<and> shouldHandleUnauthenticatedRetry e ?retry")
    case False
    then have "authInterceptor h w = (a, w2)"
      using 1 2 by (cases a) (auto simp: authInterceptor_def Let_def)
    with assms False 1 2 show thesis by (intro once) auto
  next
    case True
    then obtain e where e: "a = Inl e" "shouldHandleUnauthenticatedRetry e ?retry" by blast
    obtain b w3 where 3: "refreshAndGetAccessToken w2 = (b, w3)" by fastforce
    show thesis
    proof (cases b)
      case (Inl x)
      with assms 1 2 e 3 show thesis by (intro refused) (auto simp: authInterceptor_def Let_def)
    next
      case (Inr t)
      let ?h = "AList.update RETRY_HEADER RETRY_HEADER_VALUE
         (setAuthorizationHeader (setAuthorizationHeader h token) (Some t))"
      obtain c w4 where 4: "next_call ?h w3 = (c, w4)" by fastforce
      have "authInterceptor h w = (c, case c of Inr _ \<Rightarrow> w4 | Inl _ \<Rightarrow> redirectOnAuthFailure False None None w4)"
        using 1 2 e 3 4 Inr by (cases c) (auto simp: authInterceptor_def Let_def)
      with assms 1 2 e 3 4 Inr show thesis by (intro retried) auto
    qed
  qed
qed

section \<open>Properties\<close>


definition anonymous :: auth_state where
  "anonymous = \<lparr>accessToken = None, tokenExpiresAt = None, localStorage = [], storage_available = True,
     channel_available = True, outbox = []\<rparr>"

definition demo_world :: "auth_state \<Rightarrow> (nat \<times> (rpc_error + nat)) list
    \<Rightarrow> (nat \<times> (rpc_error + refresh_response)) list \<Rightarrow> nat world" where
  "demo_world a rpc refresh = \<lparr>auth = a, clock = 0, rpc_answers = rpc, refresh_answers = refresh,
     sent = [], refresh_calls = 0, redirects = [],
     window_location = \<lparr>loc_pathname = js ''/inbox'', loc_search = [], loc_hash = []\<rparr>\<rparr>"


text \<open>A request is not sent with a stale token when a refresh can replace it: when the session has a
  token, in memory or stored, that is expired, about to expire within the buffer, or can no longer be
  read, and the refresh endpoint grants a new one, the new token goes into the request.\<close>

theorem getRequestToken_fresh:
  assumes "hasStoredToken (auth (snd (read_token w)))"
    and "fst (read_token w) = None
      \<or> isTokenExpired REQUEST_TOKEN_EXPIRY_BUFFER_MS (clock w) (auth (snd (read_token w)))"
    and "refresh_grants w = Some t"
  shows "fst (getRequestToken w) = Some t
    \<and> map_of (setAuthorizationHeader h (fst (getRequestToken w))) AUTHORIZATION = Some (js ''Bearer '' @ t)"
proof -
  obtain tok w1 where tok: "read_token w = (tok, w1)" by fastforce
  have "refresh_answers w1 = refresh_answers w" "clock w1 = clock w"
    using read_token_frame [of w] tok by simp_all
  then have "refresh_grants w1 = Some t" using assms(3) by (simp add: refresh_grants_def)
  then obtain w' where w': "refreshAndGetAccessToken w1 = (Inr t, w')" "t \<noteq> []"
    by (cases rule: refresh_cases [of w1]) auto
  have "fst (getRequestToken w) = Some t"
    using assms(1,2) w' tok \<open>clock w1 = clock w\<close> by (auto simp: getRequestToken_def)
  then show ?thesis using w'(2) by (simp add: setAuthorizationHeader_def update_conv')
qed

theorem getRequestToken_fresh_witness:
  "fst (getRequestToken (demo_world (setAccessToken (Some (js ''old'')) (Some 10) anonymous) []
      [(1, Inr \<lparr>resp_accessToken = js ''new'', resp_expiresAt = Some 100000\<rparr>)])) = Some (js ''new'')"
  using getRequestToken_fresh [of "demo_world (setAccessToken (Some (js ''old'')) (Some 10) anonymous) []
      [(1, Inr \<lparr>resp_accessToken = js ''new'', resp_expiresAt = Some 100000\<rparr>)]" "js ''new''" "[]"]
  by (simp add: demo_world_def anonymous_def read_token_def refresh_grants_def hasStoredToken_def
      getAccessToken_cached setAccessToken_def isTokenExpired_def REQUEST_TOKEN_EXPIRY_BUFFER_MS_def js_def)

text \<open>Any error of the retried request, also one that has nothing to do with the session, clears the
  token that was just granted and redirects to the auth page.\<close>

lemma retry_error_signs_out:
  assumes "authInterceptor h w = (Inl e, w')" "next_answer w = Inl (ConnectError m Unauthenticated)"
    and "map_of h RETRY_HEADER \<noteq> Some RETRY_HEADER_VALUE"
    and "\<not> startsWith (loc_pathname (window_location w)) AUTH" "\<not> isPublicRoute (loc_pathname (window_location w))"
  shows "accessToken (auth w') = None \<and> length (redirects w') = Suc (length (redirects w))"
  using assms(1)
proof (cases rule: authInterceptor_cases)
  case (once w1 token w2)
  have "next_answer w1 = next_answer w" using getRequestToken_frame(3) [of w] once(1) by (simp add: next_answer_def)
  then have "e = ConnectError m Unauthenticated"
    using once(2) next_call_fst [of "setAuthorizationHeader h token" w1] assms(2) by simp
  then show ?thesis using once(4) [of e] assms(3) by (simp add: shouldHandleUnauthenticatedRetry_def)
next
  case (refused w1 token w2 error e' w3)
  have "window_location w3 = window_location w" "redirects w3 = redirects w"
    using next_call_frame [of "setAuthorizationHeader h token" w1] getRequestToken_frame [of w]
      refresh_frame [of w2] refused by simp_all
  then show ?thesis using refused(6) assms(4,5)
    by (simp add: redirectOnAuthFailure_def clearAccessToken_def Let_def)
next
  case (retried w1 token w2 error t w3 w4)
  have "window_location w4 = window_location w" "redirects w4 = redirects w"
    using next_call_frame [of "setAuthorizationHeader h token" w1] getRequestToken_frame [of w]
      refresh_frame [of w2] retried next_call_frame [of "AList.update RETRY_HEADER RETRY_HEADER_VALUE
         (setAuthorizationHeader (setAuthorizationHeader h token) (Some t))" w3] by simp_all
  then show ?thesis using retried(6) assms(4,5)
    by (simp add: redirectOnAuthFailure_def clearAccessToken_def Let_def)
qed

section \<open>Concurrent refreshes\<close>

text \<open>The manager of \<open>createTokenRefreshManager\<close>: \<open>started\<close> counts the calls of \<open>refreshFn\<close>,
  \<open>inflight\<close> lists the unsettled promises it returned, and \<open>waiting\<close> the promise each caller got.\<close>

record refresh_manager =
  isRefreshing :: bool
  refreshPromise :: "nat option"
  started :: nat
  inflight :: "nat list"
  waiting :: "(nat \<times> nat) list"

definition createTokenRefreshManager :: refresh_manager where
  "createTokenRefreshManager =
     \<lparr>isRefreshing = False, refreshPromise = None, started = 0, inflight = [], waiting = []\<rparr>"

definition manager_refresh :: "nat \<Rightarrow> refresh_manager \<Rightarrow> refresh_manager" where
  "manager_refresh caller m =
     (if isRefreshing m \<and> refreshPromise m \<noteq> None
      then m\<lparr>waiting := waiting m @ [(caller, the (refreshPromise m))]\<rparr>
      else let p = started m
           in m\<lparr>isRefreshing := True, started := Suc p, inflight := inflight m @ [p],
                refreshPromise := Some p, waiting := waiting m @ [(caller, p)]\<rparr>)"

definition manager_settle :: "nat \<Rightarrow> refresh_manager \<Rightarrow> refresh_manager" where
  "manager_settle p m =
     m\<lparr>isRefreshing := False, refreshPromise := None, inflight := removeAll p (inflight m)\<rparr>"

inductive manager_step :: "refresh_manager \<Rightarrow> refresh_manager \<Rightarrow> bool" where
  call: "manager_step m (manager_refresh caller m)"
| settle: "p \<in> set (inflight m) \<Longrightarrow> manager_step m (manager_settle p m)"

inductive_cases manager_stepE: "manager_step m m'"

inductive manager_reachable :: "refresh_manager \<Rightarrow> bool" where
  start: "manager_reachable createTokenRefreshManager"
| step: "manager_reachable m \<Longrightarrow> manager_step m m' \<Longrightarrow> manager_reachable m'"

definition manager_inv :: "refresh_manager \<Rightarrow> bool" where
  "manager_inv m \<longleftrightarrow> (isRefreshing m \<longleftrightarrow> refreshPromise m \<noteq> None)
     \<and> inflight m = (case refreshPromise m of None \<Rightarrow> [] | Some p \<Rightarrow> [p])
     \<and> (\<forall>(c, p) \<in> set (waiting m). p < started m)
     \<and> (\<forall>p \<in> set (inflight m). p < started m)"

lemma manager_refresh_inv [inv_intros]: "manager_inv m \<Longrightarrow> manager_inv (manager_refresh c m)"
  by (auto simp: manager_inv_def manager_refresh_def Let_def split: option.splits)

lemma manager_settle_inv [inv_intros]:
  "manager_inv m \<Longrightarrow> p \<in> set (inflight m) \<Longrightarrow> manager_inv (manager_settle p m)"
  by (auto simp: manager_inv_def manager_settle_def split: option.splits)

lemma manager_reachable_inv: "manager_reachable m \<Longrightarrow> manager_inv m"
proof (induction rule: manager_reachable.induct)
  case start
  then show ?case by (simp add: manager_inv_def createTokenRefreshManager_def)
next
  case (step m m')
  then show ?case by (auto elim!: manager_stepE intro: inv_intros)
qed

text \<open>C2. At every moment at most one refresh request is in flight; a caller that arrives meanwhile gets
  the promise of that request and starts no other, and a caller that arrives after it has settled
  starts a new one.\<close>

theorem refresh_single_flight:
  assumes "manager_reachable m"
  shows "length (inflight m) \<le> 1
    \<and> (\<forall>p \<in> set (inflight m). started (manager_refresh c m) = started m
         \<and> (c, p) \<in> set (waiting (manager_refresh c m)))
    \<and> (inflight m = [] \<longrightarrow> started (manager_refresh c m) = Suc (started m)
         \<and> inflight (manager_refresh c m) = [started m])"
  using manager_reachable_inv [OF assms]
  by (auto simp: manager_inv_def manager_refresh_def Let_def split: option.splits)

theorem refresh_single_flight_witness:
  "manager_reachable (manager_refresh 1 createTokenRefreshManager)
   \<and> started (manager_refresh 2 (manager_refresh 1 createTokenRefreshManager)) = 1"
proof -
  have r: "manager_reachable (manager_refresh 1 createTokenRefreshManager)"
    by (rule manager_reachable.step [OF manager_reachable.start manager_step.call])
  show ?thesis using refresh_single_flight [OF r, of 2] r
    by (simp add: manager_refresh_def createTokenRefreshManager_def)
qed

end
