(* ===== verification/OAuth.thy ===== *)
theory OAuth
  imports Web_Storage
begin

text \<open>
  The OAuth state and PKCE parameters of \<^verbatim>\<open>web/src/utils/oauth.ts\<close>. The random bytes, SHA-256 and the
  availability of \<open>crypto.subtle\<close> and of \<open>sessionStorage\<close> are arguments; the JSON text of a state
  object is the object itself, and a text that does not parse is \<open>Corrupt\<close>.
\<close>

section \<open>State\<close>

datatype OAuthFlowMode = signin | link

record OAuthState =
  oauth_state :: jsstr
  identityProviderName :: jsstr
  flowMode :: "OAuthFlowMode option"
  timestamp :: int
  returnUrl :: "jsstr option"
  linkingUserName :: "jsstr option"
  codeVerifier :: "jsstr option"

datatype stored_item = StateData OAuthState | Corrupt

type_synonym session_storage = "(jsstr \<times> stored_item) list"

definition STATE_STORAGE_KEY :: jsstr where "STATE_STORAGE_KEY = js ''oauth_state''"
definition STATE_EXPIRY_MS :: int where "STATE_EXPIRY_MS = 10 * 60 * 1000"

section \<open>Random values\<close>

text \<open>\<open>byte.toString(16).padStart(2, "0")\<close>.\<close>

definition hexLower :: "nat \<Rightarrow> code_unit" where
  "hexLower n = (if n < 10 then 48 + n else 87 + n)"

definition byteHex :: "nat \<Rightarrow> jsstr" where
  "byteHex b = padStart2 (if b < 16 then [hexLower b] else [hexLower (b div 16), hexLower (b mod 16)])"

definition generateSecureState :: "nat list \<Rightarrow> jsstr" where
  "generateSecureState bytes = concat (map byteHex bytes)"

definition b64char :: "nat \<Rightarrow> code_unit" where
  "b64char n = (if n < 26 then 65 + n else if n < 52 then 71 + n else if n < 62 then n - 4
     else if n = 62 then 43 else 47)"

fun btoa :: "nat list \<Rightarrow> jsstr" where
  "btoa (a # b # c # r) =
     b64char (a div 4) # b64char ((a mod 4) * 16 + b div 16) # b64char ((b mod 16) * 4 + c div 64)
     # b64char (c mod 64) # btoa r"
| "btoa [a, b] = [b64char (a div 4), b64char ((a mod 4) * 16 + b div 16), b64char ((b mod 16) * 4), 61]"
| "btoa [a] = [b64char (a div 4), b64char ((a mod 4) * 16), 61, 61]"
| "btoa [] = []"

text \<open>The three replacements: plus to minus, slash to underscore, and the trailing padding removed.\<close>

definition base64UrlEncode :: "nat list \<Rightarrow> jsstr" where
  "base64UrlEncode buffer =
     rev (dropWhile (\<lambda>c. c = 61) (rev
       (map (\<lambda>c. if c = 47 then 95 else c) (map (\<lambda>c. if c = 43 then 45 else c) (btoa buffer)))))"

definition generateCodeVerifier :: "nat list \<Rightarrow> jsstr" where
  "generateCodeVerifier bytes = base64UrlEncode bytes"

text \<open>The verifier is ASCII, so its UTF-8 encoding is its units.\<close>

definition generateCodeChallenge :: "(nat list \<Rightarrow> nat list) \<Rightarrow> jsstr \<Rightarrow> jsstr" where
  "generateCodeChallenge sha256 code_verifier = base64UrlEncode (sha256 code_verifier)"

section \<open>Storing and validating\<close>

text \<open>What the browser provides: the two draws of random bytes, the digest (\<open>None\<close> when
  \<open>crypto.subtle\<close> is missing; the call itself can fail) and whether \<open>setItem\<close> succeeds.\<close>

record browser_crypto =
  random1 :: "nat list"
  random2 :: "nat list"
  subtle_digest :: "(nat list \<Rightarrow> nat list option) option"
  storage_writable :: bool

definition pkceParameters :: "browser_crypto \<Rightarrow> jsstr option \<times> jsstr option" where
  "pkceParameters C =
     (case subtle_digest C of
        None \<Rightarrow> (None, None)
      | Some digest \<Rightarrow>
          let v = generateCodeVerifier (random2 C)
          in case digest v of
               None \<Rightarrow> (None, None)
             | Some h \<Rightarrow> (Some v, Some (generateCodeChallenge (\<lambda>_. h) v)))"

definition storeOAuthState ::
  "browser_crypto \<Rightarrow> int \<Rightarrow> jsstr \<Rightarrow> OAuthFlowMode \<Rightarrow> jsstr option \<Rightarrow> jsstr option \<Rightarrow> session_storage
    \<Rightarrow> (jsstr \<times> jsstr option) option \<times> session_storage" where
  "storeOAuthState C now provider mode return_url linking_user storage =
     (let state = generateSecureState (random1 C);
          (verifier, challenge) = pkceParameters C;
          stateData = \<lparr>oauth_state = state, identityProviderName = provider, flowMode = Some mode,
                       timestamp = now, returnUrl = return_url, linkingUserName = linking_user,
                       codeVerifier = verifier\<rparr>
      in if storage_writable C
         then (Some (state, challenge), setItem STATE_STORAGE_KEY (StateData stateData) storage)
         else (None, storage))"

record validated =
  v_identityProviderName :: jsstr
  v_flowMode :: OAuthFlowMode
  v_returnUrl :: "jsstr option"
  v_linkingUserName :: "jsstr option"
  v_codeVerifier :: "jsstr option"

definition validateOAuthState ::
  "int \<Rightarrow> jsstr \<Rightarrow> session_storage \<Rightarrow> validated option \<times> session_storage" where
  "validateOAuthState now stateParam storage =
     (case getItem storage STATE_STORAGE_KEY of
        None \<Rightarrow> (None, storage)
      | Some Corrupt \<Rightarrow> (None, removeItem STATE_STORAGE_KEY storage)
      | Some (StateData d) \<Rightarrow>
          if now - timestamp d > STATE_EXPIRY_MS then (None, removeItem STATE_STORAGE_KEY storage)
          else if oauth_state d \<noteq> stateParam then (None, removeItem STATE_STORAGE_KEY storage)
          else (Some \<lparr>v_identityProviderName = identityProviderName d,
                      v_flowMode = (case flowMode d of None \<Rightarrow> signin | Some m \<Rightarrow> m),
                      v_returnUrl = returnUrl d, v_linkingUserName = linkingUserName d,
                      v_codeVerifier = codeVerifier d\<rparr>,
                removeItem STATE_STORAGE_KEY storage))"

definition cleanupExpiredOAuthState :: "int \<Rightarrow> session_storage \<Rightarrow> session_storage" where
  "cleanupExpiredOAuthState now storage =
     (case getItem storage STATE_STORAGE_KEY of
        None \<Rightarrow> storage
      | Some Corrupt \<Rightarrow> removeItem STATE_STORAGE_KEY storage
      | Some (StateData d) \<Rightarrow>
          if now - timestamp d > STATE_EXPIRY_MS then removeItem STATE_STORAGE_KEY storage else storage)"

section \<open>The encodings are injective and URL-safe\<close>

definition unhexLower :: "code_unit \<Rightarrow> nat" where
  "unhexLower c = (if c < 58 then c - 48 else c - 87)"

lemma unhexLower [simp]: "n < 16 \<Longrightarrow> unhexLower (hexLower n) = n"
  by (simp add: unhexLower_def hexLower_def)

lemma byteHex_cases: "b < 256 \<Longrightarrow> byteHex b = [hexLower (b div 16), hexLower (b mod 16)]"
  by (auto simp: byteHex_def padStart2_def hexLower_def)

fun unhexBytes :: "jsstr \<Rightarrow> nat list" where
  "unhexBytes (a # b # r) = (16 * unhexLower a + unhexLower b) # unhexBytes r"
| "unhexBytes _ = []"

lemma secureState_decode: "list_all (\<lambda>b. b < 256) bs \<Longrightarrow> unhexBytes (generateSecureState bs) = bs"
proof (induction bs)
  case (Cons b bs)
  then have "b div 16 < 16" by (auto simp: less_mult_imp_div_less)
  with Cons show ?case by (simp add: generateSecureState_def byteHex_cases)
qed (simp add: generateSecureState_def)

lemma secureState_length: "list_all (\<lambda>b. b < 256) bs \<Longrightarrow> length (generateSecureState bs) = 2 * length bs"
  by (induction bs) (simp_all add: generateSecureState_def byteHex_cases)

definition b64url_char :: "nat \<Rightarrow> code_unit" where
  "b64url_char n = (let c = b64char n in if c = 47 then 95 else if c = 43 then 45 else c)"

text \<open>Base64 without padding over the URL-safe alphabet.\<close>

fun b64url :: "nat list \<Rightarrow> jsstr" where
  "b64url (a # b # c # r) =
     b64url_char (a div 4) # b64url_char ((a mod 4) * 16 + b div 16)
     # b64url_char ((b mod 16) * 4 + c div 64) # b64url_char (c mod 64) # b64url r"
| "b64url [a, b] = [b64url_char (a div 4), b64url_char ((a mod 4) * 16 + b div 16), b64url_char ((b mod 16) * 4)]"
| "b64url [a] = [b64url_char (a div 4), b64url_char ((a mod 4) * 16)]"
| "b64url [] = []"

definition b64val :: "code_unit \<Rightarrow> nat" where
  "b64val c = (if c = 45 then 62 else if c = 95 then 63 else if c < 58 then c + 4
     else if c < 91 then c - 65 else c - 71)"

lemma b64val_char [simp]: "n < 64 \<Longrightarrow> b64val (b64url_char n) = n"
  by (auto simp: b64val_def b64url_char_def b64char_def Let_def)

lemma b64url_char_safe:
  "n < 64 \<Longrightarrow> isAsciiAlnum (b64url_char n) \<or> b64url_char n = 45 \<or> b64url_char n = 95"
  by (auto simp: b64url_char_def b64char_def Let_def isAsciiAlnum_def isDigit_def isAsciiAlpha_def)

lemma b64url_char_not_pad [simp]: "b64url_char n \<noteq> 61" "61 \<noteq> b64url_char n"
  by (auto simp: b64url_char_def b64char_def Let_def)

lemma sextets [simp]:
  fixes a b c :: nat
  shows "a < 256 \<Longrightarrow> a div 4 < 64" "b < 256 \<Longrightarrow> (a mod 4) * 16 + b div 16 < 64"
    "c < 256 \<Longrightarrow> (b mod 16) * 4 + c div 64 < 64" "(a mod 4) * 16 < 64" "(b mod 16) * 4 < 64"
    "b < 256 \<Longrightarrow> ((a mod 4) * 16 + b div 16) div 16 = a mod 4"
    "b < 256 \<Longrightarrow> ((a mod 4) * 16 + b div 16) mod 16 = b div 16"
    "c < 256 \<Longrightarrow> ((b mod 16) * 4 + c div 64) div 4 = b mod 16"
    "c < 256 \<Longrightarrow> ((b mod 16) * 4 + c div 64) mod 4 = c div 64"
    "b < 256 \<Longrightarrow> b div 16 div 16 = 0" "b < 256 \<Longrightarrow> b div 16 mod 16 = b div 16"
    "c < 256 \<Longrightarrow> c div 64 div 4 = 0" "c < 256 \<Longrightarrow> c div 64 mod 4 = c div 64"
  by (auto simp: less_mult_imp_div_less)

fun unb64url :: "jsstr \<Rightarrow> nat list" where
  "unb64url (w # x # y # z # r) =
     (b64val w * 4 + b64val x div 16) # (b64val x mod 16 * 16 + b64val y div 4)
     # (b64val y mod 4 * 64 + b64val z) # unb64url r"
| "unb64url [w, x, y] = [b64val w * 4 + b64val x div 16, b64val x mod 16 * 16 + b64val y div 4]"
| "unb64url [w, x] = [b64val w * 4 + b64val x div 16]"
| "unb64url _ = []"

lemma unb64url: "list_all (\<lambda>b. b < 256) bs \<Longrightarrow> unb64url (b64url bs) = bs"
  by (induction bs rule: b64url.induct) simp_all

lemma btoa_b64url:
  "\<exists>p. map (\<lambda>c. if c = 47 then 95 else c) (map (\<lambda>c. if c = 43 then 45 else c) (btoa bs)) = b64url bs @ p
     \<and> set p \<subseteq> {61}"
proof (induction bs rule: btoa.induct)
  case (1 a b c r)
  then obtain p where "map (\<lambda>c. if c = 47 then 95 else c) (map (\<lambda>c. if c = 43 then 45 else c) (btoa r)) = b64url r @ p"
    "set p \<subseteq> {61}" by blast
  then show ?case by (intro exI [of _ p]) (auto simp: b64url_char_def Let_def)
qed (auto simp: b64url_char_def Let_def)

lemma b64url_no_pad: "61 \<notin> set (b64url bs)"
  by (induction bs rule: b64url.induct) simp_all

lemma base64UrlEncode_eq: "base64UrlEncode bs = b64url bs"
proof -
  obtain p where p: "map (\<lambda>c. if c = 47 then 95 else c) (map (\<lambda>c. if c = 43 then 45 else c) (btoa bs)) = b64url bs @ p"
    "set p \<subseteq> {61}" using btoa_b64url by blast
  have "dropWhile (\<lambda>c. c = 61) (rev (b64url bs @ p)) = rev (b64url bs)"
  proof -
    have "dropWhile (\<lambda>c. c = 61) (rev p @ rev (b64url bs)) = dropWhile (\<lambda>c. c = 61) (rev (b64url bs))"
      using p(2) by (subst dropWhile_append2) auto
    also have "\<dots> = rev (b64url bs)"
    proof -
      have "b64url bs = [] \<or> last (b64url bs) \<noteq> 61" using b64url_no_pad [of bs] last_in_set by metis
      then show ?thesis by (auto simp: dropWhile_eq_self_iff hd_rev)
    qed
    finally show ?thesis by simp
  qed
  then show ?thesis unfolding base64UrlEncode_def p(1) by simp
qed

lemma b64url_safe:
  "list_all (\<lambda>b. b < 256) bs \<Longrightarrow>
   list_all (\<lambda>c. isAsciiAlnum c \<or> c = 45 \<or> c = 95) (b64url bs)"
  by (induction bs rule: b64url.induct)
     (simp_all add: b64url_char_safe)

lemma b64url_length: "length (b64url bs) = (4 * length bs + 2) div 3"
  by (induction bs rule: b64url.induct) auto


section \<open>Properties\<close>

text \<open>C11. The state that the provider echoes is accepted exactly once, only within ten minutes and only
  when it equals the stored one; it then returns the stored flow unchanged with the PKCE verifier
  whose digest was sent, and a second presentation of the same state is rejected.\<close>

theorem oauth_state_single_use:
  assumes "storeOAuthState C t0 provider mode ret link_user st = (Some (state, challenge), st')"
    and "validateOAuthState t1 p st' = (res, st'')"
  shows "(res \<noteq> None \<longleftrightarrow> p = state \<and> t1 - t0 \<le> STATE_EXPIRY_MS)
    \<and> (\<forall>v. res = Some v \<longrightarrow> v_identityProviderName v = provider \<and> v_flowMode v = mode
         \<and> v_returnUrl v = ret \<and> v_linkingUserName v = link_user
         \<and> (\<forall>digest. subtle_digest C = Some (\<lambda>x. Some (digest x)) \<longrightarrow>
              challenge = map_option (generateCodeChallenge digest) (v_codeVerifier v)
              \<and> v_codeVerifier v = Some (generateCodeVerifier (random2 C))))
    \<and> fst (validateOAuthState t2 p' st'') = None"
proof -
  obtain d where d: "st' = setItem STATE_STORAGE_KEY (StateData d) st" "oauth_state d = state"
    "timestamp d = t0" "identityProviderName d = provider" "flowMode d = Some mode" "returnUrl d = ret"
    "linkingUserName d = link_user"
    "\<And>digest. subtle_digest C = Some (\<lambda>x. Some (digest x)) \<Longrightarrow>
       challenge = map_option (generateCodeChallenge digest) (codeVerifier d)
       \<and> codeVerifier d = Some (generateCodeVerifier (random2 C))"
  proof (rule that)
    show "st' = setItem STATE_STORAGE_KEY (StateData \<lparr>oauth_state = state, identityProviderName = provider,
        flowMode = Some mode, timestamp = t0, returnUrl = ret, linkingUserName = link_user,
        codeVerifier = fst (pkceParameters C)\<rparr>) st"
      using assms(1) by (auto simp: storeOAuthState_def Let_def split: if_splits prod.splits)
    show "challenge = map_option (generateCodeChallenge digest) (codeVerifier \<lparr>oauth_state = state,
        identityProviderName = provider, flowMode = Some mode, timestamp = t0, returnUrl = ret,
        linkingUserName = link_user, codeVerifier = fst (pkceParameters C)\<rparr>)
      \<and> codeVerifier \<lparr>oauth_state = state,
        identityProviderName = provider, flowMode = Some mode, timestamp = t0, returnUrl = ret,
        linkingUserName = link_user, codeVerifier = fst (pkceParameters C)\<rparr>
          = Some (generateCodeVerifier (random2 C))"
      if "subtle_digest C = Some (\<lambda>x. Some (digest x))" for digest
      using assms(1) that
      by (auto simp: storeOAuthState_def pkceParameters_def generateCodeChallenge_def Let_def
          split: if_splits prod.splits)
  qed simp_all
  then have s: "getItem st' STATE_STORAGE_KEY = Some (StateData d)" by simp
  have "st'' = removeItem STATE_STORAGE_KEY st'"
    using assms(2) s by (auto simp: validateOAuthState_def split: if_splits)
  then have "fst (validateOAuthState t2 p' st'') = None" by (simp add: validateOAuthState_def)
  moreover have "res \<noteq> None \<longleftrightarrow> p = state \<and> t1 - t0 \<le> STATE_EXPIRY_MS"
    using assms(2) s d(2,3) by (auto simp: validateOAuthState_def split: if_splits)
  ultimately show ?thesis
    using assms(2) s d(4-8) by (auto simp: validateOAuthState_def split: if_splits)
qed

theorem oauth_state_single_use_witness:
  "\<exists>C st' res st''. storeOAuthState C 0 (js ''idp'') link None None [] = (Some (js ''0a'', None), st')
     \<and> validateOAuthState 600000 (js ''0a'') st' = (res, st'') \<and> res \<noteq> None
     \<and> fst (validateOAuthState 600000 (js ''0a'') st'') = None"
proof -
  define C where "C = \<lparr>random1 = [10], random2 = [], subtle_digest = None, storage_writable = True\<rparr>"
  define st' where "st' = snd (storeOAuthState C 0 (js ''idp'') link None None [])"
  have store: "storeOAuthState C 0 (js ''idp'') link None None [] = (Some (js ''0a'', None), st')"
    by (simp add: st'_def C_def storeOAuthState_def generateSecureState_def byteHex_def padStart2_def
        hexLower_def js_def Let_def pkceParameters_def)
  obtain res st'' where v: "validateOAuthState 600000 (js ''0a'') st' = (res, st'')" by fastforce
  from oauth_state_single_use [OF store v] have
    "res \<noteq> None" "fst (validateOAuthState 600000 (js ''0a'') st'') = None"
    by (auto simp: STATE_EXPIRY_MS_def)
  with store v show ?thesis by blast
qed

text \<open>The state and the PKCE values lose nothing of the random bytes and need no escaping: 32 random
  bytes give 64 hexadecimal digits and 43 characters of the URL-safe alphabet, and different bytes
  give different texts.\<close>

theorem oauth_random_values:
  assumes "list_all (\<lambda>b. b < 256) bs" "list_all (\<lambda>b. b < 256) bs'" "length bs = 32"
  shows "length (generateSecureState bs) = 64 \<and> length (generateCodeVerifier bs) = 43
    \<and> list_all (\<lambda>c. isAsciiAlnum c \<or> c = 45 \<or> c = 95) (generateCodeVerifier bs)
    \<and> (generateSecureState bs = generateSecureState bs' \<longleftrightarrow> bs = bs')
    \<and> (generateCodeVerifier bs = generateCodeVerifier bs' \<longleftrightarrow> bs = bs')"
proof -
  have "generateSecureState bs = generateSecureState bs' \<longleftrightarrow> bs = bs'"
    using secureState_decode assms(1,2) by metis
  moreover have "generateCodeVerifier bs = generateCodeVerifier bs' \<longleftrightarrow> bs = bs'"
    using unb64url assms(1,2) by (metis base64UrlEncode_eq generateCodeVerifier_def)
  ultimately show ?thesis
    using assms secureState_length [OF assms(1)] b64url_safe [OF assms(1)] b64url_length [of bs]
    by (simp add: generateCodeVerifier_def base64UrlEncode_eq)
qed

theorem oauth_random_values_witness:
  "length (generateCodeVerifier (replicate 32 255)) = 43
   \<and> generateCodeVerifier (replicate 32 255) \<noteq> generateCodeVerifier (replicate 32 0)"
  using oauth_random_values [of "replicate 32 255" "replicate 32 0"] by (simp add: list_all_length)

end
