(* ===== verification/Proto_Types.thy ===== *)
theory Proto_Types
  imports JS_Prelude
begin

text \<open>
  The messages of the API that the client handles, field by field as the generated
  \<^verbatim>\<open>web/src/types/proto/api/v1\<close> declares them. Messages are values, so deep equality
  (\<open>isEqual\<close>, \<open>equals\<close>) is equality. A floating point number that is only carried and compared is
  represented by its bit pattern (\<open>number_bits\<close>), a time stamp by its nanoseconds.
\<close>

type_synonym number_bits = int
type_synonym timestamp = int

datatype MotionMediaFamily = MOTION_MEDIA_FAMILY_UNSPECIFIED | APPLE_LIVE_PHOTO | ANDROID_MOTION_PHOTO

datatype MotionMediaRole = MOTION_MEDIA_ROLE_UNSPECIFIED | STILL | VIDEO | CONTAINER

record MotionMedia =
  mm_family :: MotionMediaFamily
  mm_role :: MotionMediaRole
  mm_groupId :: jsstr
  mm_presentationTimestampUs :: int
  mm_hasEmbeddedVideo :: bool

text \<open>The metadata of a photo or video is opaque to the modelled code, apart from its size.\<close>

record MediaMetadata =
  md_width :: "nat option"
  md_height :: "nat option"
  md_details :: jsstr

record Attachment =
  att_name :: jsstr
  att_createTime :: "timestamp option"
  att_filename :: jsstr
  att_content :: "nat list"
  att_externalLink :: jsstr
  att_type :: jsstr
  att_size :: nat
  att_memo :: "jsstr option"
  att_motionMedia :: "MotionMedia option"
  att_mediaMetadata :: "MediaMetadata option"

text \<open>\<open>create(AttachmentSchema, {})\<close>: every field at its default.\<close>

definition empty_attachment :: Attachment where
  "empty_attachment = \<lparr>att_name = [], att_createTime = None, att_filename = [], att_content = [],
     att_externalLink = [], att_type = [], att_size = 0, att_memo = None, att_motionMedia = None,
     att_mediaMetadata = None\<rparr>"

datatype Visibility = VISIBILITY_UNSPECIFIED | PRIVATE | PROTECTED | PUBLIC | SPACE

datatype State = STATE_UNSPECIFIED | NORMAL | ARCHIVED_STATE

datatype MemoRelation_Type = TYPE_UNSPECIFIED | REFERENCE | COMMENT

record MemoRelation_Memo =
  rm_name :: jsstr
  rm_snippet :: jsstr

record MemoRelation =
  rel_memo :: "MemoRelation_Memo option"
  rel_relatedMemo :: "MemoRelation_Memo option"
  rel_type :: MemoRelation_Type

record Location =
  placeholder :: jsstr
  latitude :: number_bits
  longitude :: number_bits

record Reaction =
  reaction_name :: jsstr
  reaction_creator :: jsstr
  reactionType :: jsstr
  reaction_createTime :: "timestamp option"

record Memo_Property =
  hasLink :: bool
  hasTaskList :: bool
  hasCode :: bool
  hasIncompleteTasks :: bool
  prop_title :: jsstr

record Memo =
  memo_name :: jsstr
  memo_state :: State
  memo_creator :: jsstr
  memo_createTime :: "timestamp option"
  memo_updateTime :: "timestamp option"
  memo_content :: jsstr
  memo_visibility :: Visibility
  memo_tags :: "jsstr list"
  memo_pinned :: bool
  memo_attachments :: "Attachment list"
  memo_relations :: "MemoRelation list"
  memo_reactions :: "Reaction list"
  memo_property :: "Memo_Property option"
  memo_parent :: "jsstr option"
  memo_snippet :: jsstr
  memo_location :: "Location option"
  memo_space :: "jsstr option"

text \<open>\<open>create(MemoSchema, {})\<close>.\<close>

definition empty_memo :: Memo where
  "empty_memo = \<lparr>memo_name = [], memo_state = STATE_UNSPECIFIED, memo_creator = [],
     memo_createTime = None, memo_updateTime = None, memo_content = [],
     memo_visibility = VISIBILITY_UNSPECIFIED, memo_tags = [], memo_pinned = False,
     memo_attachments = [], memo_relations = [], memo_reactions = [], memo_property = None,
     memo_parent = None, memo_snippet = [], memo_location = None, memo_space = None\<rparr>"

text \<open>A browser \<open>File\<close>.\<close>

record File =
  file_name :: jsstr
  file_type :: jsstr
  file_bytes :: "nat list"

definition file_size :: "File \<Rightarrow> nat" where
  "file_size f = length (file_bytes f)"

datatype User_Role = ROLE_UNSPECIFIED | ROLE_ADMIN | ROLE_USER

record User =
  user_name :: jsstr
  user_role :: User_Role
  user_username :: jsstr
  user_email :: jsstr
  user_displayName :: jsstr
  user_avatarUrl :: jsstr
  user_description :: jsstr
  user_password :: jsstr
  user_state :: State
  user_createTime :: "timestamp option"
  user_updateTime :: "timestamp option"

text \<open>The payload of a notification is opaque to the modelled code.\<close>

datatype UserNotification_Status = STATUS_UNSPECIFIED | UNREAD | STATUS_ARCHIVED

datatype UserNotification_Type = NOTIFICATION_UNSPECIFIED | MEMO_COMMENT | MEMO_MENTION | SPACE_INVITATION

record UserNotification =
  nt_name :: jsstr
  nt_sender :: jsstr
  nt_senderUser :: "User option"
  nt_status :: UserNotification_Status
  nt_createTime :: "timestamp option"
  nt_type :: UserNotification_Type
  nt_payload :: "jsstr option"

end
