(* ===== verification/Editor_State.thy ===== *)
theory Editor_State
  imports Proto_Types
begin

text \<open>
  The state of the memo editor: \<^verbatim>\<open>web/src/components/MemoEditor/state/{types,actions,reducer}.ts\<close>
  and the save gate \<^verbatim>\<open>web/src/components/MemoEditor/services/validationService.ts\<close>. The search
  for unsupported attachment URLs in the text is the argument \<open>findInvalid\<close>.
\<close>

section \<open>State and actions\<close>

datatype LoadingKey = saving_key | uploading_key | loading_key

datatype ContentSource = editor_source | external_source

datatype FileOrigin = audio_recording | upload_origin

record LocalFile =
  lf_file :: File
  lf_previewUrl :: jsstr
  lf_origin :: "FileOrigin option"
  lf_durationSeconds :: "nat option"
  lf_motionMedia :: "MotionMedia option"
  lf_mediaMetadata :: "MediaMetadata option"

record EditorMetadata =
  meta_visibility :: Visibility
  meta_attachments :: "Attachment list"
  meta_relations :: "MemoRelation list"
  meta_location :: "Location option"

record IsLoading =
  saving :: bool
  uploading :: bool
  loading :: bool

record EditorUi =
  isFocusMode :: bool
  pendingInlineImageInsertions :: int
  isLoading :: IsLoading
  justSaved :: bool

record EditorTimestamps =
  ts_createTime :: "int option"
  ts_updateTime :: "int option"

record EditorState =
  content :: jsstr
  contentSource :: ContentSource
  metadata :: EditorMetadata
  ui :: EditorUi
  timestamps :: EditorTimestamps
  localFiles :: "LocalFile list"
  recorderBusy :: bool

text \<open>A partial update: a field is absent (\<open>None\<close>) or overrides, also with \<open>undefined\<close>.\<close>

record PartialMetadata =
  p_visibility :: "Visibility option"
  p_attachments :: "Attachment list option"
  p_relations :: "MemoRelation list option"
  p_location :: "Location option option"

record PartialTimestamps =
  p_createTime :: "int option option"
  p_updateTime :: "int option option"

datatype EditorAction =
    INIT_MEMO jsstr EditorMetadata EditorTimestamps
  | UPDATE_CONTENT jsstr ContentSource
  | SET_METADATA PartialMetadata
  | ADD_LOCAL_FILE LocalFile
  | REMOVE_LOCAL_FILE jsstr
  | SET_LOCAL_FILES "LocalFile list"
  | TOGGLE_FOCUS_MODE
  | SET_LOADING LoadingKey bool
  | SET_PENDING_INLINE_IMAGE_INSERTIONS int
  | SET_TIMESTAMPS PartialTimestamps
  | SET_RECORDER_BUSY bool
  | SET_JUST_SAVED bool
  | RESET

definition defaultState :: EditorState where
  "defaultState = \<lparr>content = [], contentSource = external_source,
     metadata = \<lparr>meta_visibility = PRIVATE, meta_attachments = [], meta_relations = [], meta_location = None\<rparr>,
     ui = \<lparr>isFocusMode = False, pendingInlineImageInsertions = 0,
           isLoading = \<lparr>saving = False, uploading = False, loading = False\<rparr>, justSaved = False\<rparr>,
     timestamps = \<lparr>ts_createTime = None, ts_updateTime = None\<rparr>,
     localFiles = [], recorderBusy = False\<rparr>"

definition createInitialState :: "bool \<Rightarrow> EditorState" where
  "createInitialState initialFocusMode =
     defaultState\<lparr>ui := (ui defaultState)\<lparr>isFocusMode := initialFocusMode\<rparr>\<rparr>"

section \<open>Action creators\<close>

definition initMemo :: "jsstr \<Rightarrow> EditorMetadata \<Rightarrow> EditorTimestamps \<Rightarrow> EditorAction" where
  "initMemo c m t = INIT_MEMO c m t"
definition updateContent :: "jsstr \<Rightarrow> EditorAction" where
  "updateContent c = UPDATE_CONTENT c editor_source"
definition setContent :: "jsstr \<Rightarrow> EditorAction" where
  "setContent c = UPDATE_CONTENT c external_source"
definition setMetadata :: "PartialMetadata \<Rightarrow> EditorAction" where
  "setMetadata m = SET_METADATA m"
definition addLocalFile :: "LocalFile \<Rightarrow> EditorAction" where
  "addLocalFile f = ADD_LOCAL_FILE f"
definition removeLocalFile :: "jsstr \<Rightarrow> EditorAction" where
  "removeLocalFile previewUrl = REMOVE_LOCAL_FILE previewUrl"
definition setLocalFiles :: "LocalFile list \<Rightarrow> EditorAction" where
  "setLocalFiles fs = SET_LOCAL_FILES fs"
definition toggleFocusMode :: EditorAction where
  "toggleFocusMode = TOGGLE_FOCUS_MODE"
definition setLoading :: "LoadingKey \<Rightarrow> bool \<Rightarrow> EditorAction" where
  "setLoading key val = SET_LOADING key val"
definition setPendingInlineImageInsertions :: "int \<Rightarrow> EditorAction" where
  "setPendingInlineImageInsertions val = SET_PENDING_INLINE_IMAGE_INSERTIONS val"
definition setTimestamps :: "PartialTimestamps \<Rightarrow> EditorAction" where
  "setTimestamps t = SET_TIMESTAMPS t"
definition setJustSaved :: "bool \<Rightarrow> EditorAction" where
  "setJustSaved val = SET_JUST_SAVED val"
definition setRecorderBusy :: "bool \<Rightarrow> EditorAction" where
  "setRecorderBusy val = SET_RECORDER_BUSY val"
definition reset_action :: EditorAction where
  "reset_action = RESET"

section \<open>The reducer\<close>

definition override :: "'a option \<Rightarrow> 'a \<Rightarrow> 'a" where
  "override p old = (case p of None \<Rightarrow> old | Some new \<Rightarrow> new)"

fun editorReducer :: "EditorState \<Rightarrow> EditorAction \<Rightarrow> EditorState" where
  "editorReducer state (INIT_MEMO c m t) =
     state\<lparr>content := c, contentSource := external_source, metadata := m, timestamps := t\<rparr>"
| "editorReducer state (UPDATE_CONTENT c s) =
     (if content state = c \<and> contentSource state = s then state
      else state\<lparr>content := c, contentSource := s\<rparr>)"
| "editorReducer state (SET_METADATA p) =
     state\<lparr>metadata := \<lparr>
        meta_visibility = override (p_visibility p) (meta_visibility (metadata state)),
        meta_attachments = override (p_attachments p) (meta_attachments (metadata state)),
        meta_relations = override (p_relations p) (meta_relations (metadata state)),
        meta_location = override (p_location p) (meta_location (metadata state))\<rparr>\<rparr>"
| "editorReducer state (ADD_LOCAL_FILE f) = state\<lparr>localFiles := localFiles state @ [f]\<rparr>"
| "editorReducer state (REMOVE_LOCAL_FILE url) =
     state\<lparr>localFiles := filter (\<lambda>f. lf_previewUrl f \<noteq> url) (localFiles state)\<rparr>"
| "editorReducer state (SET_LOCAL_FILES fs) = state\<lparr>localFiles := fs\<rparr>"
| "editorReducer state TOGGLE_FOCUS_MODE =
     state\<lparr>ui := (ui state)\<lparr>isFocusMode := \<not> isFocusMode (ui state)\<rparr>\<rparr>"
| "editorReducer state (SET_LOADING key val) =
     state\<lparr>ui := (ui state)\<lparr>isLoading := (case key of
        saving_key \<Rightarrow> (isLoading (ui state))\<lparr>saving := val\<rparr>
      | uploading_key \<Rightarrow> (isLoading (ui state))\<lparr>uploading := val\<rparr>
      | loading_key \<Rightarrow> (isLoading (ui state))\<lparr>loading := val\<rparr>)\<rparr>\<rparr>"
| "editorReducer state (SET_PENDING_INLINE_IMAGE_INSERTIONS n) =
     state\<lparr>ui := (ui state)\<lparr>pendingInlineImageInsertions := n\<rparr>\<rparr>"
| "editorReducer state (SET_TIMESTAMPS p) =
     state\<lparr>timestamps := \<lparr>
        ts_createTime = override (p_createTime p) (ts_createTime (timestamps state)),
        ts_updateTime = override (p_updateTime p) (ts_updateTime (timestamps state))\<rparr>\<rparr>"
| "editorReducer state (SET_RECORDER_BUSY b) = state\<lparr>recorderBusy := b\<rparr>"
| "editorReducer state (SET_JUST_SAVED b) = state\<lparr>ui := (ui state)\<lparr>justSaved := b\<rparr>\<rparr>"
| "editorReducer state RESET = createInitialState False"

section \<open>The save gate\<close>

datatype ValidationReason =
    loading_content | content_required | wait_for_upload | resolve_image_uploads
  | unsupported_attachment_image_url | finish_audio_recording | save_in_progress

record ValidationResult =
  valid :: bool
  reason :: "ValidationReason option"
  detail :: "jsstr option"

definition invalid :: "ValidationReason \<Rightarrow> jsstr option \<Rightarrow> ValidationResult" where
  "invalid r d = \<lparr>valid = False, reason = Some r, detail = d\<rparr>"

definition canSave :: "(jsstr \<Rightarrow> jsstr list) \<Rightarrow> EditorState \<Rightarrow> ValidationResult" where
  "canSave findInvalid state =
     (if loading (isLoading (ui state)) then invalid loading_content None
      else if trim (content state) = [] \<and> length (meta_attachments (metadata state)) = 0
              \<and> length (localFiles state) = 0 then invalid content_required None
      else if uploading (isLoading (ui state)) then invalid wait_for_upload None
      else if pendingInlineImageInsertions (ui state) > 0 then invalid resolve_image_uploads None
      else case findInvalid (content state) of
             (c # cs) # _ \<Rightarrow> invalid unsupported_attachment_image_url (Some (c # cs))
           | _ \<Rightarrow>
               if recorderBusy state then invalid finish_audio_recording None
               else if saving (isLoading (ui state)) \<or> justSaved (ui state)
               then invalid save_in_progress None
               else \<lparr>valid = True, reason = None, detail = None\<rparr>)"

section \<open>What a save needs\<close>

definition ready_to_save :: "(jsstr \<Rightarrow> jsstr list) \<Rightarrow> EditorState \<Rightarrow> bool" where
  "ready_to_save findInvalid state \<longleftrightarrow>
     (trim (content state) \<noteq> [] \<or> meta_attachments (metadata state) \<noteq> [] \<or> localFiles state \<noteq> [])
     \<and> isLoading (ui state) = \<lparr>saving = False, uploading = False, loading = False\<rparr>
     \<and> \<not> justSaved (ui state) \<and> \<not> recorderBusy state
     \<and> pendingInlineImageInsertions (ui state) \<le> 0
     \<and> (findInvalid (content state) = [] \<or> hd (findInvalid (content state)) = [])"

lemma canSave_ready: "valid (canSave f s) \<longleftrightarrow> ready_to_save f s"
  by (cases "isLoading (ui s)"; cases "f (content s)"; cases "hd (f (content s))")
     (auto simp: canSave_def ready_to_save_def invalid_def)

lemma loading_flags [simp]:
  "saving (isLoading (ui (editorReducer s (SET_LOADING saving_key b)))) = b"
  "content (editorReducer s (SET_LOADING k b)) = content s"
  "metadata (editorReducer s (SET_LOADING k b)) = metadata s"
  "localFiles (editorReducer s (SET_LOADING k b)) = localFiles s"
  by (cases k; simp)+

lemma canSave_blocked [simp]:
  "\<not> valid (canSave f (editorReducer s (SET_LOADING saving_key True)))"
  "\<not> valid (canSave f (editorReducer s (SET_JUST_SAVED True)))"
  by (cases "isLoading (ui s)"; auto simp: canSave_ready ready_to_save_def)+

text \<open>What the user has written: the part of the state that must survive a failed save.\<close>

definition draft_of :: "EditorState \<Rightarrow> jsstr \<times> EditorMetadata \<times> EditorTimestamps \<times> LocalFile list" where
  "draft_of s = (content s, metadata s, timestamps s, localFiles s)"

text \<open>The actions that change only the user interface.\<close>

fun ui_action :: "EditorAction \<Rightarrow> bool" where
  "ui_action TOGGLE_FOCUS_MODE = True"
| "ui_action (SET_LOADING _ _) = True"
| "ui_action (SET_PENDING_INLINE_IMAGE_INSERTIONS _) = True"
| "ui_action (SET_RECORDER_BUSY _) = True"
| "ui_action (SET_JUST_SAVED _) = True"
| "ui_action _ = False"

lemma ui_action_keeps_draft: "ui_action a \<Longrightarrow> draft_of (editorReducer s a) = draft_of s"
  by (cases a) (auto simp: draft_of_def)

section \<open>Properties\<close>

text \<open>The editor can be saved exactly when it holds text, an attachment or a local file and nothing is
  in flight: no loading, uploading, saving, saved confirmation, recording or pending inline image,
  and no unsupported attachment URL in the text. A refusal always names its reason.\<close>

theorem canSave_iff:
  "(valid (canSave f s) \<longleftrightarrow> ready_to_save f s) \<and> (valid (canSave f s) \<longleftrightarrow> reason (canSave f s) = None)"
proof -
  have "valid (canSave f s) \<longleftrightarrow> reason (canSave f s) = None"
    by (auto simp: canSave_def invalid_def split: list.splits)
  then show ?thesis using canSave_ready [of f s] by simp
qed

text \<open>Any sequence of interface actions (loading flags, focus mode, recording, pending insertions, the
  saved confirmation) leaves what the user has written untouched: text, metadata, time stamps and
  local files.\<close>

theorem ui_actions_keep_draft:
  "draft_of (foldl editorReducer s (filter ui_action as)) = draft_of s"
  by (induction as arbitrary: s) (simp_all add: ui_action_keeps_draft)

end
