(* ===== verification/Draft_Cache.thy ===== *)
theory Draft_Cache
  imports Proto_Types Web_Storage
begin

text \<open>
  The draft cache of the editor, \<^verbatim>\<open>web/src/components/MemoEditor/services/cacheService.ts\<close>, with its
  debounced writes, and the autosave hook \<^verbatim>\<open>web/src/components/MemoEditor/hooks/useAutoSave.ts\<close>.

  The timers of the browser are part of the state: each has an id and the write that its callback
  performs. The JSON text of an entry is the entry (\<open>Structured\<close>, with its version) and any other
  stored text is \<open>Raw\<close>; an attachment in an entry that \<open>fromJson\<close> rejects is \<open>None\<close>, a location
  field is absent, malformed or a location.
\<close>

section \<open>Entries\<close>

datatype location_field = NoLocation | BadLocation | GoodLocation Location

datatype entry = Raw jsstr | Structured nat jsstr "Attachment option list option" location_field

text \<open>\<open>Undefined\<close> (legacy) is \<open>None\<close>, an explicitly removed location is \<open>Some None\<close>.\<close>

record EditorDraft =
  draft_content :: jsstr
  draft_attachments :: "Attachment list"
  draft_location :: "Location option option"

definition STRUCTURED_CACHE_ENTRY_VERSION :: nat where "STRUCTURED_CACHE_ENTRY_VERSION = 3"
definition CACHE_DEBOUNCE_DELAY :: nat where "CACHE_DEBOUNCE_DELAY = 500"

text \<open>The raw text of an entry of an unknown version is kept by the argument \<open>text\<close>.\<close>

definition deserializeDraft :: "(entry \<Rightarrow> jsstr) \<Rightarrow> entry \<Rightarrow> EditorDraft" where
  "deserializeDraft text raw =
     (case raw of
        Raw s \<Rightarrow> \<lparr>draft_content = s, draft_attachments = [], draft_location = None\<rparr>
      | Structured version c atts loc \<Rightarrow>
          if version = 1 then \<lparr>draft_content = c, draft_attachments = [], draft_location = None\<rparr>
          else if version = 2 \<or> version = STRUCTURED_CACHE_ENTRY_VERSION then
            \<lparr>draft_content = c,
             draft_attachments = (case atts of None \<Rightarrow> [] | Some as \<Rightarrow> List.map_filter id as),
             draft_location =
               (if version = STRUCTURED_CACHE_ENTRY_VERSION
                then Some (case loc of GoodLocation l \<Rightarrow> Some l | _ \<Rightarrow> None) else None)\<rparr>
          else \<lparr>draft_content = text raw, draft_attachments = [], draft_location = None\<rparr>)"

definition serializeDraft :: "jsstr \<Rightarrow> Attachment list \<Rightarrow> Location option \<Rightarrow> entry" where
  "serializeDraft c attachments location =
     Structured STRUCTURED_CACHE_ENTRY_VERSION c (Some (map Some attachments))
       (case location of None \<Rightarrow> NoLocation | Some l \<Rightarrow> GoodLocation l)"

section \<open>The cache\<close>

record draft_write =
  dw_key :: jsstr
  dw_content :: jsstr
  dw_attachments :: "Attachment list"
  dw_location :: "Location option"

record cache =
  pendingSaves :: "(jsstr \<times> nat) list"
  cursors :: "(jsstr \<times> nat) list"
  drafts :: "(jsstr \<times> entry) list"
  timers :: "(nat \<times> draft_write) list"
  next_timer :: nat

definition empty_cache :: cache where
  "empty_cache = \<lparr>pendingSaves = [], cursors = [], drafts = [], timers = [], next_timer = 1\<rparr>"

definition writeEntry :: "draft_write \<Rightarrow> cache \<Rightarrow> cache" where
  "writeEntry w c =
     (if trim (dw_content w) \<noteq> [] \<or> length (dw_attachments w) > 0
      then c\<lparr>drafts := setItem (dw_key w)
               (serializeDraft (dw_content w) (dw_attachments w) (dw_location w)) (drafts c)\<rparr>
      else c\<lparr>drafts := removeItem (dw_key w) (drafts c)\<rparr>)"

definition cache_key :: "jsstr \<Rightarrow> jsstr option \<Rightarrow> jsstr" where
  "cache_key username cacheKey = username @ js ''-'' @ (case cacheKey of None \<Rightarrow> [] | Some k \<Rightarrow> k)"

definition clearTimeout :: "nat \<Rightarrow> cache \<Rightarrow> cache" where
  "clearTimeout i c = c\<lparr>timers := removeItem i (timers c)\<rparr>"

text \<open>Timer ids are positive, so a pending id is truthy.\<close>

definition cancelPending :: "jsstr \<Rightarrow> cache \<Rightarrow> cache" where
  "cancelPending key c =
     (case getItem (pendingSaves c) key of
        None \<Rightarrow> c
      | Some i \<Rightarrow> if i \<noteq> 0 then clearTimeout i c else c)"

definition cache_save :: "jsstr \<Rightarrow> jsstr \<Rightarrow> Attachment list \<Rightarrow> Location option \<Rightarrow> cache \<Rightarrow> cache" where
  "cache_save key text attachments location c =
     (let c1 = cancelPending key c; i = next_timer c1
      in c1\<lparr>timers := setItem i \<lparr>dw_key = key, dw_content = text, dw_attachments = attachments, dw_location = location\<rparr>
                         (timers c1), next_timer := Suc i,
            pendingSaves := setItem key i (pendingSaves c1)\<rparr>)"

text \<open>The callback of a timer.\<close>

definition timer_fires :: "nat \<Rightarrow> cache \<Rightarrow> cache" where
  "timer_fires i c =
     (case getItem (timers c) i of
        None \<Rightarrow> c
      | Some w \<Rightarrow>
          writeEntry w (c\<lparr>timers := removeItem i (timers c),
                          pendingSaves := removeItem (dw_key w) (pendingSaves c)\<rparr>))"

definition dropPending :: "jsstr \<Rightarrow> cache \<Rightarrow> cache" where
  "dropPending key c =
     (case getItem (pendingSaves c) key of
        None \<Rightarrow> c
      | Some i \<Rightarrow> if i \<noteq> 0 then (clearTimeout i c)\<lparr>pendingSaves := removeItem key (pendingSaves c)\<rparr> else c)"

definition saveNow :: "jsstr \<Rightarrow> jsstr \<Rightarrow> Attachment list \<Rightarrow> Location option \<Rightarrow> cache \<Rightarrow> cache" where
  "saveNow key text attachments location c =
     writeEntry \<lparr>dw_key = key, dw_content = text, dw_attachments = attachments, dw_location = location\<rparr>
       (dropPending key c)"

definition loadDraft :: "(entry \<Rightarrow> jsstr) \<Rightarrow> jsstr \<Rightarrow> cache \<Rightarrow> EditorDraft" where
  "loadDraft text key c =
     (case getItem (drafts c) key of
        None \<Rightarrow> \<lparr>draft_content = [], draft_attachments = [], draft_location = None\<rparr>
      | Some raw \<Rightarrow> deserializeDraft text raw)"

definition load_content :: "(entry \<Rightarrow> jsstr) \<Rightarrow> jsstr \<Rightarrow> cache \<Rightarrow> jsstr" where
  "load_content text key c = draft_content (loadDraft text key c)"

definition saveCursor :: "jsstr \<Rightarrow> nat \<Rightarrow> cache \<Rightarrow> cache" where
  "saveCursor key cursor c = c\<lparr>cursors := setItem key cursor (cursors c)\<rparr>"

definition loadCursor :: "jsstr \<Rightarrow> cache \<Rightarrow> nat option" where
  "loadCursor key c = getItem (cursors c) key"

definition cache_clear :: "jsstr \<Rightarrow> cache \<Rightarrow> cache" where
  "cache_clear key c =
     (let c1 = dropPending key c
      in c1\<lparr>drafts := removeItem key (drafts c1), cursors := removeItem key (cursors c1)\<rparr>)"

definition clearAll :: "cache \<Rightarrow> cache" where
  "clearAll c =
     c\<lparr>timers := foldr removeItem (map snd (pendingSaves c)) (timers c), pendingSaves := [], cursors := []\<rparr>"

section \<open>Invariant\<close>

text \<open>Every live timer is the pending save of its key and the other way round, so a key never has two
  live timers; ids are positive and below the next one.\<close>

definition timer_key :: "cache \<Rightarrow> nat \<Rightarrow> jsstr option" where
  "timer_key c i = map_option dw_key (getItem (timers c) i)"

definition cache_inv :: "cache \<Rightarrow> bool" where
  "cache_inv c \<longleftrightarrow> next_timer c > 0
     \<and> (\<forall>k i. getItem (pendingSaves c) k = Some i \<longleftrightarrow> timer_key c i = Some k)
     \<and> (\<forall>k i. timer_key c i = Some k \<longrightarrow> 0 < i \<and> i < next_timer c)"

lemma cache_invD:
  assumes "cache_inv c"
  shows "timer_key c i = Some k \<longleftrightarrow> getItem (pendingSaves c) k = Some i"
    and "getItem (pendingSaves c) k = Some i \<Longrightarrow> 0 < i \<and> i < next_timer c"
    and "0 < next_timer c"
  using assms by (auto simp: cache_inv_def)

lemma timer_unique:
  "cache_inv c \<Longrightarrow> timer_key c i = Some k \<Longrightarrow> timer_key c j = Some k \<Longrightarrow> i = j"
  by (simp add: cache_invD)

lemma writeEntry_frame [simp]:
  "pendingSaves (writeEntry w c) = pendingSaves c" "timers (writeEntry w c) = timers c"
  "next_timer (writeEntry w c) = next_timer c" "cursors (writeEntry w c) = cursors c"
  by (simp_all add: writeEntry_def)

lemma writeEntry_inv [inv_intros]: "cache_inv c \<Longrightarrow> cache_inv (writeEntry w c)"
  by (simp add: cache_inv_def timer_key_def)

lemma empty_cache_inv: "cache_inv empty_cache"
  by (simp add: cache_inv_def empty_cache_def getItem_def timer_key_def)

lemma cancelPending_frame [simp]:
  "pendingSaves (cancelPending k c) = pendingSaves c" "next_timer (cancelPending k c) = next_timer c"
  "drafts (cancelPending k c) = drafts c" "cursors (cancelPending k c) = cursors c"
  by (simp_all add: cancelPending_def clearTimeout_def split: option.splits)

lemma pending_positive: "cache_inv c \<Longrightarrow> getItem (pendingSaves c) k = Some i \<Longrightarrow> 0 < i"
  by (auto simp: cache_inv_def)

lemma timer_key_cancel:
  assumes "cache_inv c"
  shows "timer_key (cancelPending k c) i = (if timer_key c i = Some k then None else timer_key c i)"
proof (cases "getItem (pendingSaves c) k")
  case None
  then have "timer_key c i \<noteq> Some k" using cache_invD(1) [OF assms] by simp
  then show ?thesis by (simp add: cancelPending_def None)
next
  case (Some j)
  then have j: "timer_key c j = Some k" "0 < j" using assms by (auto simp: cache_inv_def)
  have "cancelPending k c = clearTimeout j c" using Some j(2) by (simp add: cancelPending_def)
  then have key: "timer_key (cancelPending k c) i = (if i = j then None else timer_key c i)"
    by (simp add: clearTimeout_def timer_key_def)
  show ?thesis
  proof (cases "i = j")
    case True
    then show ?thesis using key j(1) by simp
  next
    case False
    then have "timer_key c i \<noteq> Some k" using timer_unique [OF assms _ j(1)] by blast
    then show ?thesis using key False by simp
  qed
qed

lemma timer_key_save:
  assumes "cache_inv c"
  shows "timer_key (cache_save k t a l c) i =
    (if i = next_timer c then Some k else if timer_key c i = Some k then None else timer_key c i)"
  using timer_key_cancel [OF assms, of k i]
  by (simp add: cache_save_def Let_def timer_key_def)

lemma cache_save_frame [simp]:
  "getItem (pendingSaves (cache_save k t a l c)) k' =
     (if k' = k then Some (next_timer c) else getItem (pendingSaves c) k')"
  "next_timer (cache_save k t a l c) = Suc (next_timer c)" "drafts (cache_save k t a l c) = drafts c"
  by (simp_all add: cache_save_def Let_def)

lemma cache_save_inv [inv_intros]:
  assumes "cache_inv c"
  shows "cache_inv (cache_save k t a l c)"
  unfolding cache_inv_def timer_key_save [OF assms] cache_save_frame
proof (intro conjI allI impI)
  fix k' i
  have "getItem (pendingSaves c) k' \<noteq> Some (next_timer c)" using assms by (auto simp: cache_inv_def)
  then show "(if k' = k then Some (next_timer c) else getItem (pendingSaves c) k') = Some i \<longleftrightarrow>
    (if i = next_timer c then Some k else if timer_key c i = Some k then None else timer_key c i) = Some k'"
    using assms by (auto simp: cache_inv_def)
qed (use cache_invD [OF assms] in \<open>fastforce split: if_splits\<close>)+

lemma drop_timer_inv:
  assumes "cache_inv c" "timer_key c i = Some k"
  shows "cache_inv (c\<lparr>timers := removeItem i (timers c), pendingSaves := removeItem k (pendingSaves c)\<rparr>)"
    (is "cache_inv ?c")
proof -
  have tk: "timer_key ?c j = (if j = i then None else timer_key c j)" for j by (simp add: timer_key_def)
  have "getItem (pendingSaves ?c) k' = Some j \<longleftrightarrow> timer_key ?c j = Some k'" for k' j
  proof (cases "k' = k")
    case True
    then show ?thesis unfolding tk using timer_unique [OF assms] by auto
  next
    case False
    then have "timer_key c i \<noteq> Some k'" using assms(2) by simp
    then show ?thesis unfolding tk using cache_invD(1) [OF assms(1)] False by auto
  qed
  then show ?thesis unfolding cache_inv_def tk using assms(1) by (auto simp: cache_inv_def)
qed

lemma timer_fires_inv [inv_intros]: "cache_inv c \<Longrightarrow> cache_inv (timer_fires i c)"
  using drop_timer_inv [of c i]
  by (auto simp: timer_fires_def timer_key_def split: option.splits intro!: writeEntry_inv)

lemma dropPending_eq:
  assumes "cache_inv c"
  shows "dropPending k c = (case getItem (pendingSaves c) k of None \<Rightarrow> c
    | Some i \<Rightarrow> c\<lparr>timers := removeItem i (timers c), pendingSaves := removeItem k (pendingSaves c)\<rparr>)"
  using pending_positive [OF assms, of k] by (auto simp: dropPending_def clearTimeout_def split: option.splits)

lemma dropPending_inv [inv_intros]: "cache_inv c \<Longrightarrow> cache_inv (dropPending k c)"
  using drop_timer_inv [of c] by (auto simp: dropPending_eq cache_inv_def split: option.splits)

lemma dropPending_frame [simp]:
  "drafts (dropPending k c) = drafts c" "cursors (dropPending k c) = cursors c"
  "next_timer (dropPending k c) = next_timer c"
  by (simp_all add: dropPending_def clearTimeout_def split: option.splits)

lemma saveNow_inv [inv_intros]: "cache_inv c \<Longrightarrow> cache_inv (saveNow k t a l c)"
  by (simp add: saveNow_def inv_intros)

lemma cache_clear_inv [inv_intros]: "cache_inv c \<Longrightarrow> cache_inv (cache_clear k c)"
  using dropPending_inv [of c k] by (simp add: cache_clear_def Let_def cache_inv_def timer_key_def)

lemma saveCursor_inv [inv_intros]: "cache_inv c \<Longrightarrow> cache_inv (saveCursor k n c)"
  by (simp add: saveCursor_def cache_inv_def timer_key_def)

lemma clearAll_inv [inv_intros]: "cache_inv c \<Longrightarrow> cache_inv (clearAll c)"
proof -
  assume inv: "cache_inv c"
  have "timer_key (clearAll c) i = None" for i
  proof (cases "timer_key c i")
    case (Some k)
    then have "(k, i) \<in> set (pendingSaves c)"
      using cache_invD(1) [OF inv] by (simp add: getItem_def map_of_SomeD)
    then have "i \<in> set (map snd (pendingSaves c))" by force
    then show ?thesis by (simp add: clearAll_def timer_key_def web_storage.del_many)
  qed (simp add: clearAll_def timer_key_def web_storage.del_many)
  with inv show ?thesis by (simp add: cache_inv_def) (simp add: clearAll_def getItem_def)
qed

section \<open>The autosave hook\<close>

record autosave =
  as_key :: jsstr
  latestDraft :: EditorDraft
  discardedDraft :: "EditorDraft option"
  as_cache :: cache

definition sameDraft :: "EditorDraft \<Rightarrow> EditorDraft \<Rightarrow> bool" where
  "sameDraft left right \<longleftrightarrow>
     draft_content left = draft_content right \<and> draft_location left = draft_location right
     \<and> length (draft_attachments left) = length (draft_attachments right)
     \<and> list_all2 (=) (draft_attachments left) (draft_attachments right)"

definition or_null :: "Location option option \<Rightarrow> Location option" where
  "or_null l = (case l of None \<Rightarrow> None | Some x \<Rightarrow> x)"

definition persist :: "EditorDraft \<Rightarrow> autosave \<Rightarrow> autosave" where
  "persist draft s =
     s\<lparr>latestDraft := draft,
       discardedDraft := (case discardedDraft s of
          Some d \<Rightarrow> if \<not> sameDraft d draft then None else Some d | None \<Rightarrow> None),
       as_cache := cache_save (as_key s) (draft_content draft) (draft_attachments draft)
                     (or_null (draft_location draft)) (as_cache s)\<rparr>"

text \<open>The subscription of the store.\<close>

definition store_changed :: "EditorDraft \<Rightarrow> autosave \<Rightarrow> autosave" where
  "store_changed draft s = (if \<not> sameDraft draft (latestDraft s) then persist draft s else s)"

definition flushDraft :: "autosave \<Rightarrow> autosave" where
  "flushDraft s =
     (if (case discardedDraft s of None \<Rightarrow> False | Some d \<Rightarrow> sameDraft d (latestDraft s)) then s
      else s\<lparr>as_cache := saveNow (as_key s) (draft_content (latestDraft s))
               (draft_attachments (latestDraft s)) (or_null (draft_location (latestDraft s))) (as_cache s)\<rparr>)"

definition discardDraft :: "autosave \<Rightarrow> autosave" where
  "discardDraft s = s\<lparr>discardedDraft := Some (latestDraft s), as_cache := cache_clear (as_key s) (as_cache s)\<rparr>"

lemma sameDraft_eq [simp]: "sameDraft a b \<longleftrightarrow> a = b"
  by (cases a; cases b) (auto simp: sameDraft_def list_all2_eq [symmetric])

section \<open>Runs\<close>

datatype cache_op =
    Save jsstr jsstr "Attachment list" "Location option"
  | SaveNow jsstr jsstr "Attachment list" "Location option"
  | Fire nat | SaveCursor jsstr nat | Clear jsstr | ClearAll

fun cache_run :: "cache_op \<Rightarrow> cache \<Rightarrow> cache" where
  "cache_run (Save k t a l) c = cache_save k t a l c"
| "cache_run (SaveNow k t a l) c = saveNow k t a l c"
| "cache_run (Fire i) c = timer_fires i c"
| "cache_run (SaveCursor k n) c = saveCursor k n c"
| "cache_run (Clear k) c = cache_clear k c"
| "cache_run ClearAll c = clearAll c"

lemma cache_run_inv [inv_intros]: "cache_inv c \<Longrightarrow> cache_inv (cache_run op c)"
  by (cases op) (simp_all add: inv_intros)

lemma cache_runs_inv: "cache_inv c \<Longrightarrow> cache_inv (fold cache_run ops c)"
  by (induction ops arbitrary: c) (simp_all add: inv_intros)

lemma deserialize_serialize:
  "deserializeDraft text (serializeDraft c a l) =
     \<lparr>draft_content = c, draft_attachments = a, draft_location = Some l\<rparr>"
  by (auto simp: deserializeDraft_def serializeDraft_def STRUCTURED_CACHE_ENTRY_VERSION_def
      List.map_filter_def split: option.splits)

lemma getItem_writeEntry:
  "getItem (drafts (writeEntry w c)) k =
     (if k = dw_key w then
        (if trim (dw_content w) \<noteq> [] \<or> dw_attachments w \<noteq> []
         then Some (serializeDraft (dw_content w) (dw_attachments w) (dw_location w)) else None)
      else getItem (drafts c) k)"
  by (simp add: writeEntry_def)

section \<open>Properties\<close>

text \<open>In every run of saves, immediate saves, timers, cursor updates and clears a key has at most one
  live timer, and that timer is the pending save on record for the key.\<close>

theorem one_timer_per_key:
  assumes "c = fold cache_run ops empty_cache" "timer_key c i = Some k"
  shows "getItem (pendingSaves c) k = Some i \<and> (\<forall>j. timer_key c j = Some k \<longrightarrow> j = i)"
  using cache_runs_inv [OF empty_cache_inv, of ops] assms cache_invD(1) timer_unique by blast

theorem one_timer_per_key_witness:
  "timer_key (fold cache_run [Save [1] [65] [] None, Save [1] [66] [] None] empty_cache) 2 = Some [1]
   \<and> getItem (pendingSaves (fold cache_run [Save [1] [65] [] None, Save [1] [66] [] None] empty_cache)) [1] = Some 2"
proof -
  have k: "timer_key (fold cache_run [Save [1] [65] [] None, Save [1] [66] [] None] empty_cache) 2 = Some [1]"
    by (simp add: timer_key_save cache_save_inv empty_cache_inv) (simp add: empty_cache_def)
  show ?thesis using one_timer_per_key [OF refl k] k by blast
qed

text \<open>The debounce keeps the last draft: after a save the timer of an older save of the same key no
  longer writes, and when the new timer fires the stored entry is the new draft (or none, when the
  draft is blank and has no attachment) and no other key changes.\<close>

theorem debounce_last_wins:
  assumes "cache_inv c" "k' \<noteq> k"
  shows "(timer_key c i = Some k \<longrightarrow> drafts (timer_fires i (cache_save k t a l c)) = drafts c)
    \<and> getItem (drafts (timer_fires (next_timer c) (cache_save k t a l c))) k =
        (if trim t \<noteq> [] \<or> a \<noteq> [] then Some (serializeDraft t a l) else None)
    \<and> getItem (drafts (timer_fires (next_timer c) (cache_save k t a l c))) k' = getItem (drafts c) k'"
proof -
  have new: "getItem (timers (cache_save k t a l c)) (next_timer c) =
      Some \<lparr>dw_key = k, dw_content = t, dw_attachments = a, dw_location = l\<rparr>"
    by (simp add: cache_save_def Let_def)
  have "timer_key c i = Some k \<longrightarrow> drafts (timer_fires i (cache_save k t a l c)) = drafts c"
  proof
    assume i: "timer_key c i = Some k"
    then have "i \<noteq> next_timer c" using assms(1) by (auto simp: cache_inv_def)
    with i have "timer_key (cache_save k t a l c) i = None" using timer_key_save [OF assms(1)] by simp
    then show "drafts (timer_fires i (cache_save k t a l c)) = drafts c"
      by (simp add: timer_fires_def timer_key_def)
  qed
  moreover have "getItem (drafts (timer_fires (next_timer c) (cache_save k t a l c))) k =
      (if trim t \<noteq> [] \<or> a \<noteq> [] then Some (serializeDraft t a l) else None)"
    "getItem (drafts (timer_fires (next_timer c) (cache_save k t a l c))) k' = getItem (drafts c) k'"
    using assms(2) by (simp_all add: timer_fires_def new getItem_writeEntry)
  ultimately show ?thesis by blast
qed

theorem debounce_last_wins_witness:
  "cache_inv empty_cache \<and>
   getItem (drafts (timer_fires (next_timer empty_cache) (cache_save [1] [65] [] None empty_cache))) [1] =
     Some (serializeDraft [65] [] None)"
  using debounce_last_wins [of empty_cache "[2]" "[1]" 0 "[65]" "[]" None] empty_cache_inv
  by (simp add: trim_def trimStart_def trimEnd_def isWhiteSpace_def)

text \<open>A draft that is flushed is loaded back unchanged, text, attachments and location, unless it is
  blank and has no attachment; then nothing is stored.\<close>

theorem flushed_draft_loads:
  assumes "discardedDraft s \<noteq> Some (latestDraft s)" "draft_location (latestDraft s) = Some loc"
  shows "loadDraft text (as_key s) (as_cache (flushDraft s)) =
    (if trim (draft_content (latestDraft s)) \<noteq> [] \<or> draft_attachments (latestDraft s) \<noteq> []
     then latestDraft s
     else \<lparr>draft_content = [], draft_attachments = [], draft_location = None\<rparr>)"
  using assms
  by (cases "latestDraft s")
     (auto simp: flushDraft_def saveNow_def loadDraft_def getItem_writeEntry deserialize_serialize or_null_def
        split: option.splits)

theorem flushed_draft_loads_witness:
  "loadDraft (\<lambda>_. []) [1] (as_cache (flushDraft \<lparr>as_key = [1],
      latestDraft = \<lparr>draft_content = [65], draft_attachments = [], draft_location = Some None\<rparr>,
      discardedDraft = None, as_cache = empty_cache\<rparr>)) =
    \<lparr>draft_content = [65], draft_attachments = [], draft_location = Some None\<rparr>"
  using flushed_draft_loads [of "\<lparr>as_key = [1],
      latestDraft = \<lparr>draft_content = [65], draft_attachments = [], draft_location = Some None\<rparr>,
      discardedDraft = None, as_cache = empty_cache\<rparr>" None "\<lambda>_. []"]
  by (simp add: trim_def trimStart_def trimEnd_def isWhiteSpace_def)

text \<open>A discarded draft stays discarded: store notifications that do not change it and flushes (page
  hide, unmount) neither store it again nor leave a timer that would.\<close>

theorem discarded_stays_discarded:
  assumes "cache_inv (as_cache s)" "s' = ((\<lambda>s. flushDraft (store_changed (latestDraft s) s)) ^^ n) (discardDraft s)"
  shows "getItem (drafts (as_cache s')) (as_key s) = None
    \<and> (\<forall>i. timer_key (as_cache s') i \<noteq> Some (as_key s))"
proof -
  have "flushDraft (store_changed (latestDraft (discardDraft s)) (discardDraft s)) = discardDraft s"
    by (simp add: flushDraft_def store_changed_def discardDraft_def)
  then have "((\<lambda>s. flushDraft (store_changed (latestDraft s) s)) ^^ n) (discardDraft s) = discardDraft s"
    by (induction n) simp_all
  then have s': "s' = discardDraft s" using assms(2) by simp
  have inv: "cache_inv (as_cache s')" using assms(1) s' by (simp add: discardDraft_def inv_intros)
  have "getItem (pendingSaves (as_cache s')) (as_key s) = None"
    using assms(1) by (auto simp: s' discardDraft_def cache_clear_def Let_def dropPending_eq split: option.splits)
  then show ?thesis using cache_invD(1) [OF inv] by (auto simp: s' discardDraft_def cache_clear_def Let_def)
qed

theorem discarded_stays_discarded_witness:
  "getItem (drafts (as_cache (flushDraft (store_changed
      \<lparr>draft_content = [65], draft_attachments = [], draft_location = Some None\<rparr>
      (discardDraft \<lparr>as_key = [1],
        latestDraft = \<lparr>draft_content = [65], draft_attachments = [], draft_location = Some None\<rparr>,
        discardedDraft = None, as_cache = cache_save [1] [65] [] None empty_cache\<rparr>))))) [1] = None"
  using discarded_stays_discarded [of "\<lparr>as_key = [1],
        latestDraft = \<lparr>draft_content = [65], draft_attachments = [], draft_location = Some None\<rparr>,
        discardedDraft = None, as_cache = cache_save [1] [65] [] None empty_cache\<rparr>" _ 1]
    cache_save_inv [OF empty_cache_inv]
  by (simp add: discardDraft_def)

end
