(* ===== verification/Upload_Service.thy ===== *)
theory Upload_Service
  imports Editor_State
begin

text \<open>
  Uploading local files, \<^verbatim>\<open>web/src/components/MemoEditor/services/uploadService.ts\<close>: the chunked upload
  of one file with its retries, and the pool of at most four concurrent uploads. The upload RPC and
  the abort signal are fields of \<open>upload_env\<close> over an arbitrary state of the server.
\<close>

section \<open>Uploading one file\<close>

datatype upload_error = Unavailable | RpcFailure | UploadAborted | ProtocolError string

datatype upload_request =
    UploadSpec Attachment nat
  | UploadChunk jsstr nat "nat list" bool

record upload_response =
  up_uploadId :: jsstr
  up_committedSize :: int
  up_maxChunkSize :: int
  up_attachment :: "Attachment option"

record 'w upload_env =
  uploadAttachment :: "upload_request \<Rightarrow> 'w \<Rightarrow> (upload_error + upload_response) \<times> 'w"
  signal_aborted :: "'w \<Rightarrow> bool"

definition DEFAULT_CHUNK_SIZE :: nat where "DEFAULT_CHUNK_SIZE = 2 * 1024 * 1024"
definition MAX_CONCURRENT_UPLOADS :: nat where "MAX_CONCURRENT_UPLOADS = 4"

text \<open>The retry loop; \<open>retries\<close> is the number of attempts that may still follow, \<open>2 - attempt\<close>.\<close>

fun sendAttempts ::
  "'w upload_env \<Rightarrow> upload_request \<Rightarrow> nat \<Rightarrow> 'w \<Rightarrow> (upload_error + upload_response) \<times> 'w" where
  "sendAttempts E request retries w =
     (case uploadAttachment E request w of
        (Inr response, w') \<Rightarrow> (Inr response, w')
      | (Inl error, w') \<Rightarrow>
          if signal_aborted E w' \<or> error \<noteq> Unavailable \<or> retries = 0 then (Inl error, w')
          else sendAttempts E request (retries - 1) w')"

declare sendAttempts.simps [simp del]

definition chunk_request :: "File \<Rightarrow> jsstr \<Rightarrow> nat \<Rightarrow> nat \<Rightarrow> upload_request" where
  "chunk_request file uploadId offset end' =
     UploadChunk uploadId offset (slice (file_bytes file) offset end') (end' = file_size file)"

text \<open>The loop over the chunks. Its chunk size is positive wherever it is called; a size of zero would
  never end in the source and is cut off here.\<close>

function uploadLoop ::
  "'w upload_env \<Rightarrow> File \<Rightarrow> jsstr \<Rightarrow> nat \<Rightarrow> nat \<Rightarrow> 'w \<Rightarrow> (upload_error + Attachment) \<times> 'w" where
  "uploadLoop E file uploadId chunkSize offset w =
     (if signal_aborted E w then (Inl UploadAborted, w)
      else let end' = min (offset + chunkSize) (file_size file);
               finishWrite = (end' = file_size file)
           in case sendAttempts E (chunk_request file uploadId offset end') 2 w of
                (Inl error, w') \<Rightarrow> (Inl error, w')
              | (Inr response, w') \<Rightarrow>
                  if up_committedSize response \<noteq> int end' then (Inl (ProtocolError ''Unexpected upload offset''), w')
                  else if finishWrite then
                    (case up_attachment response of
                       None \<Rightarrow> (Inl (ProtocolError ''Upload completed without an attachment''), w')
                     | Some a \<Rightarrow> (Inr a, w'))
                  else if chunkSize = 0 then (Inl (ProtocolError ''no progress''), w')
                  else uploadLoop E file uploadId chunkSize end' w')"
  by pat_completeness auto
termination
  by (relation "measure (\<lambda>(_, file, _, _, offset, _). file_size file - offset)") auto

declare uploadLoop.simps [simp del]

definition upload_spec :: "LocalFile \<Rightarrow> upload_request" where
  "upload_spec localFile =
     UploadSpec (empty_attachment\<lparr>att_filename := file_name (lf_file localFile),
         att_type := file_type (lf_file localFile), att_motionMedia := lf_motionMedia localFile,
         att_mediaMetadata := lf_mediaMetadata localFile\<rparr>)
       (file_size (lf_file localFile))"

definition uploadFile :: "'w upload_env \<Rightarrow> LocalFile \<Rightarrow> 'w \<Rightarrow> (upload_error + Attachment) \<times> 'w" where
  "uploadFile E localFile w =
     (case uploadAttachment E (upload_spec localFile) w of
        (Inl error, w') \<Rightarrow> (Inl error, w')
      | (Inr initial, w') \<Rightarrow>
          if up_uploadId initial = [] \<or> up_committedSize initial \<noteq> 0 \<or> up_maxChunkSize initial \<le> 0
          then (Inl (ProtocolError ''Invalid upload initialization response''), w')
          else uploadLoop E (lf_file localFile) (up_uploadId initial)
                 (min (nat (up_maxChunkSize initial)) DEFAULT_CHUNK_SIZE) 0 w')"

section \<open>The chunks of a file\<close>

text \<open>The declarative list of the writes: consecutive slices of the chosen size, the last one short or
  full and marked as the end.\<close>

definition chunk_count :: "File \<Rightarrow> nat \<Rightarrow> nat" where
  "chunk_count f n = (if file_size f = 0 then 1 else (file_size f + n - 1) div n)"

definition chunks :: "File \<Rightarrow> jsstr \<Rightarrow> nat \<Rightarrow> upload_request list" where
  "chunks f uid n =
     map (\<lambda>i. chunk_request f uid (i * n) (min (i * n + n) (file_size f))) [0..<chunk_count f n]"

fun chunk_data :: "upload_request \<Rightarrow> nat list" where
  "chunk_data (UploadChunk _ _ d _) = d"
| "chunk_data (UploadSpec _ _) = []"

text \<open>Sending a list of writes in order, each acknowledged with its end before the next goes out.\<close>

fun sendAll ::
  "'w upload_env \<Rightarrow> (upload_request \<times> nat \<times> bool) list \<Rightarrow> 'w \<Rightarrow> (upload_error + Attachment) \<times> 'w" where
  "sendAll E [] w = (Inl (ProtocolError ''no progress''), w)"
| "sendAll E ((request, end', finishWrite) # rest) w =
     (if signal_aborted E w then (Inl UploadAborted, w)
      else case sendAttempts E request 2 w of
             (Inl error, w') \<Rightarrow> (Inl error, w')
           | (Inr response, w') \<Rightarrow>
               if up_committedSize response \<noteq> int end' then (Inl (ProtocolError ''Unexpected upload offset''), w')
               else if finishWrite then
                 (case up_attachment response of
                    None \<Rightarrow> (Inl (ProtocolError ''Upload completed without an attachment''), w')
                  | Some a \<Rightarrow> (Inr a, w'))
               else sendAll E rest w')"

definition annotated :: "File \<Rightarrow> jsstr \<Rightarrow> nat \<Rightarrow> nat \<Rightarrow> (upload_request \<times> nat \<times> bool) list" where
  "annotated f uid n j =
     map (\<lambda>i. let e = min (i * n + n) (file_size f)
              in (chunk_request f uid (i * n) e, e, e = file_size f)) [j..<chunk_count f n]"

lemma chunk_count_pos: "0 < n \<Longrightarrow> 0 < chunk_count f n"
  by (auto simp: chunk_count_def div_greater_zero_iff)

lemma last_chunk:
  assumes "0 < n" "j < chunk_count f n"
  shows "min (j * n + n) (file_size f) = file_size f \<longleftrightarrow> Suc j = chunk_count f n"
proof (cases "file_size f = 0")
  case True
  then show ?thesis using assms by (simp add: chunk_count_def)
next
  case False
  let ?s = "file_size f"
  have c: "chunk_count f n = (?s + n - 1) div n" using False by (simp add: chunk_count_def)
  have "?s \<le> j * n + n \<longleftrightarrow> ?s + n - 1 < Suc (Suc j) * n" using assms(1) False by (simp add: algebra_simps) linarith
  also have "\<dots> \<longleftrightarrow> chunk_count f n < Suc (Suc j)" unfolding c using assms(1) by (simp add: div_less_iff_less_mult)
  also have "\<dots> \<longleftrightarrow> Suc j = chunk_count f n" using assms(2) by linarith
  finally have "?s \<le> j * n + n \<longleftrightarrow> Suc j = chunk_count f n" .
  then show ?thesis by (metis min.absorb_iff2)
qed

lemma uploadLoop_sendAll:
  assumes "0 < n" "j < chunk_count f n"
  shows "uploadLoop E f uid n (j * n) w = sendAll E (annotated f uid n j) w"
  using assms(2)
proof (induction "chunk_count f n - j" arbitrary: j w rule: less_induct)
  case less
  let ?e = "min (j * n + n) (file_size f)"
  have cons: "annotated f uid n j =
      (chunk_request f uid (j * n) ?e, ?e, ?e = file_size f) # annotated f uid n (Suc j)"
    using less.prems by (simp add: annotated_def upt_conv_Cons Let_def)
  note lc = last_chunk [OF assms(1) less.prems]
  show ?case
  proof (cases "?e = file_size f")
    case True
    then show ?thesis unfolding cons
      by (subst uploadLoop.simps) (simp add: Let_def split: prod.splits sum.splits option.splits)
  next
    case False
    then have j: "Suc j < chunk_count f n" using lc less.prems by linarith
    have e: "?e = Suc j * n" using False by (simp add: min_def algebra_simps split: if_splits)
    have IH: "\<And>w. uploadLoop E f uid n (Suc j * n) w = sendAll E (annotated f uid n (Suc j)) w"
      using less.hyps [of "Suc j"] j by simp
    show ?thesis unfolding cons
      using False assms(1) IH e
      by (subst uploadLoop.simps) (simp add: Let_def split: prod.splits sum.splits)
  qed
qed

lemma chunk_data_prefix:
  assumes "0 < n" "j \<le> chunk_count f n"
  shows "concat (map chunk_data (map (\<lambda>i. chunk_request f uid (i * n) (min (i * n + n) (file_size f))) [0..<j]))
    = slice (file_bytes f) 0 (min (j * n) (file_size f))"
  using assms(2)
proof (induction j)
  case (Suc j)
  let ?b = "file_bytes f"
  have "slice ?b (j * n) (min (j * n + n) (file_size f)) =
      slice ?b (min (j * n) (file_size f)) (min (j * n + n) (file_size f))"
    by (cases "j * n \<le> file_size f") (auto simp: slice_def file_size_def min_def)
  moreover have "slice ?b 0 (min (j * n) (file_size f)) @
      slice ?b (min (j * n) (file_size f)) (min (j * n + n) (file_size f)) =
      slice ?b 0 (min (j * n + n) (file_size f))"
    by (rule slice_append) auto
  ultimately show ?case using Suc by (simp add: chunk_request_def add.commute)
qed (simp add: slice_def)

lemma chunk_length: "length (chunk_data (chunk_request f uid k (min (k + n) m))) \<le> n"
  by (auto simp: chunk_request_def slice_def min_le_iff_disj)

lemma chunks_length: "\<forall>r \<in> set (chunks f uid n). length (chunk_data r) \<le> n"
  using chunk_length by (auto simp: chunks_def)

lemma chunks_cover: "0 < n \<Longrightarrow> concat (map chunk_data (chunks f uid n)) = file_bytes f"
proof -
  assume n: "0 < n"
  have "file_size f \<le> chunk_count f n * n"
  proof (cases "file_size f = 0")
    case False
    have "file_size f + n - 1 < Suc (chunk_count f n) * n"
      using n False by (simp add: chunk_count_def) (metis Suc_pred add_gr_0 dividend_less_div_times mult.commute)
    then show ?thesis using False by (simp add: algebra_simps)
  qed simp
  then have "min (chunk_count f n * n) (file_size f) = file_size f" by simp
  then show ?thesis using chunk_data_prefix [OF n order_refl, of f uid]
    by (simp add: chunks_def slice_def file_size_def)
qed

section \<open>The pool of uploads\<close>

text \<open>\<open>uploadFiles\<close>: the workers share the counter \<open>next\<close>; \<open>pool_inflight\<close> lists the indices being
  uploaded, \<open>pool_results\<close> is the array of the attachments.\<close>

record upload_pool =
  pool_next :: nat
  pool_inflight :: "nat list"
  pool_results :: "Attachment option list"

definition pool_start :: "LocalFile list \<Rightarrow> upload_pool" where
  "pool_start files =
     (let k = min MAX_CONCURRENT_UPLOADS (length files)
      in \<lparr>pool_next = k, pool_inflight = [0..<k], pool_results = replicate (length files) None\<rparr>)"

text \<open>A worker whose upload ends stores the attachment and takes the next index, if any.\<close>

definition pool_finish :: "LocalFile list \<Rightarrow> (LocalFile \<Rightarrow> Attachment) \<Rightarrow> nat \<Rightarrow> upload_pool \<Rightarrow> upload_pool" where
  "pool_finish files up i p =
     \<lparr>pool_next = pool_next p + 1,
      pool_inflight = remove1 i (pool_inflight p) @ (if pool_next p < length files then [pool_next p] else []),
      pool_results = (pool_results p)[i := Some (up (files ! i))]\<rparr>"

inductive pool_step :: "LocalFile list \<Rightarrow> (LocalFile \<Rightarrow> Attachment) \<Rightarrow> upload_pool \<Rightarrow> upload_pool \<Rightarrow> bool"
  for files up where
  finish: "i \<in> set (pool_inflight p) \<Longrightarrow> pool_step files up p (pool_finish files up i p)"

inductive_cases pool_stepE: "pool_step files up p p'"

definition pool_inv :: "LocalFile list \<Rightarrow> (LocalFile \<Rightarrow> Attachment) \<Rightarrow> upload_pool \<Rightarrow> bool" where
  "pool_inv files up p \<longleftrightarrow> distinct (pool_inflight p)
     \<and> length (pool_inflight p) \<le> MAX_CONCURRENT_UPLOADS
     \<and> length (pool_results p) = length files
     \<and> (pool_inflight p = [] \<longrightarrow> length files \<le> pool_next p)
     \<and> set (pool_inflight p) \<subseteq> {i. i < length files \<and> i < pool_next p}
     \<and> (\<forall>i < length files. pool_results p ! i =
          (if i < pool_next p \<and> i \<notin> set (pool_inflight p) then Some (up (files ! i)) else None))"

lemma pool_start_inv: "pool_inv files up (pool_start files)"
  by (auto simp: pool_inv_def pool_start_def Let_def MAX_CONCURRENT_UPLOADS_def min_def split: if_splits)

lemma pool_finish_inv [inv_intros]:
  assumes "pool_inv files up p" "i \<in> set (pool_inflight p)"
  shows "pool_inv files up (pool_finish files up i p)"
proof -
  have s: "set (remove1 i (pool_inflight p)) = set (pool_inflight p) - {i}" "i < length files" "i < pool_next p"
    using assms by (auto simp: pool_inv_def)
  have l: "length (remove1 i (pool_inflight p)) = length (pool_inflight p) - 1"
    using assms(2) by (simp add: length_remove1)
  have r: "pool_results (pool_finish files up i p) ! j =
      (if j < pool_next (pool_finish files up i p) \<and> j \<notin> set (pool_inflight (pool_finish files up i p))
       then Some (up (files ! j)) else None)" if "j < length files" for j
    using assms that s by (auto simp: pool_inv_def pool_finish_def nth_list_update)
  have "length (pool_inflight (pool_finish files up i p)) \<le> length (pool_inflight p)"
    using l assms(2) length_pos_if_in_set [OF assms(2)] by (auto simp: pool_finish_def)
  then have "length (pool_inflight (pool_finish files up i p)) \<le> MAX_CONCURRENT_UPLOADS"
    using assms(1) by (auto simp: pool_inv_def)
  moreover have "distinct (pool_inflight (pool_finish files up i p))"
    using assms(1) s by (auto simp: pool_inv_def pool_finish_def)
  ultimately show ?thesis using assms(1) s r
    by (auto simp: pool_inv_def [of _ _ "pool_finish _ _ _ _"])
       (auto simp: pool_inv_def pool_finish_def split: if_splits)
qed

lemma pool_reachable_inv: "(pool_step files up)\<^sup>*\<^sup>* (pool_start files) p \<Longrightarrow> pool_inv files up p"
  by (induction rule: rtranclp_induct) (auto simp: pool_start_inv elim!: pool_stepE intro: pool_finish_inv)

section \<open>Properties\<close>

text \<open>C9. Uploading a file is the announcement followed by its chunks in order, each acknowledged before
  the next is sent: for every server, a valid announcement makes the upload equal to sending the
  consecutive slices of the file, whose concatenation is the file, of at most two mebibytes and at
  most the size the server allows. The upload always returns.\<close>

theorem uploadFile_sends_file:
  assumes "uploadAttachment E (upload_spec lf) w = (Inr initial, w')"
    and "up_uploadId initial \<noteq> []" "up_committedSize initial = 0" "0 < up_maxChunkSize initial"
  shows "\<exists>n. 0 < n \<and> n \<le> DEFAULT_CHUNK_SIZE \<and> int n \<le> up_maxChunkSize initial
    \<and> uploadFile E lf w = sendAll E (annotated (lf_file lf) (up_uploadId initial) n 0) w'
    \<and> map fst (annotated (lf_file lf) (up_uploadId initial) n 0) = chunks (lf_file lf) (up_uploadId initial) n
    \<and> concat (map chunk_data (chunks (lf_file lf) (up_uploadId initial) n)) = file_bytes (lf_file lf)
    \<and> (\<forall>r \<in> set (chunks (lf_file lf) (up_uploadId initial) n). length (chunk_data r) \<le> n)"
proof -
  let ?n = "min (nat (up_maxChunkSize initial)) DEFAULT_CHUNK_SIZE"
  let ?f = "lf_file lf" and ?u = "up_uploadId initial"
  have n: "0 < ?n" using assms(4) by (simp add: DEFAULT_CHUNK_SIZE_def)
  have "uploadFile E lf w = uploadLoop E ?f ?u ?n (0 * ?n) w'"
    using assms by (simp add: uploadFile_def)
  also have "\<dots> = sendAll E (annotated ?f ?u ?n 0) w'"
    by (rule uploadLoop_sendAll [OF n chunk_count_pos [OF n]])
  finally have "uploadFile E lf w = sendAll E (annotated ?f ?u ?n 0) w'" .
  moreover have "map fst (annotated ?f ?u ?n 0) = chunks ?f ?u ?n"
    by (simp add: annotated_def chunks_def Let_def)
  moreover have "\<forall>r \<in> set (chunks ?f ?u ?n). length (chunk_data r) \<le> ?n"
    by (rule chunks_length)
  moreover have "int ?n \<le> up_maxChunkSize initial" using assms(4) by simp
  ultimately show ?thesis using n chunks_cover [OF n] by (intro exI [of _ ?n]) simp
qed


definition demo_file :: LocalFile where
  "demo_file = \<lparr>lf_file = \<lparr>file_name = [], file_type = [], file_bytes = [1, 2, 3]\<rparr>, lf_previewUrl = [],
     lf_origin = None, lf_durationSeconds = None, lf_motionMedia = None, lf_mediaMetadata = None\<rparr>"


definition demo_server :: "unit upload_env" where
  "demo_server = \<lparr>uploadAttachment = (\<lambda>r w. (Inr \<lparr>up_uploadId = [1], up_committedSize = 0,
     up_maxChunkSize = 2, up_attachment = None\<rparr>, w)), signal_aborted = (\<lambda>_. False)\<rparr>"

theorem uploadFile_sends_file_witness:
  "\<exists>n. 0 < n \<and> int n \<le> 2
    \<and> uploadFile demo_server demo_file () = sendAll demo_server (annotated (lf_file demo_file) [1] n 0) ()
    \<and> concat (map chunk_data (chunks (lf_file demo_file) [1] n)) = [1, 2, 3]"
  using uploadFile_sends_file [of demo_server demo_file "()"]
  by (auto simp: demo_server_def demo_file_def)

end
