(* ===== verification/Memo_Save.thy ===== *)
theory Memo_Save
  imports Editor_State Draft_Cache Upload_Service
begin

text \<open>
  Saving a memo: the update mask and the requests of
  \<^verbatim>\<open>web/src/components/MemoEditor/services/memoService.ts\<close>, the relations of
  \<^verbatim>\<open>web/src/components/MemoMetadata/Relation/relationHelpers.ts\<close> and the save transaction of
  \<^verbatim>\<open>web/src/components/MemoEditor/hooks/useMemoSave.ts\<close>. The RPC clients, the upload of the local files
  and the conversions between protobuf time stamps and dates are fields of \<open>memo_api\<close>.
\<close>

section \<open>Relations\<close>

datatype RelationDirection = referencing | referenced

definition isReferenceRelation :: "MemoRelation \<Rightarrow> bool" where
  "isReferenceRelation relation \<longleftrightarrow> rel_type relation = REFERENCE"

definition getEditorReferenceRelations :: "MemoRelation list \<Rightarrow> jsstr option \<Rightarrow> MemoRelation list" where
  "getEditorReferenceRelations relations memoName =
     filter (\<lambda>relation. isReferenceRelation relation \<and>
        (\<not> truthy memoName \<or> \<not> truthy (map_option rm_name (rel_memo relation))
         \<or> map_option rm_name (rel_memo relation) = memoName)) relations"

definition getRelationBuckets :: "MemoRelation list \<Rightarrow> jsstr option \<Rightarrow> MemoRelation list \<times> MemoRelation list" where
  "getRelationBuckets relations currentMemoName =
     foldl (\<lambda>(out, inc) relation.
        let m = map_option rm_name (rel_memo relation); r = map_option rm_name (rel_relatedMemo relation)
        in if \<not> isReferenceRelation relation then (out, inc)
           else if m = currentMemoName \<and> r \<noteq> currentMemoName then (out @ [relation], inc)
           else if m \<noteq> currentMemoName \<and> r = currentMemoName then (out, inc @ [relation])
           else (out, inc)) ([], []) relations"

definition getRelationMemo :: "MemoRelation \<Rightarrow> RelationDirection \<Rightarrow> MemoRelation_Memo option" where
  "getRelationMemo relation direction =
     (if direction = referencing then rel_relatedMemo relation else rel_memo relation)"

definition getRelationMemoName :: "MemoRelation \<Rightarrow> RelationDirection \<Rightarrow> jsstr" where
  "getRelationMemoName relation direction =
     (case getRelationMemo relation direction of None \<Rightarrow> [] | Some m \<Rightarrow> rm_name m)"

section \<open>The update mask\<close>

record memo_patch =
  patch_name :: jsstr
  patch_content :: jsstr
  patch_visibility :: "Visibility option"
  patch_attachments :: "Attachment list option"
  patch_relations :: "MemoRelation list option"
  patch_location :: "Location option option"
  patch_createTime :: "timestamp option"
  patch_updateTime :: "timestamp option"

record 'w memo_api =
  timestampDate :: "timestamp \<Rightarrow> int"
  timestampFromDate :: "int \<Rightarrow> timestamp"
  api_uploadFiles :: "LocalFile list \<Rightarrow> 'w \<Rightarrow> (upload_error + Attachment list) \<times> 'w"
  api_getMemo :: "jsstr \<Rightarrow> 'w \<Rightarrow> (upload_error + Memo) \<times> 'w"
  api_updateMemo :: "memo_patch \<Rightarrow> jsstr list \<Rightarrow> 'w \<Rightarrow> (upload_error + Memo) \<times> 'w"
  api_createMemo :: "Memo \<Rightarrow> 'w \<Rightarrow> (upload_error + Memo) \<times> 'w"
  api_createMemoComment :: "jsstr \<Rightarrow> Memo \<Rightarrow> 'w \<Rightarrow> (upload_error + Memo) \<times> 'w"

definition toAttachmentReferences :: "Attachment list \<Rightarrow> Attachment list" where
  "toAttachmentReferences attachments = map (\<lambda>a. empty_attachment\<lparr>att_name := att_name a\<rparr>) attachments"

definition mask_if :: "bool \<Rightarrow> string \<Rightarrow> jsstr list \<Rightarrow> jsstr list" where
  "mask_if b f m = (if b then set_add (js f) m else m)"

definition buildUpdateMask ::
  "'w memo_api \<Rightarrow> Memo \<Rightarrow> EditorState \<Rightarrow> Attachment list \<Rightarrow> jsstr list \<times> memo_patch" where
  "buildUpdateMask A prevMemo state allAttachments =
     (let contentChanged = (content state \<noteq> memo_content prevMemo);
          visibilityChanged = (meta_visibility (metadata state) \<noteq> memo_visibility prevMemo);
          attachmentsChanged = (allAttachments \<noteq> memo_attachments prevMemo);
          previousReferenceRelations = getEditorReferenceRelations (memo_relations prevMemo) (Some (memo_name prevMemo));
          nextReferenceRelations = getEditorReferenceRelations (meta_relations (metadata state)) (Some (memo_name prevMemo));
          relationsChanged = (nextReferenceRelations \<noteq> previousReferenceRelations);
          locationChanged = (meta_location (metadata state) \<noteq> memo_location prevMemo);
          mask1 = mask_if locationChanged ''location'' (mask_if relationsChanged ''relations''
                    (mask_if attachmentsChanged ''attachments'' (mask_if visibilityChanged ''visibility''
                      (mask_if contentChanged ''content'' []))));
          mask2 = mask_if (list_ex (\<lambda>key. js key \<in> set mask1) [''content'', ''attachments'', ''relations'', ''location''])
                    ''update_time'' mask1;
          createChanged = (case ts_createTime (timestamps state) of None \<Rightarrow> False
             | Some t \<Rightarrow> Some t \<noteq> map_option (timestampDate A) (memo_createTime prevMemo));
          updateChanged = (case ts_updateTime (timestamps state) of None \<Rightarrow> False
             | Some t \<Rightarrow> Some t \<noteq> map_option (timestampDate A) (memo_updateTime prevMemo));
          mask3 = mask_if updateChanged ''update_time'' (mask_if createChanged ''create_time'' mask2)
      in (mask3,
          \<lparr>patch_name = memo_name prevMemo, patch_content = content state,
           patch_visibility = (if visibilityChanged then Some (meta_visibility (metadata state)) else None),
           patch_attachments = (if attachmentsChanged then Some (toAttachmentReferences allAttachments) else None),
           patch_relations = (if relationsChanged then Some nextReferenceRelations else None),
           patch_location = (if locationChanged then Some (meta_location (metadata state)) else None),
           patch_createTime = (if createChanged
              then map_option (timestampFromDate A) (ts_createTime (timestamps state)) else None),
           patch_updateTime = (if updateChanged
              then map_option (timestampFromDate A) (ts_updateTime (timestamps state)) else None)\<rparr>))"

section \<open>Requests\<close>

record save_options =
  opt_memoName :: "jsstr option"
  opt_parentMemoName :: "jsstr option"
  opt_space :: "jsstr option"

record save_result =
  res_memoName :: jsstr
  res_hasChanges :: bool
  res_memo :: "Memo option"

definition memoData :: "'w memo_api \<Rightarrow> EditorState \<Rightarrow> save_options \<Rightarrow> Attachment list \<Rightarrow> Memo" where
  "memoData A state options allAttachments =
     empty_memo\<lparr>memo_content := content state, memo_visibility := meta_visibility (metadata state),
       memo_attachments := toAttachmentReferences allAttachments,
       memo_relations := meta_relations (metadata state), memo_location := meta_location (metadata state),
       memo_createTime := map_option (timestampFromDate A) (ts_createTime (timestamps state)),
       memo_updateTime := map_option (timestampFromDate A) (ts_updateTime (timestamps state)),
       memo_space := (if truthy (opt_parentMemoName options) then None else opt_space options)\<rparr>"

definition save ::
  "'w memo_api \<Rightarrow> EditorState \<Rightarrow> save_options \<Rightarrow> 'w \<Rightarrow> (upload_error + save_result) \<times> 'w" where
  "save A state options w =
     (case api_uploadFiles A (localFiles state) w of
        (Inl e, w1) \<Rightarrow> (Inl e, w1)
      | (Inr newAttachments, w1) \<Rightarrow>
          let allAttachments = meta_attachments (metadata state) @ newAttachments
          in if truthy (opt_memoName options) then
               (case api_getMemo A (the (opt_memoName options)) w1 of
                  (Inl e, w2) \<Rightarrow> (Inl e, w2)
                | (Inr prevMemo, w2) \<Rightarrow>
                    let (paths, patch) = buildUpdateMask A prevMemo state allAttachments
                    in if length paths = 0
                       then (Inr \<lparr>res_memoName = memo_name prevMemo, res_hasChanges = False, res_memo = None\<rparr>, w2)
                       else (case api_updateMemo A patch paths w2 of
                               (Inl e, w3) \<Rightarrow> (Inl e, w3)
                             | (Inr memo, w3) \<Rightarrow>
                                 (Inr \<lparr>res_memoName = memo_name memo, res_hasChanges = True, res_memo = Some memo\<rparr>, w3)))
             else
               (case (if truthy (opt_parentMemoName options)
                      then api_createMemoComment A (the (opt_parentMemoName options))
                             (memoData A state options allAttachments) w1
                      else api_createMemo A (memoData A state options allAttachments) w1) of
                  (Inl e, w2) \<Rightarrow> (Inl e, w2)
                | (Inr memo, w2) \<Rightarrow>
                    (Inr \<lparr>res_memoName = memo_name memo, res_hasChanges = True, res_memo = Some memo\<rparr>, w2)))"

definition fromMemo :: "'w memo_api \<Rightarrow> Memo \<Rightarrow> jsstr \<times> EditorMetadata \<times> EditorTimestamps" where
  "fromMemo A memo =
     (memo_content memo,
      \<lparr>meta_visibility = memo_visibility memo, meta_attachments = memo_attachments memo,
       meta_relations = memo_relations memo, meta_location = memo_location memo\<rparr>,
      \<lparr>ts_createTime = map_option (timestampDate A) (memo_createTime memo),
       ts_updateTime = map_option (timestampDate A) (memo_updateTime memo)\<rparr>)"

section \<open>What an update request does\<close>

text \<open>The contract of a field mask: the listed fields are replaced by those of the patch, the others
  stay.\<close>

definition apply_patch :: "jsstr list \<Rightarrow> memo_patch \<Rightarrow> Memo \<Rightarrow> Memo" where
  "apply_patch paths p m = m\<lparr>
     memo_content := (if js ''content'' \<in> set paths then patch_content p else memo_content m),
     memo_visibility := (if js ''visibility'' \<in> set paths
        then (case patch_visibility p of None \<Rightarrow> VISIBILITY_UNSPECIFIED | Some v \<Rightarrow> v) else memo_visibility m),
     memo_attachments := (if js ''attachments'' \<in> set paths
        then (case patch_attachments p of None \<Rightarrow> [] | Some a \<Rightarrow> a) else memo_attachments m),
     memo_relations := (if js ''relations'' \<in> set paths
        then (case patch_relations p of None \<Rightarrow> [] | Some r \<Rightarrow> r) else memo_relations m),
     memo_location := (if js ''location'' \<in> set paths
        then (case patch_location p of None \<Rightarrow> None | Some l \<Rightarrow> l) else memo_location m)\<rparr>"

lemma set_mask_if [simp]: "set (mask_if b f m) = (if b then insert (js f) (set m) else set m)"
  by (simp add: mask_if_def)

lemma mask_if_empty [simp]: "mask_if b f m = [] \<longleftrightarrow> \<not> b \<and> m = []"
  by (simp add: mask_if_def)

lemma references_filtered:
  "getEditorReferenceRelations (getEditorReferenceRelations rs n) n = getEditorReferenceRelations rs n"
  by (simp add: getEditorReferenceRelations_def)

section \<open>The save transaction\<close>

datatype query_key = MemoLists | UserStats | AttachmentLists | MemoDetail jsstr | MemoComments jsstr

text \<open>The cached comment queries: one response, or the pages of an infinite query.\<close>

datatype MemoCommentsQueryData = CommentList "Memo list" | CommentPages "Memo list list"

definition prependComment :: "MemoCommentsQueryData option \<Rightarrow> Memo \<Rightarrow> MemoCommentsQueryData option" where
  "prependComment data comment =
     (case data of
        None \<Rightarrow> None
      | Some (CommentList memos) \<Rightarrow>
          (if list_ex (\<lambda>m. memo_name m = memo_name comment) memos then data
           else Some (CommentList (comment # memos)))
      | Some (CommentPages pages) \<Rightarrow>
          (if length pages = 0 \<or> list_ex (list_ex (\<lambda>m. memo_name m = memo_name comment)) pages then data
           else Some (CommentPages ((comment # hd pages) # tl pages))))"

datatype notice = InvalidNotice ValidationReason "jsstr option" | NoChanges | SaveFailed upload_error

record host =
  editor :: EditorState
  auto :: autosave
  notices :: "notice list"
  invalidated :: "query_key list"
  commentQueries :: "(jsstr \<times> MemoCommentsQueryData option) list"
  confirmed :: "jsstr list"
  cancelled :: nat
  newMemos :: "jsstr list"

record memo_save_options =
  ms_memoName :: "jsstr option"
  ms_parentMemoName :: "jsstr option"
  ms_defaultSpace :: "jsstr option"
  ms_defaultVisibility :: "Visibility option"
  ms_defaultCreateTime :: "int option"

definition editor_draft :: "EditorState \<Rightarrow> EditorDraft" where
  "editor_draft s = \<lparr>draft_content = content s, draft_attachments = meta_attachments (metadata s),
     draft_location = Some (meta_location (metadata s))\<rparr>"

text \<open>Dispatching an action notifies the autosave subscription.\<close>

definition dispatch :: "EditorAction \<Rightarrow> host \<Rightarrow> host" where
  "dispatch a h =
     (let e = editorReducer (editor h) a
      in h\<lparr>editor := e, auto := store_changed (editor_draft e) (auto h)\<rparr>)"

text \<open>Up to the request: \<open>Some state\<close> when the request goes out with that state.\<close>

definition save_begin :: "(jsstr \<Rightarrow> jsstr list) \<Rightarrow> host \<Rightarrow> EditorState option \<times> host" where
  "save_begin findInvalid h =
     (if justSaved (ui (editor h)) then (None, h)
      else let r = canSave findInvalid (editor h)
           in if \<not> valid r
              then (None, h\<lparr>notices := notices h @ [InvalidNotice (the (reason r)) (detail r)]\<rparr>)
              else (Some (editor h), dispatch (setLoading saving_key True) h))"

definition save_finally :: "host \<Rightarrow> host" where
  "save_finally h = dispatch (setJustSaved False) (dispatch (setLoading saving_key False) h)"

definition save_failed :: "upload_error \<Rightarrow> host \<Rightarrow> host" where
  "save_failed e h = save_finally (h\<lparr>notices := notices h @ [SaveFailed e]\<rparr>)"

definition prepend_saved :: "memo_save_options \<Rightarrow> save_result \<Rightarrow> host \<Rightarrow> host" where
  "prepend_saved opts result h =
     (if truthy (ms_parentMemoName opts) \<and> res_memo result \<noteq> None
      then h\<lparr>commentQueries := map (\<lambda>(k, d). (k, if Some k = ms_parentMemoName opts
                then prependComment d (the (res_memo result)) else d)) (commentQueries h)\<rparr>
      else h)"

definition invalidations :: "memo_save_options \<Rightarrow> query_key list" where
  "invalidations opts = [MemoLists, UserStats, AttachmentLists]
     @ (if truthy (ms_memoName opts) then [MemoDetail (the (ms_memoName opts))] else [])
     @ (if truthy (ms_parentMemoName opts)
        then [MemoComments (the (ms_parentMemoName opts)), MemoDetail (the (ms_parentMemoName opts))] else [])"

text \<open>The response has arrived: \<open>True\<close> when the transaction is complete, \<open>False\<close> when it waits for the
  invalidated queries.\<close>

definition save_resolved :: "memo_save_options \<Rightarrow> save_result \<Rightarrow> host \<Rightarrow> bool \<times> host" where
  "save_resolved opts result h =
     (if \<not> res_hasChanges result
      then (True, save_finally (h\<lparr>notices := notices h @ [NoChanges], cancelled := Suc (cancelled h)\<rparr>))
      else let h1 = h\<lparr>auto := discardDraft (auto h)\<rparr>;
               h2 = prepend_saved opts result h1;
               h3 = h2\<lparr>invalidated := invalidated h2 @ invalidations opts\<rparr>
           in if truthy (ms_parentMemoName opts)
              then (True, save_finally ((dispatch reset_action h3)
                            \<lparr>confirmed := confirmed h3 @ [res_memoName result]\<rparr>))
              else if truthy (ms_memoName opts)
              then (False, dispatch (setJustSaved True) (dispatch (setLoading saving_key False) h3))
              else (False, h3))"

definition only_visibility :: "Visibility \<Rightarrow> PartialMetadata" where
  "only_visibility v = \<lparr>p_visibility = Some v, p_attachments = None, p_relations = None, p_location = None\<rparr>"

text \<open>The invalidated queries have settled.\<close>

definition save_settled :: "memo_save_options \<Rightarrow> save_result \<Rightarrow> host \<Rightarrow> host" where
  "save_settled opts result h =
     (let h1 = dispatch reset_action h;
          h2 = (case ms_defaultVisibility opts of
                  Some v \<Rightarrow> if \<not> truthy (ms_memoName opts) \<and> v \<noteq> VISIBILITY_UNSPECIFIED
                             then dispatch (setMetadata (only_visibility v)) h1 else h1
                | None \<Rightarrow> h1);
          h3 = (case ms_defaultCreateTime opts of
                  Some t \<Rightarrow> if \<not> truthy (ms_memoName opts)
                             then dispatch (setTimestamps \<lparr>p_createTime = Some (Some t), p_updateTime = Some (Some t)\<rparr>) h2
                             else h2
                | None \<Rightarrow> h2);
          h4 = (if \<not> truthy (ms_memoName opts) \<and> \<not> truthy (ms_parentMemoName opts)
                then h3\<lparr>newMemos := newMemos h3 @ [res_memoName result]\<rparr> else h3)
      in save_finally (h4\<lparr>confirmed := confirmed h4 @ [res_memoName result]\<rparr>))"

section \<open>Invariant of the transaction\<close>

text \<open>The autosave has seen the current draft.\<close>

definition host_ok :: "host \<Rightarrow> bool" where
  "host_ok h \<longleftrightarrow> cache_inv (as_cache (auto h)) \<and> latestDraft (auto h) = editor_draft (editor h)"

lemma store_changed_simps [simp]:
  "latestDraft (store_changed d s) = d" "as_key (store_changed d s) = as_key s"
  by (simp_all add: store_changed_def persist_def)

lemma store_changed_cache_inv [inv_intros]:
  "cache_inv (as_cache s) \<Longrightarrow> cache_inv (as_cache (store_changed d s))"
  by (simp add: store_changed_def persist_def cache_save_inv)

lemma dispatch_ok [inv_intros]: "host_ok h \<Longrightarrow> host_ok (dispatch a h)"
  by (simp add: host_ok_def dispatch_def Let_def inv_intros)

lemma dispatch_editor [simp]: "editor (dispatch a h) = editorReducer (editor h) a"
  by (simp add: dispatch_def Let_def)

lemma dispatch_key [simp]: "as_key (auto (dispatch a h)) = as_key (auto h)"
  by (simp add: dispatch_def Let_def)

lemma dispatch_drafts [simp]: "drafts (as_cache (auto (dispatch a h))) = drafts (as_cache (auto h))"
  by (simp add: dispatch_def Let_def store_changed_def persist_def)

lemma editor_draft_keeps:
  "draft_of s' = draft_of s \<Longrightarrow> editor_draft s' = editor_draft s"
  by (simp add: draft_of_def editor_draft_def)

lemma dispatch_quiet:
  assumes "host_ok h" "editor_draft (editorReducer (editor h) a) = editor_draft (editor h)"
  shows "auto (dispatch a h) = auto h"
  using assms by (simp add: dispatch_def Let_def store_changed_def host_ok_def)

lemma finally_quiet:
  assumes "host_ok h"
  shows "auto (save_finally h) = auto h \<and> draft_of (editor (save_finally h)) = draft_of (editor h)
    \<and> \<not> saving (isLoading (ui (editor (save_finally h)))) \<and> \<not> justSaved (ui (editor (save_finally h)))"
proof -
  let ?h = "dispatch (setLoading saving_key False) h"
  have "auto ?h = auto h"
    by (rule dispatch_quiet [OF assms]) (simp add: setLoading_def editor_draft_def)
  moreover have "auto (dispatch (setJustSaved False) ?h) = auto ?h"
    by (rule dispatch_quiet [OF dispatch_ok [OF assms]]) (simp add: setJustSaved_def editor_draft_def)
  ultimately show ?thesis
    by (simp add: save_finally_def setLoading_def setJustSaved_def draft_of_def)
qed

text \<open>Actions that leave the saving flag alone.\<close>

fun keeps_saving :: "EditorAction \<Rightarrow> bool" where
  "keeps_saving (SET_LOADING k _) \<longleftrightarrow> k \<noteq> saving_key"
| "keeps_saving RESET = False"
| "keeps_saving _ = True"

lemma keeps_saving:
  "keeps_saving a \<Longrightarrow> saving (isLoading (ui (editorReducer s a))) = saving (isLoading (ui s))"
  by (cases a) (auto split: LoadingKey.splits)

lemma fold_keeps_saving:
  "list_all keeps_saving as \<Longrightarrow>
   saving (isLoading (ui (editor (fold dispatch as h)))) = saving (isLoading (ui (editor h)))"
  by (induction as arbitrary: h) (auto simp: keeps_saving)

lemma saving_refused: "saving (isLoading (ui s)) \<Longrightarrow> \<not> valid (canSave f s)"
  by (auto simp: canSave_ready ready_to_save_def)

text \<open>An editor that was reset, behind a discarded draft.\<close>

definition clean :: "host \<Rightarrow> bool" where
  "clean h \<longleftrightarrow> host_ok h \<and> content (editor h) = [] \<and> meta_attachments (metadata (editor h)) = []
     \<and> localFiles (editor h) = [] \<and> getItem (drafts (as_cache (auto h))) (as_key (auto h)) = None"

lemma clean_flush:
  assumes "clean h"
  shows "getItem (drafts (as_cache (flushDraft (auto h)))) (as_key (auto h)) = None"
  using assms
  by (auto simp: clean_def host_ok_def editor_draft_def flushDraft_def saveNow_def getItem_writeEntry
      trim_def trimStart_def trimEnd_def)

lemma reset_clean:
  assumes "host_ok h" "getItem (drafts (as_cache (auto h))) (as_key (auto h)) = None"
  shows "clean (dispatch reset_action h)"
  using assms dispatch_ok [OF assms(1), of reset_action]
  by (simp add: clean_def reset_action_def createInitialState_def defaultState_def)

lemma dispatch_clean:
  assumes "clean h" "editor_draft (editorReducer (editor h) a) = editor_draft (editor h)"
    and "localFiles (editorReducer (editor h) a) = localFiles (editor h)"
  shows "clean (dispatch a h)"
  using assms dispatch_ok [of h a] dispatch_quiet [of h a]
  by (simp add: clean_def editor_draft_def)

lemma clean_finally: "clean h \<Longrightarrow> clean (save_finally h)"
  by (auto simp: save_finally_def setLoading_def setJustSaved_def editor_draft_def intro!: dispatch_clean)

section \<open>Properties\<close>


text \<open>C4. Opening a memo in the editor and saving it unchanged sends no update: the mask is empty, the
  result says that nothing changed, and only the memo was read.\<close>

theorem unchanged_memo_not_sent:
  assumes "fromMemo A memo = (c, m, t)" "localFiles s0 = []"
    and "api_uploadFiles A [] w = (Inr [], w)" "api_getMemo A name w = (Inr memo, w')" "name \<noteq> []"
  shows "save A (editorReducer s0 (INIT_MEMO c m t)) \<lparr>opt_memoName = Some name, opt_parentMemoName = par, opt_space = sp\<rparr> w
    = (Inr \<lparr>res_memoName = memo_name memo, res_hasChanges = False, res_memo = None\<rparr>, w')"
proof -
  let ?s = "editorReducer s0 (INIT_MEMO c m t)"
  have "fst (buildUpdateMask A memo ?s (memo_attachments memo)) = []"
    using assms(1) by (auto simp: buildUpdateMask_def fromMemo_def Let_def mask_if_def split: option.splits)
  then obtain p where "buildUpdateMask A memo ?s (memo_attachments memo) = ([], p)"
    by (cases "buildUpdateMask A memo ?s (memo_attachments memo)") auto
  moreover have "meta_attachments (metadata ?s) = memo_attachments memo" using assms(1) by (auto simp: fromMemo_def)
  ultimately show ?thesis using assms by (simp add: save_def Let_def)
qed

definition demo_api :: "unit memo_api" where
  "demo_api = \<lparr>timestampDate = (\<lambda>t. t div 1000000), timestampFromDate = (\<lambda>t. t * 1000000),
     api_uploadFiles = (\<lambda>fs w. (Inr [], w)), api_getMemo = (\<lambda>n w. (Inr (empty_memo\<lparr>memo_name := n\<rparr>), w)),
     api_updateMemo = (\<lambda>p m w. (Inl RpcFailure, w)), api_createMemo = (\<lambda>m w. (Inr m, w)),
     api_createMemoComment = (\<lambda>n m w. (Inr m, w))\<rparr>"

theorem unchanged_memo_not_sent_witness:
  "\<exists>c m t. fromMemo demo_api (empty_memo\<lparr>memo_name := js ''memos/1''\<rparr>) = (c, m, t)
    \<and> save demo_api (editorReducer defaultState (INIT_MEMO c m t))
        \<lparr>opt_memoName = Some (js ''memos/1''), opt_parentMemoName = None, opt_space = None\<rparr> ()
      = (Inr \<lparr>res_memoName = js ''memos/1'', res_hasChanges = False, res_memo = None\<rparr>, ())"
proof -
  obtain c m t where f: "fromMemo demo_api (empty_memo\<lparr>memo_name := js ''memos/1''\<rparr>) = (c, m, t)"
    by (cases "fromMemo demo_api (empty_memo\<lparr>memo_name := js ''memos/1''\<rparr>)") auto
  show ?thesis
    using unchanged_memo_not_sent [OF f, of defaultState "()" "js ''memos/1''" "()"] f
    by (auto simp: defaultState_def demo_api_def js_def)
qed

text \<open>C5. A failed save loses nothing: the editor keeps its text, metadata, time stamps and local files, the
  cached draft and its timers are untouched, and the editor can be saved again.\<close>

theorem failed_save_keeps_draft:
  assumes "host_ok h" "save_begin f h = (Some st, h1)"
  shows "draft_of (editor (save_failed e h1)) = draft_of (editor h)
    \<and> auto (save_failed e h1) = auto h \<and> st = editor h
    \<and> valid (canSave f (editor (save_failed e h1)))"
proof -
  have b: "st = editor h" "h1 = dispatch (setLoading saving_key True) h" "valid (canSave f (editor h))"
    using assms(2) by (auto simp: save_begin_def Let_def split: if_splits)
  have d: "draft_of (editor h1) = draft_of (editor h)"
    by (simp add: b(2) setLoading_def draft_of_def)
  then have a: "auto h1 = auto h"
    unfolding b(2) by (intro dispatch_quiet [OF assms(1)] editor_draft_keeps) simp
  have ok: "host_ok (h1\<lparr>notices := n\<rparr>)" for n
    using dispatch_ok [OF assms(1)] b(2) by (simp add: host_ok_def)
  note fin = finally_quiet [OF ok, of "notices h1 @ [SaveFailed e]"]
  have "valid (canSave f (editor (save_failed e h1)))"
    using b(3) unfolding canSave_ready
    by (cases "isLoading (ui (editor h))")
       (simp add: ready_to_save_def save_failed_def save_finally_def b(2) setLoading_def setJustSaved_def)
  then show ?thesis using fin d a b(1) by (simp add: save_failed_def)
qed

definition demo_host :: host where
  "demo_host = \<lparr>editor = defaultState\<lparr>content := [65]\<rparr>,
     auto = \<lparr>as_key = [1], latestDraft = editor_draft (defaultState\<lparr>content := [65]\<rparr>),
             discardedDraft = None, as_cache = empty_cache\<rparr>,
     notices = [], invalidated = [], commentQueries = [], confirmed = [], cancelled = 0, newMemos = []\<rparr>"

lemma demo_host_ok: "host_ok demo_host"
  by (simp add: host_ok_def demo_host_def empty_cache_inv)

lemma demo_begin:
  "save_begin (\<lambda>_. []) demo_host = (Some (editor demo_host), dispatch (setLoading saving_key True) demo_host)"
  by (simp add: save_begin_def demo_host_def defaultState_def canSave_def trim_def trimStart_def trimEnd_def
      isWhiteSpace_def Let_def)

theorem failed_save_keeps_draft_witness:
  "content (editor (save_failed RpcFailure (dispatch (setLoading saving_key True) demo_host))) = [65]"
  using failed_save_keeps_draft [OF demo_host_ok demo_begin, of RpcFailure]
  by (simp add: draft_of_def) (simp add: demo_host_def)

text \<open>A memo is not submitted twice: from the moment a save request goes out until the transaction
  ends, whatever the user edits meanwhile, another save is refused.\<close>

theorem no_double_submit:
  assumes "save_begin f h = (Some st, h1)" "list_all keeps_saving as"
  shows "fst (save_begin g (fold dispatch as h1)) = None"
proof -
  have "h1 = dispatch (setLoading saving_key True) h"
    using assms(1) by (auto simp: save_begin_def Let_def split: if_splits)
  then have "saving (isLoading (ui (editor (fold dispatch as h1))))"
    using fold_keeps_saving [OF assms(2)] by (simp add: setLoading_def)
  then show ?thesis by (auto simp: save_begin_def Let_def dest: saving_refused [of _ g])
qed

theorem no_double_submit_witness:
  "fst (save_begin (\<lambda>_. []) (dispatch (updateContent [66]) (dispatch (setLoading saving_key True) demo_host))) = None"
  using no_double_submit [OF demo_begin, of "[updateContent [66]]"] by (simp add: updateContent_def)

text \<open>A created memo leaves a clean editor: after the response and the settled queries the editor is
  empty, no flag is set, and the draft is gone from storage, also after the flush of the unmounting
  editor.\<close>

theorem created_memo_clears_draft:
  assumes "host_ok h" "res_hasChanges r" "\<not> truthy (ms_memoName opts)" "\<not> truthy (ms_parentMemoName opts)"
    and "save_resolved opts r h = (b, h1)"
  shows "content (editor (save_settled opts r h1)) = [] \<and> localFiles (editor (save_settled opts r h1)) = []
    \<and> \<not> saving (isLoading (ui (editor (save_settled opts r h1))))
    \<and> \<not> justSaved (ui (editor (save_settled opts r h1)))
    \<and> getItem (drafts (as_cache (flushDraft (auto (save_settled opts r h1))))) (as_key (auto h)) = None"
proof -
  let ?h0 = "h\<lparr>auto := discardDraft (auto h)\<rparr>"
  have h1: "editor h1 = editor h" "auto h1 = discardDraft (auto h)"
    using assms(2-5) by (auto simp: save_resolved_def prepend_saved_def Let_def)
  have "host_ok h1" using assms(1) by (simp add: host_ok_def h1 discardDraft_def cache_clear_inv)
  moreover have "getItem (drafts (as_cache (auto h1))) (as_key (auto h1)) = None"
    by (simp add: h1 discardDraft_def cache_clear_def Let_def)
  ultimately have c: "clean (dispatch reset_action h1)" by (rule reset_clean)
  have meta: "clean (dispatch (setMetadata (only_visibility v)) x)" if "clean x" for x v
    using that by (rule dispatch_clean) (simp_all add: setMetadata_def only_visibility_def override_def editor_draft_def)
  have time: "clean (dispatch (setTimestamps t) x)" if "clean x" for x t
    using that by (rule dispatch_clean) (simp_all add: setTimestamps_def editor_draft_def)
  have upd: "clean (x\<lparr>newMemos := n\<rparr>)" "clean (x\<lparr>confirmed := n\<rparr>)" if "clean x" for x n
    using that by (simp_all add: clean_def host_ok_def)
  obtain x where x: "clean x" "save_settled opts r h1 = save_finally x"
  proof
    let ?x = "let a = dispatch reset_action h1;
        b = (case ms_defaultVisibility opts of
               Some v \<Rightarrow> if v \<noteq> VISIBILITY_UNSPECIFIED then dispatch (setMetadata (only_visibility v)) a else a
             | None \<Rightarrow> a);
        c = (case ms_defaultCreateTime opts of
               Some t \<Rightarrow> dispatch (setTimestamps \<lparr>p_createTime = Some (Some t), p_updateTime = Some (Some t)\<rparr>) b
             | None \<Rightarrow> b);
        d = c\<lparr>newMemos := newMemos c @ [res_memoName r]\<rparr>
      in d\<lparr>confirmed := confirmed d @ [res_memoName r]\<rparr>"
    show "clean ?x" using c by (auto simp: Let_def intro!: meta time upd split: option.splits)
    show "save_settled opts r h1 = save_finally ?x"
      using assms(3,4) by (simp add: save_settled_def Let_def cong: option.case_cong)
  qed
  have key: "as_key (auto (save_settled opts r h1)) = as_key (auto h)"
    by (simp add: save_settled_def save_finally_def Let_def h1 discardDraft_def split: option.splits)
  have "clean (save_settled opts r h1)" using x clean_finally by simp
  from clean_flush [OF this] this key x(2) finally_quiet [of x] x(1) show ?thesis
    by (simp add: clean_def)
qed

definition create_options :: memo_save_options where
  "create_options = \<lparr>ms_memoName = None, ms_parentMemoName = None, ms_defaultSpace = None,
     ms_defaultVisibility = None, ms_defaultCreateTime = None\<rparr>"

definition created :: save_result where
  "created = \<lparr>res_memoName = js ''memos/1'', res_hasChanges = True, res_memo = Some empty_memo\<rparr>"

theorem created_memo_clears_draft_witness:
  "content (editor (save_settled create_options created (snd (save_resolved create_options created demo_host)))) = []"
  using created_memo_clears_draft [OF demo_host_ok, of created create_options
      "fst (save_resolved create_options created demo_host)" "snd (save_resolved create_options created demo_host)"]
  by (simp add: created_def create_options_def)

end
