(* ===== verification/Attachments.thy ===== *)
theory Attachments
  imports Editor_State
begin

text \<open>
  Attachments and what is shown of them: \<^verbatim>\<open>web/src/utils/attachment.ts\<close>,
  \<^verbatim>\<open>web/src/utils/media-item.ts\<close> and \<^verbatim>\<open>web/src/components/MemoEditor/types/attachment.ts\<close>. The
  origin of the page and the URL parser (a share link with a parameter set, \<open>None\<close> for a link
  without share token) are fields of \<open>att_env\<close>.
\<close>

section \<open>Types and URLs\<close>

record att_env =
  origin :: jsstr
  shareUrl :: "jsstr \<Rightarrow> jsstr \<Rightarrow> jsstr option"

definition getAttachmentUrl :: "att_env \<Rightarrow> Attachment \<Rightarrow> jsstr" where
  "getAttachmentUrl E a =
     (if att_externalLink a \<noteq> [] then att_externalLink a
      else origin E @ js ''/file/'' @ att_name a @ js ''/'' @ att_filename a)"

definition withShareTokenParam :: "att_env \<Rightarrow> jsstr \<Rightarrow> jsstr \<Rightarrow> jsstr option" where
  "withShareTokenParam E externalLink key =
     (if externalLink = [] then None else shareUrl E externalLink key)"

definition getAttachmentThumbnailUrl :: "att_env \<Rightarrow> Attachment \<Rightarrow> jsstr" where
  "getAttachmentThumbnailUrl E a =
     (if truthy (withShareTokenParam E (att_externalLink a) (js ''thumbnail''))
      then the (withShareTokenParam E (att_externalLink a) (js ''thumbnail''))
      else origin E @ js ''/file/'' @ att_name a @ js ''/'' @ att_filename a @ js ''?thumbnail=true'')"

definition getAttachmentMotionClipUrl :: "att_env \<Rightarrow> Attachment \<Rightarrow> jsstr" where
  "getAttachmentMotionClipUrl E a =
     (if truthy (withShareTokenParam E (att_externalLink a) (js ''motion''))
      then the (withShareTokenParam E (att_externalLink a) (js ''motion''))
      else origin E @ js ''/file/'' @ att_name a @ js ''/'' @ att_filename a @ js ''?motion=true'')"

definition isPSD :: "jsstr \<Rightarrow> bool" where
  "isPSD t \<longleftrightarrow> t = js ''image/vnd.adobe.photoshop'' \<or> t = js ''image/x-photoshop'' \<or> t = js ''image/photoshop''"

definition isImage :: "jsstr \<Rightarrow> bool" where
  "isImage t \<longleftrightarrow> startsWith t (js ''image/'') \<and> \<not> isPSD t"

definition isMidiFile :: "jsstr \<Rightarrow> bool" where
  "isMidiFile t \<longleftrightarrow> t = js ''audio/midi'' \<or> t = js ''audio/mid'' \<or> t = js ''audio/x-midi'' \<or> t = js ''application/x-midi''"

definition getAttachmentType :: "Attachment \<Rightarrow> jsstr" where
  "getAttachmentType a =
     (let t = att_type a in
      if isImage t then js ''image/*''
      else if startsWith t (js ''video'') then js ''video/*''
      else if startsWith t (js ''audio'') \<and> \<not> isMidiFile t then js ''audio/*''
      else if startsWith t (js ''text'') then js ''text/*''
      else if startsWith t (js ''application/epub+zip'') then js ''application/epub+zip''
      else if startsWith t (js ''application/pdf'') then js ''application/pdf''
      else if strIncludes t (js ''word'') then js ''application/msword''
      else if strIncludes t (js ''excel'') then js ''application/msexcel''
      else if startsWith t (js ''application/zip'') then js ''application/zip''
      else if startsWith t (js ''application/x-java-archive'') then js ''application/x-java-archive''
      else js ''application/octet-stream'')"

section \<open>Motion photos\<close>

definition getAttachmentMotionGroupId :: "Attachment \<Rightarrow> jsstr option" where
  "getAttachmentMotionGroupId a =
     (case att_motionMedia a of None \<Rightarrow> None | Some m \<Rightarrow> if mm_groupId m = [] then None else Some (mm_groupId m))"

definition isLivePhoto :: "MotionMediaRole \<Rightarrow> MotionMedia option \<Rightarrow> bool" where
  "isLivePhoto role mm = (case mm of None \<Rightarrow> False | Some m \<Rightarrow> mm_family m = APPLE_LIVE_PHOTO \<and> mm_role m = role)"

definition isAppleLivePhotoStill :: "Attachment \<Rightarrow> bool" where
  "isAppleLivePhotoStill a = isLivePhoto STILL (att_motionMedia a)"

definition isAppleLivePhotoVideo :: "Attachment \<Rightarrow> bool" where
  "isAppleLivePhotoVideo a = isLivePhoto VIDEO (att_motionMedia a)"

definition isAndroidMotionContainer :: "Attachment \<Rightarrow> bool" where
  "isAndroidMotionContainer a =
     (case att_motionMedia a of None \<Rightarrow> False
      | Some m \<Rightarrow> mm_family m = ANDROID_MOTION_PHOTO \<and> mm_role m = CONTAINER \<and> mm_hasEmbeddedVideo m)"

definition isMotionAttachment :: "Attachment \<Rightarrow> bool" where
  "isMotionAttachment a \<longleftrightarrow>
     isAppleLivePhotoStill a \<or> isAppleLivePhotoVideo a \<or> isAndroidMotionContainer a"

section \<open>Visual items\<close>

datatype MediaKind = image_kind | video_kind | motion_kind

record PreviewMediaItem =
  pv_id :: jsstr
  pv_kind :: MediaKind
  pv_sourceUrl :: jsstr
  pv_posterUrl :: jsstr
  pv_filename :: jsstr
  pv_presentationTimestampUs :: "int option"
  pv_attachments :: "Attachment list"

record AttachmentVisualItem =
  vi_id :: jsstr
  vi_kind :: MediaKind
  vi_filename :: jsstr
  vi_posterUrl :: jsstr
  vi_sourceUrl :: jsstr
  vi_attachmentNames :: "jsstr list"
  vi_attachments :: "Attachment list"
  vi_previewItem :: PreviewMediaItem
  vi_mimeType :: jsstr

definition buildSingleAttachmentItem :: "att_env \<Rightarrow> Attachment \<Rightarrow> AttachmentVisualItem" where
  "buildSingleAttachmentItem E a =
     (let attachmentType = getAttachmentType a;
          sourceUrl = getAttachmentUrl E a;
          posterUrl = (if attachmentType = js ''image/*'' then getAttachmentThumbnailUrl E a else sourceUrl);
          kind = (if attachmentType = js ''video/*'' then video_kind else image_kind)
      in \<lparr>vi_id = att_name a, vi_kind = kind, vi_filename = att_filename a, vi_posterUrl = posterUrl,
          vi_sourceUrl = sourceUrl, vi_attachmentNames = [att_name a], vi_attachments = [a],
          vi_previewItem = \<lparr>pv_id = att_name a, pv_kind = kind, pv_sourceUrl = sourceUrl,
            pv_posterUrl = posterUrl, pv_filename = att_filename a, pv_presentationTimestampUs = None,
            pv_attachments = [a]\<rparr>,
          vi_mimeType = att_type a\<rparr>)"

definition buildAppleMotionItem :: "att_env \<Rightarrow> Attachment \<Rightarrow> Attachment \<Rightarrow> AttachmentVisualItem" where
  "buildAppleMotionItem E still video =
     (let sourceUrl = getAttachmentUrl E video;
          posterUrl = getAttachmentThumbnailUrl E still;
          i = (case getAttachmentMotionGroupId still of None \<Rightarrow> att_name still | Some g \<Rightarrow> g)
      in \<lparr>vi_id = i, vi_kind = motion_kind, vi_filename = att_filename still, vi_posterUrl = posterUrl,
          vi_sourceUrl = sourceUrl, vi_attachmentNames = [att_name still, att_name video],
          vi_attachments = [still, video],
          vi_previewItem = \<lparr>pv_id = i, pv_kind = motion_kind, pv_sourceUrl = sourceUrl,
            pv_posterUrl = posterUrl, pv_filename = att_filename still,
            pv_presentationTimestampUs = None, pv_attachments = [still, video]\<rparr>,
          vi_mimeType = att_type still\<rparr>)"

definition buildAndroidMotionItem :: "att_env \<Rightarrow> Attachment \<Rightarrow> AttachmentVisualItem" where
  "buildAndroidMotionItem E a =
     \<lparr>vi_id = att_name a, vi_kind = motion_kind, vi_filename = att_filename a,
      vi_posterUrl = getAttachmentThumbnailUrl E a, vi_sourceUrl = getAttachmentMotionClipUrl E a,
      vi_attachmentNames = [att_name a], vi_attachments = [a],
      vi_previewItem = \<lparr>pv_id = att_name a, pv_kind = motion_kind,
        pv_sourceUrl = getAttachmentMotionClipUrl E a, pv_posterUrl = getAttachmentThumbnailUrl E a,
        pv_filename = att_filename a,
        pv_presentationTimestampUs = map_option mm_presentationTimestampUs (att_motionMedia a),
        pv_attachments = [a]\<rparr>,
      vi_mimeType = att_type a\<rparr>"

definition dedupeVisualItems :: "AttachmentVisualItem list \<Rightarrow> AttachmentVisualItem list" where
  "dedupeVisualItems items = dedupe_from vi_id {} items"

text \<open>The map from group ids to the attachments of the group, in order.\<close>

definition groupOf :: "Attachment list \<Rightarrow> jsstr \<Rightarrow> Attachment list" where
  "groupOf attachments g = filter (\<lambda>a. getAttachmentMotionGroupId a = Some g) attachments"

fun visualLoop ::
  "att_env \<Rightarrow> Attachment list \<Rightarrow> Attachment list \<Rightarrow> jsstr list \<Rightarrow> AttachmentVisualItem list \<Rightarrow> AttachmentVisualItem list" where
  "visualLoop E attachments [] consumedGroups items = items"
| "visualLoop E attachments (a # rest) consumedGroups items =
     (if isAndroidMotionContainer a
      then visualLoop E attachments rest consumedGroups (items @ [buildAndroidMotionItem E a])
      else case getAttachmentMotionGroupId a of
             None \<Rightarrow> visualLoop E attachments rest consumedGroups (items @ [buildSingleAttachmentItem E a])
           | Some groupId \<Rightarrow>
               if groupId \<in> set consumedGroups then visualLoop E attachments rest consumedGroups items
               else let group = groupOf attachments groupId
                    in case (find isAppleLivePhotoStill group, find isAppleLivePhotoVideo group) of
                         (Some still, Some video) \<Rightarrow>
                           (if length group = 2
                            then visualLoop E attachments rest (set_add groupId consumedGroups)
                                   (items @ [buildAppleMotionItem E still video])
                            else visualLoop E attachments rest (set_add groupId consumedGroups)
                                   (items @ buildSingleAttachmentItem E a #
                                     map (buildSingleAttachmentItem E)
                                       (filter (\<lambda>m. att_name m \<noteq> att_name a) group)))
                       | _ \<Rightarrow> visualLoop E attachments rest (set_add groupId consumedGroups)
                                (items @ buildSingleAttachmentItem E a #
                                  map (buildSingleAttachmentItem E)
                                    (filter (\<lambda>m. att_name m \<noteq> att_name a) group)))"

definition buildAttachmentVisualItems :: "att_env \<Rightarrow> Attachment list \<Rightarrow> AttachmentVisualItem list" where
  "buildAttachmentVisualItems E attachments =
     dedupeVisualItems (visualLoop E attachments attachments [] [])"

definition countLogicalAttachmentItems :: "att_env \<Rightarrow> Attachment list \<Rightarrow> nat" where
  "countLogicalAttachmentItems E attachments =
     (let visualAttachments = filter (\<lambda>a. getAttachmentType a = js ''image/*''
            \<or> getAttachmentType a = js ''video/*'' \<or> isMotionAttachment a) attachments;
          visualNames = set_of (map att_name visualAttachments);
          visualCount = length (buildAttachmentVisualItems E visualAttachments);
          nonVisualCount = length (filter (\<lambda>a. att_name a \<notin> set visualNames) attachments)
      in visualCount + nonVisualCount)"

section \<open>Items of the editor\<close>

datatype FileCategory = cat_image | cat_video | cat_motion | cat_audio | cat_document

record AttachmentItem =
  it_id :: jsstr
  it_memberIds :: "jsstr list"
  it_filename :: jsstr
  it_category :: FileCategory
  it_mimeType :: jsstr
  it_thumbnailUrl :: jsstr
  it_sourceUrl :: jsstr
  it_size :: nat
  it_isLocal :: bool
  it_isVoiceNote :: bool
  it_audioMeta :: "nat option"

definition lowerAscii :: "code_unit \<Rightarrow> code_unit" where
  "lowerAscii c = (if 65 \<le> c \<and> c \<le> 90 then c + 32 else c)"

text \<open>The match of \<open>/^(?:voice-(?:recording|note)|audio-recording)-(\d{8})-(\d{4,6})/i\<close>: the digits of
  the time.\<close>

definition audioRecordingTime :: "jsstr \<Rightarrow> jsstr option" where
  "audioRecordingTime filename =
     (case find (\<lambda>p. startsWith (map lowerAscii filename) p)
             [js ''voice-recording-'', js ''voice-note-'', js ''audio-recording-''] of
        None \<Rightarrow> None
      | Some p \<Rightarrow>
          let rest = drop (length p) filename;
              date = take 8 rest;
              time = takeWhile isDigit (drop 9 rest)
          in if length date = 8 \<and> list_all isDigit date \<and> charAt rest 8 = Some 45 \<and> length time \<ge> 4
             then Some (take 6 time) else None)"

definition isAudioRecordingFilename :: "jsstr \<Rightarrow> bool" where
  "isAudioRecordingFilename filename \<longleftrightarrow> audioRecordingTime filename \<noteq> None"

definition getAudioRecordingTimeLabel :: "jsstr \<Rightarrow> jsstr option" where
  "getAudioRecordingTimeLabel filename =
     (case audioRecordingTime filename of
        None \<Rightarrow> None
      | Some t \<Rightarrow>
          if length t = 4 then Some (slice t 0 2 @ js '':'' @ slice t 2 4)
          else if length t = 6 then Some (slice t 0 2 @ js '':'' @ slice t 2 4 @ js '':'' @ slice t 4 6)
          else None)"

definition categorizeFile :: "jsstr \<Rightarrow> MotionMedia option \<Rightarrow> FileCategory" where
  "categorizeFile mimeType motionMedia =
     (if motionMedia \<noteq> None then cat_motion
      else if startsWith mimeType (js ''image/'') then cat_image
      else if startsWith mimeType (js ''video/'') then cat_video
      else if startsWith mimeType (js ''audio/'') then cat_audio
      else cat_document)"

definition attachmentGroupToItem :: "att_env \<Rightarrow> Attachment \<Rightarrow> AttachmentItem" where
  "attachmentGroupToItem E a =
     (let sourceUrl = getAttachmentUrl E a
      in \<lparr>it_id = att_name a, it_memberIds = [att_name a], it_filename = att_filename a,
          it_category = categorizeFile (att_type a) None, it_mimeType = att_type a,
          it_thumbnailUrl = (if getAttachmentType a = js ''image/*'' then getAttachmentThumbnailUrl E a else sourceUrl),
          it_sourceUrl = sourceUrl, it_size = att_size a, it_isLocal = False,
          it_isVoiceNote = (categorizeFile (att_type a) None = cat_audio \<and> isAudioRecordingFilename (att_filename a)),
          it_audioMeta = None\<rparr>)"

definition visualItemToAttachmentItem :: "AttachmentVisualItem \<Rightarrow> AttachmentItem" where
  "visualItemToAttachmentItem item =
     \<lparr>it_id = vi_id item, it_memberIds = vi_attachmentNames item, it_filename = vi_filename item,
      it_category = (case vi_kind item of motion_kind \<Rightarrow> cat_motion | image_kind \<Rightarrow> cat_image | video_kind \<Rightarrow> cat_video),
      it_mimeType = vi_mimeType item, it_thumbnailUrl = vi_posterUrl item, it_sourceUrl = vi_sourceUrl item,
      it_size = sum_list (map att_size (vi_attachments item)), it_isLocal = False, it_isVoiceNote = False,
      it_audioMeta = None\<rparr>"

definition fileToItem :: "LocalFile \<Rightarrow> AttachmentItem" where
  "fileToItem file =
     (let cat = categorizeFile (file_type (lf_file file)) (lf_motionMedia file)
      in \<lparr>it_id = (if truthy (map_option mm_groupId (lf_motionMedia file))
                   then mm_groupId (the (lf_motionMedia file)) else lf_previewUrl file),
          it_memberIds = [lf_previewUrl file], it_filename = file_name (lf_file file), it_category = cat,
          it_mimeType = file_type (lf_file file), it_thumbnailUrl = lf_previewUrl file,
          it_sourceUrl = lf_previewUrl file, it_size = file_size (lf_file file), it_isLocal = True,
          it_isVoiceNote = (cat = cat_audio \<and>
            (lf_origin file = Some audio_recording \<or> isAudioRecordingFilename (file_name (lf_file file)))),
          it_audioMeta = lf_durationSeconds file\<rparr>)"

text \<open>The groups of a \<open>Map\<close> built by appending: keys in the order of their first element.\<close>

definition localGroupId :: "LocalFile \<Rightarrow> jsstr option" where
  "localGroupId file =
     (case lf_motionMedia file of None \<Rightarrow> None | Some m \<Rightarrow> if mm_groupId m = [] then None else Some (mm_groupId m))"

definition groupItems :: "jsstr \<Rightarrow> LocalFile list \<Rightarrow> AttachmentItem list" where
  "groupItems groupId files =
     (case (find (\<lambda>f. isLivePhoto STILL (lf_motionMedia f)) files,
            find (\<lambda>f. isLivePhoto VIDEO (lf_motionMedia f)) files) of
        (Some still, Some video) \<Rightarrow>
          (if length files = 2
           then [\<lparr>it_id = groupId, it_memberIds = [lf_previewUrl still, lf_previewUrl video],
                  it_filename = file_name (lf_file still), it_category = cat_motion,
                  it_mimeType = file_type (lf_file still), it_thumbnailUrl = lf_previewUrl still,
                  it_sourceUrl = lf_previewUrl video,
                  it_size = file_size (lf_file still) + file_size (lf_file video),
                  it_isLocal = True, it_isVoiceNote = False, it_audioMeta = None\<rparr>]
           else map fileToItem files)
      | _ \<Rightarrow> map fileToItem files)"

definition toLocalMotionItems :: "LocalFile list \<Rightarrow> AttachmentItem list" where
  "toLocalMotionItems files =
     (let singles = map fileToItem (filter (\<lambda>f. localGroupId f = None) files);
          keys = set_of (List.map_filter localGroupId files);
          groupedItems = concat (map (\<lambda>g. groupItems g (filter (\<lambda>f. localGroupId f = Some g) files)) keys)
      in groupedItems @ singles)"

definition isVisualAttachment :: "Attachment \<Rightarrow> bool" where
  "isVisualAttachment a \<longleftrightarrow> getAttachmentType a = js ''image/*'' \<or> getAttachmentType a = js ''video/*''
     \<or> att_motionMedia a \<noteq> None"

definition toAttachmentItems :: "att_env \<Rightarrow> Attachment list \<Rightarrow> LocalFile list \<Rightarrow> AttachmentItem list" where
  "toAttachmentItems E attachments files =
     (let visualItems = buildAttachmentVisualItems E (filter isVisualAttachment attachments);
          attachmentVisualIds = set_of (concat (map vi_attachmentNames visualItems));
          nonVisual = filter (\<lambda>i. it_category i = cat_audio \<or> it_category i = cat_document)
            (map (attachmentGroupToItem E) (filter (\<lambda>a. att_name a \<notin> set attachmentVisualIds) attachments))
      in map visualItemToAttachmentItem visualItems @ nonVisual @ toLocalMotionItems files)"

definition filterByCategory :: "AttachmentItem list \<Rightarrow> FileCategory list \<Rightarrow> AttachmentItem list" where
  "filterByCategory items categories = filter (\<lambda>i. it_category i \<in> set (set_of categories)) items"

definition separateMediaAndDocs :: "AttachmentItem list \<Rightarrow> AttachmentItem list \<times> AttachmentItem list" where
  "separateMediaAndDocs items =
     foldl (\<lambda>(media, docs) item.
        if it_category item = cat_image \<or> it_category item = cat_video \<or> it_category item = cat_motion
        then (media @ [item], docs) else (media, docs @ [item])) ([], []) items"

section \<open>One step of the visual loop\<close>

definition singles :: "att_env \<Rightarrow> Attachment \<Rightarrow> Attachment list \<Rightarrow> AttachmentVisualItem list" where
  "singles E a members = buildSingleAttachmentItem E a #
     map (buildSingleAttachmentItem E) (filter (\<lambda>m. att_name m \<noteq> att_name a) members)"

definition livePair :: "Attachment list \<Rightarrow> (Attachment \<times> Attachment) option" where
  "livePair members =
     (case (find isAppleLivePhotoStill members, find isAppleLivePhotoVideo members) of
        (Some still, Some video) \<Rightarrow> if length members = 2 then Some (still, video) else None
      | _ \<Rightarrow> None)"

definition visual_step ::
  "att_env \<Rightarrow> Attachment list \<Rightarrow> Attachment \<Rightarrow> jsstr list \<Rightarrow> jsstr list \<times> AttachmentVisualItem list" where
  "visual_step E atts a consumed =
     (if isAndroidMotionContainer a then (consumed, [buildAndroidMotionItem E a])
      else case getAttachmentMotionGroupId a of
             None \<Rightarrow> (consumed, [buildSingleAttachmentItem E a])
           | Some g \<Rightarrow>
               if g \<in> set consumed then (consumed, [])
               else (set_add g consumed,
                     case livePair (groupOf atts g) of
                       Some (still, video) \<Rightarrow> [buildAppleMotionItem E still video]
                     | None \<Rightarrow> singles E a (groupOf atts g)))"

lemma visualLoop_step:
  "visualLoop E atts (a # rest) consumed items =
     visualLoop E atts rest (fst (visual_step E atts a consumed)) (items @ snd (visual_step E atts a consumed))"
  by (auto simp: visual_step_def livePair_def singles_def Let_def split: option.splits)

declare visualLoop.simps(2) [simp del]

definition item_names :: "AttachmentVisualItem list \<Rightarrow> jsstr set" where
  "item_names items = set (concat (map vi_attachmentNames items))"

lemma item_names_simps [simp]:
  "item_names [] = {}" "item_names (x # xs) = set (vi_attachmentNames x) \<union> item_names xs"
  "item_names (xs @ ys) = item_names xs \<union> item_names ys"
  by (auto simp: item_names_def)

lemma item_simps [simp]:
  "vi_attachmentNames (buildSingleAttachmentItem E a) = [att_name a]"
  "vi_id (buildSingleAttachmentItem E a) = att_name a"
  "vi_attachmentNames (buildAndroidMotionItem E a) = [att_name a]"
  "vi_id (buildAndroidMotionItem E a) = att_name a"
  "vi_attachmentNames (buildAppleMotionItem E s v) = [att_name s, att_name v]"
  by (simp_all add: buildSingleAttachmentItem_def buildAndroidMotionItem_def buildAppleMotionItem_def Let_def)

lemma item_names_map [simp]: "item_names (map (buildSingleAttachmentItem E) xs) = att_name ` set xs"
  by (induction xs) auto

lemma singles_names: "a \<in> set members \<Longrightarrow> item_names (singles E a members) = att_name ` set members"
  by (auto simp: singles_def)

lemma find_SomeD: "find P xs = Some x \<Longrightarrow> x \<in> set xs \<and> P x"
  by (metis find_Some_iff nth_mem)

lemma livePair_members:
  assumes "livePair members = Some (still, video)"
  shows "set members = {still, video}" "isAppleLivePhotoStill still" "isAppleLivePhotoVideo video"
proof -
  from assms have f: "find isAppleLivePhotoStill members = Some still" "find isAppleLivePhotoVideo members = Some video"
    "length members = 2" by (auto simp: livePair_def split: option.splits if_splits)
  from find_SomeD [OF f(1)] find_SomeD [OF f(2)]
  have m: "still \<in> set members" "video \<in> set members" "isAppleLivePhotoStill still" "isAppleLivePhotoVideo video" by auto
  then have "still \<noteq> video"
    by (auto simp: isAppleLivePhotoStill_def isAppleLivePhotoVideo_def isLivePhoto_def split: option.splits)
  moreover obtain x y where "members = [x, y]"
    using f(3) by (cases members; cases "tl members") (auto simp: numeral_2_eq_2 length_Suc_conv)
  ultimately show "set members = {still, video}" "isAppleLivePhotoStill still" "isAppleLivePhotoVideo video"
    using m by auto
qed

text \<open>Every attachment of the list, and every member of a group that was opened, is named by an item.\<close>

lemma visualLoop_covers:
  assumes "set rest \<subseteq> set atts" "\<forall>g \<in> set consumed. att_name ` set (groupOf atts g) \<subseteq> item_names items"
  shows "att_name ` set rest \<union> item_names items \<subseteq> item_names (visualLoop E atts rest consumed items)"
  using assms
proof (induction rest arbitrary: consumed items)
  case (Cons a rest)
  let ?c = "fst (visual_step E atts a consumed)" and ?new = "snd (visual_step E atts a consumed)"
  have ag: "a \<in> set (groupOf atts g)" if "getAttachmentMotionGroupId a = Some g" for g
    using that Cons.prems(1) by (simp add: groupOf_def)
  have pair: "att_name ` set (groupOf atts g) \<subseteq> item_names
      (case livePair (groupOf atts g) of Some (s, v) \<Rightarrow> [buildAppleMotionItem E s v] | None \<Rightarrow> singles E a (groupOf atts g))"
    if "getAttachmentMotionGroupId a = Some g" for g
    using singles_names [OF ag [OF that]] by (auto split: option.splits dest: livePair_members(1))
  have both: "att_name a \<in> item_names (items @ ?new)
      \<and> (\<forall>g \<in> set ?c. att_name ` set (groupOf atts g) \<subseteq> item_names (items @ ?new))"
  proof (cases "isAndroidMotionContainer a \<or> getAttachmentMotionGroupId a = None")
    case True
    then have "visual_step E atts a consumed = (consumed, [buildAndroidMotionItem E a])
      \<or> visual_step E atts a consumed = (consumed, [buildSingleAttachmentItem E a])"
      by (auto simp: visual_step_def)
    then show ?thesis using Cons.prems(2) by (elim disjE) (fastforce simp: image_subset_iff)+
  next
    case False
    then obtain g where g: "\<not> isAndroidMotionContainer a" "getAttachmentMotionGroupId a = Some g" by auto
    have name: "att_name a \<in> att_name ` set (groupOf atts g)" using ag [OF g(2)] by blast
    show ?thesis
    proof (cases "g \<in> set consumed")
      case True
      then have "visual_step E atts a consumed = (consumed, [])" using g by (simp add: visual_step_def)
      with True Cons.prems(2) name show ?thesis by auto
    next
      case False
      have "fst (visual_step E atts a consumed) = set_add g consumed"
        "att_name ` set (groupOf atts g) \<subseteq> item_names ?new"
        using pair [OF g(2)] g False by (simp_all add: visual_step_def)
      with Cons.prems(2) name show ?thesis by auto
    qed
  qed
  note 1 = conjunct1 [OF both] and 2 = conjunct2 [OF both]
  from Cons.IH [OF _ 2] Cons.prems(1) 1 show ?case by (auto simp: visualLoop_step)
qed simp

text \<open>The id of an item determines the attachments it names.\<close>

definition names_of_id :: "Attachment list \<Rightarrow> jsstr \<Rightarrow> jsstr list" where
  "names_of_id atts i =
     (if i \<in> att_name ` set atts then [i]
      else case livePair (groupOf atts i) of Some (s, v) \<Rightarrow> [att_name s, att_name v] | None \<Rightarrow> [])"

definition groups_fresh :: "Attachment list \<Rightarrow> bool" where
  "groups_fresh atts \<longleftrightarrow> (\<forall>a \<in> set atts. \<forall>b \<in> set atts. getAttachmentMotionGroupId a \<noteq> Some (att_name b))"

lemma apple_id:
  assumes "livePair (groupOf atts g) = Some (s, v)"
  shows "vi_id (buildAppleMotionItem E s v) = g"
proof -
  have "s \<in> set (groupOf atts g)" using livePair_members(1) [OF assms] by simp
  then show ?thesis by (simp add: groupOf_def buildAppleMotionItem_def Let_def)
qed

lemma visual_step_items:
  assumes "groups_fresh atts" "a \<in> set atts" "x \<in> set (snd (visual_step E atts a consumed))"
  shows "vi_attachmentNames x = names_of_id atts (vi_id x)"
proof -
  have own: "names_of_id atts (att_name b) = [att_name b]" if "b \<in> set atts" for b
    using that by (simp add: names_of_id_def)
  have sub: "set (groupOf atts g) \<subseteq> set atts" for g by (auto simp: groupOf_def)
  consider (single) b where "b \<in> set atts" "x = buildSingleAttachmentItem E b"
    | (android) "x = buildAndroidMotionItem E a"
    | (apple) g s v where "getAttachmentMotionGroupId a = Some g" "livePair (groupOf atts g) = Some (s, v)"
        "x = buildAppleMotionItem E s v"
    using assms(2,3) sub
    by (auto simp: visual_step_def singles_def split: if_splits option.splits)
  then show ?thesis
  proof cases
    case apple
    have "g \<notin> att_name ` set atts" using assms(1,2) apple(1) by (auto simp: groups_fresh_def)
    then show ?thesis using apple apple_id [OF apple(2)] by (simp add: names_of_id_def)
  qed (simp_all add: own assms(2))
qed

lemma visualLoop_items:
  assumes "groups_fresh atts" "set rest \<subseteq> set atts" "\<forall>x \<in> set items. vi_attachmentNames x = names_of_id atts (vi_id x)"
  shows "\<forall>x \<in> set (visualLoop E atts rest consumed items). vi_attachmentNames x = names_of_id atts (vi_id x)"
  using assms(2,3)
proof (induction rest arbitrary: consumed items)
  case (Cons a rest)
  have "\<forall>x \<in> set (snd (visual_step E atts a consumed)). vi_attachmentNames x = names_of_id atts (vi_id x)"
    using Cons.prems(1) by (intro ballI visual_step_items [OF assms(1)]) simp_all
  then have "\<forall>x \<in> set (items @ snd (visual_step E atts a consumed)). vi_attachmentNames x = names_of_id atts (vi_id x)"
    using Cons.prems(2) by auto
  then show ?case unfolding visualLoop_step using Cons.prems(1) by (intro Cons.IH) simp_all
qed simp

lemma item_names_dedupe:
  assumes "\<forall>x \<in> set items. vi_attachmentNames x = f (vi_id x)"
  shows "item_names (dedupeVisualItems items) = item_names items"
proof -
  have d: "set (dedupeVisualItems items) \<subseteq> set items" "vi_id ` set (dedupeVisualItems items) = vi_id ` set items"
    using dedupe_from_set [of vi_id "{}" items] dedupe_from_keys [of vi_id "{}" items]
    by (auto simp: dedupeVisualItems_def)
  have i: "item_names xs = (\<Union>j \<in> vi_id ` set xs. set (f j))" if "set xs \<subseteq> set items" for xs
  proof -
    have "\<forall>x \<in> set xs. vi_attachmentNames x = f (vi_id x)" using that assms by blast
    then show ?thesis by (auto simp: item_names_def)
  qed
  show ?thesis using i [OF d(1)] i [of items] d(2) by simp
qed

lemma visual_items_names:
  assumes "groups_fresh atts"
  shows "att_name ` set atts \<subseteq> item_names (buildAttachmentVisualItems E atts)"
proof -
  have "\<forall>x \<in> set (visualLoop E atts atts [] []). vi_attachmentNames x = names_of_id atts (vi_id x)"
    by (rule visualLoop_items [OF assms]) auto
  from item_names_dedupe [OF this] visualLoop_covers [of atts atts "[]" "[]" E]
  show ?thesis by (simp add: buildAttachmentVisualItems_def)
qed

lemma nonvisual_category:
  assumes "\<not> isVisualAttachment a" "\<not> isPSD (att_type a)"
  shows "categorizeFile (att_type a) None = cat_audio \<or> categorizeFile (att_type a) None = cat_document"
proof -
  have "\<not> startsWith (att_type a) (js ''image/'')" "\<not> startsWith (att_type a) (js ''video'')"
    using assms by (auto simp: isVisualAttachment_def getAttachmentType_def isImage_def Let_def split: if_splits)
  moreover from this(2) have "\<not> startsWith (att_type a) (js ''video/'')"
    using startsWith_append [of "att_type a" "js ''video''" "js ''/''"] by (auto simp: js_def)
  ultimately show ?thesis by (simp add: categorizeFile_def)
qed

lemma groupItems_members:
  assumes "f \<in> set fs"
  shows "\<exists>i \<in> set (groupItems g fs). lf_previewUrl f \<in> set (it_memberIds i)"
proof -
  have all: "\<exists>i \<in> set (map fileToItem fs). lf_previewUrl f \<in> set (it_memberIds i)"
    using assms by (auto simp: fileToItem_def Let_def intro!: bexI [of _ f])
  show ?thesis
  proof (cases "\<exists>s v. find (\<lambda>f. isLivePhoto STILL (lf_motionMedia f)) fs = Some s
      \<and> find (\<lambda>f. isLivePhoto VIDEO (lf_motionMedia f)) fs = Some v \<and> length fs = 2")
    case False
    then have "groupItems g fs = map fileToItem fs" by (auto simp: groupItems_def split: option.splits)
    with all show ?thesis by simp
  next
    case True
    then obtain s v where sv: "find (\<lambda>f. isLivePhoto STILL (lf_motionMedia f)) fs = Some s"
      "find (\<lambda>f. isLivePhoto VIDEO (lf_motionMedia f)) fs = Some v" "length fs = 2" by blast
    from find_SomeD [OF sv(1)] find_SomeD [OF sv(2)]
    have m: "s \<in> set fs" "v \<in> set fs" "s \<noteq> v" by (auto simp: isLivePhoto_def split: option.splits)
    obtain x y where "fs = [x, y]" using sv(3) by (auto simp: numeral_2_eq_2 length_Suc_conv)
    with m assms have "f = s \<or> f = v" by auto
    then show ?thesis using sv by (auto simp: groupItems_def)
  qed
qed

lemma local_items_members:
  assumes "f \<in> set fs"
  shows "\<exists>i \<in> set (toLocalMotionItems fs). lf_previewUrl f \<in> set (it_memberIds i)"
proof (cases "localGroupId f")
  case None
  then show ?thesis using assms
    by (auto simp: toLocalMotionItems_def Let_def fileToItem_def intro!: bexI [of _ "fileToItem f"])
next
  case (Some g)
  let ?fs = "filter (\<lambda>f. localGroupId f = Some g) fs"
  have g: "g \<in> set (List.map_filter localGroupId fs)"
    using assms Some by (force simp: List.map_filter_def)
  have "f \<in> set ?fs" using assms Some by simp
  from groupItems_members [OF this, of g] obtain i
    where i: "i \<in> set (groupItems g ?fs)" "lf_previewUrl f \<in> set (it_memberIds i)" by blast
  from i(1) g have "i \<in> set (toLocalMotionItems fs)" by (auto simp: toLocalMotionItems_def Let_def)
  with i(2) show ?thesis by blast
qed

section \<open>Properties\<close>

text \<open>C14. Nothing is lost in the list of attachments of the editor: every stored attachment, other than a
  Photoshop file without motion media, and every local file is a member of an item, however live
  photos and motion photos are grouped, provided that no motion group id equals an attachment name.\<close>

theorem attachment_items_complete:
  assumes "groups_fresh (filter isVisualAttachment atts)"
  shows "(\<forall>a \<in> set atts. (isPSD (att_type a) \<longrightarrow> att_motionMedia a \<noteq> None) \<longrightarrow>
      (\<exists>i \<in> set (toAttachmentItems E atts fs). att_name a \<in> set (it_memberIds i)))
    \<and> (\<forall>f \<in> set fs. \<exists>i \<in> set (toAttachmentItems E atts fs). lf_previewUrl f \<in> set (it_memberIds i))"
proof (intro conjI ballI impI)
  let ?v = "buildAttachmentVisualItems E (filter isVisualAttachment atts)"
  fix a assume a: "a \<in> set atts" "isPSD (att_type a) \<longrightarrow> att_motionMedia a \<noteq> None"
  show "\<exists>i \<in> set (toAttachmentItems E atts fs). att_name a \<in> set (it_memberIds i)"
  proof (cases "att_name a \<in> item_names ?v")
    case True
    then obtain x where x: "x \<in> set ?v" "att_name a \<in> set (vi_attachmentNames x)"
      by (auto simp: item_names_def)
    then have "visualItemToAttachmentItem x \<in> set (toAttachmentItems E atts fs)"
      by (simp add: toAttachmentItems_def Let_def)
    with x(2) show ?thesis by (intro bexI) (simp_all add: visualItemToAttachmentItem_def)
  next
    case False
    then have "\<not> isVisualAttachment a" using visual_items_names [OF assms, of E] a(1) by auto
    moreover from this a(2) have "\<not> isPSD (att_type a)" by (auto simp: isVisualAttachment_def)
    ultimately have "it_category (attachmentGroupToItem E a) = cat_audio
        \<or> it_category (attachmentGroupToItem E a) = cat_document"
      using nonvisual_category by (simp add: attachmentGroupToItem_def Let_def)
    then have "attachmentGroupToItem E a \<in> set (toAttachmentItems E atts fs)"
      using a(1) False by (auto simp: toAttachmentItems_def Let_def item_names_def)
    then show ?thesis by (intro bexI) (simp_all add: attachmentGroupToItem_def Let_def)
  qed
next
  fix f assume "f \<in> set fs"
  from local_items_members [OF this] show "\<exists>i \<in> set (toAttachmentItems E atts fs). lf_previewUrl f \<in> set (it_memberIds i)"
    by (auto simp: toAttachmentItems_def Let_def)
qed

theorem attachment_items_complete_witness:
  "\<exists>i \<in> set (toAttachmentItems \<lparr>origin = [], shareUrl = (\<lambda>_ _. None)\<rparr>
      [empty_attachment\<lparr>att_name := [7], att_type := js ''image/png''\<rparr>] []). [7] \<in> set (it_memberIds i)"
  using attachment_items_complete [of "[empty_attachment\<lparr>att_name := [7], att_type := js ''image/png''\<rparr>]"
      "\<lparr>origin = [], shareUrl = (\<lambda>_ _. None)\<rparr>" "[]"]
  by (simp add: groups_fresh_def getAttachmentMotionGroupId_def empty_attachment_def isPSD_def js_def)

text \<open>A Photoshop file is an image for the category but not for the type, so it is in neither list.\<close>

lemma photoshop_attachment_hidden:
  assumes "isPSD (att_type a)" "att_motionMedia a = None"
  shows "toAttachmentItems E [a] [] = []"
proof -
  have v: "\<not> isVisualAttachment a"
    using assms by (auto simp: isVisualAttachment_def getAttachmentType_def isImage_def isPSD_def Let_def
        startsWith_def strIncludes_def js_def)
  have "it_category (attachmentGroupToItem E a) = cat_image"
    using assms by (auto simp: attachmentGroupToItem_def categorizeFile_def isPSD_def startsWith_def js_def Let_def)
  with v show ?thesis
    by (simp add: toAttachmentItems_def buildAttachmentVisualItems_def dedupeVisualItems_def
        toLocalMotionItems_def Let_def set_of_def List.map_filter_def)
qed

end
