(* ===== verification/Memo_Filters.thy ===== *)
theory Memo_Filters
  imports JS_URI Proto_Types Routes
begin

text \<open>
  The filters of memo lists: their URL form and the provider that keeps URL and state in step
  (\<^verbatim>\<open>web/src/contexts/MemoFilterContext.tsx\<close>), resource names (\<^verbatim>\<open>web/src/lib/resource-names.ts\<close>), CEL
  conditions (\<^verbatim>\<open>web/src/lib/cel-filter.ts\<close>, \<^verbatim>\<open>web/src/hooks/useMemoFilters.ts\<close>) and day ranges
  (\<^verbatim>\<open>web/src/lib/calendar-utils.ts\<close>). The time zone of the viewer is an argument.
\<close>

section \<open>JSON string literals\<close>

text \<open>\<open>JSON.stringify\<close> of a string: quotes, backslashes, control characters and lone surrogates are
  escaped.\<close>

definition hex4 :: "nat \<Rightarrow> jsstr" where
  "hex4 v = (let h = (\<lambda>n. if n < 10 then 48 + n else 87 + n)
     in [h (v div 4096 mod 16), h (v div 256 mod 16), h (v div 16 mod 16), h (v mod 16)])"

definition jsonEscape :: "nat \<Rightarrow> jsstr" where
  "jsonEscape v =
     (if v = 34 then [92, 34] else if v = 92 then [92, 92] else if v = 8 then [92, 98]
      else if v = 12 then [92, 102] else if v = 10 then [92, 110] else if v = 13 then [92, 114]
      else if v = 9 then [92, 116]
      else if v < 32 \<or> isSurrogate v then [92, 117] @ hex4 v
      else fromCodePoint v)"

definition jsonString :: "jsstr \<Rightarrow> jsstr" where
  "jsonString s = [34] @ concat (map jsonEscape (codePoints s)) @ [34]"

section \<open>Filters in the URL\<close>

record MemoFilter =
  factor :: jsstr
  filter_value :: jsstr

definition FilterFactors :: "jsstr list" where
  "FilterFactors = [js ''tagSearch'', js ''visibility'', js ''contentSearch'', js ''celSearch'', js ''displayTime'',
     js ''pinned'', js ''property.hasLink'', js ''property.hasTaskList'', js ''property.hasCode'',
     js ''property.hasLocation'']"

definition getMemoFilterKey :: "MemoFilter \<Rightarrow> jsstr" where
  "getMemoFilterKey f = factor f @ js '':'' @ filter_value f"

definition parseFilterPart :: "jsstr \<Rightarrow> MemoFilter option" where
  "parseFilterPart filterStr =
     (let fac = takeWhile (\<lambda>c. c \<noteq> 58) filterStr;
          v = tl (dropWhile (\<lambda>c. c \<noteq> 58) filterStr)
      in map_option (\<lambda>d. \<lparr>factor = fac, filter_value = d\<rparr>) (decodeURIComponent v))"

text \<open>A malformed escape anywhere throws inside the \<open>try\<close>, so there is no filter at all.\<close>

definition parseFilterQuery :: "jsstr option \<Rightarrow> MemoFilter list" where
  "parseFilterQuery query =
     (if \<not> truthy query then []
      else let parts = map parseFilterPart (split_on 44 (the query))
           in if list_ex (\<lambda>p. p = None) parts then [] else map the parts)"

text \<open>\<open>None\<close> when \<open>encodeURIComponent\<close> throws.\<close>

definition stringifyFilters :: "MemoFilter list \<Rightarrow> jsstr option" where
  "stringifyFilters filters =
     (let parts = map (\<lambda>f. map_option (\<lambda>e. factor f @ js '':'' @ e) (encodeURIComponent (filter_value f))) filters
      in if list_ex (\<lambda>p. p = None) parts then None else Some (join [44] (map the parts)))"

definition getFilterSearch :: "MemoFilter list \<Rightarrow> jsstr option" where
  "getFilterSearch filters =
     map_option (\<lambda>q. if q \<noteq> [] then js ''?'' @ searchParams_toString [(js ''filter'', q)] else [])
       (stringifyFilters filters)"

definition isSearchFilter :: "MemoFilter \<Rightarrow> bool" where
  "isSearchFilter f \<longleftrightarrow> factor f = js ''contentSearch'' \<or> factor f = js ''celSearch''"

definition replaceFiltersByFactor :: "MemoFilter list \<Rightarrow> jsstr \<Rightarrow> MemoFilter list \<Rightarrow> MemoFilter list" where
  "replaceFiltersByFactor filters fac replacements =
     filter (\<lambda>f. factor f \<noteq> fac) filters @ replacements"

section \<open>The provider\<close>

text \<open>\<open>filters\<close> is the committed state, \<open>queued\<close> a state update for the next render, \<open>url\<close> the value of
  the \<open>filter\<close> parameter (empty when absent).\<close>

record provider =
  filters :: "MemoFilter list"
  queued :: "MemoFilter list option"
  memoView :: "jsstr option"
  url :: jsstr
  skipStoreSync :: bool
  lastSyncedUrl :: jsstr
  lastSyncedStore :: jsstr

definition provider_mount :: "jsstr \<Rightarrow> provider" where
  "provider_mount u = \<lparr>filters = parseFilterQuery (Some u), queued = None, memoView = None, url = u,
     skipStoreSync = False, lastSyncedUrl = [], lastSyncedStore = []\<rparr>"

text \<open>The effect on a changed URL.\<close>

definition url_effect :: "provider \<Rightarrow> provider option" where
  "url_effect p =
     (if url p \<noteq> lastSyncedUrl p then
        (let newFilters = parseFilterQuery (Some (url p))
         in case stringifyFilters newFilters of
              None \<Rightarrow> None
            | Some s \<Rightarrow> Some (p\<lparr>skipStoreSync := True, lastSyncedUrl := url p, queued := Some newFilters,
                                lastSyncedStore := s\<rparr>))
      else Some p)"

text \<open>The effect on changed filters or a changed URL.\<close>

definition store_effect :: "provider \<Rightarrow> provider option" where
  "store_effect p =
     (if skipStoreSync p then Some (p\<lparr>skipStoreSync := False\<rparr>)
      else case stringifyFilters (filters p) of
             None \<Rightarrow> None
           | Some storeString \<Rightarrow>
               if storeString \<noteq> lastSyncedStore p \<and> storeString \<noteq> lastSyncedUrl p
               then let u = (if length (filters p) > 0 then storeString else [])
                    in Some (p\<lparr>lastSyncedStore := storeString, url := u, lastSyncedUrl := u\<rparr>)
               else Some p)"

definition render :: "provider \<Rightarrow> provider" where
  "render p = (case queued p of None \<Rightarrow> p | Some fs \<Rightarrow> p\<lparr>filters := fs, queued := None\<rparr>)"

text \<open>A commit after navigation: both effects run; then the queued state is rendered and the second effect
  runs for it.\<close>

definition navigated :: "jsstr \<Rightarrow> provider \<Rightarrow> provider option" where
  "navigated u p =
     Option.bind (url_effect (p\<lparr>url := u\<rparr>)) (\<lambda>p1.
     Option.bind (store_effect p1) (\<lambda>p2. store_effect (render p2)))"

text \<open>A state change by the user: the second effect runs, and both run once more when it changed the URL.\<close>

definition filters_changed :: "MemoFilter list \<Rightarrow> provider \<Rightarrow> provider option" where
  "filters_changed fs p =
     Option.bind (store_effect (p\<lparr>filters := fs\<rparr>)) (\<lambda>p1.
     if url p1 = url p then Some p1
     else Option.bind (url_effect p1) (\<lambda>p2. store_effect (render p2)))"

definition getFiltersByFactor :: "provider \<Rightarrow> jsstr \<Rightarrow> MemoFilter list" where
  "getFiltersByFactor p fac = filter (\<lambda>f. factor f = fac) (filters p)"

definition setFilters :: "MemoFilter list \<Rightarrow> MemoFilter list \<Rightarrow> MemoFilter list" where
  "setFilters newFilters prev = newFilters"

text \<open>\<open>uniqBy\<close> keeps the first filter of every key.\<close>

definition addFilter :: "MemoFilter \<Rightarrow> MemoFilter list \<Rightarrow> MemoFilter list" where
  "addFilter f prev = dedupe_from getMemoFilterKey {} (prev @ [f])"

definition removeFilter :: "(MemoFilter \<Rightarrow> bool) \<Rightarrow> MemoFilter list \<Rightarrow> MemoFilter list" where
  "removeFilter predicate prev = filter (\<lambda>f. \<not> predicate f) prev"

definition removeFiltersByFactor :: "jsstr \<Rightarrow> MemoFilter list \<Rightarrow> MemoFilter list" where
  "removeFiltersByFactor fac prev = filter (\<lambda>f. factor f \<noteq> fac) prev"

definition clearAllFilters :: "provider \<Rightarrow> provider option" where
  "clearAllFilters p = filters_changed [] (p\<lparr>memoView := None\<rparr>)"

definition setMemoView :: "jsstr option \<Rightarrow> provider \<Rightarrow> provider" where
  "setMemoView newMemoView p = p\<lparr>memoView := newMemoView\<rparr>"

definition hasFilter :: "MemoFilter \<Rightarrow> provider \<Rightarrow> bool" where
  "hasFilter f p = list_ex (\<lambda>g. getMemoFilterKey g = getMemoFilterKey f) (filters p)"

definition hasActiveFilters :: "provider \<Rightarrow> bool" where
  "hasActiveFilters p \<longleftrightarrow> length (filters p) > 0 \<or> memoView p \<noteq> None"

section \<open>Resource names\<close>

definition userNamePrefix :: jsstr where "userNamePrefix = js ''users/''"
definition memoNamePrefix :: jsstr where "memoNamePrefix = js ''memos/''"
definition identityProviderNamePrefix :: jsstr where "identityProviderNamePrefix = js ''identity-providers/''"

definition buildMemoCreatorFilter :: "jsstr \<Rightarrow> jsstr option" where
  "buildMemoCreatorFilter name =
     (if name = [] then None
      else let normalizedName = (if startsWith name userNamePrefix then name else userNamePrefix @ name)
           in Some (js ''creator == '' @ jsonString normalizedName))"

text \<open>\<open>s.split(sep).pop()\<close> for a non-empty separator: what follows its last non-overlapping occurrence.\<close>

function lastPart :: "jsstr \<Rightarrow> jsstr \<Rightarrow> jsstr" where
  "lastPart sep s =
     (case indexOf s sep of
        None \<Rightarrow> s
      | Some i \<Rightarrow> if sep = [] then s else lastPart sep (drop (i + length sep) s))"
  by pat_completeness auto
termination
proof (relation "measure (\<lambda>(sep, s). length s)", goal_cases)
  case (2 sep s i)
  have "i + length sep \<le> length s" if "indexOf s sep = Some i" for i
    using that
  proof (induction s arbitrary: i)
    case Nil
    then show ?case by (simp split: if_splits)
  next
    case (Cons c s)
    show ?case
    proof (cases "startsWith (c # s) sep")
      case True
      then have "length (take (length sep) (c # s)) = length sep" by (simp add: startsWith_def)
      then show ?thesis using Cons.prems True by simp
    next
      case False
      then show ?thesis using Cons by auto
    qed
  qed
  from this [OF 2(1)] 2(2) show ?case by (cases s) auto
qed simp

declare lastPart.simps [simp del]

definition extractMemoIdFromName :: "jsstr \<Rightarrow> jsstr" where
  "extractMemoIdFromName name = lastPart memoNamePrefix name"

definition extractUsernameFromName :: "jsstr \<Rightarrow> jsstr" where
  "extractUsernameFromName name =
     (if startsWith name userNamePrefix then drop (length userNamePrefix) name else name)"

definition extractIdentityProviderUidFromName :: "jsstr \<Rightarrow> jsstr" where
  "extractIdentityProviderUidFromName name = lastPart identityProviderNamePrefix name"

text \<open>\<open>None\<close> is a number on the wire that the enumeration does not name.\<close>

definition getVisibilityName :: "Visibility option \<Rightarrow> jsstr" where
  "getVisibilityName vis =
     (case vis of
        None \<Rightarrow> js ''PUBLIC''
      | Some v \<Rightarrow>
          (case v of VISIBILITY_UNSPECIFIED \<Rightarrow> js ''VISIBILITY_UNSPECIFIED'' | PRIVATE \<Rightarrow> js ''PRIVATE''
           | PROTECTED \<Rightarrow> js ''PROTECTED'' | PUBLIC \<Rightarrow> js ''PUBLIC'' | SPACE \<Rightarrow> js ''SPACE''))"

definition spaceScopedCacheKey :: "jsstr \<Rightarrow> jsstr option \<Rightarrow> jsstr" where
  "spaceScopedCacheKey baseKey spaceName =
     (if truthy spaceName then baseKey @ js '':'' @ the spaceName else baseKey)"

section \<open>CEL conditions\<close>

definition combineCELFilters :: "jsstr option list \<Rightarrow> jsstr option" where
  "combineCELFilters fs =
     (let conditions = map the (filter truthy fs)
      in if length conditions = 0 then None
         else Some (join (js '' && '') (map (\<lambda>f. js ''('' @ f @ js '')'') conditions)))"

datatype CollectionScope = all_collections | in_space jsstr

definition buildCollectionScopeFilter :: "CollectionScope \<Rightarrow> jsstr option" where
  "buildCollectionScopeFilter scope =
     (case scope of all_collections \<Rightarrow> None | in_space name \<Rightarrow> Some (js ''space == '' @ jsonString name))"

section \<open>Day ranges\<close>

text \<open>The viewer's time zone: \<open>new Date(year, monthIndex, day)\<close>, the local fields of an instant and
  \<open>setDate(getDate() + 1)\<close>, all in milliseconds.\<close>

record time_zone =
  mkLocal :: "int \<Rightarrow> int \<Rightarrow> int \<Rightarrow> int"
  localFields :: "int \<Rightarrow> int \<times> int \<times> int"
  nextDay :: "int \<Rightarrow> int"

datatype MemoTimeBasis = create_time | update_time

definition parseLocalDate :: "time_zone \<Rightarrow> jsstr \<Rightarrow> int option" where
  "parseLocalDate Z val =
     (if length val = 10 \<and> val ! 4 = 45 \<and> val ! 7 = 45
         \<and> list_all isDigit (take 4 val) \<and> list_all isDigit (slice val 5 7) \<and> list_all isDigit (slice val 8 10)
      then let year = int (undec (take 4 val)); month = int (undec (slice val 5 7));
               day = int (undec (slice val 8 10)); candidate = mkLocal Z year (month - 1) day
           in if localFields Z candidate \<noteq> (year, month - 1, day) then None else Some candidate
      else None)"

record LocalTimestampRange =
  startTimestamp :: int
  endTimestamp :: int

definition toRange :: "int \<Rightarrow> int \<Rightarrow> LocalTimestampRange" where
  "toRange start end' = \<lparr>startTimestamp = start div 1000, endTimestamp = end' div 1000\<rparr>"

definition getLocalDayTimestampRange :: "time_zone \<Rightarrow> jsstr \<Rightarrow> LocalTimestampRange option" where
  "getLocalDayTimestampRange Z val =
     (case parseLocalDate Z val of None \<Rightarrow> None | Some start \<Rightarrow> Some (toRange start (nextDay Z start)))"

definition getLocalMonthTimestampRange :: "time_zone \<Rightarrow> jsstr \<Rightarrow> LocalTimestampRange option" where
  "getLocalMonthTimestampRange Z val =
     (case parseLocalDate Z (val @ js ''-01'') of
        None \<Rightarrow> None
      | Some start \<Rightarrow>
          (case localFields Z start of (y, m, d) \<Rightarrow> Some (toRange start (mkLocal Z y (m + 1) 1))))"

definition getTimeBasisField :: "MemoTimeBasis \<Rightarrow> jsstr" where
  "getTimeBasisField timeBasis = (if timeBasis = update_time then js ''updated_ts'' else js ''created_ts'')"

definition num :: "int \<Rightarrow> jsstr" where
  "num n = (if n < 0 then 45 # dec (nat (- n)) else dec (nat n))"

definition buildTimestampRangeFilter :: "jsstr \<Rightarrow> LocalTimestampRange \<Rightarrow> jsstr" where
  "buildTimestampRangeFilter field rng =
     field @ js '' >= timestamp('' @ num (startTimestamp rng) @ js '') && '' @ field @
     js '' < timestamp('' @ num (endTimestamp rng) @ js '')''"

definition withTimestampRange ::
  "jsstr option \<Rightarrow> LocalTimestampRange option \<Rightarrow> MemoTimeBasis \<Rightarrow> jsstr option" where
  "withTimestampRange f rng timeBasis =
     (case rng of None \<Rightarrow> f
      | Some r \<Rightarrow> combineCELFilters [f, Some (buildTimestampRangeFilter (getTimeBasisField timeBasis) r)])"

section \<open>The filter of a memo list\<close>

definition BUILTIN_TASKS_VIEW_ID :: jsstr where "BUILTIN_TASKS_VIEW_ID = js ''__built_in_tasks__''"
definition BUILTIN_TASKS_VIEW_FILTER :: jsstr where
  "BUILTIN_TASKS_VIEW_FILTER = js ''has_task_list && has_incomplete_tasks''"

record BuildMemoFilterOptions =
  bf_creatorName :: "jsstr option"
  bf_currentMemoView :: "jsstr option"
  bf_filters :: "MemoFilter list"
  bf_includePinned :: bool
  bf_selectedMemoViewFilter :: "jsstr option"
  bf_visibilities :: "Visibility option list option"
  bf_timeBasis :: "MemoTimeBasis option"

definition filterCondition :: "time_zone \<Rightarrow> bool \<Rightarrow> MemoTimeBasis \<Rightarrow> MemoFilter \<Rightarrow> jsstr list" where
  "filterCondition Z includePinned timeBasis f =
     (if factor f = js ''contentSearch'' then [js ''content.contains('' @ jsonString (filter_value f) @ js '')'']
      else if factor f = js ''celSearch'' then [filter_value f]
      else if factor f = js ''tagSearch'' then [js ''tag in ['' @ jsonString (filter_value f) @ js '']'']
      else if factor f = js ''pinned'' then (if includePinned then [js ''pinned''] else [])
      else if factor f = js ''property.hasLink'' then [js ''has_link'']
      else if factor f = js ''property.hasTaskList'' then [js ''has_task_list'']
      else if factor f = js ''property.hasCode'' then [js ''has_code'']
      else if factor f = js ''property.hasLocation'' then [js ''has_location'']
      else if factor f = js ''displayTime'' then
        (case getLocalDayTimestampRange Z (filter_value f) of
           None \<Rightarrow> [] | Some rng \<Rightarrow> [buildTimestampRangeFilter (getTimeBasisField timeBasis) rng])
      else [])"

definition buildMemoFilter :: "time_zone \<Rightarrow> BuildMemoFilterOptions \<Rightarrow> jsstr option" where
  "buildMemoFilter Z opts =
     (let timeBasis = (case bf_timeBasis opts of None \<Rightarrow> create_time | Some b \<Rightarrow> b);
          creator = (if truthy (bf_creatorName opts)
                     then (case buildMemoCreatorFilter (the (bf_creatorName opts)) of
                             None \<Rightarrow> [] | Some c \<Rightarrow> if c = [] then [] else [c]) else []);
          view = (if bf_currentMemoView opts = Some BUILTIN_TASKS_VIEW_ID then [BUILTIN_TASKS_VIEW_FILTER]
                  else if truthy (bf_selectedMemoViewFilter opts) then [the (bf_selectedMemoViewFilter opts)] else []);
          facets = concat (map (filterCondition Z (bf_includePinned opts) timeBasis) (bf_filters opts));
          vis = (case bf_visibilities opts of
                   None \<Rightarrow> []
                 | Some vs \<Rightarrow> if length vs > 0
                     then [js ''visibility in ['' @ join (js '', '')
                             (map (\<lambda>v. [34] @ getVisibilityName v @ [34]) vs) @ js '']''] else [])
      in combineCELFilters (map Some (creator @ view @ facets @ vis)))"

section \<open>URL form\<close>

text \<open>A filter that a query string can carry.\<close>

definition okFilter :: "MemoFilter \<Rightarrow> bool" where
  "okFilter f \<longleftrightarrow> 44 \<notin> set (factor f) \<and> 58 \<notin> set (factor f) \<and> js_string (filter_value f)
     \<and> encodeURIComponent (filter_value f) \<noteq> None"

lemma known_factor_ok: "fac \<in> set FilterFactors \<Longrightarrow> 44 \<notin> set fac \<and> 58 \<notin> set fac"
  by (auto simp: FilterFactors_def js_def)

lemma parseFilterPart_encoded:
  assumes "okFilter f" "encodeURIComponent (filter_value f) = Some e"
  shows "parseFilterPart (factor f @ js '':'' @ e) = Some f"
proof -
  have n: "\<And>c. c \<in> set (factor f) \<Longrightarrow> c \<noteq> 58" and v: "js_string (filter_value f)"
    using assms(1) by (auto simp: okFilter_def)
  have "takeWhile (\<lambda>c. c \<noteq> 58) (factor f @ js '':'' @ e) = factor f"
    "dropWhile (\<lambda>c. c \<noteq> 58) (factor f @ js '':'' @ e) = 58 # e"
    using n by (simp_all add: takeWhile_append dropWhile_append3 js_def)
  then show ?thesis using decode_encode [OF v assms(2)] by (simp add: parseFilterPart_def)
qed

definition filterPart :: "MemoFilter \<Rightarrow> jsstr" where
  "filterPart f = factor f @ js '':'' @ the (encodeURIComponent (filter_value f))"

lemma stringify_ok:
  assumes "list_all okFilter fs"
  shows "stringifyFilters fs = Some (join [44] (map filterPart fs))"
proof -
  let ?g = "\<lambda>f. map_option (\<lambda>e. factor f @ js '':'' @ e) (encodeURIComponent (filter_value f))"
  have "?g f = Some (filterPart f)" if "f \<in> set fs" for f
    using assms that by (auto simp: list_all_iff okFilter_def filterPart_def)
  then have "map ?g fs = map (\<lambda>f. Some (filterPart f)) fs" by simp
  then show ?thesis by (auto simp: stringifyFilters_def list_ex_iff comp_def Let_def simp del: map_eq_conv)
qed

lemma filterPart_no_comma: "okFilter f \<Longrightarrow> 44 \<notin> set (filterPart f)"
proof -
  assume ok: "okFilter f"
  then obtain e where e: "encodeURIComponent (filter_value f) = Some e" by (auto simp: okFilter_def)
  have "list_all uriComponentChar e" using ok encodeURIComponent_chars [OF _ e] by (simp add: okFilter_def)
  then have "44 \<notin> set e" by (auto simp: list_all_iff uriComponentChar_def uriUnescaped_def isAsciiAlnum_def isDigit_def isAsciiAlpha_def)
  with ok e show ?thesis by (simp add: filterPart_def okFilter_def js_def)
qed

lemma parse_join:
  assumes "list_all okFilter fs"
  shows "parseFilterQuery (Some (join [44] (map filterPart fs))) = fs"
proof (cases "fs = []")
  case False
  have parts: "split_on 44 (join [44] (map filterPart fs)) = map filterPart fs"
    using False assms filterPart_no_comma by (intro split_join) (auto simp: list_all_iff)
  have parse: "parseFilterPart (filterPart f) = Some f" if f: "f \<in> set fs" for f
  proof -
    have ok: "okFilter f" using assms f by (simp add: list_all_iff)
    then obtain e where "encodeURIComponent (filter_value f) = Some e" by (auto simp: okFilter_def)
    with parseFilterPart_encoded [OF ok this] show ?thesis by (simp add: filterPart_def)
  qed
  then have m: "map parseFilterPart (map filterPart fs) = map Some fs" by simp
  have "join [44] (map filterPart fs) \<noteq> []"
    using False by (cases fs; cases "tl fs") (auto simp: filterPart_def js_def)
  moreover have "map the (map Some fs) = fs" by (simp add: comp_def)
  ultimately show ?thesis
    by (auto simp: parseFilterQuery_def Let_def parts m list_ex_iff simp del: map_map)
qed (simp add: parseFilterQuery_def)

text \<open>What decoding returns is a string, so every parsed filter is well formed but for lone surrogates.\<close>

lemma js_string_append [simp]: "js_string (s @ t) \<longleftrightarrow> js_string s \<and> js_string t"
  by (auto simp: js_string_def)

lemma js_string_Cons: "js_string (c # s) \<longleftrightarrow> c < 65536 \<and> js_string s"
  by (simp add: js_string_def)

lemma js_string_subset: "set s \<subseteq> set t \<Longrightarrow> js_string t \<Longrightarrow> js_string s"
  by (auto simp: js_string_def)

lemma fromCodePoint_string: "v < 1114112 \<Longrightarrow> js_string (fromCodePoint v)"
  by (auto simp: js_string_def fromCodePoint_def)

lemma readByte_suffix: "readByte s = Some (b, r) \<Longrightarrow> set r \<subseteq> set s"
  by (induction s rule: readByte.induct) (auto split: if_splits option.splits)

lemma readContinuation_suffix: "readContinuation n v s = Some (w, r) \<Longrightarrow> set r \<subseteq> set s"
proof (induction n arbitrary: v s)
  case (Suc n)
  then obtain b q where b: "readByte s = Some (b, q)"
    "readContinuation n (64 * v + (b - 128)) q = Some (w, r)"
    by (auto split: option.splits if_splits)
  from Suc.IH [OF b(2)] readByte_suffix [OF b(1)] show ?case by blast
qed simp

lemma readContinuation_bound: "readContinuation n v s = Some (w, r) \<Longrightarrow> w < (v + 1) * 64 ^ n"
proof (induction n arbitrary: v s)
  case (Suc n)
  then obtain b q where b: "b < 192"
    "readContinuation n (64 * v + (b - 128)) q = Some (w, r)"
    by (auto split: option.splits if_splits)
  have "w < (64 * v + (b - 128) + 1) * 64 ^ n" by (rule Suc.IH [OF b(2)])
  also have "\<dots> \<le> (64 * (v + 1)) * 64 ^ n" using b(1) by (intro mult_right_mono) auto
  finally show ?case by (simp add: algebra_simps)
qed simp

lemma readEscape_range:
  assumes "readEscape s = Some (v, r)"
  shows "v < 1114112 \<and> set r \<subseteq> set s"
proof -
  obtain b q where b: "readByte s = Some (b, q)" using assms by (auto simp: readEscape_def split: option.splits)
  note [simp del] = readContinuation.simps One_nat_def
  note e = assms [unfolded readEscape_def b option.case prod.case]
  have "v < 1114112 \<and> set r \<subseteq> set q"
  proof (cases "b < 128")
    case False
    note e1 = e [unfolded if_not_P [OF False]]
    show ?thesis
    proof (cases "192 \<le> b \<and> b < 224")
      case True
      then have c: "readContinuation 1 (b - 192) q = Some (v, r)"
        using e1 by (simp split: option.splits prod.splits if_splits)
      then show ?thesis using readContinuation_suffix [OF c] readContinuation_bound [OF c] True by auto
    next
      case F2: False
      note e2 = e1 [unfolded if_not_P [OF F2]]
      show ?thesis
      proof (cases "224 \<le> b \<and> b < 240")
        case True
        then have c: "readContinuation 2 (b - 224) q = Some (v, r)"
          using e2 by (simp split: option.splits prod.splits if_splits)
        then show ?thesis using readContinuation_suffix [OF c] readContinuation_bound [OF c] True by auto
      next
        case F3: False
        then have c: "readContinuation 3 (b - 240) q = Some (v, r)" "v < 1114112"
          using e2 [unfolded if_not_P [OF F3]] by (simp_all split: option.splits prod.splits if_splits)
        then show ?thesis using readContinuation_suffix [OF c(1)] by simp
      qed
    qed
  qed (use e in simp)
  then show ?thesis using readByte_suffix [OF b] by blast
qed

lemma decode_string: "js_string s \<Longrightarrow> decodeURIComponent s = Some t \<Longrightarrow> js_string t"
proof (induction s arbitrary: t rule: decodeURIComponent.induct)
  case (2 c s)
  show ?case
  proof (cases "c = 37")
    case True
    then obtain v r t' where v: "readEscape (c # s) = Some (v, r)" "decodeURIComponent r = Some t'" "t = fromCodePoint v @ t'"
      using 2(4) by (auto split: option.splits)
    have "js_string r" using readEscape_range [OF v(1)] 2(3) js_string_subset by blast
    with 2(2) [of "(v, r)" v r t'] v True readEscape_range [OF v(1)] show ?thesis
      by (simp add: fromCodePoint_string)
  next
    case False
    with 2 show ?thesis by (auto simp: js_string_Cons)
  qed
qed (simp add: js_string_def)

lemma parseFilterPart_ok:
  assumes "js_string w" "44 \<notin> set w" "parseFilterPart w = Some f"
  shows "44 \<notin> set (factor f) \<and> 58 \<notin> set (factor f) \<and> js_string (filter_value f)"
proof -
  obtain d where d: "decodeURIComponent (tl (dropWhile (\<lambda>c. c \<noteq> 58) w)) = Some d"
    "f = \<lparr>factor = takeWhile (\<lambda>c. c \<noteq> 58) w, filter_value = d\<rparr>"
    using assms(3) by (auto simp: parseFilterPart_def Let_def)
  have "set (tl (dropWhile (\<lambda>c. c \<noteq> 58) w)) \<subseteq> set w"
    by (metis dual_order.trans list.set_sel(2) set_dropWhileD subsetI tl_Nil)
  then have "js_string d" using decode_string [OF _ d(1)] assms(1) js_string_subset by blast
  then show ?thesis using d(2) assms(2) by (auto dest: set_takeWhileD)
qed

lemma parse_ok:
  assumes "js_string u" "stringifyFilters (parseFilterQuery (Some u)) \<noteq> None"
  shows "list_all okFilter (parseFilterQuery (Some u))"
  unfolding list_all_iff
proof
  fix f
  assume f: "f \<in> set (parseFilterQuery (Some u))"
  then obtain w where w: "w \<in> set (split_on 44 u)" "parseFilterPart w = Some f"
  proof -
    have "f \<in> set (map the (map parseFilterPart (split_on 44 u)))" "None \<notin> parseFilterPart ` set (split_on 44 u)"
      using f by (auto simp: parseFilterQuery_def Let_def list_ex_iff split: if_splits)
    then obtain w where "w \<in> set (split_on 44 u)" "f = the (parseFilterPart w)" "parseFilterPart w \<noteq> None"
      by (auto simp: image_iff simp del: not_None_eq)
    then show thesis using that by auto
  qed
  have "js_string w" "44 \<notin> set w"
    using split_on_parts [OF w(1)] assms(1) js_string_subset by blast+
  moreover have "encodeURIComponent (filter_value f) \<noteq> None"
    using assms(2) f by (fastforce simp: stringifyFilters_def Let_def list_ex_iff split: if_splits)
  ultimately show "okFilter f" using parseFilterPart_ok [OF _ _ w(2)] by (simp add: okFilter_def)
qed

section \<open>URL and state agree\<close>

text \<open>Between two events the state is what the URL says.\<close>

definition in_sync :: "provider \<Rightarrow> bool" where
  "in_sync p \<longleftrightarrow> queued p = None \<and> \<not> skipStoreSync p \<and> lastSyncedUrl p = url p
     \<and> list_all okFilter (filters p) \<and> filters p = parseFilterQuery (Some (url p))
     \<and> stringifyFilters (filters p) = Some (lastSyncedStore p)"

lemma in_sync_stable:
  assumes "in_sync p"
  shows "url_effect p = Some p" "store_effect p = Some p" "render p = p"
proof -
  have a: "queued p = None" "\<not> skipStoreSync p" "lastSyncedUrl p = url p"
    "stringifyFilters (filters p) = Some (lastSyncedStore p)"
    using assms unfolding in_sync_def by blast+
  show "url_effect p = Some p" "store_effect p = Some p" "render p = p"
    by (simp_all add: a url_effect_def store_effect_def render_def)
qed

lemma navigated_in_sync:
  assumes "js_string u" "stringifyFilters (parseFilterQuery (Some u)) \<noteq> None" "u = lastSyncedUrl p \<longrightarrow> in_sync p"
    "skipStoreSync p \<longrightarrow> u \<noteq> lastSyncedUrl p"
  obtains p' where "navigated u p = Some p'" "in_sync p'" "url p' = u" "memoView p' = memoView p"
proof -
  obtain s where s: "stringifyFilters (parseFilterQuery (Some u)) = Some s" using assms(2) by auto
  show thesis
  proof (cases "u = lastSyncedUrl p")
    case True
    then have i: "in_sync p" using assms(3) by blast
    then have u: "url p = u" using True unfolding in_sync_def by simp
    then have "p\<lparr>url := u\<rparr> = p" by simp
    then have "navigated u p = Some p" by (simp add: navigated_def in_sync_stable [OF i])
    then show thesis using that i u by blast
  next
    case False
    let ?p = "p\<lparr>url := u, skipStoreSync := False, lastSyncedUrl := u, filters := parseFilterQuery (Some u),
      queued := None, lastSyncedStore := s\<rparr>"
    have "navigated u p = Some ?p"
      using False s by (simp add: navigated_def url_effect_def store_effect_def render_def)
    moreover have "in_sync ?p" using s parse_ok [OF assms(1,2)] by (simp add: in_sync_def)
    ultimately show thesis using that by simp
  qed
qed

lemma stringify_inject:
  assumes "list_all okFilter fs" "list_all okFilter gs" "stringifyFilters fs = stringifyFilters gs"
  shows "fs = gs"
proof -
  have "join [44] (map filterPart fs) = join [44] (map filterPart gs)"
    using assms(3) unfolding stringify_ok [OF assms(1)] stringify_ok [OF assms(2)] by simp
  then show ?thesis using parse_join [OF assms(1)] parse_join [OF assms(2)] by metis
qed

lemma filters_changed_in_sync:
  assumes "in_sync p" "list_all okFilter fs"
  obtains p' where "filters_changed fs p = Some p'" "in_sync p'" "filters p' = fs" "memoView p' = memoView p"
proof (cases "fs = filters p")
  case True
  have "p\<lparr>filters := fs\<rparr> = p" using True by simp
  then have "store_effect (p\<lparr>filters := fs\<rparr>) = Some p" using in_sync_stable [OF assms(1)] by simp
  then have "filters_changed fs p = Some p" by (simp add: filters_changed_def)
  with assms(1) True that show thesis by simp
next
  case False
  define s where "s = join [44] (map filterPart fs)"
  have s: "stringifyFilters fs = Some s" "parseFilterQuery (Some s) = fs"
    using assms(2) stringify_ok parse_join by (simp_all add: s_def)
  have store: "s \<noteq> lastSyncedStore p"
    using False stringify_inject [OF assms(2)] assms(1) s(1) by (auto simp: in_sync_def)
  have u: "s \<noteq> url p" using False s(2) assms(1) by (auto simp: in_sync_def)
  have e: "fs = [] \<Longrightarrow> s = []" by (simp add: s_def)
  have a: "queued p = None" "\<not> skipStoreSync p" "lastSyncedUrl p = url p"
    using assms(1) unfolding in_sync_def by blast+
  let ?p = "p\<lparr>filters := fs, lastSyncedStore := s, url := s, lastSyncedUrl := s\<rparr>"
  have 1: "store_effect (p\<lparr>filters := fs\<rparr>) = Some ?p"
    using a s(1) store u e by (auto simp: store_effect_def)
  have i: "in_sync ?p" using a assms(2) s by (simp add: in_sync_def)
  have "filters_changed fs p = Some ?p" using 1 in_sync_stable [OF i] u by (simp add: filters_changed_def)
  moreover note i
  ultimately show thesis using that by simp
qed

text \<open>A run of the provider: mounting under a URL, then navigation, changes of the filters by the user and
  of the memo view. A URL that a browser reports holds no lone surrogate, so its filters can be written
  back.\<close>

definition reported_url :: "jsstr \<Rightarrow> bool" where
  "reported_url u \<longleftrightarrow> js_string u \<and> stringifyFilters (parseFilterQuery (Some u)) \<noteq> None"

inductive provider_run :: "provider \<Rightarrow> bool" where
  mounted: "reported_url u \<Longrightarrow> navigated u (provider_mount u) = Some p \<Longrightarrow> provider_run p"
| moved: "provider_run p \<Longrightarrow> reported_url u \<Longrightarrow> navigated u p = Some p' \<Longrightarrow> provider_run p'"
| changed: "provider_run p \<Longrightarrow> list_all okFilter fs \<Longrightarrow> filters_changed fs p = Some p' \<Longrightarrow> provider_run p'"
| viewed: "provider_run p \<Longrightarrow> provider_run (setMemoView v p)"

lemma mount_in_sync: "in_sync (provider_mount [])"
  by (simp add: in_sync_def provider_mount_def parseFilterQuery_def stringifyFilters_def)

lemma provider_run_in_sync: "provider_run p \<Longrightarrow> in_sync p"
proof (induction rule: provider_run.induct)
  case (mounted u p)
  have "u = lastSyncedUrl (provider_mount u) \<longrightarrow> in_sync (provider_mount u)"
    using mount_in_sync by (simp add: provider_mount_def)
  moreover have "skipStoreSync (provider_mount u) \<longrightarrow> u \<noteq> lastSyncedUrl (provider_mount u)"
    by (simp add: provider_mount_def)
  ultimately obtain p' where "navigated u (provider_mount u) = Some p'" "in_sync p'"
    using navigated_in_sync [of u "provider_mount u"] mounted(1) unfolding reported_url_def by metis
  with mounted(2) show ?case by simp
next
  case (moved p u p')
  then have "\<not> skipStoreSync p" unfolding in_sync_def by blast
  then obtain q where "navigated u p = Some q" "in_sync q"
    using navigated_in_sync [of u p] moved unfolding reported_url_def by metis
  with moved show ?case by simp
next
  case (changed p fs p')
  then obtain q where "filters_changed fs p = Some q" "in_sync q" using filters_changed_in_sync by blast
  with changed show ?case by simp
next
  case (viewed p v)
  have "in_sync (setMemoView v p) = in_sync p" by (simp add: in_sync_def setMemoView_def)
  with viewed show ?case by blast
qed

lemma filters_follow_url_facts:
  assumes "provider_run p"
  shows "filters p = parseFilterQuery (Some (url p))"
    and "reported_url u \<Longrightarrow>
      \<exists>p'. navigated u p = Some p' \<and> url p' = u \<and> filters p' = parseFilterQuery (Some u) \<and> memoView p' = memoView p"
    and "list_all okFilter fs \<Longrightarrow>
      \<exists>p'. filters_changed fs p = Some p' \<and> filters p' = fs \<and> parseFilterQuery (Some (url p')) = fs
           \<and> memoView p' = memoView p"
proof -
  note i = provider_run_in_sync [OF assms]
  then show "filters p = parseFilterQuery (Some (url p))" unfolding in_sync_def by blast
  show "\<exists>p'. navigated u p = Some p' \<and> url p' = u \<and> filters p' = parseFilterQuery (Some u) \<and> memoView p' = memoView p"
    if u: "reported_url u"
  proof -
    have "\<not> skipStoreSync p" using i unfolding in_sync_def by blast
    then obtain q where "navigated u p = Some q" "in_sync q" "url q = u" "memoView q = memoView p"
      using navigated_in_sync [of u p] i u unfolding reported_url_def by metis
    then show ?thesis unfolding in_sync_def by blast
  qed
  show "\<exists>p'. filters_changed fs p = Some p' \<and> filters p' = fs \<and> parseFilterQuery (Some (url p')) = fs
      \<and> memoView p' = memoView p" if fs: "list_all okFilter fs"
  proof -
    obtain q where q: "filters_changed fs p = Some q" "in_sync q" "filters q = fs" "memoView q = memoView p"
      using filters_changed_in_sync [OF i fs] by blast
    then have "parseFilterQuery (Some (url q)) = fs" unfolding in_sync_def by metis
    with q show ?thesis by blast
  qed
qed

text \<open>C24. In every run the filters are those the URL spells. Navigation to a new URL neither fails nor is
  overwritten by the filters of the previous page, and a change of the filters ends with exactly those
  filters, readable back from the URL.\<close>

theorem filters_follow_url:
  assumes "provider_run p"
  shows "(filters p = parseFilterQuery (Some (url p)))
    \<and> (reported_url u \<longrightarrow>
      (\<exists>p'. navigated u p = Some p' \<and> url p' = u \<and> filters p' = parseFilterQuery (Some u) \<and> memoView p' = memoView p))
    \<and> (list_all okFilter fs \<longrightarrow>
      (\<exists>p'. filters_changed fs p = Some p' \<and> filters p' = fs \<and> parseFilterQuery (Some (url p')) = fs
           \<and> memoView p' = memoView p))"
  using filters_follow_url_facts [OF assms] by blast

lemma filters_follow_url_witness:
  "\<exists>p'. filters_changed [\<lparr>factor = js ''tagSearch'', filter_value = js ''a,b''\<rparr>] (provider_mount []) = Some p'
     \<and> filters p' = [\<lparr>factor = js ''tagSearch'', filter_value = js ''a,b''\<rparr>]
     \<and> parseFilterQuery (Some (url p')) = [\<lparr>factor = js ''tagSearch'', filter_value = js ''a,b''\<rparr>]
     \<and> memoView p' = None"
proof -
  have "reported_url []" by (simp add: reported_url_def js_string_def parseFilterQuery_def stringifyFilters_def)
  moreover have "navigated [] (provider_mount []) = Some (provider_mount [])"
    using in_sync_stable [OF mount_in_sync] by (simp add: navigated_def provider_mount_def)
  ultimately have "provider_run (provider_mount [])" by (rule mounted)
  moreover have "list_all okFilter [\<lparr>factor = js ''tagSearch'', filter_value = js ''a,b''\<rparr>]"
    by (simp add: okFilter_def js_def js_string_def encodeURIComponent_def isHighSurrogate_def isSurrogate_def)
  ultimately show ?thesis using filters_follow_url [THEN conjunct2, THEN conjunct2, rule_format] by (fastforce simp: provider_mount_def)
qed

section \<open>String literals cannot be broken out of\<close>

text \<open>A reader of JSON string literals: the string and what follows the closing quote.\<close>

fun readHex4 :: "jsstr \<Rightarrow> (nat \<times> jsstr) option" where
  "readHex4 (a # b # c # d # r) =
     (case (hexVal a, hexVal b, hexVal c, hexVal d) of
        (Some w, Some x, Some y, Some z) \<Rightarrow> Some (((w * 16 + x) * 16 + y) * 16 + z, r)
      | _ \<Rightarrow> None)"
| "readHex4 _ = None"

definition readJsonEscape :: "jsstr \<Rightarrow> (nat \<times> jsstr) option" where
  "readJsonEscape s =
     (case s of
        [] \<Rightarrow> None
      | e # r \<Rightarrow>
          if e = 117 then readHex4 r
          else map_option (\<lambda>v. (v, r))
            (map_of [(34, 34), (92, 92), (47, 47), (98, 8), (102, 12), (110, 10), (114, 13), (116, 9)] e))"

lemma readJsonEscape_shorter: "readJsonEscape s = Some (v, r) \<Longrightarrow> length r < length s"
proof -
  have "readHex4 q = Some (v, r) \<Longrightarrow> length r \<le> length q" for q
    by (induction q rule: readHex4.induct) (auto split: option.splits)
  moreover assume "readJsonEscape s = Some (v, r)"
  ultimately show ?thesis by (fastforce simp: readJsonEscape_def split: list.splits if_splits)
qed

function readLiteralBody :: "jsstr \<Rightarrow> (jsstr \<times> jsstr) option" where
  "readLiteralBody [] = None"
| "readLiteralBody (c # r) =
     (if c = 34 then Some ([], r)
      else if c = 92 then
        (case readJsonEscape r of
           None \<Rightarrow> None
         | Some (v, q) \<Rightarrow> map_option (\<lambda>(s, t). (v # s, t)) (readLiteralBody q))
      else if c < 32 then None
      else map_option (\<lambda>(s, t). (c # s, t)) (readLiteralBody r))"
  by pat_completeness auto
termination
  by (relation "measure length") (auto dest!: readJsonEscape_shorter)

definition readLiteral :: "jsstr \<Rightarrow> (jsstr \<times> jsstr) option" where
  "readLiteral s = (case s of [] \<Rightarrow> None | c # r \<Rightarrow> if c = 34 then readLiteralBody r else None)"

lemma hex4_digit: "n < 16 \<Longrightarrow> hexVal (if n < 10 then 48 + n else 87 + n) = Some n"
  by (auto simp: hexVal_def isDigit_def)

lemma readHex4_hex4:
  assumes "v < 65536"
  shows "readHex4 (hex4 v @ r) = Some (v, r)"
proof -
  have m: "v div 4096 mod 16 = v div 4096" using assms by auto
  have "((v div 4096 mod 16 * 16 + v div 256 mod 16) * 16 + v div 16 mod 16) * 16 + v mod 16 = v"
  proof -
    have d: "v div 16 div 16 = v div 256" "v div 256 div 16 = v div 4096" by (simp_all add: div_mult2_eq [symmetric])
    have "v div 4096 * 16 + v div 256 mod 16 = v div 256"
      using div_mult_mod_eq [of "v div 256" 16] d by simp
    moreover have "v div 256 * 16 + v div 16 mod 16 = v div 16"
      using div_mult_mod_eq [of "v div 16" 16] d by simp
    ultimately show ?thesis using div_mult_mod_eq [of v 16] m by simp
  qed
  then show ?thesis by (simp add: hex4_def Let_def hex4_digit) (use m in simp)
qed

lemma readLiteralBody_escape:
  assumes "v < 1114112"
  shows "readLiteralBody (jsonEscape v @ r) = map_option (\<lambda>(s, t). (fromCodePoint v @ s, t)) (readLiteralBody r)"
proof (cases "v < 32 \<or> isSurrogate v")
  case True
  then have "v < 65536" by (auto simp: isSurrogate_def)
  with True show ?thesis
    by (auto simp: jsonEscape_def readJsonEscape_def readHex4_hex4 fromCodePoint_def isSurrogate_def)
next
  case False
  then show ?thesis using assms
    by (cases "readLiteralBody r") (auto simp: jsonEscape_def readJsonEscape_def fromCodePoint_def)
qed

lemma readLiteral_jsonString:
  assumes "js_string s"
  shows "readLiteral (jsonString s @ r) = Some (s, r)"
proof -
  have "readLiteralBody (concat (map jsonEscape vs) @ [34] @ r) = Some (concat (map fromCodePoint vs), r)"
    if "\<And>v. v \<in> set vs \<Longrightarrow> v < 1114112" for vs
    using that by (induction vs) (simp_all add: readLiteralBody_escape)
  from this [of "codePoints s"] codePoints_range [OF assms] codePoints_units [OF assms]
  show ?thesis by (simp add: readLiteral_def jsonString_def)
qed

lemma cel_literals_safe_facts:
  assumes "js_string v"
  shows "\<exists>q. filterCondition Z pin basis \<lparr>factor = js ''contentSearch'', filter_value = v\<rparr> = [js ''content.contains('' @ q]
         \<and> readLiteral q = Some (v, js '')'')"
    and "\<exists>q. filterCondition Z pin basis \<lparr>factor = js ''tagSearch'', filter_value = v\<rparr> = [js ''tag in ['' @ q]
         \<and> readLiteral q = Some (v, js '']'')"
    and "\<exists>q. buildCollectionScopeFilter (in_space v) = Some (js ''space == '' @ q) \<and> readLiteral q = Some (v, [])"
    and "v \<noteq> [] \<Longrightarrow> \<exists>q. buildMemoCreatorFilter v = Some (js ''creator == '' @ q)
         \<and> readLiteral q = Some (userNamePrefix @ extractUsernameFromName v, [])"
proof -
  note read = readLiteral_jsonString [OF assms]
  show "\<exists>q. filterCondition Z pin basis \<lparr>factor = js ''contentSearch'', filter_value = v\<rparr> = [js ''content.contains('' @ q]
      \<and> readLiteral q = Some (v, js '')'')"
    using read [of "js '')''"] by (auto simp: filterCondition_def)
  show "\<exists>q. filterCondition Z pin basis \<lparr>factor = js ''tagSearch'', filter_value = v\<rparr> = [js ''tag in ['' @ q]
      \<and> readLiteral q = Some (v, js '']'')"
    using read [of "js '']''"] by (auto simp: filterCondition_def js_inject)
  show "\<exists>q. buildCollectionScopeFilter (in_space v) = Some (js ''space == '' @ q) \<and> readLiteral q = Some (v, [])"
    using read [of "[]"] by (auto simp: buildCollectionScopeFilter_def)
  assume "v \<noteq> []"
  moreover have "js_string (userNamePrefix @ v)"
    using assms by (simp add: userNamePrefix_def js_def js_string_def)
  moreover have "userNamePrefix @ extractUsernameFromName v = (if startsWith v userNamePrefix then v else userNamePrefix @ v)"
    by (auto simp: extractUsernameFromName_def startsWith_def) (metis append_take_drop_id)
  ultimately show "\<exists>q. buildMemoCreatorFilter v = Some (js ''creator == '' @ q)
      \<and> readLiteral q = Some (userNamePrefix @ extractUsernameFromName v, [])"
    using readLiteral_jsonString [of _ "[]"] assms by (auto simp: buildMemoCreatorFilter_def Let_def)
qed



end
