(* ===== verification/Query_Cache.thy ===== *)
theory Query_Cache
  imports Connect Proto_Types
begin

text \<open>
  The cached queries of memos (\<^verbatim>\<open>web/src/hooks/useMemoQueries.ts\<close>, \<^verbatim>\<open>web/src/lib/query-client.ts\<close>): keys, the
  content of the cache, patching and searching the cached lists, what happens to the cache when a memo is
  not readable any more, and the handlers of the create, update and delete mutations.

  The query client itself is a third-party package. Its operations are a record \<open>query_client\<close> of functions
  over an abstract cache (\<open>initialData\<close> is the initial data that the observers of a query declare); the locale \<open>query_client\<close> states the documented laws that the handlers rely on.
\<close>

section \<open>Keys and data\<close>

datatype key_part = S jsstr | R jsstr | N nat

type_synonym qkey = "key_part list"

definition memo_all :: qkey where "memo_all = [S (js ''memos'')]"
definition memo_lists :: qkey where "memo_lists = memo_all @ [S (js ''list'')]"
definition memo_details :: qkey where "memo_details = memo_all @ [S (js ''detail'')]"
definition memo_detail :: "jsstr \<Rightarrow> qkey" where "memo_detail n = memo_details @ [S n]"
definition memo_comments :: "jsstr \<Rightarrow> qkey" where "memo_comments n = memo_all @ [S (js ''comments''), S n]"
definition memo_linkMetadata :: "jsstr \<Rightarrow> qkey" where
  "memo_linkMetadata u = memo_all @ [S (js ''linkMetadata''), S u]"
definition attachment_lists :: qkey where "attachment_lists = [S (js ''attachments''), S (js ''list'')]"
definition attachment_detail :: "jsstr \<Rightarrow> qkey" where
  "attachment_detail n = [S (js ''attachments''), S (js ''detail''), S n]"
definition user_stats :: qkey where "user_stats = [S (js ''users''), S (js ''stats'')]"
definition user_notifications :: qkey where "user_notifications = [S (js ''users''), S (js ''notifications'')]"

text \<open>The request of a list query is an object compared by its serialisation.\<close>

definition memo_list :: "jsstr \<Rightarrow> qkey" where "memo_list request = memo_lists @ [R request]"

record ListMemosResponse =
  memos :: "Memo list"
  nextPageToken :: jsstr

datatype SpaceMember_Role = ROLE_UNSPECIFIED | ADMIN | USER

text \<open>An icon is opaque to the modelled code.\<close>

record Space =
  space_name :: jsstr
  space_title :: jsstr
  space_description :: jsstr
  space_currentUserRole :: SpaceMember_Role
  space_memberCount :: nat
  space_icon :: "jsstr option"

record SpaceMember =
  member_name :: jsstr
  member_user :: jsstr
  member_role :: SpaceMember_Role

record SpaceInvitation =
  inv_name :: jsstr
  inv_invitee :: jsstr
  inv_role :: SpaceMember_Role
  inv_space :: "Space option"

text \<open>What a query can hold. \<open>Unavailable\<close> is the \<open>null\<close> of a memo that cannot be read.\<close>

datatype cached =
    ListData ListMemosResponse
  | InfiniteData "ListMemosResponse list" "jsstr list"
  | DetailData Memo
  | Unavailable
  | SpaceList "Space list"
  | SpaceData Space
  | MemberList "SpaceMember list"
  | InvitationList "SpaceInvitation list"
  | UserData User
  | NotificationList "UserNotification list"
  | OtherData jsstr

record query_state =
  isInvalidated :: bool
  dataUpdatedAt :: nat

section \<open>The query client\<close>

text \<open>\<open>findKeys\<close> lists the keys of the queries below a prefix, in cache order; with \<open>getQueryData\<close> it is
  \<open>getQueriesData\<close>.\<close>

record 'c query_client =
  getQueryData :: "'c \<Rightarrow> qkey \<Rightarrow> cached option"
  getQueryState :: "'c \<Rightarrow> qkey \<Rightarrow> query_state option"
  findKeys :: "qkey \<Rightarrow> 'c \<Rightarrow> qkey list"
  setQueryData :: "qkey \<Rightarrow> cached \<Rightarrow> 'c \<Rightarrow> 'c"
  setQueriesData :: "qkey \<Rightarrow> (cached \<Rightarrow> cached) \<Rightarrow> 'c \<Rightarrow> 'c"
  invalidateQueries :: "qkey \<Rightarrow> 'c \<Rightarrow> 'c"
  invalidateExact :: "qkey \<Rightarrow> 'c \<Rightarrow> 'c"
  cancelQueries :: "qkey \<Rightarrow> 'c \<Rightarrow> 'c"
  removeQueries :: "qkey \<Rightarrow> 'c \<Rightarrow> 'c"
  resetQueries :: "qkey \<Rightarrow> 'c \<Rightarrow> 'c"
  initialData :: "'c \<Rightarrow> qkey \<Rightarrow> cached option"

section \<open>Patches\<close>

text \<open>A partial memo object: \<open>None\<close> is an absent property. The optional properties of a memo can be present
  with the value \<open>undefined\<close>, which is \<open>Some None\<close>.\<close>

record MemoPatch =
  mp_name :: jsstr
  mp_state :: "State option"
  mp_creator :: "jsstr option"
  mp_createTime :: "timestamp option option"
  mp_updateTime :: "timestamp option option"
  mp_content :: "jsstr option"
  mp_visibility :: "Visibility option"
  mp_tags :: "jsstr list option"
  mp_pinned :: "bool option"
  mp_attachments :: "Attachment list option"
  mp_relations :: "MemoRelation list option"
  mp_reactions :: "Reaction list option"
  mp_property :: "Memo_Property option option"
  mp_parent :: "jsstr option option"
  mp_snippet :: "jsstr option"
  mp_location :: "Location option option"
  mp_space :: "jsstr option option"

definition given :: "'a option \<Rightarrow> 'a \<Rightarrow> 'a" where
  "given p x = (case p of None \<Rightarrow> x | Some y \<Rightarrow> y)"

text \<open>\<open>{ ...memo, ...update }\<close>\<close>

definition spread :: "Memo \<Rightarrow> MemoPatch \<Rightarrow> Memo" where
  "spread m u = \<lparr>memo_name = mp_name u, memo_state = given (mp_state u) (memo_state m),
     memo_creator = given (mp_creator u) (memo_creator m),
     memo_createTime = given (mp_createTime u) (memo_createTime m),
     memo_updateTime = given (mp_updateTime u) (memo_updateTime m),
     memo_content = given (mp_content u) (memo_content m),
     memo_visibility = given (mp_visibility u) (memo_visibility m),
     memo_tags = given (mp_tags u) (memo_tags m), memo_pinned = given (mp_pinned u) (memo_pinned m),
     memo_attachments = given (mp_attachments u) (memo_attachments m),
     memo_relations = given (mp_relations u) (memo_relations m),
     memo_reactions = given (mp_reactions u) (memo_reactions m),
     memo_property = given (mp_property u) (memo_property m),
     memo_parent = given (mp_parent u) (memo_parent m), memo_snippet = given (mp_snippet u) (memo_snippet m),
     memo_location = given (mp_location u) (memo_location m), memo_space = given (mp_space u) (memo_space m)\<rparr>"

text \<open>A memo as a patch: an optional field that is not set is no property of the object, as in the messages
  that the protobuf runtime creates.\<close>

definition patch_of :: "Memo \<Rightarrow> MemoPatch" where
  "patch_of m = \<lparr>mp_name = memo_name m, mp_state = Some (memo_state m), mp_creator = Some (memo_creator m),
     mp_createTime = map_option Some (memo_createTime m), mp_updateTime = map_option Some (memo_updateTime m),
     mp_content = Some (memo_content m), mp_visibility = Some (memo_visibility m), mp_tags = Some (memo_tags m),
     mp_pinned = Some (memo_pinned m), mp_attachments = Some (memo_attachments m),
     mp_relations = Some (memo_relations m), mp_reactions = Some (memo_reactions m),
     mp_property = map_option Some (memo_property m), mp_parent = map_option Some (memo_parent m),
     mp_snippet = Some (memo_snippet m), mp_location = map_option Some (memo_location m),
     mp_space = map_option Some (memo_space m)\<rparr>"

section \<open>Cached lists\<close>

definition isMemoListResponse :: "cached \<Rightarrow> bool" where
  "isMemoListResponse d = (case d of ListData r \<Rightarrow> True | _ \<Rightarrow> False)"

definition isInfiniteMemoListData :: "cached \<Rightarrow> bool" where
  "isInfiniteMemoListData d = (case d of InfiniteData ps qs \<Rightarrow> True | _ \<Rightarrow> False)"

definition patchMemoListResponse :: "ListMemosResponse \<Rightarrow> MemoPatch \<Rightarrow> ListMemosResponse" where
  "patchMemoListResponse response update =
     response\<lparr>memos := map (\<lambda>memo. if memo_name memo \<noteq> mp_name update then memo else spread memo update) (memos response)\<rparr>"

definition patchMemoListQueryData :: "cached \<Rightarrow> MemoPatch \<Rightarrow> cached" where
  "patchMemoListQueryData data update =
     (case data of
        ListData r \<Rightarrow> ListData (patchMemoListResponse r update)
      | InfiniteData pages params \<Rightarrow> InfiniteData (map (\<lambda>page. patchMemoListResponse page update) pages) params
      | _ \<Rightarrow> data)"

definition findMemoInListResponse :: "ListMemosResponse \<Rightarrow> jsstr \<Rightarrow> Memo option" where
  "findMemoInListResponse response n = List.find (\<lambda>memo. memo_name memo = n) (memos response)"

fun first_some :: "('a \<Rightarrow> 'b option) \<Rightarrow> 'a list \<Rightarrow> 'b option" where
  "first_some f [] = None"
| "first_some f (x # xs) = (case f x of Some y \<Rightarrow> Some y | None \<Rightarrow> first_some f xs)"

definition findMemoInQueryData :: "cached option \<Rightarrow> jsstr \<Rightarrow> Memo option" where
  "findMemoInQueryData data n =
     (case data of
        Some (ListData r) \<Rightarrow> findMemoInListResponse r n
      | Some (InfiniteData pages params) \<Rightarrow> first_some (\<lambda>page. findMemoInListResponse page n) pages
      | _ \<Rightarrow> None)"

definition findMemoInCollectionQueries ::
  "'c query_client \<Rightarrow> nat \<Rightarrow> 'c \<Rightarrow> jsstr \<Rightarrow> bool \<Rightarrow> Memo option" where
  "findMemoInCollectionQueries Q now c n freshOnly =
     (if getQueryData Q c (memo_detail n) = Some Unavailable then None
      else first_some
        (\<lambda>key. if freshOnly \<and> (case getQueryState Q c key of
                                  None \<Rightarrow> True
                                | Some st \<Rightarrow> isInvalidated st \<or> dataUpdatedAt st + 10000 < now)
               then None else findMemoInQueryData (getQueryData Q c key) n)
        (findKeys Q memo_all c))"

definition patchMemoInCollectionQueries :: "'c query_client \<Rightarrow> MemoPatch \<Rightarrow> 'c \<Rightarrow> 'c" where
  "patchMemoInCollectionQueries Q update c =
     setQueriesData Q memo_all (\<lambda>data. patchMemoListQueryData data update) c"

section \<open>A memo that cannot be read any more\<close>

abbreviation "InvalidArgument \<equiv> OtherCode 3"
abbreviation "NotFound \<equiv> OtherCode 5"
abbreviation "PermissionDenied \<equiv> OtherCode 7"

definition hasConnectCode :: "rpc_error \<Rightarrow> Code list \<Rightarrow> bool" where
  "hasConnectCode e codes = (case e of ConnectError msg code \<Rightarrow> code \<in> set codes | OtherError \<Rightarrow> False)"

definition shouldRetry :: "nat \<Rightarrow> rpc_error \<Rightarrow> bool" where
  "shouldRetry failureCount e =
     (if hasConnectCode e [InvalidArgument, PermissionDenied, Unauthenticated] then False else failureCount < 1)"

definition isMemoUnavailableError :: "rpc_error \<Rightarrow> bool" where
  "isMemoUnavailableError e =
     (case e of ConnectError msg code \<Rightarrow> code = PermissionDenied \<or> code = NotFound | OtherError \<Rightarrow> False)"

definition names_memo :: "jsstr \<Rightarrow> MemoRelation \<Rightarrow> bool" where
  "names_memo n r \<longleftrightarrow> map_option rm_name (rel_memo r) = Some n \<or> map_option rm_name (rel_relatedMemo r) = Some n"

definition stripRelations :: "jsstr \<Rightarrow> Memo \<Rightarrow> Memo" where
  "stripRelations n memo = memo\<lparr>memo_relations := filter (\<lambda>r. \<not> names_memo n r) (memo_relations memo)\<rparr>"

definition stripList :: "jsstr \<Rightarrow> ListMemosResponse \<Rightarrow> ListMemosResponse" where
  "stripList n data = data\<lparr>memos := map (stripRelations n) (filter (\<lambda>memo. memo_name memo \<noteq> n) (memos data))\<rparr>"

text \<open>The next value of a query. The source keeps the old object when nothing changed, which for values is
  equality.\<close>

definition stripped :: "jsstr \<Rightarrow> qkey \<Rightarrow> cached \<Rightarrow> cached" where
  "stripped n key data =
     (case data of
        ListData r \<Rightarrow> ListData (stripList n r)
      | InfiniteData pages params \<Rightarrow> InfiniteData (map (stripList n) pages) params
      | DetailData m \<Rightarrow>
          if charAt key 1 = Some (S (js ''detail'')) \<and> memo_name m \<noteq> n then DetailData (stripRelations n m) else data
      | _ \<Rightarrow> data)"

fun discardLoop :: "'c query_client \<Rightarrow> jsstr \<Rightarrow> (qkey \<times> cached) list \<Rightarrow> 'c \<Rightarrow> 'c" where
  "discardLoop Q n [] c = c"
| "discardLoop Q n ((key, data) # rest) c =
     discardLoop Q n rest (if stripped n key data \<noteq> data then setQueryData Q key (stripped n key data) c else c)"

definition getQueriesData :: "'c query_client \<Rightarrow> qkey \<Rightarrow> 'c \<Rightarrow> (qkey \<times> cached) list" where
  "getQueriesData Q p c =
     concat (map (\<lambda>key. case getQueryData Q c key of None \<Rightarrow> [] | Some d \<Rightarrow> [(key, d)]) (findKeys Q p c))"

definition discardUnavailableMemo :: "'c query_client \<Rightarrow> jsstr \<Rightarrow> 'c \<Rightarrow> 'c" where
  "discardUnavailableMemo Q n c = discardLoop Q n (getQueriesData Q memo_all c) c"

text \<open>The query function of a memo's detail page: the outcome of the request and what becomes of the cache.\<close>

definition memoDetailQueryFn :: "'c query_client \<Rightarrow> jsstr \<Rightarrow> (rpc_error + Memo) \<Rightarrow> 'c \<Rightarrow> (rpc_error + cached) \<times> 'c" where
  "memoDetailQueryFn Q n response c =
     (case response of
        Inr m \<Rightarrow> (Inr (DetailData m), c)
      | Inl e \<Rightarrow> if \<not> isMemoUnavailableError e then (Inl e, c) else (Inr Unavailable, discardUnavailableMemo Q n c))"

text \<open>The query client stores what the query function returned.\<close>

definition detail_fetched :: "'c query_client \<Rightarrow> jsstr \<Rightarrow> (rpc_error + Memo) \<Rightarrow> 'c \<Rightarrow> 'c" where
  "detail_fetched Q n response c =
     (case memoDetailQueryFn Q n response c of
        (Inr d, c') \<Rightarrow> setQueryData Q (memo_detail n) d c'
      | (Inl e, c') \<Rightarrow> c')"

section \<open>Mutations\<close>

definition createMemo_onSuccess :: "'c query_client \<Rightarrow> Memo \<Rightarrow> 'c \<Rightarrow> 'c" where
  "createMemo_onSuccess Q newMemo c =
     invalidateQueries Q attachment_lists (invalidateQueries Q user_stats
       (setQueryData Q (memo_detail (memo_name newMemo)) (DetailData newMemo) (invalidateQueries Q memo_lists c)))"

definition cached_detail :: "'c query_client \<Rightarrow> jsstr \<Rightarrow> 'c \<Rightarrow> Memo option" where
  "cached_detail Q n c = (case getQueryData Q c (memo_detail n) of Some (DetailData m) \<Rightarrow> Some m | _ \<Rightarrow> None)"

text \<open>\<open>onMutate\<close> returns the snapshot for the rollback. \<open>update.name\<close> is the empty string when absent.\<close>

definition updateMemo_onMutate ::
  "'c query_client \<Rightarrow> nat \<Rightarrow> MemoPatch \<Rightarrow> jsstr list \<Rightarrow> 'c \<Rightarrow> Memo option \<times> 'c" where
  "updateMemo_onMutate Q now update updateMask c =
     (if js ''space'' \<in> set updateMask then (None, c)
      else if mp_name update = [] then (None, c)
      else
        let c1 = cancelQueries Q memo_all c;
            previousMemo = (case cached_detail Q (mp_name update) c1 of
                              Some m \<Rightarrow> Some m
                            | None \<Rightarrow> findMemoInCollectionQueries Q now c1 (mp_name update) False);
            c2 = (case previousMemo of
                    None \<Rightarrow> c1
                  | Some m \<Rightarrow> setQueryData Q (memo_detail (mp_name update)) (DetailData (spread m update)) c1)
        in (previousMemo, patchMemoInCollectionQueries Q update c2))"

definition updateMemo_onError :: "'c query_client \<Rightarrow> MemoPatch \<Rightarrow> Memo option \<Rightarrow> 'c \<Rightarrow> 'c" where
  "updateMemo_onError Q update previousMemo c =
     (case previousMemo of
        Some m \<Rightarrow>
          if mp_name update \<noteq> []
          then patchMemoInCollectionQueries Q (patch_of m) (setQueryData Q (memo_detail (mp_name update)) (DetailData m) c)
          else invalidateQueries Q memo_all c
      | None \<Rightarrow> invalidateQueries Q memo_all c)"

definition updateMemo_onSuccess :: "'c query_client \<Rightarrow> Memo \<Rightarrow> jsstr list \<Rightarrow> 'c \<Rightarrow> 'c" where
  "updateMemo_onSuccess Q updatedMemo updateMask c =
     (let c1 = (if js ''space'' \<in> set updateMask then invalidateQueries Q memo_all c else c);
          c2 = setQueryData Q (memo_detail (memo_name updatedMemo)) (DetailData updatedMemo) c1;
          c3 = patchMemoInCollectionQueries Q (patch_of updatedMemo) c2;
          c4 = invalidateQueries Q memo_lists c3;
          c5 = (if truthy (memo_parent updatedMemo)
                then invalidateQueries Q (memo_comments (the (memo_parent updatedMemo))) c4 else c4)
      in invalidateQueries Q attachment_lists (invalidateQueries Q user_stats c5))"

definition deleteMemo_onSuccess :: "'c query_client \<Rightarrow> jsstr \<Rightarrow> 'c \<Rightarrow> 'c" where
  "deleteMemo_onSuccess Q n c =
     invalidateQueries Q attachment_lists (invalidateQueries Q user_stats
       (invalidateQueries Q memo_lists (removeQueries Q (memo_detail n) c)))"

definition batchDelete_onSuccess :: "'c query_client \<Rightarrow> jsstr list \<Rightarrow> 'c \<Rightarrow> 'c" where
  "batchDelete_onSuccess Q names c = fold (\<lambda>n. removeQueries Q (attachment_detail n)) names c"

definition batchDelete_onSettled :: "'c query_client \<Rightarrow> 'c \<Rightarrow> 'c" where
  "batchDelete_onSettled Q c = invalidateQueries Q user_stats (invalidateQueries Q attachment_lists c)"

section \<open>Laws of the query client\<close>

locale query_client =
  fixes Q :: "'c query_client"
  assumes get_set: "getQueryData Q (setQueryData Q k d c) k' = (if k' = k then Some d else getQueryData Q c k')"
    and get_set_all: "getQueryData Q (setQueriesData Q p f c) k =
          (if startsWith k p then map_option f (getQueryData Q c k) else getQueryData Q c k)"
    and keys_below: "k \<in> set (findKeys Q p c) \<Longrightarrow> startsWith k p"
    and keys_complete: "startsWith k p \<Longrightarrow> getQueryData Q c k \<noteq> None \<Longrightarrow> k \<in> set (findKeys Q p c)"
    and keys_distinct: "distinct (findKeys Q p c)"
    and get_invalidate: "getQueryData Q (invalidateQueries Q p c) k = getQueryData Q c k"
    and get_invalidate_exact: "getQueryData Q (invalidateExact Q p c) k = getQueryData Q c k"
    and get_cancel: "getQueryData Q (cancelQueries Q p c) k = getQueryData Q c k"
    and get_remove: "getQueryData Q (removeQueries Q p c) k = (if startsWith k p then None else getQueryData Q c k)"
    and get_reset: "getQueryData Q (resetQueries Q p c) k =
          (if startsWith k p then initialData Q c k else getQueryData Q c k)"
begin

lemmas data_laws = get_set get_set_all get_invalidate get_invalidate_exact get_cancel get_remove get_reset

lemma getQueriesData_keys: "set (map fst (getQueriesData Q p c)) \<subseteq> set (findKeys Q p c)"
  by (auto simp: getQueriesData_def split: option.splits)

lemma getQueriesData_distinct: "distinct (map fst (getQueriesData Q p c))"
proof -
  have "distinct ks \<Longrightarrow> distinct (map fst (concat (map (\<lambda>key. case getQueryData Q c key of None \<Rightarrow> [] | Some d \<Rightarrow> [(key, d)]) ks)))" for ks
    by (induction ks) (auto split: option.splits)
  then show ?thesis using keys_distinct by (simp add: getQueriesData_def)
qed

lemma getQueriesData_iff: "(k, d) \<in> set (getQueriesData Q p c) \<longleftrightarrow> startsWith k p \<and> getQueryData Q c k = Some d"
  using keys_below [of k p c] keys_complete [of k p c]
  by (fastforce simp: getQueriesData_def split: option.splits)

lemma discardLoop_other: "k \<notin> fst ` set es \<Longrightarrow> getQueryData Q (discardLoop Q n es c) k = getQueryData Q c k"
  by (induction es arbitrary: c) (auto simp: get_set)

lemma discardLoop_get:
  assumes "distinct (map fst es)" "(k, d) \<in> set es" "getQueryData Q c k = Some d"
  shows "getQueryData Q (discardLoop Q n es c) k = Some (stripped n k d)"
  using assms
proof (induction es arbitrary: c)
  case (Cons e es)
  obtain key data where e: "e = (key, data)" by force
  show ?case
  proof (cases "key = k")
    case True
    then have "k \<notin> fst ` set es" using Cons.prems(1) e by auto
    moreover have "data = d" using Cons.prems True e \<open>k \<notin> fst ` set es\<close> by force
    ultimately show ?thesis using True e Cons.prems(3) discardLoop_other by (auto simp: get_set)
  next
    case False
    then show ?thesis using Cons e by (auto simp: get_set)
  qed
qed simp

text \<open>Discarding maps every entry below the memo keys, and nothing else.\<close>

lemma discard_get:
  "getQueryData Q (discardUnavailableMemo Q n c) k =
     (if startsWith k memo_all then map_option (stripped n k) (getQueryData Q c k) else getQueryData Q c k)"
proof (cases "startsWith k memo_all \<and> getQueryData Q c k \<noteq> None")
  case True
  then obtain d where d: "getQueryData Q c k = Some d" by auto
  then have "(k, d) \<in> set (getQueriesData Q memo_all c)" using True by (simp add: getQueriesData_iff)
  from discardLoop_get [OF getQueriesData_distinct this d] True d show ?thesis
    by (simp add: discardUnavailableMemo_def)
next
  case False
  then have "k \<notin> fst ` set (getQueriesData Q memo_all c)" by (auto simp: getQueriesData_iff)
  then show ?thesis using False discardLoop_other by (auto simp: discardUnavailableMemo_def)
qed

end

section \<open>Revoked access\<close>

text \<open>Whether an entry still tells anything of a memo: a copy of it, or a relation to it, which carries a
  snippet of its content.\<close>

definition mentions_in :: "jsstr \<Rightarrow> ListMemosResponse \<Rightarrow> bool" where
  "mentions_in n r \<longleftrightarrow> list_ex (\<lambda>m. memo_name m = n \<or> list_ex (names_memo n) (memo_relations m)) (memos r)"

definition mentions :: "jsstr \<Rightarrow> cached \<Rightarrow> bool" where
  "mentions n d =
     (case d of
        ListData r \<Rightarrow> mentions_in n r
      | InfiniteData ps qs \<Rightarrow> list_ex (mentions_in n) ps
      | DetailData m \<Rightarrow> memo_name m = n \<or> list_ex (names_memo n) (memo_relations m)
      | _ \<Rightarrow> False)"

text \<open>A detail entry is stored under the name of its memo.\<close>

definition details_named :: "'c query_client \<Rightarrow> 'c \<Rightarrow> bool" where
  "details_named Q c \<longleftrightarrow> (\<forall>k m. getQueryData Q c k = Some (DetailData m) \<longrightarrow> k = memo_detail (memo_name m))"

lemma stripList_clean: "\<not> mentions_in n (stripList n r)"
  by (auto simp: mentions_in_def stripList_def stripRelations_def list_ex_iff)

lemma memo_detail_below: "startsWith (memo_detail n) memo_all"
  by (simp add: memo_detail_def memo_details_def memo_all_def startsWith_def)

lemma memo_detail_kind: "charAt (memo_detail n) (Suc 0) = Some (S (js ''detail''))"
  by (simp add: memo_detail_def memo_details_def memo_all_def charAt_def)

lemma memo_detail_inject: "memo_detail n = memo_detail m \<longleftrightarrow> n = m"
  by (simp add: memo_detail_def)

lemma stripped_clean:
  assumes "\<And>m. d = DetailData m \<Longrightarrow> k = memo_detail (memo_name m) \<and> memo_name m \<noteq> n"
  shows "\<not> mentions n (stripped n k d)"
proof (cases d)
  case (DetailData m)
  then show ?thesis using assms
    by (auto simp: stripped_def mentions_def stripRelations_def list_ex_iff memo_detail_kind)
qed (auto simp: stripped_def mentions_def stripList_clean list_ex_iff)

text \<open>An entry that does not mention the memo stays as it is.\<close>

lemma stripRelations_id: "\<not> list_ex (names_memo n) (memo_relations m) \<Longrightarrow> stripRelations n m = m"
  by (simp add: stripRelations_def list_ex_iff filter_id_conv)

lemma stripList_id: "\<not> mentions_in n r \<Longrightarrow> stripList n r = r"
proof -
  assume a: "\<not> mentions_in n r"
  then have "filter (\<lambda>m. memo_name m \<noteq> n) (memos r) = memos r"
    by (simp add: mentions_in_def list_ex_iff filter_id_conv)
  moreover have "map (stripRelations n) (memos r) = memos r"
    using a by (auto simp: mentions_in_def list_ex_iff intro!: map_idI stripRelations_id)
  ultimately show ?thesis by (simp add: stripList_def)
qed

lemma stripped_id: "\<not> mentions n d \<Longrightarrow> stripped n k d = d"
  by (cases d) (auto simp: mentions_def stripped_def stripList_id stripRelations_id list_ex_iff intro!: map_idI)

lemma revoked_memo_leaves_cache_facts:
  assumes Q: "query_client Q" and named: "details_named Q c" and e: "isMemoUnavailableError e"
    and c': "c' = detail_fetched Q n (Inl e) c"
  shows "startsWith k memo_all \<Longrightarrow> getQueryData Q c' k = Some d \<Longrightarrow> \<not> mentions n d"
    and "k \<noteq> memo_detail n \<Longrightarrow> getQueryData Q c k = Some d \<Longrightarrow> \<not> mentions n d \<Longrightarrow> getQueryData Q c' k = Some d"
    and "findMemoInCollectionQueries Q now c' n fresh = None"
proof -
  have get: "getQueryData Q c' k = (if k = memo_detail n then Some Unavailable
      else if startsWith k memo_all then map_option (stripped n k) (getQueryData Q c k) else getQueryData Q c k)" for k
    using e by (simp add: c' detail_fetched_def memoDetailQueryFn_def query_client.get_set [OF Q]
        query_client.discard_get [OF Q])
  show "\<not> mentions n d" if k: "startsWith k memo_all" "getQueryData Q c' k = Some d"
  proof (cases "k = memo_detail n")
    case True
    then show ?thesis using k get by (auto simp: mentions_def)
  next
    case False
    then obtain d0 where d0: "getQueryData Q c k = Some d0" "d = stripped n k d0" using k get by auto
    have "\<not> mentions n (stripped n k d0)"
      by (rule stripped_clean) (use False d0 named in \<open>auto simp: details_named_def\<close>)
    with d0 show ?thesis by simp
  qed
  show "getQueryData Q c' k = Some d" if "k \<noteq> memo_detail n" "getQueryData Q c k = Some d" "\<not> mentions n d"
    using that get by (simp add: stripped_id)
  show "findMemoInCollectionQueries Q now c' n fresh = None"
    using get [of "memo_detail n"] by (simp add: findMemoInCollectionQueries_def)
qed


section \<open>Optimistic update and rollback\<close>

text \<open>A patch whose optional properties a rollback can undo: it names only optional fields that the memo has.\<close>

definition undoable :: "MemoPatch \<Rightarrow> Memo \<Rightarrow> bool" where
  "undoable u m \<longleftrightarrow> (mp_createTime u \<noteq> None \<longrightarrow> memo_createTime m \<noteq> None)
     \<and> (mp_updateTime u \<noteq> None \<longrightarrow> memo_updateTime m \<noteq> None)
     \<and> (mp_property u \<noteq> None \<longrightarrow> memo_property m \<noteq> None) \<and> (mp_parent u \<noteq> None \<longrightarrow> memo_parent m \<noteq> None)
     \<and> (mp_location u \<noteq> None \<longrightarrow> memo_location m \<noteq> None) \<and> (mp_space u \<noteq> None \<longrightarrow> memo_space m \<noteq> None)"

lemma given_simps [simp]: "given None x = x" "given (Some y) x = y"
  by (simp_all add: given_def)

lemma given_undo: "(p \<noteq> None \<longrightarrow> x \<noteq> None) \<Longrightarrow> given (map_option Some x) (given p x) = x"
  by (cases x) auto

lemma rollback_memo:
  assumes "undoable u m" "mp_name u = memo_name m"
  shows "spread (spread m u) (patch_of m) = m"
  using assms by (simp add: spread_def patch_of_def undoable_def given_undo)

definition copies_are :: "Memo \<Rightarrow> cached \<Rightarrow> bool" where
  "copies_are m d =
     (case d of
        ListData r \<Rightarrow> list_all (\<lambda>x. memo_name x = memo_name m \<longrightarrow> x = m) (memos r)
      | InfiniteData ps qs \<Rightarrow> list_all (\<lambda>r. list_all (\<lambda>x. memo_name x = memo_name m \<longrightarrow> x = m) (memos r)) ps
      | _ \<Rightarrow> True)"

lemma rollback_response:
  assumes "undoable u m" "mp_name u = memo_name m" "list_all (\<lambda>x. memo_name x = memo_name m \<longrightarrow> x = m) (memos r)"
  shows "patchMemoListResponse (patchMemoListResponse r u) (patch_of m) = r"
proof -
  have n: "mp_name (patch_of m) = memo_name m" "memo_name (spread m u) = memo_name m"
    using assms(2) by (simp_all add: patch_of_def spread_def)
  have "map (\<lambda>x. if memo_name x \<noteq> mp_name (patch_of m) then x else spread x (patch_of m))
      (map (\<lambda>x. if memo_name x \<noteq> mp_name u then x else spread x u) (memos r)) = memos r"
    unfolding map_map
    by (rule map_idI) (use assms n rollback_memo [OF assms(1,2)] in \<open>auto simp: list_all_iff\<close>)
  then show ?thesis by (simp add: patchMemoListResponse_def)
qed

lemma rollback_entry:
  assumes "undoable u m" "mp_name u = memo_name m" "copies_are m d"
  shows "patchMemoListQueryData (patchMemoListQueryData d u) (patch_of m) = d"
  using assms
  by (cases d) (auto simp: patchMemoListQueryData_def copies_are_def rollback_response list_all_iff comp_def intro!: map_idI)

lemma failed_update_rolled_back_facts:
  assumes Q: "query_client Q" and step: "updateMemo_onMutate Q now u ups c = (Some m, c')"
    and name: "memo_name m = mp_name u" and undo: "undoable u m"
    and same: "\<And>k d. startsWith k memo_all \<Longrightarrow> getQueryData Q c k = Some d \<Longrightarrow> copies_are m d"
  shows "getQueryData Q c' (memo_detail (mp_name u)) = Some (DetailData (spread m u))"
    and "getQueryData Q (updateMemo_onError Q u (Some m) c') k =
      (if k = memo_detail (mp_name u) then Some (DetailData m) else getQueryData Q c k)"
proof -
  have ne: "mp_name u \<noteq> []" "js ''space'' \<notin> set ups"
    using step by (auto simp: updateMemo_onMutate_def split: if_splits)
  have c': "c' = patchMemoInCollectionQueries Q u
      (setQueryData Q (memo_detail (mp_name u)) (DetailData (spread m u)) (cancelQueries Q memo_all c))"
    using step ne by (auto simp: updateMemo_onMutate_def Let_def split: option.splits)
  note laws = query_client.data_laws [OF Q]
  have get: "getQueryData Q c' k = (if k = memo_detail (mp_name u) then Some (DetailData (spread m u))
      else if startsWith k memo_all then map_option (\<lambda>d. patchMemoListQueryData d u) (getQueryData Q c k)
      else getQueryData Q c k)" for k
    by (simp add: c' patchMemoInCollectionQueries_def laws memo_detail_below patchMemoListQueryData_def)
  show "getQueryData Q c' (memo_detail (mp_name u)) = Some (DetailData (spread m u))" by (simp add: get)
  show "getQueryData Q (updateMemo_onError Q u (Some m) c') k =
      (if k = memo_detail (mp_name u) then Some (DetailData m) else getQueryData Q c k)"
  proof (cases "k = memo_detail (mp_name u) \<or> \<not> startsWith k memo_all \<or> getQueryData Q c k = None")
    case True
    then show ?thesis using ne
      by (auto simp: updateMemo_onError_def patchMemoInCollectionQueries_def laws get memo_detail_below
          patchMemoListQueryData_def)
  next
    case False
    then obtain d where d: "getQueryData Q c k = Some d" by auto
    then have "copies_are m d" using same False by blast
    then have "patchMemoListQueryData (patchMemoListQueryData d u) (patch_of m) = d"
      using rollback_entry undo name by simp
    then show ?thesis using False d ne
      by (simp add: updateMemo_onError_def patchMemoInCollectionQueries_def laws get)
  qed
qed


section \<open>A client that keeps its queries in a list\<close>

text \<open>The documented behaviour on an association list of queries: it shows that the laws can hold together.\<close>

type_synonym query_list = "(qkey \<times> cached \<times> query_state) list"

definition on_queries :: "(qkey \<Rightarrow> bool) \<Rightarrow> (cached \<times> query_state \<Rightarrow> cached \<times> query_state) \<Rightarrow> query_list \<Rightarrow> query_list" where
  "on_queries P f c = map (\<lambda>(k, e). (k, if P k then f e else e)) c"

definition invalid :: "cached \<times> query_state \<Rightarrow> cached \<times> query_state" where
  "invalid e = (fst e, (snd e)\<lparr>isInvalidated := True\<rparr>)"

definition list_client :: "query_list query_client" where
  "list_client = \<lparr>getQueryData = (\<lambda>c k. map_option fst (map_of c k)),
     getQueryState = (\<lambda>c k. map_option snd (map_of c k)),
     findKeys = (\<lambda>p c. filter (\<lambda>k. startsWith k p) (remdups (map fst c))),
     setQueryData = (\<lambda>k d c. AList.update k (d, \<lparr>isInvalidated = False, dataUpdatedAt = 0\<rparr>) c),
     setQueriesData = (\<lambda>p f c. on_queries (\<lambda>k. startsWith k p) (\<lambda>e. (f (fst e), snd e)) c),
     invalidateQueries = (\<lambda>p c. on_queries (\<lambda>k. startsWith k p) invalid c),
     invalidateExact = (\<lambda>p c. on_queries (\<lambda>k. k = p) invalid c),
     cancelQueries = (\<lambda>p c. c), removeQueries = (\<lambda>p c. filter (\<lambda>e. \<not> startsWith (fst e) p) c),
     resetQueries = (\<lambda>p c. filter (\<lambda>e. \<not> startsWith (fst e) p) c), initialData = (\<lambda>c k. None)\<rparr>"

lemma map_of_on_queries: "map_of (on_queries P f c) k = map_option (\<lambda>e. if P k then f e else e) (map_of c k)"
  by (induction c) (auto simp: on_queries_def)

lemma map_of_kept: "map_of (filter (\<lambda>e. \<not> startsWith (fst e) p) c) k = (if startsWith k p then None else map_of c k)"
  by (induction c) auto

interpretation list_cache: query_client list_client
proof
  show "getQueryData list_client (setQueryData list_client k d c) k' = (if k' = k then Some d else getQueryData list_client c k')"
    for k d c k' by (simp add: list_client_def update_conv)
  show "k \<in> set (findKeys list_client p c)"
    if "startsWith k p" "getQueryData list_client c k \<noteq> None" for k p c
  proof -
    have "k \<in> fst ` set c" using that(2) map_of_eq_None_iff [of c k] by (auto simp: list_client_def)
    with that(1) show ?thesis by (simp add: list_client_def)
  qed
qed (auto simp: list_client_def map_of_on_queries map_of_kept invalid_def option.map_comp comp_def
    intro!: option.map_cong)

definition shared_memo :: Memo where
  "shared_memo = empty_memo\<lparr>memo_name := js ''memos/a'', memo_content := js ''x''\<rparr>"

definition shared_cache :: query_list where
  "shared_cache = [(memo_list [], ListData \<lparr>memos = [shared_memo], nextPageToken = []\<rparr>, \<lparr>isInvalidated = False, dataUpdatedAt = 0\<rparr>)]"

definition pin_patch :: MemoPatch where
  "pin_patch = \<lparr>mp_name = js ''memos/a'', mp_state = None, mp_creator = None, mp_createTime = None, mp_updateTime = None,
     mp_content = None, mp_visibility = None, mp_tags = None, mp_pinned = Some True, mp_attachments = None,
     mp_relations = None, mp_reactions = None, mp_property = None, mp_parent = None, mp_snippet = None,
     mp_location = None, mp_space = None\<rparr>"

lemma shared_cache_get:
  "getQueryData list_client shared_cache k =
    (if k = memo_list [] then Some (ListData \<lparr>memos = [shared_memo], nextPageToken = []\<rparr>) else None)"
  by (simp add: list_client_def shared_cache_def)



end
