(* ===== verification/Space_Cache.thy ===== *)
theory Space_Cache
  imports Query_Cache
begin

text \<open>
  The cached queries of Spaces (\<^verbatim>\<open>web/src/hooks/useSpaceQueries.ts\<close>): keys, the loop that drains a paged list, and
  the handlers that change the cache after a Space, an invitation or a membership changed. The RPC of a paged list
  is an argument; the loop may not return, so it is a partial function.
\<close>

section \<open>Keys\<close>

definition space_all :: qkey where "space_all = [S (js ''spaces'')]"
definition space_lists :: qkey where "space_lists = space_all @ [S (js ''list'')]"
definition space_list :: "jsstr \<Rightarrow> qkey" where "space_list viewer = space_lists @ [S viewer]"
definition space_key :: "jsstr \<Rightarrow> jsstr \<Rightarrow> qkey" where
  "space_key viewer n = space_all @ [S (js ''space''), S viewer, S n]"
definition space_members :: "jsstr \<Rightarrow> jsstr \<Rightarrow> qkey" where
  "space_members viewer n = space_key viewer n @ [S (js ''members'')]"
definition spaceInvitations :: "jsstr \<Rightarrow> jsstr \<Rightarrow> qkey" where
  "spaceInvitations viewer n = space_key viewer n @ [S (js ''invitations'')]"
definition userInvitations :: "jsstr \<Rightarrow> qkey" where
  "userInvitations viewer = space_all @ [S (js ''user-invitations''), S viewer]"

lemmas space_key_defs = space_all_def space_lists_def space_list_def space_key_def space_members_def
  spaceInvitations_def userInvitations_def

definition queryEnabled :: "jsstr option \<Rightarrow> jsstr option \<Rightarrow> bool option \<Rightarrow> bool" where
  "queryEnabled viewerName resourceName enabled \<longleftrightarrow>
     truthy viewerName \<and> truthy resourceName \<and> (case enabled of None \<Rightarrow> True | Some b \<Rightarrow> b)"

definition spaceNameFromChildResource :: "jsstr \<Rightarrow> jsstr option" where
  "spaceNameFromChildResource n =
     (let parts = split_on 47 n; collection = charAt parts 0; spaceID = charAt parts 1
      in if collection = Some (js ''spaces'') \<and> truthy spaceID
         then Some (js ''spaces/'' @ the spaceID) else None)"

definition resourceID :: "jsstr \<Rightarrow> jsstr option" where
  "resourceID n = (let parts = filter (\<lambda>p. p \<noteq> []) (split_on 47 n) in if parts = [] then None else Some (last parts))"

section \<open>Lists of named resources\<close>

fun findIndex :: "('a \<Rightarrow> bool) \<Rightarrow> 'a list \<Rightarrow> nat option" where
  "findIndex P [] = None"
| "findIndex P (x # xs) = (if P x then Some 0 else map_option Suc (findIndex P xs))"

definition upsertByName :: "('a \<Rightarrow> jsstr) \<Rightarrow> 'a list \<Rightarrow> 'a \<Rightarrow> 'a list" where
  "upsertByName nm items item =
     (case findIndex (\<lambda>x. nm x = nm item) items of None \<Rightarrow> items @ [item] | Some i \<Rightarrow> items[i := item])"

definition removeByName :: "('a \<Rightarrow> jsstr) \<Rightarrow> 'a list \<Rightarrow> jsstr \<Rightarrow> 'a list" where
  "removeByName nm items n = filter (\<lambda>x. nm x \<noteq> n) items"

definition updateCachedList ::
  "'c query_client \<Rightarrow> (cached \<Rightarrow> 'a list option) \<Rightarrow> ('a list \<Rightarrow> cached) \<Rightarrow> qkey \<Rightarrow> ('a list \<Rightarrow> 'a list) \<Rightarrow> 'c \<Rightarrow> 'c" where
  "updateCachedList Q un mk key update c =
     (case Option.bind (getQueryData Q c key) un of
        None \<Rightarrow> c
      | Some items \<Rightarrow> setQueryData Q key (mk (update items)) c)"

fun spaces_of :: "cached \<Rightarrow> Space list option" where
  "spaces_of (SpaceList xs) = Some xs" | "spaces_of _ = None"
fun members_of :: "cached \<Rightarrow> SpaceMember list option" where
  "members_of (MemberList xs) = Some xs" | "members_of _ = None"
fun invitations_of :: "cached \<Rightarrow> SpaceInvitation list option" where
  "invitations_of (InvitationList xs) = Some xs" | "invitations_of _ = None"

definition updateSpaces :: "'c query_client \<Rightarrow> qkey \<Rightarrow> (Space list \<Rightarrow> Space list) \<Rightarrow> 'c \<Rightarrow> 'c" where
  "updateSpaces Q = updateCachedList Q spaces_of SpaceList"
definition updateMembers :: "'c query_client \<Rightarrow> qkey \<Rightarrow> (SpaceMember list \<Rightarrow> SpaceMember list) \<Rightarrow> 'c \<Rightarrow> 'c" where
  "updateMembers Q = updateCachedList Q members_of MemberList"
definition updateInvitations :: "'c query_client \<Rightarrow> qkey \<Rightarrow> (SpaceInvitation list \<Rightarrow> SpaceInvitation list) \<Rightarrow> 'c \<Rightarrow> 'c" where
  "updateInvitations Q = updateCachedList Q invitations_of InvitationList"

section \<open>Draining a paged list\<close>

type_synonym ('a, 'w) page_call = "jsstr \<Rightarrow> 'w \<Rightarrow> (rpc_error + ('a list \<times> jsstr)) \<times> 'w"

partial_function (option) drainPages ::
  "('a, 'w) page_call \<Rightarrow> 'a list \<Rightarrow> jsstr \<Rightarrow> 'w \<Rightarrow> ((rpc_error + 'a list) \<times> 'w) option" where
  "drainPages call acc pageToken w =
     (case call pageToken w of
        (Inl e, w') \<Rightarrow> Some (Inl e, w')
      | (Inr (items, nxt), w') \<Rightarrow>
          if nxt \<noteq> [] then drainPages call (acc @ items) nxt w' else Some (Inr (acc @ items), w'))"

text \<open>The four list queries. Their calls differ in the request that the call closes over.\<close>

definition listSpaces :: "(Space, 'w) page_call \<Rightarrow> 'w \<Rightarrow> ((rpc_error + Space list) \<times> 'w) option" where
  "listSpaces call w = drainPages call [] [] w"
definition listSpaceMembers :: "(jsstr \<Rightarrow> (SpaceMember, 'w) page_call) \<Rightarrow> jsstr \<Rightarrow> 'w \<Rightarrow> ((rpc_error + SpaceMember list) \<times> 'w) option" where
  "listSpaceMembers call spaceName w = drainPages (call spaceName) [] [] w"
definition listSpaceInvitations :: "(jsstr \<Rightarrow> (SpaceInvitation, 'w) page_call) \<Rightarrow> jsstr \<Rightarrow> 'w \<Rightarrow> ((rpc_error + SpaceInvitation list) \<times> 'w) option" where
  "listSpaceInvitations call spaceName w = drainPages (call spaceName) [] [] w"
definition listUserSpaceInvitations :: "(jsstr \<Rightarrow> (SpaceInvitation, 'w) page_call) \<Rightarrow> jsstr \<Rightarrow> 'w \<Rightarrow> ((rpc_error + SpaceInvitation list) \<times> 'w) option" where
  "listUserSpaceInvitations call viewerName w = drainPages (call viewerName) [] [] w"

section \<open>Handlers\<close>

definition removeSpaceFromViewerCache :: "'c query_client \<Rightarrow> jsstr \<Rightarrow> jsstr \<Rightarrow> 'c \<Rightarrow> 'c" where
  "removeSpaceFromViewerCache Q viewerName spaceName c =
     resetQueries Q (space_key viewerName spaceName)
       (updateSpaces Q (space_list viewerName) (\<lambda>spaces. removeByName space_name spaces spaceName) c)"

definition invalidateMembershipSensitiveQueries :: "'c query_client \<Rightarrow> 'c \<Rightarrow> 'c" where
  "invalidateMembershipSensitiveQueries Q c =
     invalidateQueries Q user_stats (invalidateQueries Q attachment_lists (invalidateQueries Q memo_all c))"

text \<open>The Space of the route is seeded from the switcher's list.\<close>

definition useSpace_initialData :: "'c query_client \<Rightarrow> jsstr option \<Rightarrow> jsstr option \<Rightarrow> 'c \<Rightarrow> Space option" where
  "useSpace_initialData Q viewerName spaceName c =
     (case Option.bind (getQueryData Q c (space_list (case viewerName of None \<Rightarrow> [] | Some v \<Rightarrow> v))) spaces_of of
        None \<Rightarrow> None
      | Some spaces \<Rightarrow> List.find (\<lambda>s. Some (space_name s) = spaceName) spaces)"

definition useSpace_retry :: "nat \<Rightarrow> rpc_error \<Rightarrow> bool" where
  "useSpace_retry count e \<longleftrightarrow> \<not> hasConnectCode e [NotFound, PermissionDenied] \<and> count < 2"

definition createSpace_onSuccess :: "'c query_client \<Rightarrow> jsstr \<Rightarrow> Space \<Rightarrow> 'c \<Rightarrow> 'c" where
  "createSpace_onSuccess Q viewerName space c =
     (let c1 = setQueryData Q (space_key viewerName (space_name space)) (SpaceData space) c;
          spaces = (case Option.bind (getQueryData Q c1 (space_list viewerName)) spaces_of of None \<Rightarrow> [] | Some xs \<Rightarrow> xs)
      in setQueryData Q (space_list viewerName) (SpaceList (upsertByName space_name spaces space)) c1)"

definition updateSpace_onSuccess :: "'c query_client \<Rightarrow> jsstr \<Rightarrow> Space \<Rightarrow> 'c \<Rightarrow> 'c" where
  "updateSpace_onSuccess Q viewerName space c =
     updateSpaces Q (space_list viewerName) (\<lambda>spaces. upsertByName space_name spaces space)
       (setQueryData Q (space_key viewerName (space_name space)) (SpaceData space) c)"

definition deleteSpace_onSuccess :: "'c query_client \<Rightarrow> jsstr \<Rightarrow> jsstr \<Rightarrow> 'c \<Rightarrow> 'c" where
  "deleteSpace_onSuccess Q viewerName spaceName c =
     invalidateMembershipSensitiveQueries Q (removeSpaceFromViewerCache Q viewerName spaceName c)"

definition createInvitation_onSuccess :: "'c query_client \<Rightarrow> jsstr \<Rightarrow> SpaceInvitation \<Rightarrow> jsstr \<Rightarrow> 'c \<Rightarrow> 'c" where
  "createInvitation_onSuccess Q viewerName invitation parent c =
     updateInvitations Q (spaceInvitations viewerName parent) (\<lambda>xs. upsertByName inv_name xs invitation) c"

definition drop_invitation :: "'c query_client \<Rightarrow> qkey \<Rightarrow> jsstr \<Rightarrow> 'c \<Rightarrow> 'c" where
  "drop_invitation Q key n c = updateInvitations Q key (\<lambda>xs. removeByName inv_name xs n) c"

definition deleteInvitation_onSuccess :: "'c query_client \<Rightarrow> jsstr \<Rightarrow> jsstr \<Rightarrow> 'c \<Rightarrow> 'c" where
  "deleteInvitation_onSuccess Q viewerName n c =
     drop_invitation Q (userInvitations viewerName) n
       (case spaceNameFromChildResource n of
          None \<Rightarrow> c
        | Some spaceName \<Rightarrow> drop_invitation Q (spaceInvitations viewerName spaceName) n c)"

definition acceptInvitation_onSuccess :: "'c query_client \<Rightarrow> jsstr \<Rightarrow> SpaceMember \<Rightarrow> jsstr \<Rightarrow> 'c \<Rightarrow> 'c" where
  "acceptInvitation_onSuccess Q viewerName member n c =
     (let spaceName = (case spaceNameFromChildResource (member_name member) of
                         Some s \<Rightarrow> Some s | None \<Rightarrow> spaceNameFromChildResource n);
          c1 = drop_invitation Q (userInvitations viewerName) n c;
          c2 = (case spaceName of
                  None \<Rightarrow> c1
                | Some s \<Rightarrow> updateMembers Q (space_members viewerName s) (\<lambda>xs. upsertByName member_name xs member)
                              (drop_invitation Q (spaceInvitations viewerName s) n c1))
      in invalidateQueries Q user_notifications
           (invalidateMembershipSensitiveQueries Q (invalidateExact Q (space_list viewerName) c2)))"

definition declineInvitation_onSuccess :: "'c query_client \<Rightarrow> jsstr \<Rightarrow> jsstr \<Rightarrow> 'c \<Rightarrow> 'c" where
  "declineInvitation_onSuccess Q viewerName n c =
     (let c1 = drop_invitation Q (userInvitations viewerName) n c;
          c2 = (case spaceNameFromChildResource n of
                  None \<Rightarrow> c1 | Some s \<Rightarrow> drop_invitation Q (spaceInvitations viewerName s) n c1)
      in invalidateQueries Q user_notifications c2)"

definition updateMember_onSuccess :: "'c query_client \<Rightarrow> jsstr \<Rightarrow> SpaceMember \<Rightarrow> 'c \<Rightarrow> 'c" where
  "updateMember_onSuccess Q viewerName member c =
     (case spaceNameFromChildResource (member_name member) of
        None \<Rightarrow> c
      | Some s \<Rightarrow>
          (let c1 = updateMembers Q (space_members viewerName s) (\<lambda>xs. upsertByName member_name xs member) c
           in if member_user member = viewerName
              then invalidateExact Q (space_list viewerName) (invalidateExact Q (space_key viewerName s) c1) else c1))"

definition deleteMember_onSuccess :: "'c query_client \<Rightarrow> jsstr \<Rightarrow> jsstr \<Rightarrow> 'c \<Rightarrow> 'c" where
  "deleteMember_onSuccess Q viewerName n c =
     (case spaceNameFromChildResource n of
        None \<Rightarrow> c
      | Some s \<Rightarrow>
          (let memberKey = space_members viewerName s;
               deletedMember = Option.bind (Option.bind (getQueryData Q c memberKey) members_of)
                                 (\<lambda>xs. List.find (\<lambda>m. member_name m = n) xs);
               viewerIsDeletedMember = (map_option member_user deletedMember = Some viewerName
                 \<or> resourceID n \<noteq> None \<and> resourceID n = resourceID viewerName);
               c1 = updateMembers Q memberKey (\<lambda>xs. removeByName member_name xs n) c;
               c2 = (if viewerIsDeletedMember
                     then invalidateMembershipSensitiveQueries Q (removeSpaceFromViewerCache Q viewerName s c1) else c1)
           in invalidateExact Q (space_list viewerName) c2))"

section \<open>Draining returns every page\<close>

text \<open>A server that delivers the pages \<open>ps\<close> one after the other and then an empty token.\<close>

fun serves :: "('a, 'w) page_call \<Rightarrow> jsstr \<Rightarrow> 'w \<Rightarrow> 'a list list \<Rightarrow> 'w \<Rightarrow> bool" where
  "serves call tok w [] w' \<longleftrightarrow> False"
| "serves call tok w (p # ps) w' \<longleftrightarrow>
     (case call tok w of
        (Inr (items, nxt), w1) \<Rightarrow> items = p \<and> (if ps = [] then nxt = [] \<and> w1 = w' else nxt \<noteq> [] \<and> serves call nxt w1 ps w')
      | _ \<Rightarrow> False)"

lemma drainPages_serves: "serves call tok w ps w' \<Longrightarrow> drainPages call acc tok w = Some (Inr (acc @ concat ps), w')"
proof (induction ps arbitrary: acc tok w)
  case (Cons p ps)
  then show ?case
    by (subst drainPages.simps) (auto split: prod.splits sum.splits if_splits)
qed simp

text \<open>A server that fails on a later page fails the query; no partial list is returned.\<close>

fun fails_after :: "('a, 'w) page_call \<Rightarrow> jsstr \<Rightarrow> 'w \<Rightarrow> nat \<Rightarrow> rpc_error \<Rightarrow> 'w \<Rightarrow> bool" where
  "fails_after call tok w 0 e w' \<longleftrightarrow> call tok w = (Inl e, w')"
| "fails_after call tok w (Suc n) e w' \<longleftrightarrow>
     (case call tok w of (Inr (items, nxt), w1) \<Rightarrow> nxt \<noteq> [] \<and> fails_after call nxt w1 n e w' | _ \<Rightarrow> False)"

lemma drainPages_fails: "fails_after call tok w n e w' \<Longrightarrow> drainPages call acc tok w = Some (Inl e, w')"
proof (induction n arbitrary: acc tok w)
  case 0
  then show ?case by (subst drainPages.simps) simp
next
  case (Suc n)
  then show ?case by (subst drainPages.simps) (auto split: prod.splits sum.splits)
qed

lemma list_queries_complete_facts:
  "serves call [] w ps w' \<Longrightarrow> listSpaces call w = Some (Inr (concat ps), w')"
  "serves (mcall sp) [] w mps w' \<Longrightarrow> listSpaceMembers mcall sp w = Some (Inr (concat mps), w')"
  "serves (icall sp) [] w ips w' \<Longrightarrow> listSpaceInvitations icall sp w = Some (Inr (concat ips), w')"
  "serves (icall v) [] w ips w' \<Longrightarrow> listUserSpaceInvitations icall v w = Some (Inr (concat ips), w')"
  "fails_after call [] w n e w' \<Longrightarrow> listSpaces call w = Some (Inl e, w')"
  by (simp_all add: listSpaces_def listSpaceMembers_def listSpaceInvitations_def listUserSpaceInvitations_def
      drainPages_serves drainPages_fails)


definition two_pages :: "(Space, unit) page_call" where
  "two_pages tok w = (if tok = [] then (Inr ([], js ''next''), ()) else (Inr ([], []), ()))"


section \<open>Lists of named resources stay lists of names\<close>

lemma findIndex_None: "findIndex P xs = None \<longleftrightarrow> (\<forall>x \<in> set xs. \<not> P x)"
  by (induction xs) auto

lemma findIndex_Some: "findIndex P xs = Some i \<Longrightarrow> i < length xs \<and> P (xs ! i)"
  by (induction xs arbitrary: i) (auto split: if_splits)

lemma map_upsert:
  "map nm (upsertByName nm items item) = (if nm item \<in> nm ` set items then map nm items else map nm items @ [nm item])"
proof (cases "findIndex (\<lambda>x. nm x = nm item) items")
  case None
  then have "nm item \<notin> nm ` set items" using findIndex_None [of _ items] by fastforce
  with None show ?thesis by (simp add: upsertByName_def)
next
  case (Some i)
  from findIndex_Some [OF Some] have i: "i < length items" "nm (items ! i) = nm item" by auto
  then have "map nm (items[i := item]) = map nm items" by (metis map_update list_update_id nth_map)
  moreover have "nm item \<in> nm ` set items" using i by (metis image_eqI nth_mem)
  ultimately show ?thesis using Some by (simp add: upsertByName_def)
qed

lemma upsert_distinct: "distinct (map nm items) \<Longrightarrow> distinct (map nm (upsertByName nm items item))"
  by (simp add: map_upsert)

lemma upsert_member: "item \<in> set (upsertByName nm items item)"
  using findIndex_Some by (fastforce simp: upsertByName_def set_update_memI split: option.splits)

lemma remove_distinct: "distinct (map nm items) \<Longrightarrow> distinct (map nm (removeByName nm items n))"
  by (simp add: removeByName_def distinct_map_filter)

text \<open>What the three kinds of cached lists have in common.\<close>

locale cached_list =
  fixes un :: "cached \<Rightarrow> 'a list option" and mk :: "'a list \<Rightarrow> cached"
  assumes un_mk: "un (mk xs) = Some xs"
begin

lemma get_updateCachedList:
  assumes "query_client Q"
  shows "getQueryData Q (updateCachedList Q un mk key f c) k =
    (if k = key then
       (case Option.bind (getQueryData Q c key) un of None \<Rightarrow> getQueryData Q c k | Some xs \<Rightarrow> Some (mk (f xs)))
     else getQueryData Q c k)"
  by (auto simp: updateCachedList_def query_client.get_set [OF assms] split: option.splits)

lemma read_updateCachedList:
  assumes "query_client Q"
  shows "Option.bind (getQueryData Q (updateCachedList Q un mk key f c) key) un =
    map_option f (Option.bind (getQueryData Q c key) un)"
  by (auto simp: get_updateCachedList [OF assms] un_mk split: option.splits)

lemma updateCachedList_entry:
  assumes Q: "query_client Q" and d: "getQueryData Q (updateCachedList Q un mk key f c) k = Some d"
  obtains "getQueryData Q c k = Some d"
    | d0 xs where "getQueryData Q c k = Some d0" "un d0 = Some xs" "d = mk (f xs)"
  using d by (auto simp: get_updateCachedList [OF Q] bind_eq_Some_conv split: if_splits option.splits)

end

interpretation spaces: cached_list spaces_of SpaceList by unfold_locales simp
interpretation members: cached_list members_of MemberList by unfold_locales simp
interpretation invitations: cached_list invitations_of InvitationList by unfold_locales simp

lemma of_Some [simp]:
  "spaces_of d = Some xs \<longleftrightarrow> d = SpaceList xs" "members_of d = Some ms \<longleftrightarrow> d = MemberList ms"
  "invitations_of d = Some is \<longleftrightarrow> d = InvitationList is"
  by (cases d; auto)+

definition names_distinct :: "cached \<Rightarrow> bool" where
  "names_distinct d =
     (case d of
        SpaceList xs \<Rightarrow> distinct (map space_name xs)
      | MemberList xs \<Rightarrow> distinct (map member_name xs)
      | InvitationList xs \<Rightarrow> distinct (map inv_name xs)
      | _ \<Rightarrow> True)"

text \<open>Every cached list names a resource at most once, and only the Space of the route has initial data.\<close>

definition cache_distinct :: "'c query_client \<Rightarrow> 'c \<Rightarrow> bool" where
  "cache_distinct Q c \<longleftrightarrow> (\<forall>k d. getQueryData Q c k = Some d \<longrightarrow> names_distinct d)"

definition route_initial :: "'c query_client \<Rightarrow> bool" where
  "route_initial Q \<longleftrightarrow> (\<forall>c k d. initialData Q c k = Some d \<longrightarrow> (\<exists>s. d = SpaceData s))"

lemma cache_distinctI: "(\<And>k d. getQueryData Q c k = Some d \<Longrightarrow> names_distinct d) \<Longrightarrow> cache_distinct Q c"
  by (simp add: cache_distinct_def)

lemma cache_distinctD: "cache_distinct Q c \<Longrightarrow> getQueryData Q c k = Some d \<Longrightarrow> names_distinct d"
  by (simp add: cache_distinct_def)

lemma updates_distinct [inv_intros]:
  assumes Q: "query_client Q" and c: "cache_distinct Q c"
  shows "(\<And>xs. distinct (map space_name xs) \<Longrightarrow> distinct (map space_name (f xs))) \<Longrightarrow> cache_distinct Q (updateSpaces Q key f c)"
    and "(\<And>xs. distinct (map member_name xs) \<Longrightarrow> distinct (map member_name (g xs))) \<Longrightarrow> cache_distinct Q (updateMembers Q key g c)"
    and "(\<And>xs. distinct (map inv_name xs) \<Longrightarrow> distinct (map inv_name (h xs))) \<Longrightarrow> cache_distinct Q (updateInvitations Q key h c)"
proof -
  note D = cache_distinctD [OF c]
  show "cache_distinct Q (updateSpaces Q key f c)"
    if "\<And>xs. distinct (map space_name xs) \<Longrightarrow> distinct (map space_name (f xs))"
    using that D by (intro cache_distinctI)
      (unfold updateSpaces_def, erule spaces.updateCachedList_entry [OF Q], auto simp: names_distinct_def dest: D)
  show "cache_distinct Q (updateMembers Q key g c)"
    if "\<And>xs. distinct (map member_name xs) \<Longrightarrow> distinct (map member_name (g xs))"
    using that D by (intro cache_distinctI)
      (unfold updateMembers_def, erule members.updateCachedList_entry [OF Q], auto simp: names_distinct_def dest: D)
  show "cache_distinct Q (updateInvitations Q key h c)"
    if "\<And>xs. distinct (map inv_name xs) \<Longrightarrow> distinct (map inv_name (h xs))"
    using that D by (intro cache_distinctI)
      (unfold updateInvitations_def, erule invitations.updateCachedList_entry [OF Q], auto simp: names_distinct_def dest: D)
qed

lemma route_initialD: "route_initial Q \<Longrightarrow> initialData Q c k = Some d \<Longrightarrow> names_distinct d"
  by (fastforce simp: route_initial_def names_distinct_def)

lemma plain_distinct [inv_intros]:
  assumes Q: "query_client Q" and c: "cache_distinct Q c"
  shows "cache_distinct Q (invalidateQueries Q p c)" "cache_distinct Q (invalidateExact Q p c)"
    and "names_distinct d \<Longrightarrow> cache_distinct Q (setQueryData Q k d c)"
    and "route_initial Q \<Longrightarrow> cache_distinct Q (resetQueries Q p c)"
  by (intro cache_distinctI; use c in \<open>auto simp: query_client.data_laws [OF Q] split: if_splits
        dest: cache_distinctD route_initialD\<close>)+

lemma helpers_distinct [inv_intros]:
  assumes Q: "query_client Q" and c: "cache_distinct Q c"
  shows "cache_distinct Q (drop_invitation Q key n c)"
    and "cache_distinct Q (invalidateMembershipSensitiveQueries Q c)"
    and "route_initial Q \<Longrightarrow> cache_distinct Q (removeSpaceFromViewerCache Q v n c)"
  unfolding drop_invitation_def invalidateMembershipSensitiveQueries_def removeSpaceFromViewerCache_def
  by (intro inv_intros Q c remove_distinct; assumption?)+

lemma space_handlers_keep_names_facts:
  assumes Q: "query_client Q" and r: "route_initial Q" and c: "cache_distinct Q c"
  shows "cache_distinct Q (createSpace_onSuccess Q v sp c)"
    and "cache_distinct Q (updateSpace_onSuccess Q v sp c)"
    and "cache_distinct Q (deleteSpace_onSuccess Q v n c)"
    and "cache_distinct Q (createInvitation_onSuccess Q v i n c)"
    and "cache_distinct Q (deleteInvitation_onSuccess Q v n c)"
    and "cache_distinct Q (acceptInvitation_onSuccess Q v m n c)"
    and "cache_distinct Q (declineInvitation_onSuccess Q v n c)"
    and "cache_distinct Q (updateMember_onSuccess Q v m c)"
    and "cache_distinct Q (deleteMember_onSuccess Q v n c)"
proof -
  note [intro!] = updates_distinct [OF Q] plain_distinct(1,2) [OF Q] helpers_distinct [OF Q] upsert_distinct remove_distinct r c
  show "cache_distinct Q (createSpace_onSuccess Q v sp c)"
  proof -
    have "cache_distinct Q (setQueryData Q (space_key v (space_name sp)) (SpaceData sp) c)" (is "cache_distinct Q ?c")
      by (rule plain_distinct(3) [OF Q c]) (simp add: names_distinct_def)
    moreover have "distinct (map space_name (case Option.bind (getQueryData Q ?c (space_list v)) spaces_of of None \<Rightarrow> [] | Some xs \<Rightarrow> xs))"
      using cache_distinctD [OF calculation] by (fastforce simp: bind_eq_Some_conv names_distinct_def split: option.splits)
    ultimately show ?thesis
      unfolding createSpace_onSuccess_def Let_def
      by (intro plain_distinct(3) [OF Q]) (simp_all add: names_distinct_def upsert_distinct c)
  qed
  show "cache_distinct Q (updateSpace_onSuccess Q v sp c)"
    unfolding updateSpace_onSuccess_def
    by (intro updates_distinct(1) [OF Q] plain_distinct(3) [OF Q c] upsert_distinct) (simp add: names_distinct_def)
  show "cache_distinct Q (deleteSpace_onSuccess Q v n c)" unfolding deleteSpace_onSuccess_def by blast
  show "cache_distinct Q (createInvitation_onSuccess Q v i n c)" unfolding createInvitation_onSuccess_def by blast
  show "cache_distinct Q (deleteInvitation_onSuccess Q v n c)"
    unfolding deleteInvitation_onSuccess_def by (auto split: option.splits)
  show "cache_distinct Q (acceptInvitation_onSuccess Q v m n c)"
    unfolding acceptInvitation_onSuccess_def Let_def by (auto split: option.splits)
  show "cache_distinct Q (declineInvitation_onSuccess Q v n c)"
    unfolding declineInvitation_onSuccess_def Let_def by (auto split: option.splits)
  show "cache_distinct Q (updateMember_onSuccess Q v m c)"
    unfolding updateMember_onSuccess_def Let_def by (auto split: option.splits)
  show "cache_distinct Q (deleteMember_onSuccess Q v n c)"
    unfolding deleteMember_onSuccess_def Let_def by (auto split: option.splits)
qed

text \<open>C30. Every handler keeps the cached lists free of duplicates, whatever the server returned.\<close>

theorem space_handlers_keep_names:
  assumes Q: "query_client Q" and r: "route_initial Q" and c: "cache_distinct Q c"
  shows "(cache_distinct Q (createSpace_onSuccess Q v sp c))
    \<and> (cache_distinct Q (updateSpace_onSuccess Q v sp c))
    \<and> (cache_distinct Q (deleteSpace_onSuccess Q v n c))
    \<and> (cache_distinct Q (createInvitation_onSuccess Q v i n c))
    \<and> (cache_distinct Q (deleteInvitation_onSuccess Q v n c))
    \<and> (cache_distinct Q (acceptInvitation_onSuccess Q v m n c))
    \<and> (cache_distinct Q (declineInvitation_onSuccess Q v n c))
    \<and> (cache_distinct Q (updateMember_onSuccess Q v m c))
    \<and> (cache_distinct Q (deleteMember_onSuccess Q v n c))"
  using space_handlers_keep_names_facts [OF assms] by blast

section \<open>Leaving a Space\<close>

text \<open>What a reader finds under a key: the lists, taken out of the cache.\<close>

abbreviation read_spaces :: "'c query_client \<Rightarrow> 'c \<Rightarrow> jsstr \<Rightarrow> Space list option" where
  "read_spaces Q c v \<equiv> Option.bind (getQueryData Q c (space_list v)) spaces_of"

abbreviation read_members :: "'c query_client \<Rightarrow> 'c \<Rightarrow> jsstr \<Rightarrow> jsstr \<Rightarrow> SpaceMember list option" where
  "read_members Q c v s \<equiv> Option.bind (getQueryData Q c (space_members v s)) members_of"

abbreviation read_invitations :: "'c query_client \<Rightarrow> 'c \<Rightarrow> jsstr \<Rightarrow> SpaceInvitation list option" where
  "read_invitations Q c v \<equiv> Option.bind (getQueryData Q c (userInvitations v)) invitations_of"

lemma space_keys_apart [simp]:
  "space_list v \<noteq> space_members v' s" "space_list v \<noteq> spaceInvitations v' s" "space_list v \<noteq> userInvitations v'"
  "space_members v s \<noteq> space_list v'" "space_members v s \<noteq> spaceInvitations v' s'" "space_members v s \<noteq> userInvitations v'"
  "userInvitations v \<noteq> space_list v'" "userInvitations v \<noteq> space_members v' s" "userInvitations v \<noteq> spaceInvitations v' s"
  "space_list v = space_list v' \<longleftrightarrow> v = v'" "userInvitations v = userInvitations v' \<longleftrightarrow> v = v'"
  "\<not> startsWith (space_list v) (space_key v' s)" "\<not> startsWith (userInvitations v) (space_key v' s)"
  by (auto simp: space_key_defs js_inject startsWith_def)

lemma get_updates:
  assumes Q: "query_client Q"
  shows "getQueryData Q (updateSpaces Q key f c) k = (if k = key then
           (case Option.bind (getQueryData Q c key) spaces_of of None \<Rightarrow> getQueryData Q c k | Some xs \<Rightarrow> Some (SpaceList (f xs)))
           else getQueryData Q c k)"
    and "getQueryData Q (updateMembers Q key g c) k = (if k = key then
           (case Option.bind (getQueryData Q c key) members_of of None \<Rightarrow> getQueryData Q c k | Some xs \<Rightarrow> Some (MemberList (g xs)))
           else getQueryData Q c k)"
    and "getQueryData Q (drop_invitation Q key n c) k = (if k = key then
           (case Option.bind (getQueryData Q c key) invitations_of of None \<Rightarrow> getQueryData Q c k
            | Some xs \<Rightarrow> Some (InvitationList (removeByName inv_name xs n)))
           else getQueryData Q c k)"
  by (simp_all add: updateSpaces_def updateMembers_def updateInvitations_def drop_invitation_def
      spaces.get_updateCachedList [OF Q] members.get_updateCachedList [OF Q] invitations.get_updateCachedList [OF Q])

lemma read_removed:
  assumes Q: "query_client Q"
  shows "read_spaces Q (removeSpaceFromViewerCache Q v s c) v' =
    (if v' = v then map_option (\<lambda>xs. removeByName space_name xs s) (read_spaces Q c v) else read_spaces Q c v')"
  by (auto simp: removeSpaceFromViewerCache_def query_client.data_laws [OF Q] get_updates [OF Q] split: option.splits)

lemma left_space_leaves_list_facts:
  assumes Q: "query_client Q"
  shows "read_spaces Q (deleteSpace_onSuccess Q v s c) v = map_option (\<lambda>xs. removeByName space_name xs s) (read_spaces Q c v)"
    and "v' \<noteq> v \<Longrightarrow> read_spaces Q (deleteSpace_onSuccess Q v s c) v' = read_spaces Q c v'"
    and "spaceNameFromChildResource n = Some s \<Longrightarrow> resourceID n \<noteq> None \<Longrightarrow> resourceID n = resourceID v \<Longrightarrow>
      read_spaces Q (deleteMember_onSuccess Q v n c) v = map_option (\<lambda>xs. removeByName space_name xs s) (read_spaces Q c v)"
    and "spaceNameFromChildResource n = Some s \<Longrightarrow> resourceID n \<noteq> resourceID v \<Longrightarrow> read_members Q c v s = Some ms \<Longrightarrow>
      List.find (\<lambda>m. member_name m = n) ms = Some m \<Longrightarrow> member_user m \<noteq> v \<Longrightarrow>
      read_spaces Q (deleteMember_onSuccess Q v n c) v = read_spaces Q c v
      \<and> read_members Q (deleteMember_onSuccess Q v n c) v s = Some (removeByName member_name ms n)"
proof -
  note laws = query_client.data_laws [OF Q] get_updates [OF Q] invalidateMembershipSensitiveQueries_def
  show "read_spaces Q (deleteSpace_onSuccess Q v s c) v = map_option (\<lambda>xs. removeByName space_name xs s) (read_spaces Q c v)"
    "v' \<noteq> v \<Longrightarrow> read_spaces Q (deleteSpace_onSuccess Q v s c) v' = read_spaces Q c v'"
    by (simp_all add: deleteSpace_onSuccess_def laws read_removed [OF Q])
  show "read_spaces Q (deleteMember_onSuccess Q v n c) v = map_option (\<lambda>xs. removeByName space_name xs s) (read_spaces Q c v)"
    if "spaceNameFromChildResource n = Some s" "resourceID n \<noteq> None" "resourceID n = resourceID v"
    using that by (simp add: deleteMember_onSuccess_def Let_def laws read_removed [OF Q])
  show "read_spaces Q (deleteMember_onSuccess Q v n c) v = read_spaces Q c v
      \<and> read_members Q (deleteMember_onSuccess Q v n c) v s = Some (removeByName member_name ms n)"
    if "spaceNameFromChildResource n = Some s" "resourceID n \<noteq> resourceID v" "read_members Q c v s = Some ms"
      "List.find (\<lambda>m. member_name m = n) ms = Some m" "member_user m \<noteq> v"
  proof -
    have "getQueryData Q c (space_members v s) = Some (MemberList ms)" using that(3) by (auto simp: bind_eq_Some_conv)
    with that show ?thesis by (simp add: deleteMember_onSuccess_def Let_def laws)
  qed
qed

text \<open>Deleting a Space, or being removed from it, takes it out of the viewer's list of Spaces and of nobody
  else's; removing another member leaves the list alone and takes the member out of the member list.\<close>

theorem left_space_leaves_list:
  assumes Q: "query_client Q"
  shows "(read_spaces Q (deleteSpace_onSuccess Q v s c) v = map_option (\<lambda>xs. removeByName space_name xs s) (read_spaces Q c v))
    \<and> (v' \<noteq> v \<longrightarrow> read_spaces Q (deleteSpace_onSuccess Q v s c) v' = read_spaces Q c v')
    \<and> (spaceNameFromChildResource n = Some s \<longrightarrow> resourceID n \<noteq> None \<longrightarrow> resourceID n = resourceID v \<longrightarrow>
      read_spaces Q (deleteMember_onSuccess Q v n c) v = map_option (\<lambda>xs. removeByName space_name xs s) (read_spaces Q c v))
    \<and> (spaceNameFromChildResource n = Some s \<longrightarrow> resourceID n \<noteq> resourceID v \<longrightarrow> read_members Q c v s = Some ms \<longrightarrow>
      List.find (\<lambda>m. member_name m = n) ms = Some m \<longrightarrow> member_user m \<noteq> v \<longrightarrow>
      read_spaces Q (deleteMember_onSuccess Q v n c) v = read_spaces Q c v
      \<and> read_members Q (deleteMember_onSuccess Q v n c) v s = Some (removeByName member_name ms n))"
  using left_space_leaves_list_facts [OF assms] by blast

lemma accepted_invitation_moves_facts:
  assumes Q: "query_client Q" and s: "spaceNameFromChildResource (member_name m) = Some s"
  shows "read_invitations Q (acceptInvitation_onSuccess Q v m n c) v =
      map_option (\<lambda>xs. removeByName inv_name xs n) (read_invitations Q c v)"
    and "read_members Q c v s = Some ms \<Longrightarrow>
      \<exists>ms'. read_members Q (acceptInvitation_onSuccess Q v m n c) v s = Some ms' \<and> m \<in> set ms'
        \<and> map member_name ms' = (if member_name m \<in> member_name ` set ms then map member_name ms
                                else map member_name ms @ [member_name m])"
    and "read_spaces Q (acceptInvitation_onSuccess Q v m n c) v' = read_spaces Q c v'"
proof -
  note laws = query_client.data_laws [OF Q] get_updates [OF Q] invalidateMembershipSensitiveQueries_def
    acceptInvitation_onSuccess_def Let_def s
  show "read_invitations Q (acceptInvitation_onSuccess Q v m n c) v =
      map_option (\<lambda>xs. removeByName inv_name xs n) (read_invitations Q c v)"
    by (simp add: laws split: option.splits)
  show "\<exists>ms'. read_members Q (acceptInvitation_onSuccess Q v m n c) v s = Some ms' \<and> m \<in> set ms'
      \<and> map member_name ms' = (if member_name m \<in> member_name ` set ms then map member_name ms
                              else map member_name ms @ [member_name m])" if "read_members Q c v s = Some ms"
    using that upsert_member [of m member_name ms] map_upsert [of member_name ms m]
    by (simp add: laws split: option.splits)
  show "read_spaces Q (acceptInvitation_onSuccess Q v m n c) v' = read_spaces Q c v'" by (simp add: laws)
qed

text \<open>Accepting an invitation takes it out of the viewer's invitations and puts the membership into the member
  list; the list of Spaces is left to the refetch.\<close>

theorem accepted_invitation_moves:
  assumes Q: "query_client Q" and s: "spaceNameFromChildResource (member_name m) = Some s"
  shows "(read_invitations Q (acceptInvitation_onSuccess Q v m n c) v =
      map_option (\<lambda>xs. removeByName inv_name xs n) (read_invitations Q c v))
    \<and> (read_members Q c v s = Some ms \<longrightarrow>
      (\<exists>ms'. read_members Q (acceptInvitation_onSuccess Q v m n c) v s = Some ms' \<and> m \<in> set ms'
        \<and> map member_name ms' = (if member_name m \<in> member_name ` set ms then map member_name ms
                                else map member_name ms @ [member_name m])))
    \<and> (read_spaces Q (acceptInvitation_onSuccess Q v m n c) v' = read_spaces Q c v')"
  using accepted_invitation_moves_facts [OF assms] by blast

definition ada_space :: Space where
  "ada_space = \<lparr>space_name = js ''spaces/s'', space_title = [], space_description = [], space_currentUserRole = ADMIN,
     space_memberCount = 1, space_icon = None\<rparr>"

definition ada_cache :: query_list where
  "ada_cache = setQueryData list_client (space_list (js ''users/ada'')) (SpaceList [ada_space])
     (setQueryData list_client (space_members (js ''users/ada'') (js ''spaces/s'')) (MemberList []) [])"

lemma ada_cache_get:
  "getQueryData list_client ada_cache k =
    (if k = space_list (js ''users/ada'') then Some (SpaceList [ada_space])
     else if k = space_members (js ''users/ada'') (js ''spaces/s'') then Some (MemberList []) else None)"
  unfolding ada_cache_def list_cache.get_set by (simp add: list_client_def)

lemma space_handlers_keep_names_witness:
  "cache_distinct list_client (deleteMember_onSuccess list_client (js ''users/ada'') (js ''spaces/s/members/ada'') ada_cache)"
proof (rule space_handlers_keep_names [THEN conjunct2, THEN conjunct2, THEN conjunct2, THEN conjunct2, THEN conjunct2, THEN conjunct2, THEN conjunct2, THEN conjunct2, rule_format, OF list_cache.query_client_axioms])
  show "route_initial list_client" by (simp add: route_initial_def list_client_def)
  show "cache_distinct list_client ada_cache"
    by (auto simp: cache_distinct_def ada_cache_get names_distinct_def split: if_splits)
qed

lemma ada_member: "spaceNameFromChildResource (js ''spaces/s/members/ada'') = Some (js ''spaces/s'')"
  by (simp add: spaceNameFromChildResource_def js_def charAt_def)

lemma left_space_leaves_list_witness:
  "read_spaces list_client (deleteMember_onSuccess list_client (js ''users/ada'') (js ''spaces/s/members/ada'') ada_cache)
     (js ''users/ada'') = Some []"
proof -
  have "resourceID (js ''spaces/s/members/ada'') = Some (js ''ada'')" "resourceID (js ''users/ada'') = Some (js ''ada'')"
    by (simp_all add: resourceID_def js_def)
  then show ?thesis
    using left_space_leaves_list [THEN conjunct2, THEN conjunct2, THEN conjunct1, rule_format, OF list_cache.query_client_axioms ada_member, of "js ''users/ada''" ada_cache]
    by (simp add: ada_cache_get removeByName_def ada_space_def)
qed

definition ada_membership :: SpaceMember where
  "ada_membership = \<lparr>member_name = js ''spaces/s/members/ada'', member_user = js ''users/ada'', member_role = USER\<rparr>"

lemma accepted_invitation_moves_witness:
  "\<exists>ms'. read_members list_client
      (acceptInvitation_onSuccess list_client (js ''users/ada'') ada_membership (js ''spaces/s/invitations/1'') ada_cache)
      (js ''users/ada'') (js ''spaces/s'') = Some ms' \<and> ada_membership \<in> set ms'
      \<and> map member_name ms' = [js ''spaces/s/members/ada'']"
proof -
  have "spaceNameFromChildResource (member_name ada_membership) = Some (js ''spaces/s'')"
    using ada_member by (simp add: ada_membership_def)
  from accepted_invitation_moves [THEN conjunct2, THEN conjunct1, rule_format, OF list_cache.query_client_axioms this, of ada_cache "js ''users/ada''" "[]"]
  show ?thesis by (simp add: ada_cache_get) (simp add: ada_membership_def)
qed

end
