(* ===== verification/Live_Refresh.thy ===== *)
theory Live_Refresh
  imports Space_Cache
begin

text \<open>
  Live refresh over server-sent events (\<^verbatim>\<open>web/src/hooks/useLiveMemoRefresh.ts\<close>): the reader of the event
  stream, one iteration of the connection loop with its back-off, and the leadership of a tab as a state machine
  over the page's life-cycle events. \<open>JSON.parse\<close>, the outcomes of the requests and the random jitter are arguments;
  the chunks of the stream are the texts that the streaming decoder delivers.
\<close>

section \<open>Constants and status\<close>

definition INITIAL_RETRY_DELAY_MS :: nat where "INITIAL_RETRY_DELAY_MS = 1000"
definition MAX_RETRY_DELAY_MS :: nat where "MAX_RETRY_DELAY_MS = 30000"
definition RETRY_BACKOFF_MULTIPLIER :: nat where "RETRY_BACKOFF_MULTIPLIER = 2"
definition STABLE_CONNECTION_THRESHOLD_MS :: nat where "STABLE_CONNECTION_THRESHOLD_MS = 60000"

datatype SSEConnectionStatus = connected | disconnected | connecting

datatype SSEChangeEvent = memo_changed | space_changed | other_event jsstr

datatype SSESyncMessage =
    event_message SSEChangeEvent
  | status_message SSEConnectionStatus "jsstr option"
  | status_request jsstr

section \<open>Reading the stream\<close>

text \<open>\<open>buffer.split("\n\n")\<close>\<close>

fun split_blank :: "jsstr \<Rightarrow> jsstr list" where
  "split_blank [] = [[]]"
| "split_blank [c] = [[c]]"
| "split_blank (c # d # s) =
     (if c = 10 \<and> d = 10 then [] # split_blank s
      else (case split_blank (d # s) of [] \<Rightarrow> [[c]] | w # ws \<Rightarrow> (c # w) # ws))"

definition DATA :: jsstr where "DATA = js ''data: ''"

definition message_events :: "(jsstr \<Rightarrow> 'e option) \<Rightarrow> jsstr \<Rightarrow> 'e list" where
  "message_events parse message =
     (if trim message = [] then []
      else concat (map (\<lambda>line. if startsWith line DATA
                               then (case parse (drop 6 line) of None \<Rightarrow> [] | Some e \<Rightarrow> [e]) else [])
             (split_on 10 message)))"

text \<open>One turn of the read loop: the events of the complete messages and the incomplete rest.\<close>

definition consumeChunk :: "(jsstr \<Rightarrow> 'e option) \<Rightarrow> jsstr \<Rightarrow> jsstr \<Rightarrow> 'e list \<times> jsstr" where
  "consumeChunk parse buffer chunk =
     (let messages = split_blank (buffer @ chunk)
      in (concat (map (message_events parse) (butlast messages)), last messages))"

fun consumeSSEStream :: "(jsstr \<Rightarrow> 'e option) \<Rightarrow> jsstr \<Rightarrow> jsstr list \<Rightarrow> 'e list" where
  "consumeSSEStream parse buffer [] = []"
| "consumeSSEStream parse buffer (chunk # chunks) =
     (case consumeChunk parse buffer chunk of (es, rest) \<Rightarrow> es @ consumeSSEStream parse rest chunks)"

section \<open>Events\<close>

definition invalidateLiveMemoQueries :: "'c query_client \<Rightarrow> 'c \<Rightarrow> 'c" where
  "invalidateLiveMemoQueries Q c =
     invalidateQueries Q attachment_lists (invalidateQueries Q user_stats (invalidateQueries Q memo_all c))"

definition invalidateAllLiveQueries :: "'c query_client \<Rightarrow> 'c \<Rightarrow> 'c" where
  "invalidateAllLiveQueries Q c =
     invalidateLiveMemoQueries Q (invalidateQueries Q user_notifications (invalidateQueries Q space_all c))"

definition handleSSEEvent :: "'c query_client \<Rightarrow> SSEChangeEvent \<Rightarrow> 'c \<Rightarrow> 'c" where
  "handleSSEEvent Q e c =
     (case e of
        memo_changed \<Rightarrow> invalidateLiveMemoQueries Q c
      | space_changed \<Rightarrow> invalidateAllLiveQueries Q c
      | other_event t \<Rightarrow> c)"

section \<open>One iteration of the connection loop\<close>

datatype fetch_result = FetchThrows | Response nat bool

text \<open>A response has a status and perhaps a body; \<open>response.ok\<close> is a status in the 200s.\<close>

fun response_ok :: "fetch_result \<Rightarrow> bool" where
  "response_ok (Response st hasBody) \<longleftrightarrow> 200 \<le> st \<and> st \<le> 299 \<and> hasBody"
| "response_ok FetchThrows \<longleftrightarrow> False"

text \<open>What an attempt meets: the token, the first response, whether the refresh throws, the second token and
  response (after status 401), whether the signal is aborted when the response arrives, the events of the stream,
  how long the connection lasted, and whether the tab was left or the signal aborted at the end.\<close>

record attempt_env =
  token1 :: "jsstr option"
  response1 :: fetch_result
  refresh_ok :: bool
  token2 :: "jsstr option"
  response2 :: fetch_result
  aborted_on_response :: bool
  stream_events :: "SSEChangeEvent list"
  lasted :: nat
  left_at_end :: bool

datatype settled = NotLoggedIn | Failed | Stopped | Streams

text \<open>The response that the iteration ends up with.\<close>

definition open_stream :: "attempt_env \<Rightarrow> settled" where
  "open_stream E =
     (if \<not> truthy (token1 E) then NotLoggedIn
      else if response1 E = FetchThrows then Failed
      else
        let retried = (case response1 E of Response st b \<Rightarrow> st = 401 | FetchThrows \<Rightarrow> False);
            failed = (retried \<and> (\<not> refresh_ok E \<or> \<not> truthy (token2 E) \<or> response2 E = FetchThrows));
            response = (if retried then response2 E else response1 E)
        in if failed then Failed
           else if aborted_on_response E then Stopped
           else if \<not> response_ok response then Failed
           else Streams)"

text \<open>\<open>posted\<close> lists the messages handed to \<open>postSyncMessage\<close>; without a channel they go nowhere.\<close>

record 'c connection =
  status :: SSEConnectionStatus
  retryDelay :: nat
  hasConnectedOnce :: bool
  cache :: 'c
  posted :: "SSESyncMessage list"

definition setSSEStatus :: "SSEConnectionStatus \<Rightarrow> 'c connection \<Rightarrow> 'c connection" where
  "setSSEStatus st s = s\<lparr>status := st\<rparr>"

definition postSyncMessage :: "SSESyncMessage \<Rightarrow> 'c connection \<Rightarrow> 'c connection" where
  "postSyncMessage m s = s\<lparr>posted := posted s @ [m]\<rparr>"

definition publishStatus :: "SSEConnectionStatus \<Rightarrow> 'c connection \<Rightarrow> 'c connection" where
  "publishStatus st s = postSyncMessage (status_message st None) (setSSEStatus st s)"

definition publishEvent :: "'c query_client \<Rightarrow> SSEChangeEvent \<Rightarrow> 'c connection \<Rightarrow> 'c connection" where
  "publishEvent Q e s = postSyncMessage (event_message e) (s\<lparr>cache := handleSSEEvent Q e (cache s)\<rparr>)"

definition connect_stream :: "'c query_client \<Rightarrow> SSEChangeEvent list \<Rightarrow> 'c connection \<Rightarrow> 'c connection" where
  "connect_stream Q es s =
     (let s1 = publishStatus connected s;
          s2 = (if hasConnectedOnce s1 then s1\<lparr>cache := invalidateAllLiveQueries Q (cache s1)\<rparr> else s1)
      in fold (publishEvent Q) es (s2\<lparr>hasConnectedOnce := True\<rparr>))"

text \<open>An iteration ends the loop (\<open>None\<close>) or waits before the next one. \<open>random\<close> maps the delay to its jitter.\<close>

definition iteration ::
  "'c query_client \<Rightarrow> (nat \<Rightarrow> nat) \<Rightarrow> attempt_env \<Rightarrow> 'c connection \<Rightarrow> nat option \<times> 'c connection" where
  "iteration Q random E s =
     (let s1 = publishStatus connecting s
      in case open_stream E of
           NotLoggedIn \<Rightarrow> (None, publishStatus disconnected s1)
         | Stopped \<Rightarrow> (None, s1)
         | outcome \<Rightarrow>
             (let s2 = (if outcome = Streams then connect_stream Q (stream_events E) s1 else s1);
                  s3 = (if outcome = Streams \<and> lasted E \<ge> STABLE_CONNECTION_THRESHOLD_MS
                        then s2\<lparr>retryDelay := INITIAL_RETRY_DELAY_MS\<rparr> else s2)
              in if left_at_end E then (None, s3)
                 else
                   (let s4 = publishStatus disconnected s3; d = retryDelay s4
                    in (Some (random d), s4\<lparr>retryDelay := min (d * RETRY_BACKOFF_MULTIPLIER) MAX_RETRY_DELAY_MS\<rparr>))))"

fun runConnectionLoop ::
  "'c query_client \<Rightarrow> (nat \<Rightarrow> nat) \<Rightarrow> attempt_env list \<Rightarrow> 'c connection \<Rightarrow> nat list \<times> 'c connection" where
  "runConnectionLoop Q random [] s = ([], s)"
| "runConnectionLoop Q random (E # Es) s =
     (case iteration Q random E s of
        (None, s') \<Rightarrow> ([], s')
      | (Some w, s') \<Rightarrow> (case runConnectionLoop Q random Es s' of (ws, s'') \<Rightarrow> (w # ws, s'')))"

section \<open>Leadership of a tab\<close>

text \<open>\<open>tasks\<close> are the leadership tasks that have not settled, \<open>aborted\<close> the controllers that were aborted. \<open>hasChannel\<close>
  tells whether tabs can coordinate.\<close>

record 'c tab =
  mounted :: bool
  isLeader :: bool
  leadershipAbortController :: "nat option"
  next_controller :: nat
  hiddenDisconnectTimeout :: bool
  page_visible :: bool
  page_online :: bool
  currentUserName :: "jsstr option"
  hasChannel :: bool
  channelClientID :: jsstr
  tasks :: "nat list"
  aborted :: "nat list"
  conn :: "'c connection"

definition isPageEligibleForSSE :: "'c tab \<Rightarrow> bool" where
  "isPageEligibleForSSE t \<longleftrightarrow> page_visible t \<and> page_online t"

definition tab_post :: "SSESyncMessage \<Rightarrow> 'c tab \<Rightarrow> 'c tab" where
  "tab_post m t = t\<lparr>conn := postSyncMessage m (conn t)\<rparr>"

definition startLeadership :: "'c tab \<Rightarrow> 'c tab" where
  "startLeadership t =
     (if \<not> mounted t \<or> leadershipAbortController t \<noteq> None \<or> \<not> truthy (currentUserName t) \<or> \<not> isPageEligibleForSSE t then t
      else tab_post (status_request (channelClientID t))
        (t\<lparr>leadershipAbortController := Some (next_controller t), next_controller := Suc (next_controller t),
           tasks := tasks t @ [next_controller t]\<rparr>))"

definition stopLeadership :: "'c tab \<Rightarrow> 'c tab" where
  "stopLeadership t =
     t\<lparr>leadershipAbortController := None,
       aborted := (case leadershipAbortController t of None \<Rightarrow> aborted t | Some k \<Rightarrow> k # aborted t),
       conn := setSSEStatus disconnected (conn t)\<rparr>"

definition clearHiddenDisconnectTimeout :: "'c tab \<Rightarrow> 'c tab" where
  "clearHiddenDisconnectTimeout t = t\<lparr>hiddenDisconnectTimeout := False\<rparr>"

definition reconcilePageState :: "'c tab \<Rightarrow> 'c tab" where
  "reconcilePageState t =
     (if \<not> page_visible t then t\<lparr>hiddenDisconnectTimeout := True\<rparr>
      else let t1 = clearHiddenDisconnectTimeout t
           in if \<not> page_online t1 then stopLeadership t1 else startLeadership t1)"

definition hidden_timer_fires :: "'c tab \<Rightarrow> 'c tab" where
  "hidden_timer_fires t = (if hiddenDisconnectTimeout t then stopLeadership (t\<lparr>hiddenDisconnectTimeout := False\<rparr>) else t)"

text \<open>The lock was granted (or none is needed): the task starts unless its signal was aborted meanwhile under the lock,
  or the tab became hidden.\<close>

definition task_runs :: "nat \<Rightarrow> 'c tab \<Rightarrow> bool" where
  "task_runs k t \<longleftrightarrow> k \<in> set (tasks t) \<and> \<not> (hasChannel t \<and> k \<in> set (aborted t)) \<and> isPageEligibleForSSE t"

definition task_starts :: "nat \<Rightarrow> 'c tab \<Rightarrow> 'c tab" where
  "task_starts k t = (if task_runs k t then t\<lparr>isLeader := True\<rparr> else t)"

definition task_settles :: "nat \<Rightarrow> 'c tab \<Rightarrow> 'c tab" where
  "task_settles k t =
     t\<lparr>isLeader := False, tasks := filter (\<lambda>j. j \<noteq> k) (tasks t),
       leadershipAbortController := (if leadershipAbortController t = Some k then None else leadershipAbortController t)\<rparr>"

definition handleVisibilityChange :: "bool \<Rightarrow> 'c tab \<Rightarrow> 'c tab" where
  "handleVisibilityChange v t = reconcilePageState (t\<lparr>page_visible := v\<rparr>)"

definition handleOnline :: "'c tab \<Rightarrow> 'c tab" where
  "handleOnline t = reconcilePageState (t\<lparr>page_online := True\<rparr>)"

definition handleOffline :: "'c tab \<Rightarrow> 'c tab" where
  "handleOffline t = stopLeadership (t\<lparr>page_online := False\<rparr>)"

definition handlePageHide :: "'c tab \<Rightarrow> 'c tab" where
  "handlePageHide t = stopLeadership (clearHiddenDisconnectTimeout t)"

definition handlePageShow :: "'c tab \<Rightarrow> 'c tab" where
  "handlePageShow t = reconcilePageState t"

definition handleSyncMessage :: "'c query_client \<Rightarrow> SSESyncMessage \<Rightarrow> 'c tab \<Rightarrow> 'c tab" where
  "handleSyncMessage Q m t =
     (case m of
        event_message e \<Rightarrow>
          t\<lparr>conn := (conn t)\<lparr>hasConnectedOnce := True, cache := handleSSEEvent Q e (cache (conn t))\<rparr>\<rparr>
      | status_message st target \<Rightarrow>
          if truthy target \<and> target \<noteq> Some (channelClientID t) then t
          else
            (let c1 = (if st = connected
                       then (if hasConnectedOnce (conn t)
                             then (conn t)\<lparr>cache := invalidateAllLiveQueries Q (cache (conn t))\<rparr> else conn t)\<lparr>hasConnectedOnce := True\<rparr>
                       else conn t)
             in t\<lparr>conn := setSSEStatus st c1\<rparr>)
      | status_request requester \<Rightarrow>
          if isLeader t then tab_post (status_message (status (conn t)) (Some requester)) t else t)"

text \<open>The effect runs on mount; its cleanup runs on unmount.\<close>

definition effect_mount :: "'c tab \<Rightarrow> 'c tab" where
  "effect_mount t =
     (if \<not> truthy (currentUserName t) then t\<lparr>conn := setSSEStatus disconnected (conn t)\<rparr> else reconcilePageState t)"

definition effect_cleanup :: "'c tab \<Rightarrow> 'c tab" where
  "effect_cleanup t =
     stopLeadership (clearHiddenDisconnectTimeout
       (t\<lparr>mounted := False, conn := (setSSEStatus disconnected (conn t))\<lparr>retryDelay := INITIAL_RETRY_DELAY_MS\<rparr>\<rparr>))"

section \<open>The event stream does not depend on its chunks\<close>

lemma split_blank_nonempty [simp]: "split_blank s \<noteq> []"
  by (induction s rule: split_blank.induct) (auto split: list.splits)

lemma split_blank_single: "split_blank s = [w] \<Longrightarrow> w = s"
  by (induction s arbitrary: w rule: split_blank.induct) (auto split: if_splits list.splits)

lemma split_blank_append:
  "split_blank (a @ b) = butlast (split_blank a) @ split_blank (last (split_blank a) @ b)"
proof (induction a rule: split_blank.induct)
  case (3 c d s)
  show ?case
  proof (cases "c = 10 \<and> d = 10")
    case True
    then show ?thesis using 3(1) by simp
  next
    case False
    obtain w ws where P: "split_blank (d # s) = w # ws" using split_blank_nonempty [of "d # s"] by (cases "split_blank (d # s)") auto
    from 3(2) [OF False] have IH: "split_blank (d # s @ b) = butlast (w # ws) @ split_blank (last (w # ws) @ b)"
      by (simp add: P)
    show ?thesis
    proof (cases ws)
      case Nil
      then have "w = d # s" using split_blank_single [of "d # s"] P by simp
      then have "split_blank (c # d # s) = [c # d # s]" using False P Nil by auto
      then show ?thesis by (simp del: split_blank.simps)
    next
      case (Cons x xs)
      then show ?thesis using False P IH by auto
    qed
  qed
qed simp_all

lemma split_blank_rest: "split_blank (last (split_blank a)) = [last (split_blank a)]"
proof -
  have "butlast (split_blank a) @ split_blank (last (split_blank a)) = butlast (split_blank a) @ [last (split_blank a)]"
    using split_blank_append [of a "[]"] by simp
  then show ?thesis by (simp only: same_append_eq)
qed

lemma consume_eq:
  assumes "split_blank buffer = [buffer]"
  shows "consumeSSEStream parse buffer chunks =
    concat (map (message_events parse) (butlast (split_blank (buffer @ concat chunks))))"
  using assms
proof (induction chunks arbitrary: buffer)
  case (Cons c cs)
  let ?P = "split_blank (buffer @ c)"
  have "consumeSSEStream parse (last ?P) cs = concat (map (message_events parse) (butlast (split_blank (last ?P @ concat cs))))"
    by (rule Cons.IH) (rule split_blank_rest)
  moreover have "split_blank (buffer @ c @ concat cs) = butlast ?P @ split_blank (last ?P @ concat cs)"
    using split_blank_append [of "buffer @ c" "concat cs"] by simp
  ultimately show ?case by (simp add: consumeChunk_def Let_def butlast_append)
qed simp

text \<open>What the stream says: the payload of every \<open>data:\<close> line of every complete message, in order.\<close>

definition data_events :: "(jsstr \<Rightarrow> 'e option) \<Rightarrow> jsstr \<Rightarrow> 'e list" where
  "data_events parse text =
     concat (map (\<lambda>message. List.map_filter (\<lambda>line. if startsWith line DATA then parse (drop 6 line) else None) (split_on 10 message))
       (butlast (split_blank text)))"

lemma trim_empty: "trim s = [] \<Longrightarrow> list_all isWhiteSpace s"
proof -
  assume "trim s = []"
  then have "dropWhile isWhiteSpace (rev (dropWhile isWhiteSpace s)) = []" by (simp add: trim_def trimEnd_def trimStart_def)
  then have "\<forall>c \<in> set (dropWhile isWhiteSpace s). isWhiteSpace c" by (simp add: dropWhile_eq_Nil_conv)
  then have "dropWhile isWhiteSpace s = []" by (metis dropWhile_eq_Nil_conv dropWhile_idem dropWhile_eq_self_iff list.set_sel(1) hd_dropWhile)
  then show ?thesis by (simp add: dropWhile_eq_Nil_conv list_all_iff)
qed

lemma data_line_head: "startsWith l DATA \<Longrightarrow> 100 \<in> set l"
  by (cases l) (auto simp: startsWith_def DATA_def js_def)

lemma message_events_eq:
  "message_events parse m = List.map_filter (\<lambda>l. if startsWith l DATA then parse (drop 6 l) else None) (split_on 10 m)"
proof (cases "trim m = []")
  case True
  then have "\<forall>c \<in> set m. isWhiteSpace c" using trim_empty by (simp add: list_all_iff)
  then have "100 \<notin> set m" by (auto simp: isWhiteSpace_def)
  then have "\<not> startsWith l DATA" if "l \<in> set (split_on 10 m)" for l
    using split_on_parts [OF that] data_line_head by blast
  then have "List.map_filter (\<lambda>l. if startsWith l DATA then parse (drop 6 l) else None) (split_on 10 m) = []"
    by (simp add: List.map_filter_def filter_empty_conv)
  with True show ?thesis by (simp add: message_events_def)
next
  case False
  have "concat (map (\<lambda>line. if startsWith line DATA then (case parse (drop 6 line) of None \<Rightarrow> [] | Some e \<Rightarrow> [e]) else []) ls)
      = List.map_filter (\<lambda>l. if startsWith l DATA then parse (drop 6 l) else None) ls" for ls
    by (induction ls) (auto simp: List.map_filter_def split: option.splits)
  with False show ?thesis by (simp add: message_events_def)
qed

text \<open>C31. However the network cuts the stream into chunks, the events delivered are the payloads of the complete
  messages of the whole text, in order.\<close>

theorem stream_chunking_irrelevant:
  "consumeSSEStream parse [] chunks = data_events parse (concat chunks)"
  using consume_eq [of "[]" parse chunks] by (simp add: data_events_def message_events_eq [abs_def])

section \<open>Back-off\<close>

lemma publish_simps [simp]:
  "retryDelay (publishStatus st s) = retryDelay s" "status (publishStatus st s) = st"
  "retryDelay (publishEvent Q e s) = retryDelay s" "status (publishEvent Q e s) = status s"
  by (simp_all add: publishStatus_def publishEvent_def postSyncMessage_def setSSEStatus_def)

lemma fold_publish_simps [simp]:
  "retryDelay (fold (publishEvent Q) es s) = retryDelay s" "status (fold (publishEvent Q) es s) = status s"
  by (induction es arbitrary: s) simp_all

lemma connect_stream_simps [simp]:
  "retryDelay (connect_stream Q es s) = retryDelay s" "status (connect_stream Q es s) = connected"
  by (simp_all add: connect_stream_def Let_def)

definition delay_ok :: "'c connection \<Rightarrow> bool" where
  "delay_ok s \<longleftrightarrow> INITIAL_RETRY_DELAY_MS \<le> retryDelay s \<and> retryDelay s \<le> MAX_RETRY_DELAY_MS"

lemma iteration_delay:
  assumes "delay_ok s" "iteration Q random E s = (w, s')"
  shows "delay_ok s' \<and> (\<forall>x. w = Some x \<longrightarrow> (\<exists>d. INITIAL_RETRY_DELAY_MS \<le> d \<and> d \<le> MAX_RETRY_DELAY_MS \<and> x = random d))"
proof (cases "open_stream E")
  case NotLoggedIn
  then show ?thesis using assms by (auto simp: iteration_def delay_ok_def)
next
  case Stopped
  then show ?thesis using assms by (auto simp: iteration_def delay_ok_def)
next
  case Failed
  then show ?thesis using assms
    by (auto simp: iteration_def delay_ok_def Let_def RETRY_BACKOFF_MULTIPLIER_def INITIAL_RETRY_DELAY_MS_def MAX_RETRY_DELAY_MS_def
        split: if_splits)
next
  case Streams
  then show ?thesis using assms
    by (auto simp: iteration_def delay_ok_def Let_def RETRY_BACKOFF_MULTIPLIER_def INITIAL_RETRY_DELAY_MS_def MAX_RETRY_DELAY_MS_def
        split: if_splits)
qed

lemma loop_delay:
  assumes "delay_ok s" "runConnectionLoop Q random Es s = (ws, s')"
  shows "delay_ok s' \<and> (\<forall>x \<in> set ws. \<exists>d. INITIAL_RETRY_DELAY_MS \<le> d \<and> d \<le> MAX_RETRY_DELAY_MS \<and> x = random d)"
  using assms
proof (induction Es arbitrary: s ws)
  case (Cons E Es)
  obtain w s1 where w: "iteration Q random E s = (w, s1)" by force
  note step = iteration_delay [OF Cons.prems(1) w]
  show ?case
  proof (cases w)
    case None
    then show ?thesis using Cons.prems(2) w step by simp
  next
    case (Some x)
    obtain ws1 s2 where r: "runConnectionLoop Q random Es s1 = (ws1, s2)" by force
    then have "ws = x # ws1" "s' = s2" using Cons.prems(2) w Some by auto
    with Cons.IH [of s1 ws1] r step Some show ?thesis by auto
  qed
qed simp

text \<open>The delay after \<open>n\<close> failures.\<close>

definition backoff :: "nat \<Rightarrow> nat" where
  "backoff n = min (1000 * 2 ^ n) 30000"

lemma backoff_Suc: "min (backoff n * 2) 30000 = backoff (Suc n)"
  by (simp add: backoff_def min_def)

lemma failed_iteration:
  assumes "open_stream E = Failed" "\<not> left_at_end E" "retryDelay s = backoff n"
  obtains s' where "iteration Q random E s = (Some (random (backoff n)), s')" "retryDelay s' = backoff (Suc n)" "status s' = disconnected"
  using assms by (auto simp: iteration_def Let_def RETRY_BACKOFF_MULTIPLIER_def MAX_RETRY_DELAY_MS_def backoff_Suc)

lemma failing_loop:
  assumes "list_all (\<lambda>E. open_stream E = Failed \<and> \<not> left_at_end E) Es" "retryDelay s = backoff n" "Es \<noteq> []"
  shows "\<exists>s'. runConnectionLoop Q random Es s = (map (\<lambda>i. random (backoff i)) [n..<n + length Es], s')
    \<and> retryDelay s' = backoff (n + length Es) \<and> status s' = disconnected"
  using assms
proof (induction Es arbitrary: s n)
  case (Cons E Es)
  obtain s1 where s1: "iteration Q random E s = (Some (random (backoff n)), s1)" "retryDelay s1 = backoff (Suc n)" "status s1 = disconnected"
    using failed_iteration [of E s n Q random] Cons.prems by auto
  show ?case
  proof (cases "Es = []")
    case True
    then show ?thesis using s1 by simp
  next
    case False
    then obtain s2 where "runConnectionLoop Q random Es s1 = (map (\<lambda>i. random (backoff i)) [Suc n..<Suc n + length Es], s2)"
      "retryDelay s2 = backoff (Suc n + length Es)" "status s2 = disconnected"
      using Cons.IH [of s1 "Suc n"] Cons.prems(1) s1(2) by auto
    moreover have "[n..<n + length (E # Es)] = n # [Suc n..<Suc n + length Es]" by (simp add: upt_conv_Cons del: upt_Suc)
    ultimately show ?thesis using s1(1) by (simp del: upt_Suc)
  qed
qed simp

lemma reconnect_backs_off_facts:
  assumes random: "\<And>d. random d \<le> d" and s: "delay_ok s"
  shows "runConnectionLoop Q random Es s = (ws, s') \<Longrightarrow> delay_ok s' \<and> list_all (\<lambda>w. w \<le> 30000) ws"
    and "list_all (\<lambda>E. open_stream E = Failed \<and> \<not> left_at_end E) Es \<Longrightarrow> Es \<noteq> [] \<Longrightarrow> retryDelay s = 1000 \<Longrightarrow>
      \<exists>s'. runConnectionLoop Q random Es s = (map (\<lambda>i. random (min (1000 * 2 ^ i) 30000)) [0..<length Es], s')
        \<and> retryDelay s' = min (1000 * 2 ^ length Es) 30000 \<and> status s' = disconnected"
    and "open_stream E = Streams \<Longrightarrow> lasted E \<ge> 60000 \<Longrightarrow> \<not> left_at_end E \<Longrightarrow>
      \<exists>s'. iteration Q random E s = (Some (random 1000), s') \<and> retryDelay s' = 2000"
proof -
  show "delay_ok s' \<and> list_all (\<lambda>w. w \<le> 30000) ws" if "runConnectionLoop Q random Es s = (ws, s')"
  proof -
    note run = loop_delay [OF s that]
    have "w \<le> 30000" if "w \<in> set ws" for w
    proof -
      from bspec [OF conjunct2 [OF run] that] obtain d where "d \<le> MAX_RETRY_DELAY_MS" "w = random d"
        by (elim exE conjE)
      then show ?thesis using random [of d] by (simp add: MAX_RETRY_DELAY_MS_def)
    qed
    with run show ?thesis by (simp add: list_all_iff)
  qed
  show "\<exists>s'. runConnectionLoop Q random Es s = (map (\<lambda>i. random (min (1000 * 2 ^ i) 30000)) [0..<length Es], s')
      \<and> retryDelay s' = min (1000 * 2 ^ length Es) 30000 \<and> status s' = disconnected"
    if "list_all (\<lambda>E. open_stream E = Failed \<and> \<not> left_at_end E) Es" "Es \<noteq> []" "retryDelay s = 1000"
    using failing_loop [of Es s 0 Q random] that by (simp add: backoff_def)
  show "\<exists>s'. iteration Q random E s = (Some (random 1000), s') \<and> retryDelay s' = 2000"
    if "open_stream E = Streams" "lasted E \<ge> 60000" "\<not> left_at_end E"
    using that by (simp add: iteration_def Let_def STABLE_CONNECTION_THRESHOLD_MS_def INITIAL_RETRY_DELAY_MS_def
        RETRY_BACKOFF_MULTIPLIER_def MAX_RETRY_DELAY_MS_def)
qed

text \<open>Reconnecting backs off: in every run the delay stays between one and thirty seconds, and a jittered wait never
  exceeds its delay; \<open>n\<close> failures in a row wait 1, 2, 4, \<dots> seconds (before jitter), at most thirty, and leave
  the status disconnected. A connection that lasted a minute starts over from one second.\<close>

theorem reconnect_backs_off:
  assumes random: "\<And>d. random d \<le> d" and s: "delay_ok s"
  shows "(runConnectionLoop Q random Es s = (ws, s') \<longrightarrow> delay_ok s' \<and> list_all (\<lambda>w. w \<le> 30000) ws)
    \<and> (list_all (\<lambda>E. open_stream E = Failed \<and> \<not> left_at_end E) Es \<longrightarrow> Es \<noteq> [] \<longrightarrow> retryDelay s = 1000 \<longrightarrow>
      (\<exists>s'. runConnectionLoop Q random Es s = (map (\<lambda>i. random (min (1000 * 2 ^ i) 30000)) [0..<length Es], s')
        \<and> retryDelay s' = min (1000 * 2 ^ length Es) 30000 \<and> status s' = disconnected))
    \<and> (open_stream E = Streams \<longrightarrow> lasted E \<ge> 60000 \<longrightarrow> \<not> left_at_end E \<longrightarrow>
      (\<exists>s'. iteration Q random E s = (Some (random 1000), s') \<and> retryDelay s' = 2000))"
  using reconnect_backs_off_facts [OF assms] by blast

definition offline_attempt :: attempt_env where
  "offline_attempt = \<lparr>token1 = Some (js ''t''), response1 = FetchThrows, refresh_ok = True, token2 = None, response2 = FetchThrows,
     aborted_on_response = False, stream_events = [], lasted = 0, left_at_end = False\<rparr>"

definition fresh_connection :: "query_list connection" where
  "fresh_connection = \<lparr>status = disconnected, retryDelay = 1000, hasConnectedOnce = False, cache = [], posted = []\<rparr>"

lemma reconnect_backs_off_witness:
  "\<exists>s'. runConnectionLoop list_client (\<lambda>d. d div 2) [offline_attempt, offline_attempt] fresh_connection = ([500, 1000], s')
     \<and> retryDelay s' = 4000 \<and> status s' = disconnected"
proof -
  have "list_all (\<lambda>E. open_stream E = Failed \<and> \<not> left_at_end E) [offline_attempt, offline_attempt]"
    by (simp add: offline_attempt_def open_stream_def js_def)
  moreover have "delay_ok fresh_connection"
    by (simp add: delay_ok_def fresh_connection_def INITIAL_RETRY_DELAY_MS_def MAX_RETRY_DELAY_MS_def)
  ultimately have "\<exists>s'. runConnectionLoop list_client (\<lambda>d. d div 2) [offline_attempt, offline_attempt] fresh_connection =
      (map (\<lambda>i. min (1000 * 2 ^ i) 30000 div 2) [0..<length [offline_attempt, offline_attempt]], s')
      \<and> retryDelay s' = min (1000 * 2 ^ length [offline_attempt, offline_attempt]) 30000 \<and> status s' = disconnected"
    by (intro reconnect_backs_off [THEN conjunct2, THEN conjunct1, rule_format]) (simp_all add: fresh_connection_def)
  then show ?thesis by (simp add: upt_rec)
qed

section \<open>One live connection per tab\<close>

definition fresh_tab :: "'c tab \<Rightarrow> bool" where
  "fresh_tab t \<longleftrightarrow> mounted t \<and> \<not> isLeader t \<and> leadershipAbortController t = None \<and> \<not> hiddenDisconnectTimeout t
     \<and> tasks t = [] \<and> aborted t = []"

text \<open>The life of a tab: events reach it while it is mounted, its timer and its tasks run on their own, and the
  connection of a leading tab progresses.\<close>

inductive tab_run :: "'c query_client \<Rightarrow> 'c tab \<Rightarrow> bool" for Q where
  opened: "fresh_tab t \<Longrightarrow> tab_run Q (effect_mount t)"
| visibility: "tab_run Q t \<Longrightarrow> mounted t \<Longrightarrow> tab_run Q (handleVisibilityChange v t)"
| came_online: "tab_run Q t \<Longrightarrow> mounted t \<Longrightarrow> tab_run Q (handleOnline t)"
| went_offline: "tab_run Q t \<Longrightarrow> mounted t \<Longrightarrow> tab_run Q (handleOffline t)"
| page_hidden: "tab_run Q t \<Longrightarrow> mounted t \<Longrightarrow> tab_run Q (handlePageHide t)"
| page_shown: "tab_run Q t \<Longrightarrow> mounted t \<Longrightarrow> tab_run Q (handlePageShow t)"
| message: "tab_run Q t \<Longrightarrow> mounted t \<Longrightarrow> tab_run Q (handleSyncMessage Q m t)"
| timer: "tab_run Q t \<Longrightarrow> tab_run Q (hidden_timer_fires t)"
| begins: "tab_run Q t \<Longrightarrow> tab_run Q (task_starts k t)"
| settles: "tab_run Q t \<Longrightarrow> tab_run Q (task_settles k t)"
| progress: "tab_run Q t \<Longrightarrow> isLeader t \<Longrightarrow> iteration Q random E (conn t) = (w, c) \<Longrightarrow> tab_run Q (t\<lparr>conn := c\<rparr>)"
| closed: "tab_run Q t \<Longrightarrow> mounted t \<Longrightarrow> tab_run Q (effect_cleanup t)"

definition tab_inv :: "'c tab \<Rightarrow> bool" where
  "tab_inv t \<longleftrightarrow> distinct (tasks t) \<and> set (tasks t) \<union> set (aborted t) \<subseteq> {..< next_controller t}
     \<and> set (tasks t) - set (aborted t) \<subseteq> set_option (leadershipAbortController t)
     \<and> (leadershipAbortController t \<noteq> None \<longrightarrow> mounted t \<and> the (leadershipAbortController t) \<in> set (tasks t) - set (aborted t))"

lemma tab_post_simps [simp]:
  "tasks (tab_post m t) = tasks t" "aborted (tab_post m t) = aborted t" "mounted (tab_post m t) = mounted t"
  "leadershipAbortController (tab_post m t) = leadershipAbortController t" "next_controller (tab_post m t) = next_controller t"
  "isLeader (tab_post m t) = isLeader t"
  by (simp_all add: tab_post_def)

lemma inv_post [simp]: "tab_inv (tab_post m t) = tab_inv t"
  by (simp add: tab_inv_def)

lemma inv_frame [simp]:
  "tab_inv (t\<lparr>conn := c\<rparr>) = tab_inv t" "tab_inv (t\<lparr>isLeader := b\<rparr>) = tab_inv t" "tab_inv (t\<lparr>page_visible := b\<rparr>) = tab_inv t"
  "tab_inv (t\<lparr>page_online := b\<rparr>) = tab_inv t" "tab_inv (t\<lparr>hiddenDisconnectTimeout := b\<rparr>) = tab_inv t"
  "tab_inv (clearHiddenDisconnectTimeout t) = tab_inv t"
  by (simp_all add: tab_inv_def clearHiddenDisconnectTimeout_def)

lemma start_inv [inv_intros]: "tab_inv t \<Longrightarrow> tab_inv (startLeadership t)"
  by (auto simp: startLeadership_def tab_inv_def)

lemma stop_inv [inv_intros]: "tab_inv t \<Longrightarrow> tab_inv (stopLeadership t)"
  by (cases "leadershipAbortController t") (auto simp: stopLeadership_def tab_inv_def)

lemma stop_simps [simp]:
  "leadershipAbortController (stopLeadership t) = None" "mounted (stopLeadership t) = mounted t"
  "status (conn (stopLeadership t)) = disconnected"
  by (simp_all add: stopLeadership_def setSSEStatus_def)

lemma reconcile_inv [inv_intros]: "tab_inv t \<Longrightarrow> tab_inv (reconcilePageState t)"
  by (simp add: reconcilePageState_def Let_def start_inv stop_inv)

lemma settle_inv [inv_intros]: "tab_inv t \<Longrightarrow> tab_inv (task_settles k t)"
  by (auto simp: task_settles_def tab_inv_def)

lemma message_inv [inv_intros]: "tab_inv t \<Longrightarrow> tab_inv (handleSyncMessage Q m t)"
  by (cases m) (simp_all add: handleSyncMessage_def Let_def)

lemma cleanup_inv [inv_intros]: "tab_inv t \<Longrightarrow> tab_inv (effect_cleanup t)"
  by (cases "leadershipAbortController t") (auto simp: effect_cleanup_def stopLeadership_def tab_inv_def clearHiddenDisconnectTimeout_def)

lemma tab_run_inv: "tab_run Q t \<Longrightarrow> tab_inv t"
proof (induction rule: tab_run.induct)
  case (opened t)
  then have "tab_inv t" by (simp add: fresh_tab_def tab_inv_def)
  then show ?case by (simp add: effect_mount_def reconcile_inv)
qed (simp_all add: handleVisibilityChange_def handleOnline_def handleOffline_def handlePageHide_def handlePageShow_def
    hidden_timer_fires_def task_starts_def reconcile_inv stop_inv settle_inv message_inv cleanup_inv)

lemma live_tasks_single:
  assumes "tab_inv t"
  shows "filter (\<lambda>k. k \<notin> set (aborted t)) (tasks t) = (case leadershipAbortController t of None \<Rightarrow> [] | Some k \<Rightarrow> [k])"
proof -
  let ?live = "filter (\<lambda>k. k \<notin> set (aborted t)) (tasks t)"
  have d: "distinct ?live" using assms by (simp add: tab_inv_def)
  have s: "set ?live = set_option (leadershipAbortController t)"
    using assms by (cases "leadershipAbortController t") (auto simp: tab_inv_def)
  show ?thesis
  proof (cases "leadershipAbortController t")
    case None
    then show ?thesis using s by simp
  next
    case (Some k)
    then have "set ?live = {k}" using s by simp
    moreover from this have "length ?live = 1" using distinct_card [OF d] by simp
    then obtain x where "?live = [x]" by (metis length_0_conv length_Suc_conv One_nat_def)
    ultimately show ?thesis using Some by auto
  qed
qed

lemma one_live_connection_facts:
  assumes run: "tab_run Q t"
  shows "filter (\<lambda>k. k \<notin> set (aborted t)) (tasks t) = (case leadershipAbortController t of None \<Rightarrow> [] | Some k \<Rightarrow> [k])"
    and "t' \<in> {handleOffline t, handlePageHide t, effect_cleanup t} \<Longrightarrow> mounted t \<Longrightarrow>
      filter (\<lambda>k. k \<notin> set (aborted t')) (tasks t') = [] \<and> status (conn t') = disconnected"
    and "hiddenDisconnectTimeout t \<Longrightarrow> t' = hidden_timer_fires t \<Longrightarrow>
      filter (\<lambda>k. k \<notin> set (aborted t')) (tasks t') = [] \<and> status (conn t') = disconnected"
    and "mounted t \<Longrightarrow> page_online t \<Longrightarrow> truthy (currentUserName t) \<Longrightarrow>
      leadershipAbortController (handleVisibilityChange True t) \<noteq> None"
proof -
  show "filter (\<lambda>k. k \<notin> set (aborted t)) (tasks t) = (case leadershipAbortController t of None \<Rightarrow> [] | Some k \<Rightarrow> [k])"
    by (rule live_tasks_single [OF tab_run_inv [OF run]])
  show "filter (\<lambda>k. k \<notin> set (aborted t')) (tasks t') = [] \<and> status (conn t') = disconnected"
    if "t' \<in> {handleOffline t, handlePageHide t, effect_cleanup t}" "mounted t"
  proof -
    have "tab_run Q t'" using that run by (auto intro: tab_run.intros)
    moreover have "leadershipAbortController t' = None" "status (conn t') = disconnected"
      using that by (auto simp: handleOffline_def handlePageHide_def effect_cleanup_def)
    ultimately show ?thesis using live_tasks_single [OF tab_run_inv] by fastforce
  qed
  show "filter (\<lambda>k. k \<notin> set (aborted t')) (tasks t') = [] \<and> status (conn t') = disconnected"
    if "hiddenDisconnectTimeout t" "t' = hidden_timer_fires t"
  proof -
    have "tab_run Q t'" using that run by (auto intro: tab_run.intros)
    moreover have "leadershipAbortController t' = None" "status (conn t') = disconnected"
      using that by (auto simp: hidden_timer_fires_def)
    ultimately show ?thesis using live_tasks_single [OF tab_run_inv] by fastforce
  qed
  show "leadershipAbortController (handleVisibilityChange True t) \<noteq> None"
    if "mounted t" "page_online t" "truthy (currentUserName t)"
    using that by (auto simp: handleVisibilityChange_def reconcilePageState_def clearHiddenDisconnectTimeout_def
        startLeadership_def isPageEligibleForSSE_def Let_def)
qed

text \<open>C32. However a tab is shown, hidden, suspended and reconnected, at most one of its leadership tasks is live, the one
  on record. Going offline, leaving the page, the timer of a hidden page and unmounting leave no live task and the status
  disconnected; a visible page that is online and signed in asks for leadership again.\<close>

theorem one_live_connection:
  assumes run: "tab_run Q t"
  shows "(filter (\<lambda>k. k \<notin> set (aborted t)) (tasks t) = (case leadershipAbortController t of None \<Rightarrow> [] | Some k \<Rightarrow> [k]))
    \<and> (t' \<in> {handleOffline t, handlePageHide t, effect_cleanup t} \<longrightarrow> mounted t \<longrightarrow>
      filter (\<lambda>k. k \<notin> set (aborted t')) (tasks t') = [] \<and> status (conn t') = disconnected)
    \<and> (hiddenDisconnectTimeout t \<longrightarrow> t' = hidden_timer_fires t \<longrightarrow>
      filter (\<lambda>k. k \<notin> set (aborted t')) (tasks t') = [] \<and> status (conn t') = disconnected)
    \<and> (mounted t \<longrightarrow> page_online t \<longrightarrow> truthy (currentUserName t) \<longrightarrow>
      leadershipAbortController (handleVisibilityChange True t) \<noteq> None)"
  using one_live_connection_facts [OF assms] by blast

definition new_tab :: "query_list tab" where
  "new_tab = \<lparr>mounted = True, isLeader = False, leadershipAbortController = None, next_controller = 0,
     hiddenDisconnectTimeout = False, page_visible = True, page_online = True, currentUserName = Some (js ''users/ada''),
     hasChannel = True, channelClientID = js ''c'', tasks = [], aborted = [], conn = fresh_connection\<rparr>"

lemma one_live_connection_witness:
  "leadershipAbortController (handleVisibilityChange True (handleOffline (effect_mount new_tab)\<lparr>page_online := True\<rparr>)) \<noteq> None
   \<and> filter (\<lambda>k. k \<notin> set (aborted (handleOffline (effect_mount new_tab)))) (tasks (handleOffline (effect_mount new_tab))) = []"
proof -
  have r: "tab_run list_client (effect_mount new_tab)" by (rule opened) (simp add: fresh_tab_def new_tab_def)
  moreover have m: "mounted (effect_mount new_tab)"
    by (simp add: effect_mount_def new_tab_def reconcilePageState_def startLeadership_def clearHiddenDisconnectTimeout_def Let_def)
  ultimately have 1: "filter (\<lambda>k. k \<notin> set (aborted (handleOffline (effect_mount new_tab)))) (tasks (handleOffline (effect_mount new_tab))) = []"
    using one_live_connection [THEN conjunct2, THEN conjunct1, rule_format, OF r, of "handleOffline (effect_mount new_tab)"] by blast
  have "leadershipAbortController (handleVisibilityChange True (handleOffline (effect_mount new_tab)\<lparr>page_online := True\<rparr>)) \<noteq> None"
    by (simp add: handleVisibilityChange_def handleOffline_def effect_mount_def new_tab_def reconcilePageState_def
        startLeadership_def stopLeadership_def clearHiddenDisconnectTimeout_def isPageEligibleForSSE_def Let_def tab_post_def js_def)
  with 1 show ?thesis by blast
qed

end
