(* ===== verification/Markdown_Edit.thy ===== *)
theory Markdown_Edit
  imports JS_Prelude
begin

text \<open>
  Editing the Markdown source of a memo: checking and unchecking tasks
  (\<^verbatim>\<open>web/src/utils/markdown-task-actions.ts\<close>, \<^verbatim>\<open>web/src/utils/markdown-manipulation.ts\<close>) and the anchors of headings
  (the second file). The Markdown parser is a third-party package: it is an argument that returns the list items of a
  text in the order of the visit, or fails.
\<close>

section \<open>Lines\<close>

record list_item =
  item_checked :: "bool option"
  item_startLine :: "nat option"

type_synonym markdown_parser = "jsstr \<Rightarrow> list_item list option"

record SourceRange =
  range_start :: nat
  range_end :: nat

record MarkdownEdit =
  edit_start :: nat
  edit_end :: nat
  replacement :: jsstr

record ParsedTaskItem =
  task_checked :: bool
  checkboxMarker :: SourceRange

record LineInfo =
  line_text :: jsstr
  startOffset :: nat
  endOffset :: nat

definition getLineStarts :: "jsstr \<Rightarrow> nat list" where
  "getLineStarts markdown = 0 # map Suc (filter (\<lambda>i. markdown ! i = 10) [0..<length markdown])"

definition getLineInfo :: "jsstr \<Rightarrow> nat list \<Rightarrow> nat \<Rightarrow> LineInfo option" where
  "getLineInfo markdown lineStarts lineNumber =
     (case charAt lineStarts lineNumber of
        None \<Rightarrow> None
      | Some start \<Rightarrow>
          (let endOffset = (case charAt lineStarts (Suc lineNumber) of None \<Rightarrow> length markdown | Some n \<Rightarrow> n - 1)
           in Some \<lparr>line_text = slice markdown start endOffset, startOffset = start, endOffset = endOffset\<rparr>))"

section \<open>Task lines\<close>

definition isBullet :: "code_unit \<Rightarrow> bool" where
  "isBullet c \<longleftrightarrow> c = 45 \<or> c = 42 \<or> c = 43"

text \<open>\<open>[-*+]|\d+[.)]\<close>: the length of the marker at the front.\<close>

definition listMarker :: "jsstr \<Rightarrow> nat option" where
  "listMarker s =
     (case s of
        [] \<Rightarrow> None
      | c # r \<Rightarrow>
          if isBullet c then Some 1
          else let ds = takeWhile isDigit s
               in if ds \<noteq> [] \<and> (charAt s (length ds) = Some 46 \<or> charAt s (length ds) = Some 41)
                  then Some (Suc (length ds)) else None)"

definition isCheck :: "code_unit \<Rightarrow> bool" where
  "isCheck c \<longleftrightarrow> c = 32 \<or> c = 120 \<or> c = 88"

text \<open>\<open>\[([ xX])\]\<close> at the front.\<close>

definition checkboxAt :: "jsstr \<Rightarrow> bool" where
  "checkboxAt s \<longleftrightarrow> 3 \<le> length s \<and> s ! 0 = 91 \<and> isCheck (s ! 1) \<and> s ! 2 = 93"

text \<open>\<open>TASK_LINE_REGEXP\<close>: the length of everything before the bracket. White space, the marker and the bracket
  exclude one another, so there is one way to match.\<close>

definition taskLine :: "jsstr \<Rightarrow> nat option" where
  "taskLine s =
     (let a = length (takeWhile isWhiteSpace s); r = drop a s
      in case listMarker r of
           None \<Rightarrow> None
         | Some m \<Rightarrow>
             (let r2 = drop m r; b = length (takeWhile isWhiteSpace r2)
              in if 0 < b \<and> checkboxAt (drop b r2) then Some (a + m + b) else None))"

definition parseTaskItem :: "jsstr \<Rightarrow> list_item \<Rightarrow> ParsedTaskItem list" where
  "parseTaskItem markdown node =
     (case (item_checked node, item_startLine node) of
        (Some checked, Some line) \<Rightarrow>
          (case if line = 0 then None else getLineInfo markdown (getLineStarts markdown) (line - 1) of
             None \<Rightarrow> []
           | Some info \<Rightarrow>
               (case taskLine (line_text info) of
                  None \<Rightarrow> []
                | Some n \<Rightarrow>
                    (let markerStart = startOffset info + n + 1
                     in [\<lparr>task_checked = checked, checkboxMarker = \<lparr>range_start = markerStart, range_end = markerStart + 1\<rparr>\<rparr>])))
      | _ \<Rightarrow> [])"

definition parseTaskItems :: "markdown_parser \<Rightarrow> jsstr \<Rightarrow> ParsedTaskItem list" where
  "parseTaskItems parse markdown =
     (case parse markdown of None \<Rightarrow> [] | Some nodes \<Rightarrow> concat (map (parseTaskItem markdown) nodes))"

section \<open>Edits\<close>

fun edits_valid :: "nat \<Rightarrow> nat \<Rightarrow> MarkdownEdit list \<Rightarrow> bool" where
  "edits_valid len previousEnd [] \<longleftrightarrow> True"
| "edits_valid len previousEnd (e # es) \<longleftrightarrow>
     \<not> (edit_end e < edit_start e \<or> edit_end e > len \<or> edit_start e < previousEnd) \<and> edits_valid len (edit_end e) es"

definition apply_edit :: "MarkdownEdit \<Rightarrow> jsstr \<Rightarrow> jsstr" where
  "apply_edit e s = take (edit_start e) s @ replacement e @ drop (edit_end e) s"

text \<open>The edits are applied from the last to the first.\<close>

definition applyMarkdownEdits :: "jsstr \<Rightarrow> MarkdownEdit list \<Rightarrow> jsstr" where
  "applyMarkdownEdits markdown edits =
     (if edits = [] then markdown
      else let sortedEdits = sort_key edit_start edits
           in if \<not> edits_valid (length markdown) 0 sortedEdits then markdown
              else foldr apply_edit sortedEdits markdown)"

definition setAllTaskMarkers :: "markdown_parser \<Rightarrow> jsstr \<Rightarrow> bool \<Rightarrow> jsstr" where
  "setAllTaskMarkers parse markdown checked =
     (let marker = (if checked then [120] else [32]);
          edits = map (\<lambda>t. \<lparr>edit_start = range_start (checkboxMarker t), edit_end = range_end (checkboxMarker t), replacement = marker\<rparr>)
                    (filter (\<lambda>t. task_checked t \<noteq> checked) (parseTaskItems parse markdown))
      in applyMarkdownEdits markdown edits)"

definition uncheckAllTasks :: "markdown_parser \<Rightarrow> jsstr \<Rightarrow> jsstr" where
  "uncheckAllTasks parse markdown = setAllTaskMarkers parse markdown False"

definition checkAllTasks :: "markdown_parser \<Rightarrow> jsstr \<Rightarrow> jsstr" where
  "checkAllTasks parse markdown = setAllTaskMarkers parse markdown True"

section \<open>Toggling one task\<close>

record TaskInfo =
  info_lineNumber :: nat
  info_checked :: bool

text \<open>\<open>None\<close> when the parser throws.\<close>

definition extractTasksFromAst :: "markdown_parser \<Rightarrow> jsstr \<Rightarrow> TaskInfo list option" where
  "extractTasksFromAst parse markdown =
     map_option (\<lambda>nodes. concat (map (\<lambda>node.
       case (item_checked node, item_startLine node) of
         (Some checked, Some line) \<Rightarrow> if line \<noteq> 0 then [\<lparr>info_lineNumber = line - 1, info_checked = checked\<rparr>] else []
       | _ \<Rightarrow> []) nodes)) (parse markdown)"

definition isLineTerminator :: "code_unit \<Rightarrow> bool" where
  "isLineTerminator c \<longleftrightarrow> c = 10 \<or> c = 13 \<or> c = 8232 \<or> c = 8233"

text \<open>\<open>/^(\s*[-*+]\s+)\[([ xX])\](\s+.*)$/\<close>: the length of the first group.\<close>

definition taskPattern :: "jsstr \<Rightarrow> nat option" where
  "taskPattern s =
     (let a = length (takeWhile isWhiteSpace s); r = drop a s
      in if r \<noteq> [] \<and> isBullet (hd r)
         then let b = length (takeWhile isWhiteSpace (tl r)); n = a + 1 + b; suffix = drop (n + 3) s
              in if 0 < b \<and> checkboxAt (drop n s) \<and> suffix \<noteq> [] \<and> isWhiteSpace (hd suffix)
                    \<and> \<not> list_ex isLineTerminator (dropWhile isWhiteSpace suffix)
                 then Some n else None
         else None)"

definition toggleTaskAtLine :: "jsstr \<Rightarrow> nat \<Rightarrow> bool \<Rightarrow> jsstr" where
  "toggleTaskAtLine markdown lineNumber checked =
     (let lines = split_on 10 markdown
      in if lineNumber \<ge> length lines then markdown
         else case taskPattern (lines ! lineNumber) of
                None \<Rightarrow> markdown
              | Some n \<Rightarrow>
                  (let line = lines ! lineNumber; newCheckmark = (if checked then 120 else 32)
                   in join [10] (lines[lineNumber := take n line @ [91, newCheckmark, 93] @ drop (n + 3) line])))"

definition toggleTaskAtIndex :: "markdown_parser \<Rightarrow> jsstr \<Rightarrow> nat \<Rightarrow> bool \<Rightarrow> jsstr option" where
  "toggleTaskAtIndex parse markdown taskIndex checked =
     map_option (\<lambda>tasks. if taskIndex \<ge> length tasks then markdown
                         else toggleTaskAtLine markdown (info_lineNumber (tasks ! taskIndex)) checked)
       (extractTasksFromAst parse markdown)"

definition getTaskLineNumber :: "markdown_parser \<Rightarrow> jsstr \<Rightarrow> nat \<Rightarrow> int option" where
  "getTaskLineNumber parse markdown taskIndex =
     map_option (\<lambda>tasks. if taskIndex \<ge> length tasks then -1 else int (info_lineNumber (tasks ! taskIndex)))
       (extractTasksFromAst parse markdown)"

section \<open>Anchors\<close>

text \<open>\<open>s.replace(/P+/g, "-")\<close>: every run of matching characters becomes one dash.\<close>

function dash_runs :: "(code_unit \<Rightarrow> bool) \<Rightarrow> jsstr \<Rightarrow> jsstr" where
  "dash_runs P [] = []"
| "dash_runs P (c # s) = (if P c then 45 # dash_runs P (dropWhile P s) else c # dash_runs P s)"
  by pat_completeness auto
termination
  by (relation "measure (\<lambda>(P, s). length s)") (auto simp: le_imp_less_Suc length_dropWhile_le)

text \<open>\<open>s.replace(/^-|-$/g, "")\<close>\<close>

definition trim_dashes :: "jsstr \<Rightarrow> jsstr" where
  "trim_dashes s =
     (let t = (if s \<noteq> [] \<and> hd s = 45 then tl s else s) in if t \<noteq> [] \<and> last t = 45 then butlast t else t)"

text \<open>Normalisation, lower case and the class of letters, numbers and marks are those of the Unicode standard.\<close>

definition slugify :: "(jsstr \<Rightarrow> jsstr) \<Rightarrow> (jsstr \<Rightarrow> jsstr) \<Rightarrow> (jsstr \<Rightarrow> jsstr) \<Rightarrow> jsstr \<Rightarrow> jsstr" where
  "slugify nfc lower keepLetters text =
     trim_dashes (dash_runs (\<lambda>c. c = 45) (dash_runs (\<lambda>c. isWhiteSpace c \<or> c = 95) (keepLetters (trim (lower (nfc text))))))"

definition legacySlugify :: "(jsstr \<Rightarrow> jsstr) \<Rightarrow> jsstr \<Rightarrow> jsstr" where
  "legacySlugify lower text =
     trim_dashes (dash_runs (\<lambda>c. c = 45) (dash_runs (\<lambda>c. isWhiteSpace c \<or> c = 95)
       (filter (\<lambda>c. isAsciiAlnum c \<or> c = 95 \<or> isWhiteSpace c \<or> c = 45) (trim (lower text)))))"

record element =
  el_id :: "jsstr option"
  el_original :: "jsstr option"
  el_heading :: bool
  el_text :: jsstr

fun legacyAnchor :: "(jsstr \<Rightarrow> jsstr) \<Rightarrow> (jsstr \<times> nat) list \<Rightarrow> jsstr \<Rightarrow> element list \<Rightarrow> element option" where
  "legacyAnchor lower slugCounts fragment [] = None"
| "legacyAnchor lower slugCounts fragment (h # hs) =
     (let baseSlug = legacySlugify lower (el_text h)
      in if baseSlug = [] then legacyAnchor lower slugCounts fragment hs
         else let count = (case map_of slugCounts baseSlug of None \<Rightarrow> 0 | Some n \<Rightarrow> n);
                  slug = (if count = 0 then baseSlug else baseSlug @ [45] @ dec count)
              in if slug = fragment then Some h
                 else legacyAnchor lower (AList.update baseSlug (count + 1) slugCounts) fragment hs)"

text \<open>The elements below the root, in document order.\<close>

definition findAnchorTarget :: "(jsstr \<Rightarrow> jsstr) \<Rightarrow> element list \<Rightarrow> jsstr \<Rightarrow> element option" where
  "findAnchorTarget lower root fragment =
     (if fragment = [] then None
      else case List.find (\<lambda>e. el_id e = Some fragment) root of
             Some e \<Rightarrow> Some e
           | None \<Rightarrow>
               (case List.find (\<lambda>e. el_original e = Some fragment) root of
                  Some e \<Rightarrow> Some e
                | None \<Rightarrow> legacyAnchor lower [] fragment (filter el_heading root)))"

text \<open>A page: its elements, and the rendered memos on it with their \<open>data-memo-name\<close> and the elements inside.\<close>

record page =
  page_elements :: "element list"
  page_memos :: "(jsstr option \<times> element list) list"

definition findMemoContentRoot :: "page \<Rightarrow> jsstr \<Rightarrow> element list option" where
  "findMemoContentRoot root memoName =
     map_option snd (List.find (\<lambda>m. fst m = Some memoName) (page_memos root))"

definition findMemoAnchorTarget :: "(jsstr \<Rightarrow> jsstr) \<Rightarrow> page \<Rightarrow> jsstr \<Rightarrow> jsstr \<Rightarrow> element option" where
  "findMemoAnchorTarget lower root memoName fragment =
     (case Option.bind (findMemoContentRoot root memoName) (\<lambda>memoContent. findAnchorTarget lower memoContent fragment) of
        Some e \<Rightarrow> Some e
      | None \<Rightarrow> findAnchorTarget lower (page_elements root) fragment)"

definition slugAt :: "jsstr \<Rightarrow> nat \<Rightarrow> jsstr" where
  "slugAt baseSlug suffix = (if suffix = 0 then baseSlug else baseSlug @ [45] @ dec suffix)"

lemma slugAt_inj: "inj (slugAt base)"
proof (rule injI)
  fix i j
  assume "slugAt base i = slugAt base j"
  then have "i = 0 \<longleftrightarrow> j = 0" "i \<noteq> 0 \<longrightarrow> dec i = dec j" by (auto simp: slugAt_def split: if_splits)
  then show "i = j" by (metis undec_dec)
qed

lemma finite_taken: "finite {j. k \<le> j \<and> slugAt base j \<in> set used}"
proof -
  have "finite (slugAt base -` set used)" using slugAt_inj by (intro finite_vimageI) auto
  then show ?thesis by (rule finite_subset [rotated]) auto
qed

text \<open>The loop of the generator: the first suffix whose slug is free.\<close>

function uniqueLoop :: "jsstr list \<Rightarrow> jsstr \<Rightarrow> nat \<Rightarrow> jsstr" where
  "uniqueLoop used base suffix =
     (if slugAt base suffix \<in> set used then uniqueLoop used base (Suc suffix) else slugAt base suffix)"
  by pat_completeness auto
termination
proof (relation "measure (\<lambda>(used, base, k). card {j. k \<le> j \<and> slugAt base j \<in> set used})", goal_cases)
  case (2 used base k)
  have "k \<in> {j. k \<le> j \<and> slugAt base j \<in> set used} - {j. Suc k \<le> j \<and> slugAt base j \<in> set used}" using 2 by simp
  then have "{j. Suc k \<le> j \<and> slugAt base j \<in> set used} \<subset> {j. k \<le> j \<and> slugAt base j \<in> set used}"
    using Suc_leD by blast
  then show ?case using psubset_card_mono [OF finite_taken] by simp
qed simp

declare uniqueLoop.simps [simp del]

definition createUniqueSlugGenerator :: "jsstr list \<Rightarrow> jsstr list" where
  "createUniqueSlugGenerator reservedSlugs = set_of reservedSlugs"

definition nextSlug :: "jsstr list \<Rightarrow> jsstr \<Rightarrow> jsstr \<times> jsstr list" where
  "nextSlug usedSlugs baseSlug = (let slug = uniqueLoop usedSlugs baseSlug 0 in (slug, set_add slug usedSlugs))"

record TaskItem =
  ti_lineNumber :: nat
  ti_taskIndex :: nat
  ti_checked :: bool
  ti_content :: jsstr
  ti_indentation :: nat

text \<open>\<open>/^\s*[-*+]\s+\[[ xX]\]\s+(.*)/\<close>: the rest of the line after the checkbox, up to a line terminator.\<close>

definition taskContent :: "jsstr \<Rightarrow> jsstr" where
  "taskContent s =
     (let a = length (takeWhile isWhiteSpace s); r = drop a s
      in if r \<noteq> [] \<and> isBullet (hd r)
         then let b = length (takeWhile isWhiteSpace (tl r)); n = a + 1 + b; suffix = drop (n + 3) s
              in if 0 < b \<and> checkboxAt (drop n s) \<and> suffix \<noteq> [] \<and> isWhiteSpace (hd suffix)
                 then takeWhile (\<lambda>c. \<not> isLineTerminator c) (dropWhile isWhiteSpace suffix) else []
         else [])"

fun extractLoop :: "jsstr list \<Rightarrow> nat \<Rightarrow> list_item list \<Rightarrow> TaskItem list" where
  "extractLoop lines taskIndex [] = []"
| "extractLoop lines taskIndex (node # nodes) =
     (case (item_checked node, item_startLine node) of
        (Some checked, Some line) \<Rightarrow>
          if line \<noteq> 0
          then (let text = lines ! (line - 1)
                in \<lparr>ti_lineNumber = line - 1, ti_taskIndex = taskIndex, ti_checked = checked, ti_content = taskContent text,
                    ti_indentation = length (takeWhile isWhiteSpace text)\<rparr> # extractLoop lines (Suc taskIndex) nodes)
          else extractLoop lines taskIndex nodes
      | _ \<Rightarrow> extractLoop lines taskIndex nodes)"

text \<open>\<open>None\<close> when the parser throws, or a task is said to start after the last line.\<close>

definition extractTasks :: "markdown_parser \<Rightarrow> jsstr \<Rightarrow> TaskItem list option" where
  "extractTasks parse markdown =
     (let lines = split_on 10 markdown
      in case parse markdown of
           None \<Rightarrow> None
         | Some nodes \<Rightarrow>
             if list_ex (\<lambda>node. item_checked node \<noteq> None \<and> (case item_startLine node of None \<Rightarrow> False | Some l \<Rightarrow> l > length lines)) nodes
             then None else Some (extractLoop lines 0 nodes))"

section \<open>Checking all tasks rewrites checkboxes only\<close>

text \<open>Reading an edited text from left to right: what a list of edits means.\<close>

fun splice :: "jsstr \<Rightarrow> nat \<Rightarrow> MarkdownEdit list \<Rightarrow> jsstr" where
  "splice s pos [] = drop pos s"
| "splice s pos (e # es) = slice s pos (edit_start e) @ replacement e @ splice s (edit_end e) es"

lemma foldr_splice:
  "edits_valid (length s) pos es \<Longrightarrow> pos \<le> length s \<Longrightarrow> foldr apply_edit es s = take pos s @ splice s pos es"
proof (induction es arbitrary: pos)
  case (Cons e es)
  then have e: "pos \<le> edit_start e" "edit_start e \<le> edit_end e" "edit_end e \<le> length s" by auto
  have "foldr apply_edit es s = take (edit_end e) s @ splice s (edit_end e) es" using Cons e by simp
  then have "foldr apply_edit (e # es) s = take (edit_start e) s @ replacement e @ splice s (edit_end e) es"
    using e by (simp add: apply_edit_def min_def)
  moreover have "take (edit_start e) s = take pos s @ slice s pos (edit_start e)"
    using e(1) slice_append [of 0 pos "edit_start e" s] by (simp add: slice_def)
  ultimately show ?case by simp
qed simp

lemma applyMarkdownEdits_splice:
  assumes "edits_valid (length s) 0 (sort_key edit_start es)"
  shows "applyMarkdownEdits s es = splice s 0 (sort_key edit_start es)"
  using foldr_splice [OF assms] assms by (simp add: applyMarkdownEdits_def Let_def)

text \<open>Edits that replace one character each are updates of the text.\<close>

definition unit_edit :: "code_unit \<Rightarrow> nat \<Rightarrow> MarkdownEdit" where
  "unit_edit c p = \<lparr>edit_start = p, edit_end = p + 1, replacement = [c]\<rparr>"

lemma apply_unit_edit: "p < length s \<Longrightarrow> apply_edit (unit_edit c p) s = s[p := c]"
  by (simp add: apply_edit_def unit_edit_def upd_conv_take_nth_drop)

lemma foldr_unit_edits:
  assumes "\<And>p. p \<in> set ps \<Longrightarrow> p < length s"
  shows "length (foldr apply_edit (map (unit_edit c) ps) s) = length s"
    and "i < length s \<Longrightarrow> foldr apply_edit (map (unit_edit c) ps) s ! i = (if i \<in> set ps then c else s ! i)"
proof -
  have "length (foldr apply_edit (map (unit_edit c) ps) s) = length s
    \<and> (i < length s \<longrightarrow> foldr apply_edit (map (unit_edit c) ps) s ! i = (if i \<in> set ps then c else s ! i))" for i
    using assms by (induction ps) (auto simp: apply_unit_edit nth_list_update)
  then show "length (foldr apply_edit (map (unit_edit c) ps) s) = length s"
    "i < length s \<Longrightarrow> foldr apply_edit (map (unit_edit c) ps) s ! i = (if i \<in> set ps then c else s ! i)" by blast+
qed

lemma sort_unit_edits: "sort_key edit_start (map (unit_edit c) ps) = map (unit_edit c) (sort ps)"
proof -
  have "insort_key edit_start (unit_edit c p) (map (unit_edit c) qs) = map (unit_edit c) (insort p qs)" for p qs
    by (induction qs) (auto simp: unit_edit_def)
  then show ?thesis by (induction ps) simp_all
qed

lemma unit_edits_valid_iff:
  "sorted ps \<Longrightarrow> (\<And>p. p \<in> set ps \<Longrightarrow> p < n) \<Longrightarrow>
   edits_valid n b (map (unit_edit c) ps) \<longleftrightarrow> distinct ps \<and> (ps \<noteq> [] \<longrightarrow> b \<le> hd ps)"
proof (induction ps arbitrary: b)
  case (Cons p ps)
  have "p < n" using Cons.prems by simp
  have "edits_valid n (Suc p) (map (unit_edit c) ps) \<longleftrightarrow> distinct ps \<and> (ps \<noteq> [] \<longrightarrow> Suc p \<le> hd ps)"
    using Cons.IH [of "Suc p"] Cons.prems by simp
  moreover have "edits_valid n b (map (unit_edit c) (p # ps)) \<longleftrightarrow> b \<le> p \<and> edits_valid n (Suc p) (map (unit_edit c) ps)"
    using \<open>p < n\<close> by (auto simp: unit_edit_def)
  ultimately have "edits_valid n b (map (unit_edit c) (p # ps)) \<longleftrightarrow> b \<le> p \<and> distinct ps \<and> (ps \<noteq> [] \<longrightarrow> Suc p \<le> hd ps)"
    by blast
  also have "\<dots> \<longleftrightarrow> b \<le> p \<and> distinct (p # ps)"
    using Cons.prems(1) by (cases ps) (auto simp: Suc_le_eq order.strict_iff_order)
  finally show ?case by auto
qed simp

text \<open>The positions that are rewritten.\<close>

definition targets :: "markdown_parser \<Rightarrow> jsstr \<Rightarrow> bool \<Rightarrow> nat list" where
  "targets parse s checked =
     map (\<lambda>t. range_start (checkboxMarker t)) (filter (\<lambda>t. task_checked t \<noteq> checked) (parseTaskItems parse s))"

lemma taskLine_checkbox:
  assumes "taskLine s = Some n"
  shows "n + 2 < length s \<and> s ! n = 91 \<and> isCheck (s ! Suc n) \<and> s ! (n + 2) = 93"
proof -
  obtain a m b where n: "n = a + m + b" "checkboxAt (drop b (drop m (drop a s)))"
    using assms by (auto simp: taskLine_def Let_def split: option.splits if_splits)
  then have "checkboxAt (drop n s)" by (simp add: add.commute add.left_commute)
  then show ?thesis by (auto simp: checkboxAt_def)
qed

lemma getLineInfo_slice:
  assumes "getLineInfo s ls k = Some info"
  shows "line_text info = slice s (startOffset info) (endOffset info)"
  using assms by (auto simp: getLineInfo_def Let_def split: option.splits)

lemma slice_nth: "i < length (slice s a b) \<Longrightarrow> slice s a b ! i = s ! (a + i) \<and> a + i < length s"
  by (auto simp: slice_def)

lemma parseTaskItem_checkbox:
  assumes "t \<in> set (parseTaskItem s node)"
  shows "\<exists>p. checkboxMarker t = \<lparr>range_start = Suc p, range_end = p + 2\<rparr> \<and> p + 2 < length s
    \<and> s ! p = 91 \<and> isCheck (s ! Suc p) \<and> s ! (p + 2) = 93"
proof -
  obtain ls k info n where info: "getLineInfo s ls k = Some info" "taskLine (line_text info) = Some n"
    "checkboxMarker t = \<lparr>range_start = startOffset info + n + 1, range_end = startOffset info + n + 2\<rparr>"
    using assms by (auto simp: parseTaskItem_def Let_def dest!: sym [of "Some _"] split: option.splits if_splits)
  note slice = getLineInfo_slice [OF info(1)]
  note box = taskLine_checkbox [OF info(2)]
  let ?p = "startOffset info + n"
  have "?p + 2 < length s" "s ! ?p = 91" "isCheck (s ! Suc ?p)" "s ! (?p + 2) = 93"
    using box slice_nth [of n s "startOffset info" "endOffset info"] slice_nth [of "Suc n" s "startOffset info" "endOffset info"]
      slice_nth [of "n + 2" s "startOffset info" "endOffset info"] by (auto simp: slice add.assoc)
  with info(3) show ?thesis by (intro exI [of _ ?p]) simp
qed

lemma targets_checkbox:
  assumes "p \<in> set (targets parse s checked)"
  shows "0 < p \<and> Suc p < length s \<and> s ! (p - 1) = 91 \<and> isCheck (s ! p) \<and> s ! Suc p = 93"
proof -
  obtain t node where "t \<in> set (parseTaskItem s node)" "p = range_start (checkboxMarker t)"
    using assms by (auto simp: targets_def parseTaskItems_def split: option.splits)
  with parseTaskItem_checkbox [OF this(1)] show ?thesis by auto
qed

lemma setAll_edits:
  "setAllTaskMarkers parse s checked =
    applyMarkdownEdits s (map (unit_edit (if checked then 120 else 32)) (targets parse s checked))"
proof -
  have "range_end (checkboxMarker t) = range_start (checkboxMarker t) + 1" if "t \<in> set (parseTaskItems parse s)" for t
    using that parseTaskItem_checkbox by (fastforce simp: parseTaskItems_def split: option.splits)
  then have "map (\<lambda>t. \<lparr>edit_start = range_start (checkboxMarker t), edit_end = range_end (checkboxMarker t), replacement = m\<rparr>)
      (filter (\<lambda>t. task_checked t \<noteq> checked) (parseTaskItems parse s)) =
    map (\<lambda>t. \<lparr>edit_start = range_start (checkboxMarker t), edit_end = range_start (checkboxMarker t) + 1, replacement = m\<rparr>)
      (filter (\<lambda>t. task_checked t \<noteq> checked) (parseTaskItems parse s))" for m
    by (intro map_cong) auto
  note edits = this [of "[if checked then 120 else 32]"]
  have m: "(if checked then [120] else [32]) = [if checked then 120 else 32 :: code_unit]" by simp
  show ?thesis unfolding setAllTaskMarkers_def Let_def m edits
    by (simp add: targets_def unit_edit_def [abs_def] comp_def)
qed

lemma bulk_check_rewrites_checkboxes_facts:
  shows "distinct (targets parse s checked) \<Longrightarrow> i < length s \<Longrightarrow>
      setAllTaskMarkers parse s checked ! i = (if i \<in> set (targets parse s checked) then (if checked then 120 else 32) else s ! i)"
    and "length (setAllTaskMarkers parse s checked) = length s"
    and "\<not> distinct (targets parse s checked) \<Longrightarrow> setAllTaskMarkers parse s checked = s"
    and "p \<in> set (targets parse s checked) \<Longrightarrow> s ! (p - 1) = 91 \<and> isCheck (s ! p) \<and> s ! Suc p = 93"
proof -
  let ?c = "if checked then 120 else 32"
  let ?ps = "targets parse s checked"
  have b: "p < length s" if "p \<in> set ?ps" for p using targets_checkbox [OF that] by simp
  have v: "edits_valid (length s) 0 (map (unit_edit ?c) (sort ?ps)) \<longleftrightarrow> distinct ?ps"
    using unit_edits_valid_iff [of "sort ?ps" "length s" 0 ?c] b by simp
  have r: "setAllTaskMarkers parse s checked = (if distinct ?ps then foldr apply_edit (map (unit_edit ?c) (sort ?ps)) s else s)"
    unfolding setAll_edits applyMarkdownEdits_def Let_def sort_unit_edits v by auto
  have b': "p < length s" if "p \<in> set (sort ?ps)" for p using b that by simp
  show "setAllTaskMarkers parse s checked ! i = (if i \<in> set ?ps then ?c else s ! i)" if "distinct ?ps" "i < length s"
    using that foldr_unit_edits(2) [of "sort ?ps" s i ?c] b' by (simp add: r)
  show "length (setAllTaskMarkers parse s checked) = length s" using foldr_unit_edits(1) [of "sort ?ps" s ?c] b' by (simp add: r)
  show "setAllTaskMarkers parse s checked = s" if "\<not> distinct ?ps" using that by (simp add: r)
  show "s ! (p - 1) = 91 \<and> isCheck (s ! p) \<and> s ! Suc p = 93" if "p \<in> set ?ps" using targets_checkbox [OF that] by simp
qed


definition one_task :: markdown_parser where
  "one_task s = Some [\<lparr>item_checked = Some False, item_startLine = Some 1\<rparr>]"


section \<open>Toggling a task\<close>

lemma bullet_not_white: "isBullet c \<Longrightarrow> \<not> isWhiteSpace c"
  by (auto simp: isBullet_def isWhiteSpace_def)

lemma takeWhile_stop: "list_all P w \<Longrightarrow> \<not> P c \<Longrightarrow> takeWhile P (w @ c # r) = w"
  by (induction w) auto

text \<open>A line that the pattern matches, taken apart.\<close>

definition task_shape :: "jsstr \<Rightarrow> jsstr \<Rightarrow> code_unit \<Rightarrow> jsstr \<Rightarrow> code_unit \<Rightarrow> jsstr \<Rightarrow> bool" where
  "task_shape s w c v x suf \<longleftrightarrow> s = w @ c # v @ 91 # x # 93 # suf \<and> list_all isWhiteSpace w \<and> isBullet c
     \<and> list_all isWhiteSpace v \<and> v \<noteq> [] \<and> isCheck x \<and> suf \<noteq> [] \<and> isWhiteSpace (hd suf)
     \<and> \<not> list_ex isLineTerminator (dropWhile isWhiteSpace suf)"

lemma taskPattern_shape: "task_shape s w c v x suf \<Longrightarrow> taskPattern s = Some (length w + 1 + length v)"
proof -
  assume a: "task_shape s w c v x suf"
  then have s: "s = w @ c # v @ 91 # x # 93 # suf" by (simp add: task_shape_def)
  have w: "takeWhile isWhiteSpace s = w"
    unfolding s by (rule takeWhile_stop) (use a bullet_not_white in \<open>auto simp: task_shape_def\<close>)
  have v: "takeWhile isWhiteSpace (v @ 91 # x # 93 # suf) = v"
    by (rule takeWhile_stop) (use a in \<open>auto simp: task_shape_def isWhiteSpace_def\<close>)
  have d: "drop (length w) s = c # v @ 91 # x # 93 # suf" "drop (length w + 1 + length v) s = 91 # x # 93 # suf"
    "drop (length w + 1 + length v + 3) s = suf" by (simp_all add: s eval_nat_numeral)
  show ?thesis using a unfolding taskPattern_def Let_def w d list.sel v
    by (simp add: task_shape_def checkboxAt_def)
qed

lemma taskPattern_Some:
  assumes "taskPattern s = Some n"
  obtains w c v x suf where "task_shape s w c v x suf" "n = length w + 1 + length v"
proof -
  define w where "w = takeWhile isWhiteSpace s"
  define r where "r = drop (length w) s"
  have r: "r \<noteq> []" "isBullet (hd r)" using assms by (auto simp: taskPattern_def Let_def w_def r_def split: if_splits)
  define v where "v = takeWhile isWhiteSpace (tl r)"
  define n' where "n' = length w + 1 + length v"
  have c: "0 < length v" "checkboxAt (drop n' s)" "drop (n' + 3) s \<noteq> []" "isWhiteSpace (hd (drop (n' + 3) s))"
    "\<not> list_ex isLineTerminator (dropWhile isWhiteSpace (drop (n' + 3) s))" "n = n'"
    using assms by (auto simp: taskPattern_def Let_def w_def r_def v_def n'_def split: if_splits)
  have "s = w @ r" using takeWhile_dropWhile_id [of isWhiteSpace s] by (simp add: w_def r_def dropWhile_eq_drop)
  moreover have "r = hd r # v @ drop n' s"
  proof -
    have "tl r = v @ drop (length v) (tl r)"
      using takeWhile_dropWhile_id [of isWhiteSpace "tl r"] by (simp add: v_def dropWhile_eq_drop)
    moreover have "drop (length v) (tl r) = drop n' s" by (simp add: n'_def r_def drop_Suc tl_drop drop_drop add.commute)
    ultimately show ?thesis using r(1) by (cases r) auto
  qed
  moreover have "drop n' s = 91 # (s ! Suc n') # 93 # drop (n' + 3) s" and "isCheck (s ! Suc n')"
  proof -
    have l: "n' + 2 < length s" "s ! n' = 91" "isCheck (s ! Suc n')" "s ! (n' + 2) = 93"
      using c(2) by (auto simp: checkboxAt_def)
    then show "isCheck (s ! Suc n')" by simp
    have "drop n' s = s ! n' # s ! Suc n' # s ! Suc (Suc n') # drop (Suc (Suc (Suc n'))) s"
      using l(1) by (simp add: Cons_nth_drop_Suc)
    with l show "drop n' s = 91 # (s ! Suc n') # 93 # drop (n' + 3) s" by (simp add: eval_nat_numeral)
  qed
  ultimately have "task_shape s w (hd r) v (s ! Suc n') (drop (n' + 3) s)"
    using r c unfolding task_shape_def
    by (auto simp: w_def v_def list_all_iff dest: set_takeWhileD)
  with c(6) that show thesis by (simp add: n'_def)
qed

text \<open>The line with its checkbox set.\<close>

definition set_check :: "bool \<Rightarrow> nat \<Rightarrow> jsstr \<Rightarrow> jsstr" where
  "set_check checked n line = take n line @ [91, if checked then 120 else 32, 93] @ drop (n + 3) line"

lemma set_check_shape:
  assumes "task_shape s w c v x suf"
  shows "set_check b (length w + 1 + length v) s = w @ c # v @ 91 # (if b then 120 else 32) # 93 # suf"
    and "task_shape (set_check b (length w + 1 + length v) s) w c v (if b then 120 else 32) suf"
proof -
  have s: "s = w @ c # v @ 91 # x # 93 # suf" using assms by (simp add: task_shape_def)
  have "take (length w + 1 + length v) s = w @ c # v" "drop (length w + 1 + length v + 3) s = suf"
    by (simp_all add: s eval_nat_numeral)
  then show e: "set_check b (length w + 1 + length v) s = w @ c # v @ 91 # (if b then 120 else 32) # 93 # suf"
    by (simp add: set_check_def)
  show "task_shape (set_check b (length w + 1 + length v) s) w c v (if b then 120 else 32) suf"
    unfolding e using assms by (auto simp: task_shape_def isCheck_def)
qed

lemma set_check_pattern:
  assumes "taskPattern s = Some n"
  shows "taskPattern (set_check b n s) = Some n" and "set_check b' n (set_check b n s) = set_check b' n s"
    and "length (set_check b n s) = length s" and "set (set_check b n s) \<subseteq> set s \<union> {120, 32}"
proof -
  obtain w c v x suf where sh: "task_shape s w c v x suf" "n = length w + 1 + length v"
    using assms by (rule taskPattern_Some)
  note one = set_check_shape [OF sh(1), of b, folded sh(2)]
  show "taskPattern (set_check b n s) = Some n" using taskPattern_shape [OF one(2)] sh(2) by simp
  show "set_check b' n (set_check b n s) = set_check b' n s"
    using set_check_shape(1) [OF one(2), of b', folded sh(2)] set_check_shape(1) [OF sh(1), of b', folded sh(2)] by simp
  have s: "s = w @ c # v @ 91 # x # 93 # suf" using sh(1) by (simp add: task_shape_def)
  show "length (set_check b n s) = length s" "set (set_check b n s) \<subseteq> set s \<union> {120, 32}"
    unfolding one(1) by (auto simp: s)
qed

lemma toggle_lines:
  "split_on 10 (toggleTaskAtLine s k b) =
    (case if k < length (split_on 10 s) then taskPattern (split_on 10 s ! k) else None of
       None \<Rightarrow> split_on 10 s
     | Some n \<Rightarrow> (split_on 10 s)[k := set_check b n (split_on 10 s ! k)])"
proof (cases "if k < length (split_on 10 s) then taskPattern (split_on 10 s ! k) else None")
  case None
  then show ?thesis by (auto simp: toggleTaskAtLine_def Let_def split: if_splits)
next
  case (Some n)
  let ?L = "split_on 10 s"
  have k: "k < length ?L" "taskPattern (?L ! k) = Some n" using Some by (auto split: if_splits)
  have "10 \<notin> set l" if "l \<in> set (?L[k := set_check b n (?L ! k)])" for l
  proof (cases "l = set_check b n (?L ! k)")
    case True
    have "10 \<notin> set (?L ! k)" using split_on_parts [OF nth_mem [OF k(1)]] by simp
    then show ?thesis using True set_check_pattern(4) [OF k(2), of b] by auto
  next
    case False
    then have "l \<in> set ?L" using that set_update_subset_insert [of ?L k] by auto
    then show ?thesis using split_on_parts [of l 10 s] by simp
  qed
  then have "split_on 10 (join [10] (?L[k := set_check b n (?L ! k)])) = ?L[k := set_check b n (?L ! k)]"
    by (intro split_join) auto
  then show ?thesis using k by (simp add: toggleTaskAtLine_def set_check_def Let_def)
qed

lemma toggle_task_line_facts:
  shows "split_on 10 (toggleTaskAtLine s k b) =
      (case if k < length (split_on 10 s) then taskPattern (split_on 10 s ! k) else None of
         None \<Rightarrow> split_on 10 s
       | Some n \<Rightarrow> (split_on 10 s)[k := take n (split_on 10 s ! k) @ [91, if b then 120 else 32, 93] @ drop (n + 3) (split_on 10 s ! k)])"
    and "toggleTaskAtLine (toggleTaskAtLine s k a) k b = toggleTaskAtLine s k b"
    and "length (toggleTaskAtLine s k b) = length s"
proof -
  let ?L = "split_on 10 s"
  show "split_on 10 (toggleTaskAtLine s k b) =
      (case if k < length ?L then taskPattern (?L ! k) else None of
         None \<Rightarrow> ?L
       | Some n \<Rightarrow> ?L[k := take n (?L ! k) @ [91, if b then 120 else 32, 93] @ drop (n + 3) (?L ! k)])"
    using toggle_lines [of s k b] by (simp add: set_check_def split: option.splits)
  have eqI: "x = y" if "split_on 10 x = split_on 10 y" for x y :: jsstr
    using that by (metis join_split)
  show "toggleTaskAtLine (toggleTaskAtLine s k a) k b = toggleTaskAtLine s k b"
  proof (rule eqI)
    show "split_on 10 (toggleTaskAtLine (toggleTaskAtLine s k a) k b) = split_on 10 (toggleTaskAtLine s k b)"
      using set_check_pattern(1) [of "?L ! k" _ a] set_check_pattern(2) [of "?L ! k" _ b a]
      by (auto simp: toggle_lines [of "toggleTaskAtLine s k a"] toggle_lines [of s] split: option.splits)
  qed
  show "length (toggleTaskAtLine s k b) = length s"
  proof (cases "if k < length ?L then taskPattern (?L ! k) else None")
    case None
    then show ?thesis by (auto simp: toggleTaskAtLine_def Let_def split: if_splits)
  next
    case (Some n)
    then have k: "k < length ?L" "taskPattern (?L ! k) = Some n" by (auto split: if_splits)
    have len: "length (join [10] ls) = sum_list (map length ls) + (length ls - 1)" for ls :: "jsstr list"
      by (induction "[10::nat]" ls rule: join.induct) auto
    have "map length (?L[k := set_check b n (?L ! k)]) = map length ?L"
      using set_check_pattern(3) [OF k(2), of b] k(1) by (simp add: map_update list_update_same_conv)
    then have "length (join [10] (?L[k := set_check b n (?L ! k)])) = length (join [10] ?L)" unfolding len by simp
    with k show ?thesis by (simp add: toggleTaskAtLine_def set_check_def Let_def join_split)
  qed
qed

text \<open>Toggling a task sets the checkbox of its line and nothing else: the other lines stay, and so does the line when it is
  no task; the last of several toggles counts, and setting the state a checkbox already shows changes nothing.\<close>

theorem toggle_task_line:
  "(split_on 10 (toggleTaskAtLine s k b) =
      (case if k < length (split_on 10 s) then taskPattern (split_on 10 s ! k) else None of
         None \<Rightarrow> split_on 10 s
       | Some n \<Rightarrow> (split_on 10 s)[k := take n (split_on 10 s ! k) @ [91, if b then 120 else 32, 93] @ drop (n + 3) (split_on 10 s ! k)]))
    \<and> (toggleTaskAtLine (toggleTaskAtLine s k a) k b = toggleTaskAtLine s k b)
    \<and> (length (toggleTaskAtLine s k b) = length s)"
  using toggle_task_line_facts by blast

section \<open>Unique anchors\<close>

lemma uniqueLoop_free: "uniqueLoop used base k \<notin> set used \<and> (\<exists>j \<ge> k. uniqueLoop used base k = slugAt base j)"
proof (induction used base k rule: uniqueLoop.induct)
  case (1 used base k)
  then show ?case by (subst (1 2) uniqueLoop.simps) (auto intro: Suc_leD)
qed

fun slugs :: "jsstr list \<Rightarrow> jsstr list \<Rightarrow> jsstr list" where
  "slugs used [] = []"
| "slugs used (b # bs) = (case nextSlug used b of (s, used') \<Rightarrow> s # slugs used' bs)"

lemma slugs_fresh:
  "distinct (slugs used bs) \<and> set (slugs used bs) \<inter> set used = {} \<and> length (slugs used bs) = length bs
   \<and> list_all2 (\<lambda>s b. \<exists>j. s = slugAt b j) (slugs used bs) bs"
proof (induction bs arbitrary: used)
  case (Cons b bs)
  let ?s = "uniqueLoop used b 0"
  show ?case using Cons.IH [of "set_add ?s used"] uniqueLoop_free [of used b 0] by (auto simp: nextSlug_def Let_def)
qed simp

lemma heading_anchors_unique_facts:
  shows "distinct (slugs (createUniqueSlugGenerator reserved) bs)"
    and "set (slugs (createUniqueSlugGenerator reserved) bs) \<inter> set reserved = {}"
    and "list_all2 (\<lambda>s b. s = b \<or> (\<exists>n > 0. s = b @ [45] @ dec n)) (slugs (createUniqueSlugGenerator reserved) bs) bs"
    and "b \<notin> set used \<Longrightarrow> fst (nextSlug used b) = b"
proof -
  note f = slugs_fresh [of "createUniqueSlugGenerator reserved" bs]
  show "distinct (slugs (createUniqueSlugGenerator reserved) bs)"
    "set (slugs (createUniqueSlugGenerator reserved) bs) \<inter> set reserved = {}"
    using f by (simp_all add: createUniqueSlugGenerator_def)
  show "list_all2 (\<lambda>s b. s = b \<or> (\<exists>n > 0. s = b @ [45] @ dec n)) (slugs (createUniqueSlugGenerator reserved) bs) bs"
    using f by (auto simp: slugAt_def elim!: list_all2_mono split: if_splits)
  show "fst (nextSlug used b) = b" if "b \<notin> set used"
    using that by (simp add: nextSlug_def Let_def uniqueLoop.simps slugAt_def)
qed

text \<open>The generator of heading anchors always returns, and the anchors of a document are all different, avoid the
  reserved ones and are the heading's slug, with a number appended only if needed.\<close>

theorem heading_anchors_unique:
  "(distinct (slugs (createUniqueSlugGenerator reserved) bs))
    \<and> (set (slugs (createUniqueSlugGenerator reserved) bs) \<inter> set reserved = {})
    \<and> (list_all2 (\<lambda>s b. s = b \<or> (\<exists>n > 0. s = b @ [45] @ dec n)) (slugs (createUniqueSlugGenerator reserved) bs) bs)
    \<and> (b \<notin> set used \<longrightarrow> fst (nextSlug used b) = b)"
  using heading_anchors_unique_facts by blast

lemma heading_anchors_unique_witness: "fst (nextSlug [js ''b''] (js ''a'')) = js ''a''"
  using heading_anchors_unique [THEN conjunct2, THEN conjunct2, THEN conjunct2, rule_format, of "js ''a''" "[js ''b'']"] by (simp add: js_inject)

text \<open>An ordered task is a checkbox for the parser and for the bulk actions, but toggling it does nothing.\<close>

lemma ordered_task_not_toggled:
  "taskLine (js ''1. [ ] a'') = Some 3" "toggleTaskAtLine (js ''1. [ ] a'') 0 True = js ''1. [ ] a''"
  by (simp_all add: taskLine_def listMarker_def charAt_def isBullet_def isDigit_def isWhiteSpace_def checkboxAt_def isCheck_def
      toggleTaskAtLine_def taskPattern_def js_def Let_def)

text \<open>Neither does toggling a task of a text with carriage returns.\<close>

lemma crlf_task_not_toggled: "toggleTaskAtLine (js ''- [ ] a'' @ [13, 10]) 0 True = js ''- [ ] a'' @ [13, 10]"
  by (simp add: isBullet_def isWhiteSpace_def checkboxAt_def isCheck_def isLineTerminator_def
      toggleTaskAtLine_def taskPattern_def js_def Let_def)

end
