(* ===== verification/Feed_Layout.thy ===== *)
theory Feed_Layout
  imports Proto_Types Memo_Filters "HOL-Library.Multiset"
begin

text \<open>
  The order of a feed (\<^verbatim>\<open>web/src/hooks/useMemoSorting.ts\<close>) and its packing into columns
  (\<^verbatim>\<open>web/src/components/ColumnGrid/ColumnGrid.tsx\<close>). Widths and heights are whole pixels, as the DOM reports them. The
  elements of the page are represented by their keys and measured heights; writing styles is left out.
\<close>

section \<open>Order\<close>

text \<open>\<open>dayjs(undefined)\<close> is the current time, in milliseconds here. \<open>ms\<close> is \<open>timestampDate\<close> of the protobuf library.\<close>

definition getMemoSortTime :: "Memo \<Rightarrow> MemoTimeBasis \<Rightarrow> timestamp option" where
  "getMemoSortTime memo timeBasis = (if timeBasis = update_time then memo_updateTime memo else memo_createTime memo)"

definition unix :: "(timestamp \<Rightarrow> int) \<Rightarrow> int \<Rightarrow> timestamp option \<Rightarrow> int" where
  "unix ms now t = (case t of None \<Rightarrow> now | Some x \<Rightarrow> ms x) div 1000"

definition memo_compare :: "bool \<Rightarrow> bool \<Rightarrow> MemoTimeBasis \<Rightarrow> (timestamp \<Rightarrow> int) \<Rightarrow> int \<Rightarrow> Memo \<Rightarrow> Memo \<Rightarrow> int" where
  "memo_compare pinnedFirst orderByTimeAsc timeBasis ms now a b =
     (if pinnedFirst \<and> memo_pinned a \<noteq> memo_pinned b then (if memo_pinned b then 1 else -1)
      else let aTime = unix ms now (getMemoSortTime a timeBasis); bTime = unix ms now (getMemoSortTime b timeBasis)
           in if orderByTimeAsc then aTime - bTime else bTime - aTime)"

text \<open>\<open>Array.prototype.sort\<close> is stable: an element goes before the elements that compare greater.\<close>

fun insert_by :: "('a \<Rightarrow> 'a \<Rightarrow> int) \<Rightarrow> 'a \<Rightarrow> 'a list \<Rightarrow> 'a list" where
  "insert_by cmp x [] = [x]"
| "insert_by cmp x (y # ys) = (if cmp x y \<le> 0 then x # y # ys else y # insert_by cmp x ys)"

definition sort_by :: "('a \<Rightarrow> 'a \<Rightarrow> int) \<Rightarrow> 'a list \<Rightarrow> 'a list" where
  "sort_by cmp xs = foldr (insert_by cmp) xs []"

definition listSort :: "bool \<Rightarrow> bool \<Rightarrow> MemoTimeBasis \<Rightarrow> State \<Rightarrow> (timestamp \<Rightarrow> int) \<Rightarrow> int \<Rightarrow> Memo list \<Rightarrow> Memo list" where
  "listSort pinnedFirst orderByTimeAsc timeBasis st ms now memos =
     sort_by (memo_compare pinnedFirst orderByTimeAsc timeBasis ms now) (filter (\<lambda>m. memo_state m = st) memos)"

definition basisName :: "MemoTimeBasis \<Rightarrow> jsstr" where
  "basisName b = (case b of create_time \<Rightarrow> js ''create_time'' | update_time \<Rightarrow> js ''update_time'')"

definition orderBy :: "bool \<Rightarrow> bool \<Rightarrow> MemoTimeBasis \<Rightarrow> jsstr" where
  "orderBy pinnedFirst orderByTimeAsc timeBasis =
     (let timeOrder = basisName timeBasis @ (if orderByTimeAsc then js '' asc'' else js '' desc'')
      in if pinnedFirst then js ''pinned desc, '' @ timeOrder else timeOrder)"

fun memoIndex :: "jsstr \<Rightarrow> Memo list \<Rightarrow> nat option" where
  "memoIndex n [] = None"
| "memoIndex n (m # ms) = (if memo_name m = n then Some 0 else map_option Suc (memoIndex n ms))"

definition hoistMemoToFront :: "Memo list \<Rightarrow> jsstr option \<Rightarrow> Memo list" where
  "hoistMemoToFront ms n =
     (if \<not> truthy n then ms
      else case memoIndex (the n) ms of
             None \<Rightarrow> ms
           | Some i \<Rightarrow> if i = 0 then ms else ms ! i # (take i ms @ drop (Suc i) ms))"

section \<open>Columns\<close>

definition GRID_MIN_COLUMN_WIDTH :: int where "GRID_MIN_COLUMN_WIDTH = 260"
definition GRID_GAP :: int where "GRID_GAP = 12"
definition LEADING_KEY :: jsstr where "LEADING_KEY = js ''__grid_leading__''"

definition columnCountForWidth :: "int \<Rightarrow> nat" where
  "columnCountForWidth width = max 1 (nat ((width + GRID_GAP) div (GRID_MIN_COLUMN_WIDTH + GRID_GAP)))"

fun shortestLoop :: "int list \<Rightarrow> nat \<Rightarrow> nat \<Rightarrow> int list \<Rightarrow> nat" where
  "shortestLoop heights index i [] = index"
| "shortestLoop heights index i (h # hs) = shortestLoop heights (if h < heights ! index then i else index) (Suc i) hs"

definition shortestColumn :: "int list \<Rightarrow> nat" where
  "shortestColumn heights = shortestLoop heights 0 1 (tl heights)"

text \<open>The entries of the map, in the order they are set, and the totals at the end.\<close>

fun assignLoop :: "(jsstr \<Rightarrow> int) \<Rightarrow> jsstr set \<Rightarrow> int list \<Rightarrow> jsstr list \<Rightarrow> (jsstr \<times> nat) list \<times> int list" where
  "assignLoop est pinned totals [] = ([], totals)"
| "assignLoop est pinned totals (key # keys) =
     (let column = (if key \<in> pinned then 0 else shortestColumn totals);
          totals' = totals[column := totals ! column + max 0 (est key)]
      in case assignLoop est pinned totals' keys of (cs, end') \<Rightarrow> ((key, column) # cs, end'))"

definition assignColumnsByEstimatedHeight :: "jsstr list \<Rightarrow> nat \<Rightarrow> (jsstr \<Rightarrow> int) \<Rightarrow> jsstr set \<Rightarrow> (jsstr \<times> nat) list" where
  "assignColumnsByEstimatedHeight keys columnCount getEstimatedHeight pinnedKeys =
     fst (assignLoop getEstimatedHeight pinnedKeys (replicate columnCount 0) keys)"

text \<open>\<open>columns.get(key) ?? 0\<close>: the value set last.\<close>

definition column_of :: "(jsstr \<times> nat) list \<Rightarrow> jsstr \<Rightarrow> nat" where
  "column_of columns key = (case map_of (rev columns) key of None \<Rightarrow> 0 | Some c \<Rightarrow> c)"

record grid_options =
  go_width :: int
  go_maxColumns :: "nat option"
  go_maxColumnWidth :: "int option"
  go_headerHeight :: "int option"
  go_rtl :: bool
  go_priorityKey :: "jsstr option"

definition grid_count :: "grid_options \<Rightarrow> nat" where
  "grid_count G =
     (let fit = columnCountForWidth (go_width G)
      in case go_maxColumns G of None \<Rightarrow> fit | Some m \<Rightarrow> if m > 0 then min fit m else fit)"

definition grid_columnWidth :: "grid_options \<Rightarrow> int" where
  "grid_columnWidth G =
     (let count = grid_count G;
          w = (if count > 1 then (go_width G - GRID_GAP * (int count - 1)) div int count else go_width G)
      in case go_maxColumnWidth G of None \<Rightarrow> w | Some m \<Rightarrow> min w m)"

definition grid_offsetX :: "grid_options \<Rightarrow> int" where
  "grid_offsetX G =
     (let packedWidth = grid_columnWidth G * int (grid_count G) + GRID_GAP * (int (grid_count G) - 1)
      in (go_width G - packedWidth) div 2)"

definition grid_x :: "grid_options \<Rightarrow> nat \<Rightarrow> int" where
  "grid_x G col =
     (let inlineOffset = grid_offsetX G + int col * (grid_columnWidth G + GRID_GAP)
      in if go_rtl G then go_width G - grid_columnWidth G - inlineOffset else inlineOffset)"

text \<open>The positions of the cards, in feed order, and where the columns end.\<close>

fun placeLoop :: "(nat \<Rightarrow> int) \<Rightarrow> (jsstr \<Rightarrow> nat) \<Rightarrow> (jsstr \<Rightarrow> int) \<Rightarrow> int list \<Rightarrow> jsstr list \<Rightarrow> (jsstr \<times> int \<times> int) list \<times> int list" where
  "placeLoop xOf colOf heightOf columnY [] = ([], columnY)"
| "placeLoop xOf colOf heightOf columnY (key # keys) =
     (let col = colOf key; y = columnY ! col
      in case placeLoop xOf colOf heightOf (columnY[col := y + heightOf key + GRID_GAP]) keys of
           (ps, end') \<Rightarrow> ((key, xOf col, y) # ps, end'))"

text \<open>\<open>estimate\<close> is \<open>None\<close> for the leading tile and when no estimator is given. \<open>keys\<close> are the keys of the mounted tiles.\<close>

definition relayout ::
  "grid_options \<Rightarrow> (jsstr \<Rightarrow> int) \<Rightarrow> (jsstr \<Rightarrow> int option) \<Rightarrow> jsstr list \<Rightarrow> (jsstr \<times> int \<times> int) list \<times> int" where
  "relayout G heightOf estimate keys =
     (let count = grid_count G;
          columnStartY = (case go_headerHeight G of None \<Rightarrow> 0 | Some h \<Rightarrow> h + GRID_GAP);
          pinnedKeys = (if truthy (go_priorityKey G) then {LEADING_KEY, the (go_priorityKey G)} else {LEADING_KEY});
          columns = assignColumnsByEstimatedHeight keys count
                      (\<lambda>key. case estimate key of None \<Rightarrow> heightOf key | Some e \<Rightarrow> e) pinnedKeys
      in case placeLoop (grid_x G) (column_of columns) heightOf (replicate count columnStartY) keys of
           (pos, columnY) \<Rightarrow> (pos, Max (insert 0 (set (map (\<lambda>h. h - GRID_GAP) columnY)))))"

section \<open>Sorting\<close>

lemma insert_by_insort:
  assumes "\<And>x y. cmp x y \<le> 0 \<longleftrightarrow> key x \<le> (key y :: 'k :: linorder)"
  shows "insert_by cmp x xs = insort_key key x xs"
  by (induction xs) (simp_all add: assms)

lemma sort_by_key:
  assumes "\<And>x y. cmp x y \<le> 0 \<longleftrightarrow> key x \<le> (key y :: 'k :: linorder)"
  shows "sort_by cmp xs = sort_key key xs"
  unfolding sort_by_def by (induction xs) (simp_all add: insert_by_insort [of cmp key, OF assms])

definition feed_key :: "bool \<Rightarrow> bool \<Rightarrow> MemoTimeBasis \<Rightarrow> (timestamp \<Rightarrow> int) \<Rightarrow> int \<Rightarrow> Memo \<Rightarrow> int \<times> int" where
  "feed_key pinnedFirst orderByTimeAsc timeBasis ms now m =
     (if pinnedFirst \<and> \<not> memo_pinned m then 1 else 0,
      (if orderByTimeAsc then 1 else -1) * unix ms now (getMemoSortTime m timeBasis))"

lemma compare_key: "memo_compare p a t ms now x y \<le> 0 \<longleftrightarrow> feed_key p a t ms now x \<le> feed_key p a t ms now y"
  by (auto simp: memo_compare_def feed_key_def Let_def less_eq_prod_simp)

lemma listSort_key: "listSort p a t st ms now memos = sort_key (feed_key p a t ms now) (filter (\<lambda>m. memo_state m = st) memos)"
  unfolding listSort_def by (rule sort_by_key) (rule compare_key)

lemma memoIndex_Some: "memoIndex n ms = Some i \<Longrightarrow> i < length ms \<and> memo_name (ms ! i) = n"
  by (induction ms arbitrary: i) (auto split: if_splits)

lemma hoist_mset: "mset (hoistMemoToFront ms n) = mset ms"
proof (cases "truthy n \<and> memoIndex (the n) ms \<noteq> None \<and> memoIndex (the n) ms \<noteq> Some 0")
  case True
  then obtain i where i: "memoIndex (the n) ms = Some i" "i \<noteq> 0" by auto
  then have "i < length ms" using memoIndex_Some by blast
  then have "ms = take i ms @ ms ! i # drop (Suc i) ms" by (simp add: id_take_nth_drop)
  then have "mset ms = mset (take i ms) + add_mset (ms ! i) (mset (drop (Suc i) ms))" by (metis mset.simps(2) mset_append)
  with True i show ?thesis by (simp add: hoistMemoToFront_def)
next
  case False
  then show ?thesis by (auto simp: hoistMemoToFront_def split: option.splits)
qed

lemma shortestLoop_min:
  assumes "index < i" "i \<le> length heights" "hs = drop i heights" "\<And>j. j < i \<Longrightarrow> heights ! index \<le> heights ! j"
  shows "shortestLoop heights index i hs < length heights \<and> (\<forall>j < length heights. heights ! shortestLoop heights index i hs \<le> heights ! j)"
  using assms
proof (induction hs arbitrary: index i)
  case Nil
  then show ?case by auto
next
  case (Cons h hs)
  have i: "i < length heights" using Cons.prems(3) by (cases "i < length heights") auto
  then have h: "h = heights ! i" "hs = drop (Suc i) heights" using Cons.prems(3) by (simp_all add: Cons_nth_drop_Suc [symmetric])
  have m: "heights ! (if h < heights ! index then i else index) \<le> heights ! j" if "j < Suc i" for j
    using that Cons.prems(4) [of j] h(1) by (cases "j = i") (auto intro: order_trans less_imp_le)
  show ?case
    unfolding shortestLoop.simps by (rule Cons.IH) (use Cons.prems(1) i h m in auto)
qed

lemma shortestColumn_min:
  assumes "heights \<noteq> []"
  shows "shortestColumn heights < length heights" "j < length heights \<Longrightarrow> heights ! shortestColumn heights \<le> heights ! j"
proof -
  have "tl heights = drop 1 heights" by (simp add: drop_Suc)
  moreover have "1 \<le> length heights" using assms by (cases heights) auto
  ultimately have "shortestColumn heights < length heights \<and> (\<forall>j < length heights. heights ! shortestColumn heights \<le> heights ! j)"
    unfolding shortestColumn_def by (intro shortestLoop_min) auto
  then show "shortestColumn heights < length heights" "j < length heights \<Longrightarrow> heights ! shortestColumn heights \<le> heights ! j" by auto
qed

lemma assignLoop_columns:
  assumes "totals \<noteq> []" "assignLoop est pinned totals keys = (cs, ends)"
  shows "length ends = length totals \<and> map fst cs = keys \<and> (\<forall>c \<in> snd ` set cs. c < length totals)
    \<and> (\<forall>k c. (k, c) \<in> set cs \<longrightarrow> k \<in> pinned \<longrightarrow> c = 0)"
  using assms
proof (induction keys arbitrary: totals cs)
  case (Cons k ks)
  define col where "col = (if k \<in> pinned then 0 else shortestColumn totals)"
  define totals' where "totals' = totals[col := totals ! col + max 0 (est k)]"
  obtain cs' where cs': "assignLoop est pinned totals' ks = (cs', ends)" "cs = (k, col) # cs'"
    using Cons.prems(2) by (auto simp: Let_def col_def totals'_def split: prod.splits)
  have "col < length totals" using Cons.prems(1) shortestColumn_min(1) by (auto simp: col_def)
  moreover have "totals' \<noteq> []" using Cons.prems(1) by (simp add: totals'_def)
  ultimately show ?case using Cons.IH [OF _ cs'(1)] cs'(2) by (auto simp: totals'_def col_def)
qed auto

text \<open>Without pinned tiles no column is ahead of another by more than one tile.\<close>

lemma assignLoop_balanced:
  assumes "totals \<noteq> []" "assignLoop est {} totals keys = (cs, ends)" "\<And>k. k \<in> set keys \<Longrightarrow> est k \<le> M" "0 \<le> M"
    and "\<And>i j. i < length totals \<Longrightarrow> j < length totals \<Longrightarrow> totals ! i \<le> totals ! j + M"
    and "i < length totals" "j < length totals"
  shows "ends ! i \<le> ends ! j + M"
  using assms(1,2,3,5,6,7)
proof (induction keys arbitrary: totals cs i j)
  case (Cons k ks)
  define col where "col = shortestColumn totals"
  define totals' where "totals' = totals[col := totals ! col + max 0 (est k)]"
  obtain cs' where cs': "assignLoop est {} totals' ks = (cs', ends)"
    using Cons.prems(2) by (auto simp: Let_def col_def totals'_def split: prod.splits)
  have col: "col < length totals" "\<And>j. j < length totals \<Longrightarrow> totals ! col \<le> totals ! j"
    using Cons.prems(1) shortestColumn_min by (auto simp: col_def)
  have k: "est k \<le> M" using Cons.prems(3) by simp
  have "totals' ! a \<le> totals' ! b + M" if ab: "a < length totals'" "b < length totals'" for a b
    using ab col(1) col(2) [of b] Cons.prems(4) [of a b] k assms(4) by (auto simp: totals'_def nth_list_update)
  then show ?case using Cons.IH [OF _ cs', of i j] Cons.prems by (simp add: totals'_def)
qed auto

section \<open>Cards do not overlap\<close>

abbreviation advance :: "(jsstr \<Rightarrow> nat) \<Rightarrow> (jsstr \<Rightarrow> int) \<Rightarrow> int list \<Rightarrow> jsstr \<Rightarrow> int list" where
  "advance colOf h Y k \<equiv> Y[colOf k := Y ! colOf k + h k + GRID_GAP]"

lemma placeLoop_Cons:
  "placeLoop xOf colOf h Y (k # ks) =
    ((k, xOf (colOf k), Y ! colOf k) # fst (placeLoop xOf colOf h (advance colOf h Y k) ks),
     snd (placeLoop xOf colOf h (advance colOf h Y k) ks))"
  by (simp add: Let_def case_prod_beta)

declare placeLoop.simps(2) [simp del] placeLoop_Cons [simp]

lemma placeLoop_keys: "map fst (fst (placeLoop xOf colOf h Y keys)) = keys"
  by (induction keys arbitrary: Y) simp_all

lemma placeLoop_length: "length (snd (placeLoop xOf colOf h Y keys)) = length Y"
  by (induction keys arbitrary: Y) simp_all

lemma advance_mono: "0 \<le> h k \<Longrightarrow> colOf k < length Y \<Longrightarrow> c < length Y \<Longrightarrow> Y ! c \<le> advance colOf h Y k ! c"
  by (simp add: nth_list_update GRID_GAP_def)

lemma placeLoop_ends:
  assumes "\<And>k. k \<in> set keys \<Longrightarrow> colOf k < length Y \<and> 0 \<le> h k" "c < length Y"
  shows "Y ! c \<le> snd (placeLoop xOf colOf h Y keys) ! c"
  using assms
proof (induction keys arbitrary: Y)
  case (Cons k ks)
  then have "advance colOf h Y k ! c \<le> snd (placeLoop xOf colOf h (advance colOf h Y k) ks) ! c" by simp
  with Cons.prems advance_mono [of h k colOf Y c] show ?case by simp
qed simp

lemma placeLoop_bounds:
  assumes "\<And>k. k \<in> set keys \<Longrightarrow> colOf k < length Y \<and> 0 \<le> h k" "(k, x, y) \<in> set (fst (placeLoop xOf colOf h Y keys))"
  shows "k \<in> set keys \<and> x = xOf (colOf k) \<and> Y ! colOf k \<le> y \<and> y + h k + GRID_GAP \<le> snd (placeLoop xOf colOf h Y keys) ! colOf k"
  using assms
proof (induction keys arbitrary: Y)
  case (Cons q ks)
  have q: "colOf q < length Y" "0 \<le> h q" using Cons.prems(1) by auto
  have ok: "\<And>k. k \<in> set ks \<Longrightarrow> colOf k < length (advance colOf h Y q) \<and> 0 \<le> h k" using Cons.prems(1) by simp
  consider "k = q" "x = xOf (colOf q)" "y = Y ! colOf q" | "(k, x, y) \<in> set (fst (placeLoop xOf colOf h (advance colOf h Y q) ks))"
    using Cons.prems(2) by auto
  then show ?case
  proof cases
    case 1
    have "advance colOf h Y q ! colOf q \<le> snd (placeLoop xOf colOf h (advance colOf h Y q) ks) ! colOf q"
      by (rule placeLoop_ends) (use ok q in auto)
    with 1 q show ?thesis by simp
  next
    case 2
    note IH = Cons.IH [OF ok 2]
    have "Y ! colOf k \<le> advance colOf h Y q ! colOf k" using IH ok [of k] q by (intro advance_mono) auto
    with IH show ?thesis by auto
  qed
qed simp

text \<open>Two tiles, the first earlier in the feed: apart horizontally, or the second below the first.\<close>

definition apart :: "(jsstr \<Rightarrow> int) \<Rightarrow> int \<Rightarrow> jsstr \<times> int \<times> int \<Rightarrow> jsstr \<times> int \<times> int \<Rightarrow> bool" where
  "apart h w p q = (case (p, q) of ((k, x, y), (k', x', y')) \<Rightarrow>
     x + w + GRID_GAP \<le> x' \<or> x' + w + GRID_GAP \<le> x \<or> y + h k + GRID_GAP \<le> y')"

lemma placeLoop_apart:
  assumes "\<And>k. k \<in> set keys \<Longrightarrow> colOf k < length Y \<and> 0 \<le> h k"
    and "\<And>c d. c < d \<Longrightarrow> d < length Y \<Longrightarrow> xOf c + w + GRID_GAP \<le> xOf d \<or> xOf d + w + GRID_GAP \<le> xOf c"
  shows "sorted_wrt (apart h w) (fst (placeLoop xOf colOf h Y keys))"
  using assms
proof (induction keys arbitrary: Y)
  case (Cons q ks)
  let ?Y = "advance colOf h Y q"
  have ok: "\<And>k. k \<in> set ks \<Longrightarrow> colOf k < length ?Y \<and> 0 \<le> h k" using Cons.prems(1) by simp
  have "apart h w (q, xOf (colOf q), Y ! colOf q) p" if p: "p \<in> set (fst (placeLoop xOf colOf h ?Y ks))" for p
  proof -
    obtain k x y where kxy: "p = (k, x, y)" by (cases p) auto
    with p have "(k, x, y) \<in> set (fst (placeLoop xOf colOf h ?Y ks))" by simp
    from placeLoop_bounds [OF ok this] kxy have b: "k \<in> set ks" "x = xOf (colOf k)" "?Y ! colOf k \<le> y" "p = (k, x, y)" by auto
    have c: "colOf k < length Y" "colOf q < length Y" using b(1) ok Cons.prems(1) by auto
    show ?thesis
    proof (cases "colOf k = colOf q")
      case True
      then have "Y ! colOf q + h q + GRID_GAP \<le> y" using b(3) c by simp
      then show ?thesis by (simp add: apart_def b)
    next
      case False
      then show ?thesis using c Cons.prems(2) [of "colOf k" "colOf q"] Cons.prems(2) [of "colOf q" "colOf k"]
        by (auto simp: apart_def b(2,4) neq_iff)
    qed
  qed
  then show ?case using Cons.IH [of ?Y] ok Cons.prems(2) by simp
qed simp

lemma column_of_less:
  assumes "\<And>c. c \<in> snd ` set cs \<Longrightarrow> c < n" "0 < n"
  shows "column_of cs k < n"
  using assms map_of_SomeD [of "rev cs" k] by (fastforce simp: column_of_def split: option.splits)
lemma grid_count_pos: "0 < grid_count G"
  by (auto simp: grid_count_def columnCountForWidth_def Let_def split: option.splits)

lemma grid_fits:
  assumes "0 \<le> go_width G"
  shows "272 * int (grid_count G) \<le> go_width G + 12 \<or> grid_count G = 1"
proof -
  have "grid_count G \<le> columnCountForWidth (go_width G)"
    by (auto simp: grid_count_def Let_def split: option.splits)
  then have "grid_count G \<le> 1 \<or> int (grid_count G) \<le> (go_width G + 12) div 272"
    using assms by (auto simp: columnCountForWidth_def GRID_GAP_def GRID_MIN_COLUMN_WIDTH_def max_def split: if_splits)
  moreover have "272 * ((go_width G + 12) div 272) \<le> go_width G + 12"
    using mult_div_mod_eq [of 272 "go_width G + 12"] pos_mod_sign [of 272 "go_width G + 12"] by linarith
  ultimately show ?thesis using grid_count_pos [of G] by (auto simp: le_Suc_eq)
qed

lemma div_mult_le_int: "0 < n \<Longrightarrow> W div n * n \<le> (W :: int)"
  using div_mult_mod_eq [of W n] pos_mod_sign [of n W] by linarith

lemma grid_width_bounds:
  assumes "0 \<le> go_width G" "\<And>m. go_maxColumnWidth G = Some m \<Longrightarrow> 0 \<le> m"
  shows "0 \<le> grid_columnWidth G" "grid_columnWidth G * int (grid_count G) + 12 * (int (grid_count G) - 1) \<le> go_width G"
proof -
  let ?n = "int (grid_count G)"
  define w where "w = (if grid_count G > 1 then (go_width G - 12 * (?n - 1)) div ?n else go_width G)"
  have n: "0 < ?n" using grid_count_pos [of G] by simp
  have w0: "0 \<le> w"
    using assms(1) grid_fits [OF assms(1)] n by (auto simp: w_def pos_imp_zdiv_nonneg_iff)
  have wn: "w * ?n + 12 * (?n - 1) \<le> go_width G"
  proof (cases "grid_count G > 1")
    case True
    then have "w * ?n \<le> go_width G - 12 * (?n - 1)" unfolding w_def using div_mult_le_int [OF n] by auto
    then show ?thesis by linarith
  next
    case False
    then have "?n = 1" using grid_count_pos [of G] by simp
    then show ?thesis by (simp add: w_def)
  qed
  have cw: "grid_columnWidth G = (case go_maxColumnWidth G of None \<Rightarrow> w | Some m \<Rightarrow> min w m)"
    unfolding grid_columnWidth_def w_def GRID_GAP_def Let_def by (rule refl)
  then show "0 \<le> grid_columnWidth G" using w0 assms(2) by (auto split: option.splits)
  have "grid_columnWidth G \<le> w" using cw by (auto split: option.splits)
  then have "grid_columnWidth G * ?n \<le> w * ?n" using n by (simp add: mult_right_mono)
  with wn show "grid_columnWidth G * ?n + 12 * (?n - 1) \<le> go_width G" by linarith
qed

lemma grid_x_inside:
  assumes "0 \<le> go_width G" "\<And>m. go_maxColumnWidth G = Some m \<Longrightarrow> 0 \<le> m" "c < grid_count G"
  shows "0 \<le> grid_x G c \<and> grid_x G c + grid_columnWidth G \<le> go_width G"
proof -
  let ?n = "int (grid_count G)" and ?w = "grid_columnWidth G"
  note b = grid_width_bounds [OF assms(1,2)]
  define packed where "packed = ?w * ?n + 12 * (?n - 1)"
  have off: "0 \<le> grid_offsetX G" "grid_offsetX G + packed \<le> go_width G"
    using b(2) by (auto simp: grid_offsetX_def packed_def GRID_GAP_def Let_def)
  have "int c * (?w + 12) \<le> (?n - 1) * (?w + 12)" using assms(3) b(1) by (intro mult_right_mono) auto
  also have "\<dots> = packed - ?w" by (simp add: packed_def algebra_simps)
  finally have "int c * (?w + 12) + ?w \<le> packed" by simp
  moreover have "0 \<le> int c * (?w + 12)" using b(1) by simp
  ultimately have "0 \<le> grid_offsetX G + int c * (?w + 12)" "grid_offsetX G + int c * (?w + 12) + ?w \<le> go_width G"
    using off by linarith+
  then show ?thesis unfolding grid_x_def GRID_GAP_def Let_def by (cases "go_rtl G") (simp_all only: if_True if_False, linarith+)
qed

lemma grid_x_apart:
  assumes "0 \<le> grid_columnWidth G" "c < d"
  shows "grid_x G c + grid_columnWidth G + GRID_GAP \<le> grid_x G d \<or> grid_x G d + grid_columnWidth G + GRID_GAP \<le> grid_x G c"
proof -
  let ?s = "grid_columnWidth G + GRID_GAP"
  have "(int c + 1) * ?s \<le> int d * ?s" using assms by (intro mult_right_mono) (auto simp: GRID_GAP_def)
  then have "int c * ?s + ?s \<le> int d * ?s" by (simp add: algebra_simps)
  then show ?thesis by (auto simp: grid_x_def Let_def)
qed

lemma tiles_do_not_overlap_facts:
  assumes pos: "relayout G heightOf estimate keys = (pos, H)"
    and h: "\<And>k. k \<in> set keys \<Longrightarrow> 0 \<le> heightOf k"
    and w: "0 \<le> go_width G" "\<And>m. go_maxColumnWidth G = Some m \<Longrightarrow> 0 \<le> m"
  shows "map fst pos = keys" and "sorted_wrt (apart heightOf (grid_columnWidth G)) pos"
    and "(k, x, y) \<in> set pos \<Longrightarrow> 0 \<le> x \<and> x + grid_columnWidth G \<le> go_width G
      \<and> (case go_headerHeight G of None \<Rightarrow> 0 | Some hh \<Rightarrow> hh + GRID_GAP) \<le> y \<and> y + heightOf k \<le> H"
proof -
  let ?n = "grid_count G"
  define start where "start = (case go_headerHeight G of None \<Rightarrow> 0 | Some hh \<Rightarrow> hh + GRID_GAP)"
  define cols where "cols = assignColumnsByEstimatedHeight keys ?n
    (\<lambda>key. case estimate key of None \<Rightarrow> heightOf key | Some e \<Rightarrow> e)
    (if truthy (go_priorityKey G) then {LEADING_KEY, the (go_priorityKey G)} else {LEADING_KEY})"
  define L where "L = placeLoop (grid_x G) (column_of cols) heightOf (replicate ?n start) keys"
  have P: "pos = fst L" "H = Max (insert 0 (set (map (\<lambda>h. h - GRID_GAP) (snd L))))"
    using pos by (auto simp: relayout_def L_def cols_def start_def Let_def split: prod.splits)
  have "replicate ?n (0 :: int) \<noteq> []" using grid_count_pos [of G] by simp
  note A = assignLoop_columns [OF this prod.collapse [symmetric]]
  have "c < ?n" if "c \<in> snd ` set cols" for c
    using A that by (auto simp: cols_def assignColumnsByEstimatedHeight_def)
  then have ok: "column_of cols k < length (replicate ?n start) \<and> 0 \<le> heightOf k" if "k \<in> set keys" for k
    using h [OF that] column_of_less [of cols ?n k] grid_count_pos [of G] by simp
  show "map fst pos = keys" unfolding P L_def by (rule placeLoop_keys)
  show "sorted_wrt (apart heightOf (grid_columnWidth G)) pos"
    unfolding P L_def by (rule placeLoop_apart [OF ok]) (use grid_x_apart grid_width_bounds(1) [OF w] in auto)
  assume "(k, x, y) \<in> set pos"
  then have "(k, x, y) \<in> set (fst (placeLoop (grid_x G) (column_of cols) heightOf (replicate ?n start) keys))" by (simp add: P L_def)
  note B = placeLoop_bounds [OF ok this]
  then have c: "column_of cols k < ?n" using ok by fastforce
  have "snd L ! column_of cols k - GRID_GAP \<le> H"
    unfolding P(2) by (rule Max_ge) (use c placeLoop_length in \<open>auto simp: L_def\<close>)
  with B c grid_x_inside [OF w c] show "0 \<le> x \<and> x + grid_columnWidth G \<le> go_width G
      \<and> (case go_headerHeight G of None \<Rightarrow> 0 | Some hh \<Rightarrow> hh + GRID_GAP) \<le> y \<and> y + heightOf k \<le> H"
    by (auto simp: L_def start_def)
qed

text \<open>C34. Whatever the width, the options and the measured heights, every tile is placed inside the grid, and any two
  tiles are apart: in columns beside each other or, in one column, with the gap between them in feed order. The height of
  the container covers them all.\<close>

theorem tiles_do_not_overlap:
  assumes pos: "relayout G heightOf estimate keys = (pos, H)"
    and h: "\<And>k. k \<in> set keys \<Longrightarrow> 0 \<le> heightOf k"
    and w: "0 \<le> go_width G" "\<And>m. go_maxColumnWidth G = Some m \<Longrightarrow> 0 \<le> m"
  shows "(map fst pos = keys)
    \<and> (sorted_wrt (apart heightOf (grid_columnWidth G)) pos)
    \<and> ((k, x, y) \<in> set pos \<longrightarrow> 0 \<le> x \<and> x + grid_columnWidth G \<le> go_width G
      \<and> (case go_headerHeight G of None \<Rightarrow> 0 | Some hh \<Rightarrow> hh + GRID_GAP) \<le> y \<and> y + heightOf k \<le> H)"
proof (intro conjI)
  note facts = tiles_do_not_overlap_facts [OF pos h w]
  show "map fst pos = keys" "sorted_wrt (apart heightOf (grid_columnWidth G)) pos" by (rule facts(1,2); assumption)+
  show "(k, x, y) \<in> set pos \<longrightarrow> 0 \<le> x \<and> x + grid_columnWidth G \<le> go_width G
      \<and> (case go_headerHeight G of None \<Rightarrow> 0 | Some hh \<Rightarrow> hh + GRID_GAP) \<le> y \<and> y + heightOf k \<le> H"
    by (intro impI; rule facts(3); assumption)
qed

definition wide_grid :: grid_options where
  "wide_grid = \<lparr>go_width = 800, go_maxColumns = None, go_maxColumnWidth = None, go_headerHeight = None, go_rtl = False, go_priorityKey = None\<rparr>"

lemma tiles_do_not_overlap_witness:
  "sorted_wrt (apart (\<lambda>k. 100) (grid_columnWidth wide_grid))
     (fst (relayout wide_grid (\<lambda>k. 100) (\<lambda>k. None) [js ''a'', js ''b'', js ''c'']))"
  by (rule tiles_do_not_overlap [THEN conjunct2, THEN conjunct1, rule_format, OF prod.collapse [symmetric]]) (auto simp: wide_grid_def)

end
