(* ===== verification/Managed_Attachments.thy ===== *)
theory Managed_Attachments
  imports Attachments Web_Storage "HOL-Library.Sublist"
begin

text \<open>
  Images of a memo that refer to its own attachments (\<^verbatim>\<open>web/src/utils/managed-attachment.ts\<close>): the
  classification of image destinations, the cached index of a text, and the edits and lists derived from it. The URL
  parser of the browser and the Markdown parser are fields of \<open>managed_env\<close>; the two variables and the cache of the
  module are \<open>managed_state\<close>.
\<close>

section \<open>Data\<close>

record parsed_url =
  url_origin :: jsstr
  url_host :: jsstr
  url_pathname :: jsstr
  url_search :: jsstr
  url_hash :: jsstr

type_synonym offsets = "nat option \<times> nat option"

datatype md_node =
    Definition jsstr jsstr
  | Html jsstr
  | Image jsstr offsets
  | ImageReference jsstr offsets
  | OtherNode

text \<open>\<open>parseMarkdown\<close> yields the nodes in the order of the visit, or throws; \<open>parseURL\<close> is \<open>new URL(raw, base)\<close>.\<close>

record managed_env =
  page_origin :: jsstr
  parseURL :: "jsstr \<Rightarrow> jsstr option \<Rightarrow> parsed_url option"
  parseMarkdown :: "jsstr \<Rightarrow> md_node list option"
  normalizeIdentifier :: "jsstr \<Rightarrow> jsstr"

definition ATTACHMENT_NAME_PREFIX :: jsstr where "ATTACHMENT_NAME_PREFIX = js ''attachments/''"
definition MANAGED_ATTACHMENT_PATH_PREFIX :: jsstr where "MANAGED_ATTACHMENT_PATH_PREFIX = js ''/file/attachments/''"

definition UID_PATTERN :: "jsstr \<Rightarrow> bool" where
  "UID_PATTERN s \<longleftrightarrow> s \<noteq> [] \<and> length s \<le> 36 \<and> isAsciiAlnum (hd s) \<and> isAsciiAlnum (last s)
     \<and> list_all (\<lambda>c. isAsciiAlnum c \<or> c = 45) s"

record ManagedImageNode =
  node_uid :: jsstr
  node_start :: "nat option"
  node_end :: "nat option"

record ManagedImageIndex =
  index_nodes :: "ManagedImageNode list"
  index_uids :: "jsstr list"
  invalidReferences :: "jsstr list"

datatype ManagedImageURL = UNMANAGED | INVALID | Managed (managed_uid: jsstr)

record managed_state =
  instanceOrigin :: "jsstr option"
  instanceHost :: "jsstr option"
  indexCache :: "(jsstr \<times> ManagedImageIndex) list"

section \<open>Classification\<close>

definition extractAttachmentUIDFromName :: "jsstr \<Rightarrow> jsstr option" where
  "extractAttachmentUIDFromName name =
     (if \<not> startsWith name ATTACHMENT_NAME_PREFIX then None
      else let uid = drop (length ATTACHMENT_NAME_PREFIX) name in if UID_PATTERN uid then Some uid else None)"

definition setManagedAttachmentInstanceUrl :: "managed_env \<Rightarrow> jsstr option \<Rightarrow> managed_state \<Rightarrow> managed_state" where
  "setManagedAttachmentInstanceUrl E instanceUrl st =
     (let parsed = (if truthy (map_option trim instanceUrl) then parseURL E (trim (the instanceUrl)) None else None);
          nextOrigin = map_option url_origin parsed; nextHost = map_option url_host parsed
      in if nextOrigin = instanceOrigin st \<and> nextHost = instanceHost st then st
         else \<lparr>instanceOrigin = nextOrigin, instanceHost = nextHost, indexCache = []\<rparr>)"

definition hasScheme :: "jsstr \<Rightarrow> bool" where
  "hasScheme raw \<longleftrightarrow>
     (case raw of
        [] \<Rightarrow> False
      | c # r \<Rightarrow> isAsciiAlpha c \<and> charAt (dropWhile (\<lambda>c. isAsciiAlnum c \<or> c = 43 \<or> c = 46 \<or> c = 45) r) 0 = Some 58)"

definition classifyManagedAttachmentImageURL :: "managed_env \<Rightarrow> managed_state \<Rightarrow> jsstr \<Rightarrow> ManagedImageURL" where
  "classifyManagedAttachmentImageURL E st raw =
     (if \<not> startsWith raw (js ''/'') \<and> \<not> hasScheme raw then UNMANAGED
      else case parseURL E raw (Some (page_origin E)) of
        None \<Rightarrow> UNMANAGED
      | Some parsed \<Rightarrow>
          if \<not> startsWith (url_pathname parsed) MANAGED_ATTACHMENT_PATH_PREFIX then UNMANAGED
          else if startsWith raw (js ''//'')
          then (if \<not> truthy (instanceHost st) \<or> Some (url_host parsed) = instanceHost st then INVALID else UNMANAGED)
          else if hasScheme raw \<and> \<not> truthy (instanceOrigin st) then INVALID
          else if hasScheme raw \<and> Some (url_origin parsed) \<noteq> instanceOrigin st then UNMANAGED
          else if url_search parsed \<noteq> [] \<or> url_hash parsed \<noteq> [] \<or> strIncludes (url_pathname parsed) (js ''%'') then INVALID
          else let parts = split_on 47 (drop (length MANAGED_ATTACHMENT_PATH_PREFIX) (url_pathname parsed))
               in if (length parts \<noteq> 1 \<and> length parts \<noteq> 2) \<or> \<not> UID_PATTERN (hd parts) \<or> (length parts = 2 \<and> parts ! 1 = [])
                  then INVALID else Managed (hd parts))"

definition parseManagedAttachmentImageURL :: "managed_env \<Rightarrow> managed_state \<Rightarrow> jsstr \<Rightarrow> jsstr option" where
  "parseManagedAttachmentImageURL E st raw =
     (case classifyManagedAttachmentImageURL E st raw of Managed uid \<Rightarrow> Some uid | _ \<Rightarrow> None)"

section \<open>The index of a text\<close>

definition EMPTY_INDEX :: ManagedImageIndex where
  "EMPTY_INDEX = \<lparr>index_nodes = [], index_uids = [], invalidReferences = []\<rparr>"

definition INDEX_CACHE_LIMIT :: nat where "INDEX_CACHE_LIMIT = 128"

text \<open>The first definition of an identifier counts.\<close>

fun definitions :: "managed_env \<Rightarrow> (jsstr \<times> jsstr) list \<Rightarrow> md_node list \<Rightarrow> (jsstr \<times> jsstr) list" where
  "definitions E m [] = m"
| "definitions E m (Definition i u # ns) =
     definitions E (let identifier = normalizeIdentifier E i
                    in if map_of m identifier = None then AList.update identifier u m else m) ns"
| "definitions E m (_ # ns) = definitions E m ns"

definition destination :: "managed_env \<Rightarrow> (jsstr \<times> jsstr) list \<Rightarrow> md_node \<Rightarrow> jsstr option" where
  "destination E defs node =
     (case node of
        Image u _ \<Rightarrow> Some u
      | ImageReference i _ \<Rightarrow> map_of defs (normalizeIdentifier E i)
      | _ \<Rightarrow> None)"

definition node_offsets :: "md_node \<Rightarrow> offsets" where
  "node_offsets node = (case node of Image _ p \<Rightarrow> p | ImageReference _ p \<Rightarrow> p | _ \<Rightarrow> (None, None))"

text \<open>What one visited node adds: a managed image, or a reference the server refuses.\<close>

definition visitNode ::
  "managed_env \<Rightarrow> managed_state \<Rightarrow> (jsstr \<times> jsstr) list \<Rightarrow> md_node \<Rightarrow> ManagedImageNode list \<times> jsstr list" where
  "visitNode E st defs node =
     (case node of
        Html raw \<Rightarrow> ([], if strIncludes raw MANAGED_ATTACHMENT_PATH_PREFIX then [raw] else [])
      | _ \<Rightarrow>
          (if \<not> truthy (destination E defs node) then ([], [])
           else case classifyManagedAttachmentImageURL E st (the (destination E defs node)) of
                  INVALID \<Rightarrow> ([], [the (destination E defs node)])
                | UNMANAGED \<Rightarrow> ([], [])
                | Managed uid \<Rightarrow> ([\<lparr>node_uid = uid, node_start = fst (node_offsets node), node_end = snd (node_offsets node)\<rparr>], [])))"

definition buildManagedImageIndex :: "managed_env \<Rightarrow> managed_state \<Rightarrow> jsstr \<Rightarrow> ManagedImageIndex option" where
  "buildManagedImageIndex E st source =
     map_option (\<lambda>tree.
       let visited = map (visitNode E st (definitions E [] tree)) tree; nodes = concat (map fst visited)
       in \<lparr>index_nodes = nodes, index_uids = set_of (map node_uid nodes), invalidReferences = concat (map snd visited)\<rparr>)
     (parseMarkdown E source)"

text \<open>\<open>None\<close> when the parser throws; nothing is cached then. \<open>keys().next().value\<close> is the oldest key of the map.\<close>

definition managedImageIndex :: "managed_env \<Rightarrow> jsstr \<Rightarrow> managed_state \<Rightarrow> ManagedImageIndex option \<times> managed_state" where
  "managedImageIndex E source st =
     (if \<not> strIncludes source MANAGED_ATTACHMENT_PATH_PREFIX then (Some EMPTY_INDEX, st)
      else case map_of (indexCache st) source of
        Some cached \<Rightarrow> (Some cached, st)
      | None \<Rightarrow>
          (case buildManagedImageIndex E st source of
             None \<Rightarrow> (None, st)
           | Some index \<Rightarrow>
               (let cache = (if length (indexCache st) \<ge> INDEX_CACHE_LIMIT then tl (indexCache st) else indexCache st)
                in (Some index, st\<lparr>indexCache := AList.update source index cache\<rparr>))))"

definition extractManagedAttachmentUIDs :: "managed_env \<Rightarrow> jsstr \<Rightarrow> managed_state \<Rightarrow> jsstr list option \<times> managed_state" where
  "extractManagedAttachmentUIDs E source st =
     (case managedImageIndex E source st of (i, st') \<Rightarrow> (map_option index_uids i, st'))"

definition findInvalidManagedAttachmentReferences :: "managed_env \<Rightarrow> jsstr \<Rightarrow> managed_state \<Rightarrow> jsstr list option \<times> managed_state" where
  "findInvalidManagedAttachmentReferences E source st =
     (case managedImageIndex E source st of (i, st') \<Rightarrow> (map_option invalidReferences i, st'))"

section \<open>Writing references\<close>

definition escapeMarkdownAlt :: "jsstr \<Rightarrow> jsstr" where
  "escapeMarkdownAlt s = concat (map (\<lambda>c. if c = 93 then [92, 93] else [c])
     (concat (map (\<lambda>c. if c = 91 then [92, 91] else [c])
       (concat (map (\<lambda>c. if c = 92 then [92, 92] else [c]) s)))))"

text \<open>\<open>s.replace(/[\r\n]+/g, " ")\<close>: every run of line breaks becomes one space.\<close>

function space_runs :: "jsstr \<Rightarrow> jsstr" where
  "space_runs [] = []"
| "space_runs (c # s) =
     (if c = 13 \<or> c = 10 then 32 # space_runs (dropWhile (\<lambda>c. c = 13 \<or> c = 10) s) else c # space_runs s)"
  by pat_completeness auto
termination
  by (relation "measure length") (auto simp: le_imp_less_Suc length_dropWhile_le)

text \<open>\<open>s.lastIndexOf(c, pos)\<close> and \<open>s.indexOf(c, pos)\<close> of one code unit.\<close>

definition lastIndexOf :: "code_unit \<Rightarrow> jsstr \<Rightarrow> nat \<Rightarrow> nat option" where
  "lastIndexOf c s pos = (case filter (\<lambda>i. s ! i = c) [0..<min (Suc pos) (length s)] of [] \<Rightarrow> None | is \<Rightarrow> Some (last is))"

definition indexOfFrom :: "code_unit \<Rightarrow> jsstr \<Rightarrow> nat \<Rightarrow> nat option" where
  "indexOfFrom c s pos = List.find (\<lambda>i. s ! i = c) [pos..<length s]"

definition filenameStem :: "jsstr \<Rightarrow> jsstr" where
  "filenameStem filename =
     (let normalized = trim (space_runs filename)
      in case lastIndexOf 46 normalized (length normalized) of
           Some lastDot \<Rightarrow> if lastDot > 0 then take lastDot normalized else normalized
         | None \<Rightarrow> if normalized = [] then js ''image'' else normalized)"

text \<open>\<open>None\<close> is the thrown error.\<close>

definition buildManagedAttachmentMarkdown :: "Attachment \<Rightarrow> jsstr option" where
  "buildManagedAttachmentMarkdown attachment =
     map_option (\<lambda>uid. js ''!['' @ escapeMarkdownAlt (filenameStem (att_filename attachment)) @ js ''](''
                   @ MANAGED_ATTACHMENT_PATH_PREFIX @ uid @ js '')'')
       (extractAttachmentUIDFromName (att_name attachment))"

definition canInlineAttachment :: "Attachment \<Rightarrow> bool" where
  "canInlineAttachment attachment \<longleftrightarrow> isImage (att_type attachment) \<and> att_externalLink attachment = []"

section \<open>Removing references\<close>

text \<open>\<open>range.start - 1\<close> is \<open>-1\<close> for a reference at the front, which \<open>lastIndexOf\<close> treats as zero, like the subtraction on
  naturals.\<close>

definition removeRange :: "jsstr \<Rightarrow> nat \<times> nat \<Rightarrow> jsstr" where
  "removeRange result rng =
     (let lineStart = (case lastIndexOf 10 result (fst rng - 1) of None \<Rightarrow> 0 | Some i \<Rightarrow> Suc i);
          nextNewline = indexOfFrom 10 result (snd rng);
          lineEnd = (case nextNewline of None \<Rightarrow> length result | Some i \<Rightarrow> i);
          before = slice result lineStart (fst rng);
          after = slice result (snd rng) lineEnd;
          removeWholeLine = (trim before = [] \<and> trim after = []);
          start = (if removeWholeLine then lineStart else fst rng);
          end0 = (if removeWholeLine then (case nextNewline of Some i \<Rightarrow> i + 1 | None \<Rightarrow> lineEnd) else snd rng);
          end1 = (if removeWholeLine \<and> endsWith (take start result) [10, 10] \<and> startsWithAt result [10] end0 then end0 + 1 else end0)
      in take start result @ drop end1 result)"

definition removedRanges :: "ManagedImageIndex \<Rightarrow> jsstr set \<Rightarrow> (nat \<times> nat) list" where
  "removedRanges index uids =
     sort_key (\<lambda>r. - int (fst r))
       (concat (map (\<lambda>n. case (node_start n, node_end n) of
                           (Some a, Some b) \<Rightarrow> if node_uid n \<in> uids then [(a, b)] else []
                         | _ \<Rightarrow> []) (index_nodes index)))"

definition removeManagedAttachmentReferences :: "managed_env \<Rightarrow> jsstr \<Rightarrow> jsstr set \<Rightarrow> managed_state \<Rightarrow> jsstr option \<times> managed_state" where
  "removeManagedAttachmentReferences E source uids st =
     (case managedImageIndex E source st of
        (i, st') \<Rightarrow> (map_option (\<lambda>index. foldl removeRange source (removedRanges index uids)) i, st'))"

section \<open>Attachments and references\<close>

definition inlineAttachment :: "jsstr list \<Rightarrow> Attachment \<Rightarrow> bool" where
  "inlineAttachment referencedUIDs a \<longleftrightarrow>
     (case extractAttachmentUIDFromName (att_name a) of None \<Rightarrow> False | Some uid \<Rightarrow> uid \<in> set referencedUIDs)"

definition filterInlineManagedAttachments ::
  "managed_env \<Rightarrow> jsstr \<Rightarrow> Attachment list \<Rightarrow> managed_state \<Rightarrow> Attachment list option \<times> managed_state" where
  "filterInlineManagedAttachments E body attachments st =
     (case extractManagedAttachmentUIDs E body st of
        (uids, st') \<Rightarrow>
          (map_option (\<lambda>referencedUIDs.
             if referencedUIDs = [] then attachments
             else let inline = filter (inlineAttachment referencedUIDs) attachments;
                      inlineNames = set (map att_name inline);
                      inlineGroups = set (List.map_filter getAttachmentMotionGroupId inline)
                  in filter (\<lambda>a. att_name a \<notin> inlineNames
                       \<and> (case getAttachmentMotionGroupId a of None \<Rightarrow> [] | Some g \<Rightarrow> g) \<notin> inlineGroups) attachments) uids, st'))"

definition resolveManagedAttachmentImageSource ::
  "managed_env \<Rightarrow> att_env \<Rightarrow> managed_state \<Rightarrow> jsstr option \<Rightarrow> Attachment list \<Rightarrow> jsstr option" where
  "resolveManagedAttachmentImageSource E A st source attachments =
     (if \<not> truthy source then source
      else case parseManagedAttachmentImageURL E st (the source) of
        None \<Rightarrow> source
      | Some uid \<Rightarrow>
          if uid = [] then source
          else case List.find (\<lambda>c. extractAttachmentUIDFromName (att_name c) = Some uid) attachments of
                 Some a \<Rightarrow> Some (getAttachmentUrl A a)
               | None \<Rightarrow> source)"

section \<open>The cache is transparent\<close>

text \<open>A run of the module: the profile's URL is published, and texts are looked up.\<close>

inductive managed_run :: "managed_env \<Rightarrow> managed_state \<Rightarrow> bool" for E where
  loaded: "managed_run E \<lparr>instanceOrigin = None, instanceHost = None, indexCache = []\<rparr>"
| published: "managed_run E st \<Longrightarrow> managed_run E (setManagedAttachmentInstanceUrl E u st)"
| looked_up: "managed_run E st \<Longrightarrow> managed_run E (snd (managedImageIndex E s st))"

definition cache_ok :: "managed_env \<Rightarrow> managed_state \<Rightarrow> bool" where
  "cache_ok E st \<longleftrightarrow> length (indexCache st) \<le> INDEX_CACHE_LIMIT \<and> distinct (map fst (indexCache st))
     \<and> (\<forall>(s, i) \<in> set (indexCache st). buildManagedImageIndex E st s = Some i)"

lemma classify_cong [simp]:
  "classifyManagedAttachmentImageURL E (st\<lparr>indexCache := c\<rparr>) raw = classifyManagedAttachmentImageURL E st raw"
  by (cases st) (simp only: classifyManagedAttachmentImageURL_def managed_state.simps)

lemma visit_cong [simp]: "visitNode E (st\<lparr>indexCache := c\<rparr>) = visitNode E st"
  unfolding visitNode_def classify_cong by (rule refl)

lemma build_cong [simp]: "buildManagedImageIndex E (st\<lparr>indexCache := c\<rparr>) s = buildManagedImageIndex E st s"
  by (simp add: buildManagedImageIndex_def)

lemma update_new: "k \<notin> fst ` set m \<Longrightarrow> AList.update k v m = m @ [(k, v)]"
  by (induction m) auto

lemma looked_up_ok [inv_intros]:
  assumes "cache_ok E st"
  shows "cache_ok E (snd (managedImageIndex E s st))"
proof (cases "strIncludes s MANAGED_ATTACHMENT_PATH_PREFIX \<and> map_of (indexCache st) s = None")
  case True
  define c where "c = (if length (indexCache st) \<ge> INDEX_CACHE_LIMIT then tl (indexCache st) else indexCache st)"
  have c: "length c < INDEX_CACHE_LIMIT" "set c \<subseteq> set (indexCache st)" "distinct (map fst c)"
    using assms unfolding c_def cache_ok_def
    by (cases "indexCache st"; auto simp: INDEX_CACHE_LIMIT_def)+
  then have new: "s \<notin> fst ` set c" using True by (auto simp: map_of_eq_None_iff)
  show ?thesis
  proof (cases "buildManagedImageIndex E st s")
    case None
    then show ?thesis using True assms by (simp add: managedImageIndex_def)
  next
    case (Some i)
    then have "snd (managedImageIndex E s st) = st\<lparr>indexCache := c @ [(s, i)]\<rparr>"
      using True update_new [OF new] by (simp add: managedImageIndex_def c_def [symmetric])
    then show ?thesis using c new Some assms by (auto simp: cache_ok_def)
  qed
next
  case False
  then show ?thesis using assms by (auto simp: managedImageIndex_def)
qed

lemma published_ok [inv_intros]: "cache_ok E st \<Longrightarrow> cache_ok E (setManagedAttachmentInstanceUrl E u st)"
  by (auto simp: setManagedAttachmentInstanceUrl_def cache_ok_def Let_def)

lemma run_cache_ok: "managed_run E st \<Longrightarrow> cache_ok E st"
proof (induction rule: managed_run.induct)
  case loaded
  show ?case by (simp add: cache_ok_def)
qed (rule inv_intros, assumption)+

lemma lookup_fresh:
  assumes "cache_ok E st"
  shows "fst (managedImageIndex E s st) =
    (if strIncludes s MANAGED_ATTACHMENT_PATH_PREFIX then buildManagedImageIndex E st s else Some EMPTY_INDEX)"
  using assms map_of_SomeD [of "indexCache st" s]
  by (fastforce simp: managedImageIndex_def cache_ok_def Let_def split: option.split)

lemma lookup_keeps_instance:
  "instanceOrigin (snd (managedImageIndex E s st)) = instanceOrigin st
   \<and> instanceHost (snd (managedImageIndex E s st)) = instanceHost st"
  by (auto simp: managedImageIndex_def Let_def split: option.split)

section \<open>Removing references loses only white space\<close>

abbreviation ink :: "jsstr \<Rightarrow> jsstr" where
  "ink s \<equiv> filter (\<lambda>c. \<not> isWhiteSpace c) s"

lemma trim_blank: "trim s = [] \<longleftrightarrow> ink s = []"
proof -
  have "trim s = [] \<longleftrightarrow> (\<forall>c \<in> set (dropWhile isWhiteSpace s). isWhiteSpace c)"
    by (auto simp: trim_def trimStart_def trimEnd_def dropWhile_eq_Nil_conv)
  also have "\<dots> \<longleftrightarrow> (\<forall>c \<in> set s. isWhiteSpace c)"
    by (induction s) auto
  finally show ?thesis by (simp add: filter_empty_conv)
qed

lemma lastIndexOf_Some: "lastIndexOf c s p = Some i \<Longrightarrow> i \<le> p \<and> i < length s \<and> s ! i = c"
proof -
  assume "lastIndexOf c s p = Some i"
  then have "i \<in> set (filter (\<lambda>i. s ! i = c) [0..<min (Suc p) (length s)])"
    unfolding lastIndexOf_def by (cases "filter (\<lambda>i. s ! i = c) [0..<min (Suc p) (length s)]") (use last_in_set in \<open>force simp del: upt_Suc\<close>)+
  then show ?thesis by auto
qed

lemma indexOfFrom_Some: "indexOfFrom c s p = Some i \<Longrightarrow> p \<le> i \<and> i < length s \<and> s ! i = c"
  by (auto simp: indexOfFrom_def find_Some_iff)

lemma ink_split: "a \<le> b \<Longrightarrow> ink (slice s a b) = [] \<Longrightarrow> ink (take b s) = ink (take a s) \<and> ink (drop a s) = ink (drop b s)"
proof -
  assume ab: "a \<le> b" and e: "ink (slice s a b) = []"
  have "take b s = take a s @ slice s a b" using ab by (metis le_add_diff_inverse slice_def take_add)
  moreover have "drop a s = slice s a b @ drop b s"
    using ab by (metis append_take_drop_id drop_drop le_add_diff_inverse2 slice_def)
  ultimately show ?thesis using e by simp
qed

definition range_ok :: "jsstr \<Rightarrow> nat \<times> nat \<Rightarrow> bool" where
  "range_ok s r \<longleftrightarrow> fst r < snd r \<and> snd r \<le> length s \<and> \<not> isWhiteSpace (s ! fst r) \<and> \<not> isWhiteSpace (s ! (snd r - 1))"

lemma slice_Suc: "a \<le> b \<Longrightarrow> b < length s \<Longrightarrow> slice s a (Suc b) = slice s a b @ [s ! b]"
  by (simp add: slice_def Suc_diff_le take_Suc_conv_app_nth)

lemma newline_blank [simp]: "isWhiteSpace 10"
  by (simp add: isWhiteSpace_def)

lemma removeRange_shape:
  assumes "range_ok s (a, b)"
  obtains st en where "removeRange s (a, b) = take st s @ drop en s" "st \<le> a" "b \<le> en" "en \<le> length s"
    "ink (slice s st a) = []" "ink (slice s b en) = []"
proof -
  define ls where "ls = (case lastIndexOf 10 s (a - 1) of None \<Rightarrow> 0 | Some i \<Rightarrow> Suc i)"
  define le where "le = (case indexOfFrom 10 s b of None \<Rightarrow> length s | Some i \<Rightarrow> i)"
  define e0 where "e0 = (case indexOfFrom 10 s b of Some i \<Rightarrow> i + 1 | None \<Rightarrow> le)"
  define e1 where "e1 = (if endsWith (take ls s) [10, 10] \<and> startsWithAt s [10] e0 then e0 + 1 else e0)"
  have ok: "a < b" "b \<le> length s" "\<not> isWhiteSpace (s ! a)" using assms by (auto simp: range_ok_def)
  have ls: "ls \<le> a"
  proof (cases "lastIndexOf 10 s (a - 1)")
    case (Some i)
    then have "i \<le> a - 1" "s ! i = 10" by (auto dest: lastIndexOf_Some)
    with ok(3) Some show ?thesis by (cases "a = 0") (auto simp: ls_def)
  qed (simp add: ls_def)
  have le: "b \<le> le" "le \<le> length s" using ok(2) by (auto simp: le_def dest: indexOfFrom_Some split: option.splits)
  have e0: "le \<le> e0" "e0 \<le> length s" "ink (slice s le e0) = []"
    using le by (auto simp: e0_def le_def slice_Suc dest: indexOfFrom_Some split: option.splits)
  have e1: "e0 \<le> e1" "e1 \<le> length s" "ink (slice s e0 e1) = []"
  proof -
    have "e0 < length s \<and> s ! e0 = 10" if "startsWithAt s [10] e0"
      using that by (cases "e0 < length s") (auto simp: startsWithAt_def startsWith_def take_Suc hd_drop_conv_nth split: if_splits)
    then show "e0 \<le> e1" "e1 \<le> length s" "ink (slice s e0 e1) = []" using e0 by (auto simp: e1_def slice_Suc)
  qed
  show ?thesis
  proof (cases "trim (slice s ls a) = [] \<and> trim (slice s b le) = []")
    case True
    have "slice s b e1 = (slice s b le @ slice s le e0) @ slice s e0 e1" using le e0 e1 by (simp add: slice_append)
    with True e0 e1 have "ink (slice s b e1) = []" by (simp add: trim_blank)
    moreover have "removeRange s (a, b) = take ls s @ drop e1 s"
      unfolding removeRange_def Let_def fst_conv snd_conv ls_def [symmetric] le_def [symmetric] e0_def [symmetric]
      using True by (simp add: e1_def)
    ultimately show ?thesis using that [of ls e1] ls le e0 e1 True by (simp add: trim_blank)
  next
    case False
    then have "(trim (slice s ls a) = [] \<and> trim (slice s b le) = []) = False" by blast
    then have "removeRange s (a, b) = take a s @ drop b s"
      unfolding removeRange_def Let_def fst_conv snd_conv ls_def [symmetric] le_def [symmetric] by (simp only: simp_thms if_False)
    then show ?thesis using that [of a b] ok by simp
  qed
qed

definition cutRange :: "jsstr \<Rightarrow> nat \<times> nat \<Rightarrow> jsstr" where
  "cutRange s r = take (fst r) s @ drop (snd r) s"

lemma removeRanges_ink:
  assumes "\<And>r. r \<in> set rs \<Longrightarrow> range_ok source r \<and> snd r \<le> m" "sorted_wrt (\<lambda>r r'. snd r' \<le> fst r) rs"
    and "take m t = take m source" "take m u = take m source" "m \<le> length t" "m \<le> length u" "m \<le> length source" "ink t = ink u"
  shows "ink (foldl removeRange t rs) = ink (foldl cutRange u rs)"
  using assms
proof (induction rs arbitrary: t u m)
  case (Cons r rs)
  obtain a b where r: "r = (a, b)" by (cases r)
  have ok: "range_ok source (a, b)" "b \<le> m" using Cons.prems(1) [of r] r by auto
  have at: "t ! i = source ! i" if "i < m" for i using that Cons.prems(3) by (metis nth_take)
  have "range_ok t (a, b)" using ok at Cons.prems(5) by (auto simp: range_ok_def)
  then obtain st en where e: "removeRange t (a, b) = take st t @ drop en t" "st \<le> a" "b \<le> en" "en \<le> length t"
    "ink (slice t st a) = []" "ink (slice t b en) = []" by (rule removeRange_shape)
  have "take b t = take b u" using Cons.prems(3,4) ok(2) by (metis min.absorb1 take_take)
  then have "ink (drop b t) = ink (drop b u)" "take a t = take a u"
    using Cons.prems(8) ok(1) by (metis append_take_drop_id filter_append same_append_eq,
      metis fst_conv less_imp_le_nat min.absorb1 range_ok_def snd_conv take_take)
  then have ink: "ink (take st t @ drop en t) = ink (cutRange u (a, b))"
    using ink_split [OF e(2,5)] ink_split [OF e(3,6)] by (simp add: cutRange_def)
  have "range_ok source r' \<and> snd r' \<le> st" if r': "r' \<in> set rs" for r'
  proof (rule ccontr)
    assume "\<not> (range_ok source r' \<and> snd r' \<le> st)"
    moreover have ok': "range_ok source r'" "snd r' \<le> a" using Cons.prems(1,2) r' r by auto
    ultimately obtain j where j: "snd r' = Suc j" "st \<le> j" "j < a" by (cases "snd r'") (auto simp: range_ok_def)
    then have "slice t st a ! (j - st) = t ! j" "j - st < length (slice t st a)"
      using ok Cons.prems(5) e(2,4) by (auto simp: slice_def range_ok_def)
    then have "t ! j \<in> set (slice t st a)" by (metis nth_mem)
    then have "isWhiteSpace (t ! j)" using e(5) by (auto simp: filter_empty_conv)
    with at [of j] j ok ok' show False by (auto simp: range_ok_def)
  qed
  moreover have "a < m" "st \<le> length t" using ok e Cons.prems(5) by (auto simp: range_ok_def)
  moreover have "take st t = take st source" "take st u = take st source"
    using Cons.prems(3,4) e(2) \<open>a < m\<close> by (metis le_trans less_imp_le_nat min.absorb1 take_take)+
  ultimately have "ink (foldl removeRange (take st t @ drop en t) rs) = ink (foldl cutRange (cutRange u (a, b)) rs)"
    using Cons.prems(2,6,7) r e(2) ink
    by (intro Cons.IH [of st]) (auto simp: cutRange_def min_def)
  then show ?case by (simp add: r e(1))
qed simp


text \<open>The references of a text as the parser reports them: inside the text, apart, and neither starting nor ending in white
  space (an image starts with an exclamation mark and ends with a bracket).\<close>

definition references_ok :: "managed_env \<Rightarrow> jsstr \<Rightarrow> jsstr set \<Rightarrow> managed_state \<Rightarrow> bool" where
  "references_ok E source uids st \<longleftrightarrow>
     (\<forall>index. fst (managedImageIndex E source st) = Some index \<longrightarrow>
        list_all (range_ok source) (removedRanges index uids)
        \<and> sorted_wrt (\<lambda>r r'. snd r' \<le> fst r) (removedRanges index uids))"


section \<open>References round trip\<close>

text \<open>A root-relative path of letters, digits, dashes and slashes is a path of the page's origin, spelled as it is.\<close>

definition url_parser_ok :: "managed_env \<Rightarrow> bool" where
  "url_parser_ok E \<longleftrightarrow>
     (\<forall>p. startsWith p (js ''/'') \<and> \<not> startsWith p (js ''//'') \<and> list_all (\<lambda>c. isAsciiAlnum c \<or> c = 45 \<or> c = 47) p \<longrightarrow>
        (\<exists>h. parseURL E p (Some (page_origin E)) =
           Some \<lparr>url_origin = page_origin E, url_host = h, url_pathname = p, url_search = [], url_hash = []\<rparr>))"

text \<open>The text of an image's label: a bracket or backslash after a backslash stands for itself, another opening bracket is not allowed, and the
  first closing bracket ends it.\<close>

fun readLabel :: "jsstr \<Rightarrow> (jsstr \<times> jsstr) option" where
  "readLabel [] = None"
| "readLabel (c # r) =
     (if c = 93 then Some ([], r) else if c = 91 then None
      else case r of
        [] \<Rightarrow> None
      | d # r' \<Rightarrow> if c = 92 \<and> (d = 91 \<or> d = 92 \<or> d = 93) then map_option (apfst ((#) d)) (readLabel r')
                  else map_option (apfst ((#) c)) (readLabel r))"

lemma escape_Cons: "escapeMarkdownAlt (c # s) = (if c = 91 \<or> c = 92 \<or> c = 93 then [92, c] else [c]) @ escapeMarkdownAlt s"
  by (simp add: escapeMarkdownAlt_def)

declare readLabel.simps(2) [simp del]

lemma readLabel_steps:
  "readLabel (93 # r) = Some ([], r)"
  "c = 91 \<or> c = 92 \<or> c = 93 \<Longrightarrow> readLabel (92 # c # r) = map_option (apfst ((#) c)) (readLabel r)"
  "c \<noteq> 91 \<Longrightarrow> c \<noteq> 92 \<Longrightarrow> c \<noteq> 93 \<Longrightarrow> readLabel (c # r) = map_option (apfst ((#) c)) (readLabel r)"
  by (auto simp: readLabel.simps split: list.split)

lemma readLabel_escape: "readLabel (escapeMarkdownAlt s @ 93 # r) = Some (s, r)"
proof (induction s)
  case Nil
  show ?case by (simp add: escapeMarkdownAlt_def readLabel_steps)
next
  case (Cons c s)
  then show ?case by (cases "c = 91 \<or> c = 92 \<or> c = 93") (auto simp: escape_Cons readLabel_steps)
qed

lemma managed_path:
  assumes "UID_PATTERN uid" "url_parser_ok E"
  shows "classifyManagedAttachmentImageURL E st (MANAGED_ATTACHMENT_PATH_PREFIX @ uid) = Managed uid"
proof -
  let ?p = "MANAGED_ATTACHMENT_PATH_PREFIX @ uid"
  have u: "list_all (\<lambda>c. isAsciiAlnum c \<or> c = 45) uid" using assms(1) by (simp add: UID_PATTERN_def)
  then have no: "47 \<notin> set uid" "37 \<notin> set uid" by (auto simp: list_all_iff isAsciiAlnum_def isDigit_def isAsciiAlpha_def)
  have p: "startsWith ?p (js ''/'')" "\<not> startsWith ?p (js ''//'')" "\<not> hasScheme ?p"
    by (simp_all add: startsWith_def hasScheme_def MANAGED_ATTACHMENT_PATH_PREFIX_def js_def isAsciiAlpha_def)
  moreover have "list_all (\<lambda>c. isAsciiAlnum c \<or> c = 45 \<or> c = 47) ?p"
    using u by (auto simp: list_all_iff MANAGED_ATTACHMENT_PATH_PREFIX_def js_def isAsciiAlnum_def isDigit_def isAsciiAlpha_def)
  ultimately obtain h where h: "parseURL E ?p (Some (page_origin E)) =
      Some \<lparr>url_origin = page_origin E, url_host = h, url_pathname = ?p, url_search = [], url_hash = []\<rparr>"
    using assms(2) unfolding url_parser_ok_def by blast
  have "\<not> strIncludes s (js ''%'')" if "37 \<notin> set s" for s
    using that by (induction s) (auto simp: strIncludes_def startsWith_def js_def)
  then have "\<not> strIncludes ?p (js ''%'')" using no by (simp add: MANAGED_ATTACHMENT_PATH_PREFIX_def js_def)
  then show ?thesis
    using p h assms(1) split_on_absent [OF no(1)] by (simp add: classifyManagedAttachmentImageURL_def startsWith_def)
qed

text \<open>The reference that is written for an attachment reads back: its label is the file's name whatever the name
  contains, its destination is classified as managed with the attachment's identifier, and it is resolved to the
  attachment's URL among the attachments of the memo.\<close>

theorem written_reference_resolves:
  assumes "url_parser_ok E" "buildManagedAttachmentMarkdown a = Some md" "a \<in> set attachments" "distinct (map att_name attachments)"
  shows "\<exists>uid label rest. md = js ''!['' @ label \<and> readLabel label = Some (filenameStem (att_filename a), rest)
    \<and> rest = js ''('' @ MANAGED_ATTACHMENT_PATH_PREFIX @ uid @ js '')''
    \<and> classifyManagedAttachmentImageURL E st (MANAGED_ATTACHMENT_PATH_PREFIX @ uid) = Managed uid
    \<and> resolveManagedAttachmentImageSource E A st (Some (MANAGED_ATTACHMENT_PATH_PREFIX @ uid)) attachments
        = Some (getAttachmentUrl A a)"
proof -
  obtain uid where uid: "extractAttachmentUIDFromName (att_name a) = Some uid"
    "md = js ''!['' @ escapeMarkdownAlt (filenameStem (att_filename a)) @ 93 # js ''('' @ MANAGED_ATTACHMENT_PATH_PREFIX @ uid @ js '')''"
    using assms(2) by (auto simp: buildManagedAttachmentMarkdown_def js_def)
  have ok: "UID_PATTERN uid" and name: "\<And>n. extractAttachmentUIDFromName n = Some uid \<Longrightarrow> n = ATTACHMENT_NAME_PREFIX @ uid"
    using uid(1) by (auto simp: extractAttachmentUIDFromName_def startsWith_def Let_def split: if_splits) (metis append_take_drop_id)
  have "List.find (\<lambda>c. extractAttachmentUIDFromName (att_name c) = Some uid) attachments = Some a"
    using assms(3,4) uid(1)
  proof (induction attachments)
    case (Cons c cs)
    then show ?case using name [of "att_name c"] name [of "att_name a"] by (auto simp: image_iff)
  qed simp
  then have "resolveManagedAttachmentImageSource E A st (Some (MANAGED_ATTACHMENT_PATH_PREFIX @ uid)) attachments = Some (getAttachmentUrl A a)"
    using managed_path [OF ok assms(1), of st] ok
    by (simp add: resolveManagedAttachmentImageSource_def parseManagedAttachmentImageURL_def UID_PATTERN_def
        MANAGED_ATTACHMENT_PATH_PREFIX_def js_def)
  with managed_path [OF ok assms(1), of st] uid(2) show ?thesis using readLabel_escape by blast
qed

text \<open>The cache of indexes cannot be noticed: in every run of the module, with lookups and changes of the instance
  URL in any order, a lookup gives what parsing the text afresh under the current instance URL gives, and the cache
  holds at most 128 texts.\<close>

theorem index_cache_transparent:
  assumes "managed_run E st"
  shows "fst (managedImageIndex E s st) =
      (if strIncludes s MANAGED_ATTACHMENT_PATH_PREFIX then buildManagedImageIndex E st s else Some EMPTY_INDEX)
    \<and> length (indexCache (snd (managedImageIndex E s st))) \<le> 128
    \<and> fst (managedImageIndex E s (setManagedAttachmentInstanceUrl E u (snd (managedImageIndex E s st)))) =
      (if strIncludes s MANAGED_ATTACHMENT_PATH_PREFIX
       then buildManagedImageIndex E (setManagedAttachmentInstanceUrl E u (snd (managedImageIndex E s st))) s else Some EMPTY_INDEX)"
proof -
  have "cache_ok E st" using assms by (rule run_cache_ok)
  note steps = this looked_up_ok [OF this] published_ok [OF looked_up_ok [OF this]]
  show ?thesis using steps by (simp add: lookup_fresh) (simp add: cache_ok_def INDEX_CACHE_LIMIT_def)
qed

text \<open>A page whose parser knows one kind of text: a single reference.\<close>

definition one_image :: jsstr where "one_image = js ''![a](/file/attachments/a)''"

definition demo_env :: managed_env where
  "demo_env = \<lparr>page_origin = js ''https://memos'',
     parseURL = (\<lambda>raw base. Some \<lparr>url_origin = the base, url_host = js ''memos'', url_pathname = raw, url_search = [], url_hash = []\<rparr>),
     parseMarkdown = (\<lambda>s. Some (if s = one_image then [Image (js ''/file/attachments/a'') (Some 0, Some 25)] else [])),
     normalizeIdentifier = id\<rparr>"

definition loaded_state :: managed_state where
  "loaded_state = \<lparr>instanceOrigin = None, instanceHost = None, indexCache = []\<rparr>"

lemma demo_url_ok: "url_parser_ok demo_env"
  by (simp add: url_parser_ok_def demo_env_def)

lemma demo_index:
  "fst (managedImageIndex demo_env one_image loaded_state) =
     Some \<lparr>index_nodes = [\<lparr>node_uid = js ''a'', node_start = Some 0, node_end = Some 25\<rparr>], index_uids = [js ''a''], invalidReferences = []\<rparr>"
proof -
  have "classifyManagedAttachmentImageURL demo_env st (js ''/file/attachments/a'') = Managed (js ''a'')" for st
    using managed_path [OF _ demo_url_ok, of "js ''a''" st]
    by (simp add: UID_PATTERN_def MANAGED_ATTACHMENT_PATH_PREFIX_def js_def isAsciiAlnum_def isAsciiAlpha_def)
  then show ?thesis
    by (simp add: managedImageIndex_def loaded_state_def buildManagedImageIndex_def demo_env_def visitNode_def destination_def
        node_offsets_def set_of_def set_add_def)
       (simp add: one_image_def strIncludes_def MANAGED_ATTACHMENT_PATH_PREFIX_def startsWith_def js_def)
qed


lemma written_reference_resolves_witness:
  "let a = empty_attachment\<lparr>att_name := js ''attachments/a'', att_filename := js ''a].png''\<rparr>
   in \<exists>uid. resolveManagedAttachmentImageSource demo_env \<lparr>origin = [], shareUrl = (\<lambda>_ _. None)\<rparr> loaded_state
        (Some (MANAGED_ATTACHMENT_PATH_PREFIX @ uid)) [a] = Some (js ''/file/attachments/a/a].png'')"
proof -
  let ?a = "empty_attachment\<lparr>att_name := js ''attachments/a'', att_filename := js ''a].png''\<rparr>"
  have "extractAttachmentUIDFromName (att_name ?a) = Some (js ''a'')"
    by (simp add: extractAttachmentUIDFromName_def ATTACHMENT_NAME_PREFIX_def startsWith_def UID_PATTERN_def js_def isAsciiAlnum_def isAsciiAlpha_def)
  then obtain md where "buildManagedAttachmentMarkdown ?a = Some md" by (simp add: buildManagedAttachmentMarkdown_def)
  from written_reference_resolves [OF demo_url_ok this, of "[?a]" loaded_state "\<lparr>origin = [], shareUrl = (\<lambda>_ _. None)\<rparr>"]
  show ?thesis by (auto simp: Let_def getAttachmentUrl_def empty_attachment_def js_def)
qed

lemma index_cache_transparent_witness:
  "fst (managedImageIndex demo_env one_image loaded_state) = buildManagedImageIndex demo_env loaded_state one_image"
  using index_cache_transparent [OF managed_run.loaded, of demo_env one_image]
  by (simp add: loaded_state_def [symmetric])
     (simp add: one_image_def strIncludes_def MANAGED_ATTACHMENT_PATH_PREFIX_def startsWith_def js_def)

end
