(* ===== verification/Calendar.thy ===== *)
theory Calendar
  imports Managed_Attachments Feed_Layout Space_Cache
begin

text \<open>
  The calendar: statistics per day (\<^verbatim>\<open>web/src/hooks/useFilteredMemoStats.ts\<close>, \<^verbatim>\<open>web/src/lib/tag.ts\<close>), the grid
  of a month (\<^verbatim>\<open>web/src/components/ActivityCalendar\<close>), the paths and the day summaries of the calendar page
  (\<^verbatim>\<open>web/src/components/CalendarView\<close>). Days are numbered; what \<open>dayjs\<close> tells about a day number is a field of
  \<open>day_env\<close>. An object used as a table is an association list in the order of its entries.
\<close>

section \<open>Tag settings and counts\<close>

text \<open>\<open>result[tag] = (result[tag] ?? 0) + count\<close>, over all entries of all sources.\<close>

definition add_count :: "(jsstr \<times> int) \<Rightarrow> (jsstr \<times> int) list \<Rightarrow> (jsstr \<times> int) list" where
  "add_count e result =
     AList.update (fst e) ((case map_of result (fst e) of None \<Rightarrow> 0 | Some n \<Rightarrow> n) + snd e) result"

definition mergeTagCounts :: "(jsstr \<times> int) list option list \<Rightarrow> (jsstr \<times> int) list" where
  "mergeTagCounts sources =
     foldl (\<lambda>result source. foldl (\<lambda>r e. add_count e r) result (case source of None \<Rightarrow> [] | Some es \<Rightarrow> es)) [] sources"

record TagMetadata =
  blurContent :: bool
  backgroundColor :: "jsstr option"

text \<open>\<open>compile\<close> is \<open>new RegExp(pattern)\<close>: the test of the pattern, or \<open>None\<close> for an invalid one. The cache holds the
  compiled patterns.\<close>

type_synonym regexp_compiler = "jsstr \<Rightarrow> (jsstr \<Rightarrow> bool) option"

definition anchored :: "jsstr \<Rightarrow> jsstr" where
  "anchored pattern = js ''^(?:'' @ pattern @ js '')$''"

definition getCompiledPattern ::
  "regexp_compiler \<Rightarrow> jsstr \<Rightarrow> (jsstr \<times> (jsstr \<Rightarrow> bool) option) list
   \<Rightarrow> (jsstr \<Rightarrow> bool) option \<times> (jsstr \<times> (jsstr \<Rightarrow> bool) option) list" where
  "getCompiledPattern compile pattern cache =
     (case map_of cache pattern of
        Some re \<Rightarrow> (re, cache)
      | None \<Rightarrow> (let re = compile (anchored pattern) in (re, AList.update pattern re cache)))"

fun patternLoop ::
  "regexp_compiler \<Rightarrow> jsstr \<Rightarrow> (jsstr \<times> TagMetadata) list \<Rightarrow> (jsstr \<times> (jsstr \<Rightarrow> bool) option) list
   \<Rightarrow> TagMetadata option \<times> (jsstr \<times> (jsstr \<Rightarrow> bool) option) list" where
  "patternLoop compile tag [] cache = (None, cache)"
| "patternLoop compile tag ((pattern, meta) # es) cache =
     (case getCompiledPattern compile pattern cache of
        (re, cache') \<Rightarrow>
          if (case re of None \<Rightarrow> False | Some test \<Rightarrow> test tag) then (Some meta, cache') else patternLoop compile tag es cache')"

definition findTagMetadata ::
  "regexp_compiler \<Rightarrow> jsstr \<Rightarrow> (jsstr \<times> TagMetadata) list \<Rightarrow> (jsstr \<times> (jsstr \<Rightarrow> bool) option) list
   \<Rightarrow> TagMetadata option \<times> (jsstr \<times> (jsstr \<Rightarrow> bool) option) list" where
  "findTagMetadata compile tag tags cache =
     (case map_of tags tag of
        Some m \<Rightarrow> (Some m, cache)
      | None \<Rightarrow> patternLoop compile tag tags cache)"

definition isQuantifier :: "code_unit \<Rightarrow> bool" where
  "isQuantifier c \<longleftrightarrow> c = 42 \<or> c = 43 \<or> c = 63 \<or> c = 123"

text \<open>\<open>/\((?:[^()]*[*+?{][^()]*)\)[*+?{]/\<close>: a quantified group whose body contains a quantifier.\<close>

definition nestedQuantifier :: "jsstr \<Rightarrow> bool" where
  "nestedQuantifier s \<longleftrightarrow>
     list_ex (\<lambda>i. s ! i = 40 \<and>
       (let body = takeWhile (\<lambda>c. c \<noteq> 40 \<and> c \<noteq> 41) (drop (Suc i) s); j = Suc i + length body
        in charAt s j = Some 41 \<and> list_ex isQuantifier body \<and> (case charAt s (Suc j) of None \<Rightarrow> False | Some c \<Rightarrow> isQuantifier c)))
     [0..<length s]"

definition isValidTagPattern :: "regexp_compiler \<Rightarrow> jsstr \<Rightarrow> bool" where
  "isValidTagPattern compile pattern \<longleftrightarrow> pattern \<noteq> [] \<and> compile pattern \<noteq> None \<and> \<not> nestedQuantifier pattern"

text \<open>\<open>some\<close> stops at the first tag that blurs.\<close>

fun isMemoBlurred ::
  "regexp_compiler \<Rightarrow> jsstr list \<Rightarrow> (jsstr \<times> TagMetadata) list option \<Rightarrow> (jsstr \<times> (jsstr \<Rightarrow> bool) option) list
   \<Rightarrow> bool \<times> (jsstr \<times> (jsstr \<Rightarrow> bool) option) list" where
  "isMemoBlurred compile names None cache = (False, cache)"
| "isMemoBlurred compile [] (Some tags) cache = (False, cache)"
| "isMemoBlurred compile (tag # rest) (Some tags) cache =
     (case findTagMetadata compile tag tags cache of
        (m, cache') \<Rightarrow>
          if (case m of None \<Rightarrow> False | Some md \<Rightarrow> blurContent md) then (True, cache')
          else isMemoBlurred compile rest (Some tags) cache')"

section \<open>Statistics\<close>

record UserStats =
  memoCreatedTimestamps :: "timestamp option list"
  memoUpdatedTimestamps :: "timestamp option list"
  tagCount :: "(jsstr \<times> int) list option"

datatype MemoStatsContext = home_context | explore_context | archived_context | profile_context

definition timestampsForBasis :: "UserStats \<Rightarrow> MemoTimeBasis \<Rightarrow> timestamp option list" where
  "timestampsForBasis stats basis =
     (let createdArray = memoCreatedTimestamps stats; updatedArray = memoUpdatedTimestamps stats;
          wantUpdated = (basis = update_time);
          oldServerFallback = (wantUpdated \<and> updatedArray = [] \<and> createdArray \<noteq> [])
      in if wantUpdated \<and> \<not> oldServerFallback then updatedArray else createdArray)"

definition exploreVisibilityFilter :: "bool \<Rightarrow> jsstr" where
  "exploreVisibilityFilter signedIn =
     (if signedIn then js ''visibility in [\"PUBLIC\", \"PROTECTED\", \"SPACE\"]'' else js ''visibility in [\"PUBLIC\"]'')"

text \<open>The state and the filter of the request for the grouped statistics.\<close>

definition allUserStatsRequest :: "MemoStatsContext option \<Rightarrow> bool \<Rightarrow> jsstr option \<Rightarrow> State option \<times> jsstr option" where
  "allUserStatsRequest ctxt signedIn f =
     (if ctxt = Some explore_context then (Some NORMAL, combineCELFilters [f, Some (exploreVisibilityFilter signedIn)])
      else if ctxt = Some archived_context then (Some ARCHIVED_STATE, f)
      else (None, None))"

definition shouldFetchAllUserStats :: "MemoStatsContext option \<Rightarrow> jsstr option \<Rightarrow> bool" where
  "shouldFetchAllUserStats ctxt currentUserName \<longleftrightarrow>
     ctxt = Some explore_context \<or> (ctxt = Some archived_context \<and> truthy currentUserName)"

text \<open>\<open>countBy\<close> of lodash and the local date of a time stamp are arguments.\<close>

definition displayDates :: "(timestamp \<Rightarrow> jsstr) \<Rightarrow> UserStats \<Rightarrow> MemoTimeBasis \<Rightarrow> jsstr list" where
  "displayDates toDateString stats basis = map toDateString (List.map_filter id (timestampsForBasis stats basis))"

definition memoStats ::
  "(jsstr list \<Rightarrow> (jsstr \<times> nat) list) \<Rightarrow> (timestamp \<Rightarrow> jsstr) \<Rightarrow> MemoStatsContext option \<Rightarrow> jsstr option \<Rightarrow> UserStats option
   \<Rightarrow> UserStats list \<Rightarrow> MemoTimeBasis \<Rightarrow> (jsstr \<times> nat) list \<times> (jsstr \<times> int) list" where
  "memoStats countBy toDateString ctxt userName userStats allUserStats basis =
     (if ctxt = Some explore_context \<or> ctxt = Some archived_context
      then (countBy (concat (map (\<lambda>stats. displayDates toDateString stats basis) allUserStats)),
            mergeTagCounts (map tagCount allUserStats))
      else case userStats of
        None \<Rightarrow> ([], mergeTagCounts [])
      | Some stats \<Rightarrow>
          if truthy userName
          then (if timestampsForBasis stats basis \<noteq> [] then countBy (displayDates toDateString stats basis) else [],
                mergeTagCounts [tagCount stats])
          else ([], mergeTagCounts []))"

section \<open>The grid of a month\<close>

definition calculateMaxCount :: "(jsstr \<times> int) list \<Rightarrow> int" where
  "calculateMaxCount data = Max (insert 1 (set (map snd data)))"

text \<open>The quotient is compared with quarters, which is exact for counts below \<open>2 ^ 50\<close>.\<close>

definition getActivityLevel :: "int \<Rightarrow> int \<Rightarrow> nat" where
  "getActivityLevel n maxCount =
     (if n \<le> 0 then 0
      else if 4 * n > 3 * maxCount then 4
      else if 2 * n > maxCount then 3
      else if 4 * n > maxCount then 2
      else 1)"

definition DAYS_IN_WEEK :: int where "DAYS_IN_WEEK = 7"

record CalendarDayCell =
  cell_date :: jsstr
  cell_label :: nat
  cell_count :: int
  isCurrentMonth :: bool
  isToday :: bool
  isSelected :: bool

record day_env =
  weekday :: "int \<Rightarrow> int"
  formatDate :: "int \<Rightarrow> jsstr"
  formatMonth :: "int \<Rightarrow> jsstr"
  dayOfMonth :: "int \<Rightarrow> nat"
  startOfMonth :: "jsstr \<Rightarrow> int"
  endOfMonth :: "jsstr \<Rightarrow> int"

definition rotateWeekdays :: "'a list \<Rightarrow> int \<Rightarrow> 'a list" where
  "rotateWeekdays labels weekStartDayOffset =
     (let off = nat (weekStartDayOffset mod DAYS_IN_WEEK) in drop off labels @ take off labels)"

text \<open>\<open>%\<close> keeps the sign of the dividend.\<close>

definition js_rem :: "int \<Rightarrow> int \<Rightarrow> int" where
  "js_rem a b = (if a < 0 then - ((- a) mod b) else a mod b)"

definition leadingDays :: "day_env \<Rightarrow> jsstr \<Rightarrow> int \<Rightarrow> int" where
  "leadingDays D month weekStartDayOffset =
     js_rem (weekday D (startOfMonth D month) - weekStartDayOffset + DAYS_IN_WEEK) DAYS_IN_WEEK"

definition trailingDays :: "day_env \<Rightarrow> jsstr \<Rightarrow> int \<Rightarrow> int" where
  "trailingDays D month weekStartDayOffset =
     js_rem (weekStartDayOffset + DAYS_IN_WEEK - 1 - weekday D (endOfMonth D month) + DAYS_IN_WEEK) DAYS_IN_WEEK"

definition buildMonthDays :: "day_env \<Rightarrow> jsstr \<Rightarrow> (jsstr \<times> int) list \<Rightarrow> int \<Rightarrow> jsstr \<Rightarrow> jsstr option \<Rightarrow> CalendarDayCell list" where
  "buildMonthDays D month data weekStartDayOffset today selectedDate =
     (let gridStart = startOfMonth D month - leadingDays D month weekStartDayOffset;
          gridEnd = endOfMonth D month + trailingDays D month weekStartDayOffset;
          dayCount = gridEnd - gridStart + 1
      in map (\<lambda>index.
           let current = gridStart + int index; date = formatDate D current
           in \<lparr>cell_date = date, cell_label = dayOfMonth D current,
               cell_count = (case map_of data date of None \<Rightarrow> 0 | Some n \<Rightarrow> n),
               isCurrentMonth = (formatMonth D current = formatMonth D (startOfMonth D month)),
               isToday = (date = today), isSelected = (Some date = selectedDate)\<rparr>) [0..<nat dayCount])"

section \<open>Paths of the calendar page\<close>

definition pad2 :: "nat \<Rightarrow> jsstr" where "pad2 n = padStart2 (dec n)"

definition buildMonthKey :: "nat \<Rightarrow> nat \<Rightarrow> jsstr" where
  "buildMonthKey year month = dec year @ js ''-'' @ pad2 month"

definition isNumeral :: "nat \<Rightarrow> nat \<Rightarrow> jsstr \<Rightarrow> bool" where
  "isNumeral lo hi s \<longleftrightarrow> lo \<le> length s \<and> length s \<le> hi \<and> list_all isDigit s"

definition parseCalendarParams :: "time_zone \<Rightarrow> jsstr option \<Rightarrow> jsstr option \<Rightarrow> jsstr option \<Rightarrow> (jsstr \<times> jsstr option) option" where
  "parseCalendarParams Z year month day =
     (case (year, month) of
        (Some y, Some m) \<Rightarrow>
          (if \<not> isNumeral 4 4 y \<or> \<not> isNumeral 1 2 m then None
           else if undec m < 1 \<or> undec m > 12 then None
           else let monthKey = buildMonthKey (undec y) (undec m)
                in case day of
                     None \<Rightarrow> Some (monthKey, None)
                   | Some d \<Rightarrow>
                       if \<not> isNumeral 1 2 d then None
                       else let date = monthKey @ js ''-'' @ pad2 (undec d)
                            in if parseLocalDate Z date \<noteq> None then Some (monthKey, Some date) else None)
      | _ \<Rightarrow> None)"

text \<open>\<open>month.replace("-", "/")\<close> replaces the first dash.\<close>

fun replaceDash :: "jsstr \<Rightarrow> jsstr" where
  "replaceDash [] = []"
| "replaceDash (c # s) = (if c = 45 then 47 # s else c # replaceDash s)"

definition buildCalendarPath :: "jsstr \<Rightarrow> jsstr option \<Rightarrow> jsstr" where
  "buildCalendarPath month date =
     (let base = CALENDAR @ js ''/'' @ replaceDash month
      in if truthy date then base @ js ''/'' @ drop (length (the date) - 2) (the date) else base)"

definition getMonthOfDate :: "jsstr \<Rightarrow> jsstr" where "getMonthOfDate date = take 7 date"

definition getDefaultDate :: "jsstr \<Rightarrow> jsstr \<Rightarrow> jsstr" where
  "getDefaultDate month today = (if getMonthOfDate today = month then today else month @ js ''-01'')"

text \<open>Every page of a month; the request is closed over by \<open>call\<close>.\<close>

definition listWholeMonth :: "(Memo, 'w) page_call \<Rightarrow> 'w \<Rightarrow> ((rpc_error + Memo list) \<times> 'w) option" where
  "listWholeMonth call w = drainPages call [] [] w"

definition monthFilter :: "time_zone \<Rightarrow> jsstr option \<Rightarrow> jsstr \<Rightarrow> MemoTimeBasis \<Rightarrow> jsstr option" where
  "monthFilter Z f month timeBasis = withTimestampRange f (getLocalMonthTimestampRange Z month) timeBasis"

section \<open>The summary of a day\<close>

datatype md_tree =
    TextNode jsstr
  | InlineCodeNode jsstr
  | CodeNode jsstr
  | BreakNode
  | Branch jsstr "md_tree list"
  | LeafNode

fun plainText :: "md_tree \<Rightarrow> jsstr" where
  "plainText (TextNode v) = v"
| "plainText (InlineCodeNode v) = v"
| "plainText (CodeNode v) = v"
| "plainText BreakNode = [10]"
| "plainText LeafNode = []"
| "plainText (Branch ty children) =
     join (if ty \<in> set [js ''list'', js ''listItem'', js ''blockquote'', js ''table'', js ''tableRow''] then [10] else [])
       (map plainText children)"

definition isCodeNode :: "md_tree \<Rightarrow> bool" where
  "isCodeNode node \<longleftrightarrow> (case node of CodeNode _ \<Rightarrow> True | _ \<Rightarrow> False)"

record CalendarDayExcerpt =
  ex_memoName :: jsstr
  ex_text :: jsstr
  ex_isCode :: bool

record CalendarDayImage =
  im_memoName :: jsstr
  im_thumbnailUrl :: jsstr

record CalendarDaySummary =
  day_memos :: "Memo list"
  day_excerpt :: "CalendarDayExcerpt option"
  day_images :: "CalendarDayImage list"

text \<open>The third-party parts of the page: the Markdown parser, the sources of the images of a rendered text, the sanitising
  of a URL, the absolute form of a URL, the comparison of names and the local date of a time.\<close>

record calendar_env =
  parseBlocks :: "jsstr \<Rightarrow> md_tree list"
  renderedImages :: "md_tree list \<Rightarrow> jsstr list"
  defaultUrlTransform :: "jsstr \<Rightarrow> jsstr"
  absoluteHref :: "jsstr \<Rightarrow> jsstr option"
  localeCompare :: "jsstr \<Rightarrow> jsstr \<Rightarrow> int"
  localDate :: "int \<Rightarrow> jsstr"
  toMillis :: "timestamp \<Rightarrow> int"
  managedEnv :: managed_env
  attEnv :: att_env

definition getExcerpt :: "Memo \<Rightarrow> md_tree list \<Rightarrow> CalendarDayExcerpt option" where
  "getExcerpt memo blocks =
     (let readable = filter (\<lambda>b. fst b \<noteq> []) (map (\<lambda>block. (trim (plainText block), isCodeNode block)) blocks);
          joined = trim (join [10] (map fst readable));
          text = (if joined \<noteq> [] then joined else if trim (memo_content memo) = [] then trim (memo_snippet memo) else [])
      in if text = [] then None
         else Some \<lparr>ex_memoName = memo_name memo,
                    ex_text = (if length text > 280 then trimEnd (take 280 text) @ [8230] else text),
                    ex_isCode = (case readable of [] \<Rightarrow> False | b # _ \<Rightarrow> snd b)\<rparr>)"

definition imageKey :: "calendar_env \<Rightarrow> jsstr \<Rightarrow> jsstr" where
  "imageKey C source = (case absoluteHref C source of Some h \<Rightarrow> h | None \<Rightarrow> source)"

text \<open>What one image of the rendered text adds to the candidates.\<close>

definition imageCandidate :: "calendar_env \<Rightarrow> managed_state \<Rightarrow> Attachment list \<Rightarrow> jsstr \<Rightarrow> jsstr list" where
  "imageCandidate C st atts src =
     (let source = defaultUrlTransform C src
      in if source = [] then []
         else case classifyManagedAttachmentImageURL (managedEnv C) st source of
           INVALID \<Rightarrow> []
         | Managed uid \<Rightarrow>
             (case List.find (\<lambda>a. extractAttachmentUIDFromName (att_name a) = Some uid) atts of
                None \<Rightarrow> []
              | Some a \<Rightarrow> [getAttachmentThumbnailUrl (attEnv C) a])
         | UNMANAGED \<Rightarrow>
             (case List.find (\<lambda>a. imageKey C (getAttachmentUrl (attEnv C) a) = imageKey C source) atts of
                None \<Rightarrow> [source]
              | Some a \<Rightarrow> [getAttachmentThumbnailUrl (attEnv C) a]))"

definition getImageCandidates :: "calendar_env \<Rightarrow> managed_state \<Rightarrow> Memo \<Rightarrow> md_tree list \<Rightarrow> jsstr list" where
  "getImageCandidates C st memo tree =
     (let atts = filter (\<lambda>a. isImage (att_type a)) (memo_attachments memo)
      in concat (map (imageCandidate C st atts) (renderedImages C tree))
         @ map (getAttachmentThumbnailUrl (attEnv C)) atts)"

record month_model =
  mm_days :: "(jsstr \<times> CalendarDaySummary) list"
  fileFallbacks :: "(jsstr \<times> CalendarDayExcerpt) list"

definition empty_day :: CalendarDaySummary where
  "empty_day = \<lparr>day_memos = [], day_excerpt = None, day_images = []\<rparr>"

definition fileExcerpt :: "Memo \<Rightarrow> CalendarDayExcerpt option" where
  "fileExcerpt memo =
     (case List.find (\<lambda>a. \<not> isImage (att_type a) \<and> getAttachmentMotionGroupId a = None) (memo_attachments memo) of
        None \<Rightarrow> None
      | Some file \<Rightarrow> if att_filename file \<noteq> []
          then Some \<lparr>ex_memoName = memo_name memo, ex_text = att_filename file, ex_isCode = False\<rparr> else None)"

text \<open>A memo that is shown, on the summary its own entry was pushed to.\<close>

definition addShown :: "calendar_env \<Rightarrow> managed_state \<Rightarrow> Memo \<Rightarrow> CalendarDaySummary \<Rightarrow> CalendarDaySummary" where
  "addShown C st memo summary =
     (if day_excerpt summary \<noteq> None \<and> length (day_images summary) \<ge> 2 then summary
      else let tree = parseBlocks C (memo_content memo);
               s1 = (if day_excerpt summary = None then summary\<lparr>day_excerpt := getExcerpt memo tree\<rparr> else summary)
           in if length (day_images summary) \<ge> 2 then s1
              else let usedImages = map (\<lambda>i. imageKey C (im_thumbnailUrl i)) (day_images summary)
                   in case List.find (\<lambda>source. imageKey C source \<notin> set usedImages) (getImageCandidates C st memo tree) of
                        None \<Rightarrow> s1
                      | Some thumbnailUrl \<Rightarrow>
                          if thumbnailUrl = [] then s1
                          else s1\<lparr>day_images := day_images s1 @ [\<lparr>im_memoName = memo_name memo, im_thumbnailUrl = thumbnailUrl\<rparr>]\<rparr>)"

definition addMemo :: "calendar_env \<Rightarrow> managed_state \<Rightarrow> (Memo \<Rightarrow> bool) \<Rightarrow> Memo \<times> int \<Rightarrow> month_model \<Rightarrow> month_model" where
  "addMemo C st isRedacted entry model =
     (case entry of (memo, time) \<Rightarrow>
        let date = localDate C time;
            s0 = (case map_of (mm_days model) date of None \<Rightarrow> empty_day | Some s \<Rightarrow> s);
            summary = s0\<lparr>day_memos := day_memos s0 @ [memo]\<rparr>
        in if isRedacted memo then model\<lparr>mm_days := AList.update date summary (mm_days model)\<rparr>
           else \<lparr>mm_days = AList.update date (addShown C st memo summary) (mm_days model),
                 fileFallbacks = (case map_of (fileFallbacks model) date of
                                    Some _ \<Rightarrow> fileFallbacks model
                                  | None \<Rightarrow> (case fileExcerpt memo of None \<Rightarrow> fileFallbacks model
                                             | Some e \<Rightarrow> AList.update date e (fileFallbacks model)))\<rparr>)"

definition entry_compare :: "calendar_env \<Rightarrow> Memo \<times> int \<Rightarrow> Memo \<times> int \<Rightarrow> int" where
  "entry_compare C a b =
     (if snd a - snd b \<noteq> 0 then snd a - snd b else localeCompare C (memo_name (fst a)) (memo_name (fst b)))"

definition dated :: "calendar_env \<Rightarrow> MemoTimeBasis \<Rightarrow> Memo list \<Rightarrow> (Memo \<times> int) list" where
  "dated C timeBasis ms =
     sort_by (entry_compare C)
       (List.map_filter (\<lambda>m. map_option (\<lambda>t. (m, toMillis C t)) (getMemoSortTime m timeBasis)) ms)"

definition buildCalendarMonthModel ::
  "calendar_env \<Rightarrow> managed_state \<Rightarrow> (Memo \<Rightarrow> bool) \<Rightarrow> MemoTimeBasis \<Rightarrow> Memo list \<Rightarrow> (jsstr \<times> CalendarDaySummary) list" where
  "buildCalendarMonthModel C st isRedacted timeBasis ms =
     (let model = fold (addMemo C st isRedacted) (dated C timeBasis ms) \<lparr>mm_days = [], fileFallbacks = []\<rparr>
      in map (\<lambda>(date, summary).
           (date, case day_excerpt summary of
                    Some _ \<Rightarrow> summary
                  | None \<Rightarrow> summary\<lparr>day_excerpt := map_of (fileFallbacks model) date\<rparr>)) (mm_days model))"

section \<open>Hidden memos show nothing\<close>

lemma mset_insert_by [simp]: "mset (insert_by cmp x xs) = add_mset x (mset xs)"
  by (induction xs) auto

lemma mset_sort_by [simp]: "mset (sort_by cmp xs) = mset xs"
  unfolding sort_by_def by (induction xs) auto

lemma set_sort_by [simp]: "set (sort_by cmp xs) = set xs"
  by (metis mset_sort_by set_mset_mset)

definition names_shown :: "(Memo \<Rightarrow> bool) \<Rightarrow> Memo list \<Rightarrow> jsstr list" where
  "names_shown isRedacted ms = map memo_name (filter (\<lambda>m. \<not> isRedacted m) ms)"

definition summary_ok :: "calendar_env \<Rightarrow> (Memo \<Rightarrow> bool) \<Rightarrow> CalendarDaySummary \<Rightarrow> bool" where
  "summary_ok C isRedacted s \<longleftrightarrow>
     (\<forall>e. day_excerpt s = Some e \<longrightarrow> ex_memoName e \<in> set (names_shown isRedacted (day_memos s)))
     \<and> subseq (map im_memoName (day_images s)) (names_shown isRedacted (day_memos s))
     \<and> length (day_images s) \<le> 2 \<and> distinct (map (\<lambda>i. imageKey C (im_thumbnailUrl i)) (day_images s))"

lemma push_ok: "summary_ok C hid s \<Longrightarrow> hid m \<Longrightarrow> summary_ok C hid (s\<lparr>day_memos := day_memos s @ [m]\<rparr>)"
  by (simp add: summary_ok_def names_shown_def)

lemma getExcerpt_name: "getExcerpt m tree = Some e \<Longrightarrow> ex_memoName e = memo_name m"
  by (auto simp: getExcerpt_def Let_def split: if_splits)

lemma addShown_memos [simp]: "day_memos (addShown C st m s) = day_memos s"
  by (auto simp: addShown_def Let_def split: option.split)

lemma addShown_excerpt:
  "day_excerpt (addShown C st m s) = Some e \<Longrightarrow> day_excerpt s = Some e \<or> ex_memoName e = memo_name m"
  by (auto simp: addShown_def Let_def getExcerpt_name split: option.splits if_splits)

lemma addShown_images:
  "day_images (addShown C st m s) = day_images s
   \<or> (\<exists>u. day_images (addShown C st m s) = day_images s @ [\<lparr>im_memoName = memo_name m, im_thumbnailUrl = u\<rparr>]
        \<and> imageKey C u \<notin> (\<lambda>i. imageKey C (im_thumbnailUrl i)) ` set (day_images s) \<and> length (day_images s) < 2)"
  by (auto simp: addShown_def Let_def find_Some_iff image_iff split: option.splits if_splits)

lemma addShown_ok:
  assumes "summary_ok C hid s" "\<not> hid m"
  shows "summary_ok C hid (addShown C st m (s\<lparr>day_memos := day_memos s @ [m]\<rparr>))"
proof -
  let ?s = "s\<lparr>day_memos := day_memos s @ [m]\<rparr>"
  have n: "names_shown hid (day_memos s @ [m]) = names_shown hid (day_memos s) @ [memo_name m]"
    using assms(2) by (simp add: names_shown_def)
  have "ex_memoName e \<in> set (names_shown hid (day_memos s @ [m]))" if "day_excerpt (addShown C st m ?s) = Some e" for e
    using addShown_excerpt [OF that] assms(1) n by (auto simp: summary_ok_def)
  then show ?thesis
    using assms(1) n addShown_images [of C st m ?s]
    by (auto simp: summary_ok_def intro: list_emb_append_mono subseq_append_iff [THEN iffD2] list_emb_append2)
qed

text \<open>The memos of a date among the entries processed so far.\<close>

definition days_of :: "calendar_env \<Rightarrow> jsstr \<Rightarrow> (Memo \<times> int) list \<Rightarrow> Memo list" where
  "days_of C d L = map fst (filter (\<lambda>e. localDate C (snd e) = d) L)"

definition model_ok :: "calendar_env \<Rightarrow> (Memo \<Rightarrow> bool) \<Rightarrow> (Memo \<times> int) list \<Rightarrow> month_model \<Rightarrow> bool" where
  "model_ok C hid L model \<longleftrightarrow>
     (\<forall>d. (case map_of (mm_days model) d of
             None \<Rightarrow> days_of C d L = []
           | Some s \<Rightarrow> day_memos s = days_of C d L \<and> days_of C d L \<noteq> [] \<and> summary_ok C hid s)
        \<and> (\<forall>e. map_of (fileFallbacks model) d = Some e \<longrightarrow> ex_memoName e \<in> set (names_shown hid (days_of C d L))))"

lemma days_of_snoc: "days_of C d (L @ [(m, t)]) = days_of C d L @ (if localDate C t = d then [m] else [])"
  by (simp add: days_of_def)

lemma fileExcerpt_name: "fileExcerpt m = Some e \<Longrightarrow> ex_memoName e = memo_name m"
  by (auto simp: fileExcerpt_def split: option.splits if_splits)

lemma names_shown_append: "names_shown hid (xs @ ys) = names_shown hid xs @ names_shown hid ys"
  by (simp add: names_shown_def)

lemma empty_day_ok: "summary_ok C hid empty_day" "day_memos empty_day = []"
  by (simp_all add: summary_ok_def empty_day_def)

lemma addMemo_ok:
  assumes ok: "model_ok C hid L model"
  shows "model_ok C hid (L @ [(m, t)]) (addMemo C st hid (m, t) model)"
proof -
  define date where "date = localDate C t"
  define s0 where "s0 = (case map_of (mm_days model) date of None \<Rightarrow> empty_day | Some s \<Rightarrow> s)"
  define s1 where "s1 = s0\<lparr>day_memos := day_memos s0 @ [m]\<rparr>"
  define s2 where "s2 = (if hid m then s1 else addShown C st m s1)"
  have s0: "summary_ok C hid s0" "day_memos s0 = days_of C date L"
    using ok unfolding model_ok_def s0_def by (auto simp: empty_day_ok split: option.splits dest: spec [of _ date])
  have s2: "summary_ok C hid s2" "day_memos s2 = days_of C date L @ [m]"
    using push_ok [OF s0(1)] addShown_ok [OF s0(1)] s0(2) by (auto simp: s2_def s1_def)
  have days: "mm_days (addMemo C st hid (m, t) model) = AList.update date s2 (mm_days model)"
    by (simp add: addMemo_def Let_def date_def s0_def s1_def s2_def)
  have fb: "map_of (fileFallbacks (addMemo C st hid (m, t) model)) d = Some e \<Longrightarrow>
      map_of (fileFallbacks model) d = Some e \<or> (d = date \<and> \<not> hid m \<and> ex_memoName e = memo_name m)" for d e
    by (auto simp: addMemo_def Let_def date_def update_conv' fileExcerpt_name split: if_splits option.splits)
  show ?thesis
    unfolding model_ok_def
  proof (intro allI conjI impI)
    fix d
    show "case map_of (mm_days (addMemo C st hid (m, t) model)) d of
        None \<Rightarrow> days_of C d (L @ [(m, t)]) = []
      | Some s \<Rightarrow> day_memos s = days_of C d (L @ [(m, t)]) \<and> days_of C d (L @ [(m, t)]) \<noteq> [] \<and> summary_ok C hid s"
      using ok [unfolded model_ok_def, THEN spec, of d] s2
      by (cases "d = date") (auto simp: days update_conv' days_of_snoc date_def [symmetric] split: option.splits)
    fix e
    assume "map_of (fileFallbacks (addMemo C st hid (m, t) model)) d = Some e"
    from fb [OF this] ok show "ex_memoName e \<in> set (names_shown hid (days_of C d (L @ [(m, t)])))"
      by (auto simp: days_of_snoc names_shown_append date_def [symmetric] model_ok_def) (auto simp: names_shown_def)
  qed
qed

lemma fold_addMemo_ok:
  "model_ok C hid L model \<Longrightarrow> model_ok C hid (L @ es) (fold (addMemo C st hid) es model)"
proof (induction es arbitrary: L model)
  case (Cons e es)
  then show ?case using Cons.IH [of "L @ [e]"] addMemo_ok [of C hid L model "fst e" "snd e" st] by simp
qed simp


lemma map_of_map_pair: "map_of (map (\<lambda>(k, v). (k, f k v)) xs) k = map_option (f k) (map_of xs k)"
  by (induction xs) auto

lemma model_built: "model_ok C hid (dated C tb ms) (fold (addMemo C st hid) (dated C tb ms) \<lparr>mm_days = [], fileFallbacks = []\<rparr>)"
proof -
  have "model_ok C hid [] \<lparr>mm_days = [], fileFallbacks = []\<rparr>" by (simp add: model_ok_def days_of_def)
  from fold_addMemo_ok [OF this, where st = st] show ?thesis by simp
qed

lemma set_dated: "(m, t) \<in> set (dated C tb ms) \<longleftrightarrow> m \<in> set ms \<and> (\<exists>ts. getMemoSortTime m tb = Some ts \<and> t = toMillis C ts)"
  by (auto simp: dated_def List.map_filter_def image_iff)

definition day_of :: "calendar_env \<Rightarrow> MemoTimeBasis \<Rightarrow> Memo \<Rightarrow> jsstr option" where
  "day_of C tb m = map_option (\<lambda>ts. localDate C (toMillis C ts)) (getMemoSortTime m tb)"

lemma set_days_of: "set (days_of C d (dated C tb ms)) = {m \<in> set ms. day_of C tb m = Some d}"
  by (force simp: days_of_def set_dated day_of_def image_iff)


section \<open>The order of the pages does not matter\<close>

lemma dated_key:
  assumes "\<And>a b. localeCompare C a b \<le> 0 \<longleftrightarrow> rank a \<le> (rank b :: 'k :: linorder)"
  shows "dated C tb ms = sort_key (\<lambda>e. (snd e, rank (memo_name (fst e))))
    (List.map_filter (\<lambda>m. map_option (\<lambda>t. (m, toMillis C t)) (getMemoSortTime m tb)) ms)"
  unfolding dated_def by (rule sort_by_key) (auto simp: entry_compare_def assms less_eq_prod_simp)

text \<open>The model of a month does not depend on the order in which the server's pages deliver the memos, provided that
  names identify memos and comparing names is a linear order on them.\<close>

theorem month_model_order_independent:
  fixes rank :: "jsstr \<Rightarrow> 'k :: linorder"
  assumes "mset ms = mset ms'" "inj_on memo_name (set ms)"
    and "\<And>a b. localeCompare C a b \<le> 0 \<longleftrightarrow> rank a \<le> rank b" "inj_on rank (memo_name ` set ms)"
  shows "buildCalendarMonthModel C st isRedacted tb ms = buildCalendarMonthModel C st isRedacted tb ms'"
proof -
  let ?f = "\<lambda>m. map_option (\<lambda>t. (m, toMillis C t)) (getMemoSortTime m tb)"
  let ?k = "\<lambda>e :: Memo \<times> int. (snd e, rank (memo_name (fst e)))"
  have "mset (List.map_filter ?f ms) = mset (List.map_filter ?f ms')" using assms(1) by (simp add: List.map_filter_def)
  moreover have "inj_on ?k (set (List.map_filter ?f ms))"
  proof (rule inj_onI)
    fix x y
    assume x: "x \<in> set (List.map_filter ?f ms)" and y: "y \<in> set (List.map_filter ?f ms)" and e: "?k x = ?k y"
    then have "fst x \<in> set ms" "fst y \<in> set ms" by (auto simp: List.map_filter_def)
    with e assms(2,4) have "fst x = fst y" by (metis Pair_inject image_eqI inj_onD)
    with e show "x = y" by (simp add: prod_eq_iff)
  qed
  ultimately have "sort_key ?k (List.map_filter ?f ms) = sort_key ?k (List.map_filter ?f ms')"
    by (intro sort_key_inj_key_eq) simp_all
  then show ?thesis unfolding buildCalendarMonthModel_def dated_key [OF assms(3)] by simp
qed


section \<open>The grid is made of whole weeks\<close>

text \<open>The weekdays follow one another.\<close>

definition weekdays_ok :: "day_env \<Rightarrow> bool" where
  "weekdays_ok D \<longleftrightarrow> (\<forall>d. 0 \<le> weekday D d \<and> weekday D d < 7 \<and> weekday D (d + 1) = (weekday D d + 1) mod 7)"

lemma weekday_later: "weekdays_ok D \<Longrightarrow> weekday D (d + int k) = (weekday D d + int k) mod 7"
proof (induction k)
  case 0
  then show ?case by (simp add: weekdays_ok_def)
next
  case (Suc k)
  then have "weekday D (d + int k + 1) = (weekday D (d + int k) + 1) mod 7" by (simp add: weekdays_ok_def)
  then show ?case using Suc by (simp add: mod_simps algebra_simps)
qed

lemma weekday_earlier:
  assumes "weekdays_ok D" "0 \<le> k" "k < 7"
  shows "weekday D (d - k) = (weekday D d - k) mod 7"
proof -
  have "weekday D d = (weekday D (d - k) + k) mod 7" using weekday_later [OF assms(1), of "d - k" "nat k"] assms(2) by simp
  then have "(weekday D d - k) mod 7 = weekday D (d - k) mod 7" by (simp add: mod_simps)
  then show ?thesis using assms(1) by (simp add: weekdays_ok_def)
qed

lemma js_rem_pos: "0 \<le> a \<Longrightarrow> js_rem a b = a mod b"
  by (simp add: js_rem_def)

text \<open>The grid of a month lists consecutive days in order, starts on the chosen first day of the week, consists of whole
  weeks, and holds every day of the month, with less than a week of padding at either end.\<close>

theorem month_grid_whole_weeks:
  assumes D: "weekdays_ok D" and off: "0 \<le> off" "off < 7" and m: "startOfMonth D month \<le> endOfMonth D month"
  shows "\<exists>a b. map cell_date (buildMonthDays D month data off today sel) = map (formatDate D) [a..b]
    \<and> weekday D a = off \<and> 7 dvd length (buildMonthDays D month data off today sel)
    \<and> a \<le> startOfMonth D month \<and> startOfMonth D month < a + 7 \<and> endOfMonth D month \<le> b \<and> b < endOfMonth D month + 7"
proof -
  let ?s = "startOfMonth D month" and ?e = "endOfMonth D month"
  have w: "0 \<le> weekday D d" "weekday D d < 7" for d using D by (auto simp: weekdays_ok_def)
  define l where "l = leadingDays D month off"
  define tr where "tr = trailingDays D month off"
  have l: "l = (weekday D ?s - off) mod 7"
    using w [of ?s] off by (simp add: l_def leadingDays_def DAYS_IN_WEEK_def js_rem_pos)
  have "(13 + (off - x)) mod 7 = (off + 6 - x) mod 7" for x :: int
  proof -
    have "13 + (off - x) = off + 6 - x + 7" by simp
    then show ?thesis by (simp only: mod_add_self2)
  qed
  then have tr: "tr = (off + 6 - weekday D ?e) mod 7"
    using w [of ?e] off by (simp add: tr_def trailingDays_def DAYS_IN_WEEK_def js_rem_pos)
  have lb: "0 \<le> l" "l < 7" "0 \<le> tr" "tr < 7" by (simp_all add: l tr)
  have a: "weekday D (?s - l) = off" using weekday_earlier [OF D lb(1,2)] off by (simp add: l mod_simps)
  define n where "n = nat (?e + tr - (?s - l) + 1)"
  have n: "int n = ?e + tr - (?s - l) + 1" using m lb by (simp add: n_def)
  have "weekday D (?e + tr) = (weekday D ?e + tr) mod 7" using weekday_later [OF D, of ?e "nat tr"] lb by simp
  also have "\<dots> = (off + 6) mod 7" by (simp add: tr mod_simps)
  also have "weekday D (?e + tr) = (off + int (n - 1)) mod 7"
    using weekday_later [OF D, of "?s - l" "n - 1"] n a m lb by (simp add: of_nat_diff)
  finally have "(off + int (n - 1)) mod 7 = (off + 6) mod 7" by simp
  then have "(off + int (n - 1) + (1 - off)) mod 7 = (off + 6 + (1 - off)) mod 7" by (rule mod_add_cong) (rule refl)
  moreover have "off + int (n - 1) + (1 - off) = int n" using n m lb by simp
  ultimately have "int n mod 7 = 0" by simp
  then have dvd: "7 dvd n" by (metis dvd_eq_mod_eq_0 int_dvd_int_iff of_nat_numeral)
  have "[?s - l..?e + tr] = map (\<lambda>i. ?s - l + int i) [0..<n]"
    using n by (intro nth_equalityI) (auto simp: nth_upto n_def)
  then have "map cell_date (buildMonthDays D month data off today sel) = map (formatDate D) [?s - l..?e + tr]"
    by (simp add: buildMonthDays_def Let_def l_def [symmetric] tr_def [symmetric] n_def [symmetric])
  moreover have "7 dvd length (buildMonthDays D month data off today sel)"
    using dvd by (simp add: buildMonthDays_def Let_def l_def [symmetric] tr_def [symmetric] n_def [symmetric])
  ultimately show ?thesis using a lb by (intro exI [of _ "?s - l"] exI [of _ "?e + tr"]) auto
qed

section \<open>Paths round trip\<close>

lemma pad2_eq: "n < 100 \<Longrightarrow> pad2 n = [48 + n div 10, 48 + n mod 10]"
  unfolding pad2_def padStart2_def dec.simps [of n] dec.simps [of "n div 10"] by (cases "n < 10") simp_all

lemma undec_pad2: "n < 100 \<Longrightarrow> undec (pad2 n) = n"
  by (simp add: pad2_eq undec_def)

lemma dec_length: "length (dec n) = (if n < 10 then 1 else Suc (length (dec (n div 10))))"
  by (simp add: dec.simps [of n])

lemma dec_year:
  assumes "1000 \<le> y" "y \<le> 9999"
  shows "length (dec y) = 4"
proof -
  have "10 \<le> y" "10 \<le> y div 10" "10 \<le> y div 10 div 10" "y div 10 div 10 div 10 < 10" using assms by linarith+
  then show ?thesis
    unfolding dec_length [of y] dec_length [of "y div 10"] dec_length [of "y div 10 div 10"] dec_length [of "y div 10 div 10 div 10"]
    by simp
qed

lemma digits_plain: "list_all isDigit s \<Longrightarrow> 45 \<notin> set s \<and> 47 \<notin> set s"
  by (auto simp: list_all_iff isDigit_def)

lemma replaceDash_first: "45 \<notin> set s \<Longrightarrow> replaceDash (s @ 45 # r) = s @ 47 # r"
  by (induction s) auto

text \<open>The path the client builds for a month, or for a day of it, names the year, the month and the day, and reading them
  back from the path gives the month and the day.\<close>

theorem calendar_path_roundtrip:
  assumes "1000 \<le> y" "y \<le> 9999" "1 \<le> m" "m \<le> 12" "d < 100"
    and "parseLocalDate Z (buildMonthKey y m @ js ''-'' @ pad2 d) \<noteq> None"
  shows "let month = buildMonthKey y m; date = month @ js ''-'' @ pad2 d
    in split_on 47 (buildCalendarPath month (Some date)) = [[], js ''calendar'', dec y, pad2 m, pad2 d]
      \<and> parseCalendarParams Z (Some (dec y)) (Some (pad2 m)) (Some (pad2 d)) = Some (month, Some date)
      \<and> split_on 47 (buildCalendarPath month None) = [[], js ''calendar'', dec y, pad2 m]
      \<and> parseCalendarParams Z (Some (dec y)) (Some (pad2 m)) None = Some (month, None)
      \<and> getMonthOfDate date = month"
proof -
  have pads: "pad2 m = [48 + m div 10, 48 + m mod 10]" "pad2 d = [48 + d div 10, 48 + d mod 10]" using assms by (simp_all add: pad2_eq)
  have digits: "list_all isDigit (pad2 m)" "list_all isDigit (pad2 d)" using assms by (auto simp: pads isDigit_def)
  note plain = digits_plain [OF dec_digits [of y]] digits_plain [OF digits(1)] digits_plain [OF digits(2)]
  have num: "isNumeral 4 4 (dec y)" "isNumeral 1 2 (pad2 m)" "isNumeral 1 2 (pad2 d)"
    using dec_year [OF assms(1,2)] dec_digits digits by (simp_all add: isNumeral_def) (simp_all add: pads)
  have path: "buildCalendarPath (buildMonthKey y m) None = 47 # js ''calendar'' @ 47 # dec y @ 47 # pad2 m"
    using replaceDash_first [of "dec y" "pad2 m"] plain(1) by (simp add: buildCalendarPath_def buildMonthKey_def CALENDAR_def js_def)
  have day: "buildCalendarPath (buildMonthKey y m) (Some (buildMonthKey y m @ js ''-'' @ pad2 d)) =
      47 # js ''calendar'' @ 47 # dec y @ 47 # pad2 m @ 47 # pad2 d"
    using path by (simp add: buildCalendarPath_def Let_def) (simp add: pads js_def)
  have cal: "47 \<notin> set (js ''calendar'')" by (simp add: js_def)
  have "split_on 47 (buildCalendarPath (buildMonthKey y m) None) = [[], js ''calendar'', dec y, pad2 m]"
    unfolding path using plain cal by (simp add: split_on_append split_on_absent)
  moreover have "split_on 47 (buildCalendarPath (buildMonthKey y m) (Some (buildMonthKey y m @ js ''-'' @ pad2 d))) =
      [[], js ''calendar'', dec y, pad2 m, pad2 d]"
    unfolding day using plain cal by (simp add: split_on_append split_on_absent)
  moreover have "getMonthOfDate (buildMonthKey y m @ js ''-'' @ pad2 d) = buildMonthKey y m"
    using dec_year [OF assms(1,2)] by (simp add: getMonthOfDate_def buildMonthKey_def) (simp add: pads js_def)
  ultimately show ?thesis
    using num assms undec_pad2 [of m] undec_pad2 [of d] by (simp add: parseCalendarParams_def Let_def)
qed

section \<open>Counts and patterns\<close>

definition count_of :: "jsstr \<Rightarrow> (jsstr \<times> int) list \<Rightarrow> int" where
  "count_of tag counts = (case map_of counts tag of None \<Rightarrow> 0 | Some n \<Rightarrow> n)"

lemma count_of_add: "count_of tag (add_count e counts) = count_of tag counts + (if fst e = tag then snd e else 0)"
  by (simp add: count_of_def add_count_def update_conv')

lemma count_of_adds: "count_of tag (foldl (\<lambda>r e. add_count e r) counts es) = count_of tag counts + sum_list (map snd (filter (\<lambda>e. fst e = tag) es))"
  by (induction es arbitrary: counts) (simp_all add: count_of_add)

text \<open>The merged count of a tag is the sum of its counts in all sources.\<close>

lemma merged_count:
  "count_of tag (mergeTagCounts sources) =
     sum_list (map snd (filter (\<lambda>e. fst e = tag) (concat (map (\<lambda>s. case s of None \<Rightarrow> [] | Some es \<Rightarrow> es) sources))))"
proof -
  have "count_of tag (foldl (\<lambda>r s. foldl (\<lambda>r e. add_count e r) r (case s of None \<Rightarrow> [] | Some es \<Rightarrow> es)) counts sources) =
      count_of tag counts + sum_list (map snd (filter (\<lambda>e. fst e = tag) (concat (map (\<lambda>s. case s of None \<Rightarrow> [] | Some es \<Rightarrow> es) sources))))"
    for counts by (induction sources arbitrary: counts) (simp_all add: count_of_adds)
  from this [of "[]"] show ?thesis by (simp add: mergeTagCounts_def count_of_def)
qed

definition patterns_ok :: "regexp_compiler \<Rightarrow> (jsstr \<times> (jsstr \<Rightarrow> bool) option) list \<Rightarrow> bool" where
  "patterns_ok compile cache \<longleftrightarrow> (\<forall>p re. map_of cache p = Some re \<longrightarrow> re = compile (anchored p))"

lemma getCompiledPattern_ok:
  "patterns_ok compile cache \<Longrightarrow> fst (getCompiledPattern compile p cache) = compile (anchored p)
   \<and> patterns_ok compile (snd (getCompiledPattern compile p cache))"
  by (auto simp: getCompiledPattern_def patterns_ok_def update_conv' Let_def split: option.split)

definition accepts :: "(jsstr \<Rightarrow> bool) option \<Rightarrow> jsstr \<Rightarrow> bool" where
  "accepts re tag \<longleftrightarrow> (case re of None \<Rightarrow> False | Some test \<Rightarrow> test tag)"

definition first_match :: "regexp_compiler \<Rightarrow> jsstr \<Rightarrow> (jsstr \<times> TagMetadata) list \<Rightarrow> TagMetadata option" where
  "first_match compile tag tags =
     (case map_of tags tag of
        Some m \<Rightarrow> Some m
      | None \<Rightarrow> map_option snd (List.find (\<lambda>e. accepts (compile (anchored (fst e))) tag) tags))"

lemma patternLoop_ok:
  assumes "patterns_ok compile cache"
  shows "fst (patternLoop compile tag es cache) = map_option snd (List.find (\<lambda>e. accepts (compile (anchored (fst e))) tag) es)
   \<and> patterns_ok compile (snd (patternLoop compile tag es cache))"
  using assms
proof (induction es arbitrary: cache)
  case (Cons e es)
  obtain re cache' where g: "getCompiledPattern compile (fst e) cache = (re, cache')" by (cases "getCompiledPattern compile (fst e) cache")
  then have "re = compile (anchored (fst e))" "patterns_ok compile cache'" using getCompiledPattern_ok [OF Cons.prems, of "fst e"] by auto
  with Cons.IH [of cache'] g show ?case by (cases e) (auto simp: accepts_def)
qed simp

text \<open>The cache of compiled patterns cannot be noticed: the exact key wins, then the first pattern that matches.\<close>

lemma findTagMetadata_ok:
  "patterns_ok compile cache \<Longrightarrow>
   fst (findTagMetadata compile tag tags cache) = first_match compile tag tags
   \<and> patterns_ok compile (snd (findTagMetadata compile tag tags cache))"
  using patternLoop_ok [of compile cache tag tags] by (auto simp: findTagMetadata_def first_match_def split: option.split)

lemma isMemoBlurred_ok:
  "patterns_ok compile cache \<Longrightarrow>
   fst (isMemoBlurred compile names setting cache) =
     (case setting of None \<Rightarrow> False
      | Some tags \<Rightarrow> list_ex (\<lambda>tag. case first_match compile tag tags of None \<Rightarrow> False | Some md \<Rightarrow> blurContent md) names)"
proof (induction compile names setting cache rule: isMemoBlurred.induct)
  case (3 compile tag rest tags cache)
  obtain m cache' where f: "findTagMetadata compile tag tags cache = (m, cache')" by (cases "findTagMetadata compile tag tags cache")
  then have "m = first_match compile tag tags" "patterns_ok compile cache'" using findTagMetadata_ok [OF 3(2), of tag tags] by auto
  with 3(1) [OF f [symmetric]] f show ?case by (cases "case m of None \<Rightarrow> False | Some md \<Rightarrow> blurContent md") simp_all
qed simp_all


section \<open>Examples\<close>

text \<open>A calendar whose day zero is a Sunday and whose month runs from day one to day thirty.\<close>

definition june :: day_env where
  "june = \<lparr>weekday = (\<lambda>d. d mod 7), formatDate = (\<lambda>d. dec (nat d)), formatMonth = (\<lambda>d. []), dayOfMonth = nat,
     startOfMonth = (\<lambda>m. 1), endOfMonth = (\<lambda>m. 30)\<rparr>"

lemma month_grid_whole_weeks_witness:
  "\<exists>a b. map cell_date (buildMonthDays june [] [] 0 [] None) = map (formatDate june) [a..b] \<and> weekday june a = 0
    \<and> 7 dvd length (buildMonthDays june [] [] 0 [] None)"
proof -
  have "weekdays_ok june" by (simp add: weekdays_ok_def june_def mod_simps)
  from month_grid_whole_weeks [OF this, of 0 "[]" "[]" "[]" None] show ?thesis by (auto simp: june_def)
qed

definition utc :: time_zone where
  "utc = \<lparr>mkLocal = (\<lambda>y m d. 400 * y + 32 * m + d), localFields = (\<lambda>t. (t div 400, t mod 400 div 32, t mod 400 mod 32)), nextDay = (\<lambda>t. t + 1)\<rparr>"

lemma calendar_path_roundtrip_witness:
  "split_on 47 (buildCalendarPath (buildMonthKey 2026 8) (Some (buildMonthKey 2026 8 @ js ''-'' @ pad2 5)))
     = [[], js ''calendar'', dec 2026, pad2 8, pad2 5]"
proof -
  have "buildMonthKey 2026 8 @ js ''-'' @ pad2 5 = js ''2026-08-05''"
    by (simp add: buildMonthKey_def pad2_def padStart2_def dec.simps js_def)
  moreover have "parseLocalDate utc (js ''2026-08-05'') \<noteq> None"
    by (simp add: parseLocalDate_def js_def slice_def isDigit_def undec_def utc_def Let_def)
  ultimately have "parseLocalDate utc (buildMonthKey 2026 8 @ js ''-'' @ pad2 5) \<noteq> None" by simp
  from calendar_path_roundtrip [OF _ _ _ _ _ this] show ?thesis by (simp add: Let_def)
qed

definition plain_calendar :: calendar_env where
  "plain_calendar = \<lparr>parseBlocks = (\<lambda>s. [TextNode s]), renderedImages = (\<lambda>t. []), defaultUrlTransform = id, absoluteHref = Some,
     localeCompare = (\<lambda>a b. int (length a) - int (length b)), localDate = (\<lambda>t. dec (nat t)), toMillis = id,
     managedEnv = demo_env, attEnv = \<lparr>origin = [], shareUrl = (\<lambda>_ _. None)\<rparr>\<rparr>"

definition memo_a :: Memo where "memo_a = empty_memo\<lparr>memo_name := js ''a'', memo_createTime := Some 5\<rparr>"
definition memo_b :: Memo where "memo_b = empty_memo\<lparr>memo_name := js ''bb'', memo_createTime := Some 5\<rparr>"

lemma sample_memos: "memo_name memo_a = js ''a''" "memo_name memo_b = js ''bb''"
  "getMemoSortTime memo_a create_time = Some 5" "getMemoSortTime memo_b create_time = Some 5"
  by (simp_all add: memo_a_def memo_b_def getMemoSortTime_def)

lemma month_model_order_independent_witness:
  "buildCalendarMonthModel plain_calendar loaded_state (\<lambda>m. False) create_time [memo_a, memo_b]
   = buildCalendarMonthModel plain_calendar loaded_state (\<lambda>m. False) create_time [memo_b, memo_a]"
  by (rule month_model_order_independent [where rank = length])
     (auto simp: plain_calendar_def inj_on_def js_def sample_memos)


text \<open>A year below 1000 loses its zeros: the result is not of the form YYYY-MM.\<close>

lemma short_year_month:
  "parseCalendarParams Z (Some (js ''0099'')) (Some (js ''08'')) None = Some (js ''99-08'', None)"
  by (simp add: parseCalendarParams_def isNumeral_def isDigit_def undec_def buildMonthKey_def pad2_def padStart2_def dec.simps js_def)

end
