(* ===== verification/Editor_Commands.thy ===== *)
theory Editor_Commands
  imports Markdown_Edit
begin

text \<open>
  The editor's commands on the Markdown source: list and heading toggles, inline marks, code blocks and links
  (\<^verbatim>\<open>web/src/components/MemoEditor/Editor/formatting.ts\<close>, \<^verbatim>\<open>formatting/commands.ts\<close>), nesting of list items
  (\<^verbatim>\<open>Editor/listIndent.ts\<close>) and the insertion of text by the controller (\<^verbatim>\<open>Editor/controller.ts\<close>).

  The editor component itself is a library. A view is its text, its selection and what the syntax tree of the library says
  about a position; a command yields the transaction it dispatches, or \<open>None\<close>. A change replaces a range of the text as it
  was before the transaction.
\<close>

section \<open>Views and transactions\<close>

record tree_node =
  tn_name :: jsstr
  tn_from :: nat
  tn_to :: nat
  tn_children :: "(jsstr \<times> nat \<times> nat) list"

datatype side = before_side | after_side

text \<open>\<open>ancestors\<close> is the node at a position and its parents, innermost first.\<close>

record view =
  v_doc :: jsstr
  v_anchor :: nat
  v_head :: nat
  v_ranges :: "(nat \<times> nat) list"
  ancestors :: "nat \<Rightarrow> side \<Rightarrow> tree_node list"

datatype selection_spec = KeepSelection | MapSelection bool | SelectionAt nat nat

record transaction =
  tr_changes :: "MarkdownEdit list"
  tr_selection :: selection_spec

definition v_from :: "view \<Rightarrow> nat" where "v_from v = min (v_anchor v) (v_head v)"
definition v_to :: "view \<Rightarrow> nat" where "v_to v = max (v_anchor v) (v_head v)"

abbreviation change :: "nat \<Rightarrow> nat \<Rightarrow> jsstr \<Rightarrow> MarkdownEdit" where
  "change a b s \<equiv> \<lparr>edit_start = a, edit_end = b, replacement = s\<rparr>"

section \<open>Lines\<close>

record line =
  ln_number :: nat
  ln_from :: nat
  ln_text :: jsstr

definition ln_to :: "line \<Rightarrow> nat" where "ln_to l = ln_from l + length (ln_text l)"

fun number_lines :: "nat \<Rightarrow> nat \<Rightarrow> jsstr list \<Rightarrow> line list" where
  "number_lines n off [] = []"
| "number_lines n off (t # ts) = \<lparr>ln_number = n, ln_from = off, ln_text = t\<rparr> # number_lines (Suc n) (off + length t + 1) ts"

definition doc_lines :: "jsstr \<Rightarrow> line list" where
  "doc_lines doc = number_lines 1 0 (split_on 10 doc)"

text \<open>\<open>doc.line(n)\<close> for a line of the text, and \<open>doc.lineAt(pos)\<close>: the last line that starts at or before the position.\<close>

definition doc_line :: "jsstr \<Rightarrow> nat \<Rightarrow> line" where
  "doc_line doc n = doc_lines doc ! (n - 1)"

definition lineAt :: "jsstr \<Rightarrow> nat \<Rightarrow> line" where
  "lineAt doc pos = last (filter (\<lambda>l. ln_from l \<le> pos) (doc_lines doc))"

definition leadingWhitespace :: "jsstr \<Rightarrow> nat" where
  "leadingWhitespace text = length text - length (trimStart text)"

definition selectedLineNumbers :: "view \<Rightarrow> nat list" where
  "selectedLineNumbers v =
     sort (remdups (concat (map (\<lambda>(a, b). [ln_number (lineAt (v_doc v) a)..<Suc (ln_number (lineAt (v_doc v) b))]) (v_ranges v))))"

section \<open>Patterns of lines\<close>

text \<open>The indentation and the length of the matched prefix.\<close>

definition BULLET_LINE :: "jsstr \<Rightarrow> (nat \<times> nat) option" where
  "BULLET_LINE s =
     (let a = length (takeWhile isWhiteSpace s); r = drop a s
      in if r \<noteq> [] \<and> isBullet (hd r)
         then let b = length (takeWhile isWhiteSpace (tl r)) in if 0 < b then Some (a, a + 1 + b) else None
         else None)"

definition TASK_LINE :: "jsstr \<Rightarrow> (nat \<times> nat) option" where
  "TASK_LINE s =
     (case BULLET_LINE s of
        None \<Rightarrow> None
      | Some (a, n) \<Rightarrow>
          (let c = length (takeWhile isWhiteSpace (drop (n + 3) s))
           in if checkboxAt (drop n s) \<and> 0 < c then Some (a, n + 3 + c) else None))"

definition orderedMarker :: "jsstr \<Rightarrow> nat option" where
  "orderedMarker r =
     (let ds = takeWhile isDigit r
      in if ds \<noteq> [] \<and> (charAt r (length ds) = Some 46 \<or> charAt r (length ds) = Some 41) then Some (Suc (length ds)) else None)"

definition ORDERED_LINE :: "jsstr \<Rightarrow> (nat \<times> nat) option" where
  "ORDERED_LINE s =
     (let a = length (takeWhile isWhiteSpace s)
      in case orderedMarker (drop a s) of
           None \<Rightarrow> None
         | Some m \<Rightarrow> (let b = length (takeWhile isWhiteSpace (drop (a + m) s)) in if 0 < b then Some (a, a + m + b) else None))"

text \<open>Up to three spaces, one to six hashes, white space; the number of hashes.\<close>

definition headingSpaces :: "jsstr \<Rightarrow> nat" where
  "headingSpaces s = min 3 (length (takeWhile (\<lambda>c. c = 32) s))"

definition HEADING_LINE :: "jsstr \<Rightarrow> nat option" where
  "HEADING_LINE s =
     (let r = drop (headingSpaces s) s; h = length (takeWhile (\<lambda>c. c = 35) r)
      in if 1 \<le> h \<and> h \<le> 6 \<and> takeWhile isWhiteSpace (drop h r) \<noteq> [] then Some h else None)"

definition HEADING_PREFIX :: "jsstr \<Rightarrow> nat" where
  "HEADING_PREFIX s =
     (case HEADING_LINE s of
        None \<Rightarrow> headingSpaces s
      | Some h \<Rightarrow> headingSpaces s + h + length (takeWhile isWhiteSpace (drop (headingSpaces s + h) s)))"

section \<open>Lists\<close>

datatype ListCommand = bulletList | orderedList | taskList

record LineListInfo =
  li_mode :: "ListCommand option"
  li_indent :: nat
  li_markerEnd :: nat

definition LIST_MARKERS :: "ListCommand \<Rightarrow> jsstr" where
  "LIST_MARKERS c = (case c of bulletList \<Rightarrow> js ''- '' | orderedList \<Rightarrow> js ''1. '' | taskList \<Rightarrow> js ''- [ ] '')"

definition lineListInfo :: "jsstr \<Rightarrow> LineListInfo" where
  "lineListInfo text =
     (case TASK_LINE text of
        Some (a, n) \<Rightarrow> \<lparr>li_mode = Some taskList, li_indent = a, li_markerEnd = n\<rparr>
      | None \<Rightarrow>
          (case BULLET_LINE text of
             Some (a, n) \<Rightarrow> \<lparr>li_mode = Some bulletList, li_indent = a, li_markerEnd = n\<rparr>
           | None \<Rightarrow>
               (case ORDERED_LINE text of
                  Some (a, n) \<Rightarrow> \<lparr>li_mode = Some orderedList, li_indent = a, li_markerEnd = n\<rparr>
                | None \<Rightarrow> \<lparr>li_mode = None, li_indent = leadingWhitespace text, li_markerEnd = leadingWhitespace text\<rparr>)))"

text \<open>What the toggle does to the \<open>i\<close>-th of its target lines.\<close>

definition listSpec :: "ListCommand \<Rightarrow> bool \<Rightarrow> nat \<Rightarrow> line \<Rightarrow> MarkdownEdit list" where
  "listSpec command allOn i l =
     (let info = lineListInfo (ln_text l)
      in if allOn then [change (ln_from l + li_indent info) (ln_from l + li_markerEnd info) []]
         else if li_mode info \<noteq> Some command
         then [change (ln_from l + li_indent info) (ln_from l + li_markerEnd info)
                 (if command = orderedList then dec (i + 1) @ js ''. '' else LIST_MARKERS command)]
         else [])"

definition listTargets :: "view \<Rightarrow> line list" where
  "listTargets v =
     (let lines = map (doc_line (v_doc v)) (selectedLineNumbers v);
          nonBlank = filter (\<lambda>l. trim (ln_text l) \<noteq> []) lines
      in if length lines = 1 \<or> nonBlank = [] then lines else nonBlank)"

definition toggleListLine :: "view \<Rightarrow> ListCommand \<Rightarrow> transaction option" where
  "toggleListLine v command =
     (let tgts = listTargets v;
          allOn = list_all (\<lambda>l. li_mode (lineListInfo (ln_text l)) = Some command) tgts;
          specs = concat (map (\<lambda>(i, l). listSpec command allOn i l) (enumerate 0 tgts))
      in if specs = [] then None else Some \<lparr>tr_changes = specs, tr_selection = MapSelection True\<rparr>)"

section \<open>Nesting of list items\<close>

text \<open>\<open>LIST_ITEM\<close>: the indentation of a list item; \<open>LIST_PREFIX\<close>: the column of its content.\<close>

definition LIST_ITEM :: "jsstr \<Rightarrow> nat option" where
  "LIST_ITEM s =
     (let a = length (takeWhile isWhiteSpace s)
      in case listMarker (drop a s) of
           None \<Rightarrow> None
         | Some m \<Rightarrow> (case charAt s (a + m) of None \<Rightarrow> None | Some c \<Rightarrow> if isWhiteSpace c then Some a else None))"

definition LIST_PREFIX :: "jsstr \<Rightarrow> nat option" where
  "LIST_PREFIX s =
     (let a = length (takeWhile isWhiteSpace s)
      in case listMarker (drop a s) of
           None \<Rightarrow> None
         | Some m \<Rightarrow> (let b = length (takeWhile isWhiteSpace (drop (a + m) s)) in if 0 < b then Some (a + m + b) else None))"

record ordered_item =
  oi_number :: nat
  oi_delimiter :: code_unit
  oi_spaces :: jsstr
  oi_content :: jsstr

definition ORDERED_ITEM :: "jsstr \<Rightarrow> ordered_item option" where
  "ORDERED_ITEM s =
     (let r = dropWhile isWhiteSpace s; ds = takeWhile isDigit r
      in case orderedMarker r of
           None \<Rightarrow> None
         | Some m \<Rightarrow>
             (let spaces = takeWhile isWhiteSpace (drop m r); body = dropWhile isWhiteSpace (drop m r)
              in if spaces \<noteq> [] \<and> \<not> list_ex isLineTerminator body
                 then Some \<lparr>oi_number = undec ds, oi_delimiter = r ! length ds, oi_spaces = spaces, oi_content = body\<rparr> else None))"

definition previousListLines :: "jsstr \<Rightarrow> nat \<Rightarrow> (jsstr \<times> nat) list" where
  "previousListLines doc from =
     map (\<lambda>t. (t, leadingWhitespace t)) (takeWhile (\<lambda>t. trim t \<noteq> []) (rev (take (from - 1) (split_on 10 doc))))"

fun orderedLoop :: "nat \<Rightarrow> (jsstr \<times> nat) list \<Rightarrow> nat" where
  "orderedLoop indent [] = 1"
| "orderedLoop indent ((t, i) # ps) =
     (if i < indent then 1
      else if i = indent then (case ORDERED_ITEM t of None \<Rightarrow> 1 | Some oi \<Rightarrow> oi_number oi + 1)
      else orderedLoop indent ps)"

definition nextOrderedNumber :: "jsstr \<Rightarrow> nat \<Rightarrow> nat \<Rightarrow> nat" where
  "nextOrderedNumber doc lineNumber indent = orderedLoop indent (previousListLines doc lineNumber)"

definition reindented :: "jsstr \<Rightarrow> nat \<Rightarrow> jsstr \<Rightarrow> nat \<Rightarrow> jsstr" where
  "reindented doc lineNumber text indent =
     (case ORDERED_ITEM text of
        Some oi \<Rightarrow> replicate indent 32 @ dec (nextOrderedNumber doc lineNumber indent) @ [oi_delimiter oi] @ oi_spaces oi @ oi_content oi
      | None \<Rightarrow> replicate indent 32 @ drop (leadingWhitespace text) text)"

fun sinkLoop :: "nat \<Rightarrow> nat \<Rightarrow> (jsstr \<times> nat) list \<Rightarrow> nat" where
  "sinkLoop indent tgt [] = tgt"
| "sinkLoop indent tgt ((t, i) # ps) =
     (if i > indent then sinkLoop indent tgt ps else case LIST_PREFIX t of Some n \<Rightarrow> n | None \<Rightarrow> tgt)"

definition sinkTarget :: "jsstr \<Rightarrow> nat \<Rightarrow> nat \<Rightarrow> nat" where
  "sinkTarget doc n indent = sinkLoop indent (indent + 2) (previousListLines doc n)"

text \<open>\<open>None\<close> when some selected line is no list item: the command returns \<open>false\<close>.\<close>

fun sinkChanges :: "jsstr \<Rightarrow> nat list \<Rightarrow> MarkdownEdit list option" where
  "sinkChanges doc [] = Some []"
| "sinkChanges doc (n # ns) =
     (let l = doc_line doc n
      in case LIST_ITEM (ln_text l) of
           None \<Rightarrow> None
         | Some indent \<Rightarrow>
             map_option (\<lambda>cs. (if sinkTarget doc n indent > indent
                               then [change (ln_from l) (ln_to l) (reindented doc n (ln_text l) (sinkTarget doc n indent))] else []) @ cs)
               (sinkChanges doc ns))"

definition sinkListItem :: "view \<Rightarrow> transaction option" where
  "sinkListItem v =
     (case sinkChanges (v_doc v) (selectedLineNumbers v) of
        None \<Rightarrow> None
      | Some cs \<Rightarrow> if cs = [] then None else Some \<lparr>tr_changes = cs, tr_selection = KeepSelection\<rparr>)"

fun liftLoop :: "nat \<Rightarrow> (jsstr \<times> nat) list \<Rightarrow> nat" where
  "liftLoop indent [] = 0"
| "liftLoop indent ((t, i) # ps) =
     (if i < indent then (if LIST_ITEM t \<noteq> None then i else 0) else liftLoop indent ps)"

fun liftChanges :: "jsstr \<Rightarrow> nat list \<Rightarrow> MarkdownEdit list option" where
  "liftChanges doc [] = Some []"
| "liftChanges doc (n # ns) =
     (let l = doc_line doc n
      in case LIST_ITEM (ln_text l) of
           None \<Rightarrow> None
         | Some indent \<Rightarrow>
             if indent = 0 then None
             else map_option (\<lambda>cs. change (ln_from l) (ln_to l)
                                 (reindented doc n (ln_text l) (liftLoop indent (previousListLines doc n))) # cs)
                    (liftChanges doc ns))"

definition liftListItem :: "view \<Rightarrow> transaction option" where
  "liftListItem v =
     (case liftChanges (v_doc v) (selectedLineNumbers v) of
        None \<Rightarrow> None
      | Some cs \<Rightarrow> if cs = [] then None else Some \<lparr>tr_changes = cs, tr_selection = KeepSelection\<rparr>)"

section \<open>Headings, marks, code blocks and links\<close>

definition setHeading :: "view \<Rightarrow> nat \<Rightarrow> transaction option" where
  "setHeading v level =
     (let l = lineAt (v_doc v) (v_head v);
          insert = (if level = 0 then [] else replicate level 35 @ [32])
      in Some \<lparr>tr_changes = [change (ln_from l) (ln_from l + HEADING_PREFIX (ln_text l)) insert], tr_selection = MapSelection True\<rparr>)"

datatype MarkCommand = bold | italic | strikethrough | code

record mark_row =
  token :: jsstr
  wrapper :: jsstr
  delimiter :: jsstr

definition MARKS :: "MarkCommand \<Rightarrow> mark_row" where
  "MARKS c =
     (case c of
        bold \<Rightarrow> \<lparr>token = js ''**'', wrapper = js ''StrongEmphasis'', delimiter = js ''EmphasisMark''\<rparr>
      | italic \<Rightarrow> \<lparr>token = js ''*'', wrapper = js ''Emphasis'', delimiter = js ''EmphasisMark''\<rparr>
      | strikethrough \<Rightarrow> \<lparr>token = js ''~~'', wrapper = js ''Strikethrough'', delimiter = js ''StrikethroughMark''\<rparr>
      | code \<Rightarrow> \<lparr>token = js ''`'', wrapper = js ''InlineCode'', delimiter = js ''CodeMark''\<rparr>)"

definition MARK_COMMANDS :: "MarkCommand list" where "MARK_COMMANDS = [bold, italic, strikethrough, code]"

definition DELIMITER_NODES :: "jsstr set" where "DELIMITER_NODES = set (map (\<lambda>c. delimiter (MARKS c)) MARK_COMMANDS)"

definition isEmptyMarkPair :: "jsstr \<Rightarrow> nat \<Rightarrow> nat \<Rightarrow> bool" where
  "isEmptyMarkPair doc from to \<longleftrightarrow>
     to \<le> from + Max (set (map (\<lambda>c. 2 * length (token (MARKS c))) MARK_COMMANDS))
     \<and> slice doc from to \<in> set (map (\<lambda>c. token (MARKS c) @ token (MARKS c)) MARK_COMMANDS)"

definition childRanges :: "tree_node \<Rightarrow> jsstr \<Rightarrow> (nat \<times> nat) list" where
  "childRanges node name = map snd (filter (\<lambda>c. fst c = name) (tn_children node))"

definition wrapSelection :: "view \<Rightarrow> jsstr \<Rightarrow> transaction" where
  "wrapSelection v tok =
     (let sel = slice (v_doc v) (v_from v) (v_to v)
      in \<lparr>tr_changes = [change (v_from v) (v_to v) (tok @ sel @ tok)],
          tr_selection = SelectionAt (v_from v + length tok) (v_from v + length tok + length sel)\<rparr>)"

definition findWrappedDelimiters :: "view \<Rightarrow> jsstr \<Rightarrow> jsstr \<Rightarrow> nat \<Rightarrow> (nat \<times> nat) list option" where
  "findWrappedDelimiters v wrap delim minMarks =
     (let probes = (if v_from v = v_to v then [(v_head v, before_side)]
                    else [(v_head v, before_side), (v_from v, after_side), (v_to v, before_side)]);
          nodes = concat (map (\<lambda>(pos, s). ancestors v pos s) probes)
      in map_option (\<lambda>n. childRanges n delim)
           (List.find (\<lambda>n. tn_name n = wrap \<and> length (childRanges n delim) \<ge> minMarks) nodes))"

text \<open>The construct a delimiter belongs to is its parent, or the node itself at the top.\<close>

definition blocking :: "view \<Rightarrow> nat \<Rightarrow> nat \<Rightarrow> tree_node list \<Rightarrow> bool" where
  "blocking v delFrom delTo ns \<longleftrightarrow>
     (case ns of
        [] \<Rightarrow> False
      | n # rest \<Rightarrow>
          tn_name n \<in> DELIMITER_NODES
          \<and> (let construct = (case rest of [] \<Rightarrow> n | p # _ \<Rightarrow> p) in tn_from construct < delFrom \<or> tn_to construct > delTo))"

definition toggleMark :: "view \<Rightarrow> MarkCommand \<Rightarrow> transaction option" where
  "toggleMark v command =
     (let row = MARKS command; tok = token row; from = v_from v; to = v_to v
      in case findWrappedDelimiters v (wrapper row) (delimiter row) 2 of
           Some marks \<Rightarrow>
             Some \<lparr>tr_changes = [change (fst (last marks)) (snd (last marks)) [], change (fst (hd marks)) (snd (hd marks)) []],
                   tr_selection = KeepSelection\<rparr>
         | None \<Rightarrow>
             if from = to \<and> from \<ge> length tok \<and> to + length tok \<le> length (v_doc v)
                \<and> slice (v_doc v) (from - length tok) (to + length tok) = tok @ tok
                \<and> \<not> blocking v (from - length tok) (to + length tok) (ancestors v from before_side)
                \<and> \<not> blocking v (from - length tok) (to + length tok) (ancestors v to after_side)
             then Some \<lparr>tr_changes = [change (from - length tok) from [], change to (to + length tok) []], tr_selection = KeepSelection\<rparr>
             else Some (wrapSelection v tok))"

definition fence :: jsstr where "fence = js ''```''"

definition toggleCodeBlock :: "view \<Rightarrow> transaction option" where
  "toggleCodeBlock v =
     (let doc = v_doc v
      in case findWrappedDelimiters v (js ''FencedCode'') (js ''CodeMark'') 1 of
           Some marks \<Rightarrow>
             (let openLine = lineAt doc (fst (hd marks));
                  openEnd = min (ln_to openLine + 1) (length doc);
                  closing = (if length marks \<ge> 2
                    then let closeLine = lineAt doc (fst (last marks));
                             closeIsLastLine = (ln_to closeLine = length doc);
                             closeTo = (if closeIsLastLine then ln_to closeLine else ln_to closeLine + 1);
                             closeFrom = (if closeIsLastLine \<and> ln_from closeLine \<ge> Suc openEnd then ln_from closeLine - 1 else ln_from closeLine)
                         in [change closeFrom closeTo []]
                    else [])
              in Some \<lparr>tr_changes = change (ln_from openLine) openEnd [] # closing, tr_selection = MapSelection False\<rparr>)
         | None \<Rightarrow>
             (let first = doc_line doc (hd (selectedLineNumbers v)); last' = doc_line doc (last (selectedLineNumbers v))
              in Some \<lparr>tr_changes = [change (ln_from first) (ln_from first) (fence @ [10]), change (ln_to last') (ln_to last') ([10] @ fence)],
                       tr_selection = SelectionAt (v_from v + length fence + 1) (v_to v + length fence + 1)\<rparr>))"

definition unwrapLink :: "view \<Rightarrow> transaction option" where
  "unwrapLink v =
     map_option (\<lambda>n.
       let marks = childRanges n (js ''LinkMark''); label = slice (v_doc v) (snd (marks ! 0)) (fst (marks ! 1));
           anchor = tn_from n + min (length label) (v_head v - snd (marks ! 0))
       in \<lparr>tr_changes = [change (tn_from n) (tn_to n) label], tr_selection = SelectionAt anchor anchor\<rparr>)
     (List.find (\<lambda>n. tn_name n = js ''Link'' \<and> length (childRanges n (js ''LinkMark'')) \<ge> 2) (ancestors v (v_head v) before_side))"

datatype EditorCommandId =
    MarkId MarkCommand | codeBlock | ListId ListCommand | paragraph_id | heading1 | heading2 | heading3 | link

definition runFormattingCommand :: "view \<Rightarrow> EditorCommandId \<Rightarrow> jsstr option \<Rightarrow> transaction option" where
  "runFormattingCommand v command url =
     (case command of
        MarkId c \<Rightarrow> toggleMark v c
      | codeBlock \<Rightarrow> toggleCodeBlock v
      | ListId c \<Rightarrow> toggleListLine v c
      | heading1 \<Rightarrow> setHeading v 1
      | heading2 \<Rightarrow> setHeading v 2
      | heading3 \<Rightarrow> setHeading v 3
      | paragraph_id \<Rightarrow> setHeading v 0
      | link \<Rightarrow>
          (case unwrapLink v of
             Some t \<Rightarrow> Some t
           | None \<Rightarrow>
               (let u = (case url of None \<Rightarrow> [] | Some x \<Rightarrow> x); sel = slice (v_doc v) (v_from v) (v_to v);
                    label = (if sel = [] then u else sel); ins = js ''['' @ label @ js '']('' @ u @ js '')''
                in Some \<lparr>tr_changes = [change (v_from v) (v_to v) ins],
                         tr_selection = SelectionAt (v_from v + length ins) (v_from v + length ins)\<rparr>)))"

section \<open>What is active\<close>

record ActiveFormatState =
  act_marks :: "MarkCommand list"
  act_codeBlock :: bool
  act_list :: "ListCommand option"
  act_link :: bool
  act_headingLevel :: "nat option"

definition toToolbarHeadingLevel :: "nat \<Rightarrow> nat option" where
  "toToolbarHeadingLevel level = (if level = 1 \<or> level = 2 \<or> level = 3 then Some level else None)"

definition getActiveFormats :: "view \<Rightarrow> ActiveFormatState" where
  "getActiveFormats v =
     (let ns = ancestors v (v_head v) before_side; text = ln_text (lineAt (v_doc v) (v_head v))
      in \<lparr>act_marks = filter (\<lambda>c. wrapper (MARKS c) \<in> tn_name ` set ns) MARK_COMMANDS,
          act_codeBlock = list_ex (\<lambda>n. tn_name n = js ''FencedCode'' \<and> \<not> isEmptyMarkPair (v_doc v) (tn_from n) (tn_to n)) ns,
          act_list = li_mode (lineListInfo text),
          act_link = list_ex (\<lambda>n. tn_name n = js ''Link'') ns,
          act_headingLevel = Option.bind (HEADING_LINE text) toToolbarHeadingLevel\<rparr>)"

definition isCommandActive :: "ActiveFormatState \<Rightarrow> EditorCommandId \<Rightarrow> bool" where
  "isCommandActive active id' \<longleftrightarrow>
     (case id' of
        paragraph_id \<Rightarrow> act_headingLevel active = None
      | heading1 \<Rightarrow> act_headingLevel active = Some 1
      | heading2 \<Rightarrow> act_headingLevel active = Some 2
      | heading3 \<Rightarrow> act_headingLevel active = Some 3
      | MarkId c \<Rightarrow> c \<in> set (act_marks active)
      | codeBlock \<Rightarrow> act_codeBlock active
      | ListId c \<Rightarrow> act_list active = Some c
      | link \<Rightarrow> act_link active)"

section \<open>Insertion of blocks\<close>

definition blockPad :: "jsstr \<Rightarrow> jsstr \<Rightarrow> jsstr \<times> jsstr" where
  "blockPad before after =
     (if before = [] \<or> endsWith before [10, 10] then [] else if endsWith before [10] then [10] else [10, 10],
      if after = [] \<or> startsWith after [10, 10] then [] else if startsWith after [10] then [10] else [10, 10])"

definition insertMarkdown :: "view \<Rightarrow> jsstr \<Rightarrow> transaction option" where
  "insertMarkdown v markdown =
     (if markdown = [] then None
      else case blockPad (take (v_head v) (v_doc v)) (drop (v_head v) (v_doc v)) of
             (prefix, suffix) \<Rightarrow>
               (let ins = prefix @ markdown @ suffix
                in Some \<lparr>tr_changes = [change (v_head v) (v_head v) ins], tr_selection = SelectionAt (v_head v + length ins) (v_head v + length ins)\<rparr>))"

definition setMarkdown :: "view \<Rightarrow> jsstr \<Rightarrow> transaction" where
  "setMarkdown v markdown = \<lparr>tr_changes = [change 0 (length (v_doc v)) markdown], tr_selection = KeepSelection\<rparr>"

definition isEmptyDoc :: "view \<Rightarrow> bool" where "isEmptyDoc v \<longleftrightarrow> trim (v_doc v) = []"

definition setCursor :: "view \<Rightarrow> int \<Rightarrow> transaction" where
  "setCursor v position =
     (let cursor = min (nat position) (length (v_doc v)) in \<lparr>tr_changes = [], tr_selection = SelectionAt cursor cursor\<rparr>)"

section \<open>Changes of lines\<close>

text \<open>A transaction's changes, applied to the text they were computed from.\<close>

definition apply_changes :: "jsstr \<Rightarrow> MarkdownEdit list \<Rightarrow> jsstr" where
  "apply_changes doc cs = splice doc 0 (sort_key edit_start cs)"

text \<open>A change of one line: its index, a range inside it and the text that replaces the range.\<close>

type_synonym line_change = "nat \<times> nat \<times> nat \<times> jsstr"

fun line_offset :: "jsstr list \<Rightarrow> nat \<Rightarrow> nat" where
  "line_offset [] j = 0"
| "line_offset (l # ls) 0 = 0"
| "line_offset (l # ls) (Suc j) = length l + 1 + line_offset ls j"

definition place :: "jsstr list \<Rightarrow> line_change \<Rightarrow> MarkdownEdit" where
  "place ls c = (case c of (j, a, b, ins) \<Rightarrow> change (line_offset ls j + a) (line_offset ls j + b) ins)"

definition edit_line :: "line_change \<Rightarrow> jsstr \<Rightarrow> jsstr" where
  "edit_line c l = (case c of (j, a, b, ins) \<Rightarrow> take a l @ ins @ drop b l)"

definition line_changes_ok :: "jsstr list \<Rightarrow> line_change list \<Rightarrow> bool" where
  "line_changes_ok ls cs \<longleftrightarrow> sorted_wrt (\<lambda>c d. fst c < fst d) cs
     \<and> (\<forall>(j, a, b, ins) \<in> set cs. j < length ls \<and> a \<le> b \<and> b \<le> length (ls ! j))"

fun rewrite :: "jsstr list \<Rightarrow> line_change list \<Rightarrow> jsstr list" where
  "rewrite [] cs = []"
| "rewrite (l # ls) cs =
     (case cs of
        (0, a, b, ins) # cs' \<Rightarrow> edit_line (0, a, b, ins) l # rewrite ls (map (\<lambda>(j, c). (j - 1, c)) cs')
      | _ \<Rightarrow> l # rewrite ls (map (\<lambda>(j, c). (j - 1, c)) cs))"

lemma splice_advance:
  assumes "pos \<le> mid" "es = [] \<or> mid \<le> edit_start (hd es)"
  shows "splice s pos es = slice s pos mid @ splice s mid es"
proof (cases es)
  case Nil
  have "drop pos s = take (mid - pos) (drop pos s) @ drop (mid - pos) (drop pos s)" by (rule append_take_drop_id [symmetric])
  with Nil assms(1) show ?thesis by (simp add: slice_def)
next
  case (Cons e es')
  then show ?thesis using assms slice_append [of pos mid "edit_start e" s] by simp
qed

lemma splice_shift: "splice (P @ s) (length P + pos) (map (\<lambda>e. e\<lparr>edit_start := length P + edit_start e, edit_end := length P + edit_end e\<rparr>) es) = splice s pos es"
  by (induction es arbitrary: pos) (simp_all add: slice_def)

text \<open>Changes behind a first line \<open>l\<close>, seen from the lines after it.\<close>

lemma place_later:
  assumes "0 < j"
  shows "place (l # ls) (j, a, b, ins) =
    (let e = place ls (j - 1, a, b, ins) in e\<lparr>edit_start := length (l @ [10]) + edit_start e, edit_end := length (l @ [10]) + edit_end e\<rparr>)"
  using assms by (cases j) (simp_all add: place_def)

lemma splice_rewrite:
  assumes "ls \<noteq> []" "line_changes_ok ls cs"
  shows "splice (join [10] ls) 0 (map (place ls) cs) = join [10] (rewrite ls cs)"
  using assms
proof (induction ls arbitrary: cs)
  case (Cons l ls)
  define later where "later cs = map (\<lambda>(j, c). (j - 1, c)) cs" for cs :: "line_change list"
  have rest: "splice (join [10] (l # ls)) (length l + 1) (map (place (l # ls)) cs') = join [10] (rewrite ls (later cs'))"
    if ls: "ls \<noteq> []" and cs': "line_changes_ok (l # ls) cs'" "\<And>c. c \<in> set cs' \<Longrightarrow> 0 < fst c" for cs'
  proof -
    have "line_changes_ok ls (later cs')"
      using cs' unfolding line_changes_ok_def later_def
      by (auto simp: sorted_wrt_map nth_Cons' elim!: sorted_wrt_mono_rel [rotated]) fastforce+
    then have "splice (join [10] ls) 0 (map (place ls) (later cs')) = join [10] (rewrite ls (later cs'))" using Cons.IH ls by blast
    moreover have "map (place (l # ls)) cs' =
        map (\<lambda>e. e\<lparr>edit_start := length (l @ [10]) + edit_start e, edit_end := length (l @ [10]) + edit_end e\<rparr>) (map (place ls) (later cs'))"
      using cs'(2) place_later by (auto simp: later_def Let_def)
    moreover have "join [10] (l # ls) = (l @ [10]) @ join [10] ls" using ls by (cases ls) simp_all
    ultimately show ?thesis using splice_shift [of "l @ [10]" "join [10] ls" 0 "map (place ls) (later cs')"] by simp
  qed
  have start: "length l + 1 \<le> edit_start (place (l # ls) c)" if "0 < fst c" for c
    using that place_later [of "fst c" l ls] by (cases c) (auto simp: Let_def)
  have s: "join [10] (l # ls) = l @ [10] @ join [10] ls" if "ls \<noteq> []" using that by (cases ls) simp_all
  have sorted: "sorted_wrt (\<lambda>c d. fst c < fst d) cs" using Cons.prems(2) by (simp add: line_changes_ok_def)
  have none: "ds = []" if "ls = []" "line_changes_ok (l # ls) ds" "\<And>c. c \<in> set ds \<Longrightarrow> 0 < fst c" for ds
  proof (cases ds)
    case (Cons c r)
    then have "0 < fst c" using that(3) by simp
    moreover have "fst c < 1" using that(1,2) Cons by (cases c) (auto simp: line_changes_ok_def)
    ultimately show ?thesis by simp
  qed simp
  show ?case
  proof (cases "cs \<noteq> [] \<and> fst (hd cs) = 0")
    case True
    then obtain a b ins cs' where cs: "cs = (0, a, b, ins) # cs'" by (cases cs) auto
    have ab: "a \<le> b" "b \<le> length l" using Cons.prems(2) by (auto simp: cs line_changes_ok_def)
    have pos: "0 < fst c" if "c \<in> set cs'" for c using that sorted by (auto simp: cs)
    have ok': "line_changes_ok (l # ls) cs'" using Cons.prems(2) by (auto simp: cs line_changes_ok_def)
    have first: "place (l # ls) (0, a, b, ins) = change a b ins" by (simp add: place_def)
    show ?thesis
    proof (cases "ls = []")
      case True
      have "cs' = []" using none [OF True ok' pos] .
      with True ab show ?thesis by (simp add: cs place_def edit_line_def slice_def)
    next
      case False
      have "splice (join [10] (l # ls)) b (map (place (l # ls)) cs') =
          slice (join [10] (l # ls)) b (length l + 1) @ splice (join [10] (l # ls)) (length l + 1) (map (place (l # ls)) cs')"
        using ab start [of "hd cs'"] pos [of "hd cs'"] by (intro splice_advance) (cases cs'; simp)+
      moreover have "slice (join [10] (l # ls)) b (length l + 1) = drop b l @ [10]" using ab s [OF False] by (simp add: slice_def)
      moreover have "slice (join [10] (l # ls)) 0 a = take a l" using ab s [OF False] by (simp add: slice_def)
      moreover have "rewrite ls (later cs') \<noteq> []" using False by (cases ls) (auto split: list.split nat.split)
      then have "join [10] (edit_line (0, a, b, ins) l # rewrite ls (later cs')) = edit_line (0, a, b, ins) l @ [10] @ join [10] (rewrite ls (later cs'))"
        by (cases "rewrite ls (later cs')") simp_all
      ultimately show ?thesis using rest [OF False ok' pos] by (simp add: cs first edit_line_def later_def del: join.simps)
    qed
  next
    case False
    have pos: "0 < fst c" if "c \<in> set cs" for c using that sorted False by (cases cs) auto
    have rw: "rewrite (l # ls) cs = l # rewrite ls (later cs)"
      using False by (auto simp: later_def split: list.split nat.split)
    show ?thesis
    proof (cases "ls = []")
      case True
      have "cs = []" using none [OF True Cons.prems(2) pos] .
      with True show ?thesis by simp
    next
      case False
      have "splice (join [10] (l # ls)) 0 (map (place (l # ls)) cs) =
          slice (join [10] (l # ls)) 0 (length l + 1) @ splice (join [10] (l # ls)) (length l + 1) (map (place (l # ls)) cs)"
        using start [of "hd cs"] pos [of "hd cs"] by (intro splice_advance) (cases cs; simp)+
      moreover have "slice (join [10] (l # ls)) 0 (length l + 1) = l @ [10]" using s [OF False] by (simp add: slice_def)
      moreover have "rewrite ls (later cs) \<noteq> []" using False by (cases ls) (auto split: list.split nat.split)
      then have "join [10] (l # rewrite ls (later cs)) = l @ [10] @ join [10] (rewrite ls (later cs))"
        by (cases "rewrite ls (later cs)") simp_all
      ultimately show ?thesis using rest [OF False Cons.prems(2) pos] rw by (simp del: join.simps)
    qed
  qed
qed simp


lemma length_rewrite [simp]: "length (rewrite ls cs) = length ls"
  by (induction ls arbitrary: cs) (auto split: list.split nat.split)

definition change_at :: "line_change list \<Rightarrow> nat \<Rightarrow> line_change option" where
  "change_at cs i = List.find (\<lambda>c. fst c = i) cs"

lemma change_at_later:
  "(\<And>c. c \<in> set cs \<Longrightarrow> 0 < fst c) \<Longrightarrow>
   change_at (map (\<lambda>(j, c). (j - 1, c)) cs) i = map_option (\<lambda>(j, c). (j - 1, c)) (change_at cs (Suc i))"
proof (induction cs)
  case (Cons c cs)
  moreover have "0 < fst c" using Cons.prems [of c] by simp
  ultimately show ?case by (cases c) (auto simp: change_at_def)
qed (simp add: change_at_def)

lemma rewrite_nth:
  assumes "line_changes_ok ls cs" "i < length ls"
  shows "rewrite ls cs ! i = (case change_at cs i of None \<Rightarrow> ls ! i | Some c \<Rightarrow> edit_line c (ls ! i))"
  using assms
proof (induction ls arbitrary: cs i)
  case (Cons l ls)
  define later where "later cs = map (\<lambda>(j, c). (j - 1, c)) cs" for cs :: "line_change list"
  have ok: "line_changes_ok ls (later cs')" if "line_changes_ok (l # ls) cs'" "\<And>c. c \<in> set cs' \<Longrightarrow> 0 < fst c" for cs'
    using that unfolding line_changes_ok_def later_def
    by (auto simp: sorted_wrt_map nth_Cons' elim!: sorted_wrt_mono_rel [rotated]) fastforce+
  have edit: "edit_line (case c of (j, d) \<Rightarrow> (j - Suc 0, d)) x = edit_line c x" for c x
    by (cases c) (simp add: edit_line_def)
  have step: "rewrite ls (later cs') ! k = (case change_at cs' (Suc k) of None \<Rightarrow> ls ! k | Some c \<Rightarrow> edit_line c (ls ! k))"
    if "line_changes_ok (l # ls) cs'" "\<And>c. c \<in> set cs' \<Longrightarrow> 0 < fst c" "k < length ls" for cs' k
    using Cons.IH [OF ok [OF that(1,2)] that(3)] change_at_later [OF that(2), where i = k]
    by (cases "change_at cs' (Suc k)") (simp_all add: later_def edit)
  have sorted: "sorted_wrt (\<lambda>c d. fst c < fst d) cs" using Cons.prems(1) by (simp add: line_changes_ok_def)
  show ?case
  proof (cases "cs \<noteq> [] \<and> fst (hd cs) = 0")
    case True
    then obtain a b ins cs' where cs: "cs = (0, a, b, ins) # cs'" by (cases cs) auto
    have "line_changes_ok (l # ls) cs'" "\<And>c. c \<in> set cs' \<Longrightarrow> 0 < fst c"
      using Cons.prems(1) sorted by (auto simp: cs line_changes_ok_def)
    from step [OF this] Cons.prems(2) show ?thesis by (cases i) (auto simp: cs later_def change_at_def split: option.split)
  next
    case False
    have pos: "0 < fst c" if "c \<in> set cs" for c using that sorted False by (cases cs) auto
    have "rewrite (l # ls) cs = l # rewrite ls (later cs)" using False by (auto simp: later_def split: list.split nat.split)
    moreover have "change_at cs 0 = None" using pos unfolding change_at_def find_None_iff by (metis less_numeral_extra(3))
    ultimately show ?thesis using step [OF Cons.prems(1) pos] Cons.prems(2) by (cases i) (auto split: option.split)
  qed
qed simp

text \<open>Line-wise changes of a text: applied together they rewrite the lines one by one.\<close>

lemma place_mono:
  assumes "line_changes_ok ls cs"
  shows "sorted (map edit_start (map (place ls) cs))"
proof -
  have off: "line_offset ls i + length (ls ! i) < line_offset ls j" if "i < j" "j < length ls" for i j
    using that
  proof (induction ls i arbitrary: j rule: line_offset.induct)
    case (2 l ls)
    then show ?case by (cases j) auto
  next
    case (3 l ls i)
    then show ?case by (cases j) auto
  qed simp
  have "sorted_wrt (\<lambda>c d. edit_start (place ls c) \<le> edit_start (place ls d)) cs"
  proof (rule sorted_wrt_mono_rel)
    show "sorted_wrt (\<lambda>c d. fst c < fst d) cs" using assms by (simp add: line_changes_ok_def)
    fix c d
    assume cd: "c \<in> set cs" "d \<in> set cs" "fst c < fst d"
    obtain j a b ins j' a' b' ins' where "c = (j, a, b, ins)" "d = (j', a', b', ins')" by (cases c; cases d)
    with cd assms off [of j j'] show "edit_start (place ls c) \<le> edit_start (place ls d)"
      by (fastforce simp: line_changes_ok_def place_def)
  qed
  then show ?thesis by (simp add: sorted_wrt_map)
qed

lemma apply_line_changes:
  assumes ok: "line_changes_ok (split_on 10 doc) cs" and ins: "\<And>j a b ins. (j, a, b, ins) \<in> set cs \<Longrightarrow> 10 \<notin> set ins"
  shows "split_on 10 (apply_changes doc (map (place (split_on 10 doc)) cs)) = rewrite (split_on 10 doc) cs"
proof -
  let ?L = "split_on 10 doc"
  have "apply_changes doc (map (place ?L) cs) = join [10] (rewrite ?L cs)"
    using place_mono [OF ok] splice_rewrite [OF _ ok] by (simp add: apply_changes_def sort_key_id_if_sorted join_split)
  moreover have "10 \<notin> set w" if w: "w \<in> set (rewrite ?L cs)" for w
  proof -
    obtain i where i: "i < length ?L" "w = rewrite ?L cs ! i" using w unfolding in_set_conv_nth by auto
    then have "10 \<notin> set (?L ! i)" using split_on_parts [of "?L ! i" 10 doc] nth_mem [of i ?L] by blast
    moreover have "10 \<notin> set (edit_line c (?L ! i))" if "change_at cs i = Some c" for c
    proof -
      obtain j a b ins where c: "c = (j, a, b, ins)" by (cases c)
      then have "(j, a, b, ins) \<in> set cs" using that by (auto simp: change_at_def find_Some_iff)
      with ins \<open>10 \<notin> set (?L ! i)\<close> show ?thesis unfolding c by (auto simp: edit_line_def dest: in_set_takeD in_set_dropD)
    qed
    ultimately show ?thesis unfolding i(2) rewrite_nth [OF ok i(1)] by (cases "change_at cs i") simp_all
  qed
  moreover have "rewrite ?L cs \<noteq> []" using length_rewrite [of ?L cs] split_on_nonempty [of 10 doc] by (cases "rewrite ?L cs") auto
  ultimately show ?thesis by (simp add: split_join)
qed

section \<open>Toggling lists\<close>

lemma number_lines_nth:
  "j < length ls \<Longrightarrow> number_lines n off ls ! j = \<lparr>ln_number = n + j, ln_from = off + line_offset ls j, ln_text = ls ! j\<rparr>"
proof (induction n off ls arbitrary: j rule: number_lines.induct)
  case (2 n off t ts)
  then show ?case by (cases j) simp_all
qed simp

lemma number_lines_length [simp]: "length (number_lines n off ls) = length ls"
  by (induction n off ls rule: number_lines.induct) simp_all

definition is_line :: "jsstr \<Rightarrow> line \<Rightarrow> bool" where
  "is_line doc l \<longleftrightarrow> (\<exists>j < length (split_on 10 doc).
     l = \<lparr>ln_number = Suc j, ln_from = line_offset (split_on 10 doc) j, ln_text = split_on 10 doc ! j\<rparr>)"

lemma doc_lines_is_line: "l \<in> set (doc_lines doc) \<Longrightarrow> is_line doc l"
  unfolding in_set_conv_nth by (auto simp: doc_lines_def number_lines_nth is_line_def)

lemma doc_line_is_line:
  assumes "1 \<le> n" "n \<le> length (split_on 10 doc)"
  shows "is_line doc (doc_line doc n)" "ln_number (doc_line doc n) = n"
  using assms by (cases n; auto simp: is_line_def doc_line_def doc_lines_def number_lines_nth)+

lemma lineAt_is_line: "is_line doc (lineAt doc pos)"
proof -
  obtain t ts where "split_on 10 doc = t # ts" by (meson neq_Nil_conv split_on_nonempty)
  then have "filter (\<lambda>l. ln_from l \<le> pos) (doc_lines doc) \<noteq> []" by (simp add: doc_lines_def)
  from last_in_set [OF this] show ?thesis unfolding lineAt_def by (intro doc_lines_is_line) auto
qed

lemma selected_lines:
  "sorted_wrt (<) (selectedLineNumbers v)" "n \<in> set (selectedLineNumbers v) \<Longrightarrow> 1 \<le> n \<and> n \<le> length (split_on 10 (v_doc v))"
proof -
  show "sorted_wrt (<) (selectedLineNumbers v)" by (simp add: selectedLineNumbers_def strict_sorted_iff)
  assume "n \<in> set (selectedLineNumbers v)"
  then obtain r where "n \<in> set [ln_number (lineAt (v_doc v) (fst r))..<Suc (ln_number (lineAt (v_doc v) (snd r)))]"
    by (auto simp: selectedLineNumbers_def split_beta simp del: set_upt)
  with lineAt_is_line [of "v_doc v" "fst r"] lineAt_is_line [of "v_doc v" "snd r"]
  show "1 \<le> n \<and> n \<le> length (split_on 10 (v_doc v))" by (auto simp: is_line_def)
qed

lemma listTargets_lines:
  "l \<in> set (listTargets v) \<Longrightarrow> is_line (v_doc v) l" "sorted_wrt (\<lambda>l m. ln_number l < ln_number m) (listTargets v)"
proof -
  let ?ls = "map (doc_line (v_doc v)) (selectedLineNumbers v)"
  have sub: "listTargets v = ?ls \<or> listTargets v = filter (\<lambda>l. trim (ln_text l) \<noteq> []) ?ls" by (auto simp: listTargets_def Let_def)
  then show "l \<in> set (listTargets v) \<Longrightarrow> is_line (v_doc v) l"
    using selected_lines(2) [where v = v] doc_line_is_line by (auto split: if_splits)
  have "sorted_wrt (\<lambda>l m. ln_number l < ln_number m) ?ls"
    unfolding sorted_wrt_map
    by (rule sorted_wrt_mono_rel [OF _ selected_lines(1)]) (use selected_lines(2) [where v = v] doc_line_is_line(2) in auto)
  then show "sorted_wrt (\<lambda>l m. ln_number l < ln_number m) (listTargets v)" using sub by (auto intro: sorted_wrt_filter)
qed

text \<open>A line is its indentation, a marker and a content that does not start with white space.\<close>

abbreviation indentation :: "jsstr \<Rightarrow> jsstr" where "indentation s \<equiv> takeWhile isWhiteSpace s"

lemma blank_run: "indentation (drop (n + length (indentation (drop n s))) s) = []"
proof -
  have "indentation (dropWhile isWhiteSpace xs) = []" for xs by (induction xs) auto
  moreover have "drop (n + length (indentation (drop n s))) s = dropWhile isWhiteSpace (drop n s)"
    by (metis add.commute drop_drop dropWhile_eq_drop)
  ultimately show ?thesis by simp
qed

lemma blank_run_bound: "n \<le> length s \<Longrightarrow> n + length (indentation (drop n s)) \<le> length s"
  using length_takeWhile_le [of isWhiteSpace "drop n s"] by simp

lemma BULLET_parts:
  assumes "BULLET_LINE s = Some (a, n)"
  shows "a = length (indentation s) \<and> a < n \<and> n \<le> length s \<and> indentation (drop n s) = []"
proof -
  have n: "a = length (indentation s)" "drop a s \<noteq> []" "n = Suc a + length (indentation (drop (Suc a) s))"
    using assms by (auto simp: BULLET_LINE_def Let_def drop_Suc tl_drop split: if_splits)
  then have "Suc a \<le> length s" by simp
  with n blank_run [of "Suc a" s] blank_run_bound [of "Suc a" s] show ?thesis by simp
qed

lemma TASK_parts:
  assumes "TASK_LINE s = Some (a, n)"
  shows "a = length (indentation s) \<and> a < n \<and> n \<le> length s \<and> indentation (drop n s) = []"
proof -
  obtain m where m: "BULLET_LINE s = Some (a, m)" "checkboxAt (drop m s)" "n = m + 3 + length (indentation (drop (m + 3) s))"
    using assms by (auto simp: TASK_LINE_def Let_def split: option.splits if_splits)
  have "m + 3 \<le> length s" using m(2) by (auto simp: checkboxAt_def)
  with m(3) BULLET_parts [OF m(1)] blank_run [of "m + 3" s] blank_run_bound [of "m + 3" s] show ?thesis by simp
qed

lemma ORDERED_parts:
  assumes "ORDERED_LINE s = Some (a, n)"
  shows "a = length (indentation s) \<and> a < n \<and> n \<le> length s \<and> indentation (drop n s) = []"
proof -
  obtain m where m: "a = length (indentation s)" "orderedMarker (drop a s) = Some m" "n = a + m + length (indentation (drop (a + m) s))"
    using assms by (auto simp: ORDERED_LINE_def Let_def split: option.splits if_splits)
  have "0 < m" "m \<le> length (drop a s)" using m(2) by (auto simp: orderedMarker_def charAt_def Let_def split: if_splits)
  then have "a < a + m" "a + m \<le> length s" by auto
  with m(1,3) blank_run [of "a + m" s] blank_run_bound [of "a + m" s] show ?thesis by simp
qed

lemma lead_indentation: "leadingWhitespace s = length (indentation s)"
  by (metis add_diff_cancel_right' leadingWhitespace_def length_append takeWhile_dropWhile_id trimStart_def)

lemma lineListInfo_parts:
  "li_indent (lineListInfo s) = length (indentation s) \<and> li_indent (lineListInfo s) \<le> li_markerEnd (lineListInfo s)
   \<and> li_markerEnd (lineListInfo s) \<le> length s \<and> indentation (drop (li_markerEnd (lineListInfo s)) s) = []"
proof -
  consider a n where "TASK_LINE s = Some (a, n)" | a n where "TASK_LINE s = None" "BULLET_LINE s = Some (a, n)"
    | a n where "TASK_LINE s = None" "BULLET_LINE s = None" "ORDERED_LINE s = Some (a, n)"
    | "TASK_LINE s = None" "BULLET_LINE s = None" "ORDERED_LINE s = None" by (metis not_None_eq surj_pair)
  then show ?thesis
  proof cases
    case 1
    with TASK_parts [OF 1] show ?thesis by (auto simp: lineListInfo_def)
  next
    case 2
    with BULLET_parts [OF 2(2)] show ?thesis by (auto simp: lineListInfo_def)
  next
    case 3
    with ORDERED_parts [OF 3(3)] show ?thesis by (auto simp: lineListInfo_def)
  next
    case 4
    with blank_run [of 0 s] show ?thesis by (simp add: lineListInfo_def lead_indentation length_takeWhile_le)
  qed
qed

text \<open>What the toggle makes of a line.\<close>

definition newMarker :: "ListCommand \<Rightarrow> nat \<Rightarrow> jsstr" where
  "newMarker c i = (if c = orderedList then dec (i + 1) @ js ''. '' else LIST_MARKERS c)"

definition newLine :: "ListCommand \<Rightarrow> bool \<Rightarrow> nat \<Rightarrow> jsstr \<Rightarrow> jsstr" where
  "newLine c allOn i s =
     (if allOn then indentation s @ drop (li_markerEnd (lineListInfo s)) s
      else if li_mode (lineListInfo s) = Some c then s
      else indentation s @ newMarker c i @ drop (li_markerEnd (lineListInfo s)) s)"

lemma indentation_marked: "m \<noteq> [] \<Longrightarrow> \<not> isWhiteSpace (hd m) \<Longrightarrow> indentation (indentation s @ m) = indentation s"
proof -
  assume "m \<noteq> []" "\<not> isWhiteSpace (hd m)"
  then have "indentation m = []" by (cases m) auto
  moreover have "\<forall>c \<in> set (indentation s). isWhiteSpace c" by (auto dest: set_takeWhileD)
  ultimately show ?thesis by (simp add: takeWhile_append)
qed

lemma marked_modes:
  assumes rest: "indentation r = []"
  shows "li_mode (lineListInfo (indentation s @ newMarker c i @ r)) = Some c
    \<or> c = bulletList \<and> li_mode (lineListInfo (indentation s @ newMarker c i @ r)) = Some taskList"
proof -
  let ?w = "indentation s"
  have space: "indentation (32 # r) = [32]" using rest by (simp add: isWhiteSpace_def)
  show ?thesis
  proof (cases c)
    case bulletList
    have "BULLET_LINE (?w @ 45 # 32 # r) = Some (length ?w, length ?w + 2)"
      using indentation_marked [of "45 # 32 # r" s] space by (simp add: BULLET_LINE_def isBullet_def isWhiteSpace_def Let_def)
    then show ?thesis using bulletList by (auto simp: newMarker_def LIST_MARKERS_def js_def lineListInfo_def split: option.split)
  next
    case taskList
    have "BULLET_LINE (?w @ 45 # 32 # 91 # 32 # 93 # 32 # r) = Some (length ?w, length ?w + 2)"
      using indentation_marked [of "45 # 32 # 91 # 32 # 93 # 32 # r" s] by (simp add: BULLET_LINE_def isBullet_def isWhiteSpace_def Let_def)
    then have "TASK_LINE (?w @ 45 # 32 # 91 # 32 # 93 # 32 # r) = Some (length ?w, length ?w + 6)"
      using space by (simp add: TASK_LINE_def checkboxAt_def isCheck_def Let_def)
    then show ?thesis using taskList by (simp add: newMarker_def LIST_MARKERS_def js_def lineListInfo_def)
  next
    case orderedList
    let ?d = "dec (i + 1)" and ?t = "dec (i + 1) @ 46 # 32 # r"
    have digit: "isDigit (hd ?d)" using dec_digits [of "i + 1"] dec_nonempty [of "i + 1"] by (cases "dec (i + 1)") auto
    then have hd: "\<not> isWhiteSpace (hd ?t)" "\<not> isBullet (hd ?t)"
      by (simp_all add: isDigit_def isWhiteSpace_def isBullet_def)
    have ind: "indentation (?w @ ?t) = ?w" using indentation_marked [of ?t s] hd by simp
    then have none: "BULLET_LINE (?w @ ?t) = None" using hd by (simp add: BULLET_LINE_def Let_def)
    have "takeWhile isDigit ?t = ?d" using dec_digits [of "i + 1"] by (simp add: takeWhile_append2 list_all_iff isDigit_def)
    then have "orderedMarker ?t = Some (Suc (length ?d))" by (simp add: orderedMarker_def charAt_def nth_append)
    then have "ORDERED_LINE (?w @ ?t) = Some (length ?w, length ?w + Suc (length ?d) + 1)"
      using ind space by (simp add: ORDERED_LINE_def Let_def)
    with none show ?thesis using orderedList by (simp add: newMarker_def js_def lineListInfo_def TASK_LINE_def)
  qed
qed


lemma newMarker_plain: "10 \<notin> set (newMarker c i)"
proof -
  have "\<forall>d \<in> set (dec (i + 1)). d \<noteq> 10" using dec_digits [of "i + 1"] by (auto simp: list_all_iff isDigit_def)
  then show ?thesis by (cases c) (auto simp: newMarker_def LIST_MARKERS_def js_def)
qed

text \<open>The changes of the toggle as changes of lines.\<close>

definition listTouched :: "ListCommand \<Rightarrow> bool \<Rightarrow> nat \<times> line \<Rightarrow> bool" where
  "listTouched c allOn e \<longleftrightarrow> allOn \<or> li_mode (lineListInfo (ln_text (snd e))) \<noteq> Some c"

definition listChange :: "ListCommand \<Rightarrow> bool \<Rightarrow> nat \<times> line \<Rightarrow> line_change" where
  "listChange c allOn e =
     (ln_number (snd e) - 1, li_indent (lineListInfo (ln_text (snd e))), li_markerEnd (lineListInfo (ln_text (snd e))),
      if allOn then [] else newMarker c (fst e))"

lemma listSpec_place:
  assumes "is_line doc l"
  shows "listSpec c allOn i l = (if listTouched c allOn (i, l) then [place (split_on 10 doc) (listChange c allOn (i, l))] else [])"
  using assms by (auto simp: is_line_def listSpec_def listTouched_def listChange_def place_def newMarker_def Let_def)

lemma listSpecs_place:
  "(\<And>e. e \<in> set es \<Longrightarrow> is_line doc (snd e)) \<Longrightarrow>
   concat (map (\<lambda>(i, l). listSpec c allOn i l) es) = map (place (split_on 10 doc)) (map (listChange c allOn) (filter (listTouched c allOn) es))"
proof (induction es)
  case (Cons e es)
  have "is_line doc (snd e)" using Cons.prems by simp
  then show ?case using Cons.IH Cons.prems listSpec_place [of doc "snd e" c allOn "fst e"] by (simp add: split_beta)
qed simp

lemma listChanges_ok:
  assumes es: "\<And>e. e \<in> set es \<Longrightarrow> is_line doc (snd e)" and sorted: "sorted_wrt (\<lambda>e f. ln_number (snd e) < ln_number (snd f)) es"
  shows "line_changes_ok (split_on 10 doc) (map (listChange c allOn) es)"
  unfolding line_changes_ok_def
proof
  have "sorted_wrt (\<lambda>e f. fst (listChange c allOn e) < fst (listChange c allOn f)) es"
    by (rule sorted_wrt_mono_rel [OF _ sorted]) (use es in \<open>fastforce simp: is_line_def listChange_def\<close>)
  then show "sorted_wrt (\<lambda>c d. fst c < fst d) (map (listChange c allOn) es)" by (simp add: sorted_wrt_map)
  show "\<forall>(j, a, b, ins) \<in> set (map (listChange c allOn) es). j < length (split_on 10 doc) \<and> a \<le> b \<and> b \<le> length (split_on 10 doc ! j)"
  proof
    fix d
    assume "d \<in> set (map (listChange c allOn) es)"
    then obtain e where "d = listChange c allOn e" "is_line doc (snd e)" using es by auto
    then show "case d of (j, a, b, ins) \<Rightarrow> j < length (split_on 10 doc) \<and> a \<le> b \<and> b \<le> length (split_on 10 doc ! j)"
      using lineListInfo_parts [of "ln_text (snd e)"] by (auto simp: is_line_def listChange_def)
  qed
qed

lemma listChange_line:
  assumes "is_line doc (snd e)" "listTouched c allOn e"
  shows "edit_line (listChange c allOn e) (split_on 10 doc ! (ln_number (snd e) - 1)) = newLine c allOn (fst e) (ln_text (snd e))"
proof -
  have "take (li_indent (lineListInfo (ln_text (snd e)))) (ln_text (snd e)) = indentation (ln_text (snd e))"
    using lineListInfo_parts [of "ln_text (snd e)"] by (metis takeWhile_eq_take)
  moreover have "split_on 10 doc ! (ln_number (snd e) - 1) = ln_text (snd e)" using assms(1) by (auto simp: is_line_def)
  ultimately show ?thesis using assms(2) by (auto simp: listChange_def edit_line_def newLine_def listTouched_def)
qed

lemma change_at_map:
  assumes "sorted_wrt (\<lambda>e f. fst (f' e) < fst (f' f)) es" "e \<in> set es"
  shows "change_at (map f' es) (fst (f' e)) = Some (f' e)"
  using assms by (induction es) (auto simp: change_at_def)

lemma change_at_absent: "i \<notin> fst ` set cs \<Longrightarrow> change_at cs i = None"
  by (force simp: change_at_def find_None_iff)

lemma enumerate_snd: "e \<in> set (enumerate n xs) \<Longrightarrow> snd e \<in> set xs"
  by (metis imageI list.set_map map_snd_enumerate)

lemma toggled_lines:
  assumes t: "toggleListLine v c = Some t" and allOn: "allOn = list_all (\<lambda>l. li_mode (lineListInfo (ln_text l)) = Some c) (listTargets v)"
    and es_def: "es = filter (listTouched c allOn) (enumerate 0 (listTargets v))"
  shows "split_on 10 (apply_changes (v_doc v) (tr_changes t)) = rewrite (split_on 10 (v_doc v)) (map (listChange c allOn) es)"
    and "line_changes_ok (split_on 10 (v_doc v)) (map (listChange c allOn) es)"
    and "sorted_wrt (\<lambda>e f. fst (listChange c allOn e) < fst (listChange c allOn f)) es"
    and "\<And>e. e \<in> set (enumerate 0 (listTargets v)) \<Longrightarrow> is_line (v_doc v) (snd e)"
proof -
  let ?E = "enumerate 0 (listTargets v)"
  show lines: "is_line (v_doc v) (snd e)" if "e \<in> set ?E" for e
    using enumerate_snd [OF that] by (rule listTargets_lines(1))
  have "sorted_wrt (\<lambda>l m. ln_number l < ln_number m) (map snd ?E)" unfolding map_snd_enumerate by (rule listTargets_lines(2))
  then have sorted: "sorted_wrt (\<lambda>e f. ln_number (snd e) < ln_number (snd f)) es"
    unfolding sorted_wrt_map es_def by (rule sorted_wrt_filter)
  have es: "is_line (v_doc v) (snd e)" if "e \<in> set es" for e using that lines by (simp add: es_def)
  show ok: "line_changes_ok (split_on 10 (v_doc v)) (map (listChange c allOn) es)" by (rule listChanges_ok [OF es sorted])
  then show "sorted_wrt (\<lambda>e f. fst (listChange c allOn e) < fst (listChange c allOn f)) es"
    by (simp add: line_changes_ok_def sorted_wrt_map)
  have "tr_changes t = concat (map (\<lambda>(i, l). listSpec c allOn i l) ?E)"
    using t by (auto simp: toggleListLine_def Let_def allOn split: if_splits)
  also have "\<dots> = map (place (split_on 10 (v_doc v))) (map (listChange c allOn) es)" unfolding es_def by (rule listSpecs_place [OF lines])
  finally have changes: "tr_changes t = map (place (split_on 10 (v_doc v))) (map (listChange c allOn) es)" .
  show "split_on 10 (apply_changes (v_doc v) (tr_changes t)) = rewrite (split_on 10 (v_doc v)) (map (listChange c allOn) es)"
    unfolding changes by (rule apply_line_changes [OF ok]) (auto simp: listChange_def newMarker_plain split: if_splits)
qed

lemma newLine_mode:
  assumes "\<not> allOn"
  shows "li_mode (lineListInfo (newLine c allOn i s)) = Some c
    \<or> c = bulletList \<and> li_mode (lineListInfo (newLine c allOn i s)) = Some taskList"
  using assms marked_modes [of "drop (li_markerEnd (lineListInfo s)) s" s c i] lineListInfo_parts [of s] by (auto simp: newLine_def)



definition one_line :: view where
  "one_line = \<lparr>v_doc = js ''a'', v_anchor = 0, v_head = 0, v_ranges = [(0, 0)], ancestors = (\<lambda>_ _. [])\<rparr>"

lemma one_line_targets: "listTargets one_line = [\<lparr>ln_number = 1, ln_from = 0, ln_text = js ''a''\<rparr>]"
  by (simp add: listTargets_def selectedLineNumbers_def one_line_def lineAt_def doc_line_def doc_lines_def js_def Let_def upt_rec)


section \<open>Nesting and headings\<close>

lemma LIST_PREFIX_deep: "LIST_PREFIX s = Some n \<Longrightarrow> length (indentation s) < n"
  by (auto simp: LIST_PREFIX_def Let_def split: option.splits if_splits)

text \<open>The new indentation of a nested item is greater than the old one, or the item stays.\<close>

lemma reindented_indent:
  assumes "LIST_ITEM s = Some a"
  shows "indentation (reindented doc n s k) = replicate k 32"
proof -
  have blank: "\<forall>c \<in> set (replicate k 32). isWhiteSpace c" by (simp add: isWhiteSpace_def)
  show ?thesis
  proof (cases "ORDERED_ITEM s")
    case (Some oi)
    let ?t = "dec (nextOrderedNumber doc n k) @ [oi_delimiter oi] @ oi_spaces oi @ oi_content oi"
    have "indentation ?t = []"
      using dec_digits [of "nextOrderedNumber doc n k"] dec_nonempty [of "nextOrderedNumber doc n k"]
      by (cases "dec (nextOrderedNumber doc n k)") (auto simp: isDigit_def isWhiteSpace_def)
    then show ?thesis using blank Some by (simp add: reindented_def takeWhile_append)
  next
    case None
    have "indentation (drop (leadingWhitespace s) s) = []" using blank_run [of 0 s] by (simp add: lead_indentation)
    then show ?thesis using blank None by (simp add: reindented_def takeWhile_append)
  qed
qed

lemma sinkChanges_indent:
  assumes "sinkChanges doc ns = Some cs" "e \<in> set cs"
  shows "\<exists>n \<in> set ns. \<exists>k. edit_start e = ln_from (doc_line doc n) \<and> edit_end e = ln_to (doc_line doc n)
    \<and> indentation (replacement e) = replicate k 32 \<and> k > length (indentation (ln_text (doc_line doc n)))"
  using assms
proof (induction ns arbitrary: cs)
  case (Cons n ns)
  then obtain a cs' where a: "LIST_ITEM (ln_text (doc_line doc n)) = Some a" "sinkChanges doc ns = Some cs'"
    by (auto simp: Let_def split: option.splits)
  have ind: "a = length (indentation (ln_text (doc_line doc n)))"
    using a(1) by (auto simp: LIST_ITEM_def Let_def split: option.splits if_splits)
  consider "e \<in> set cs'"
    | "sinkTarget doc n a > a" "e = change (ln_from (doc_line doc n)) (ln_to (doc_line doc n)) (reindented doc n (ln_text (doc_line doc n)) (sinkTarget doc n a))"
    using Cons.prems a by (auto simp: Let_def split: if_splits)
  then show ?case
  proof cases
    case 1
    then show ?thesis using Cons.IH [OF a(2)] by auto
  next
    case 2
    then show ?thesis using reindented_indent [OF a(1)] ind by auto
  qed
qed simp

lemma heading_set:
  assumes "level \<le> 6" "1 \<le> level"
  shows "HEADING_LINE (replicate level 35 @ [32] @ drop (HEADING_PREFIX s) s) = Some level"
proof -
  have "takeWhile (\<lambda>c. c = 35) (replicate level 35 @ 32 # r) = replicate level 35" for r :: jsstr by (simp add: takeWhile_append)
  moreover have "headingSpaces (replicate level 35 @ 32 # r) = 0" for r using assms(2) by (cases level) (simp_all add: headingSpaces_def)
  ultimately show ?thesis using assms by (simp add: HEADING_LINE_def isWhiteSpace_def Let_def)
qed

lemma blockPad_blank:
  assumes "blockPad b a = (p, q)"
  shows "(b @ p = [] \<or> endsWith (b @ p) [10, 10]) \<and> (q @ a = [] \<or> startsWith (q @ a) [10, 10])"
proof
  show "b @ p = [] \<or> endsWith (b @ p) [10, 10]" using assms by (auto simp: blockPad_def endsWith_def split: if_splits)
  show "q @ a = [] \<or> startsWith (q @ a) [10, 10]" using assms by (cases a) (auto simp: blockPad_def startsWith_def split: if_splits)
qed

text \<open>Inserted Markdown is a block of its own: the text before it is empty or ends in a blank line, and the text after it is
  empty or starts with one.\<close>

lemma insertMarkdown_block:
  assumes "insertMarkdown v md = Some t" "v_head v \<le> length (v_doc v)"
  shows "\<exists>p q. apply_changes (v_doc v) (tr_changes t) = p @ md @ q \<and> (p = [] \<or> endsWith p [10, 10]) \<and> (q = [] \<or> startsWith q [10, 10])"
proof -
  let ?b = "take (v_head v) (v_doc v)" and ?a = "drop (v_head v) (v_doc v)"
  obtain p q where pq: "blockPad ?b ?a = (p, q)" by (cases "blockPad ?b ?a")
  then have "apply_changes (v_doc v) (tr_changes t) = (?b @ p) @ md @ (q @ ?a)"
    using assms by (auto simp: insertMarkdown_def Let_def apply_changes_def slice_def split: if_splits)
  with blockPad_blank [OF pq] show ?thesis by blast
qed

end
