(* ===== verification/Autolinks.thy ===== *)
theory Autolinks
  imports JS_Prelude
begin

text \<open>
  Autolinks in a memo's source: written URLs (\<^verbatim>\<open>web/src/utils/gfm-url.ts\<close>), e-mail addresses
  (\<^verbatim>\<open>web/src/utils/gfm-email.ts\<close>), character references and escapes
  (\<^verbatim>\<open>web/src/utils/markdown-source-boundaries.ts\<close>) and resolved links (\<^verbatim>\<open>web/src/utils/markdown-link.ts\<close>). The Unicode
  classes, the decoder of character references and the Markdown parsers are arguments.
\<close>

section \<open>The Markdown libraries\<close>

text \<open>A Lezer syntax node with its children, and an mdast node with the offsets of its position.\<close>

datatype source_node = SourceNode (node_name: string) (node_from: nat) (node_to: nat) (node_children: "source_node list")

datatype mdast = Mdast (mdast_type: string) (mdast_start: "nat option") (mdast_end: "nat option") (mdast_children: "mdast list")

text \<open>\<open>alphanumeric\<close> and \<open>separator\<close> are the classes \<open>[\p{L}\p{N}]\<close> and \<open>\p{Z}\<close>; \<open>parseSource\<close> is \<open>sourceParser.parse(s).topNode\<close>.\<close>

record markdown_lib =
  alphanumeric :: "nat \<Rightarrow> bool"
  separator :: "nat \<Rightarrow> bool"
  decodeString :: "jsstr \<Rightarrow> jsstr"
  normalizeLabelIdentifier :: "jsstr \<Rightarrow> jsstr"
  fromMarkdown :: "jsstr \<Rightarrow> mdast"
  parseSource :: "jsstr \<Rightarrow> source_node"

section \<open>Character references and escapes\<close>

definition isASCIIPunctuation :: "code_unit \<Rightarrow> bool" where
  "isASCIIPunctuation c \<longleftrightarrow> 33 \<le> c \<and> c \<le> 47 \<or> 58 \<le> c \<and> c \<le> 64 \<or> 91 \<le> c \<and> c \<le> 96 \<or> 123 \<le> c \<and> c \<le> 126"

definition isHex :: "code_unit \<Rightarrow> bool" where
  "isHex c \<longleftrightarrow> isDigit c \<or> 65 \<le> c \<and> c \<le> 70 \<or> 97 \<le> c \<and> c \<le> 102"

text \<open>A run of one to \<open>hi\<close> characters of a class, closed by a semicolon: the length with the semicolon.\<close>

definition closedRun :: "(code_unit \<Rightarrow> bool) \<Rightarrow> nat \<Rightarrow> jsstr \<Rightarrow> nat option" where
  "closedRun P hi s =
     (let n = length (takeWhile P s) in if 1 \<le> n \<and> n \<le> hi \<and> charAt s n = Some 59 then Some (Suc n) else None)"

definition CHARACTER_REFERENCE_AT_START :: "jsstr \<Rightarrow> nat option" where
  "CHARACTER_REFERENCE_AT_START s =
     (case s of
        [] \<Rightarrow> None
      | c # r \<Rightarrow>
          if c \<noteq> 38 then None
          else (case r of
                  [] \<Rightarrow> None
                | d # r1 \<Rightarrow>
                    if d = 35
                    then (case closedRun isDigit 7 r1 of
                            Some n \<Rightarrow> Some (n + 2)
                          | None \<Rightarrow> (case r1 of
                              [] \<Rightarrow> None
                            | x # r2 \<Rightarrow> if x = 120 \<or> x = 88 then map_option (\<lambda>n. n + 3) (closedRun isHex 6 r2) else None))
                    else map_option Suc (closedRun isAsciiAlnum 31 r)))"

definition decodedMarkdownCharacterReferenceAt :: "(jsstr \<Rightarrow> jsstr) \<Rightarrow> jsstr \<Rightarrow> nat \<Rightarrow> nat \<Rightarrow> (nat \<times> jsstr) option" where
  "decodedMarkdownCharacterReferenceAt decode source from to =
     (if charAt source from \<noteq> Some 38 then None
      else case CHARACTER_REFERENCE_AT_START (slice source from (min to (from + 35))) of
             None \<Rightarrow> None
           | Some n \<Rightarrow>
               (let spelling = slice source from (from + n); v = decode spelling
                in if v = spelling then None else Some (from + n, v)))"

lemma closedRun_bounds: "closedRun P hi s = Some n \<Longrightarrow> 2 \<le> n \<and> n \<le> length s"
  by (auto simp: closedRun_def charAt_def Let_def split: if_splits)

lemma CHARACTER_REFERENCE_bounds: "CHARACTER_REFERENCE_AT_START s = Some n \<Longrightarrow> 0 < n \<and> n \<le> length s"
  by (auto simp: CHARACTER_REFERENCE_AT_START_def split: list.splits if_splits option.splits dest!: closedRun_bounds)

lemma reference_progress: "decodedMarkdownCharacterReferenceAt decode source from to = Some (e, v) \<Longrightarrow> from < e \<and> e \<le> to \<and> e \<le> length source"
  by (auto simp: decodedMarkdownCharacterReferenceAt_def Let_def slice_def split: if_splits option.splits dest!: CHARACTER_REFERENCE_bounds)

datatype boundary_type = Entity | Escape

definition isEscapeAt :: "jsstr \<Rightarrow> nat \<Rightarrow> nat \<Rightarrow> bool" where
  "isEscapeAt source cursor to \<longleftrightarrow>
     charAt source cursor = Some 92 \<and> cursor + 1 < to \<and> (case charAt source (cursor + 1) of None \<Rightarrow> False | Some c \<Rightarrow> isASCIIPunctuation c)"

definition stepSize :: "jsstr \<Rightarrow> nat \<Rightarrow> nat" where
  "stepSize source cursor = (case code_point_at source cursor of None \<Rightarrow> 1 | Some v \<Rightarrow> if v > 65535 then 2 else 1)"

function boundaryLoop :: "(jsstr \<Rightarrow> jsstr) \<Rightarrow> jsstr \<Rightarrow> nat \<Rightarrow> nat \<Rightarrow> ((nat \<times> nat) \<times> boundary_type) list" where
  "boundaryLoop decode source cursor to =
     (if cursor < to then
        (if isEscapeAt source cursor to then ((cursor, cursor + 2), Escape) # boundaryLoop decode source (cursor + 2) to
         else case decodedMarkdownCharacterReferenceAt decode source cursor to of
                Some (e, v) \<Rightarrow> ((cursor, e), Entity) # boundaryLoop decode source e to
              | None \<Rightarrow> boundaryLoop decode source (cursor + stepSize source cursor) to)
      else [])"
  by pat_completeness auto
termination
  by (relation "measure (\<lambda>(d, s, c, t). t - c)") (auto simp: stepSize_def split: option.splits dest!: reference_progress)

declare boundaryLoop.simps [simp del]

definition findDecodedMarkdownSourceBoundaries :: "(jsstr \<Rightarrow> jsstr) \<Rightarrow> jsstr \<Rightarrow> nat \<Rightarrow> nat \<Rightarrow> ((nat \<times> nat) \<times> boundary_type) list" where
  "findDecodedMarkdownSourceBoundaries decode source from to = boundaryLoop decode source from to"

section \<open>E-mail addresses\<close>

definition isLocalChar :: "code_unit \<Rightarrow> bool" where
  "isLocalChar c \<longleftrightarrow> isAsciiAlnum c \<or> c = 46 \<or> c = 95 \<or> c = 43 \<or> c = 45"

definition isLabelChar :: "code_unit \<Rightarrow> bool" where
  "isLabelChar c \<longleftrightarrow> isAsciiAlnum c \<or> c = 95 \<or> c = 45"

text \<open>The decoded text of a run: every code unit with the range of the source it comes from.\<close>

partial_function (option) projectLoop ::
  "(jsstr \<Rightarrow> jsstr) \<Rightarrow> jsstr \<Rightarrow> nat \<Rightarrow> (code_unit \<times> nat \<times> nat) list \<Rightarrow> nat \<Rightarrow> (code_unit \<times> nat \<times> nat) list option" where
  "projectLoop decode source upperBound acc cursor =
     (if cursor < upperBound then
        (if isEscapeAt source cursor upperBound
         then projectLoop decode source upperBound (acc @ [(source ! (cursor + 1), cursor, cursor + 2)]) (cursor + 2)
         else case decodedMarkdownCharacterReferenceAt decode source cursor upperBound of
                Some r \<Rightarrow> projectLoop decode source upperBound (acc @ map (\<lambda>c. (c, cursor, fst r)) (snd r)) (fst r)
              | None \<Rightarrow>
                  (let ch = (case code_point_at source cursor of None \<Rightarrow> [] | Some p \<Rightarrow> fromCodePoint p)
                   in projectLoop decode source upperBound (acc @ map (\<lambda>c. (c, cursor, cursor + length ch)) ch) (cursor + length ch)))
      else Some acc)"

definition projectEmailText :: "(jsstr \<Rightarrow> jsstr) \<Rightarrow> jsstr \<Rightarrow> nat \<Rightarrow> nat \<Rightarrow> (code_unit \<times> nat \<times> nat) list option" where
  "projectEmailText decode source lowerBound upperBound = projectLoop decode source upperBound [] lowerBound"

text \<open>\<open>/^@(?:[A-Za-z0-9_-]+\.)+[A-Za-z0-9_-]*[A-Za-z0-9]/\<close>: the greedy match is the longest one, the longest part of the run of
  dotted labels that contains a dot and ends in a letter or digit.\<close>

fun labelRun :: "bool \<Rightarrow> jsstr \<Rightarrow> jsstr" where
  "labelRun inLabel [] = []"
| "labelRun inLabel (c # r) =
     (if isLabelChar c then c # labelRun True r else if c = 46 \<and> inLabel then c # labelRun False r else [])"

definition DOMAIN_AT_START :: "jsstr \<Rightarrow> nat option" where
  "DOMAIN_AT_START s =
     (case s of
        [] \<Rightarrow> None
      | c # r \<Rightarrow>
          if c \<noteq> 64 then None
          else let run = labelRun False r;
                   ends = filter (\<lambda>n. 46 \<in> set (take n run) \<and> isAsciiAlnum (run ! n)) [0..<length run]
               in if ends = [] then None else Some (last ends + 2))"

definition localStart :: "jsstr \<Rightarrow> nat \<Rightarrow> nat \<Rightarrow> nat" where
  "localStart source at lowerBound = at - length (takeWhile isLocalChar (rev (slice source lowerBound at)))"

definition matchEmailAt :: "jsstr \<Rightarrow> nat \<Rightarrow> nat \<Rightarrow> nat \<Rightarrow> (nat \<times> nat \<times> jsstr) option" where
  "matchEmailAt source at lowerBound upperBound =
     (let start = localStart source at lowerBound
      in if start = at then None
         else case DOMAIN_AT_START (slice source at upperBound) of
                None \<Rightarrow> None
              | Some n \<Rightarrow>
                  (let end' = at + n
                   in if end' < upperBound \<and> (charAt source end' = Some 45 \<or> charAt source end' = Some 95) then None
                      else Some (start, end', slice source start end')))"

definition atSign :: "jsstr \<Rightarrow> nat \<Rightarrow> nat option" where
  "atSign s cursor = List.find (\<lambda>i. s ! i = 64) [cursor..<length s]"

lemma DOMAIN_pos: "DOMAIN_AT_START s = Some n \<Longrightarrow> 0 < n"
  by (auto simp: DOMAIN_AT_START_def Let_def split: list.splits if_splits)

lemma matchEmail_progress: "matchEmailAt s at lo hi = Some (a, b, v) \<Longrightarrow> at < b"
  by (auto simp: matchEmailAt_def Let_def split: if_splits option.splits dest!: DOMAIN_pos)

lemma atSign_Some: "atSign s cursor = Some i \<Longrightarrow> cursor \<le> i \<and> i < length s \<and> s ! i = 64"
  by (auto simp: atSign_def find_Some_iff)

function emailLoop :: "jsstr \<Rightarrow> nat \<Rightarrow> (nat \<times> nat \<times> jsstr) list" where
  "emailLoop s cursor =
     (if cursor < length s then
        (case atSign s cursor of
           None \<Rightarrow> []
         | Some at \<Rightarrow>
             (case matchEmailAt s at cursor (length s) of
                None \<Rightarrow> emailLoop s (at + 1)
              | Some (a, b, v) \<Rightarrow> (a, b, v) # emailLoop s b))
      else [])"
  by pat_completeness auto
termination
  by (relation "measure (\<lambda>(s, c). length s - c)") (auto dest!: atSign_Some matchEmail_progress)

declare emailLoop.simps [simp del]

definition findGFMEmailMatches :: "(jsstr \<Rightarrow> jsstr) \<Rightarrow> jsstr \<Rightarrow> nat \<Rightarrow> nat \<Rightarrow> (nat \<times> nat \<times> jsstr) list option" where
  "findGFMEmailMatches decode source lowerBound upperBound =
     map_option
       (\<lambda>projection. map (\<lambda>(a, b, v). (fst (snd (projection ! a)), snd (snd (projection ! (b - 1))), v)) (emailLoop (map fst projection) 0))
       (projectEmailText decode source lowerBound upperBound)"

definition isGFMEmailURLSource :: "jsstr \<Rightarrow> bool" where
  "isGFMEmailURLSource source \<longleftrightarrow>
     64 \<in> set source \<and> \<not> (startsWith source (js ''http://'') \<or> startsWith source (js ''https://'') \<or> startsWith source (js ''www.''))"

section \<open>Written URLs\<close>

definition TRAILING_PUNCTUATION :: "code_unit set" where
  "TRAILING_PUNCTUATION = {33, 34, 39, 42, 44, 46, 58, 59, 63, 95, 126}"

definition prefixEnd :: "jsstr \<Rightarrow> nat \<Rightarrow> nat option" where
  "prefixEnd source from =
     (if startsWithAt source (js ''https://'') from then Some (from + 8)
      else if startsWithAt source (js ''http://'') from then Some (from + 7)
      else if startsWithAt source (js ''www.'') from then Some (from + 4)
      else None)"

definition pointAt :: "jsstr \<Rightarrow> nat \<Rightarrow> nat" where
  "pointAt source i = (case code_point_at source i of None \<Rightarrow> 0 | Some p \<Rightarrow> p)"

definition domainCharacterSize :: "markdown_lib \<Rightarrow> jsstr \<Rightarrow> nat \<Rightarrow> nat" where
  "domainCharacterSize M source off =
     (let p = pointAt source off
      in if p = 95 \<or> p = 45 \<or> p = 46 \<or> alphanumeric M p then length (fromCodePoint p) else 0)"

definition hasValidDomain :: "jsstr \<Rightarrow> nat \<Rightarrow> nat \<Rightarrow> bool" where
  "hasValidDomain source from to \<longleftrightarrow>
     (let domain = rev (dropWhile (\<lambda>c. c = 46) (rev (slice source from to))); segments = split_on 46 domain; n = length segments
      in n \<ge> 2 \<and> list_all (\<lambda>s. s \<noteq> []) segments \<and> 95 \<notin> set (segments ! (n - 2)) \<and> 95 \<notin> set (segments ! (n - 1)))"

text \<open>\<open>/&[A-Za-z]+;$/\<close>\<close>

definition entityLength :: "jsstr \<Rightarrow> nat option" where
  "entityLength s =
     (case rev s of
        [] \<Rightarrow> None
      | c # r \<Rightarrow> if c = 59 then let n = length (takeWhile isAsciiAlpha r)
                               in if 1 \<le> n \<and> charAt r n = Some 38 then Some (n + 2) else None
                 else None)"

lemma entityLength_bounds: "entityLength s = Some n \<Longrightarrow> 3 \<le> n \<and> n \<le> length s \<and> s ! (length s - n) = 38"
proof -
  assume "entityLength s = Some n"
  then obtain r k where r: "rev s = 59 # r" "n = k + 2" "1 \<le> k" "charAt r k = Some 38"
    by (auto simp: entityLength_def Let_def split: list.splits if_splits)
  then have s: "s = rev r @ [59]" by (metis rev.simps(2) rev_rev_ident)
  have "k < length r" "r ! k = 38" using r(4) by (auto simp: charAt_def split: if_splits)
  then show ?thesis using r(2,3) by (simp add: s nth_append rev_nth)
qed

function trimLoop :: "jsstr \<Rightarrow> nat \<Rightarrow> nat \<Rightarrow> nat \<Rightarrow> nat \<Rightarrow> nat" where
  "trimLoop source from to opened closed =
     (if to > from then
        (case entityLength (slice source from to) of
           Some n \<Rightarrow> trimLoop source from (to - n) opened closed
         | None \<Rightarrow>
             (let c = charAt source (to - 1)
              in if c = Some 41 \<and> closed > opened then trimLoop source from (to - 1) opened (closed - 1)
                 else if c = Some 93 \<or> c \<in> Some ` TRAILING_PUNCTUATION then trimLoop source from (to - 1) opened closed
                 else to))
      else to)"
  by pat_completeness auto
termination
  by (relation "measure (\<lambda>(s, f, t, x, y). t)") (auto dest!: entityLength_bounds)

declare trimLoop.simps [simp del]

definition trimGFMURLTail :: "jsstr \<Rightarrow> nat \<Rightarrow> nat \<Rightarrow> nat" where
  "trimGFMURLTail source from to =
     (let path = slice source from to
      in trimLoop source from to (length (filter (\<lambda>c. c = 40) path)) (length (filter (\<lambda>c. c = 41) path)))"

function domainLoop :: "markdown_lib \<Rightarrow> jsstr \<Rightarrow> nat \<Rightarrow> nat \<Rightarrow> nat" where
  "domainLoop M source domainTo upperBound =
     (if domainTo < upperBound \<and> domainCharacterSize M source domainTo \<noteq> 0
      then domainLoop M source (domainTo + domainCharacterSize M source domainTo) upperBound else domainTo)"
  by pat_completeness auto
termination
  by (relation "measure (\<lambda>(M, s, d, u). u - d)") auto

declare domainLoop.simps [simp del]

definition endsURL :: "markdown_lib \<Rightarrow> jsstr \<Rightarrow> nat \<Rightarrow> bool" where
  "endsURL M source to \<longleftrightarrow>
     charAt source to = Some 60 \<or> (case charAt source to of None \<Rightarrow> False | Some c \<Rightarrow> 9 \<le> c \<and> c \<le> 13) \<or> separator M (pointAt source to)"

function urlLoop :: "markdown_lib \<Rightarrow> jsstr \<Rightarrow> nat \<Rightarrow> nat \<Rightarrow> nat" where
  "urlLoop M source to upperBound =
     (if to < upperBound \<and> \<not> endsURL M source to
      then urlLoop M source (to + length (fromCodePoint (pointAt source to))) upperBound else to)"
  by pat_completeness auto
termination
  by (relation "measure (\<lambda>(M, s, d, u). u - d)") (auto simp: fromCodePoint_length)

declare urlLoop.simps [simp del]

definition writtenGFMURLSourceRange :: "markdown_lib \<Rightarrow> jsstr \<Rightarrow> nat \<Rightarrow> nat \<Rightarrow> (nat \<times> nat) option" where
  "writtenGFMURLSourceRange M source from upperBound =
     (case prefixEnd source from of
        None \<Rightarrow> None
      | Some domainFrom \<Rightarrow>
          if domainFrom \<ge> upperBound then None
          else let domainTo = domainLoop M source domainFrom upperBound
               in if \<not> hasValidDomain source domainFrom domainTo then None
                  else Some (from, trimGFMURLTail source from (urlLoop M source domainTo upperBound)))"

definition isWrittenGFMURLSource :: "markdown_lib \<Rightarrow> jsstr \<Rightarrow> bool" where
  "isWrittenGFMURLSource M source \<longleftrightarrow> map_option snd (writtenGFMURLSourceRange M source 0 (length source)) = Some (length source)"

definition hasWrittenURLBoundary :: "jsstr \<Rightarrow> nat \<Rightarrow> nat \<Rightarrow> bool \<Rightarrow> bool" where
  "hasWrittenURLBoundary source from contextFrom allowInitialBOM \<longleftrightarrow>
     from = contextFrom
     \<or> (allowInitialBOM \<and> contextFrom = 0 \<and> from = 1 \<and> charAt source 0 = Some 65279)
     \<or> (case charAt source (from - 1) of
          None \<Rightarrow> False
        | Some c \<Rightarrow> from \<noteq> 0 \<and> (9 \<le> c \<and> c \<le> 13 \<or> c = 32 \<or> c = 40 \<or> c = 42 \<or> c = 95 \<or> c = 126))"

definition writtenGFMURLSourceRangeAt :: "markdown_lib \<Rightarrow> jsstr \<Rightarrow> nat \<Rightarrow> nat \<Rightarrow> nat \<Rightarrow> bool \<Rightarrow> (nat \<times> nat) option" where
  "writtenGFMURLSourceRangeAt M source from contextFrom upperBound allowInitialBOM =
     (if \<not> hasWrittenURLBoundary source from contextFrom allowInitialBOM then None
      else writtenGFMURLSourceRange M source from upperBound)"

lemma pointAt_size: "i < length s \<Longrightarrow> js_string s \<Longrightarrow> i + length (fromCodePoint (pointAt s i)) \<le> length s"
  by (auto simp: pointAt_def code_point_at_def fromCodePoint_length code_unit_bound)

lemma prefixEnd_Some:
  assumes "prefixEnd s from = Some d"
  shows "from < d \<and> from < length s \<and> d \<le> length s \<and> s ! from \<in> {104, 119}"
proof -
  have key: "from < length s \<and> from + length p \<le> length s \<and> s ! from = hd p" if p: "startsWithAt s p from" "p \<noteq> []" for p
  proof -
    have t: "take (length p) (drop from s) = p" using p(1) by (simp add: startsWithAt_def startsWith_def)
    then have "length p \<le> length s - from" by (metis length_drop length_take min.cobounded2 min.commute)
    then have l: "from < length s" "from + length p \<le> length s" using p(2) by (cases p; auto)+
    have "hd p = hd (take (length p) (drop from s))" using t by simp
    also have "\<dots> = s ! from" using p(2) l(1) by (simp add: hd_drop_conv_nth hd_take)
    finally show ?thesis using l by simp
  qed
  show ?thesis
    using assms key [of "js ''https://''"] key [of "js ''http://''"] key [of "js ''www.''"]
    by (auto simp: prefixEnd_def js_def split: if_splits)
qed

lemma trimLoop_progress:
  assumes "lo < to" "lo < length s" "s ! lo \<in> {104, 119}"
  shows "lo < trimLoop s lo to p q \<and> trimLoop s lo to p q \<le> to"
  using assms
proof (induction s lo to p q rule: trimLoop.induct)
  case (1 source lo to opened closed)
  have ent: "lo < to - n" if e: "entityLength (slice source lo to) = Some n" for n
  proof -
    have b: "3 \<le> n" "n \<le> length (slice source lo to)" "slice source lo to ! (length (slice source lo to) - n) = 38"
      using entityLength_bounds [OF e] by auto
    have "n \<noteq> length (slice source lo to)"
    proof
      assume "n = length (slice source lo to)"
      then have "source ! lo = 38" using b "1.prems" by (simp add: slice_def)
      then show False using "1.prems" by simp
    qed
    then have "n < length (slice source lo to)" using b(2) by simp
    then show ?thesis by (auto simp: slice_def)
  qed
  have one: "lo < to - 1" if "charAt source (to - 1) \<in> Some ` ({41, 93} \<union> TRAILING_PUNCTUATION)"
    using that "1.prems" by (cases "to - 1 = lo") (auto simp: charAt_def TRAILING_PUNCTUATION_def)
  show ?case
  proof (cases "entityLength (slice source lo to)")
    case (Some n)
    then show ?thesis using "1.IH"(3) [OF "1.prems"(1) Some ent [OF Some]] "1.prems" by (subst (1 2) trimLoop.simps) auto
  next
    case None
    then show ?thesis
      using "1.IH"(1) [OF "1.prems"(1) None refl] "1.IH"(2) [OF "1.prems"(1) None refl] one "1.prems"
      by (subst (1 2) trimLoop.simps) (auto simp: Let_def)
  qed
qed

lemma domainLoop_ge: "d \<le> domainLoop M s d u"
  by (induction M s d u rule: domainLoop.induct) (subst domainLoop.simps, auto)

lemma urlLoop_ge: "d \<le> urlLoop M s d u"
  by (induction M s d u rule: urlLoop.induct) (subst urlLoop.simps, auto)

lemma written_progress:
  assumes "writtenGFMURLSourceRange M s from u = Some (a, b)"
  shows "a = from \<and> from < b"
proof -
  obtain d where d: "prefixEnd s from = Some d" "a = from" "b = trimGFMURLTail s from (urlLoop M s (domainLoop M s d u) u)"
    using assms by (auto simp: writtenGFMURLSourceRange_def Let_def split: option.splits if_splits)
  have "from < urlLoop M s (domainLoop M s d u) u"
    using prefixEnd_Some [OF d(1)] domainLoop_ge [of d M s u] urlLoop_ge [of "domainLoop M s d u" M s u] by simp
  then show ?thesis using trimLoop_progress prefixEnd_Some [OF d(1)] d(2,3) by (simp add: trimGFMURLTail_def Let_def)
qed

lemma written_at_progress: "writtenGFMURLSourceRangeAt M s from cf u bom = Some r \<Longrightarrow> fst r = from \<and> from < snd r"
  by (cases r) (auto simp: writtenGFMURLSourceRangeAt_def dest: written_progress split: if_splits)

text \<open>\<open>dropWhile\<close> is the advance of \<open>opaqueIndex\<close>.\<close>

function urlsLoop ::
  "markdown_lib \<Rightarrow> jsstr \<Rightarrow> nat \<Rightarrow> nat \<Rightarrow> nat \<Rightarrow> bool \<Rightarrow> (nat \<times> nat) list \<Rightarrow> nat \<Rightarrow> (nat \<times> nat) list" where
  "urlsLoop M source lowerBound upperBound contextFrom bom opaqueRanges off =
     (if off < upperBound then
        (let rest = dropWhile (\<lambda>r. snd r \<le> off) opaqueRanges
         in if rest \<noteq> [] \<and> fst (hd rest) \<le> off \<and> snd (hd rest) > off
            then urlsLoop M source lowerBound upperBound contextFrom bom rest (snd (hd rest))
            else case (if off \<ge> lowerBound then writtenGFMURLSourceRangeAt M source off contextFrom upperBound bom else None) of
                   Some r \<Rightarrow> r # urlsLoop M source lowerBound upperBound contextFrom bom rest (snd r)
                 | None \<Rightarrow> urlsLoop M source lowerBound upperBound contextFrom bom rest (off + 1))
      else [])"
  by pat_completeness auto
termination
  by (relation "measure (\<lambda>(M, s, lo, hi, cf, b, os, off). hi - off)") (auto split: if_splits dest!: written_at_progress)

declare urlsLoop.simps [simp del]

definition findWrittenGFMURLRanges ::
  "markdown_lib \<Rightarrow> jsstr \<Rightarrow> nat \<Rightarrow> nat \<Rightarrow> nat \<Rightarrow> (nat \<times> nat) list \<Rightarrow> bool \<Rightarrow> (nat \<times> nat) list" where
  "findWrittenGFMURLRanges M source lowerBound upperBound contextFrom opaqueRanges allowInitialBOM =
     urlsLoop M source lowerBound upperBound contextFrom allowInitialBOM opaqueRanges contextFrom"

section \<open>Correctness of the scanners\<close>

text \<open>\<open>p\<close> is a position of one of the ranges.\<close>

definition covered :: "nat \<Rightarrow> (nat \<times> nat) list \<Rightarrow> bool" where
  "covered p rs \<longleftrightarrow> (\<exists>r \<in> set rs. fst r \<le> p \<and> p < snd r)"

lemma covered_simps [simp]: "\<not> covered p []" "covered p (r # rs) \<longleftrightarrow> fst r \<le> p \<and> p < snd r \<or> covered p rs"
  "covered p (rs @ rs') \<longleftrightarrow> covered p rs \<or> covered p rs'"
  by (auto simp: covered_def)

lemma covered_dropWhile: "off \<le> p \<Longrightarrow> covered p (dropWhile (\<lambda>r. snd r \<le> off) os) = covered p os"
  by (induction os) auto

lemma sorted_dropWhile_fst: "sorted (map fst rs) \<Longrightarrow> sorted (map fst (dropWhile P rs))"
  by (induction rs) auto

lemma not_covered_hd: "sorted (map fst rs) \<Longrightarrow> rs = [] \<or> p < fst (hd rs) \<Longrightarrow> \<not> covered p rs"
  by (cases rs) (auto simp: covered_def)

lemma boundaries_ordered: "cursor \<le> to \<Longrightarrow> ordered_ranges cursor to (map fst (boundaryLoop decode source cursor to))"
proof (induction decode source cursor to rule: boundaryLoop.induct)
  case (1 decode source cursor to)
  have step: "ordered_ranges cursor to (map fst (boundaryLoop decode source (cursor + stepSize source cursor) to))"
    if "cursor < to" "\<not> isEscapeAt source cursor to" "decodedMarkdownCharacterReferenceAt decode source cursor to = None"
  proof (cases "cursor + stepSize source cursor \<le> to")
    case True
    then show ?thesis using "1.IH"(2) [OF that] ordered_ranges_weaken "1.prems" by (meson le_add1)
  next
    case False
    then show ?thesis using "1.prems" by (subst boundaryLoop.simps) simp
  qed
  show ?case
  proof (cases "decodedMarkdownCharacterReferenceAt decode source cursor to")
    case None
    then show ?thesis using "1.IH"(1) step "1.prems" by (subst boundaryLoop.simps) (auto simp: isEscapeAt_def)
  next
    case (Some r)
    obtain e v where r: "r = (e, v)" by fastforce
    show ?thesis
      using "1.IH"(1) "1.IH"(3) [OF _ _ Some r [symmetric]] reference_progress [of decode source cursor to e v] Some r "1.prems"
      by (subst boundaryLoop.simps) (auto simp: isEscapeAt_def)
  qed
qed

definition scan_spec :: "markdown_lib \<Rightarrow> jsstr \<Rightarrow> nat \<Rightarrow> nat \<Rightarrow> nat \<Rightarrow> bool \<Rightarrow> (nat \<times> nat) list \<Rightarrow> nat \<Rightarrow> (nat \<times> nat) list \<Rightarrow> bool" where
  "scan_spec M s lo hi cf bom os off rs \<longleftrightarrow>
     sorted_wrt (\<lambda>r r'. snd r \<le> fst r') rs
     \<and> (\<forall>r \<in> set rs. off \<le> fst r \<and> lo \<le> fst r \<and> fst r < hi
          \<and> writtenGFMURLSourceRangeAt M s (fst r) cf hi bom = Some r \<and> \<not> covered (fst r) os)
     \<and> (\<forall>p. off \<le> p \<and> lo \<le> p \<and> p < hi \<and> writtenGFMURLSourceRangeAt M s p cf hi bom \<noteq> None \<longrightarrow> covered p os \<or> covered p rs)"

lemma scan_spec_advance:
  assumes "scan_spec M s lo hi cf bom rest off' rs" "off \<le> off'"
    "\<And>p. off \<le> p \<Longrightarrow> covered p rest = covered p os"
    "\<And>p. off \<le> p \<Longrightarrow> p < off' \<Longrightarrow> lo \<le> p \<Longrightarrow> writtenGFMURLSourceRangeAt M s p cf hi bom \<noteq> None \<Longrightarrow> covered p os"
  shows "scan_spec M s lo hi cf bom os off rs"
  unfolding scan_spec_def
proof (intro conjI ballI allI impI)
  show "sorted_wrt (\<lambda>r r'. snd r \<le> fst r') rs" using assms(1) by (simp add: scan_spec_def)
  fix r assume "r \<in> set rs"
  then have r: "off' \<le> fst r" "lo \<le> fst r" "fst r < hi" "writtenGFMURLSourceRangeAt M s (fst r) cf hi bom = Some r" "\<not> covered (fst r) rest"
    using assms(1) by (auto simp: scan_spec_def)
  then show "off \<le> fst r" "lo \<le> fst r" "fst r < hi" "writtenGFMURLSourceRangeAt M s (fst r) cf hi bom = Some r" "\<not> covered (fst r) os"
    using assms(2) assms(3) [of "fst r"] by simp_all
next
  fix p assume p: "off \<le> p \<and> lo \<le> p \<and> p < hi \<and> writtenGFMURLSourceRangeAt M s p cf hi bom \<noteq> None"
  then show "covered p os \<or> covered p rs"
    using assms(1) assms(3,4) [of p] by (cases "p < off'") (auto simp: scan_spec_def not_less)
qed

lemma scan_spec_hit:
  assumes "scan_spec M s lo hi cf bom rest (snd r) rs" "fst r = off" "off < hi" "lo \<le> off"
    "writtenGFMURLSourceRangeAt M s off cf hi bom = Some r" "\<not> covered off os"
    "\<And>p. off \<le> p \<Longrightarrow> covered p rest = covered p os"
  shows "scan_spec M s lo hi cf bom os off (r # rs)"
proof -
  have "off < snd r" using written_at_progress [OF assms(5)] by simp
  show ?thesis unfolding scan_spec_def
  proof (intro conjI ballI allI impI)
    show "sorted_wrt (\<lambda>r r'. snd r \<le> fst r') (r # rs)" using assms(1) by (simp add: scan_spec_def)
    fix x assume "x \<in> set (r # rs)"
    then consider "x = r" | "x \<in> set rs" "snd r \<le> fst x" "lo \<le> fst x" "fst x < hi"
        "writtenGFMURLSourceRangeAt M s (fst x) cf hi bom = Some x" "\<not> covered (fst x) rest"
      using assms(1) by (auto simp: scan_spec_def)
    then show "off \<le> fst x" "lo \<le> fst x" "fst x < hi" "writtenGFMURLSourceRangeAt M s (fst x) cf hi bom = Some x" "\<not> covered (fst x) os"
      using assms(2-6) assms(7) [of "fst x"] \<open>off < snd r\<close> by (cases; simp)+
  next
    fix p assume p: "off \<le> p \<and> lo \<le> p \<and> p < hi \<and> writtenGFMURLSourceRangeAt M s p cf hi bom \<noteq> None"
    then show "covered p os \<or> covered p (r # rs)"
      using assms(1,2) assms(7) [of p] by (cases "p < snd r") (auto simp: scan_spec_def not_less)
  qed
qed

lemma urlsLoop_spec:
  "sorted (map fst os) \<Longrightarrow> scan_spec M s lo hi cf bom os off (urlsLoop M s lo hi cf bom os off)"
proof (induction M s lo hi cf bom os off rule: urlsLoop.induct)
  case (1 M s lo hi cf bom os off)
  define rest where "rest = dropWhile (\<lambda>r. snd r \<le> off) os"
  define found where "found = (if lo \<le> off then writtenGFMURLSourceRangeAt M s off cf hi bom else None)"
  have sr: "sorted (map fst rest)" using "1.prems" unfolding rest_def by (rule sorted_dropWhile_fst)
  have cov: "covered p rest = covered p os" if "off \<le> p" for p using that unfolding rest_def by (rule covered_dropWhile)
  have big: "off < snd (hd rest)" if "rest \<noteq> []"
    using hd_dropWhile [of "\<lambda>r. snd r \<le> off" os] that unfolding rest_def by auto
  have free: "\<not> covered off os" if "rest = [] \<or> off < fst (hd rest)" using not_covered_hd [OF sr that] cov by simp
  consider (stop) "\<not> off < hi"
    | (opaque) "off < hi" "rest \<noteq> []" "fst (hd rest) \<le> off"
    | (hit) r where "off < hi" "rest = [] \<or> off < fst (hd rest)" "found = Some r"
    | (miss) "off < hi" "rest = [] \<or> off < fst (hd rest)" "found = None"
    by (metis not_le option.exhaust)
  then show ?case
  proof cases
    case stop
    then show ?thesis by (subst urlsLoop.simps) (auto simp: scan_spec_def)
  next
    case opaque
    have eq: "urlsLoop M s lo hi cf bom os off = urlsLoop M s lo hi cf bom rest (snd (hd rest))"
      using opaque big by (subst urlsLoop.simps) (simp add: rest_def [symmetric])
    have in_hd: "covered p os" if "off \<le> p" "p < snd (hd rest)" for p
      using that opaque cov [of p] by (cases rest) auto
    have ih: "scan_spec M s lo hi cf bom rest (snd (hd rest)) (urlsLoop M s lo hi cf bom rest (snd (hd rest)))"
      using "1.IH"(1) [OF opaque(1) rest_def _ sr] opaque big by blast
    show ?thesis unfolding eq using less_imp_le [OF big [OF opaque(2)]] cov in_hd by (rule scan_spec_advance [OF ih])
  next
    case (hit r)
    have eq: "urlsLoop M s lo hi cf bom os off = r # urlsLoop M s lo hi cf bom rest (snd r)"
      using hit by (subst urlsLoop.simps) (auto simp: rest_def [symmetric] found_def [symmetric] Let_def)
    have r: "lo \<le> off" "writtenGFMURLSourceRangeAt M s off cf hi bom = Some r" using hit(3) by (auto simp: found_def split: if_splits)
    have ih: "scan_spec M s lo hi cf bom rest (snd r) (urlsLoop M s lo hi cf bom rest (snd r))"
      using "1.IH"(3) [OF hit(1) rest_def _ hit(3) [unfolded found_def] sr] hit(2) by (auto simp: not_less)
    have "fst r = off" using written_at_progress [OF r(2)] by simp
    then show ?thesis unfolding eq using hit(1) r free [OF hit(2)] cov by (rule scan_spec_hit [OF ih])
  next
    case miss
    have eq: "urlsLoop M s lo hi cf bom os off = urlsLoop M s lo hi cf bom rest (off + 1)"
      using miss by (subst urlsLoop.simps) (auto simp: rest_def [symmetric] found_def [symmetric] Let_def)
    have none: "lo \<le> off \<Longrightarrow> writtenGFMURLSourceRangeAt M s off cf hi bom = None" using miss(3) by (simp add: found_def)
    have "covered p os" if "off \<le> p" "p < off + 1" "lo \<le> p" "writtenGFMURLSourceRangeAt M s p cf hi bom \<noteq> None" for p
      using that none by (cases "p = off") auto
    note here = this
    have ih: "scan_spec M s lo hi cf bom rest (off + 1) (urlsLoop M s lo hi cf bom rest (off + 1))"
      using "1.IH"(2) [OF miss(1) rest_def _ miss(3) [unfolded found_def] sr] miss(2) by (auto simp: not_less)
    show ?thesis unfolding eq using le_add1 cov here by (rule scan_spec_advance [OF ih])
  qed
qed


section \<open>What the e-mail scanner finds\<close>

definition is_email :: "jsstr \<Rightarrow> bool" where
  "is_email v \<longleftrightarrow>
     (\<exists>l d. v = l @ 64 # d \<and> l \<noteq> [] \<and> list_all isLocalChar l \<and> 46 \<in> set d \<and> isAsciiAlnum (last d) \<and> list_all (\<lambda>c. isLabelChar c \<or> c = 46) d)"

lemma labelRun_prefix: "labelRun b r = take (length (labelRun b r)) r"
  by (induction b r rule: labelRun.induct) auto

lemma labelRun_chars: "list_all (\<lambda>c. isLabelChar c \<or> c = 46) (labelRun b r)"
  by (induction b r rule: labelRun.induct) auto

lemma DOMAIN_Some:
  assumes "DOMAIN_AT_START s = Some n"
  shows "n \<le> length s \<and> (\<exists>d. take n s = 64 # d \<and> 46 \<in> set d \<and> isAsciiAlnum (last d) \<and> list_all (\<lambda>c. isLabelChar c \<or> c = 46) d)"
proof -
  obtain r where s: "s = 64 # r" using assms by (auto simp: DOMAIN_AT_START_def split: list.splits if_splits)
  define run where "run = labelRun False r"
  define es where "es = filter (\<lambda>n. 46 \<in> set (take n run) \<and> isAsciiAlnum (run ! n)) [0..<length run]"
  have e: "es \<noteq> []" "n = last es + 2"
    using assms by (auto simp: DOMAIN_AT_START_def s Let_def run_def es_def split: if_splits)
  then have "last es \<in> set es" by simp
  then have k: "last es < length run" "46 \<in> set (take (last es) run)" "isAsciiAlnum (run ! last es)" by (auto simp: es_def)
  have run: "run = take (length run) r" unfolding run_def by (rule labelRun_prefix)
  then have le: "length run \<le> length r" by (metis length_take min.cobounded1)
  have "take n s = 64 # take (Suc (last es)) run" using k(1) by (subst run) (simp add: s e(2) min_def)
  moreover have "isAsciiAlnum (last (take (Suc (last es)) run))" using k(1,3) by (simp add: take_Suc_conv_app_nth)
  moreover have "46 \<in> set (take (Suc (last es)) run)" using k(1,2) by (simp add: take_Suc_conv_app_nth)
  moreover have "list_all (\<lambda>c. isLabelChar c \<or> c = 46) (take (Suc (last es)) run)"
    using labelRun_chars [of False r] by (auto simp: run_def list_all_iff dest: in_set_takeD)
  ultimately show ?thesis using k(1) le by (simp add: s e(2))
qed

lemma matchEmailAt_Some:
  assumes "matchEmailAt t at lo (length t) = Some (a, b, v)" "lo \<le> at" "at \<le> length t"
  shows "lo \<le> a \<and> a < at \<and> at < b \<and> b \<le> length t \<and> v = slice t a b \<and> is_email v"
proof -
  define k where "k = length (takeWhile isLocalChar (rev (slice t lo at)))"
  obtain n where n: "DOMAIN_AT_START (slice t at (length t)) = Some n" "a = at - k" "a \<noteq> at" "b = at + n" "v = slice t a b"
    using assms(1) by (auto simp: matchEmailAt_def localStart_def Let_def k_def split: if_splits option.splits)
  have k0: "k \<noteq> 0" using n(2,3) by auto
  have "k \<le> length (rev (slice t lo at))" unfolding k_def by (rule length_takeWhile_le)
  then have k: "k \<le> at - lo" using assms(2,3) by (simp add: slice_def)
  obtain d where d: "take n (drop at t) = 64 # d" "46 \<in> set d" "isAsciiAlnum (last d)" "list_all (\<lambda>c. isLabelChar c \<or> c = 46) d"
    and nb: "n \<le> length t - at"
    using DOMAIN_Some [OF n(1)] by (auto simp: slice_def)
  have "n \<noteq> 0" using d(1) by (cases n) auto
  have loc: "slice t a at = rev (takeWhile isLocalChar (rev (slice t lo at)))"
  proof -
    have "takeWhile isLocalChar (rev (slice t lo at)) = take k (rev (slice t lo at))"
      unfolding k_def by (metis takeWhile_eq_take)
    also have "\<dots> = rev (drop (length (slice t lo at) - k) (slice t lo at))" by (simp add: take_rev)
    also have "drop (length (slice t lo at) - k) (slice t lo at) = slice t a at"
      using k assms(2,3) by (simp add: slice_def n(2) drop_take add.commute)
    finally show ?thesis by simp
  qed
  have "v = slice t a at @ slice t at b" using slice_append [of a at b t] n by simp
  also have "slice t at b = 64 # d" using d(1) n(4) by (simp add: slice_def)
  finally have "is_email v" using d(2-4) k0 unfolding is_email_def
    by (intro exI [of _ "slice t a at"] exI [of _ d]) (auto simp: list_all_iff loc k_def dest: set_takeWhileD)
  moreover have "lo \<le> a" "a < at" "at < b" "b \<le> length t" using n k k0 nb \<open>n \<noteq> 0\<close> assms(2,3) by auto
  ultimately show ?thesis using n(5) by blast
qed

lemma emailLoop_sound:
  "(a, b, v) \<in> set (emailLoop t c) \<Longrightarrow> c \<le> a \<and> a < b \<and> b \<le> length t \<and> v = slice t a b \<and> is_email v"
proof (induction t c rule: emailLoop.induct)
  case (1 s cursor)
  have ne: "emailLoop s cursor \<noteq> []" using "1.prems" by auto
  obtain at where at: "cursor < length s" "atSign s cursor = Some at"
  proof (cases "cursor < length s \<and> atSign s cursor \<noteq> None")
    case True
    then show thesis using that by auto
  next
    case False
    then have "emailLoop s cursor = []" by (subst emailLoop.simps) auto
    with ne show thesis by simp
  qed
  note atS = atSign_Some [OF at(2)]
  show ?case
  proof (cases "matchEmailAt s at cursor (length s)")
    case None
    then have "(a, b, v) \<in> set (emailLoop s (at + 1))" using "1.prems" at by (subst (asm) emailLoop.simps) simp
    then show ?thesis using "1.IH"(1) [OF at None] atS by auto
  next
    case (Some m)
    obtain a' b' v' where m: "m = (a', b', v')" by (cases m)
    have first: "cursor \<le> a' \<and> a' < at \<and> at < b' \<and> b' \<le> length s \<and> v' = slice s a' b' \<and> is_email v'"
      by (rule matchEmailAt_Some [OF Some [unfolded m]]) (use atS in auto)
    have "(a, b, v) = (a', b', v') \<or> (a, b, v) \<in> set (emailLoop s b')"
      using "1.prems" at Some m by (subst (asm) emailLoop.simps) simp
    then show ?thesis
    proof
      assume "(a, b, v) = (a', b', v')"
      then have "a = a'" "b = b'" "v = v'" by simp_all
      with first show ?thesis by (metis less_trans)
    next
      assume "(a, b, v) \<in> set (emailLoop s b')"
      from "1.IH"(2) [OF at Some m [symmetric] refl this] first show ?thesis by linarith
    qed
  qed
qed

text \<open>The projection of a run: the start offsets ascend, every character's source range is non-empty and inside the source.\<close>

definition wf_projection :: "nat \<Rightarrow> nat \<Rightarrow> (code_unit \<times> nat \<times> nat) list \<Rightarrow> bool" where
  "wf_projection lo hi ps \<longleftrightarrow>
     sorted_wrt (\<lambda>x y. fst (snd x) \<le> fst (snd y)) ps \<and> (\<forall>x \<in> set ps. lo \<le> fst (snd x) \<and> fst (snd x) < snd (snd x) \<and> snd (snd x) \<le> hi)"

lemma wf_projection_block:
  "wf_projection e hi ps \<Longrightarrow> cursor < e \<Longrightarrow> e \<le> hi \<Longrightarrow> wf_projection cursor hi (map (\<lambda>c. (c, cursor, e)) v @ ps)"
  by (induction v) (auto simp: wf_projection_def)

lemma projectLoop_returns:
  "upper \<le> length s \<Longrightarrow> js_string s \<Longrightarrow> cursor \<le> length s \<Longrightarrow>
   \<exists>ps. projectLoop decode s upper acc cursor = Some (acc @ ps) \<and> wf_projection cursor (length s) ps"
proof (induction "length s - cursor" arbitrary: cursor acc rule: less_induct)
  case less
  have block: ?case
    if step: "\<And>acc. projectLoop decode s upper acc cursor = projectLoop decode s upper (acc @ map (\<lambda>c. (c, cursor, e)) v) e"
      and e: "cursor < e" "e \<le> length s" for e v
  proof -
    obtain ps where "projectLoop decode s upper (acc @ map (\<lambda>c. (c, cursor, e)) v) e = Some ((acc @ map (\<lambda>c. (c, cursor, e)) v) @ ps)"
        "wf_projection e (length s) ps"
      using less.hyps [of e] less.prems e by (metis diff_less_mono2 less_le_trans)
    then show ?thesis using step e wf_projection_block by (metis append.assoc)
  qed
  consider (stop) "\<not> cursor < upper" | (esc) "cursor < upper" "isEscapeAt s cursor upper"
    | (ref) e v where "cursor < upper" "\<not> isEscapeAt s cursor upper" "decodedMarkdownCharacterReferenceAt decode s cursor upper = Some (e, v)"
    | (lit) "cursor < upper" "\<not> isEscapeAt s cursor upper" "decodedMarkdownCharacterReferenceAt decode s cursor upper = None"
    by (metis not_None_eq surj_pair)
  then show ?case
  proof cases
    case stop
    then show ?thesis by (subst projectLoop.simps) (simp add: wf_projection_def)
  next
    case esc
    show ?thesis
    proof (rule block)
      show "projectLoop decode s upper acc cursor = projectLoop decode s upper (acc @ map (\<lambda>c. (c, cursor, cursor + 2)) [s ! (cursor + 1)]) (cursor + 2)" for acc
        using esc by (subst projectLoop.simps) simp
      show "cursor < cursor + 2" "cursor + 2 \<le> length s" using esc less.prems by (auto simp: isEscapeAt_def)
    qed
  next
    case ref
    show ?thesis
    proof (rule block)
      show "projectLoop decode s upper acc cursor = projectLoop decode s upper (acc @ map (\<lambda>c. (c, cursor, e)) v) e" for acc
        using ref by (subst projectLoop.simps) simp
      show "cursor < e" "e \<le> length s" using reference_progress [OF ref(3)] by auto
    qed
  next
    case lit
    obtain p where p: "code_point_at s cursor = Some p" using lit less.prems by (cases "code_point_at s cursor") (auto simp: code_point_at_def split: if_splits)
    show ?thesis
    proof (rule block)
      show "projectLoop decode s upper acc cursor
          = projectLoop decode s upper (acc @ map (\<lambda>c. (c, cursor, cursor + length (fromCodePoint p))) (fromCodePoint p)) (cursor + length (fromCodePoint p))" for acc
        using lit p by (subst projectLoop.simps) (simp add: Let_def)
      show "cursor + length (fromCodePoint p) \<le> length s"
        using pointAt_size [of cursor s] lit less.prems p by (simp add: pointAt_def)
      show "cursor < cursor + length (fromCodePoint p)" by (simp add: fromCodePoint_length)
    qed
  qed
qed


section \<open>The properties\<close>

lemma trimLoop_clean:
  "lo < trimLoop s lo to p q \<Longrightarrow> charAt s (trimLoop s lo to p q - 1) \<notin> Some ` (insert 93 TRAILING_PUNCTUATION)"
proof (induction s lo to p q rule: trimLoop.induct)
  case (1 source lo to opened closed)
  show ?case
  proof (cases "lo < to")
    case False
    then show ?thesis using "1.prems" by (simp add: trimLoop.simps [of source lo to])
  next
    case True
    show ?thesis
    proof (cases "entityLength (slice source lo to)")
      case (Some n)
      then show ?thesis using "1.IH"(3) [OF True Some] "1.prems" True by (simp add: trimLoop.simps [of source lo to])
    next
      case None
      show ?thesis
        using "1.IH"(1,2) [OF True None refl] "1.prems" True None
        by (auto simp: trimLoop.simps [of source lo to] Let_def split: if_splits)
    qed
  qed
qed

lemma written_clean:
  "writtenGFMURLSourceRange M s a u = Some (a', b) \<Longrightarrow> charAt s (b - 1) \<notin> Some ` (insert 93 TRAILING_PUNCTUATION)"
  using written_progress [of M s a u a' b] trimLoop_clean [of a s]
  by (auto simp: writtenGFMURLSourceRange_def trimGFMURLTail_def Let_def split: option.splits if_splits)

definition sample_lib :: markdown_lib where
  "sample_lib =
     \<lparr>alphanumeric = (\<lambda>p. 97 \<le> p \<and> p \<le> 122), separator = (\<lambda>p. p = 32), decodeString = id, normalizeLabelIdentifier = id,
      fromMarkdown = (\<lambda>s. Mdast ''root'' None None []), parseSource = (\<lambda>s. SourceNode ''Document'' 0 (length s) [])\<rparr>"

lemma url_example: "findWrittenGFMURLRanges sample_lib (js ''to www.a.b, c'') 0 13 0 [(0, 2)] True = [(3, 10)]"
  by (simp add: findWrittenGFMURLRanges_def urlsLoop.simps writtenGFMURLSourceRangeAt_def hasWrittenURLBoundary_def js_def charAt_def
      writtenGFMURLSourceRange_def prefixEnd_def startsWithAt_def startsWith_def domainLoop.simps domainCharacterSize_def pointAt_def
      code_point_at_def isHighSurrogate_def sample_lib_def fromCodePoint_def hasValidDomain_def slice_def Let_def urlLoop.simps endsURL_def
      trimGFMURLTail_def trimLoop.simps entityLength_def TRAILING_PUNCTUATION_def)

text \<open>C40. Scanning a run of source text for written URLs always ends. The URLs found are in order and do not overlap; each
  starts, outside the opaque ranges, at a URL prefix behind a boundary and does not end in punctuation; and no place
  where a URL could start is left out, except inside an opaque range or inside a URL already found.\<close>

theorem written_urls_complete:
  assumes "sorted (map fst opaqueRanges)"
  shows "let rs = findWrittenGFMURLRanges M source lowerBound upperBound contextFrom opaqueRanges bom
    in sorted_wrt (\<lambda>r r'. snd r \<le> fst r') rs
      \<and> (\<forall>(a, b) \<in> set rs. contextFrom \<le> a \<and> lowerBound \<le> a \<and> a < upperBound \<and> a < b \<and> \<not> covered a opaqueRanges
           \<and> hasWrittenURLBoundary source a contextFrom bom \<and> prefixEnd source a \<noteq> None
           \<and> charAt source (b - 1) \<notin> Some ` (insert 93 TRAILING_PUNCTUATION))
      \<and> (\<forall>p. contextFrom \<le> p \<and> lowerBound \<le> p \<and> p < upperBound
           \<and> writtenGFMURLSourceRangeAt M source p contextFrom upperBound bom \<noteq> None \<longrightarrow> covered p opaqueRanges \<or> covered p rs)"
proof -
  define rs where "rs = findWrittenGFMURLRanges M source lowerBound upperBound contextFrom opaqueRanges bom"
  have spec: "scan_spec M source lowerBound upperBound contextFrom bom opaqueRanges contextFrom rs"
    unfolding rs_def findWrittenGFMURLRanges_def by (rule urlsLoop_spec [OF assms])
  have one: "contextFrom \<le> a \<and> lowerBound \<le> a \<and> a < upperBound \<and> a < b \<and> \<not> covered a opaqueRanges
           \<and> hasWrittenURLBoundary source a contextFrom bom \<and> prefixEnd source a \<noteq> None
           \<and> charAt source (b - 1) \<notin> Some ` (insert 93 TRAILING_PUNCTUATION)" if "(a, b) \<in> set rs" for a b
  proof -
    have w: "contextFrom \<le> a" "lowerBound \<le> a" "a < upperBound" "\<not> covered a opaqueRanges"
        "writtenGFMURLSourceRangeAt M source a contextFrom upperBound bom = Some (a, b)"
      using spec that unfolding scan_spec_def by auto
    have at: "hasWrittenURLBoundary source a contextFrom bom" "writtenGFMURLSourceRange M source a upperBound = Some (a, b)"
      using w(5) by (auto simp: writtenGFMURLSourceRangeAt_def split: if_splits)
    then have "prefixEnd source a \<noteq> None" by (auto simp: writtenGFMURLSourceRange_def split: option.splits)
    then show ?thesis using w at written_progress [OF at(2)] written_clean [OF at(2)] by blast
  qed
  have "sorted_wrt (\<lambda>r r'. snd r \<le> fst r') rs"
    "\<forall>p. contextFrom \<le> p \<and> lowerBound \<le> p \<and> p < upperBound
           \<and> writtenGFMURLSourceRangeAt M source p contextFrom upperBound bom \<noteq> None \<longrightarrow> covered p opaqueRanges \<or> covered p rs"
    using spec unfolding scan_spec_def by auto
  moreover have "\<forall>(a, b) \<in> set rs. contextFrom \<le> a \<and> lowerBound \<le> a \<and> a < upperBound \<and> a < b \<and> \<not> covered a opaqueRanges
           \<and> hasWrittenURLBoundary source a contextFrom bom \<and> prefixEnd source a \<noteq> None
           \<and> charAt source (b - 1) \<notin> Some ` (insert 93 TRAILING_PUNCTUATION)" using one by fast
  ultimately show ?thesis unfolding Let_def rs_def [symmetric] by blast
qed

theorem written_urls_complete_witness:
  "sorted (map fst [(0::nat, 2::nat)]) \<and> findWrittenGFMURLRanges sample_lib (js ''to www.a.b, c'') 0 13 0 [(0, 2)] True = [(3, 10)]
   \<and> hasWrittenURLBoundary (js ''to www.a.b, c'') 3 0 True \<and> prefixEnd (js ''to www.a.b, c'') 3 \<noteq> None"
  using written_urls_complete [of "[(0, 2)]" sample_lib "js ''to www.a.b, c''" 0 13 0 True] url_example
  by (simp add: Let_def)

lemma email_example:
  "findGFMEmailMatches id (js ''to x@y.z, ok'') 0 (length (js ''to x@y.z, ok'')) = Some [(3, 8, js ''x@y.z'')]"
  by (simp add: findGFMEmailMatches_def projectEmailText_def projectLoop.simps isEscapeAt_def decodedMarkdownCharacterReferenceAt_def
      code_point_at_def fromCodePoint_def js_def charAt_def isHighSurrogate_def) code_simp

text \<open>Searching a run of source text for e-mail addresses ends; every match lies inside the source, is not empty, and its
  decoded text is a non-empty local part, an at sign and a dotted domain that ends in a letter or digit.\<close>

theorem email_matches_sound:
  assumes "js_string source" "lowerBound \<le> length source" "upperBound \<le> length source"
  shows "\<exists>ms. findGFMEmailMatches decode source lowerBound upperBound = Some ms
    \<and> (\<forall>(a, b, v) \<in> set ms. lowerBound \<le> a \<and> a < b \<and> b \<le> length source \<and> is_email v)"
proof -
  obtain ps where ps: "projectEmailText decode source lowerBound upperBound = Some ps" "wf_projection lowerBound (length source) ps"
    using projectLoop_returns [of upperBound source lowerBound decode "[]"] assms by (auto simp: projectEmailText_def)
  have "lowerBound \<le> fst (snd (ps ! a)) \<and> fst (snd (ps ! a)) < snd (snd (ps ! (b - 1))) \<and> snd (snd (ps ! (b - 1))) \<le> length source \<and> is_email v"
    if "(a, b, v) \<in> set (emailLoop (map fst ps) 0)" for a b v
  proof -
    have ab: "a < b" "b \<le> length ps" "is_email v" using emailLoop_sound [OF that] by auto
    then have mem: "ps ! a \<in> set ps" "ps ! (b - 1) \<in> set ps" by auto
    have "fst (snd (ps ! a)) \<le> fst (snd (ps ! (b - 1)))"
      using ps(2) ab sorted_wrt_nth_less [of "\<lambda>x y. fst (snd x) \<le> fst (snd y)" ps a "b - 1"]
      by (cases "a = b - 1") (auto simp: wf_projection_def)
    then show ?thesis using ps(2) mem ab(3) unfolding wf_projection_def by (meson le_less_trans)
  qed
  then show ?thesis by (auto simp: findGFMEmailMatches_def ps(1))
qed

theorem email_matches_sound_witness:
  "js_string (js ''to x@y.z, ok'') \<and> findGFMEmailMatches id (js ''to x@y.z, ok'') 0 (length (js ''to x@y.z, ok'')) = Some [(3, 8, js ''x@y.z'')]
   \<and> is_email (js ''x@y.z'')"
  using email_matches_sound [of "js ''to x@y.z, ok''" 0 "length (js ''to x@y.z, ok'')" id] email_example
  by (auto simp: js_string_def js_def)

end
