(* ===== verification/Literal_Source.thy ===== *)
theory Literal_Source
  imports Autolinks Tag_Grammar Mention_Grammar "HOL-Library.Monad_Syntax"
begin

text \<open>
  The literal text of a memo's source: resolved links (\<^verbatim>\<open>web/src/utils/markdown-link.ts\<close>), URLs and e-mail addresses of a
  syntax tree (\<^verbatim>\<open>web/src/utils/gfm-url.ts\<close>, \<^verbatim>\<open>web/src/utils/gfm-email.ts\<close>) and the ranges in which the editor looks
  for tags and mentions (\<^verbatim>\<open>web/src/components/MemoEditor/Editor/markdownTagRanges.ts\<close>).

  A piece of the source that turns out not to be a link is parsed again, which can happen inside the piece again. The
  number \<open>n\<close> of nested parses that the model follows is an argument; \<open>None\<close> means that it was not enough.
\<close>

section \<open>Resolved links\<close>

definition hasExactMarkdownRange :: "(nat \<times> nat) list \<Rightarrow> source_node \<Rightarrow> bool" where
  "hasExactMarkdownRange ranges node \<longleftrightarrow> list_ex (\<lambda>r. fst r = node_from node \<and> snd r = node_to node) ranges"

definition normalizeLabel :: "markdown_lib \<Rightarrow> jsstr \<Rightarrow> jsstr" where
  "normalizeLabel M source = normalizeLabelIdentifier M (map (\<lambda>c. if c = 0 then 65533 else c) (decodeString M source))"

text \<open>\<open>source.slice(node.from + 1, node.to - 1)\<close>; an end of \<open>-1\<close> counts from the end of the source.\<close>

definition innerSlice :: "jsstr \<Rightarrow> source_node \<Rightarrow> jsstr" where
  "innerSlice source node =
     slice source (node_from node + 1) (if node_to node = 0 then length source - 1 else node_to node - 1)"

definition labelValue :: "markdown_lib \<Rightarrow> jsstr \<Rightarrow> source_node \<Rightarrow> jsstr" where
  "labelValue M source node = normalizeLabel M (innerSlice source node)"

definition linkTextValue :: "markdown_lib \<Rightarrow> jsstr \<Rightarrow> source_node list \<Rightarrow> jsstr" where
  "linkTextValue M source marks = normalizeLabel M (slice source (node_to (marks ! 0)) (node_from (marks ! 1)))"

definition isValidMarkdownLinkReference :: "markdown_lib \<Rightarrow> jsstr \<Rightarrow> source_node \<Rightarrow> bool" where
  "isValidMarkdownLinkReference M source node \<longleftrightarrow>
     node_name node = ''LinkReference''
     \<and> list_ex (\<lambda>c. mdast_type c = ''definition'') (mdast_children (fromMarkdown M (slice source (node_from node) (node_to node))))"

fun collectDefinitions :: "markdown_lib \<Rightarrow> jsstr \<Rightarrow> source_node \<Rightarrow> jsstr list" where
  "collectDefinitions M source (SourceNode name a b kids) =
     (if name = ''LinkReference''
      then (case List.find (\<lambda>k. node_name k = ''LinkLabel'') kids of
              None \<Rightarrow> []
            | Some label \<Rightarrow>
                if isValidMarkdownLinkReference M source (SourceNode name a b kids) then [labelValue M source label] else [])
      else concat (map (collectDefinitions M source) kids))"

definition isLinkLike :: "string \<Rightarrow> bool" where
  "isLinkLike name \<longleftrightarrow> name = ''Link'' \<or> name = ''Image''"

definition linkResolves :: "markdown_lib \<Rightarrow> jsstr \<Rightarrow> jsstr list \<Rightarrow> nat \<Rightarrow> source_node list \<Rightarrow> source_node list \<Rightarrow> bool" where
  "linkResolves M source defs b kids marks =
     (let labelClose = node_to (marks ! 1);
          isCompleteInlineLink = (charAt source labelClose = Some 40 \<and> b > labelClose \<and> charAt source (b - 1) = Some 41);
          identifier = (case List.find (\<lambda>k. node_name k = ''LinkLabel'' \<and> node_from k \<ge> labelClose) kids of
                          Some l \<Rightarrow> if node_to l - node_from l > 2 then labelValue M source l else linkTextValue M source marks
                        | None \<Rightarrow> linkTextValue M source marks)
      in isCompleteInlineLink \<or> identifier \<in> set defs)"

fun collectLinks :: "markdown_lib \<Rightarrow> jsstr \<Rightarrow> jsstr list \<Rightarrow> source_node \<Rightarrow> (nat \<times> nat) list" where
  "collectLinks M source defs (SourceNode name a b kids) =
     (if isLinkLike name
      then let marks = filter (\<lambda>k. node_name k = ''LinkMark'') kids
           in if length marks < 2 then []
              else if linkResolves M source defs b kids marks then [(a, b)]
              else concat (map (collectLinks M source defs) kids)
      else concat (map (collectLinks M source defs) kids))"

definition resolvedMarkdownLinkRanges :: "markdown_lib \<Rightarrow> jsstr \<Rightarrow> source_node \<Rightarrow> (nat \<times> nat) list" where
  "resolvedMarkdownLinkRanges M source root = sort (collectLinks M source (collectDefinitions M source root) root)"

section \<open>URLs of a syntax tree\<close>

definition URL_SOURCE_CONTAINERS :: "string list" where
  "URL_SOURCE_CONTAINERS =
     [''ATXHeading1'', ''ATXHeading2'', ''ATXHeading3'', ''ATXHeading4'', ''ATXHeading5'', ''ATXHeading6'', ''Paragraph'',
      ''SetextHeading1'', ''SetextHeading2'', ''TableCell'', ''Task'']"

definition URL_PREFIX_OPAQUE_NODES :: "string list" where
  "URL_PREFIX_OPAQUE_NODES =
     [''Autolink'', ''BlockMath'', ''Comment'', ''Escape'', ''HTMLBlock'', ''HTMLTag'', ''InlineCode'', ''InlineMath'',
      ''ProcessingInstruction'']"

definition knownEntity :: "markdown_lib \<Rightarrow> jsstr \<Rightarrow> source_node \<Rightarrow> bool" where
  "knownEntity M source k \<longleftrightarrow>
     node_name k = ''Entity'' \<and> decodeString M (slice source (node_from k) (node_to k)) \<noteq> slice source (node_from k) (node_to k)"

definition isOpaqueURLPrefix :: "markdown_lib \<Rightarrow> jsstr \<Rightarrow> (nat \<times> nat) list \<Rightarrow> source_node \<Rightarrow> bool" where
  "isOpaqueURLPrefix M source resolvedLinks k \<longleftrightarrow>
     isLinkLike (node_name k) \<and> hasExactMarkdownRange resolvedLinks k \<or> knownEntity M source k
     \<or> node_name k \<in> set URL_PREFIX_OPAQUE_NODES"

fun collectOpaque :: "markdown_lib \<Rightarrow> jsstr \<Rightarrow> (nat \<times> nat) list \<Rightarrow> source_node \<Rightarrow> (nat \<times> nat) list" where
  "collectOpaque M source resolvedLinks (SourceNode name a b kids) =
     concat (map (\<lambda>k. if isOpaqueURLPrefix M source resolvedLinks k then [(node_from k, node_to k)]
                      else collectOpaque M source resolvedLinks k) kids)"

definition opaqueURLPrefixRanges :: "markdown_lib \<Rightarrow> jsstr \<Rightarrow> source_node \<Rightarrow> (nat \<times> nat) list \<Rightarrow> (nat \<times> nat) list" where
  "opaqueURLPrefixRanges M source container resolvedLinks = sort (collectOpaque M source resolvedLinks container)"

fun collectURLs :: "markdown_lib \<Rightarrow> jsstr \<Rightarrow> (nat \<times> nat) list \<Rightarrow> bool \<Rightarrow> source_node \<Rightarrow> (nat \<times> nat) list" where
  "collectURLs M source resolvedLinks bom (SourceNode name a b kids) =
     (if name \<in> set URL_SOURCE_CONTAINERS
         \<or> name = ''LinkReference'' \<and> \<not> isValidMarkdownLinkReference M source (SourceNode name a b kids)
      then findWrittenGFMURLRanges M source a b a (opaqueURLPrefixRanges M source (SourceNode name a b kids) resolvedLinks) bom
      else concat (map (collectURLs M source resolvedLinks bom) kids))"

definition findMarkdownGFMURLRanges :: "markdown_lib \<Rightarrow> jsstr \<Rightarrow> source_node \<Rightarrow> (nat \<times> nat) list \<Rightarrow> bool \<Rightarrow> (nat \<times> nat) list" where
  "findMarkdownGFMURLRanges M source root resolvedLinks allowInitialBOM = sort (collectURLs M source resolvedLinks allowInitialBOM root)"

section \<open>E-mail addresses of a syntax tree\<close>

definition TEXT_CONTAINERS :: "string list" where
  "TEXT_CONTAINERS =
     [''ATXHeading1'', ''ATXHeading2'', ''ATXHeading3'', ''ATXHeading4'', ''ATXHeading5'', ''ATXHeading6'', ''Emphasis'', ''Paragraph'',
      ''SetextHeading1'', ''SetextHeading2'', ''Strikethrough'', ''StrongEmphasis'', ''TableCell'', ''Task'']"

definition STRUCTURAL_CONTAINERS :: "string list" where
  "STRUCTURAL_CONTAINERS =
     [''Blockquote'', ''BulletList'', ''Document'', ''ListItem'', ''OrderedList'', ''Table'', ''TableHeader'', ''TableRow'']"

definition REFERENCE_LABEL_PREFIX :: jsstr where "REFERENCE_LABEL_PREFIX = js ''x ''"

type_synonym email_range = "nat \<times> nat \<times> jsstr"

definition unresolvedLabelEmails :: "(jsstr \<Rightarrow> email_range list option) \<Rightarrow> jsstr \<Rightarrow> source_node \<Rightarrow> email_range list option" where
  "unresolvedLabelEmails again source node =
     (let contentFrom = node_from node + 1; contentTo = node_to node - 1
      in if contentFrom \<ge> contentTo then Some []
         else do {
           rs \<leftarrow> again (REFERENCE_LABEL_PREFIX @ slice source contentFrom contentTo);
           Some (filter (\<lambda>(a, b, v). a \<ge> contentFrom \<and> b \<le> contentTo)
                   (map (\<lambda>(a, b, v). (a + contentFrom - 2, b + contentFrom - 2, v)) rs))
         })"

definition gapEmails :: "markdown_lib \<Rightarrow> jsstr \<Rightarrow> bool \<Rightarrow> nat \<Rightarrow> nat \<Rightarrow> email_range list option" where
  "gapEmails M source scans cursor e =
     (if scans \<and> cursor < e then findGFMEmailMatches (decodeString M) source cursor e else Some [])"

fun collectEmails :: "markdown_lib \<Rightarrow> (jsstr \<Rightarrow> email_range list option) \<Rightarrow> jsstr \<Rightarrow> (nat \<times> nat) list \<Rightarrow> bool \<Rightarrow> source_node \<Rightarrow> email_range list option"
and emailChildren :: "markdown_lib \<Rightarrow> (jsstr \<Rightarrow> email_range list option) \<Rightarrow> jsstr \<Rightarrow> (nat \<times> nat) list \<Rightarrow> bool \<Rightarrow> bool \<Rightarrow> bool
    \<Rightarrow> nat \<Rightarrow> nat \<Rightarrow> source_node list \<Rightarrow> email_range list option"
where
  "collectEmails M again source resolvedLinks allow (SourceNode name a b kids) =
     (let node = SourceNode name a b kids;
          invalidLinkReference = (name = ''LinkReference'' \<and> \<not> isValidMarkdownLinkReference M source node);
          scans = (name \<in> set TEXT_CONTAINERS \<or> isLinkLike name \<or> invalidLinkReference)
      in if isLinkLike name \<and> (hasExactMarkdownRange resolvedLinks node \<or> \<not> allow) then Some []
         else if \<not> scans \<and> name \<notin> set STRUCTURAL_CONTAINERS then Some []
         else emailChildren M again source resolvedLinks allow scans (isLinkLike name \<or> invalidLinkReference) a b kids)"
| "emailChildren M again source resolvedLinks allow scans labels cursor b [] = gapEmails M source scans cursor b"
| "emailChildren M again source resolvedLinks allow scans labels cursor b (k # kids) =
     (if scans \<and> (node_name k = ''Escape'' \<or> knownEntity M source k
                  \<or> node_name k = ''URL'' \<and> isGFMEmailURLSource (slice source (node_from k) (node_to k)))
      then emailChildren M again source resolvedLinks allow scans labels cursor b kids
      else do {
        gap \<leftarrow> gapEmails M source scans cursor (node_from k);
        inner \<leftarrow> (if labels \<and> node_name k = ''LinkLabel'' then unresolvedLabelEmails again source k
                 else collectEmails M again source resolvedLinks allow k);
        rest \<leftarrow> emailChildren M again source resolvedLinks allow scans labels (node_to k) b kids;
        Some (gap @ inner @ rest)
      })"

definition sortEmails :: "email_range list \<Rightarrow> email_range list" where
  "sortEmails = sort_key (\<lambda>(a, b, v). (a, b))"

primrec emailsAgain :: "markdown_lib \<Rightarrow> nat \<Rightarrow> jsstr \<Rightarrow> email_range list option" where
  "emailsAgain M 0 source = None"
| "emailsAgain M (Suc n) source =
     (let root = parseSource M source
      in map_option sortEmails (collectEmails M (emailsAgain M n) source (resolvedMarkdownLinkRanges M source root) True root))"

definition findMarkdownGFMEmailRanges ::
  "markdown_lib \<Rightarrow> nat \<Rightarrow> jsstr \<Rightarrow> source_node \<Rightarrow> (nat \<times> nat) list \<Rightarrow> bool \<Rightarrow> email_range list option" where
  "findMarkdownGFMEmailRanges M n source root resolvedLinks allowUnresolvedLinks =
     map_option sortEmails (collectEmails M (emailsAgain M n) source resolvedLinks allowUnresolvedLinks root)"

section \<open>Operations on ranges\<close>

definition addClampedRange :: "nat \<Rightarrow> nat \<Rightarrow> nat \<Rightarrow> nat \<Rightarrow> (nat \<times> nat) list" where
  "addClampedRange a b lowerBound upperBound =
     (let clampedFrom = max a lowerBound; clampedTo = min b upperBound
      in if clampedFrom < clampedTo then [(clampedFrom, clampedTo)] else [])"

fun subtractLoop :: "nat \<Rightarrow> nat \<Rightarrow> (nat \<times> nat) list \<Rightarrow> (nat \<times> nat) list" where
  "subtractLoop cursor to [] = (if cursor < to then [(cursor, to)] else [])"
| "subtractLoop cursor to (opaque # rest) =
     (if snd opaque \<le> cursor \<or> fst opaque \<ge> to then subtractLoop cursor to rest
      else (if cursor < fst opaque then [(cursor, min (fst opaque) to)] else [])
           @ (if max cursor (snd opaque) \<ge> to then [] else subtractLoop (max cursor (snd opaque)) to rest))"

definition subtractRanges :: "(nat \<times> nat) list \<Rightarrow> (nat \<times> nat) list \<Rightarrow> (nat \<times> nat) list" where
  "subtractRanges ranges opaqueRanges = concat (map (\<lambda>r. subtractLoop (fst r) (snd r) opaqueRanges) ranges)"

definition mergeStep :: "(nat \<times> nat) list \<Rightarrow> nat \<times> nat \<Rightarrow> (nat \<times> nat) list" where
  "mergeStep merged r =
     (if merged \<noteq> [] \<and> fst r \<le> snd (last merged)
      then butlast merged @ [(fst (last merged), max (snd (last merged)) (snd r))]
      else merged @ [r])"

definition mergeSourceRanges :: "(nat \<times> nat) list \<Rightarrow> (nat \<times> nat) list" where
  "mergeSourceRanges ranges = foldl mergeStep [] (sort ranges)"

section \<open>Literal ranges\<close>

definition REJECTED_URL_PREFIX :: jsstr where "REJECTED_URL_PREFIX = js ''x''"

fun sourceNodes :: "source_node \<Rightarrow> source_node list" where
  "sourceNodes (SourceNode name a b kids) = SourceNode name a b kids # concat (map sourceNodes kids)"

fun codeRanges :: "mdast \<Rightarrow> (nat \<times> nat) list" where
  "codeRanges (Mdast t a b kids) =
     (case (a, b) of (Some x, Some y) \<Rightarrow> if t = ''code'' then [(x, y)] else [] | _ \<Rightarrow> []) @ concat (map codeRanges kids)"

text \<open>The ranges are cached for the source they belong to, so the cache cannot be noticed.\<close>

definition canonicalSourceKeepsCodeOpaque :: "markdown_lib \<Rightarrow> jsstr \<Rightarrow> source_node \<Rightarrow> bool" where
  "canonicalSourceKeepsCodeOpaque M source node \<longleftrightarrow>
     list_ex (\<lambda>r. fst r \<le> node_from node \<and> snd r \<ge> node_to node) (codeRanges (fromMarkdown M source))"

text \<open>\<open>again\<close> parses a source and collects its literal ranges behind a prefix; the flag drops a URL right behind the prefix.\<close>

type_synonym reparse = "jsstr \<Rightarrow> nat \<Rightarrow> bool \<Rightarrow> (nat \<times> nat) list option"

definition shiftClamped :: "nat \<Rightarrow> nat \<Rightarrow> nat \<Rightarrow> nat \<Rightarrow> (nat \<times> nat) list \<Rightarrow> (nat \<times> nat) list" where
  "shiftClamped base prefixLength from to rs = concat (map (\<lambda>r. addClampedRange (fst r + base - prefixLength) (snd r + base - prefixLength) from to) rs)"

definition collectUnresolvedReferenceLabelRanges :: "reparse \<Rightarrow> source_node \<Rightarrow> nat \<Rightarrow> nat \<Rightarrow> jsstr \<Rightarrow> (nat \<times> nat) list option" where
  "collectUnresolvedReferenceLabelRanges again node from to source =
     (let contentFrom = node_from node + 1; contentTo = node_to node - 1
      in if contentFrom \<ge> contentTo then Some []
         else map_option (shiftClamped contentFrom 2 from to) (again (REFERENCE_LABEL_PREFIX @ slice source contentFrom contentTo) 2 True))"

definition emphasisMarks :: "markdown_lib \<Rightarrow> source_node \<Rightarrow> source_node \<Rightarrow> jsstr \<Rightarrow> (nat \<times> nat) list" where
  "emphasisMarks M parent node source =
     (let before = slice source (node_from parent) (node_from node); spelling = slice source (node_from node) (node_to node)
      in if 95 \<in> set spelling \<and> 95 \<in> set before
         then map (\<lambda>mark. (node_from mark + node_from parent - 1, node_to mark + node_from parent - 1))
                (filter (\<lambda>mark. node_name mark = ''EmphasisMark'' \<and> node_from mark \<ge> node_from node - node_from parent + 1)
                   (sourceNodes (parseSource M (before @ REJECTED_URL_PREFIX @ spelling))))
         else [])"

definition collectRejectedURLLiteralRanges :: "markdown_lib \<Rightarrow> reparse \<Rightarrow> source_node \<Rightarrow> source_node \<Rightarrow> nat \<Rightarrow> nat \<Rightarrow> jsstr \<Rightarrow> (nat \<times> nat) list option" where
  "collectRejectedURLLiteralRanges M again parent node from to source =
     map_option
       (\<lambda>urlRanges. let projected = map (\<lambda>r. (fst r + node_from node - 1, snd r + node_from node - 1)) urlRanges
                    in concat (map (\<lambda>r. addClampedRange (fst r) (snd r) from to) (subtractRanges projected (emphasisMarks M parent node source))))
       (again (REJECTED_URL_PREFIX @ slice source (node_from node) (node_to node)) 1 False)"

definition collectReparsedLiteralRanges :: "reparse \<Rightarrow> source_node \<Rightarrow> nat \<Rightarrow> nat \<Rightarrow> jsstr \<Rightarrow> (nat \<times> nat) list option" where
  "collectReparsedLiteralRanges again node from to source =
     map_option (shiftClamped (node_from node) 2 from to) (again (js ''x '' @ slice source (node_from node) (node_to node)) 2 False)"

fun collectLiteralRanges :: "markdown_lib \<Rightarrow> reparse \<Rightarrow> nat \<Rightarrow> nat \<Rightarrow> jsstr \<Rightarrow> (nat \<times> nat) list \<Rightarrow> (nat \<times> nat) list \<Rightarrow> bool
    \<Rightarrow> source_node \<Rightarrow> (nat \<times> nat) list option"
and literalChildren :: "markdown_lib \<Rightarrow> reparse \<Rightarrow> nat \<Rightarrow> nat \<Rightarrow> jsstr \<Rightarrow> (nat \<times> nat) list \<Rightarrow> (nat \<times> nat) list \<Rightarrow> bool
    \<Rightarrow> bool \<Rightarrow> bool \<Rightarrow> bool \<Rightarrow> source_node \<Rightarrow> nat \<Rightarrow> source_node list \<Rightarrow> (nat \<times> nat) list option"
where
  "collectLiteralRanges M again from to source resolvedLinks writtenURLs allow (SourceNode name a b kids) =
     (let node = SourceNode name a b kids;
          unresolvedLinkLike = (allow \<and> isLinkLike name \<and> \<not> hasExactMarkdownRange resolvedLinks node);
          invalidLinkReference = (name = ''LinkReference'' \<and> \<not> isValidMarkdownLinkReference M source node);
          scans = (name \<in> set TEXT_CONTAINERS \<or> unresolvedLinkLike \<or> invalidLinkReference)
      in if b \<le> from \<or> a \<ge> to then Some []
         else if \<not> scans \<and> name \<notin> set STRUCTURAL_CONTAINERS then Some []
         else literalChildren M again from to source resolvedLinks writtenURLs allow scans unresolvedLinkLike invalidLinkReference node a kids)"
| "literalChildren M again from to source resolvedLinks writtenURLs allow scans unresolved invalid node cursor [] =
     Some (if scans then addClampedRange cursor (node_to node) from to else [])"
| "literalChildren M again from to source resolvedLinks writtenURLs allow scans unresolved invalid node cursor (k # kids) =
     (if node_name k = ''Entity'' \<and> \<not> knownEntity M source k \<or> node_to k \<le> cursor
      then literalChildren M again from to source resolvedLinks writtenURLs allow scans unresolved invalid node cursor kids
      else do {
        inner \<leftarrow>
          (if node_from k \<ge> cursor
           then (if node_name node = ''Blockquote'' \<and> node_name k = ''CodeBlock'' \<and> \<not> canonicalSourceKeepsCodeOpaque M source k
                 then collectReparsedLiteralRanges again k from to source
                 else if invalid \<and> node_name k = ''LinkLabel'' then collectUnresolvedReferenceLabelRanges again k from to source
                 else if node_name k = ''URL''
                 then (if hasExactMarkdownRange writtenURLs k then Some []
                       else collectRejectedURLLiteralRanges M again node k from to source)
                 else if unresolved \<and> node_name k = ''LinkLabel'' then collectUnresolvedReferenceLabelRanges again k from to source
                 else collectLiteralRanges M again from to source resolvedLinks writtenURLs allow k)
           else Some []);
        rest \<leftarrow> literalChildren M again from to source resolvedLinks writtenURLs allow scans unresolved invalid node
                  (max cursor (node_to k)) kids;
        Some ((if scans then addClampedRange cursor (node_from k) from to else []) @ inner @ rest)
      })"

primrec literalAgain :: "markdown_lib \<Rightarrow> nat \<Rightarrow> reparse" where
  "literalAgain M 0 prefixedSource prefixLength dropFirst = None"
| "literalAgain M (Suc n) prefixedSource prefixLength dropFirst =
     (let root = parseSource M prefixedSource;
          resolvedLinks = resolvedMarkdownLinkRanges M prefixedSource root;
          urls = findMarkdownGFMURLRanges M prefixedSource root resolvedLinks False
      in collectLiteralRanges M (literalAgain M n) prefixLength (length prefixedSource) prefixedSource resolvedLinks
           (if dropFirst then filter (\<lambda>r. fst r \<noteq> prefixLength) urls else urls) True root)"

section \<open>The editor's context\<close>

text \<open>\<open>syntaxRoot to\<close> is the top node of \<open>ensureSyntaxTree(state, to) ?? syntaxTree(state)\<close>.\<close>

record editor_source =
  editor_doc :: jsstr
  syntaxRoot :: "nat \<Rightarrow> source_node"
  syntaxTreeAvailable :: bool

record ParsedMarkdownContext =
  parsedTo :: nat
  ctx_source :: jsstr
  ctx_root :: source_node
  resolvedLinks :: "(nat \<times> nat) list"
  writtenURLRanges :: "(nat \<times> nat) list"
  emailRanges :: "email_range list"
  allowUnresolvedLinks :: bool

definition freshContext :: "markdown_lib \<Rightarrow> nat \<Rightarrow> editor_source \<Rightarrow> nat \<Rightarrow> ParsedMarkdownContext option" where
  "freshContext M n st to =
     (let source = editor_doc st; root = syntaxRoot st to; links = resolvedMarkdownLinkRanges M source root;
          allow = syntaxTreeAvailable st
      in map_option
           (\<lambda>emails. \<lparr>parsedTo = to, ctx_source = source, ctx_root = root, resolvedLinks = links,
              writtenURLRanges = findMarkdownGFMURLRanges M source root links True, emailRanges = emails, allowUnresolvedLinks = allow\<rparr>)
           (findMarkdownGFMEmailRanges M n source root links allow))"

definition parsedMarkdownContext :: "markdown_lib \<Rightarrow> nat \<Rightarrow> editor_source \<Rightarrow> ParsedMarkdownContext option \<Rightarrow> nat \<Rightarrow> ParsedMarkdownContext option" where
  "parsedMarkdownContext M n st cached to =
     (case cached of
        Some c \<Rightarrow> if parsedTo c \<ge> to then Some c else freshContext M n st to
      | None \<Rightarrow> freshContext M n st to)"

definition literalMarkdownSourceRanges :: "markdown_lib \<Rightarrow> nat \<Rightarrow> editor_source \<Rightarrow> ParsedMarkdownContext option \<Rightarrow> nat \<Rightarrow> nat
    \<Rightarrow> ((nat \<times> nat) list \<times> ParsedMarkdownContext) option" where
  "literalMarkdownSourceRanges M n st cached from to =
     do {
       c \<leftarrow> parsedMarkdownContext M n st cached to;
       ranges \<leftarrow> collectLiteralRanges M (literalAgain M n) from to (ctx_source c) (resolvedLinks c) (writtenURLRanges c)
                   (allowUnresolvedLinks c) (ctx_root c);
       let decodedBoundaries = map fst (findDecodedMarkdownSourceBoundaries (decodeString M) (ctx_source c) from to);
       Some (mergeSourceRanges
               (subtractRanges (subtractRanges (subtractRanges ranges decodedBoundaries) (map (\<lambda>(a, b, v). (a, b)) (emailRanges c)))
                  (writtenURLRanges c)), c)
     }"

fun those_matches :: "'a list option list \<Rightarrow> 'a list option" where
  "those_matches [] = Some []"
| "those_matches (x # xs) = do { a \<leftarrow> x; b \<leftarrow> those_matches xs; Some (a @ b) }"

definition shiftTag :: "nat \<Rightarrow> TagMatch \<Rightarrow> TagMatch" where
  "shiftTag k m = m\<lparr>tag_from := k + tag_from m, tag_to := k + tag_to m\<rparr>"

definition findMarkdownTagMatches :: "markdown_lib \<Rightarrow> EmojiTrieNode \<Rightarrow> nat \<Rightarrow> editor_source \<Rightarrow> ParsedMarkdownContext option \<Rightarrow> nat \<Rightarrow> nat
    \<Rightarrow> (TagMatch list \<times> ParsedMarkdownContext) option" where
  "findMarkdownTagMatches M R n st cached from to =
     do {
       (ranges, c) \<leftarrow> literalMarkdownSourceRanges M n st cached from to;
       ms \<leftarrow> those_matches (map (\<lambda>r. let source = slice (editor_doc st) (fst r) (snd r)
                                    in map_option (map (shiftTag (fst r))) (findTagMatches R source 0 (length source))) ranges);
       Some (ms, c)
     }"

definition runHasLeftBoundary :: "jsstr \<Rightarrow> nat \<Rightarrow> bool" where
  "runHasLeftBoundary doc from \<longleftrightarrow> from = 0 \<or> (case charAt doc (from - 1) of None \<Rightarrow> True | Some c \<Rightarrow> \<not> isUsernameCharacter c)"

definition shiftMention :: "nat \<Rightarrow> MentionMatch \<Rightarrow> MentionMatch" where
  "shiftMention k m = m\<lparr>mention_from := k + mention_from m, mention_to := k + mention_to m\<rparr>"

definition findMarkdownMentionMatches :: "markdown_lib \<Rightarrow> nat \<Rightarrow> editor_source \<Rightarrow> ParsedMarkdownContext option \<Rightarrow> nat \<Rightarrow> nat
    \<Rightarrow> (MentionMatch list \<times> ParsedMarkdownContext) option" where
  "findMarkdownMentionMatches M n st cached from to =
     do {
       (ranges, c) \<leftarrow> literalMarkdownSourceRanges M n st cached from to;
       Some (concat (map (\<lambda>r. map (shiftMention (fst r))
                                (findMentionMatches (slice (editor_doc st) (fst r) (snd r)) (runHasLeftBoundary (editor_doc st) (fst r)))) ranges), c)
     }"
section \<open>The operations on ranges\<close>

lemma sorted_fst_Cons: "sorted (map fst (r # rs)) \<longleftrightarrow> (\<forall>x \<in> set rs. fst r \<le> fst x) \<and> sorted (map fst rs)"
  by auto

lemma covered_before: "\<forall>x \<in> set rs. q \<le> fst x \<Longrightarrow> p < q \<Longrightarrow> \<not> covered p rs"
  by (auto simp: covered_def)

lemma covered_subtractLoop:
  "sorted (map fst os) \<Longrightarrow> covered p (subtractLoop c t os) \<longleftrightarrow> c \<le> p \<and> p < t \<and> \<not> covered p os"
proof (induction c t os rule: subtractLoop.induct)
  case (2 c t opq rest)
  have s: "\<forall>x \<in> set rest. fst opq \<le> fst x" "sorted (map fst rest)" using "2.prems" unfolding sorted_fst_Cons by auto
  have before: "\<not> covered p rest" if "p < fst opq" using covered_before [OF s(1) that] .
  show ?case
  proof (cases "snd opq \<le> c \<or> fst opq \<ge> t")
    case True
    then show ?thesis using "2.IH"(1) s(2) by auto
  next
    case False
    then show ?thesis using "2.IH"(2) s(2) before by (auto simp: min_def max_def not_le not_less)
  qed
qed auto

lemma subtractLoop_nonempty: "r \<in> set (subtractLoop c t os) \<Longrightarrow> c \<le> fst r \<and> fst r < snd r \<and> snd r \<le> t"
  by (induction c t os rule: subtractLoop.induct) (auto split: if_splits)

lemma covered_subtractRanges:
  "sorted (map fst os) \<Longrightarrow> covered p (subtractRanges rs os) \<longleftrightarrow> covered p rs \<and> \<not> covered p os"
  by (induction rs) (auto simp: subtractRanges_def covered_subtractLoop)

definition ranges_in :: "nat \<Rightarrow> nat \<Rightarrow> (nat \<times> nat) list \<Rightarrow> bool" where
  "ranges_in lo hi rs \<longleftrightarrow> (\<forall>r \<in> set rs. lo \<le> fst r \<and> fst r < snd r \<and> snd r \<le> hi)"

lemma ranges_in_simps [simp]: "ranges_in lo hi []"
  "ranges_in lo hi (r # rs) \<longleftrightarrow> (lo \<le> fst r \<and> fst r < snd r \<and> snd r \<le> hi) \<and> ranges_in lo hi rs"
  "ranges_in lo hi (rs @ rs') \<longleftrightarrow> ranges_in lo hi rs \<and> ranges_in lo hi rs'"
  by (auto simp: ranges_in_def)

lemma ranges_in_concat: "(\<And>x. x \<in> set xs \<Longrightarrow> ranges_in lo hi (f x)) \<Longrightarrow> ranges_in lo hi (concat (map f xs))"
  by (induction xs) auto

lemma subtractRanges_in: "ranges_in lo hi rs \<Longrightarrow> ranges_in lo hi (subtractRanges rs os)"
  by (auto simp: subtractRanges_def ranges_in_def dest!: subtractLoop_nonempty)

lemma addClampedRange_in [simp]: "ranges_in lo hi (addClampedRange a b lo hi)"
  by (simp add: addClampedRange_def Let_def)

lemma mergeStep_Cons: "mergeStep (xs @ [l]) r = (if fst r \<le> snd l then xs @ [(fst l, max (snd l) (snd r))] else xs @ [l, r])"
  by (simp add: mergeStep_def)

definition separated :: "(nat \<times> nat) list \<Rightarrow> bool" where
  "separated rs \<longleftrightarrow> sorted_wrt (\<lambda>r r'. snd r < fst r') rs"

lemma merge_loop:
  assumes "sorted (map fst rs)" "\<forall>r \<in> set rs. fst l \<le> fst r" "ranges_in lo hi (xs @ l # rs)" "separated (xs @ [l])"
  shows "(covered p (foldl mergeStep (xs @ [l]) rs) \<longleftrightarrow> covered p xs \<or> covered p (l # rs))
    \<and> separated (foldl mergeStep (xs @ [l]) rs) \<and> ranges_in lo hi (foldl mergeStep (xs @ [l]) rs)"
  using assms
proof (induction rs arbitrary: xs l)
  case (Cons r rs)
  let ?m = "(fst l, max (snd l) (snd r))"
  have s: "sorted (map fst rs)" "\<forall>x \<in> set rs. fst r \<le> fst x" "fst l \<le> fst r" using Cons.prems by auto
  show ?case
  proof (cases "fst r \<le> snd l")
    case True
    have *: "(covered p (foldl mergeStep (xs @ [?m]) rs) \<longleftrightarrow> covered p xs \<or> covered p (?m # rs))
      \<and> separated (foldl mergeStep (xs @ [?m]) rs) \<and> ranges_in lo hi (foldl mergeStep (xs @ [?m]) rs)"
      by (rule Cons.IH) (use s Cons.prems True in \<open>auto simp: separated_def sorted_wrt_append max_def\<close>)
    have "covered p (?m # rs) \<longleftrightarrow> covered p (l # r # rs)" using True s(3) by (auto simp: max_def)
    then show ?thesis using * True by (simp add: mergeStep_Cons)
  next
    case False
    have *: "(covered p (foldl mergeStep ((xs @ [l]) @ [r]) rs) \<longleftrightarrow> covered p (xs @ [l]) \<or> covered p (r # rs))
      \<and> separated (foldl mergeStep ((xs @ [l]) @ [r]) rs) \<and> ranges_in lo hi (foldl mergeStep ((xs @ [l]) @ [r]) rs)"
      by (rule Cons.IH) (use s Cons.prems False in \<open>auto simp: separated_def sorted_wrt_append\<close>)
    then show ?thesis using False by (simp add: mergeStep_Cons)
  qed
qed (auto simp: separated_def)

lemma sort_fst: "sorted (map fst (sort (rs :: (nat \<times> nat) list)))"
proof -
  have "sorted (sort rs)" by simp
  then show ?thesis unfolding sorted_wrt_map by (rule sorted_wrt_mono_rel [rotated]) (auto simp: less_eq_prod_def)
qed

lemma covered_set: "set rs = set rs' \<Longrightarrow> covered p rs = covered p rs'" by (simp add: covered_def)

lemma mergeSourceRanges_spec:
  assumes "ranges_in lo hi rs"
  shows "(covered p (mergeSourceRanges rs) \<longleftrightarrow> covered p rs) \<and> separated (mergeSourceRanges rs) \<and> ranges_in lo hi (mergeSourceRanges rs)"
proof (cases "sort rs")
  case Nil
  then have "rs = []" by (metis length_0_conv length_sort)
  then show ?thesis by (simp add: mergeSourceRanges_def separated_def)
next
  case (Cons r rs')
  have s: "sorted (map fst (r # rs'))" using sort_fst [of rs] Cons by simp
  have m: "set (r # rs') = set rs" using Cons by (metis set_sort)
  then have "ranges_in lo hi ([] @ r # rs')" using assms by (simp add: ranges_in_def) 
  from merge_loop [OF _ _ this, of p] s covered_set [OF m, of p] show ?thesis
    by (simp add: mergeSourceRanges_def Cons mergeStep_def separated_def)
qed

lemma separated_ordered: "separated rs \<Longrightarrow> ranges_in lo hi rs \<Longrightarrow> lo \<le> hi \<Longrightarrow> ordered_ranges lo hi rs"
proof (induction rs arbitrary: lo)
  case (Cons r rs)
  have "ranges_in (snd r) hi rs" using Cons.prems by (auto simp: ranges_in_def separated_def)
  then show ?case using Cons by (cases r) (auto simp: separated_def)
qed simp

section \<open>The literal ranges\<close>

lemma shiftClamped_in: "ranges_in from to (shiftClamped base k from to rs)"
  unfolding shiftClamped_def by (rule ranges_in_concat) simp

lemma labelRanges_in: "collectUnresolvedReferenceLabelRanges again k from to source = Some rs \<Longrightarrow> ranges_in from to rs"
  by (auto simp: collectUnresolvedReferenceLabelRanges_def Let_def shiftClamped_in split: if_splits)

lemma rejected_in: "collectRejectedURLLiteralRanges M again parent k from to source = Some rs \<Longrightarrow> ranges_in from to rs"
  by (auto simp: collectRejectedURLLiteralRanges_def Let_def intro: ranges_in_concat)

lemma reparsed_in: "collectReparsedLiteralRanges again k from to source = Some rs \<Longrightarrow> ranges_in from to rs"
  by (auto simp: collectReparsedLiteralRanges_def shiftClamped_in)

lemmas inner_in = labelRanges_in rejected_in reparsed_in

lemma collectLiteral_in:
  "collectLiteralRanges M again from to source links urls allow node = Some rs \<Longrightarrow> ranges_in from to rs"
  "literalChildren M again from to source links urls allow scans unresolved invalid parent cursor kids = Some rs' \<Longrightarrow> ranges_in from to rs'"
proof (induction M again "from" to source links urls allow node and M again "from" to source links urls allow scans unresolved invalid parent cursor kids
    arbitrary: rs and rs' rule: collectLiteralRanges_literalChildren.induct)
  case (1 M again a b source links urls allow name f t kids)
  from "1.prems" "1.IH" show ?case
    unfolding collectLiteralRanges.simps by (simp only: Let_def split: if_splits) simp_all
next
  case (3 M again a b source links urls allow scans unresolved invalid node cursor k kids)
  show ?case
  proof (cases "node_name k = ''Entity'' \<and> \<not> knownEntity M source k \<or> node_to k \<le> cursor")
    case True
    then show ?thesis using "3.IH"(1) "3.prems" by simp
  next
    case False
    from "3.prems" obtain inner rest where r: "rs' = (if scans then addClampedRange cursor (node_from k) a b else []) @ inner @ rest"
      and i: "(if node_from k \<ge> cursor
           then (if node_name node = ''Blockquote'' \<and> node_name k = ''CodeBlock'' \<and> \<not> canonicalSourceKeepsCodeOpaque M source k
                 then collectReparsedLiteralRanges again k a b source
                 else if invalid \<and> node_name k = ''LinkLabel'' then collectUnresolvedReferenceLabelRanges again k a b source
                 else if node_name k = ''URL''
                 then (if hasExactMarkdownRange urls k then Some [] else collectRejectedURLLiteralRanges M again node k a b source)
                 else if unresolved \<and> node_name k = ''LinkLabel'' then collectUnresolvedReferenceLabelRanges again k a b source
                 else collectLiteralRanges M again a b source links urls allow k)
           else Some []) = Some inner"
      and l: "literalChildren M again a b source links urls allow scans unresolved invalid node (max cursor (node_to k)) kids = Some rest"
      using False unfolding literalChildren.simps(2) by (simp only: if_False bind_eq_Some_conv) blast
    have "ranges_in a b inner"
      using i "3.IH"(2) False by (auto split: if_splits dest: inner_in)
    moreover have "ranges_in a b rest" using "3.IH"(3) [OF False _ l] i by blast
    ultimately show ?thesis by (simp add: r)
  qed
qed simp

lemma ordered_sorted: "ordered_ranges lo hi rs \<Longrightarrow> sorted (map fst rs) \<and> (\<forall>r \<in> set rs. lo \<le> fst r)"
proof (induction lo hi rs rule: ordered_ranges.induct)
  case (2 lo hi a b rs)
  then have "sorted (map fst rs) \<and> (\<forall>r \<in> set rs. b \<le> fst r)" by simp
  moreover have "lo \<le> a" "a < b" using "2.prems" by auto
  ultimately show ?case by fastforce
qed simp

lemma boundaries_sorted: "sorted (map fst (map fst (findDecodedMarkdownSourceBoundaries decode source a b)))"
proof (cases "a \<le> b")
  case True
  then show ?thesis using ordered_sorted [OF boundaries_ordered [OF True]] by (simp add: findDecodedMarkdownSourceBoundaries_def)
next
  case False
  then show ?thesis by (simp add: findDecodedMarkdownSourceBoundaries_def boundaryLoop.simps [of decode source a b])
qed

definition emailSpans :: "email_range list \<Rightarrow> (nat \<times> nat) list" where
  "emailSpans es = map (\<lambda>(a, b, v). (a, b)) es"

lemma sortEmails_sorted: "sorted (map fst (emailSpans (sortEmails es)))"
proof -
  have "sorted (map (\<lambda>(a, b, v). (a, b)) (sortEmails es))" unfolding sortEmails_def by (rule sorted_sort_key)
  then show ?thesis unfolding emailSpans_def sorted_wrt_map
    by (rule sorted_wrt_mono_rel [rotated]) (auto simp: less_eq_prod_def)
qed

definition cache_ok :: "markdown_lib \<Rightarrow> nat \<Rightarrow> editor_source \<Rightarrow> ParsedMarkdownContext option \<Rightarrow> bool" where
  "cache_ok M n st cached \<longleftrightarrow> (case cached of None \<Rightarrow> True | Some c \<Rightarrow> \<exists>to. freshContext M n st to = Some c)"

lemma freshContext_sorted:
  "freshContext M n st to = Some c \<Longrightarrow>
   ctx_source c = editor_doc st \<and> sorted (map fst (writtenURLRanges c)) \<and> sorted (map fst (emailSpans (emailRanges c)))"
  by (auto simp: freshContext_def Let_def findMarkdownGFMEmailRanges_def findMarkdownGFMURLRanges_def sortEmails_sorted sort_fst)

lemma context_fresh: "cache_ok M n st cached \<Longrightarrow> parsedMarkdownContext M n st cached to = Some c \<Longrightarrow> \<exists>t. freshContext M n st t = Some c"
  by (auto simp: parsedMarkdownContext_def cache_ok_def split: option.splits if_splits)

lemma literal_exact:
  assumes "cache_ok M n st cached" "literalMarkdownSourceRanges M n st cached lo hi = Some (rs, c)"
  shows "\<exists>t ranges. freshContext M n st t = Some c
    \<and> collectLiteralRanges M (literalAgain M n) lo hi (editor_doc st) (resolvedLinks c) (writtenURLRanges c) (allowUnresolvedLinks c) (ctx_root c) = Some ranges
    \<and> separated rs \<and> ranges_in lo hi rs
    \<and> (\<forall>p. covered p rs \<longleftrightarrow> covered p ranges \<and> \<not> covered p (map fst (findDecodedMarkdownSourceBoundaries (decodeString M) (editor_doc st) lo hi))
         \<and> \<not> covered p (emailSpans (emailRanges c)) \<and> \<not> covered p (writtenURLRanges c))"
proof -
  define bs where "bs = map fst (findDecodedMarkdownSourceBoundaries (decodeString M) (editor_doc st) lo hi)"
  from assms(2) obtain ranges where p: "parsedMarkdownContext M n st cached hi = Some c"
    and r: "collectLiteralRanges M (literalAgain M n) lo hi (ctx_source c) (resolvedLinks c) (writtenURLRanges c) (allowUnresolvedLinks c) (ctx_root c) = Some ranges"
    and rs: "rs = mergeSourceRanges (subtractRanges (subtractRanges (subtractRanges ranges
        (map fst (findDecodedMarkdownSourceBoundaries (decodeString M) (ctx_source c) lo hi))) (emailSpans (emailRanges c))) (writtenURLRanges c))"
    by (auto simp: literalMarkdownSourceRanges_def bind_eq_Some_conv Let_def emailSpans_def)
  obtain t where t: "freshContext M n st t = Some c" using context_fresh [OF assms(1) p] by blast
  note s = freshContext_sorted [OF t]
  have in1: "ranges_in lo hi (subtractRanges (subtractRanges (subtractRanges ranges bs) (emailSpans (emailRanges c))) (writtenURLRanges c))"
    by (intro subtractRanges_in collectLiteral_in(1) [OF r])
  have rs': "rs = mergeSourceRanges (subtractRanges (subtractRanges (subtractRanges ranges bs) (emailSpans (emailRanges c))) (writtenURLRanges c))"
    using rs s by (simp add: bs_def)
  have "covered p rs \<longleftrightarrow> covered p ranges \<and> \<not> covered p bs \<and> \<not> covered p (emailSpans (emailRanges c)) \<and> \<not> covered p (writtenURLRanges c)" for p
    unfolding rs' using mergeSourceRanges_spec [OF in1, of p] s boundaries_sorted [of "decodeString M" "editor_doc st" lo hi]
    by (simp add: covered_subtractRanges bs_def del: map_map)
  moreover have "separated rs" "ranges_in lo hi rs" unfolding rs' using mergeSourceRanges_spec [OF in1] by auto
  ultimately show ?thesis using t r s unfolding bs_def by metis
qed

section \<open>Scanning the runs\<close>

text \<open>A scanner of a run of text finds ordered ranges inside the run; \<open>k\<close> is where the run starts.\<close>

definition shiftRange :: "nat \<Rightarrow> nat \<times> nat \<Rightarrow> nat \<times> nat" where
  "shiftRange k r = (k + fst r, k + snd r)"

locale run_scanner =
  fixes scan :: "nat \<Rightarrow> jsstr \<Rightarrow> (nat \<times> nat) list"
  assumes scan_ordered: "js_string s \<Longrightarrow> ordered_ranges 0 (length s) (scan k s)"
begin

definition scan_runs :: "jsstr \<Rightarrow> (nat \<times> nat) list \<Rightarrow> (nat \<times> nat) list" where
  "scan_runs doc runs = concat (map (\<lambda>r. map (shiftRange (fst r)) (scan (fst r) (slice doc (fst r) (snd r)))) runs)"

lemma shifted: "ordered_ranges a b rs \<Longrightarrow> ordered_ranges (k + a) (k + b) (map (shiftRange k) rs)"
  by (induction a b rs rule: ordered_ranges.induct) (auto simp: shiftRange_def)

lemma run_ordered:
  assumes "js_string doc" "a < b" "b \<le> length doc"
  shows "ordered_ranges a b (map (shiftRange a) (scan a (slice doc a b)))"
proof -
  have "js_string (slice doc a b)" using assms(1) by (auto simp: js_string_def slice_def dest: in_set_takeD in_set_dropD)
  moreover have "length (slice doc a b) = b - a" using assms by (simp add: slice_def)
  ultimately have "ordered_ranges 0 (b - a) (scan a (slice doc a b))" using scan_ordered [of "slice doc a b" a] by simp
  from shifted [OF this, of a] show ?thesis using assms by simp
qed

lemma scan_runs_ordered:
  "js_string doc \<Longrightarrow> ordered_ranges lo hi runs \<Longrightarrow> hi \<le> length doc \<Longrightarrow> ordered_ranges lo hi (scan_runs doc runs)"
proof (induction lo hi runs rule: ordered_ranges.induct)
  case (2 lo hi a b rs)
  have b: "b \<le> hi" using "2.prems" ordered_ranges_bounds by auto
  have "ordered_ranges a b (map (shiftRange a) (scan a (slice doc a b)))" using run_ordered "2.prems" b by auto
  moreover have "ordered_ranges b hi (scan_runs doc rs)" using "2.IH" "2.prems" by simp
  ultimately have "ordered_ranges a hi (scan_runs doc ((a, b) # rs))"
    using ordered_ranges_append by (simp add: scan_runs_def)
  then show ?case using "2.prems" ordered_ranges_weaken ordered_ranges_bounds by (metis ordered_ranges.simps(2) le_trans)
qed (simp add: scan_runs_def)

lemma scan_runs_covered:
  assumes "js_string doc" "ranges_in lo hi runs" "hi \<le> length doc" "r \<in> set (scan_runs doc runs)" "fst r \<le> p" "p < snd r"
  shows "covered p runs"
proof -
  obtain q where q: "q \<in> set runs" "r \<in> set (map (shiftRange (fst q)) (scan (fst q) (slice doc (fst q) (snd q))))"
    using assms(4) by (auto simp: scan_runs_def)
  then have "fst q < snd q" "snd q \<le> length doc" using assms(2,3) by (auto simp: ranges_in_def)
  from ordered_ranges_mem [OF run_ordered [OF assms(1) this], of "fst r" "snd r"] q assms(5,6)
  show ?thesis by (auto simp: covered_def intro!: bexI [of _ q])
qed

end

section \<open>Enough nested parses\<close>

definition reparsedSources :: "jsstr \<Rightarrow> source_node \<Rightarrow> jsstr list" where
  "reparsedSources source k =
     (if node_name k = ''LinkLabel'' then [REFERENCE_LABEL_PREFIX @ slice source (node_from k + 1) (node_to k - 1)]
      else if node_name k = ''URL'' then [REJECTED_URL_PREFIX @ slice source (node_from k) (node_to k)]
      else if node_name k = ''CodeBlock'' then [js ''x '' @ slice source (node_from k) (node_to k)]
      else [])"

text \<open>The nodes lie inside the source and pieces are parsed again at most \<open>n\<close> levels deep.\<close>

primrec reparse_within :: "markdown_lib \<Rightarrow> nat \<Rightarrow> jsstr \<Rightarrow> source_node \<Rightarrow> bool" where
  "reparse_within M 0 source root \<longleftrightarrow>
     (\<forall>k \<in> set (sourceNodes root). node_from k \<le> length source \<and> node_to k \<le> length source \<and> reparsedSources source k = [])"
| "reparse_within M (Suc n) source root \<longleftrightarrow>
     (\<forall>k \<in> set (sourceNodes root). node_from k \<le> length source \<and> node_to k \<le> length source
        \<and> (\<forall>s \<in> set (reparsedSources source k). reparse_within M n s (parseSource M s)))"

definition answers :: "(jsstr \<Rightarrow> bool) \<Rightarrow> jsstr \<Rightarrow> source_node list \<Rightarrow> bool" where
  "answers ok source ks \<longleftrightarrow>
     (\<forall>k \<in> set ks. node_from k \<le> length source \<and> node_to k \<le> length source \<and> (\<forall>s \<in> set (reparsedSources source k). ok s))"

lemma answers_simps [simp]: "answers ok source (xs @ ys) \<longleftrightarrow> answers ok source xs \<and> answers ok source ys" "answers ok source []"
  "answers ok source (k # ks) \<longleftrightarrow> (node_from k \<le> length source \<and> node_to k \<le> length source \<and> (\<forall>s \<in> set (reparsedSources source k). ok s))
     \<and> answers ok source ks"
  by (auto simp: answers_def)

lemma sourceNodes_hd: "sourceNodes k = k # concat (map sourceNodes (node_children k))" by (cases k) simp

lemma literal_returns:
  "answers (\<lambda>s. \<forall>i d. again s i d \<noteq> None) source (sourceNodes node) \<Longrightarrow>
   collectLiteralRanges M again from to source links urls allow node \<noteq> None"
  "answers (\<lambda>s. \<forall>i d. again s i d \<noteq> None) source (concat (map sourceNodes kids)) \<Longrightarrow>
   literalChildren M again from to source links urls allow scans unresolved invalid parent cursor kids \<noteq> None"
proof (induction M again "from" to source links urls allow node and M again "from" to source links urls allow scans unresolved invalid parent cursor kids
    rule: collectLiteralRanges_literalChildren.induct)
  case (1 M again a b source links urls allow name f t kids)
  then show ?case unfolding collectLiteralRanges.simps by (simp add: Let_def)
next
  case (3 M again a b source links urls allow scans unresolved invalid node cursor k kids)
  show ?case
  proof (cases "node_name k = ''Entity'' \<and> \<not> knownEntity M source k \<or> node_to k \<le> cursor")
    case True
    then show ?thesis using "3.IH"(1) "3.prems" by simp
  next
    case False
    have k: "\<forall>s \<in> set (reparsedSources source k). \<forall>i d. again s i d \<noteq> None" using "3.prems" by (simp add: sourceNodes_hd)
    have lab: "collectUnresolvedReferenceLabelRanges again k a b source \<noteq> None" if "node_name k = ''LinkLabel''"
      using k that by (auto simp: collectUnresolvedReferenceLabelRanges_def reparsedSources_def Let_def)
    have rej: "collectRejectedURLLiteralRanges M again node k a b source \<noteq> None" if "node_name k = ''URL''"
      using k that by (auto simp: collectRejectedURLLiteralRanges_def reparsedSources_def)
    have rep: "collectReparsedLiteralRanges again k a b source \<noteq> None" if "node_name k = ''CodeBlock''"
      using k that by (auto simp: collectReparsedLiteralRanges_def reparsedSources_def)
    have kids: "answers (\<lambda>s. \<forall>i d. again s i d \<noteq> None) source (sourceNodes k)"
      "answers (\<lambda>s. \<forall>i d. again s i d \<noteq> None) source (concat (map sourceNodes kids))" using "3.prems" by simp_all
    define inner where "inner =
      (if node_from k \<ge> cursor
           then (if node_name node = ''Blockquote'' \<and> node_name k = ''CodeBlock'' \<and> \<not> canonicalSourceKeepsCodeOpaque M source k
                 then collectReparsedLiteralRanges again k a b source
                 else if invalid \<and> node_name k = ''LinkLabel'' then collectUnresolvedReferenceLabelRanges again k a b source
                 else if node_name k = ''URL''
                 then (if hasExactMarkdownRange urls k then Some [] else collectRejectedURLLiteralRanges M again node k a b source)
                 else if unresolved \<and> node_name k = ''LinkLabel'' then collectUnresolvedReferenceLabelRanges again k a b source
                 else collectLiteralRanges M again a b source links urls allow k)
           else Some [])"
    have "inner \<noteq> None" unfolding inner_def using lab rej rep "3.IH"(2) [OF False] kids(1) by (simp split: if_splits)
    then obtain x where x: "inner = Some x" by blast
    have "literalChildren M again a b source links urls allow scans unresolved invalid node (max cursor (node_to k)) kids \<noteq> None"
      using "3.IH"(3) [OF False x [unfolded inner_def] kids(2)] .
    then show ?thesis using False x unfolding literalChildren.simps(2) inner_def [symmetric] by auto
  qed
qed simp

lemma reparse_answers: "reparse_within M n source root \<Longrightarrow>
    answers (\<lambda>s. case n of 0 \<Rightarrow> False | Suc m \<Rightarrow> reparse_within M m s (parseSource M s)) source (sourceNodes root)"
  by (cases n) (auto simp: answers_def)

lemma answers_mono: "answers P source ks \<Longrightarrow> (\<And>k s. k \<in> set ks \<Longrightarrow> s \<in> set (reparsedSources source k) \<Longrightarrow> P s \<Longrightarrow> Q s) \<Longrightarrow> answers Q source ks"
  by (auto simp: answers_def)

lemma literalAgain_returns: "reparse_within M n s (parseSource M s) \<Longrightarrow> literalAgain M (Suc n) s i d \<noteq> None"
proof (induction n arbitrary: s i d)
  case 0
  then show ?case unfolding literalAgain.simps Let_def
    by (intro literal_returns(1) answers_mono [OF reparse_answers [OF 0]]) simp
next
  case (Suc n)
  show ?case unfolding literalAgain.simps(2) [of M "Suc n"] Let_def
    by (intro literal_returns(1) answers_mono [OF reparse_answers [OF Suc.prems]]) (use Suc.IH in simp)
qed

lemma collect_returns: "reparse_within M n source root \<Longrightarrow> collectLiteralRanges M (literalAgain M n) a b source links urls allow root \<noteq> None"
proof -
  assume r: "reparse_within M n source root"
  show ?thesis
    by (intro literal_returns(1) answers_mono [OF reparse_answers [OF r]]) (cases n; use literalAgain_returns in auto)
qed

lemma js_string_slice: "js_string s \<Longrightarrow> js_string (slice s a b)"
  by (auto simp: js_string_def slice_def dest: in_set_takeD in_set_dropD)

lemma reparsed_string: "js_string source \<Longrightarrow> s \<in> set (reparsedSources source k) \<Longrightarrow> js_string s"
  using js_string_slice [of source] by (auto simp: reparsedSources_def REFERENCE_LABEL_PREFIX_def REJECTED_URL_PREFIX_def js_string_def js_def split: if_splits)

lemma gapEmails_returns:
  assumes "js_string source" "e \<le> length source"
  shows "gapEmails M source scans cursor e \<noteq> None"
proof (cases "scans \<and> cursor < e")
  case True
  then obtain ps where "projectEmailText (decodeString M) source cursor e = Some ps"
    using projectLoop_returns [of e source cursor "decodeString M" "[]"] assms by (auto simp: projectEmailText_def)
  then show ?thesis using True by (simp add: gapEmails_def findGFMEmailMatches_def)
qed (auto simp: gapEmails_def)

lemma emails_return:
  "js_string source \<Longrightarrow> answers (\<lambda>s. again s \<noteq> None) source (sourceNodes node) \<Longrightarrow>
   collectEmails M again source links allow node \<noteq> None"
  "js_string source \<Longrightarrow> answers (\<lambda>s. again s \<noteq> None) source (concat (map sourceNodes kids)) \<Longrightarrow> b \<le> length source \<Longrightarrow>
   emailChildren M again source links allow scans labels cursor b kids \<noteq> None"
proof (induction M again source links allow node and M again source links allow scans labels cursor b kids
    rule: collectEmails_emailChildren.induct)
  case (1 M again source links allow name f t kids)
  then show ?case unfolding collectEmails.simps by (simp add: Let_def)
next
  case (2 M again source links allow scans labels cursor b)
  then show ?case using gapEmails_returns by simp
next
  case (3 M again source links allow scans labels cursor b k kids)
  show ?case
  proof (cases "scans \<and> (node_name k = ''Escape'' \<or> knownEntity M source k
                  \<or> node_name k = ''URL'' \<and> isGFMEmailURLSource (slice source (node_from k) (node_to k)))")
    case True
    then show ?thesis using "3.IH"(1) "3.prems" by simp
  next
    case False
    have k: "\<forall>s \<in> set (reparsedSources source k). again s \<noteq> None" "node_from k \<le> length source"
      and kids: "answers (\<lambda>s. again s \<noteq> None) source (sourceNodes k)" "answers (\<lambda>s. again s \<noteq> None) source (concat (map sourceNodes kids))"
      using "3.prems"(2) by (simp_all add: sourceNodes_hd [of k])
    obtain gap where gap: "gapEmails M source scans cursor (node_from k) = Some gap"
      using gapEmails_returns [OF "3.prems"(1) k(2)] by blast
    define inner where "inner = (if labels \<and> node_name k = ''LinkLabel'' then unresolvedLabelEmails again source k
                 else collectEmails M again source links allow k)"
    have "unresolvedLabelEmails again source k \<noteq> None" if "node_name k = ''LinkLabel''"
      using k that by (auto simp: unresolvedLabelEmails_def reparsedSources_def Let_def)
    then have "inner \<noteq> None" unfolding inner_def using "3.IH"(2) [OF False gap _ "3.prems"(1) kids(1)] by auto
    then obtain x where x: "inner = Some x" by blast
    have "emailChildren M again source links allow scans labels (node_to k) b kids \<noteq> None"
      using "3.IH"(3) [OF False gap x [unfolded inner_def] "3.prems"(1) kids(2) "3.prems"(3)] .
    then show ?thesis using False gap x unfolding emailChildren.simps(2) inner_def [symmetric] by auto
  qed
qed

lemma emailsAgain_returns: "js_string s \<Longrightarrow> reparse_within M n s (parseSource M s) \<Longrightarrow> emailsAgain M (Suc n) s \<noteq> None"
proof (induction n arbitrary: s)
  case 0
  have "collectEmails M (emailsAgain M 0) s links True (parseSource M s) \<noteq> None" for links
    by (intro emails_return(1) [OF 0(1)] answers_mono [OF reparse_answers [OF 0(2)]]) simp
  then show ?case by (simp add: Let_def)
next
  case (Suc n)
  have "collectEmails M (emailsAgain M (Suc n)) s links True (parseSource M s) \<noteq> None" for links
    by (intro emails_return(1) [OF Suc.prems(1)] answers_mono [OF reparse_answers [OF Suc.prems(2)]])
      (use Suc.IH reparsed_string [OF Suc.prems(1)] in simp)
  then show ?case unfolding emailsAgain.simps(2) [of M "Suc n"] by (simp add: Let_def)
qed

lemma freshContext_returns:
  assumes "js_string (editor_doc st)" "reparse_within M n (editor_doc st) (syntaxRoot st to)"
  shows "freshContext M n st to \<noteq> None"
proof -
  have "collectEmails M (emailsAgain M n) (editor_doc st) links allow (syntaxRoot st to) \<noteq> None" for links allow
    by (intro emails_return(1) [OF assms(1)] answers_mono [OF reparse_answers [OF assms(2)]])
      (cases n; use emailsAgain_returns reparsed_string [OF assms(1)] in auto)
  then show ?thesis by (simp add: freshContext_def findMarkdownGFMEmailRanges_def Let_def)
qed

lemma literal_ranges_return:
  assumes "js_string (editor_doc st)" "\<And>t. reparse_within M n (editor_doc st) (syntaxRoot st t)" "cache_ok M n st cached"
  shows "literalMarkdownSourceRanges M n st cached lo hi \<noteq> None"
proof -
  have "parsedMarkdownContext M n st cached hi \<noteq> None"
    using freshContext_returns [OF assms(1,2), of hi] by (cases cached) (auto simp: parsedMarkdownContext_def)
  then obtain c where c: "parsedMarkdownContext M n st cached hi = Some c" by blast
  then obtain t where "freshContext M n st t = Some c" using context_fresh [OF assms(3)] by blast
  then have "ctx_source c = editor_doc st" "ctx_root c = syntaxRoot st t" by (auto simp: freshContext_def Let_def)
  then obtain rs where "collectLiteralRanges M (literalAgain M n) lo hi (ctx_source c) (resolvedLinks c) (writtenURLRanges c)
      (allowUnresolvedLinks c) (ctx_root c) = Some rs"
    using collect_returns [OF assms(2) [of t], of lo hi "resolvedLinks c" "writtenURLRanges c" "allowUnresolvedLinks c"] by auto
  then show ?thesis using c by (simp add: literalMarkdownSourceRanges_def Let_def)
qed

section \<open>Tags and mentions\<close>

definition tagRuns :: "EmojiTrieNode \<Rightarrow> nat \<Rightarrow> jsstr \<Rightarrow> (nat \<times> nat) list" where
  "tagRuns R k s = map tag_range (the (findTagMatches R s 0 (length s)))"

definition mentionRuns :: "jsstr \<Rightarrow> nat \<Rightarrow> jsstr \<Rightarrow> (nat \<times> nat) list" where
  "mentionRuns doc k s = map mention_range (findMentionMatches s (runHasLeftBoundary doc k))"

lemma tag_matches:
  assumes "js_string s"
  obtains ms where "findTagMatches R s 0 (length s) = Some ms" "ordered_ranges 0 (length s) (map tag_range ms)"
    "\<forall>m \<in> set ms. tag_match_ok s m"
  using findTagLoop_sound [OF assms, of "length s" 0 R "[]"] by (auto simp: findTagMatches_def)

interpretation tags: run_scanner "tagRuns R" for R
proof unfold_locales
  fix s k
  assume "js_string s"
  then show "ordered_ranges 0 (length s) (tagRuns R k s)" by (rule tag_matches [where R = R]) (simp add: tagRuns_def)
qed

interpretation mentions: run_scanner "mentionRuns doc" for doc
  by unfold_locales (simp add: mentionRuns_def findMentionMatches_ranges)

lemma those_matches_Some: "(\<And>x. x \<in> set xs \<Longrightarrow> f x \<noteq> None) \<Longrightarrow> those_matches (map f xs) = Some (concat (map (\<lambda>x. the (f x)) xs))"
proof (induction xs)
  case (Cons x xs)
  then obtain y where "f x = Some y" by fastforce
  with Cons show ?case by simp
qed simp

lemma tag_match_shift:
  assumes "tag_match_ok (slice doc a b) m" "a < b" "b \<le> length doc"
  shows "tag_match_ok doc (shiftTag a m)"
proof -
  have l: "length (slice doc a b) = b - a" using assms by (simp add: slice_def)
  have t: "tag_from m + 1 < tag_to m" "tag_to m \<le> b - a" using assms(1) l by (auto simp: tag_match_ok_def)
  have "slice (slice doc a b) (tag_from m + 1) (tag_to m) = slice doc (a + (tag_from m + 1)) (a + tag_to m)"
    using t by (simp add: slice_def take_drop min_def add.commute add.left_commute)
  moreover have "charAt (slice doc a b) (tag_from m) = charAt doc (a + tag_from m)"
    using t l assms(2,3) by (simp add: charAt_def) (simp add: slice_def)
  moreover have "a + tag_to m \<le> length doc" using t assms(2,3) by linarith
  ultimately show ?thesis using assms(1) t unfolding tag_match_ok_def shiftTag_def by (auto simp: add.assoc)
qed

lemma found_tags:
  assumes "js_string (editor_doc st)" "hi \<le> length (editor_doc st)" "ranges_in lo hi rs" "literalMarkdownSourceRanges M n st cached lo hi = Some (rs, c)"
  shows "\<exists>ms. findMarkdownTagMatches M R n st cached lo hi = Some (ms, c)
    \<and> map tag_range ms = tags.scan_runs R (editor_doc st) rs \<and> (\<forall>m \<in> set ms. tag_match_ok (editor_doc st) m)"
proof -
  let ?f = "\<lambda>r. let source = slice (editor_doc st) (fst r) (snd r) in map_option (map (shiftTag (fst r))) (findTagMatches R source 0 (length source))"
  have run: "\<exists>ms. ?f r = Some (map (shiftTag (fst r)) ms) \<and> findTagMatches R (slice (editor_doc st) (fst r) (snd r)) 0 (length (slice (editor_doc st) (fst r) (snd r))) = Some ms
      \<and> (\<forall>m \<in> set ms. tag_match_ok (slice (editor_doc st) (fst r) (snd r)) m)" for r
    by (rule tag_matches [OF js_string_slice [OF assms(1)]]) (auto simp: Let_def)
  define ms where "ms = concat (map (\<lambda>r. the (?f r)) rs)"
  have "?f r \<noteq> None" for r using run [of r] by auto
  then have "those_matches (map ?f rs) = Some ms" unfolding ms_def by (intro those_matches_Some)
  then have "findMarkdownTagMatches M R n st cached lo hi = Some (ms, c)" by (simp add: findMarkdownTagMatches_def assms(4))
  moreover have "map tag_range ms = tags.scan_runs R (editor_doc st) rs"
  proof -
    have "map tag_range (the (?f r)) = map (shiftRange (fst r)) (tagRuns R (fst r) (slice (editor_doc st) (fst r) (snd r)))" for r
      using run [of r] by (auto simp: tagRuns_def shiftTag_def shiftRange_def)
    then show ?thesis unfolding ms_def tags.scan_runs_def by (simp add: map_concat comp_def)
  qed
  moreover have "tag_match_ok (editor_doc st) m" if m: "m \<in> set ms" for m
  proof -
    obtain r where r: "r \<in> set rs" "m \<in> set (the (?f r))" using m by (auto simp: ms_def)
    then have "fst r < snd r" "snd r \<le> length (editor_doc st)" using assms(2,3) by (auto simp: ranges_in_def)
    moreover obtain ms' where "the (?f r) = map (shiftTag (fst r)) ms'" "\<forall>m \<in> set ms'. tag_match_ok (slice (editor_doc st) (fst r) (snd r)) m"
      using run [of r] by auto
    ultimately show ?thesis using r(2) tag_match_shift by auto
  qed
  ultimately show ?thesis by blast
qed

lemma found_mentions:
  assumes "literalMarkdownSourceRanges M n st cached lo hi = Some (rs, c)"
  shows "\<exists>ms. findMarkdownMentionMatches M n st cached lo hi = Some (ms, c)
    \<and> map mention_range ms = mentions.scan_runs (editor_doc st) (editor_doc st) rs"
  by (auto simp: findMarkdownMentionMatches_def assms mentions.scan_runs_def map_concat comp_def mentionRuns_def shiftRange_def shiftMention_def)

text \<open>C16. The literal text of a source is computed exactly: the ranges are ordered, do not touch, and cover the positions that
  the syntax tree exposes as text and that are in no escape, character reference, e-mail address or written URL.\<close>

theorem literal_text_exact:
  assumes "js_string (editor_doc st)" "\<And>t. reparse_within M n (editor_doc st) (syntaxRoot st t)" "cache_ok M n st cached"
  shows "\<exists>rs c t ranges. literalMarkdownSourceRanges M n st cached lo hi = Some (rs, c) \<and> freshContext M n st t = Some c
    \<and> collectLiteralRanges M (literalAgain M n) lo hi (editor_doc st) (resolvedLinks c) (writtenURLRanges c) (allowUnresolvedLinks c) (ctx_root c) = Some ranges
    \<and> sorted_wrt (\<lambda>r r'. snd r < fst r') rs \<and> (\<forall>r \<in> set rs. lo \<le> fst r \<and> fst r < snd r \<and> snd r \<le> hi)
    \<and> (\<forall>p. covered p rs \<longleftrightarrow> covered p ranges
         \<and> \<not> covered p (map fst (findDecodedMarkdownSourceBoundaries (decodeString M) (editor_doc st) lo hi))
         \<and> \<not> covered p (emailSpans (emailRanges c)) \<and> \<not> covered p (writtenURLRanges c))"
proof -
  obtain rs c where r: "literalMarkdownSourceRanges M n st cached lo hi = Some (rs, c)"
    using literal_ranges_return [OF assms] by fast
  from literal_exact [OF assms(3) r] show ?thesis unfolding separated_def ranges_in_def using r by blast
qed

text \<open>C15. The editor's search for tags and mentions in a range of the source returns. The tags are ordered and disjoint, each is
  spelled in the source as a tag, and no tag and no mention has a character in a written URL, an e-mail address, an escape
  or a character reference.\<close>

theorem tags_outside_links:
  assumes "js_string (editor_doc st)" "\<And>t. reparse_within M n (editor_doc st) (syntaxRoot st t)" "cache_ok M n st cached"
    "lo \<le> hi" "hi \<le> length (editor_doc st)"
  shows "\<exists>ts ms c. findMarkdownTagMatches M R n st cached lo hi = Some (ts, c) \<and> findMarkdownMentionMatches M n st cached lo hi = Some (ms, c)
    \<and> ordered_ranges lo hi (map tag_range ts) \<and> ordered_ranges lo hi (map mention_range ms)
    \<and> (\<forall>t \<in> set ts. tag_match_ok (editor_doc st) t)
    \<and> (\<forall>p. covered p (map tag_range ts) \<or> covered p (map mention_range ms) \<longrightarrow>
         \<not> covered p (map fst (findDecodedMarkdownSourceBoundaries (decodeString M) (editor_doc st) lo hi))
         \<and> \<not> covered p (emailSpans (emailRanges c)) \<and> \<not> covered p (writtenURLRanges c))"
proof -
  obtain rs c where r: "literalMarkdownSourceRanges M n st cached lo hi = Some (rs, c)"
    using literal_ranges_return [OF assms(1-3)] by fast
  have s: "separated rs" "ranges_in lo hi rs"
    and p: "covered p rs \<Longrightarrow> \<not> covered p (map fst (findDecodedMarkdownSourceBoundaries (decodeString M) (editor_doc st) lo hi))
         \<and> \<not> covered p (emailSpans (emailRanges c)) \<and> \<not> covered p (writtenURLRanges c)" for p
    using literal_exact [OF assms(3) r] by blast+
  note o = separated_ordered [OF s assms(4)]
  obtain ts where ts: "findMarkdownTagMatches M R n st cached lo hi = Some (ts, c)"
      "map tag_range ts = tags.scan_runs R (editor_doc st) rs" "\<forall>t \<in> set ts. tag_match_ok (editor_doc st) t"
    using found_tags [OF assms(1,5) s(2) r] by blast
  obtain ms where ms: "findMarkdownMentionMatches M n st cached lo hi = Some (ms, c)"
      "map mention_range ms = mentions.scan_runs (editor_doc st) (editor_doc st) rs"
    using found_mentions [OF r] by blast
  have "covered q rs" if "covered q (map tag_range ts) \<or> covered q (map mention_range ms)" for q
    using that tags.scan_runs_covered [OF assms(1) s(2) assms(5)] mentions.scan_runs_covered [OF assms(1) s(2) assms(5)]
    unfolding ts(2) ms(2) by (auto simp: covered_def [of q "tags.scan_runs R (editor_doc st) rs"]
        covered_def [of q "mentions.scan_runs (editor_doc st) (editor_doc st) rs"])
  then show ?thesis
    using ts ms p tags.scan_runs_ordered [OF assms(1) o assms(5), of R] mentions.scan_runs_ordered [OF assms(1) o assms(5), of "editor_doc st"]
    by (metis (no_types, lifting))
qed

definition sample_source :: editor_source where
  "sample_source = \<lparr>editor_doc = js ''#a'', syntaxRoot = (\<lambda>t. SourceNode ''Document'' 0 2 [SourceNode ''Paragraph'' 0 2 []]), syntaxTreeAvailable = True\<rparr>"

lemma sample_source_ok: "js_string (editor_doc sample_source)" "reparse_within sample_lib 0 (editor_doc sample_source) (syntaxRoot sample_source t)"
  by (simp_all add: sample_source_def js_string_def js_def reparsedSources_def)

theorem literal_text_exact_witness:
  "\<exists>rs c. literalMarkdownSourceRanges sample_lib 0 sample_source None 0 2 = Some (rs, c) \<and> sorted_wrt (\<lambda>r r'. snd r < fst r') rs"
  using literal_text_exact [OF sample_source_ok, of None 0 2] by (auto simp: cache_ok_def)

theorem tags_outside_links_witness:
  "\<exists>ts ms c. findMarkdownTagMatches sample_lib (emojiTrie []) 0 sample_source None 0 2 = Some (ts, c)
     \<and> findMarkdownMentionMatches sample_lib 0 sample_source None 0 2 = Some (ms, c) \<and> ordered_ranges 0 2 (map tag_range ts)"
  using tags_outside_links [OF sample_source_ok, of None 0 2 "emojiTrie []"] by (auto simp: cache_ok_def sample_source_def js_def)

end
