(* ===== verification/Audio_Recorder.thy ===== *)
theory Audio_Recorder
  imports Editor_State
begin

text \<open>
  Recording audio in the editor, \<^verbatim>\<open>web/src/components/MemoEditor/hooks/useAudioRecorder.ts\<close>, as a state machine: the state and
  the refs of the hook, with what the browser holds for it (streams whose tracks are live, running intervals, unanswered
  requests for the microphone, recorders that have not stopped). A stream is a number; a recorder is known by the request
  that created it. A blob is the list of its bytes.
\<close>

section \<open>Types and files\<close>

datatype AudioRecordingCompleteMode = attach_mode | transcribe_mode

datatype AudioRecorderStatus = idle_status | requesting_permission | recording_status | error_status | unsupported_status

definition FALLBACK_AUDIO_MIME_TYPE :: jsstr where "FALLBACK_AUDIO_MIME_TYPE = js ''audio/webm''"

definition AUDIO_MIME_TYPE_CANDIDATES :: "jsstr list" where
  "AUDIO_MIME_TYPE_CANDIDATES = [js ''audio/webm;codecs=opus'', js ''audio/webm'', js ''audio/mp4'', js ''audio/ogg;codecs=opus'']"

text \<open>\<open>isTypeSupported\<close> of the browser; \<open>dateFields\<close> are year, month, day, hours, minutes and seconds of an instant.\<close>

record recorder_env =
  isSupported :: bool
  isTypeSupported :: "jsstr \<Rightarrow> bool"
  dateFields :: "int \<Rightarrow> nat \<times> nat \<times> nat \<times> nat \<times> nat \<times> nat"
  createBlobUrl :: "File \<Rightarrow> jsstr"

definition getSupportedAudioMimeType :: "recorder_env \<Rightarrow> jsstr option" where
  "getSupportedAudioMimeType E = (if \<not> isSupported E then None else List.find (isTypeSupported E) AUDIO_MIME_TYPE_CANDIDATES)"

definition getFileExtension :: "jsstr \<Rightarrow> jsstr" where
  "getFileExtension mimeType =
     (if strIncludes mimeType (js ''ogg'') then js ''ogg'' else if strIncludes mimeType (js ''mp4'') then js ''m4a'' else js ''webm'')"

definition createRecordedFile :: "recorder_env \<Rightarrow> int \<Rightarrow> nat list \<Rightarrow> jsstr \<Rightarrow> File" where
  "createRecordedFile E now blob mimeType =
     (case dateFields E now of
        (y, mo, d, h, mi, s) \<Rightarrow>
          (let datePart = dec y @ padStart2 (dec mo) @ padStart2 (dec d);
               timePart = padStart2 (dec h) @ padStart2 (dec mi) @ padStart2 (dec s)
           in \<lparr>file_name = js ''voice-note-'' @ datePart @ js ''-'' @ timePart @ js ''.'' @ getFileExtension mimeType,
               file_type = mimeType, file_bytes = blob\<rparr>))"

section \<open>State\<close>

record recorder =
  status :: AudioRecorderStatus
  elapsedSeconds :: nat
  rec_error :: "jsstr option"
  recordingStream :: "nat option"
  mediaRecorder :: "nat option"
  mediaStream :: "nat option"
  chunks :: "nat list list"
  startedAt :: "int option"
  elapsedTimer :: "nat option"
  recorderMimeType :: jsstr
  completionMode :: AudioRecordingCompleteMode
  startRequestId :: nat

datatype outcome = RecordingComplete LocalFile AudioRecordingCompleteMode | RecordingEmpty AudioRecordingCompleteMode

record rec_world =
  hook :: recorder
  liveStreams :: "nat list"
  intervals :: "nat list"
  nextTimer :: nat
  pendingRequests :: "nat list"
  activeRecorders :: "nat list"
  stoppingRecorders :: "nat list"
  outcomes :: "outcome list"

abbreviation on_hook :: "(recorder \<Rightarrow> recorder) \<Rightarrow> rec_world \<Rightarrow> rec_world" where
  "on_hook f w \<equiv> w\<lparr>hook := f (hook w)\<rparr>"

definition cleanupTimer :: "rec_world \<Rightarrow> rec_world" where
  "cleanupTimer w =
     (case elapsedTimer (hook w) of
        None \<Rightarrow> w
      | Some k \<Rightarrow> w\<lparr>intervals := removeAll k (intervals w), hook := (hook w)\<lparr>elapsedTimer := None\<rparr>\<rparr>)"

definition cleanupStream :: "rec_world \<Rightarrow> rec_world" where
  "cleanupStream w =
     (let w1 = (case mediaStream (hook w) of None \<Rightarrow> w | Some s \<Rightarrow> w\<lparr>liveStreams := removeAll s (liveStreams w)\<rparr>)
      in w1\<lparr>hook := (hook w1)\<lparr>mediaStream := None, recordingStream := None\<rparr>\<rparr>)"

definition resetRecorderRefs :: "rec_world \<Rightarrow> rec_world" where
  "resetRecorderRefs w =
     on_hook (\<lambda>h. h\<lparr>mediaRecorder := None, chunks := [], startedAt := None\<rparr>) (cleanupStream (cleanupTimer w))"

section \<open>Operations and events\<close>

definition NOT_SUPPORTED :: jsstr where "NOT_SUPPORTED = js ''Audio recording is not supported in this browser.''"

definition mount_effect :: "recorder_env \<Rightarrow> rec_world \<Rightarrow> rec_world" where
  "mount_effect E w =
     (if \<not> isSupported E then on_hook (\<lambda>h. h\<lparr>status := unsupported_status, rec_error := Some NOT_SUPPORTED\<rparr>) w
      else on_hook (\<lambda>h. h\<lparr>status := idle_status, rec_error := None\<rparr>) w)"

definition unmount_effect :: "recorder_env \<Rightarrow> rec_world \<Rightarrow> rec_world" where
  "unmount_effect E w = (if isSupported E then resetRecorderRefs w else w)"

definition startRecording :: "recorder_env \<Rightarrow> rec_world \<Rightarrow> rec_world" where
  "startRecording E w =
     (let requestId = startRequestId (hook w) + 1; w1 = on_hook (\<lambda>h. h\<lparr>startRequestId := requestId\<rparr>) w
      in if \<not> isSupported E then on_hook (\<lambda>h. h\<lparr>status := unsupported_status, rec_error := Some NOT_SUPPORTED\<rparr>) w1
         else on_hook (\<lambda>h. h\<lparr>rec_error := None, status := requesting_permission, elapsedSeconds := 0\<rparr>)
                (w1\<lparr>pendingRequests := requestId # pendingRequests w1\<rparr>))"

text \<open>The \<open>catch\<close> block.\<close>

definition start_failed :: "nat \<Rightarrow> bool \<Rightarrow> rec_world \<Rightarrow> rec_world" where
  "start_failed requestId permissionDenied w =
     (if startRequestId (hook w) \<noteq> requestId then w
      else resetRecorderRefs
             (on_hook (\<lambda>h. h\<lparr>status := error_status,
                             rec_error := Some (if permissionDenied then js ''Microphone permission was denied.''
                                                else js ''Failed to start audio recording.'')\<rparr>) w))"

datatype start_outcome = Started | ConstructorThrows | StartThrows

text \<open>The browser grants the microphone for a request with a new stream; \<open>res\<close> tells how creating and starting the recorder
  goes. The remaining lines of \<open>startRecording\<close> run.\<close>

definition stream_granted :: "recorder_env \<Rightarrow> nat \<Rightarrow> nat \<Rightarrow> start_outcome \<Rightarrow> int \<Rightarrow> rec_world \<Rightarrow> rec_world" where
  "stream_granted E requestId stream res now w =
     (let w0 = w\<lparr>pendingRequests := removeAll requestId (pendingRequests w), liveStreams := stream # liveStreams w\<rparr>
      in if startRequestId (hook w0) \<noteq> requestId then w0\<lparr>liveStreams := removeAll stream (liveStreams w0)\<rparr>
         else if res = ConstructorThrows then start_failed requestId False w0
         else let mimeType = (case getSupportedAudioMimeType E of Some m \<Rightarrow> m | None \<Rightarrow> FALLBACK_AUDIO_MIME_TYPE);
                  w1 = on_hook (\<lambda>h. h\<lparr>recorderMimeType := mimeType, mediaStream := Some stream, recordingStream := Some stream,
                                      mediaRecorder := Some requestId, chunks := []\<rparr>) w0
              in if res = StartThrows then start_failed requestId False w1
                 else w1\<lparr>activeRecorders := requestId # activeRecorders w1,
                         intervals := nextTimer w1 # intervals w1, nextTimer := nextTimer w1 + 1,
                         hook := (hook w1)\<lparr>startedAt := Some now, status := recording_status, elapsedTimer := Some (nextTimer w1)\<rparr>\<rparr>)"

definition stream_denied :: "nat \<Rightarrow> bool \<Rightarrow> rec_world \<Rightarrow> rec_world" where
  "stream_denied requestId permissionDenied w =
     start_failed requestId permissionDenied (w\<lparr>pendingRequests := removeAll requestId (pendingRequests w)\<rparr>)"

definition data_available :: "nat \<Rightarrow> nat list \<Rightarrow> rec_world \<Rightarrow> rec_world" where
  "data_available requestId blob w =
     (if startRequestId (hook w) \<noteq> requestId then w
      else if blob \<noteq> [] then on_hook (\<lambda>h. h\<lparr>chunks := chunks h @ [blob]\<rparr>) w else w)"

definition roundSeconds :: "int \<Rightarrow> int" where "roundSeconds ms = (ms + 500) div 1000"

definition recorder_stopped :: "recorder_env \<Rightarrow> nat \<Rightarrow> int \<Rightarrow> rec_world \<Rightarrow> rec_world" where
  "recorder_stopped E requestId now w =
     (let w0 = w\<lparr>activeRecorders := removeAll requestId (activeRecorders w),
                stoppingRecorders := removeAll requestId (stoppingRecorders w)\<rparr>; h = hook w0
      in if startRequestId h \<noteq> requestId then w0
         else let durationSeconds = (case startedAt h of None \<Rightarrow> 0 | Some t \<Rightarrow> if t = 0 then 0 else nat (max 0 (roundSeconds (now - t))));
                  blob = concat (chunks h); mode = completionMode h;
                  settle = on_hook (\<lambda>h. h\<lparr>elapsedSeconds := 0, rec_error := None, status := idle_status\<rparr>);
                  w1 = on_hook (\<lambda>h. h\<lparr>completionMode := attach_mode\<rparr>) w0
              in if blob = [] then resetRecorderRefs ((settle w1)\<lparr>outcomes := outcomes w1 @ [RecordingEmpty mode]\<rparr>)
                 else let f = createRecordedFile E now blob (recorderMimeType h);
                          localFile = \<lparr>lf_file = f, lf_previewUrl = createBlobUrl E f, lf_origin = Some audio_recording,
                                       lf_durationSeconds = Some durationSeconds, lf_motionMedia = None, lf_mediaMetadata = None\<rparr>
                      in resetRecorderRefs (settle (w1\<lparr>outcomes := outcomes w1 @ [RecordingComplete localFile mode]\<rparr>)))"

definition timer_ticks :: "int \<Rightarrow> rec_world \<Rightarrow> rec_world" where
  "timer_ticks now w =
     (case startedAt (hook w) of
        None \<Rightarrow> w
      | Some t \<Rightarrow> if t = 0 then w else on_hook (\<lambda>h. h\<lparr>elapsedSeconds := nat (max 0 ((now - t) div 1000))\<rparr>) w)"

definition stopRecording :: "AudioRecordingCompleteMode \<Rightarrow> rec_world \<Rightarrow> bool \<times> rec_world" where
  "stopRecording mode w =
     (case mediaRecorder (hook w) of
        None \<Rightarrow> (False, w)
      | Some r \<Rightarrow> if r \<notin> set (activeRecorders w) then (False, w)
                  else let w1 = cleanupTimer (on_hook (\<lambda>h. h\<lparr>completionMode := mode\<rparr>) w)
                       in (True, w1\<lparr>activeRecorders := removeAll r (activeRecorders w1), stoppingRecorders := r # stoppingRecorders w1\<rparr>))"

definition resetRecording :: "rec_world \<Rightarrow> rec_world" where
  "resetRecording w =
     on_hook (\<lambda>h. h\<lparr>elapsedSeconds := 0, rec_error := None, status := idle_status\<rparr>)
       (resetRecorderRefs (on_hook (\<lambda>h. h\<lparr>startRequestId := startRequestId h + 1, completionMode := attach_mode\<rparr>) w))"

definition isBusy :: "rec_world \<Rightarrow> bool" where
  "isBusy w \<longleftrightarrow> status (hook w) = recording_status \<or> status (hook w) = requesting_permission"

definition initial_world :: rec_world where
  "initial_world =
     \<lparr>hook = \<lparr>status = idle_status, elapsedSeconds = 0, rec_error = None, recordingStream = None, mediaRecorder = None, mediaStream = None,
              chunks = [], startedAt = None, elapsedTimer = None, recorderMimeType = FALLBACK_AUDIO_MIME_TYPE,
              completionMode = attach_mode, startRequestId = 0\<rparr>,
      liveStreams = [], intervals = [], nextTimer = 0, pendingRequests = [], activeRecorders = [], stoppingRecorders = [], outcomes = []\<rparr>"

text \<open>Recorders whose stop event is still to come; a stopped recorder is inactive before its event arrives.\<close>

definition unstopped :: "rec_world \<Rightarrow> nat set" where
  "unstopped w = set (activeRecorders w) \<union> set (stoppingRecorders w)"

text \<open>The runs of a mounted editor. The editor starts a recording only when the recorder is not busy.\<close>

inductive recorder_run :: "recorder_env \<Rightarrow> rec_world \<Rightarrow> bool" for E where
  mounted: "recorder_run E (mount_effect E initial_world)"
| start: "recorder_run E w \<Longrightarrow> \<not> isBusy w \<Longrightarrow> recorder_run E (startRecording E w)"
| granted: "recorder_run E w \<Longrightarrow> r \<in> set (pendingRequests w) \<Longrightarrow> s \<notin> set (liveStreams w) \<Longrightarrow> res \<noteq> ConstructorThrows \<Longrightarrow>
    recorder_run E (stream_granted E r s res now w)"
| denied: "recorder_run E w \<Longrightarrow> r \<in> set (pendingRequests w) \<Longrightarrow> recorder_run E (stream_denied r b w)"
| data: "recorder_run E w \<Longrightarrow> r \<in> unstopped w \<Longrightarrow> recorder_run E (data_available r blob w)"
| stopped: "recorder_run E w \<Longrightarrow> r \<in> unstopped w \<Longrightarrow> recorder_run E (recorder_stopped E r now w)"
| tick: "recorder_run E w \<Longrightarrow> intervals w \<noteq> [] \<Longrightarrow> recorder_run E (timer_ticks now w)"
| stop: "recorder_run E w \<Longrightarrow> recorder_run E (snd (stopRecording mode w))"
| reset: "recorder_run E w \<Longrightarrow> recorder_run E (resetRecording w)"

section \<open>The invariant\<close>

definition rec_inv :: "rec_world \<Rightarrow> bool" where
  "rec_inv w \<longleftrightarrow>
     set (liveStreams w) = set_option (mediaStream (hook w)) \<and> recordingStream (hook w) = mediaStream (hook w)
     \<and> set (intervals w) = set_option (elapsedTimer (hook w))
     \<and> (status (hook w) = recording_status \<longleftrightarrow> mediaStream (hook w) \<noteq> None)
     \<and> (elapsedTimer (hook w) \<noteq> None \<longrightarrow> status (hook w) = recording_status)
     \<and> (\<forall>r \<in> set (pendingRequests w) \<union> unstopped w. r \<le> startRequestId (hook w))
     \<and> (status (hook w) = requesting_permission \<longleftrightarrow> startRequestId (hook w) \<in> set (pendingRequests w))
     \<and> (startRequestId (hook w) \<in> unstopped w \<longrightarrow> status (hook w) = recording_status)
     \<and> (status (hook w) = recording_status \<longrightarrow> mediaRecorder (hook w) = Some (startRequestId (hook w)))"

lemma reset_refs_simps [simp]:
  "mediaStream (hook (resetRecorderRefs w)) = None" "recordingStream (hook (resetRecorderRefs w)) = None"
  "elapsedTimer (hook (resetRecorderRefs w)) = None" "mediaRecorder (hook (resetRecorderRefs w)) = None"
  "status (hook (resetRecorderRefs w)) = status (hook w)" "startRequestId (hook (resetRecorderRefs w)) = startRequestId (hook w)"
  "pendingRequests (resetRecorderRefs w) = pendingRequests w" "unstopped (resetRecorderRefs w) = unstopped w"
  "outcomes (resetRecorderRefs w) = outcomes w"
  "set (liveStreams (resetRecorderRefs w)) = set (liveStreams w) - set_option (mediaStream (hook w))"
  "set (intervals (resetRecorderRefs w)) = set (intervals w) - set_option (elapsedTimer (hook w))"
  by (auto simp: resetRecorderRefs_def cleanupStream_def cleanupTimer_def unstopped_def Let_def split: option.splits)

lemma unstopped_simps [simp]: "unstopped (w\<lparr>hook := h\<rparr>) = unstopped w" "unstopped (w\<lparr>pendingRequests := p\<rparr>) = unstopped w"
  "unstopped (w\<lparr>liveStreams := l\<rparr>) = unstopped w" "unstopped (w\<lparr>outcomes := os\<rparr>) = unstopped w"
  "unstopped (w\<lparr>activeRecorders := removeAll r (activeRecorders w), stoppingRecorders := removeAll r (stoppingRecorders w)\<rparr>) = unstopped w - {r}"
  by (auto simp: unstopped_def)

lemma mount_inv: "rec_inv (mount_effect E initial_world)"
  by (simp add: rec_inv_def mount_effect_def initial_world_def unstopped_def)

lemma fresh_request: "rec_inv w \<Longrightarrow> Suc (startRequestId (hook w)) \<notin> set (pendingRequests w) \<union> unstopped w"
  unfolding rec_inv_def by (metis Suc_n_not_le_n)

lemma request_le: "rec_inv w \<Longrightarrow> r \<in> set (pendingRequests w) \<or> r \<in> unstopped w \<Longrightarrow> r \<le> Suc (startRequestId (hook w))"
  unfolding rec_inv_def by (meson UnI1 UnI2 le_SucI)

lemma audio_start_inv:
  assumes "rec_inv w" "\<not> isBusy w"
  shows "rec_inv (startRecording E w)"
proof -
  have idle: "mediaStream (hook w) = None" "recordingStream (hook w) = None" "elapsedTimer (hook w) = None" "liveStreams w = []" "intervals w = []"
      "status (hook w) \<noteq> recording_status" "status (hook w) \<noteq> requesting_permission"
    using assms by (auto simp: rec_inv_def isBusy_def)
  note f = fresh_request [OF assms(1)] and le = request_le [OF assms(1)]
  show ?thesis
    by (cases "isSupported E") (use idle f le in \<open>auto simp: rec_inv_def startRecording_def Let_def\<close>)
qed

lemma failed_inv:
  assumes "startRequestId (hook w) = r \<Longrightarrow> set (liveStreams w) = set_option (mediaStream (hook w))
    \<and> set (intervals w) = set_option (elapsedTimer (hook w)) \<and> (\<forall>x \<in> set (pendingRequests w) \<union> unstopped w. x \<le> startRequestId (hook w))"
    "startRequestId (hook w) \<noteq> r \<Longrightarrow> rec_inv w" "startRequestId (hook w) = r \<Longrightarrow> r \<notin> set (pendingRequests w) \<and> r \<notin> unstopped w"
  shows "rec_inv (start_failed r b w)"
proof (cases "startRequestId (hook w) = r")
  case True
  then show ?thesis using assms(1,3) by (simp add: rec_inv_def start_failed_def)
next
  case False
  then show ?thesis using assms(2) by (simp add: start_failed_def)
qed

lemma reset_inv: "rec_inv w \<Longrightarrow> rec_inv (resetRecording w)"
  using fresh_request [of w] request_le [of w] by (simp add: rec_inv_def resetRecording_def)

lemma denied_inv:
  assumes "rec_inv w" "r \<in> set (pendingRequests w)"
  shows "rec_inv (stream_denied r b w)"
  unfolding stream_denied_def
proof (rule failed_inv; simp)
  show "startRequestId (hook w) = r \<Longrightarrow> set (liveStreams w) = set_option (mediaStream (hook w)) \<and>
      set (intervals w) = set_option (elapsedTimer (hook w)) \<and> (\<forall>x \<in> set (pendingRequests w) - {r} \<union> unstopped w. x \<le> r)"
    using assms(1) by (auto simp: rec_inv_def)
  show "startRequestId (hook w) \<noteq> r \<Longrightarrow> rec_inv (w\<lparr>pendingRequests := removeAll r (pendingRequests w)\<rparr>)"
    using assms(1) by (auto simp: rec_inv_def)
  show "startRequestId (hook w) = r \<Longrightarrow> r \<notin> unstopped w" using assms by (auto simp: rec_inv_def)
qed

lemma audio_stop_inv:
  assumes "rec_inv w"
  shows "rec_inv (snd (stopRecording mode w))"
proof (cases "mediaRecorder (hook w)")
  case None
  then show ?thesis using assms by (simp add: stopRecording_def)
next
  case (Some r)
  let ?w = "snd (stopRecording mode w)"
  have "?w = w \<or> set (liveStreams ?w) = set (liveStreams w) \<and> mediaStream (hook ?w) = mediaStream (hook w)
      \<and> recordingStream (hook ?w) = recordingStream (hook w) \<and> set (intervals ?w) = set (intervals w) - set_option (elapsedTimer (hook w))
      \<and> elapsedTimer (hook ?w) = None \<and> status (hook ?w) = status (hook w) \<and> pendingRequests ?w = pendingRequests w
      \<and> unstopped ?w = unstopped w \<and> startRequestId (hook ?w) = startRequestId (hook w) \<and> mediaRecorder (hook ?w) = mediaRecorder (hook w)"
    by (auto simp: stopRecording_def Some cleanupTimer_def unstopped_def Let_def split: option.splits)
  then show ?thesis
  proof
    assume "?w = w"
    with assms show ?thesis by simp
  qed (use assms in \<open>auto simp: rec_inv_def\<close>)
qed

lemma stopped_inv:
  assumes "rec_inv w" "r \<in> unstopped w"
  shows "rec_inv (recorder_stopped E r now w)"
proof (cases "startRequestId (hook w) = r")
  case True
  have "status (hook w) = recording_status" "startRequestId (hook w) \<notin> set (pendingRequests w)" using assms True by (auto simp: rec_inv_def)
  then show ?thesis using assms(1) True by (auto simp: rec_inv_def recorder_stopped_def Let_def)
next
  case False
  then show ?thesis using assms(1) by (auto simp: rec_inv_def recorder_stopped_def Let_def)
qed

lemma granted_inv:
  assumes "rec_inv w" "r \<in> set (pendingRequests w)" "s \<notin> set (liveStreams w)" "res \<noteq> ConstructorThrows"
  shows "rec_inv (stream_granted E r s res now w)"
proof (cases "startRequestId (hook w) = r")
  case False
  then show ?thesis using assms(1,3) by (auto simp: rec_inv_def stream_granted_def Let_def)
next
  case True
  then have st: "status (hook w) = requesting_permission" using assms(1,2) by (auto simp: rec_inv_def)
  then have i: "liveStreams w = []" "intervals w = []" "elapsedTimer (hook w) = None" "r \<notin> unstopped w"
      "\<forall>x \<in> set (pendingRequests w) \<union> unstopped w. x \<le> r" using assms(1) True by (auto simp: rec_inv_def)
  show ?thesis
  proof (cases "res = StartThrows")
    case True': True
    show ?thesis unfolding stream_granted_def Let_def using True True' i
      by (auto simp: start_failed_def rec_inv_def)
  next
    case False
    then show ?thesis using True i assms(4)
      by (auto simp: stream_granted_def rec_inv_def Let_def unstopped_def)
  qed
qed

lemma run_inv: "recorder_run E w \<Longrightarrow> rec_inv w"
proof (induction rule: recorder_run.induct)
  case (data w r blob)
  then show ?case by (auto simp: data_available_def rec_inv_def)
next
  case (tick w now)
  then show ?case by (auto simp: timer_ticks_def rec_inv_def split: option.split)
qed (simp_all add: mount_inv audio_start_inv granted_inv denied_inv stopped_inv audio_stop_inv reset_inv)

section \<open>Properties\<close>


definition plain_env :: recorder_env where
  "plain_env = \<lparr>isSupported = True, isTypeSupported = (\<lambda>_. False), dateFields = (\<lambda>_. (2026, 1, 2, 3, 4, 5)), createBlobUrl = file_name\<rparr>"

definition asked :: rec_world where "asked = startRecording plain_env (mount_effect plain_env initial_world)"

lemmas sample_defs = asked_def plain_env_def stream_granted_def startRecording_def mount_effect_def initial_world_def isBusy_def Let_def

lemma asked_run: "recorder_run plain_env asked" "status (hook asked) = requesting_permission" "liveStreams asked = []"
    "pendingRequests asked = [1]" "startRequestId (hook asked) = 1" "outcomes asked = []"
proof -
  have "\<not> isBusy (mount_effect plain_env initial_world)" by (simp add: sample_defs)
  then show "recorder_run plain_env asked" unfolding asked_def by (intro recorder_run.start recorder_run.mounted)
qed (simp_all add: sample_defs)


lemma data_events:
  "startRequestId (hook w) = r \<Longrightarrow>
   \<exists>cs. concat cs = concat (chunks (hook w)) @ concat ds \<and> fold (data_available r) ds w = w\<lparr>hook := (hook w)\<lparr>chunks := cs\<rparr>\<rparr>"
proof (induction ds arbitrary: w)
  case Nil
  show ?case by (intro exI [of _ "chunks (hook w)"]) simp
next
  case (Cons d ds)
  let ?w = "data_available r d w"
  have s: "startRequestId (hook ?w) = r" "concat (chunks (hook ?w)) = concat (chunks (hook w)) @ d"
      "?w\<lparr>hook := (hook ?w)\<lparr>chunks := cs\<rparr>\<rparr> = w\<lparr>hook := (hook w)\<lparr>chunks := cs\<rparr>\<rparr>" for cs
    using Cons.prems by (auto simp: data_available_def)
  from Cons.IH [OF s(1)] show ?case using s by auto
qed

text \<open>A recording delivers exactly its data: from the moment the recorder starts, whatever pieces of data arrive before it
  stops, the file handed over holds their concatenation, with the mode of the stop and the rounded duration; a recording
  without data is reported as empty and nothing is handed over.\<close>

theorem recording_delivers_data:
  assumes "recorder_run E w" "status (hook w) = requesting_permission" "s \<notin> set (liveStreams w)" "start \<noteq> 0"
  shows "let r = startRequestId (hook w); w1 = stream_granted E r s Started start w;
             w2 = snd (stopRecording mode (fold (data_available r) ds w1)); w3 = recorder_stopped E r now w2
    in fst (stopRecording mode (fold (data_available r) ds w1)) \<and> status (hook w3) = idle_status
      \<and> (if concat ds = [] then outcomes w3 = outcomes w @ [RecordingEmpty mode]
         else \<exists>lf. outcomes w3 = outcomes w @ [RecordingComplete lf mode] \<and> file_bytes (lf_file lf) = concat ds
            \<and> lf_origin lf = Some audio_recording \<and> lf_durationSeconds lf = Some (nat (max 0 (roundSeconds (now - start)))))"
proof -
  define r where "r = startRequestId (hook w)"
  define w1 where "w1 = stream_granted E r s Started start w"
  have w1: "startRequestId (hook w1) = r" "chunks (hook w1) = []" "mediaRecorder (hook w1) = Some r" "r \<in> set (activeRecorders w1)"
      "startedAt (hook w1) = Some start" "outcomes w1 = outcomes w"
    by (simp_all add: w1_def stream_granted_def r_def Let_def)
  obtain cs where cs: "concat cs = concat ds" "fold (data_available r) ds w1 = w1\<lparr>hook := (hook w1)\<lparr>chunks := cs\<rparr>\<rparr>"
    using data_events [OF w1(1), of ds] w1(2) by auto
  define w2 where "w2 = snd (stopRecording mode (w1\<lparr>hook := (hook w1)\<lparr>chunks := cs\<rparr>\<rparr>))"
  have w2: "startRequestId (hook w2) = r" "chunks (hook w2) = cs" "startedAt (hook w2) = Some start" "completionMode (hook w2) = mode"
      "outcomes w2 = outcomes w" "fst (stopRecording mode (w1\<lparr>hook := (hook w1)\<lparr>chunks := cs\<rparr>\<rparr>))"
    using w1 by (auto simp: w2_def stopRecording_def cleanupTimer_def Let_def split: option.splits)
  have "status (hook (recorder_stopped E r now w2)) = idle_status
      \<and> (if concat ds = [] then outcomes (recorder_stopped E r now w2) = outcomes w @ [RecordingEmpty mode]
         else \<exists>lf. outcomes (recorder_stopped E r now w2) = outcomes w @ [RecordingComplete lf mode] \<and> file_bytes (lf_file lf) = concat ds
            \<and> lf_origin lf = Some audio_recording \<and> lf_durationSeconds lf = Some (nat (max 0 (roundSeconds (now - start)))))"
    using w2 assms(4) cs(1) by (auto simp: recorder_stopped_def Let_def createRecordedFile_def split: prod.split)
  then show ?thesis unfolding Let_def r_def [symmetric] w1_def [symmetric] cs(2) w2_def [symmetric] using w2(6) by blast
qed

theorem recording_delivers_data_witness:
  "\<exists>lf. outcomes (recorder_stopped plain_env 1 2005 (snd (stopRecording transcribe_mode
      (fold (data_available 1) [[1, 2], [], [3]] (stream_granted plain_env 1 7 Started 5 asked))))) = [RecordingComplete lf transcribe_mode]
    \<and> file_bytes (lf_file lf) = [1, 2, 3] \<and> lf_durationSeconds lf = Some 2"
  using recording_delivers_data [OF asked_run(1,2), of 7 5 transcribe_mode "[[1, 2], [], [3]]" 2005] asked_run
  by (auto simp: Let_def roundSeconds_def)

section \<open>Two ways to leave the microphone open\<close>

text \<open>The cleanup of the effect does not give up an unanswered request: the stream that arrives after the editor is unmounted
  is kept and recorded.\<close>

lemma unmount_leaves_microphone_open:
  "let w = stream_granted plain_env 1 7 Started 5 (unmount_effect plain_env asked)
   in liveStreams w = [7] \<and> status (hook w) = recording_status"
  by (simp add: sample_defs unmount_effect_def resetRecorderRefs_def cleanupStream_def cleanupTimer_def)

text \<open>When the constructor of the recorder throws, the stream is not yet stored, so the cleanup does not close it.\<close>

lemma failed_recorder_leaves_microphone_open:
  "let w = stream_granted plain_env 1 7 ConstructorThrows 5 asked
   in liveStreams w = [7] \<and> status (hook w) = error_status"
  by (simp add: sample_defs start_failed_def resetRecorderRefs_def cleanupStream_def cleanupTimer_def)

end
