(* ===== verification/Inline_Upload.thy ===== *)
theory Inline_Upload
  imports Managed_Attachments Editor_Commands Upload_Service "HOL-Library.Multiset"
begin

text \<open>
  Images that are uploaded into the text of a memo: the upload anchors of the editor
  (\<^verbatim>\<open>web/src/components/MemoEditor/Editor/uploadAnchors.ts\<close>, with the operations of \<^verbatim>\<open>Editor/controller.ts\<close> on them) and the jobs
  that upload the images and put the references where the anchors are
  (\<^verbatim>\<open>web/src/components/MemoEditor/hooks/useInlineImageUpload.ts\<close>).

  The set of decorations belongs to the editor library: it is a list of positions and descriptors in the order of the
  positions, and how a change moves a position is the argument \<open>mapPos\<close> (\<open>None\<close> when the position is deleted). A callback of
  a descriptor is represented by the job it is for. A job that waits for an upload records the index of the entry.
\<close>

section \<open>Upload anchors\<close>

datatype UploadAnchorStatus = anchor_uploading | anchor_failed

record UploadAnchorDescriptor =
  anchor_id :: jsstr
  anchor_status :: UploadAnchorStatus
  completed :: nat
  total :: nat
  onRetry :: "jsstr option"
  onKeepAttachments :: "jsstr option"

type_synonym anchors = "(nat \<times> UploadAnchorDescriptor) list"

datatype anchor_effect = AddUploadAnchor int UploadAnchorDescriptor | UpdateUploadAnchor UploadAnchorDescriptor | RemoveUploadAnchor jsstr

definition findAnchorPosition :: "anchors \<Rightarrow> jsstr \<Rightarrow> nat option" where
  "findAnchorPosition decorations i = map_option fst (List.find (\<lambda>d. anchor_id (snd d) = i) (rev decorations))"

definition add_anchor :: "nat \<Rightarrow> UploadAnchorDescriptor \<Rightarrow> anchors \<Rightarrow> anchors" where
  "add_anchor position d as = takeWhile (\<lambda>a. fst a \<le> position) as @ (position, d) # dropWhile (\<lambda>a. fst a \<le> position) as"

definition without_anchor :: "jsstr \<Rightarrow> anchors \<Rightarrow> anchors" where
  "without_anchor i as = filter (\<lambda>a. anchor_id (snd a) \<noteq> i) as"

fun anchor_effect_step :: "nat \<Rightarrow> anchors \<Rightarrow> anchor_effect \<Rightarrow> anchors" where
  "anchor_effect_step len as (AddUploadAnchor position d) = add_anchor (nat (min (max position 0) (int len))) d as"
| "anchor_effect_step len as (UpdateUploadAnchor d) =
     (case findAnchorPosition as (anchor_id d) of
        None \<Rightarrow> as
      | Some position \<Rightarrow> add_anchor position d (without_anchor (anchor_id d) as))"
| "anchor_effect_step len as (RemoveUploadAnchor i) = without_anchor i as"

text \<open>A transaction: how it maps positions, its effects and the length of the document it leads to.\<close>

definition uploadAnchorField_update :: "(nat \<Rightarrow> nat option) \<Rightarrow> nat \<Rightarrow> anchor_effect list \<Rightarrow> anchors \<Rightarrow> anchors" where
  "uploadAnchorField_update mapping len effects as =
     foldl (anchor_effect_step len) (List.map_filter (\<lambda>(p, d). map_option (\<lambda>q. (q, d)) (mapping p)) as) effects"

record anchored_view =
  av_doc :: jsstr
  av_head :: nat
  av_anchors :: anchors

definition effects_only :: "anchor_effect list \<Rightarrow> anchored_view \<Rightarrow> anchored_view" where
  "effects_only effects v = v\<lparr>av_anchors := uploadAnchorField_update Some (length (av_doc v)) effects (av_anchors v)\<rparr>"

definition createUploadAnchor :: "UploadAnchorDescriptor \<Rightarrow> int option \<Rightarrow> anchored_view \<Rightarrow> anchored_view" where
  "createUploadAnchor d position v =
     effects_only [AddUploadAnchor (case position of None \<Rightarrow> int (av_head v) | Some p \<Rightarrow> p) d] v"

definition setUploadAnchor :: "UploadAnchorDescriptor \<Rightarrow> anchored_view \<Rightarrow> anchored_view" where
  "setUploadAnchor d v = effects_only [UpdateUploadAnchor d] v"

definition cancelUploadAnchor :: "jsstr \<Rightarrow> anchored_view \<Rightarrow> anchored_view" where
  "cancelUploadAnchor i v = effects_only [RemoveUploadAnchor i] v"

definition getUploadAnchorPosition :: "anchored_view \<Rightarrow> jsstr \<Rightarrow> nat option" where
  "getUploadAnchorPosition v i = findAnchorPosition (av_anchors v) i"

text \<open>\<open>mapPos q ins\<close> maps positions over the insertion of \<open>ins\<close> at \<open>q\<close>.\<close>

definition resolveUploadAnchor :: "(nat \<Rightarrow> jsstr \<Rightarrow> nat \<Rightarrow> nat option) \<Rightarrow> jsstr \<Rightarrow> jsstr \<Rightarrow> anchored_view \<Rightarrow> anchored_view" where
  "resolveUploadAnchor mapPos i markdown v =
     (case getUploadAnchorPosition v i of
        None \<Rightarrow> v
      | Some position \<Rightarrow>
          if markdown = [] then cancelUploadAnchor i v
          else case blockPad (take position (av_doc v)) (drop position (av_doc v)) of
                 (before, after) \<Rightarrow>
                   (let ins = before @ markdown @ after; doc = take position (av_doc v) @ ins @ drop position (av_doc v)
                    in \<lparr>av_doc = doc, av_head = position + length ins,
                        av_anchors = uploadAnchorField_update (mapPos position ins) (length doc) [RemoveUploadAnchor i] (av_anchors v)\<rparr>))"

section \<open>Which files go inline\<close>

record InlineLocalFileSplit =
  inline_files :: "LocalFile list"
  representativeIndexes :: "nat list"
  attachment_files :: "LocalFile list"

definition isImageFile :: "LocalFile \<Rightarrow> bool" where "isImageFile f \<longleftrightarrow> isImage (file_type (lf_file f))"

fun indexWhere :: "('a \<Rightarrow> bool) \<Rightarrow> 'a list \<Rightarrow> nat option" where
  "indexWhere P [] = None"
| "indexWhere P (x # xs) = (if P x then Some 0 else map_option Suc (indexWhere P xs))"

fun splitLoop :: "LocalFile list \<Rightarrow> LocalFile list \<Rightarrow> jsstr list \<Rightarrow> InlineLocalFileSplit \<Rightarrow> InlineLocalFileSplit" where
  "splitLoop allFiles [] consumedGroups s = s"
| "splitLoop allFiles (f # fs) consumedGroups s =
     (case localGroupId f of
        None \<Rightarrow>
          (if isImageFile f
           then splitLoop allFiles fs consumedGroups
                  (s\<lparr>representativeIndexes := representativeIndexes s @ [length (inline_files s)], inline_files := inline_files s @ [f]\<rparr>)
           else splitLoop allFiles fs consumedGroups (s\<lparr>attachment_files := attachment_files s @ [f]\<rparr>))
      | Some g \<Rightarrow>
          (if g \<in> set consumedGroups then splitLoop allFiles fs consumedGroups s
           else let grp = filter (\<lambda>c. localGroupId c = Some g) allFiles
                in case indexWhere isImageFile grp of
                     None \<Rightarrow> splitLoop allFiles fs (g # consumedGroups) (s\<lparr>attachment_files := attachment_files s @ grp\<rparr>)
                   | Some k \<Rightarrow> splitLoop allFiles fs (g # consumedGroups)
                       (s\<lparr>representativeIndexes := representativeIndexes s @ [length (inline_files s) + k],
                          inline_files := inline_files s @ grp\<rparr>)))"

definition splitInlineLocalFiles :: "LocalFile list \<Rightarrow> InlineLocalFileSplit" where
  "splitInlineLocalFiles allFiles =
     splitLoop allFiles allFiles [] \<lparr>inline_files = [], representativeIndexes = [], attachment_files = []\<rparr>"

section \<open>Jobs\<close>

record UploadEntry =
  entry_file :: LocalFile
  entry_attachment :: "Attachment option"

record UploadJob =
  entries :: "UploadEntry list"
  job_representatives :: "nat list"
  active :: bool
  awaiting :: "nat option"

record upload_host =
  host_editor :: EditorState
  host_view :: "anchored_view option"
  jobs :: "(jsstr \<times> UploadJob) list"
  disposed :: bool
  uploadingURLs :: "jsstr list"
  toasts :: nat

definition createJob :: "LocalFile list \<Rightarrow> UploadJob option" where
  "createJob fs =
     (let s = splitInlineLocalFiles fs
      in if inline_files s = [] then None
         else Some \<lparr>entries = map (\<lambda>f. \<lparr>entry_file = f, entry_attachment = None\<rparr>) (inline_files s),
                    job_representatives = representativeIndexes s, active = False, awaiting = None\<rparr>)"

abbreviation host_dispatch :: "EditorAction \<Rightarrow> upload_host \<Rightarrow> upload_host" where
  "host_dispatch a h \<equiv> h\<lparr>host_editor := editorReducer (host_editor h) a\<rparr>"

abbreviation on_view :: "(anchored_view \<Rightarrow> anchored_view) \<Rightarrow> upload_host \<Rightarrow> upload_host" where
  "on_view f h \<equiv> h\<lparr>host_view := map_option f (host_view h)\<rparr>"

definition syncJobState :: "upload_host \<Rightarrow> upload_host" where
  "syncJobState h =
     (let live = map snd (jobs h);
          h1 = (if pendingInlineImageInsertions (ui (host_editor h)) \<noteq> int (length live)
                then host_dispatch (setPendingInlineImageInsertions (int (length live))) h else h);
          isUploading = list_ex active live;
          h2 = (if uploading (isLoading (ui (host_editor h))) \<noteq> isUploading
                then host_dispatch (setLoading uploading_key isUploading) h1 else h1);
          urls = set_of (concat (map (\<lambda>job. if active job
                   then map (\<lambda>e. lf_previewUrl (entry_file e)) (filter (\<lambda>e. entry_attachment e = None) (entries job)) else []) live))
      in h2\<lparr>uploadingURLs := (if length (uploadingURLs h) = length urls \<and> list_all (\<lambda>u. u \<in> set (uploadingURLs h)) urls
                              then uploadingURLs h else urls)\<rparr>)"

definition appendAttachment :: "Attachment \<Rightarrow> jsstr \<Rightarrow> upload_host \<Rightarrow> upload_host" where
  "appendAttachment a localPreviewURL h =
     (let state = host_editor h;
          h1 = host_dispatch (setMetadata \<lparr>p_visibility = None,
                 p_attachments = Some (dedupe_from att_name {} (meta_attachments (metadata state) @ [a])),
                 p_relations = None, p_location = None\<rparr>) h
      in if list_ex (\<lambda>f. lf_previewUrl f = localPreviewURL) (localFiles state)
         then host_dispatch (removeLocalFile localPreviewURL) h1 else h1)"

definition finishJob :: "jsstr \<Rightarrow> upload_host \<Rightarrow> upload_host" where
  "finishJob i h = syncJobState (h\<lparr>jobs := AList.delete i (jobs h)\<rparr>)"

definition dismissJob :: "jsstr \<Rightarrow> upload_host \<Rightarrow> upload_host" where
  "dismissJob i h =
     (case map_of (jobs h) i of
        None \<Rightarrow> h
      | Some job \<Rightarrow> if active job then h else finishJob i (on_view (cancelUploadAnchor i) h))"

definition descriptorFor :: "jsstr \<Rightarrow> UploadJob \<Rightarrow> UploadAnchorStatus \<Rightarrow> UploadAnchorDescriptor" where
  "descriptorFor i job st =
     \<lparr>anchor_id = i, anchor_status = st, completed = length (filter (\<lambda>e. entry_attachment e \<noteq> None) (entries job)),
      total = length (entries job), onRetry = (if st = anchor_failed then Some i else None),
      onKeepAttachments = (if st = anchor_failed then Some i else None)\<rparr>"

abbreviation put_job :: "jsstr \<Rightarrow> UploadJob \<Rightarrow> upload_host \<Rightarrow> upload_host" where
  "put_job i job h \<equiv> h\<lparr>jobs := AList.update i job (jobs h)\<rparr>"

text \<open>The next entry of the loop that has no attachment, from index \<open>k\<close> on.\<close>

definition nextPending :: "UploadJob \<Rightarrow> nat \<Rightarrow> nat option" where
  "nextPending job k = List.find (\<lambda>n. entry_attachment (entries job ! n) = None) [k..<length (entries job)]"

text \<open>\<open>None\<close>: building a reference throws.\<close>

definition jobMarkdown :: "UploadJob \<Rightarrow> jsstr option" where
  "jobMarkdown job =
     map_option (join [10, 10])
       (those (map (\<lambda>n. case entry_attachment (entries job ! n) of None \<Rightarrow> None | Some a \<Rightarrow> buildManagedAttachmentMarkdown a)
                 (job_representatives job)))"

definition run_ends :: "(nat \<Rightarrow> jsstr \<Rightarrow> nat \<Rightarrow> nat option) \<Rightarrow> jsstr \<Rightarrow> UploadJob \<Rightarrow> upload_host \<Rightarrow> upload_host" where
  "run_ends mapPos i job h =
     (let job1 = job\<lparr>active := False, awaiting := None\<rparr>; h1 = syncJobState (put_job i job1 h)
      in if list_ex (\<lambda>e. entry_attachment e = None) (entries job1)
         then (on_view (setUploadAnchor (descriptorFor i job1 anchor_failed)) h1)\<lparr>toasts := toasts h1 + 1\<rparr>
         else case jobMarkdown job1 of
                None \<Rightarrow> h1
              | Some markdown \<Rightarrow> finishJob i (on_view (resolveUploadAnchor mapPos i markdown) h1))"

text \<open>The loop goes on at index \<open>k\<close>: it waits for the next upload, or ends.\<close>

definition run_continues :: "(nat \<Rightarrow> jsstr \<Rightarrow> nat \<Rightarrow> nat option) \<Rightarrow> jsstr \<Rightarrow> UploadJob \<Rightarrow> nat \<Rightarrow> upload_host \<Rightarrow> upload_host" where
  "run_continues mapPos i job k h =
     (case nextPending job k of
        Some n \<Rightarrow> put_job i (job\<lparr>awaiting := Some n\<rparr>) h
      | None \<Rightarrow> run_ends mapPos i job h)"

definition runJob :: "(nat \<Rightarrow> jsstr \<Rightarrow> nat \<Rightarrow> nat option) \<Rightarrow> jsstr \<Rightarrow> upload_host \<Rightarrow> upload_host" where
  "runJob mapPos i h =
     (case map_of (jobs h) i of
        None \<Rightarrow> h
      | Some job \<Rightarrow>
          if active job \<or> disposed h then h
          else let job1 = job\<lparr>active := True\<rparr>
               in run_continues mapPos i job1 0
                    (on_view (setUploadAnchor (descriptorFor i job1 anchor_uploading)) (syncJobState (put_job i job1 h))))"

text \<open>The upload a job waits for settles.\<close>

definition upload_settles :: "(nat \<Rightarrow> jsstr \<Rightarrow> nat \<Rightarrow> nat option) \<Rightarrow> jsstr \<Rightarrow> upload_error + Attachment \<Rightarrow> upload_host \<Rightarrow> upload_host" where
  "upload_settles mapPos i res h =
     (case map_of (jobs h) i of
        None \<Rightarrow> h
      | Some job \<Rightarrow>
          (case awaiting job of
             None \<Rightarrow> h
           | Some n \<Rightarrow>
               (case res of
                  Inl e \<Rightarrow> run_continues mapPos i (job\<lparr>awaiting := None\<rparr>) (Suc n) h
                | Inr a \<Rightarrow>
                    (let job1 = job\<lparr>entries := (entries job)[n := (entries job ! n)\<lparr>entry_attachment := Some a\<rparr>], awaiting := None\<rparr>
                     in run_continues mapPos i job1 (Suc n)
                          (on_view (setUploadAnchor (descriptorFor i job1 anchor_uploading))
                             (appendAttachment a (lf_previewUrl (entry_file (entries job ! n))) (put_job i job1 h)))))))"

text \<open>\<open>i\<close> is the identifier that \<open>uuidv4()\<close> yields.\<close>

definition insertLocalImages :: "(nat \<Rightarrow> jsstr \<Rightarrow> nat \<Rightarrow> nat option) \<Rightarrow> jsstr \<Rightarrow> LocalFile list \<Rightarrow> int option \<Rightarrow> upload_host \<Rightarrow> upload_host" where
  "insertLocalImages mapPos i fs position h =
     (if saving (isLoading (ui (host_editor h))) then h
      else case (host_view h, createJob fs) of
             (Some v, Some job) \<Rightarrow>
               runJob mapPos i (on_view (createUploadAnchor (descriptorFor i job anchor_uploading) position) (syncJobState (put_job i job h)))
           | _ \<Rightarrow> h)"

definition insertRemoteImages :: "Attachment list \<Rightarrow> jsstr option" where
  "insertRemoteImages as = map_option (join [10, 10]) (those (map buildManagedAttachmentMarkdown (filter canInlineAttachment as)))"

definition dispose_jobs :: "upload_host \<Rightarrow> upload_host" where
  "dispose_jobs h = h\<lparr>disposed := True, jobs := []\<rparr>"

section \<open>Every picked file has one place\<close>

lemma indexWhere_Some: "indexWhere P xs = Some k \<Longrightarrow> k < length xs \<and> P (xs ! k)"
  by (induction xs arbitrary: k) (auto split: if_splits)

definition later :: "LocalFile list \<Rightarrow> LocalFile list \<Rightarrow> jsstr list \<Rightarrow> LocalFile \<Rightarrow> bool" where
  "later allFiles rest consumed f \<longleftrightarrow>
     (case localGroupId f of None \<Rightarrow> False | Some g \<Rightarrow> g \<notin> set consumed \<and> Some g \<in> localGroupId ` set rest)"

lemma later_None: "localGroupId f = None \<Longrightarrow> later allFiles (f # rest) c = later allFiles rest c"
  by (rule ext) (auto simp: later_def split: option.splits)

lemma later_consumed: "localGroupId f = Some g \<Longrightarrow> g \<in> set c \<Longrightarrow> later allFiles (f # rest) c = later allFiles rest c"
  by (rule ext) (auto simp: later_def split: option.splits)

lemma later_new:
  assumes "localGroupId f = Some g" "g \<notin> set c"
  shows "mset (filter (later allFiles (f # rest) c) xs)
    = mset (filter (\<lambda>x. localGroupId x = Some g) xs) + mset (filter (later allFiles rest (g # c)) xs)"
  using assms by (induction xs) (auto simp: later_def split: option.splits)

lemma splitLoop_mset:
  "mset (inline_files (splitLoop allFiles rest c s)) + mset (attachment_files (splitLoop allFiles rest c s))
   = mset (inline_files s) + mset (attachment_files s) + mset (filter (\<lambda>f. localGroupId f = None) rest)
     + mset (filter (later allFiles rest c) allFiles)"
proof (induction allFiles rest c s rule: splitLoop.induct)
  case (1 allFiles c s)
  have "filter (later allFiles [] c) allFiles = []" by (auto simp: later_def filter_empty_conv split: option.splits)
  then show ?case by simp
next
  case (2 allFiles f fs c s)
  show ?case
  proof (cases "localGroupId f")
    case None
    then show ?thesis using "2.IH"(1,2) [OF None] by (simp add: later_None [OF None])
  next
    case (Some g)
    show ?thesis
    proof (cases "g \<in> set c")
      case True
      then show ?thesis using Some "2.IH"(3) [OF Some True] by (simp add: later_consumed [OF Some True])
    next
      case False
      then show ?thesis using Some "2.IH"(4,5) [OF Some False refl]
        by (auto simp: later_new [OF Some False, unfolded mset_filter] Let_def ac_simps split: option.splits)
    qed
  qed
qed

definition representatives_ok :: "InlineLocalFileSplit \<Rightarrow> bool" where
  "representatives_ok s \<longleftrightarrow> list_all (\<lambda>k. k < length (inline_files s) \<and> isImageFile (inline_files s ! k)) (representativeIndexes s)"

lemma representatives_append:
  "representatives_ok s \<Longrightarrow> k < length g \<Longrightarrow> isImageFile (g ! k) \<Longrightarrow>
   representatives_ok (s\<lparr>representativeIndexes := representativeIndexes s @ [length (inline_files s) + k], inline_files := inline_files s @ g\<rparr>)"
  by (auto simp: representatives_ok_def list_all_iff nth_append)

lemma representatives_attach: "representatives_ok (s\<lparr>attachment_files := xs\<rparr>) = representatives_ok s"
  by (simp add: representatives_ok_def)

lemma splitLoop_representatives: "representatives_ok s \<Longrightarrow> representatives_ok (splitLoop allFiles rest c s)"
proof (induction allFiles rest c s rule: splitLoop.induct)
  case (2 allFiles f fs c s)
  show ?case
  proof (cases "localGroupId f")
    case None
    then show ?thesis
      using "2.IH"(1,2) [OF None] "2.prems" representatives_append [of s 0 "[f]"] by (simp add: representatives_attach)
  next
    case (Some g)
    show ?thesis
    proof (cases "g \<in> set c")
      case True
      then show ?thesis using Some "2.IH"(3) [OF Some True] "2.prems" by simp
    next
      case False
      let ?g = "filter (\<lambda>x. localGroupId x = Some g) allFiles"
      show ?thesis
      proof (cases "indexWhere isImageFile ?g")
        case None
        then show ?thesis using Some False "2.IH"(4) [OF Some False refl None] "2.prems" by (simp add: representatives_attach)
      next
        case j: (Some j)
        show ?thesis
          using "2.IH"(5) [OF Some False refl j] representatives_append [OF "2.prems", of j ?g] indexWhere_Some [OF j] Some False j by simp
      qed
    qed
  qed
qed simp

text \<open>Splitting the picked files loses and duplicates none: every file is either placed in the text or attached. Each
  reference that will be written stands for an image among the files in the text.\<close>

theorem split_keeps_files:
  "mset (inline_files (splitInlineLocalFiles fs)) + mset (attachment_files (splitInlineLocalFiles fs)) = mset fs
   \<and> list_all (\<lambda>k. k < length (inline_files (splitInlineLocalFiles fs)) \<and> isImageFile (inline_files (splitInlineLocalFiles fs) ! k))
       (representativeIndexes (splitInlineLocalFiles fs))"
proof -
  have "filter (later fs fs []) fs = filter (\<lambda>f. localGroupId f \<noteq> None) fs"
    by (rule filter_cong [OF refl]) (force simp: later_def image_iff split: option.splits)
  moreover have "mset (filter (\<lambda>f. localGroupId f = None) fs) + mset (filter (\<lambda>f. localGroupId f \<noteq> None) fs) = mset fs"
    by (induction fs) auto
  ultimately have "mset (inline_files (splitInlineLocalFiles fs)) + mset (attachment_files (splitInlineLocalFiles fs)) = mset fs"
    by (simp add: splitInlineLocalFiles_def splitLoop_mset)
  then show ?thesis
    using splitLoop_representatives [of "\<lparr>inline_files = [], representativeIndexes = [], attachment_files = []\<rparr>" fs fs "[]"]
    by (simp add: representatives_ok_def splitInlineLocalFiles_def)
qed

section \<open>Jobs and the save gate\<close>

abbreviation pending_of :: "upload_host \<Rightarrow> int" where "pending_of h \<equiv> pendingInlineImageInsertions (ui (host_editor h))"
abbreviation uploading_of :: "upload_host \<Rightarrow> bool" where "uploading_of h \<equiv> uploading (isLoading (ui (host_editor h)))"

definition job_ok :: "UploadJob \<Rightarrow> bool" where
  "job_ok job \<longleftrightarrow> (active job \<longleftrightarrow> awaiting job \<noteq> None)
     \<and> (\<forall>n. awaiting job = Some n \<longrightarrow> n < length (entries job) \<and> entry_attachment (entries job ! n) = None)"

definition in_sync :: "upload_host \<Rightarrow> bool" where
  "in_sync h \<longleftrightarrow> pending_of h = int (length (jobs h)) \<and> (uploading_of h \<longleftrightarrow> (\<exists>job \<in> snd ` set (jobs h). active job))"

definition host_ok :: "upload_host \<Rightarrow> bool" where
  "host_ok h \<longleftrightarrow> in_sync h \<and> distinct (map fst (jobs h)) \<and> (\<forall>job \<in> snd ` set (jobs h). job_ok job)"

lemma sync_sync: "in_sync (syncJobState h)"
  by (auto simp: in_sync_def syncJobState_def Let_def setPendingInlineImageInsertions_def setLoading_def list_ex_iff)

lemma sync_simps [simp]: "jobs (syncJobState h) = jobs h" "host_view (syncJobState h) = host_view h" "disposed (syncJobState h) = disposed h"
  "saving (isLoading (ui (host_editor (syncJobState h)))) = saving (isLoading (ui (host_editor h)))"
  by (simp_all add: syncJobState_def Let_def setPendingInlineImageInsertions_def setLoading_def)

lemma append_simps [simp]: "jobs (appendAttachment a u h) = jobs h" "pending_of (appendAttachment a u h) = pending_of h"
  "uploading_of (appendAttachment a u h) = uploading_of h" "disposed (appendAttachment a u h) = disposed h"
  by (simp_all add: appendAttachment_def Let_def setMetadata_def removeLocalFile_def)

lemma in_sync_cong: "jobs h' = jobs h \<Longrightarrow> pending_of h' = pending_of h \<Longrightarrow> uploading_of h' = uploading_of h \<Longrightarrow> in_sync h' = in_sync h"
  by (simp add: in_sync_def)

lemma nextPending_Some: "nextPending job k = Some n \<Longrightarrow> k \<le> n \<and> n < length (entries job) \<and> entry_attachment (entries job ! n) = None"
  by (auto simp: nextPending_def find_Some_iff)

lemma update_values: "snd ` set (AList.update i v xs) \<subseteq> insert v (snd ` set xs)"
  by (induction xs) auto

lemma delete_values: "snd ` set (AList.delete i xs) \<subseteq> snd ` set xs"
  by (auto simp: AList.delete_eq)

lemma distinct_delete: "distinct (map fst xs) \<Longrightarrow> distinct (map fst (AList.delete i xs))"
  by (simp add: AList.distinct_delete)

lemma update_length: "map_of xs i \<noteq> None \<Longrightarrow> length (AList.update i v xs) = length xs"
  by (induction xs) auto

text \<open>Replacing a job that keeps its flag keeps the host in step.\<close>

lemma update_pairs: "distinct (map fst xs) \<Longrightarrow> set (AList.update i v xs) = insert (i, v) {x \<in> set xs. fst x \<noteq> i}"
  by (induction xs) (auto, force)

lemma other_values: "distinct (map fst xs) \<Longrightarrow> snd ` set (AList.update i v xs) = insert v (snd ` {x \<in> set xs. fst x \<noteq> i})"
  by (simp add: update_pairs)

lemma put_in_sync:
  assumes "in_sync h" "distinct (map fst (jobs h))" "map_of (jobs h) i = Some job" "active job' = active job"
  shows "in_sync (put_job i job' h)"
proof -
  have m: "(i, job) \<in> set (jobs h)" using assms(3) by (rule map_of_SomeD)
  have same: "snd x = job" if "x \<in> set (jobs h)" "fst x = i" for x
    using that assms(2,3) by (metis map_of_is_SomeI option.inject prod.collapse)
  have "(\<exists>j \<in> snd ` set (jobs h). active j) \<longleftrightarrow> active job \<or> (\<exists>j \<in> snd ` {x \<in> set (jobs h). fst x \<noteq> i}. active j)"
  proof
    assume "\<exists>j \<in> snd ` set (jobs h). active j"
    then obtain x where "x \<in> set (jobs h)" "active (snd x)" by auto
    then show "active job \<or> (\<exists>j \<in> snd ` {x \<in> set (jobs h). fst x \<noteq> i}. active j)" using same [of x] by (cases "fst x = i") blast+
  next
    assume "active job \<or> (\<exists>j \<in> snd ` {x \<in> set (jobs h). fst x \<noteq> i}. active j)"
    then show "\<exists>j \<in> snd ` set (jobs h). active j" using m by force
  qed
  moreover have "(\<exists>j \<in> snd ` set (AList.update i job' (jobs h)). active j)
      \<longleftrightarrow> active job' \<or> (\<exists>j \<in> snd ` {x \<in> set (jobs h). fst x \<noteq> i}. active j)"
    unfolding other_values [OF assms(2)] by blast
  ultimately show ?thesis using assms(1,3,4) unfolding in_sync_def by (simp add: update_length)
qed

lemma finish_ok: "distinct (map fst (jobs h)) \<Longrightarrow> \<forall>job \<in> snd ` set (jobs h). job_ok job \<Longrightarrow> host_ok (finishJob i h)"
  using distinct_delete [of "jobs h" i] by (auto simp: host_ok_def finishJob_def sync_sync AList.delete_eq)

lemma run_ends_ok:
  assumes "distinct (map fst (jobs h))" "\<forall>job \<in> snd ` {x \<in> set (jobs h). fst x \<noteq> i}. job_ok job"
  shows "host_ok (run_ends mapPos i job h)"
proof -
  define job1 where "job1 = job\<lparr>active := False, awaiting := None\<rparr>"
  define h1 where "h1 = syncJobState (put_job i job1 h)"
  have j: "job_ok job1" by (simp add: job_ok_def job1_def)
  have h1: "distinct (map fst (jobs h1))" "\<forall>job \<in> snd ` set (jobs h1). job_ok job" "in_sync h1"
    using assms j by (auto simp: h1_def sync_sync distinct_update other_values)
  then have "host_ok h1" by (simp add: host_ok_def)
  moreover have "host_ok (h'\<lparr>toasts := n\<rparr>) = host_ok h'" "host_ok (on_view f h') = host_ok h'" for h' n f
    by (simp_all add: host_ok_def in_sync_def)
  ultimately show ?thesis unfolding run_ends_def Let_def job1_def [symmetric] h1_def [symmetric]
    using h1 by (auto split: option.splits intro!: finish_ok)
qed

lemma run_continues_ok:
  assumes "distinct (map fst (jobs h))" "\<forall>job' \<in> snd ` {x \<in> set (jobs h). fst x \<noteq> i}. job_ok job'" "map_of (jobs h) i = Some job0" "active job0"
    "in_sync h" "active job"
  shows "host_ok (run_continues mapPos i job k h)"
proof (cases "nextPending job k")
  case (Some n)
  let ?job = "job\<lparr>awaiting := Some n\<rparr>"
  have "job_ok ?job" using nextPending_Some [OF Some] assms(6) by (simp add: job_ok_def)
  then show ?thesis using Some assms put_in_sync [of h i job0 ?job]
    by (auto simp: host_ok_def run_continues_def distinct_update other_values)
next
  case None
  then show ?thesis using run_ends_ok [OF assms(1,2)] by (simp add: run_continues_def)
qed

lemma others_put: "distinct (map fst xs) \<Longrightarrow> {x \<in> set (AList.update i v xs). fst x \<noteq> i} = {x \<in> set xs. fst x \<noteq> i}"
  by (induction xs) auto

lemma runJob_ok:
  assumes "host_ok h"
  shows "host_ok (runJob mapPos i h)"
proof (cases "map_of (jobs h) i")
  case None
  then show ?thesis using assms by (simp add: runJob_def)
next
  case (Some job)
  show ?thesis
  proof (cases "active job \<or> disposed h")
    case True
    then show ?thesis using assms Some by (simp add: runJob_def)
  next
    case False
    define job1 where "job1 = job\<lparr>active := True\<rparr>"
    define h1 where "h1 = on_view (setUploadAnchor (descriptorFor i job1 anchor_uploading)) (syncJobState (put_job i job1 h))"
    have d: "distinct (map fst (jobs h))" using assms by (simp add: host_ok_def)
    have "in_sync h1" unfolding h1_def using sync_sync [of "put_job i job1 h"] by (simp add: in_sync_def)
    then have "host_ok (run_continues mapPos i job1 0 h1)"
      by (rule run_continues_ok [rotated 4, where job0 = job1])
        (use assms d in \<open>auto simp: h1_def job1_def distinct_update update_conv' others_put host_ok_def\<close>)
    then show ?thesis using Some False unfolding h1_def job1_def by (simp add: runJob_def Let_def)
  qed
qed

lemma settles_ok:
  assumes "host_ok h"
  shows "host_ok (upload_settles mapPos i res h)"
proof (cases "map_of (jobs h) i")
  case None
  then show ?thesis using assms by (simp add: upload_settles_def)
next
  case (Some job)
  have d: "distinct (map fst (jobs h))" "in_sync h" "\<forall>job' \<in> snd ` {x \<in> set (jobs h). fst x \<noteq> i}. job_ok job'"
    and j: "job_ok job" using assms Some by (auto simp: host_ok_def dest: map_of_SomeD)
  show ?thesis
  proof (cases "awaiting job")
    case None
    then show ?thesis using assms Some by (simp add: upload_settles_def)
  next
    case aw: (Some n)
    then have a: "active job" using j by (simp add: job_ok_def)
    show ?thesis
    proof (cases res)
      case (Inl e)
      have "host_ok (run_continues mapPos i (job\<lparr>awaiting := None\<rparr>) (Suc n) h)"
        by (rule run_continues_ok [OF d(1,3) Some a d(2)]) (simp add: a)
      then show ?thesis using Inl Some aw by (simp add: upload_settles_def)
    next
      case (Inr att)
      define job1 where "job1 = job\<lparr>entries := (entries job)[n := (entries job ! n)\<lparr>entry_attachment := Some att\<rparr>], awaiting := None\<rparr>"
      define h1 where "h1 = on_view (setUploadAnchor (descriptorFor i job1 anchor_uploading))
        (appendAttachment att (lf_previewUrl (entry_file (entries job ! n))) (put_job i job1 h))"
      have a1: "active job1" by (simp add: job1_def a)
      have jobs: "jobs h1 = AList.update i job1 (jobs h)" by (simp add: h1_def)
      have "in_sync (put_job i job1 h)" by (rule put_in_sync [OF d(2,1) Some]) (simp add: a a1)
      then have "in_sync h1" by (simp add: h1_def in_sync_def)
      then have "host_ok (run_continues mapPos i job1 (Suc n) h1)"
        by (rule run_continues_ok [rotated 4, where job0 = job1])
          (use d a1 in \<open>auto simp: jobs distinct_update update_conv' others_put\<close>)
      then show ?thesis using Inr Some aw unfolding h1_def by (simp add: upload_settles_def Let_def job1_def [symmetric])
    qed
  qed
qed

lemma dismiss_ok: "host_ok h \<Longrightarrow> host_ok (dismissJob i h)"
  using finish_ok [of "on_view (cancelUploadAnchor i) h" i] by (simp add: dismissJob_def host_ok_def split: option.splits)

lemma put_new: "map_of xs i = None \<Longrightarrow> AList.update i v xs = xs @ [(i, v)]"
  by (induction xs) auto

lemma insert_ok:
  assumes "host_ok h" "map_of (jobs h) i = None"
  shows "host_ok (insertLocalImages mapPos i fs position h)"
proof (cases "host_view h = None \<or> createJob fs = None \<or> saving (isLoading (ui (host_editor h)))")
  case True
  then show ?thesis using assms by (auto simp: insertLocalImages_def split: option.splits)
next
  case False
  then obtain v job where v: "host_view h = Some v" "createJob fs = Some job" "\<not> saving (isLoading (ui (host_editor h)))" by auto
  then have j: "job_ok job" by (auto simp: createJob_def Let_def job_ok_def split: if_splits)
  define h1 where "h1 = on_view (createUploadAnchor (descriptorFor i job anchor_uploading) position) (syncJobState (put_job i job h))"
  have "host_ok h1"
    using assms j sync_sync [of "put_job i job h"] by (auto simp: h1_def host_ok_def in_sync_def put_new distinct_update map_of_eq_None_iff)
  from runJob_ok [OF this, of mapPos i] show ?thesis using v unfolding h1_def by (simp add: insertLocalImages_def)
qed

text \<open>Actions of other parts of the editor: they leave the two flags of the jobs alone; the editor is reset by a completed save.\<close>

fun other_action :: "upload_host \<Rightarrow> EditorAction \<Rightarrow> bool" where
  "other_action h (SET_LOADING uploading_key b) = False"
| "other_action h (SET_PENDING_INLINE_IMAGE_INSERTIONS n) = False"
| "other_action h RESET = (jobs h = [])"
| "other_action h a = True"

inductive upload_run :: "(nat \<Rightarrow> jsstr \<Rightarrow> nat \<Rightarrow> nat option) \<Rightarrow> upload_host \<Rightarrow> bool" for mapPos where
  mounted: "jobs h = [] \<Longrightarrow> pending_of h = 0 \<Longrightarrow> \<not> uploading_of h \<Longrightarrow> upload_run mapPos h"
| picked: "upload_run mapPos h \<Longrightarrow> map_of (jobs h) i = None \<Longrightarrow> upload_run mapPos (insertLocalImages mapPos i fs position h)"
| settled: "upload_run mapPos h \<Longrightarrow> upload_run mapPos (upload_settles mapPos i res h)"
| retried: "upload_run mapPos h \<Longrightarrow> upload_run mapPos (runJob mapPos i h)"
| dismissed: "upload_run mapPos h \<Longrightarrow> upload_run mapPos (dismissJob i h)"
| edited: "upload_run mapPos h \<Longrightarrow> upload_run mapPos (h\<lparr>host_view := v\<rparr>)"
| dispatched: "upload_run mapPos h \<Longrightarrow> other_action h a \<Longrightarrow> upload_run mapPos (host_dispatch a h)"

lemma other_action_ok: "host_ok h \<Longrightarrow> other_action h a \<Longrightarrow> host_ok (host_dispatch a h)"
  by (cases "(h, a)" rule: other_action.cases) (auto simp: host_ok_def in_sync_def createInitialState_def defaultState_def)

lemma upload_run_ok: "upload_run mapPos h \<Longrightarrow> host_ok h"
proof (induction rule: upload_run.induct)
  case (mounted h)
  then show ?case by (simp add: host_ok_def in_sync_def)
next
  case (edited h v)
  then show ?case by (simp add: host_ok_def in_sync_def)
qed (simp_all add: insert_ok settles_ok runJob_ok dismiss_ok other_action_ok)


section \<open>Jobs end\<close>

text \<open>The entries a job still has to wait for.\<close>

definition remaining :: "UploadJob \<Rightarrow> nat \<Rightarrow> nat" where
  "remaining job k = length (filter (\<lambda>n. entry_attachment (entries job ! n) = None) [k..<length (entries job)])"

definition job_over :: "jsstr \<Rightarrow> upload_host \<Rightarrow> bool" where
  "job_over i h \<longleftrightarrow> (case map_of (jobs h) i of None \<Rightarrow> True | Some job \<Rightarrow> \<not> active job)"

lemma run_ends_over: "job_over i (run_ends mapPos i job h)"
  by (auto simp: job_over_def run_ends_def Let_def finishJob_def update_conv' delete_conv' split: option.splits)

lemma upt_split: "k \<le> n \<Longrightarrow> n \<le> m \<Longrightarrow> [k..<m] = [k..<n] @ [n..<m]"
  by (metis le_add_diff_inverse upt_add_eq_append)

lemma remaining_next: "nextPending job k = Some n \<Longrightarrow> remaining job n \<le> remaining job k"
proof -
  assume "nextPending job k = Some n"
  then have n: "k \<le> n" "n < length (entries job)" using nextPending_Some by blast+
  have "[k..<length (entries job)] = [k..<n] @ [n..<length (entries job)]" using n by (intro upt_split) simp_all
  then show ?thesis by (simp add: remaining_def)
qed

lemma remaining_Suc: "n < length (entries job) \<Longrightarrow> entry_attachment (entries job ! n) = None \<Longrightarrow> remaining job n = Suc (remaining job (Suc n))"
  by (simp add: remaining_def upt_conv_Cons)

lemma run_continues_cases:
  "job_over i (run_continues mapPos i job k h)
   \<or> (\<exists>n. map_of (jobs (run_continues mapPos i job k h)) i = Some (job\<lparr>awaiting := Some n\<rparr>) \<and> remaining job n \<le> remaining job k
        \<and> n < length (entries job) \<and> entry_attachment (entries job ! n) = None)"
proof (cases "nextPending job k")
  case None
  then show ?thesis using run_ends_over by (simp add: run_continues_def)
next
  case (Some n)
  then show ?thesis using remaining_next [OF Some] nextPending_Some [OF Some] by (auto simp: run_continues_def update_conv')
qed

lemma settles_progress:
  assumes "map_of (jobs h) i = Some job" "awaiting job = Some n" "n < length (entries job)" "entry_attachment (entries job ! n) = None"
  shows "job_over i (upload_settles mapPos i res h)
    \<or> (\<exists>job' n'. map_of (jobs (upload_settles mapPos i res h)) i = Some job' \<and> awaiting job' = Some n' \<and> n' < length (entries job')
         \<and> entry_attachment (entries job' ! n') = None \<and> remaining job' n' < remaining job n)"
proof (cases res)
  case (Inl e)
  have "upload_settles mapPos i res h = run_continues mapPos i (job\<lparr>awaiting := None\<rparr>) (Suc n) h"
    using assms Inl by (simp add: upload_settles_def)
  moreover have "remaining (job\<lparr>awaiting := a\<rparr>) k = remaining job k" for a k by (simp add: remaining_def)
  ultimately show ?thesis
    using run_continues_cases [of i mapPos "job\<lparr>awaiting := None\<rparr>" "Suc n" h] remaining_Suc [OF assms(3,4)] by fastforce
next
  case (Inr a)
  define job1 where "job1 = job\<lparr>entries := (entries job)[n := (entries job ! n)\<lparr>entry_attachment := Some a\<rparr>], awaiting := None\<rparr>"
  obtain h1 where e: "upload_settles mapPos i res h = run_continues mapPos i job1 (Suc n) h1"
    using assms Inr by (simp add: upload_settles_def Let_def job1_def)
  have "remaining job1 (Suc n) = remaining job (Suc n)"
    unfolding remaining_def by (rule arg_cong [where f = length], rule filter_cong) (auto simp: job1_def)
  moreover have "remaining (job1\<lparr>awaiting := x\<rparr>) k = remaining job1 k" for x k by (simp add: remaining_def)
  ultimately show ?thesis unfolding e
    using run_continues_cases [of i mapPos job1 "Suc n" h1] remaining_Suc [OF assms(3,4)] by fastforce
qed

text \<open>C20. A job does not hang: whatever the uploads it waits for answer, after at most as many answers as entries lacked an
  attachment the job is over. It has left the list of jobs, or it is inactive and can be retried or dismissed, and
  dismissing it removes it.\<close>

theorem insertion_job_ends:
  assumes "upload_run mapPos h" "map_of (jobs h) i = Some job" "active job"
    "length answers = length (filter (\<lambda>e. entry_attachment e = None) (entries job))"
  shows "\<exists>k \<le> length answers. job_over i (fold (upload_settles mapPos i) (take k answers) h)
    \<and> map_of (jobs (dismissJob i (fold (upload_settles mapPos i) (take k answers) h))) i = None"
proof -
  have gone: "map_of (jobs (dismissJob i h')) i = None" if "job_over i h'" for h'
    using that by (auto simp: job_over_def dismissJob_def finishJob_def delete_conv' split: option.splits)
  have ends: "\<exists>k \<le> length as. job_over i (fold (upload_settles mapPos i) (take k as) h')"
    if "map_of (jobs h') i = Some j" "awaiting j = Some n" "n < length (entries j)" "entry_attachment (entries j ! n) = None"
      "remaining j n \<le> length as" for h' j n as
    using that
  proof (induction as arbitrary: h' j n)
    case Nil
    then show ?case using remaining_Suc [of n j] by simp
  next
    case (Cons a as)
    show ?case
    proof (cases "job_over i (upload_settles mapPos i a h')")
      case True
      then show ?thesis by (intro exI [of _ 1]) simp
    next
      case False
      then obtain j' n' where j': "map_of (jobs (upload_settles mapPos i a h')) i = Some j'" "awaiting j' = Some n'" "n' < length (entries j')"
          "entry_attachment (entries j' ! n') = None" "remaining j' n' < remaining j n"
        using settles_progress [OF Cons.prems(1-4)] by blast
      then have "remaining j' n' \<le> length as" using Cons.prems(5) by simp
      from Cons.IH [OF j'(1-4) this] obtain k where "k \<le> length as" "job_over i (fold (upload_settles mapPos i) (take k as) (upload_settles mapPos i a h'))"
        by blast
      then show ?thesis by (intro exI [of _ "Suc k"]) simp
    qed
  qed
  have "job_ok job" using upload_run_ok [OF assms(1)] assms(2) by (auto simp: host_ok_def dest: map_of_SomeD)
  then obtain n where n: "awaiting job = Some n" "n < length (entries job)" "entry_attachment (entries job ! n) = None"
    using assms(3) by (auto simp: job_ok_def)
  have "remaining job n \<le> remaining job 0"
  proof -
    have "[0..<length (entries job)] = [0..<n] @ [n..<length (entries job)]" using n(2) by (intro upt_split) simp_all
    then show ?thesis by (simp add: remaining_def)
  qed
  also have "remaining job 0 = length answers"
  proof -
    have "filter (\<lambda>e. entry_attachment e = None) (entries job)
        = map (nth (entries job)) (filter (\<lambda>m. entry_attachment (entries job ! m) = None) [0..<length (entries job)])"
      by (subst (1) map_nth [symmetric]) (simp add: filter_map comp_def)
    then show ?thesis using assms(4) by (simp add: remaining_def)
  qed
  finally show ?thesis using ends [OF assms(2) n] gone by blast
qed

section \<open>Anchors stay where the text is\<close>

lemma find_anchor_simps: "findAnchorPosition (xs @ ys) i = (case findAnchorPosition ys i of None \<Rightarrow> findAnchorPosition xs i | Some p \<Rightarrow> Some p)"
  by (induction ys rule: rev_induct) (auto simp: findAnchorPosition_def split: option.splits)

lemma find_without: "findAnchorPosition (without_anchor i as) j = (if j = i then None else findAnchorPosition as j)"
proof (induction as)
  case (Cons a as)
  show ?case using Cons find_anchor_simps [of "[a]" as j] find_anchor_simps [of "[a]" "without_anchor i as" j]
    by (auto simp: without_anchor_def findAnchorPosition_def split: option.splits)
qed (simp add: without_anchor_def findAnchorPosition_def)

lemma find_add:
  "findAnchorPosition as (anchor_id d) = None \<Longrightarrow>
   findAnchorPosition (add_anchor p d as) j = (if j = anchor_id d then Some p else findAnchorPosition as j)"
proof -
  assume n: "findAnchorPosition as (anchor_id d) = None"
  let ?t = "takeWhile (\<lambda>a. fst a \<le> p) as" and ?d = "dropWhile (\<lambda>a. fst a \<le> p) as"
  have s: "findAnchorPosition as i = (case findAnchorPosition ?d i of None \<Rightarrow> findAnchorPosition ?t i | Some q \<Rightarrow> Some q)" for i
    using find_anchor_simps [of ?t ?d i] by simp
  have "findAnchorPosition ?d (anchor_id d) = None" using n s [of "anchor_id d"] by (auto split: option.splits)
  moreover have "findAnchorPosition [(p, d)] j = (if j = anchor_id d then Some p else None)" by (auto simp: findAnchorPosition_def)
  ultimately show ?thesis
    using find_anchor_simps [of ?t "[(p, d)] @ ?d" j] find_anchor_simps [of "[(p, d)]" ?d j] s [of j]
    by (auto simp: add_anchor_def split: option.splits)
qed

lemma anchor_updates:
  "findAnchorPosition (anchor_effect_step len as (UpdateUploadAnchor d)) j = findAnchorPosition as j"
  "findAnchorPosition (anchor_effect_step len as (RemoveUploadAnchor i)) j = (if j = i then None else findAnchorPosition as j)"
  by (auto simp: find_add find_without split: option.splits)

section \<open>Examples\<close>

definition picture :: LocalFile where
  "picture = \<lparr>lf_file = \<lparr>file_name = js ''a.png'', file_type = js ''image/png'', file_bytes = [1]\<rparr>, lf_previewUrl = js ''blob:1'',
     lf_origin = Some upload_origin, lf_durationSeconds = None, lf_motionMedia = None, lf_mediaMetadata = None\<rparr>"

definition blank_host :: upload_host where
  "blank_host = \<lparr>host_editor = defaultState, host_view = Some \<lparr>av_doc = [], av_head = 0, av_anchors = []\<rparr>, jobs = [], disposed = False,
     uploadingURLs = [], toasts = 0\<rparr>"

definition picked_host :: upload_host where
  "picked_host = insertLocalImages (\<lambda>q ins p. Some p) (js ''j'') [picture] None blank_host"

lemma picked_job: "jobs picked_host = [(js ''j'', \<lparr>entries = [\<lparr>entry_file = picture, entry_attachment = None\<rparr>], job_representatives = [0],
    active = True, awaiting = Some 0\<rparr>)]"
proof -
  have "isImageFile picture" "localGroupId picture = None"
    by (simp_all add: isImageFile_def picture_def isImage_def isPSD_def startsWith_def js_def localGroupId_def)
  then have "createJob [picture] = Some \<lparr>entries = [\<lparr>entry_file = picture, entry_attachment = None\<rparr>], job_representatives = [0],
      active = False, awaiting = None\<rparr>"
    by (simp add: createJob_def splitInlineLocalFiles_def Let_def)
  then show ?thesis
    by (simp add: picked_host_def insertLocalImages_def blank_host_def defaultState_def runJob_def run_continues_def nextPending_def Let_def)
qed

lemma picked_run: "upload_run (\<lambda>q ins p. Some p) picked_host"
  unfolding picked_host_def by (intro upload_run.picked upload_run.mounted) (simp_all add: blank_host_def defaultState_def)


theorem insertion_job_ends_witness:
  "\<exists>k \<le> 1. job_over (js ''j'') (fold (upload_settles (\<lambda>q ins p. Some p) (js ''j'')) (take k [Inl Unavailable]) picked_host)"
  using insertion_job_ends [OF picked_run, of "js ''j''" _ "[Inl Unavailable]"] by (fastforce simp: picked_job)

end
