(* ===== verification/Memo_Syntax.thy ===== *)
theory Memo_Syntax
  imports Literal_Source
begin

text \<open>
  The plugin that turns tags and mentions of a rendered memo into nodes of their own
  (\<^verbatim>\<open>web/src/utils/remark-plugins/remark-tag.ts\<close>). It finds the syntax ranges of the source, brings the tree of the
  Markdown parser in line with them, maps every text node to the literal runs of the source it comes from, and splits it
  at the tags and mentions of these runs.

  The spans that the plugin remembers for nodes without a position (\<open>recoveredSpans\<close>) are a field of the node. An outer
  \<open>None\<close> means that a loop does not end or that the bound of nested parses was too small; an inner \<open>None\<close> is
  \<open>undefined\<close>.
\<close>

section \<open>Syntax ranges of a source\<close>

datatype range_type = EntityRange | EscapeRange | LineEndingRange | OpaqueRange

type_synonym SourceRange = "(nat \<times> nat) \<times> range_type"

record MarkdownSourceContext =
  src_boundaries :: "SourceRange list"
  src_emails :: "email_range list"
  src_emphasis :: "((nat \<times> nat) \<times> nat) list"
  src_links :: "(nat \<times> nat) list"
  src_syntaxLinks :: "(nat \<times> nat) list"

definition distinctRanges :: "'a list \<Rightarrow> 'a list" where
  "distinctRanges values = dedupe_from (\<lambda>x. x) {} values"

definition pushBoundary :: "SourceRange \<Rightarrow> MarkdownSourceContext \<Rightarrow> MarkdownSourceContext" where
  "pushBoundary r c = c\<lparr>src_boundaries := src_boundaries c @ [r]\<rparr>"

definition pushContext :: "MarkdownSourceContext \<Rightarrow> MarkdownSourceContext \<Rightarrow> MarkdownSourceContext" where
  "pushContext c d =
     \<lparr>src_boundaries = src_boundaries c @ src_boundaries d, src_emails = src_emails c @ src_emails d,
      src_emphasis = src_emphasis c @ src_emphasis d, src_links = src_links c @ src_links d,
      src_syntaxLinks = src_syntaxLinks c @ src_syntaxLinks d\<rparr>"

text \<open>\<open>tree.iterate\<close>: nodes are entered in order; the children of the first four groups are left out.\<close>

fun enterNodes :: "(nat \<times> nat) list \<Rightarrow> source_node \<Rightarrow> MarkdownSourceContext \<Rightarrow> MarkdownSourceContext" where
  "enterNodes resolved (SourceNode name a b kids) c =
     (if name = ''Escape'' then pushBoundary ((a, b), EscapeRange) c
      else if name = ''Entity'' then pushBoundary ((a, b), EntityRange) c
      else if name \<in> set [''InlineMath'', ''BlockMath'', ''InlineCode'', ''EmphasisMark''] then pushBoundary ((a, b), OpaqueRange) c
      else if name = ''Autolink'' \<or> isLinkLike name \<and> hasExactMarkdownRange resolved (SourceNode name a b kids)
      then pushBoundary ((a, b), OpaqueRange) (c\<lparr>src_links := src_links c @ [(a, b)], src_syntaxLinks := src_syntaxLinks c @ [(a, b)]\<rparr>)
      else fold (enterNodes resolved) kids
             (if name = ''Emphasis'' \<or> name = ''StrongEmphasis''
              then c\<lparr>src_emphasis := src_emphasis c @ [((a, b), if name = ''StrongEmphasis'' then 2 else 1)]\<rparr> else c))"

definition opaqueAround :: "SourceRange list \<Rightarrow> nat \<times> nat \<Rightarrow> bool" where
  "opaqueAround rs r \<longleftrightarrow> list_ex (\<lambda>(q, t). t = OpaqueRange \<and> fst q \<le> fst r \<and> snd q \<ge> snd r) rs"

definition pushDecoded :: "markdown_lib \<Rightarrow> jsstr \<Rightarrow> MarkdownSourceContext \<Rightarrow> MarkdownSourceContext" where
  "pushDecoded M source c =
     c\<lparr>src_boundaries := src_boundaries c
         @ filter (\<lambda>r. \<not> opaqueAround (src_boundaries c) (fst r))
             (map (\<lambda>(r, t). (r, case t of Entity \<Rightarrow> EntityRange | Escape \<Rightarrow> EscapeRange))
                (findDecodedMarkdownSourceBoundaries (decodeString M) source 0 (length source)))\<rparr>"

text \<open>The ranges of a nested source that lie behind its prefix, moved to where the piece stands.\<close>

definition project :: "('a \<Rightarrow> nat \<times> nat) \<Rightarrow> ((nat \<Rightarrow> nat) \<Rightarrow> 'a \<Rightarrow> 'a) \<Rightarrow> nat \<Rightarrow> nat \<Rightarrow> nat \<Rightarrow> 'a list \<Rightarrow> 'a list" where
  "project span move prefixLength upper base rs =
     map (move (\<lambda>p. p + base - prefixLength)) (filter (\<lambda>r. fst (span r) \<ge> prefixLength \<and> snd (span r) \<le> upper) rs)"

definition projectContext :: "nat \<Rightarrow> nat \<Rightarrow> nat \<Rightarrow> MarkdownSourceContext \<Rightarrow> MarkdownSourceContext" where
  "projectContext prefixLength upper base d =
     \<lparr>src_boundaries = project fst (\<lambda>f. map_prod (map_prod f f) id) prefixLength upper base (src_boundaries d),
      src_emails = project (\<lambda>(a, b, v). (a, b)) (\<lambda>f (a, b, v). (f a, f b, v)) prefixLength upper base (src_emails d),
      src_emphasis = project fst (\<lambda>f. map_prod (map_prod f f) id) prefixLength upper base (src_emphasis d),
      src_links = project id (\<lambda>f. map_prod f f) prefixLength upper base (src_links d),
      src_syntaxLinks = project id (\<lambda>f. map_prod f f) prefixLength upper base (src_syntaxLinks d)\<rparr>"

fun foldM :: "('a \<Rightarrow> 'c \<Rightarrow> 'c option) \<Rightarrow> 'a list \<Rightarrow> 'c \<Rightarrow> 'c option" where
  "foldM f [] c = Some c"
| "foldM f (x # xs) c = do { c' \<leftarrow> f x c; foldM f xs c' }"

lemma foldM_cong [fundef_cong]:
  "xs = ys \<Longrightarrow> c = d \<Longrightarrow> (\<And>x e. x \<in> set ys \<Longrightarrow> f x e = g x e) \<Longrightarrow> foldM f xs c = foldM g ys d"
proof (induction xs arbitrary: ys c d)
  case (Cons x xs)
  then show ?case by (cases "g x d") (auto simp: bind_def)
qed auto

text \<open>A URL right behind the prefix is an artefact of the nested source unless it is written as a link.\<close>

definition withoutBoundaryURLs :: "MarkdownSourceContext \<Rightarrow> MarkdownSourceContext" where
  "withoutBoundaryURLs d =
     (let excluded = filter (\<lambda>r. fst r = length REFERENCE_LABEL_PREFIX \<and> r \<notin> set (src_syntaxLinks d)) (src_links d)
      in d\<lparr>src_boundaries := filter (\<lambda>r. fst r \<notin> set excluded) (src_boundaries d), src_emails := [],
            src_links := filter (\<lambda>r. r \<notin> set excluded) (src_links d)\<rparr>)"

definition projectSecondLabel :: "(jsstr \<Rightarrow> MarkdownSourceContext option) \<Rightarrow> jsstr \<Rightarrow> source_node \<Rightarrow> MarkdownSourceContext
    \<Rightarrow> MarkdownSourceContext option" where
  "projectSecondLabel again source child c =
     (if node_name child \<noteq> ''LinkLabel'' \<or> node_to child - node_from child \<le> 2 then Some c
      else let contentFrom = node_from child + 1; contentTo = node_to child - 1
           in do {
             nested \<leftarrow> again (REFERENCE_LABEL_PREFIX @ slice source contentFrom contentTo);
             Some (pushContext c (projectContext 2 (2 + contentTo - contentFrom) contentFrom (withoutBoundaryURLs nested)))
           })"

fun projectUnresolvedSecondLabels :: "(jsstr \<Rightarrow> MarkdownSourceContext option) \<Rightarrow> jsstr \<Rightarrow> (nat \<times> nat) list \<Rightarrow> source_node
    \<Rightarrow> MarkdownSourceContext \<Rightarrow> MarkdownSourceContext option" where
  "projectUnresolvedSecondLabels again source resolved (SourceNode name a b kids) c =
     do {
       c' \<leftarrow> (if isLinkLike name \<and> \<not> hasExactMarkdownRange resolved (SourceNode name a b kids)
              then foldM (projectSecondLabel again source) kids c else Some c);
       foldM (projectUnresolvedSecondLabels again source resolved) kids c'
     }"

definition projectRejectedURL :: "markdown_lib \<Rightarrow> (jsstr \<Rightarrow> MarkdownSourceContext option) \<Rightarrow> jsstr \<Rightarrow> (nat \<times> nat) list \<Rightarrow> source_node
    \<Rightarrow> source_node \<Rightarrow> MarkdownSourceContext \<Rightarrow> MarkdownSourceContext option" where
  "projectRejectedURL M again source urls parent node c =
     (let covers = (\<lambda>r. fst r \<le> node_from node \<and> snd r \<ge> node_to node)
      in if list_ex covers urls \<or> list_ex (\<lambda>(a, b, v). covers (a, b)) (src_emails c) then Some c
         else let nestedSource = REJECTED_URL_PREFIX @ slice source (node_from node) (node_to node)
              in do {
                nested \<leftarrow> again nestedSource;
                let d = pushContext c (projectContext 1 (length nestedSource) (node_from node) nested);
                Some (d\<lparr>src_boundaries := src_boundaries d @ map (\<lambda>r. (r, OpaqueRange)) (emphasisMarks M parent node source)\<rparr>)
              })"

fun projectRejectedURLNodes :: "markdown_lib \<Rightarrow> (jsstr \<Rightarrow> MarkdownSourceContext option) \<Rightarrow> jsstr \<Rightarrow> (nat \<times> nat) list \<Rightarrow> (nat \<times> nat) list
    \<Rightarrow> source_node \<Rightarrow> MarkdownSourceContext \<Rightarrow> MarkdownSourceContext option" where
  "projectRejectedURLNodes M again source resolved urls (SourceNode name a b kids) c =
     (if name = ''Autolink'' \<or> name = ''LinkReference''
         \<or> isLinkLike name \<and> hasExactMarkdownRange resolved (SourceNode name a b kids) then Some c
      else foldM (\<lambda>node d. if node_name node \<noteq> ''URL'' then projectRejectedURLNodes M again source resolved urls node d
                           else projectRejectedURL M again source urls (SourceNode name a b kids) node d) kids c)"

fun lineEndings :: "nat \<Rightarrow> jsstr \<Rightarrow> (nat \<times> nat) list" where
  "lineEndings i [] = []"
| "lineEndings i (c # s) =
     (if c = 13 \<and> s \<noteq> [] \<and> hd s = 10 then (i, i + 2) # lineEndings (i + 2) (tl s)
      else if c = 13 \<or> c = 10 then (i, i + 1) # lineEndings (i + 1) s
      else lineEndings (i + 1) s)"

definition pushLineEndings :: "jsstr \<Rightarrow> MarkdownSourceContext \<Rightarrow> MarkdownSourceContext" where
  "pushLineEndings source c =
     c\<lparr>src_boundaries := src_boundaries c
         @ map (\<lambda>r. (r, LineEndingRange))
             (filter (\<lambda>r. \<not> list_ex (\<lambda>(q, t). t = OpaqueRange \<and> fst q < snd r \<and> snd q > fst r) (src_boundaries c)) (lineEndings 0 source))\<rparr>"

definition finishContext :: "MarkdownSourceContext \<Rightarrow> MarkdownSourceContext" where
  "finishContext c =
     \<lparr>src_boundaries = sort_key fst (distinctRanges (src_boundaries c)),
      src_emails = distinctRanges (src_emails c),
      src_emphasis = sort_key (\<lambda>((a, b), w). (int b - int a, a)) (distinctRanges (src_emphasis c)),
      src_links = sort (distinctRanges (src_links c)),
      src_syntaxLinks = sort (distinctRanges (src_syntaxLinks c))\<rparr>"

primrec markdownSourceContext :: "markdown_lib \<Rightarrow> nat \<Rightarrow> jsstr \<Rightarrow> MarkdownSourceContext option" where
  "markdownSourceContext M 0 source = None"
| "markdownSourceContext M (Suc n) source =
     (let root = parseSource M source; resolved = resolvedMarkdownLinkRanges M source root;
          urls = findMarkdownGFMURLRanges M source root resolved False
      in do {
        emails \<leftarrow> findMarkdownGFMEmailRanges M n source root resolved True;
        let c = pushDecoded M source (enterNodes resolved root
              \<lparr>src_boundaries = map (\<lambda>r. (r, OpaqueRange)) urls, src_emails = emails, src_emphasis = [], src_links = urls, src_syntaxLinks = []\<rparr>);
        c \<leftarrow> projectUnresolvedSecondLabels (markdownSourceContext M n) source resolved root c;
        c \<leftarrow> projectRejectedURLNodes M (markdownSourceContext M n) source resolved urls root c;
        Some (finishContext (pushLineEndings source c))
      })"

section \<open>Literal runs of a text node\<close>

definition nul :: "jsstr \<Rightarrow> jsstr" where
  "nul s = map (\<lambda>c. if c = 0 then 65533 else c) s"

definition decodedMarkdownText :: "markdown_lib \<Rightarrow> jsstr \<Rightarrow> jsstr" where
  "decodedMarkdownText M source = nul (decodeString M source)"

text \<open>The match of \<open>/^(?:\r\n?|\n)/\<close>, empty when there is none.\<close>

definition rawLineEnding :: "jsstr \<Rightarrow> jsstr" where
  "rawLineEnding s = (if startsWith s [13, 10] then [13, 10] else if startsWith s [13] then [13] else if startsWith s [10] then [10] else [])"

definition decodeBoundary :: "markdown_lib \<Rightarrow> jsstr \<Rightarrow> range_type \<Rightarrow> jsstr" where
  "decodeBoundary M spelling t =
     (if t \<noteq> LineEndingRange then decodedMarkdownText M spelling else if rawLineEnding spelling \<noteq> [] then [10] else [])"

record LiteralRun =
  run_source :: jsstr
  run_sourceFrom :: nat
  run_valueFrom :: nat

record run_state =
  rs_runs :: "LiteralRun list"
  sourceCursor :: nat
  valueCursor :: nat
  maySkipContainerPrefix :: bool

definition pushRun :: "jsstr \<Rightarrow> nat \<Rightarrow> run_state \<Rightarrow> run_state" where
  "pushRun runSource runStart st =
     st\<lparr>rs_runs := rs_runs st
          @ (if runSource = [] then [] else [\<lparr>run_source = runSource, run_sourceFrom = runStart, run_valueFrom = valueCursor st\<rparr>]),
        valueCursor := valueCursor st + length (nul runSource), maySkipContainerPrefix := False\<rparr>"

fun trimmedEnd :: "jsstr \<Rightarrow> nat \<Rightarrow> nat \<Rightarrow> nat" where
  "trimmedEnd source runStart 0 = 0"
| "trimmedEnd source runStart (Suc e) =
     (if Suc e > runStart \<and> (charAt source e = Some 32 \<or> charAt source e = Some 9) then trimmedEnd source runStart e else Suc e)"

text \<open>Blanks and quote marks are skipped one by one until the rest of the run is found in the text.\<close>

function skippedPrefix :: "jsstr \<Rightarrow> nat \<Rightarrow> jsstr \<Rightarrow> nat \<Rightarrow> nat \<Rightarrow> nat option" where
  "skippedPrefix value cursor source runStart runEnd =
     (if runStart < runEnd \<and> charAt source runStart \<in> Some ` {32, 9, 62}
      then if startsWithAt value (nul (slice source (Suc runStart) runEnd)) cursor then Some (Suc runStart)
           else skippedPrefix value cursor source (Suc runStart) runEnd
      else None)"
  by pat_completeness auto
termination by (relation "measure (\<lambda>(v, c, s, a, b). b - a)") auto

declare skippedPrefix.simps [simp del]

definition addRun :: "jsstr \<Rightarrow> jsstr \<Rightarrow> nat \<Rightarrow> bool \<Rightarrow> run_state \<Rightarrow> run_state option" where
  "addRun value source runEnd mayOmitTrailingWhitespace st =
     (let runStart = sourceCursor st; runSource = slice source runStart runEnd;
          trimmed = slice source runStart (trimmedEnd source runStart runEnd)
      in if runSource = [] then Some st
         else if startsWithAt value (nul runSource) (valueCursor st) then Some (pushRun runSource runStart st)
         else if mayOmitTrailingWhitespace \<and> startsWithAt value (nul trimmed) (valueCursor st) then Some (pushRun trimmed runStart st)
         else if \<not> maySkipContainerPrefix st then None
         else map_option (\<lambda>a. pushRun (slice source a runEnd) a st) (skippedPrefix value (valueCursor st) source runStart runEnd))"

definition afterBoundary :: "markdown_lib \<Rightarrow> jsstr \<Rightarrow> jsstr \<Rightarrow> range_type \<Rightarrow> run_state \<Rightarrow> run_state option" where
  "afterBoundary M value boundarySource t st =
     (if t = LineEndingRange
      then let raw = rawLineEnding boundarySource
           in if raw \<noteq> [] \<and> startsWithAt value raw (valueCursor st)
              then Some (st\<lparr>valueCursor := valueCursor st + length raw, maySkipContainerPrefix := True\<rparr>)
              else if raw \<noteq> [] \<and> startsWithAt value [10] (valueCursor st)
              then Some (st\<lparr>valueCursor := valueCursor st + 1, maySkipContainerPrefix := True\<rparr>)
              else if raw \<noteq> [] then None
              else Some (st\<lparr>maySkipContainerPrefix := True\<rparr>)
      else if startsWithAt value (nul boundarySource) (valueCursor st)
      then Some (st\<lparr>valueCursor := valueCursor st + length (nul boundarySource)\<rparr>)
      else if startsWithAt value (decodeBoundary M boundarySource t) (valueCursor st)
      then Some (st\<lparr>valueCursor := valueCursor st + length (decodeBoundary M boundarySource t)\<rparr>)
      else None)"

definition boundaryStep :: "markdown_lib \<Rightarrow> jsstr \<Rightarrow> jsstr \<Rightarrow> nat \<Rightarrow> nat \<Rightarrow> SourceRange \<Rightarrow> run_state \<Rightarrow> run_state option" where
  "boundaryStep M value source start end boundary st =
     (let (r, t) = boundary; boundaryFrom = max (fst r) start; boundaryTo = min (snd r) end; full = slice source (fst r) (snd r)
      in if boundaryFrom \<ge> boundaryTo then Some st
         else if t = EntityRange \<and> decodeBoundary M full t = full then Some st
         else do {
           st \<leftarrow> addRun value source boundaryFrom (t = LineEndingRange) st;
           afterBoundary M value (slice source boundaryFrom boundaryTo) t (st\<lparr>sourceCursor := boundaryTo\<rparr>)
         })"

definition literalRunsForTextNode :: "markdown_lib \<Rightarrow> jsstr \<Rightarrow> (nat \<times> nat) option \<Rightarrow> jsstr \<Rightarrow> SourceRange list \<Rightarrow> LiteralRun list option" where
  "literalRunsForTextNode M value span source bs =
     do {
       (start, end) \<leftarrow> span;
       st \<leftarrow> foldM (boundaryStep M value source start end) bs
               \<lparr>rs_runs = [], sourceCursor = start, valueCursor = 0, maySkipContainerPrefix = False\<rparr>;
       st \<leftarrow> addRun value source end False st;
       Some (rs_runs st)
     }"

section \<open>Segments of a text node\<close>

datatype Segment = TextSegment jsstr | TagSegment jsstr jsstr | MentionSegment jsstr jsstr

definition runMatches :: "EmojiTrieNode \<Rightarrow> jsstr \<Rightarrow> LiteralRun \<Rightarrow> ((nat \<times> nat) \<times> Segment) list option" where
  "runMatches R source run =
     do {
       tags \<leftarrow> findTagMatches R (run_source run) 0 (length (run_source run));
       Some (map (\<lambda>m. ((run_valueFrom run + tag_from m, run_valueFrom run + tag_to m),
                        TagSegment (slice (run_source run) (tag_from m) (tag_to m)) (tag_value m))) tags
             @ map (\<lambda>m. ((run_valueFrom run + mention_from m, run_valueFrom run + mention_to m),
                          MentionSegment (slice (run_source run) (mention_from m) (mention_to m)) (mention_username m)))
                 (findMentionMatches (run_source run) (runHasLeftBoundary source (run_sourceFrom run))))
     }"

fun segmentLoop :: "jsstr \<Rightarrow> nat \<Rightarrow> ((nat \<times> nat) \<times> Segment) list \<Rightarrow> Segment list" where
  "segmentLoop value cursor [] = (if cursor < length value then [TextSegment (drop cursor value)] else [])"
| "segmentLoop value cursor ((r, seg) # ms) =
     (if fst r < cursor then segmentLoop value cursor ms
      else (if cursor < fst r then [TextSegment (slice value cursor (fst r))] else []) @ seg # segmentLoop value (snd r) ms)"

definition segmentsForTextNode :: "markdown_lib \<Rightarrow> EmojiTrieNode \<Rightarrow> jsstr \<Rightarrow> (nat \<times> nat) option \<Rightarrow> jsstr \<Rightarrow> SourceRange list
    \<Rightarrow> Segment list option option" where
  "segmentsForTextNode M R value span source bs =
     (case literalRunsForTextNode M value span source bs of
        None \<Rightarrow> Some None
      | Some runs \<Rightarrow>
          do {
            ms \<leftarrow> those_matches (map (runMatches R source) runs);
            Some (Some (if ms = [] then [TextSegment value] else segmentLoop value 0 (sort_key fst ms)))
          })"

section \<open>Nodes\<close>

text \<open>\<open>unist_data\<close> is the class, the \<open>data-\<close> attribute and the text of the element that shows a tag or a mention. A node is
  known by its position in the source or by the span the plugin has recovered for it.\<close>

datatype unist =
  LiteralNode (unist_type: string) (unist_value: jsstr) (unist_data: "(string \<times> jsstr \<times> jsstr) option")
    (unist_position: "nat option \<times> nat option") (unist_recovered: "(nat \<times> nat) option")
| ParentNode (unist_type: string) (unist_url: jsstr) (unist_position: "nat option \<times> nat option") (unist_recovered: "(nat \<times> nat) option")
    (unist_children: "unist list")

definition createTagNode :: "jsstr \<Rightarrow> jsstr \<Rightarrow> unist" where
  "createTagNode tagValue source = LiteralNode ''tagNode'' tagValue (Some (''tag'', tagValue, source)) (None, None) None"

definition createMentionNode :: "jsstr \<Rightarrow> jsstr \<Rightarrow> unist" where
  "createMentionNode username source = LiteralNode ''mentionNode'' username (Some (''mention'', username, source)) (None, None) None"

definition plainTextNode :: "jsstr \<Rightarrow> (nat \<times> nat) option \<Rightarrow> unist" where
  "plainTextNode value recovered = LiteralNode ''text'' value None (None, None) recovered"

fun isTextNode :: "unist \<Rightarrow> bool" where
  "isTextNode (LiteralNode t v d p r) \<longleftrightarrow> t = ''text''"
| "isTextNode (ParentNode t u p r kids) \<longleftrightarrow> False"

definition TRANSPARENT_PARENT_TYPES :: "string list" where
  "TRANSPARENT_PARENT_TYPES =
     [''blockquote'', ''delete'', ''emphasis'', ''heading'', ''list'', ''listItem'', ''paragraph'', ''root'', ''strong'', ''table'',
      ''tableCell'', ''tableRow'']"

definition positionedSpan :: "unist \<Rightarrow> (nat \<times> nat) option" where
  "positionedSpan node = (case unist_position node of (Some a, Some b) \<Rightarrow> Some (a, b) | _ \<Rightarrow> None)"

definition nodeSpan :: "unist \<Rightarrow> (nat \<times> nat) option" where
  "nodeSpan node = (case positionedSpan node of Some s \<Rightarrow> Some s | None \<Rightarrow> unist_recovered node)"

definition isCoveredBySourceRange :: "unist \<Rightarrow> (nat \<times> nat) list \<Rightarrow> bool" where
  "isCoveredBySourceRange node ranges \<longleftrightarrow>
     (case nodeSpan node of None \<Rightarrow> False | Some s \<Rightarrow> list_ex (\<lambda>r. fst r \<le> fst s \<and> snd r \<ge> snd s) ranges)"

definition isWrittenGFMLink :: "unist \<Rightarrow> MarkdownSourceContext \<Rightarrow> bool" where
  "isWrittenGFMLink node c \<longleftrightarrow> isCoveredBySourceRange node (src_links c)"

definition isLiteralEmailLink :: "unist \<Rightarrow> MarkdownSourceContext \<Rightarrow> bool" where
  "isLiteralEmailLink node c \<longleftrightarrow>
     unist_type node = ''link'' \<and> startsWith (unist_url node) (js ''mailto:'') \<and> \<not> isCoveredBySourceRange node (src_syntaxLinks c)"

definition sourceTextNode :: "markdown_lib \<Rightarrow> jsstr \<Rightarrow> nat \<times> nat \<Rightarrow> unist" where
  "sourceTextNode M source s = plainTextNode (decodedMarkdownText M (slice source (fst s) (snd s))) (Some s)"

section \<open>Bringing the tree in line with the source\<close>

fun mergeAdjacentTextNodes :: "markdown_lib \<Rightarrow> jsstr \<Rightarrow> unist list \<Rightarrow> unist list" where
  "mergeAdjacentTextNodes M source (left # right # rest) =
     (if isTextNode left \<and> isTextNode right
      then (case (nodeSpan left, nodeSpan right) of
              (Some l, Some r) \<Rightarrow>
                if snd l = fst r then mergeAdjacentTextNodes M source (sourceTextNode M source (fst l, snd r) # rest)
                else left # mergeAdjacentTextNodes M source (right # rest)
            | _ \<Rightarrow> left # mergeAdjacentTextNodes M source (right # rest))
      else left # mergeAdjacentTextNodes M source (right # rest))"
| "mergeAdjacentTextNodes M source kids = kids"

text \<open>Every decoded code unit with the start and the end of the source it stands for.\<close>

definition projected :: "jsstr \<Rightarrow> jsstr \<Rightarrow> nat \<Rightarrow> nat \<Rightarrow> (code_unit \<times> nat \<times> nat) list" where
  "projected raw decoded tokenFrom tokenTo =
     (let normalized = nul decoded; same = (length raw = length normalized)
      in map (\<lambda>i. (normalized ! i, if same then tokenFrom + i else tokenFrom, if same then tokenFrom + i + 1 else tokenTo)) [0..<length normalized])"

definition projectedToken :: "markdown_lib \<Rightarrow> jsstr \<Rightarrow> nat \<Rightarrow> nat \<Rightarrow> (code_unit \<times> nat \<times> nat) list \<times> nat" where
  "projectedToken M source cursor to =
     (let raw2 = slice source cursor (cursor + 2); single = slice source cursor (min to (cursor + stepSize source cursor))
      in if charAt source cursor = Some 92 \<and> cursor + 1 < to \<and> decodeString M raw2 \<noteq> raw2
         then (projected raw2 (decodeString M raw2) cursor (cursor + 2), cursor + 2)
         else case decodedMarkdownCharacterReferenceAt (decodeString M) source cursor to of
                Some (e, v) \<Rightarrow> (projected (slice source cursor e) v cursor e, e)
              | None \<Rightarrow> (projected single single cursor (cursor + length single), cursor + length single))"

partial_function (option) projectionLoop :: "markdown_lib \<Rightarrow> jsstr \<Rightarrow> nat \<Rightarrow> (code_unit \<times> nat \<times> nat) list \<Rightarrow> nat
    \<Rightarrow> (code_unit \<times> nat \<times> nat) list option" where
  "projectionLoop M source to acc cursor =
     (if cursor < to then projectionLoop M source to (acc @ fst (projectedToken M source cursor to)) (snd (projectedToken M source cursor to))
      else Some acc)"

definition decodedSourceProjection :: "markdown_lib \<Rightarrow> jsstr \<Rightarrow> nat \<Rightarrow> nat \<Rightarrow> (code_unit \<times> nat \<times> nat) list option" where
  "decodedSourceProjection M source from to = projectionLoop M source to [] from"

definition projectedSpan :: "(code_unit \<times> nat \<times> nat) list \<Rightarrow> nat \<Rightarrow> jsstr \<Rightarrow> nat \<Rightarrow> nat \<times> nat" where
  "projectedSpan projection lowerBound value i =
     (let start = (case charAt projection i of Some p \<Rightarrow> fst (snd p) | None \<Rightarrow> lowerBound)
      in (start, if i + length value = 0 then start
                 else case charAt projection (i + length value - 1) of Some p \<Rightarrow> snd (snd p) | None \<Rightarrow> start))"

text \<open>The places of a text in the projection are tried in order. An empty text is placed at once, at the first place.\<close>

definition recoveredSpan :: "markdown_lib \<Rightarrow> jsstr \<Rightarrow> SourceRange list \<Rightarrow> (code_unit \<times> nat \<times> nat) list \<Rightarrow> nat \<Rightarrow> jsstr \<Rightarrow> (nat \<times> nat) option" where
  "recoveredSpan M source bs projection lowerBound value =
     List.find (\<lambda>s. literalRunsForTextNode M value (Some s) source bs \<noteq> None)
       (map (projectedSpan projection lowerBound value)
          (filter (startsWithAt (map fst projection) value) [0..<Suc (length projection)]))"

fun withRecovered :: "(nat \<times> nat) option \<Rightarrow> unist \<Rightarrow> unist" where
  "withRecovered None node = node"
| "withRecovered (Some s) (LiteralNode t v d p r) = LiteralNode t v d p (Some s)"
| "withRecovered (Some s) (ParentNode t u p r kids) = ParentNode t u p (Some s) kids"

definition nearestSpan :: "unist list \<Rightarrow> (nat \<times> nat) option" where
  "nearestSpan nodes = (case List.find (\<lambda>x. nodeSpan x \<noteq> None) nodes of None \<Rightarrow> None | Some x \<Rightarrow> nodeSpan x)"

fun recoverLoop :: "markdown_lib \<Rightarrow> jsstr \<Rightarrow> MarkdownSourceContext \<Rightarrow> nat \<times> nat \<Rightarrow> unist list \<Rightarrow> unist list \<Rightarrow> unist list option" where
  "recoverLoop M source c parentSpan seen [] = Some seen"
| "recoverLoop M source c parentSpan seen (child # rest) =
     (if \<not> isTextNode child \<or> nodeSpan child \<noteq> None then recoverLoop M source c parentSpan (seen @ [child]) rest
      else let lowerBound = (case nearestSpan (rev seen) of Some s \<Rightarrow> snd s | None \<Rightarrow> fst parentSpan);
               upperBound = (case nearestSpan rest of Some s \<Rightarrow> fst s | None \<Rightarrow> snd parentSpan)
           in do {
             projection \<leftarrow> decodedSourceProjection M source lowerBound upperBound;
             let s = recoveredSpan M source (src_boundaries c) projection lowerBound (unist_value child);
             recoverLoop M source c parentSpan (seen @ [withRecovered s child]) rest
           })"

definition recoverTextSpans :: "markdown_lib \<Rightarrow> jsstr \<Rightarrow> MarkdownSourceContext \<Rightarrow> (nat \<times> nat) option \<Rightarrow> unist list \<Rightarrow> unist list option" where
  "recoverTextSpans M source c parentSpan kids =
     (case parentSpan of None \<Rightarrow> Some kids | Some s \<Rightarrow> recoverLoop M source c s [] kids)"

definition mailLink :: "email_range \<Rightarrow> unist" where
  "mailLink e = (case e of (a, b, v) \<Rightarrow> ParentNode ''link'' (js ''mailto:'' @ v) (None, None) (Some (a, b)) [plainTextNode v (Some (a, b))])"

fun emailPieces :: "markdown_lib \<Rightarrow> jsstr \<Rightarrow> nat \<Rightarrow> nat \<Rightarrow> email_range list \<Rightarrow> unist list" where
  "emailPieces M source to cursor [] = (if cursor < to then [sourceTextNode M source (cursor, to)] else [])"
| "emailPieces M source to cursor ((a, b, v) # rs) =
     (if cursor < a then [sourceTextNode M source (cursor, a)] else []) @ mailLink (a, b, v) # emailPieces M source to b rs"

definition splitAtEmails :: "markdown_lib \<Rightarrow> jsstr \<Rightarrow> MarkdownSourceContext \<Rightarrow> unist \<Rightarrow> unist list" where
  "splitAtEmails M source c child =
     (case (if isTextNode child then nodeSpan child else None) of
        None \<Rightarrow> [child]
      | Some s \<Rightarrow>
          let emails = filter (\<lambda>(a, b, v). fst s \<le> a \<and> snd s \<ge> b) (src_emails c)
          in if emails = [] then [child] else emailPieces M source (snd s) (fst s) emails)"

definition synthesizeGFMEmailLinks :: "markdown_lib \<Rightarrow> jsstr \<Rightarrow> MarkdownSourceContext \<Rightarrow> unist list \<Rightarrow> unist list" where
  "synthesizeGFMEmailLinks M source c kids = concat (map (splitAtEmails M source c) kids)"

definition findIndex :: "(nat \<Rightarrow> 'a \<Rightarrow> bool) \<Rightarrow> 'a list \<Rightarrow> nat option" where
  "findIndex P xs = List.find (\<lambda>i. P i (xs ! i)) [0..<length xs]"

definition isUnderscoreEmail :: "jsstr \<Rightarrow> MarkdownSourceContext \<Rightarrow> nat \<times> nat \<Rightarrow> nat \<Rightarrow> bool" where
  "isUnderscoreEmail source c rng width \<longleftrightarrow>
     (let delimiter = replicate width 95; innerFrom = fst rng + width; innerTo = snd rng - width
      in slice source (fst rng) innerFrom = delimiter \<and> slice source innerTo (snd rng) = delimiter
         \<and> list_ex (\<lambda>(a, b, v). a \<ge> innerFrom \<and> b \<le> innerTo \<and> list_all (\<lambda>ch. ch = 95) (slice source innerFrom a)) (src_emails c))"

definition spanSatisfies :: "(nat \<times> nat \<Rightarrow> bool) \<Rightarrow> unist \<Rightarrow> bool" where
  "spanSatisfies P node \<longleftrightarrow> (case nodeSpan node of None \<Rightarrow> False | Some s \<Rightarrow> P s)"

definition wrapEmphasis :: "markdown_lib \<Rightarrow> jsstr \<Rightarrow> nat \<times> nat \<Rightarrow> nat \<Rightarrow> nat \<times> nat \<Rightarrow> nat \<times> nat \<Rightarrow> unist list \<Rightarrow> unist list" where
  "wrapEmphasis M source rng width firstSpan lastSpan between =
     (let innerFrom = fst rng + width; innerTo = snd rng - width;
          kids = (if innerFrom < snd firstSpan then [sourceTextNode M source (innerFrom, min (snd firstSpan) innerTo)] else []) @ between
               @ (if fst lastSpan < innerTo then [sourceTextNode M source (max (fst lastSpan) innerFrom, innerTo)] else [])
      in (if fst firstSpan < fst rng then [sourceTextNode M source (fst firstSpan, fst rng)] else [])
         @ [ParentNode (if width = 2 then ''strong'' else ''emphasis'') [] (None, None) (Some rng) kids]
         @ (if snd rng < snd lastSpan then [sourceTextNode M source (snd rng, snd lastSpan)] else []))"

definition reconcileEmphasis :: "markdown_lib \<Rightarrow> jsstr \<Rightarrow> MarkdownSourceContext \<Rightarrow> unist list \<Rightarrow> (nat \<times> nat) \<times> nat \<Rightarrow> unist list" where
  "reconcileEmphasis M source c kids e =
     (let (rng, width) = e; innerFrom = fst rng + width; innerTo = snd rng - width
      in if \<not> isUnderscoreEmail source c rng width then kids
         else case findIndex (\<lambda>i. spanSatisfies (\<lambda>s. fst s \<le> fst rng \<and> snd s \<ge> innerFrom)) kids of
                None \<Rightarrow> kids
              | Some firstIndex \<Rightarrow>
                  (case findIndex (\<lambda>i k. i \<ge> firstIndex \<and> spanSatisfies (\<lambda>s. fst s \<le> innerTo \<and> snd s \<ge> snd rng) k) kids of
                     None \<Rightarrow> kids
                   | Some lastIndex \<Rightarrow>
                       if lastIndex \<le> firstIndex \<or> \<not> isTextNode (kids ! firstIndex) \<or> \<not> isTextNode (kids ! lastIndex) then kids
                       else (case (nodeSpan (kids ! firstIndex), nodeSpan (kids ! lastIndex)) of
                               (Some firstSpan, Some lastSpan) \<Rightarrow>
                                 take firstIndex kids
                                 @ wrapEmphasis M source rng width firstSpan lastSpan (slice kids (firstIndex + 1) lastIndex)
                                 @ drop (lastIndex + 1) kids
                             | _ \<Rightarrow> kids)))"

definition reconcileUnderscoreEmailEmphasis :: "markdown_lib \<Rightarrow> jsstr \<Rightarrow> MarkdownSourceContext \<Rightarrow> unist list \<Rightarrow> unist list" where
  "reconcileUnderscoreEmailEmphasis M source c kids = foldl (reconcileEmphasis M source c) kids (src_emphasis c)"

definition reconcileRuns :: "markdown_lib \<Rightarrow> jsstr \<Rightarrow> MarkdownSourceContext \<Rightarrow> (nat \<times> nat) option \<Rightarrow> unist list \<Rightarrow> unist list option" where
  "reconcileRuns M source c parentSpan kids =
     do {
       kids \<leftarrow> recoverTextSpans M source c parentSpan (mergeAdjacentTextNodes M source kids);
       Some (reconcileUnderscoreEmailEmphasis M source c (synthesizeGFMEmailLinks M source c (mergeAdjacentTextNodes M source kids)))
     }"

fun weight :: "unist \<Rightarrow> nat" where
  "weight (LiteralNode t v d p r) = 1"
| "weight (ParentNode t u p r kids) = Suc (sum_list (map weight kids))"

text \<open>A link that is unwrapped is followed by another look at what took its place; a text is passed over there.\<close>

function (sequential) reconcileTextNodes :: "markdown_lib \<Rightarrow> jsstr \<Rightarrow> MarkdownSourceContext \<Rightarrow> unist \<Rightarrow> unist option"
and reconcileChildren :: "markdown_lib \<Rightarrow> jsstr \<Rightarrow> MarkdownSourceContext \<Rightarrow> unist list \<Rightarrow> unist list option"
where
  "reconcileTextNodes M source c (LiteralNode t v d p r) = Some (LiteralNode t v d p r)"
| "reconcileTextNodes M source c (ParentNode t u p r kids) =
     do {
       kids' \<leftarrow> reconcileChildren M source c kids;
       kids' \<leftarrow> reconcileRuns M source c (nodeSpan (ParentNode t u p r kids)) kids';
       Some (ParentNode t u p r kids')
     }"
| "reconcileChildren M source c [] = Some []"
| "reconcileChildren M source c (LiteralNode t v d p r # rest) =
     map_option ((#) (LiteralNode t v d p r)) (reconcileChildren M source c rest)"
| "reconcileChildren M source c (ParentNode t u p r kids # rest) =
     (if t \<in> set TRANSPARENT_PARENT_TYPES
      then do {
        child \<leftarrow> reconcileTextNodes M source c (ParentNode t u p r kids);
        rest' \<leftarrow> reconcileChildren M source c rest;
        Some (child # rest')
      }
      else if t = ''link'' \<and> (isLiteralEmailLink (ParentNode t u p r kids) c \<or> \<not> isWrittenGFMLink (ParentNode t u p r kids) c)
      then (case nodeSpan (ParentNode t u p r kids) of
              Some s \<Rightarrow> map_option ((#) (sourceTextNode M source s)) (reconcileChildren M source c rest)
            | None \<Rightarrow> reconcileChildren M source c (kids @ rest))
      else map_option ((#) (ParentNode t u p r kids)) (reconcileChildren M source c rest))"
  by pat_completeness auto
termination
  by (relation "measure (\<lambda>x. case x of Inl (M, s, c, k) \<Rightarrow> 2 * weight k | Inr (M, s, c, ks) \<Rightarrow> 2 * sum_list (map weight ks) + 1)") auto

section \<open>Tags and mentions as nodes\<close>

fun segmentNode :: "Segment \<Rightarrow> unist" where
  "segmentNode (TextSegment v) = plainTextNode v None"
| "segmentNode (TagSegment source v) = createTagNode v source"
| "segmentNode (MentionSegment source v) = createMentionNode v source"

fun isTextSegment :: "Segment \<Rightarrow> bool" where
  "isTextSegment (TextSegment v) \<longleftrightarrow> True"
| "isTextSegment (TagSegment source v) \<longleftrightarrow> False"
| "isTextSegment (MentionSegment source v) \<longleftrightarrow> False"

definition transformTextNode :: "markdown_lib \<Rightarrow> EmojiTrieNode \<Rightarrow> jsstr \<Rightarrow> MarkdownSourceContext \<Rightarrow> unist \<Rightarrow> unist list option" where
  "transformTextNode M R source c node =
     map_option (\<lambda>segments. case segments of
         None \<Rightarrow> [node]
       | Some segs \<Rightarrow> if list_all isTextSegment segs then [node] else map segmentNode segs)
       (segmentsForTextNode M R (unist_value node) (nodeSpan node) source (src_boundaries c))"

fun transformChild :: "markdown_lib \<Rightarrow> EmojiTrieNode \<Rightarrow> jsstr \<Rightarrow> MarkdownSourceContext \<Rightarrow> unist \<Rightarrow> unist list option" where
  "transformChild M R source c (LiteralNode t v d p r) =
     (if t = ''text'' then transformTextNode M R source c (LiteralNode t v d p r) else Some [LiteralNode t v d p r])"
| "transformChild M R source c (ParentNode t u p r kids) =
     (if t \<in> set TRANSPARENT_PARENT_TYPES
      then map_option (\<lambda>kids'. [ParentNode t u p r kids']) (those_matches (map (transformChild M R source c) kids))
      else Some [ParentNode t u p r kids])"

fun transformMemoTextNodes :: "markdown_lib \<Rightarrow> EmojiTrieNode \<Rightarrow> jsstr \<Rightarrow> MarkdownSourceContext \<Rightarrow> unist \<Rightarrow> unist option" where
  "transformMemoTextNodes M R source c (LiteralNode t v d p r) = Some (LiteralNode t v d p r)"
| "transformMemoTextNodes M R source c (ParentNode t u p r kids) =
     map_option (ParentNode t u p r) (those_matches (map (transformChild M R source c) kids))"

definition withoutBOM :: "jsstr \<Rightarrow> jsstr" where
  "withoutBOM rawSource = (if startsWith rawSource [65279] then drop 1 rawSource else rawSource)"

definition transformMemoSyntax :: "markdown_lib \<Rightarrow> EmojiTrieNode \<Rightarrow> nat \<Rightarrow> unist \<Rightarrow> jsstr \<Rightarrow> unist option" where
  "transformMemoSyntax M R n tree rawSource =
     do {
       c \<leftarrow> markdownSourceContext M n (withoutBOM rawSource);
       tree \<leftarrow> reconcileTextNodes M (withoutBOM rawSource) c tree;
       transformMemoTextNodes M R (withoutBOM rawSource) c tree
     }"

text \<open>\<open>parse\<close> is \<open>fromMarkdown\<close> with the extensions for GFM.\<close>

fun mentionValues :: "unist \<Rightarrow> jsstr list" where
  "mentionValues (LiteralNode t v d p r) = (if t = ''mentionNode'' then [v] else [])"
| "mentionValues (ParentNode t u p r kids) = concat (map mentionValues kids)"

definition extractMentionUsernames :: "markdown_lib \<Rightarrow> (jsstr \<Rightarrow> unist) \<Rightarrow> EmojiTrieNode \<Rightarrow> nat \<Rightarrow> jsstr \<Rightarrow> jsstr list option" where
  "extractMentionUsernames M parse R n source =
     do {
       tree \<leftarrow> transformMemoSyntax M R n (parse source) source;
       Some (set_of (mentionValues tree))
     }"

section \<open>Segments spell the text\<close>

lemma nul_simps [simp]: "length (nul s) = length s" "nul (s @ t) = nul s @ nul t" "nul (nul s) = nul s" "nul [] = []"
  "nul (c # s) = (if c = 0 then 65533 else c) # nul s"
  by (auto simp: nul_def)

lemma nul_slice: "nul (slice s a b) = slice (nul s) a b" by (simp add: nul_def slice_def take_map drop_map)

lemma nul_concat: "nul (concat xs) = concat (map nul xs)" by (induction xs) auto

text \<open>A run stands in the text at its place, as far as \<open>nul\<close> can tell, and in the source.\<close>

definition run_ok :: "jsstr \<Rightarrow> jsstr \<Rightarrow> LiteralRun \<Rightarrow> bool" where
  "run_ok value source run \<longleftrightarrow>
     slice value (run_valueFrom run) (run_valueFrom run + length (run_source run)) = nul (run_source run)
     \<and> run_source run = slice source (run_sourceFrom run) (run_sourceFrom run + length (run_source run))"

lemma startsWithAt_slice: "startsWithAt v w k \<Longrightarrow> slice v k (k + length w) = w"
  by (simp add: startsWithAt_def startsWith_def slice_def)

lemma slice_as_span: "slice s a b = slice s a (a + length (slice s a b))"
  by (simp add: slice_def min_def)

lemma pushRun_ok:
  assumes "\<forall>run \<in> set (rs_runs st). run_ok value source run" "startsWithAt value (nul (slice source a b)) (valueCursor st)"
  shows "\<forall>run \<in> set (rs_runs (pushRun (slice source a b) a st)). run_ok value source run"
  using assms startsWithAt_slice [OF assms(2)] slice_as_span [of source a b] by (auto simp: pushRun_def run_ok_def)

lemma skippedPrefix_Some:
  "skippedPrefix value cursor source a b = Some k \<Longrightarrow> startsWithAt value (nul (slice source k b)) cursor"
proof (induction "value" cursor source a b rule: skippedPrefix.induct)
  case (1 v cursor source a b)
  then show ?case by (subst (asm) (2) skippedPrefix.simps) (auto split: if_splits)
qed

lemma addRun_ok:
  "addRun value source e omit st = Some st' \<Longrightarrow> \<forall>run \<in> set (rs_runs st). run_ok value source run \<Longrightarrow>
   \<forall>run \<in> set (rs_runs st'). run_ok value source run"
  unfolding addRun_def Let_def by (auto split: if_splits dest!: skippedPrefix_Some intro: pushRun_ok [rule_format])

lemma boundaryStep_ok:
  "boundaryStep M value source start e b st = Some st' \<Longrightarrow> \<forall>run \<in> set (rs_runs st). run_ok value source run \<Longrightarrow>
   \<forall>run \<in> set (rs_runs st'). run_ok value source run"
proof -
  assume b: "boundaryStep M value source start e b st = Some st'" and ok: "\<forall>run \<in> set (rs_runs st). run_ok value source run"
  have after: "rs_runs st2 = rs_runs st1" if "afterBoundary M value w t st1 = Some st2" for w t st1 st2
    using that by (auto simp: afterBoundary_def Let_def split: if_splits)
  obtain r t where "b = (r, t)" by (cases b)
  with b have "st' = st \<or> (\<exists>st1 omit u w. addRun value source u omit st = Some st1
      \<and> afterBoundary M value w t (st1\<lparr>sourceCursor := min (snd r) e\<rparr>) = Some st')"
    by (auto simp: boundaryStep_def Let_def bind_eq_Some_conv split: if_splits)
  then show ?thesis using ok after addRun_ok by fastforce
qed

lemma foldM_invariant:
  "foldM f xs c = Some c' \<Longrightarrow> P c \<Longrightarrow> (\<And>x d d'. x \<in> set xs \<Longrightarrow> f x d = Some d' \<Longrightarrow> P d \<Longrightarrow> P d') \<Longrightarrow> P c'"
proof (induction xs arbitrary: c)
  case (Cons x xs)
  then obtain d where "f x c = Some d" "foldM f xs d = Some c'" by (auto simp: bind_eq_Some_conv)
  with Cons show ?case by (metis list.set_intros(1,2))
qed simp

lemma literal_runs_ok:
  assumes "literalRunsForTextNode M value span source bs = Some runs"
  shows "\<forall>run \<in> set runs. run_ok value source run"
proof -
  obtain start e st st' where f: "foldM (boundaryStep M value source start e) bs
        \<lparr>rs_runs = [], sourceCursor = start, valueCursor = 0, maySkipContainerPrefix = False\<rparr> = Some st"
      and a: "addRun value source e False st = Some st'" and runs: "runs = rs_runs st'"
    using assms by (auto simp: literalRunsForTextNode_def bind_eq_Some_conv)
  have "\<forall>run \<in> set (rs_runs st). run_ok value source run"
    by (rule foldM_invariant [OF f, where P = "\<lambda>st. \<forall>run \<in> set (rs_runs st). run_ok value source run"]) (auto dest: boundaryStep_ok)
  then show ?thesis unfolding runs by (rule addRun_ok [OF a])
qed

fun spelled :: "Segment \<Rightarrow> jsstr" where
  "spelled (TextSegment v) = v"
| "spelled (TagSegment source v) = source"
| "spelled (MentionSegment source v) = source"

definition match_ok :: "jsstr \<Rightarrow> (nat \<times> nat) \<times> Segment \<Rightarrow> bool" where
  "match_ok value m \<longleftrightarrow> fst (fst m) \<le> snd (fst m) \<and> nul (spelled (snd m)) = nul (slice value (fst (fst m)) (snd (fst m)))"

lemma slice_drop: "a \<le> b \<Longrightarrow> slice s a b @ drop b s = drop a s"
  by (simp add: slice_def) (metis append_take_drop_id drop_drop le_add_diff_inverse2)

lemma segmentLoop_spells:
  "\<forall>m \<in> set ms. match_ok value m \<Longrightarrow> nul (concat (map spelled (segmentLoop value cursor ms))) = nul (drop cursor value)"
proof (induction "value" cursor ms rule: segmentLoop.induct)
  case (2 v cursor r seg ms)
  show ?case
  proof (cases "fst r < cursor")
    case False
    have "nul (spelled seg) @ nul (drop (snd r) v) = nul (drop (fst r) v)"
      using "2.prems" slice_drop [of "fst r" "snd r" v] by (simp add: match_ok_def flip: nul_simps(2))
    moreover have "nul (slice v cursor (fst r)) @ nul (drop (fst r) v) = nul (drop cursor v)"
      using False slice_drop [of cursor "fst r" v] by (simp flip: nul_simps(2))
    ultimately show ?thesis using 2 False by (cases "cursor = fst r") auto
  qed (use 2 in simp)
qed simp

lemma slice_slice: "b \<le> length (slice s k l) \<Longrightarrow> slice (slice s k l) a b = slice s (k + a) (k + b)"
  by (auto simp: slice_def drop_take min_def add.commute split: if_splits)

lemma run_match:
  assumes "run_ok value source run" "a \<le> b" "b \<le> length (run_source run)"
    "spelled seg = slice (run_source run) a b"
  shows "match_ok value ((run_valueFrom run + a, run_valueFrom run + b), seg)"
proof -
  let ?k = "run_valueFrom run" and ?n = "length (run_source run)"
  have s: "slice value ?k (?k + ?n) = nul (run_source run)" using assms(1) by (simp add: run_ok_def)
  then have "length (slice value ?k (?k + ?n)) = ?n" by simp
  then have "slice (slice value ?k (?k + ?n)) a b = slice value (?k + a) (?k + b)" using assms(3) slice_slice by metis
  then have "nul (slice (run_source run) a b) = slice value (?k + a) (?k + b)" by (simp add: s nul_slice)
  then show ?thesis unfolding match_ok_def assms(4) fst_conv snd_conv using assms(2) by (metis add_le_cancel_left nul_simps(3))
qed

lemma runMatches_ok:
  assumes "run_ok value source run" "js_string source"
  shows "\<exists>ms. runMatches R source run = Some ms \<and> (\<forall>m \<in> set ms. match_ok value m)"
proof -
  have j: "js_string (run_source run)" using assms js_string_slice unfolding run_ok_def by metis
  obtain ts where ts: "findTagMatches R (run_source run) 0 (length (run_source run)) = Some ts"
      "ordered_ranges 0 (length (run_source run)) (map tag_range ts)"
    using tag_matches [OF j] by blast
  have t: "tag_from m \<le> tag_to m \<and> tag_to m \<le> length (run_source run)" if "m \<in> set ts" for m
    using ordered_ranges_mem [OF ts(2), of "tag_from m" "tag_to m"] that by force
  have n: "mention_from m \<le> mention_to m \<and> mention_to m \<le> length (run_source run)" if "m \<in> set (findMentionMatches (run_source run) bd)" for m bd
    using ordered_ranges_mem [OF findMentionMatches_ranges, of "mention_from m" "mention_to m" "run_source run" bd] that by force
  show ?thesis using t n by (auto simp: runMatches_def ts(1) intro!: run_match [OF assms(1)])
qed

lemma segments_spell:
  assumes "js_string source"
  shows "\<exists>segs. segmentsForTextNode M R value span source bs = Some segs
    \<and> (\<forall>ss. segs = Some ss \<longrightarrow> nul (concat (map spelled ss)) = nul value)"
proof (cases "literalRunsForTextNode M value span source bs")
  case (Some runs)
  note ok = literal_runs_ok [OF Some]
  have r: "\<exists>ms. runMatches R source run = Some ms \<and> (\<forall>m \<in> set ms. match_ok value m)" if "run \<in> set runs" for run
    using runMatches_ok ok assms that by blast
  define ms where "ms = concat (map (\<lambda>run. the (runMatches R source run)) runs)"
  have "those_matches (map (runMatches R source) runs) = Some ms"
    unfolding ms_def using r by (intro those_matches_Some) fastforce
  moreover have "\<forall>m \<in> set (sort_key fst ms). match_ok value m" unfolding ms_def using r by fastforce
  ultimately show ?thesis using segmentLoop_spells [of "sort_key fst ms" "value" 0] by (simp add: segmentsForTextNode_def Some)
qed (simp add: segmentsForTextNode_def)

lemma empty_span_runs: "literalRunsForTextNode M v (Some (k, k)) source bs = Some []"
proof -
  have "boundaryStep M v source k k b st = Some st" for b st by (cases b) (simp add: boundaryStep_def Let_def min_le_iff_disj le_max_iff_disj)
  then have "foldM (boundaryStep M v source k k) bs st = Some st" for st by (induction bs arbitrary: st) auto
  then show ?thesis by (simp add: literalRunsForTextNode_def addRun_def slice_def)
qed

text \<open>The search for an empty text ends at the first place it tries.\<close>

lemma empty_text_placed: "recoveredSpan M source bs projection lowerBound [] = Some (projectedSpan projection lowerBound [] 0)"
proof -
  have c: "filter (startsWithAt (map fst projection) []) [0..<Suc (length projection)] = 0 # [1..<Suc (length projection)]"
    by (simp add: startsWithAt_def startsWith_def upt_rec [of 0] del: upt_Suc)
  have "literalRunsForTextNode M [] (Some (projectedSpan projection lowerBound [] 0)) source bs \<noteq> None"
    by (simp add: projectedSpan_def Let_def empty_span_runs)
  then show ?thesis unfolding recoveredSpan_def c by simp
qed

section \<open>What a reader sees\<close>

text \<open>A tree as the stream of what is displayed: the units of texts, tags and mentions, other leaves, and the start and the end
  of every other element.\<close>

datatype token = Shown code_unit | Atom string jsstr | OpenElement string jsstr | CloseElement

fun rendering :: "unist \<Rightarrow> token list" where
  "rendering (LiteralNode t v d p r) =
     (case d of
        Some (cls, attr, source) \<Rightarrow> map Shown (nul source)
      | None \<Rightarrow> if t = ''text'' then map Shown (nul v) else [Atom t v])"
| "rendering (ParentNode t u p r kids) = OpenElement t u # concat (map rendering kids) @ [CloseElement]"

lemma segment_rendering: "concat (map rendering (map segmentNode ss)) = map Shown (nul (concat (map spelled ss)))"
proof (induction ss)
  case (Cons a ss)
  then show ?case by (cases a) (simp_all add: plainTextNode_def createTagNode_def createMentionNode_def)
qed simp

text \<open>Text nodes of a parser carry no data.\<close>

fun plain_texts :: "unist \<Rightarrow> bool" where
  "plain_texts (LiteralNode t v d p r) \<longleftrightarrow> (t = ''text'' \<longrightarrow> d = None)"
| "plain_texts (ParentNode t u p r kids) \<longleftrightarrow> list_all plain_texts kids"

lemma transformTextNode_rendering:
  assumes "js_string source"
  shows "\<exists>ks. transformTextNode M R source c (LiteralNode ''text'' v None p r) = Some ks
    \<and> concat (map rendering ks) = rendering (LiteralNode ''text'' v None p r)"
proof -
  let ?n = "LiteralNode ''text'' v None p r"
  obtain segs where s: "segmentsForTextNode M R v (nodeSpan ?n) source (src_boundaries c) = Some segs"
      "\<forall>ss. segs = Some ss \<longrightarrow> nul (concat (map spelled ss)) = nul v"
    using segments_spell [OF assms] by blast
  show ?thesis
  proof (cases segs)
    case (Some ss)
    then have "concat (map rendering (map segmentNode ss)) = rendering ?n" using s(2) segment_rendering [of ss] by simp
    then show ?thesis using s(1) Some by (simp add: transformTextNode_def del: map_map)
  qed (use s(1) in \<open>simp add: transformTextNode_def\<close>)
qed

lemma those_matches_rendering:
  "(\<And>k. k \<in> set kids \<Longrightarrow> \<exists>ks. f k = Some ks \<and> concat (map rendering ks) = rendering k) \<Longrightarrow>
   \<exists>ks. those_matches (map f kids) = Some ks \<and> concat (map rendering ks) = concat (map rendering kids)"
proof (induction kids)
  case (Cons k kids)
  obtain a where a: "f k = Some a" "concat (map rendering a) = rendering k" using Cons.prems by auto
  obtain b where "those_matches (map f kids) = Some b" "concat (map rendering b) = concat (map rendering kids)" using Cons by auto
  with a show ?case by simp
qed simp

lemma transformChild_rendering:
  "js_string source \<Longrightarrow> plain_texts k \<Longrightarrow> \<exists>ks. transformChild M R source c k = Some ks \<and> concat (map rendering ks) = rendering k"
proof (induction k rule: plain_texts.induct)
  case (1 t v d p r)
  then show ?case using transformTextNode_rendering [of source M R c v p r] by auto
next
  case (2 t u p r kids)
  have "\<exists>ks. those_matches (map (transformChild M R source c) kids) = Some ks \<and> concat (map rendering ks) = concat (map rendering kids)"
    using 2 by (intro those_matches_rendering) (auto simp: list_all_iff)
  then show ?case by auto
qed

lemma transform_rendering:
  assumes "js_string source" "plain_texts tree"
  shows "\<exists>tree'. transformMemoTextNodes M R source c tree = Some tree' \<and> rendering tree' = rendering tree"
proof (cases tree)
  case (ParentNode t u p r kids)
  have "\<exists>ks. those_matches (map (transformChild M R source c) kids) = Some ks \<and> concat (map rendering ks) = concat (map rendering kids)"
    using assms ParentNode by (intro those_matches_rendering transformChild_rendering) (auto simp: list_all_iff)
  then show ?thesis using ParentNode by auto
qed simp

section \<open>Links of the reconciled tree\<close>

text \<open>A link that remains is written in the source, or it was made for an e-mail address of the source.\<close>

definition link_ok :: "MarkdownSourceContext \<Rightarrow> unist \<Rightarrow> bool" where
  "link_ok c node \<longleftrightarrow>
     isWrittenGFMLink node c \<and> \<not> isLiteralEmailLink node c \<or> (\<exists>e \<in> set (src_emails c). node = mailLink e)"

fun links_ok :: "MarkdownSourceContext \<Rightarrow> unist \<Rightarrow> bool" where
  "links_ok c (LiteralNode t v d p r) \<longleftrightarrow> True"
| "links_ok c (ParentNode t u p r kids) \<longleftrightarrow>
     (t = ''link'' \<longrightarrow> link_ok c (ParentNode t u p r kids)) \<and> (t \<in> set TRANSPARENT_PARENT_TYPES \<longrightarrow> list_all (links_ok c) kids)"

lemma links_simps [simp]: "links_ok c (sourceTextNode M source s)" "links_ok c (plainTextNode v r)"
  "links_ok c (createTagNode v w)" "links_ok c (createMentionNode v w)"
  by (simp_all add: sourceTextNode_def plainTextNode_def createTagNode_def createMentionNode_def)

lemma mailLink_ok [simp]: "e \<in> set (src_emails c) \<Longrightarrow> links_ok c (mailLink e)"
  by (cases e) (auto simp: mailLink_def link_ok_def TRANSPARENT_PARENT_TYPES_def)

lemma list_all_slice: "list_all P xs \<Longrightarrow> list_all P (slice xs a b)"
  by (auto simp: list_all_iff slice_def dest: in_set_takeD in_set_dropD)

lemma list_all_take_drop: "list_all P xs \<Longrightarrow> list_all P (take n xs) \<and> list_all P (drop n xs)"
  by (auto simp: list_all_iff dest: in_set_takeD in_set_dropD)

text \<open>A property of nodes that the steps on the children of a node keep.\<close>

locale node_property =
  fixes P :: "unist \<Rightarrow> bool" and c :: MarkdownSourceContext
  assumes source_text: "P (sourceTextNode M source s)"
    and mail_link: "e \<in> set (src_emails c) \<Longrightarrow> P (mailLink e)"
    and recovered_text: "isTextNode k \<Longrightarrow> P k \<Longrightarrow> P (withRecovered r k)"
    and emphasis: "t \<in> {''strong'', ''emphasis''} \<Longrightarrow> list_all P kids \<Longrightarrow> P (ParentNode t [] (None, None) (Some s) kids)"
begin

lemma merge: "list_all P kids \<Longrightarrow> list_all P (mergeAdjacentTextNodes M source kids)"
  by (induction M source kids rule: mergeAdjacentTextNodes.induct) (auto simp: source_text split: option.splits)

lemma recover: "recoverLoop M source d ps seen kids = Some kids' \<Longrightarrow> list_all P seen \<Longrightarrow> list_all P kids \<Longrightarrow> list_all P kids'"
  by (induction M source d ps seen kids rule: recoverLoop.induct) (auto simp: Let_def bind_eq_Some_conv recovered_text split: if_splits)

lemma pieces: "set es \<subseteq> set (src_emails c) \<Longrightarrow> list_all P (emailPieces M source to cursor es)"
  by (induction M source to cursor es rule: emailPieces.induct) (auto simp: source_text mail_link)

lemma synthesize: "list_all P kids \<Longrightarrow> list_all P (synthesizeGFMEmailLinks M source c kids)"
  by (induction kids) (auto simp: synthesizeGFMEmailLinks_def splitAtEmails_def Let_def intro!: pieces split: option.splits)

lemma wrap: "list_all P between \<Longrightarrow> list_all P (wrapEmphasis M source rng w f l between)"
  by (simp add: wrapEmphasis_def Let_def source_text emphasis)

lemma reconciled_emphasis: "list_all P kids \<Longrightarrow> list_all P (reconcileEmphasis M source d kids e)"
  by (auto simp: reconcileEmphasis_def Let_def list_all_take_drop intro!: wrap list_all_slice split: prod.splits option.splits)

lemma reconciled_underscores: "list_all P kids \<Longrightarrow> list_all P (foldl (reconcileEmphasis M source d) kids es)"
  by (induction es arbitrary: kids) (simp_all add: reconciled_emphasis)

lemma runs: "reconcileRuns M source c ps kids = Some kids' \<Longrightarrow> list_all P kids \<Longrightarrow> list_all P kids'"
  by (auto simp: reconcileRuns_def recoverTextSpans_def reconcileUnderscoreEmailEmphasis_def bind_eq_Some_conv split: option.splits
      intro!: reconciled_underscores synthesize merge dest: recover)

end

interpretation written: node_property "links_ok c" c for c
proof unfold_locales
  fix k r
  assume "isTextNode k"
  then show "links_ok c (withRecovered r k)" by (cases k; cases r) auto
qed auto

interpretation plain: node_property plain_texts c for c
proof unfold_locales
  fix k r
  assume "isTextNode k" "plain_texts k"
  then show "plain_texts (withRecovered r k)" by (cases k; cases r) auto
next
  fix e :: email_range
  show "plain_texts (mailLink e)" by (cases e) (simp add: mailLink_def plainTextNode_def)
qed (simp_all add: sourceTextNode_def plainTextNode_def)

lemma reconcile_links:
  "reconcileTextNodes M source c node = Some node' \<Longrightarrow> unist_type node \<noteq> ''link'' \<Longrightarrow> links_ok c node'"
  "reconcileChildren M source c kids = Some kids' \<Longrightarrow> list_all (links_ok c) kids'"
proof (induction M source c node and M source c kids arbitrary: node' and kids' rule: reconcileTextNodes_reconcileChildren.induct)
  case (5 M source c t u p r kids rest)
  then show ?case
    by (auto simp: bind_eq_Some_conv link_ok_def TRANSPARENT_PARENT_TYPES_def split: if_splits option.splits)
qed (auto simp: bind_eq_Some_conv dest: written.runs)

lemma reconcile_plain:
  "reconcileTextNodes M source c node = Some node' \<Longrightarrow> plain_texts node \<Longrightarrow> plain_texts node'"
  "reconcileChildren M source c kids = Some kids' \<Longrightarrow> list_all plain_texts kids \<Longrightarrow> list_all plain_texts kids'"
proof (induction M source c node and M source c kids arbitrary: node' and kids' rule: reconcileTextNodes_reconcileChildren.induct)
  case (5 M source c t u p r kids rest)
  then show ?case by (auto simp: bind_eq_Some_conv plain.source_text split: if_splits option.splits)
qed (auto simp: bind_eq_Some_conv dest: plain.runs)

lemma segment_links [simp]: "links_ok c (segmentNode s)"
  by (cases s) simp_all

lemma those_matches_all:
  "those_matches (map f kids) = Some ks \<Longrightarrow> (\<And>k xs. k \<in> set kids \<Longrightarrow> f k = Some xs \<Longrightarrow> list_all P xs) \<Longrightarrow> list_all P ks"
  by (induction kids arbitrary: ks) (fastforce simp: bind_eq_Some_conv)+

lemma link_ok_kids:
  "t \<noteq> ''link'' \<Longrightarrow> list_all (links_ok c) kids' \<Longrightarrow> links_ok c (ParentNode t u p r kids')"
  by simp

lemma transformChild_links: "transformChild M R source c k = Some ks \<Longrightarrow> links_ok c k \<Longrightarrow> list_all (links_ok c) ks"
proof (induction k arbitrary: ks)
  case (LiteralNode t v d p r)
  then have "ks = [LiteralNode t v d p r] \<or> (\<exists>ss. ks = map segmentNode ss)"
    by (auto simp: transformTextNode_def split: if_splits option.splits)
  then show ?case by (auto simp: list_all_iff)
next
  case (ParentNode t u p r kids)
  show ?case
  proof (cases "t \<in> set TRANSPARENT_PARENT_TYPES")
    case True
    then obtain ks' where ks': "those_matches (map (transformChild M R source c) kids) = Some ks'" "ks = [ParentNode t u p r ks']"
      using ParentNode.prems by auto
    have "list_all (links_ok c) ks'"
      by (rule those_matches_all [OF ks'(1)]) (use ParentNode True in \<open>auto simp: list_all_iff\<close>)
    then show ?thesis using ks'(2) True by (auto simp: TRANSPARENT_PARENT_TYPES_def)
  qed (use ParentNode.prems in auto)
qed

lemma transform_links:
  assumes "transformMemoTextNodes M R source c tree = Some tree'" "links_ok c tree" "unist_type tree \<in> set TRANSPARENT_PARENT_TYPES"
  shows "links_ok c tree'"
  using assms
proof (cases tree)
  case (ParentNode t u p r kids)
  then have "transformChild M R source c tree = Some [tree']" using assms(1,3) by auto
  then show ?thesis using transformChild_links [of M R source c tree "[tree']"] assms(2) by simp
qed auto

section \<open>The plugin returns\<close>

lemma foldM_returns: "(\<And>x d. x \<in> set xs \<Longrightarrow> f x d \<noteq> None) \<Longrightarrow> foldM f xs c \<noteq> None"
proof (induction xs arbitrary: c)
  case (Cons x xs)
  then obtain d where "f x c = Some d" by fastforce
  with Cons show ?case by simp
qed simp

lemma second_labels_return:
  "answers (\<lambda>s. again s \<noteq> None) source (sourceNodes node) \<Longrightarrow> projectUnresolvedSecondLabels again source resolved node c \<noteq> None"
proof (induction again source resolved node c rule: projectUnresolvedSecondLabels.induct)
  case (1 again source resolved name a b kids c)
  have kid: "answers (\<lambda>s. again s \<noteq> None) source (sourceNodes k)" if "k \<in> set kids" for k
    using "1.prems" that by (auto simp: answers_def)
  have lab: "projectSecondLabel again source k d \<noteq> None" if "k \<in> set kids" for k d
    using kid [OF that] by (auto simp: projectSecondLabel_def sourceNodes_hd [of k] reparsedSources_def Let_def)
  obtain c' where c': "(if isLinkLike name \<and> \<not> hasExactMarkdownRange resolved (SourceNode name a b kids)
              then foldM (projectSecondLabel again source) kids c else Some c) = Some c'"
    using foldM_returns [of kids "projectSecondLabel again source" c] lab by fastforce
  have "foldM (projectUnresolvedSecondLabels again source resolved) kids c' \<noteq> None"
    using "1.IH" [OF c'] kid by (intro foldM_returns) blast
  then show ?case using c' by simp
qed

lemma rejected_returns:
  "answers (\<lambda>s. again s \<noteq> None) source (sourceNodes node) \<Longrightarrow> projectRejectedURLNodes M again source resolved urls node c \<noteq> None"
proof (induction M again source resolved urls node c rule: projectRejectedURLNodes.induct)
  case (1 M again source resolved urls name a b kids c)
  have kid: "answers (\<lambda>s. again s \<noteq> None) source (sourceNodes k)" if "k \<in> set kids" for k
    using "1.prems" that by (auto simp: answers_def)
  have url: "projectRejectedURL M again source urls parent k d \<noteq> None" if "k \<in> set kids" "node_name k = ''URL''" for k d parent
    using kid [OF that(1)] that(2) by (auto simp: projectRejectedURL_def sourceNodes_hd [of k] reparsedSources_def Let_def)
  show ?case
  proof (cases "name = ''Autolink'' \<or> name = ''LinkReference'' \<or> isLinkLike name \<and> hasExactMarkdownRange resolved (SourceNode name a b kids)")
    case False
    have "foldM (\<lambda>node d. if node_name node \<noteq> ''URL'' then projectRejectedURLNodes M again source resolved urls node d
                           else projectRejectedURL M again source urls (SourceNode name a b kids) node d) kids c \<noteq> None"
      using "1.IH" [OF False] kid url by (intro foldM_returns) auto
    then show ?thesis using False by simp
  qed simp
qed

lemma context_returns: "js_string s \<Longrightarrow> reparse_within M n s (parseSource M s) \<Longrightarrow> markdownSourceContext M (Suc n) s \<noteq> None"
proof (induction n arbitrary: s rule: less_induct)
  case (less n)
  have again: "answers (\<lambda>s. markdownSourceContext M n s \<noteq> None) s (sourceNodes (parseSource M s))"
    by (intro answers_mono [OF reparse_answers [OF less.prems(2)]])
      (cases n; use less.IH reparsed_string [OF less.prems(1)] in auto)
  have emails: "answers (\<lambda>s. emailsAgain M n s \<noteq> None) s (sourceNodes (parseSource M s))"
    by (intro answers_mono [OF reparse_answers [OF less.prems(2)]])
      (cases n; use emailsAgain_returns reparsed_string [OF less.prems(1)] in auto)
  define root where "root = parseSource M s"
  define resolved where "resolved = resolvedMarkdownLinkRanges M s root"
  define urls where "urls = findMarkdownGFMURLRanges M s root resolved False"
  obtain es where es: "findMarkdownGFMEmailRanges M n s root resolved True = Some es"
    using emails_return(1) [OF less.prems(1) emails] unfolding findMarkdownGFMEmailRanges_def root_def by fastforce
  define c where "c = pushDecoded M s (enterNodes resolved root
              \<lparr>src_boundaries = map (\<lambda>r. (r, OpaqueRange)) urls, src_emails = es, src_emphasis = [], src_links = urls, src_syntaxLinks = []\<rparr>)"
  obtain d where d: "projectUnresolvedSecondLabels (markdownSourceContext M n) s resolved root c = Some d"
    using second_labels_return [OF again] unfolding root_def by fast
  obtain d' where d': "projectRejectedURLNodes M (markdownSourceContext M n) s resolved urls root d = Some d'"
    using rejected_returns [OF again] unfolding root_def by fast
  show ?case using es d d' by (simp add: Let_def root_def [symmetric] resolved_def [symmetric] urls_def [symmetric] c_def [symmetric])
qed

lemma token_progress: "cursor < to \<Longrightarrow> to \<le> length source \<Longrightarrow> cursor < snd (projectedToken M source cursor to)"
  by (auto simp: projectedToken_def Let_def stepSize_def slice_def split: option.splits dest: reference_progress)

lemma projection_returns: "to \<le> length source \<Longrightarrow> projectionLoop M source to acc cursor \<noteq> None"
proof (induction "to - cursor" arbitrary: acc cursor rule: less_induct)
  case less
  then show ?case using token_progress [of cursor to source M] by (subst projectionLoop.simps) auto
qed

definition span_in :: "nat \<Rightarrow> unist \<Rightarrow> bool" where
  "span_in l node \<longleftrightarrow> (\<forall>s. nodeSpan node = Some s \<longrightarrow> fst s \<le> l \<and> snd s \<le> l)"

fun spans_in :: "nat \<Rightarrow> unist \<Rightarrow> bool" where
  "spans_in l (LiteralNode t v d p r) \<longleftrightarrow> span_in l (LiteralNode t v d p r)"
| "spans_in l (ParentNode t u p r kids) \<longleftrightarrow> span_in l (ParentNode t u p r kids) \<and> list_all (spans_in l) kids"

lemma text_span [simp]: "nodeSpan (sourceTextNode M source s) = Some s"
  by (simp add: nodeSpan_def positionedSpan_def sourceTextNode_def plainTextNode_def)

lemma parent_span: "nodeSpan (ParentNode t u p r kids) = nodeSpan (ParentNode t' u' p r kids')"
  by (simp add: nodeSpan_def positionedSpan_def split: option.splits)

lemma merge_spans: "list_all (span_in l) kids \<Longrightarrow> list_all (span_in l) (mergeAdjacentTextNodes M source kids)"
  by (induction M source kids rule: mergeAdjacentTextNodes.induct) (auto simp: span_in_def split: option.splits)

lemma nearest_in: "list_all (span_in l) kids \<Longrightarrow> nearestSpan kids = Some s \<Longrightarrow> fst s \<le> l"
  by (fastforce simp: nearestSpan_def span_in_def list_all_iff find_Some_iff split: option.splits)

lemma recover_returns:
  "list_all (span_in (length source)) kids \<Longrightarrow> snd ps \<le> length source \<Longrightarrow> recoverLoop M source c ps seen kids \<noteq> None"
proof (induction M source c ps seen kids rule: recoverLoop.induct)
  case (2 M source c ps seen k rest)
  define upper where "upper = (case nearestSpan rest of Some s \<Rightarrow> fst s | None \<Rightarrow> snd ps)"
  have "upper \<le> length source" using "2.prems" nearest_in [of "length source" rest] by (auto simp: upper_def split: option.splits)
  then have "decodedSourceProjection M source lower upper \<noteq> None" for lower
    unfolding decodedSourceProjection_def by (rule projection_returns)
  then obtain pr where "decodedSourceProjection M source (case nearestSpan (rev seen) of Some s \<Rightarrow> snd s | None \<Rightarrow> fst ps) upper = Some pr"
    by blast
  then show ?case using 2 unfolding upper_def by (simp add: Let_def)
qed simp

lemma runs_return:
  "list_all (span_in (length source)) kids \<Longrightarrow> (\<And>s. ps = Some s \<Longrightarrow> snd s \<le> length source) \<Longrightarrow> reconcileRuns M source c ps kids \<noteq> None"
proof -
  assume "list_all (span_in (length source)) kids" and s: "\<And>s. ps = Some s \<Longrightarrow> snd s \<le> length source"
  then have "list_all (span_in (length source)) (mergeAdjacentTextNodes M source kids)" by (simp add: merge_spans)
  from recover_returns [OF this s] have "recoverTextSpans M source c ps (mergeAdjacentTextNodes M source kids) \<noteq> None"
    by (simp add: recoverTextSpans_def split: option.splits)
  then show ?thesis by (auto simp: reconcileRuns_def)
qed

lemma reconcile_returns:
  "spans_in (length source) node \<Longrightarrow> \<exists>node'. reconcileTextNodes M source c node = Some node' \<and> nodeSpan node' = nodeSpan node"
  "list_all (spans_in (length source)) kids \<Longrightarrow>
   \<exists>kids'. reconcileChildren M source c kids = Some kids' \<and> list_all (span_in (length source)) kids'"
proof (induction M source c node and M source c kids rule: reconcileTextNodes_reconcileChildren.induct)
  case (2 M source c t u p r kids)
  obtain kids' where k: "reconcileChildren M source c kids = Some kids'" "list_all (span_in (length source)) kids'" using 2 by auto
  have "reconcileRuns M source c (nodeSpan (ParentNode t u p r kids)) kids' \<noteq> None"
    by (rule runs_return [OF k(2)]) (use "2.prems" in \<open>auto simp: span_in_def\<close>)
  moreover have "nodeSpan (ParentNode t u p r ks) = nodeSpan (ParentNode t u p r kids)" for ks by (rule parent_span)
  ultimately show ?case using k(1) by auto
next
  case (5 M source c t u p r kids rest)
  let ?n = "ParentNode t u p r kids"
  have n: "span_in (length source) ?n" using "5.prems" by simp
  consider (transparent) "t \<in> set TRANSPARENT_PARENT_TYPES"
    | (link) "t \<notin> set TRANSPARENT_PARENT_TYPES" "t = ''link'' \<and> (isLiteralEmailLink ?n c \<or> \<not> isWrittenGFMLink ?n c)"
    | (other) "t \<notin> set TRANSPARENT_PARENT_TYPES" "\<not> (t = ''link'' \<and> (isLiteralEmailLink ?n c \<or> \<not> isWrittenGFMLink ?n c))" by blast
  then show ?case
  proof cases
    case transparent
    obtain k where k: "reconcileTextNodes M source c ?n = Some k" "nodeSpan k = nodeSpan ?n" using "5.IH"(1) [OF transparent] "5.prems" by auto
    obtain rest' where "reconcileChildren M source c rest = Some rest'" "list_all (span_in (length source)) rest'"
      using "5.IH"(2) [OF transparent k(1)] "5.prems" by auto
    moreover have "span_in (length source) k" using k(2) n by (simp add: span_in_def)
    ultimately show ?thesis using k(1) transparent by simp
  next
    case link
    then show ?thesis using 5 n by (cases "nodeSpan ?n") (auto simp: span_in_def)
  next
    case other
    then show ?thesis using "5.IH"(5) "5.prems" n by auto
  qed
next
  case (4 M source c t v d p r rest)
  then show ?case by auto
qed auto

lemma js_string_BOM: "js_string s \<Longrightarrow> js_string (withoutBOM s)"
  by (auto simp: withoutBOM_def js_string_def dest: in_set_dropD)

lemma plugin_stages:
  assumes "js_string rawSource" "reparse_within M n (withoutBOM rawSource) (parseSource M (withoutBOM rawSource))"
    "spans_in (length (withoutBOM rawSource)) tree" "plain_texts tree"
  obtains c t1 t2 where "markdownSourceContext M (Suc n) (withoutBOM rawSource) = Some c"
    "reconcileTextNodes M (withoutBOM rawSource) c tree = Some t1" "transformMemoTextNodes M R (withoutBOM rawSource) c t1 = Some t2"
    "transformMemoSyntax M R (Suc n) tree rawSource = Some t2" "rendering t2 = rendering t1"
proof -
  note js = js_string_BOM [OF assms(1)]
  obtain c where c: "markdownSourceContext M (Suc n) (withoutBOM rawSource) = Some c" using context_returns [OF js assms(2)] by blast
  obtain t1 where t1: "reconcileTextNodes M (withoutBOM rawSource) c tree = Some t1" using reconcile_returns(1) [OF assms(3)] by blast
  obtain t2 where t2: "transformMemoTextNodes M R (withoutBOM rawSource) c t1 = Some t2" "rendering t2 = rendering t1"
    using transform_rendering [OF js reconcile_plain(1) [OF t1 assms(4)]] by blast
  have "transformMemoSyntax M R (Suc n) tree rawSource = Some t2"
    using t1 t2(1) unfolding transformMemoSyntax_def c by simp
  with c t1 t2 show ?thesis using that by blast
qed

text \<open>C18. The plugin returns on every memo whose nodes lie in the source. Every link left in the text of the memo is written in the
  source as a link or a URL, or stands for an e-mail address found in the source: links that the parser makes beyond these
  are taken apart.\<close>

theorem memo_links_written:
  assumes "js_string rawSource" "reparse_within M n (withoutBOM rawSource) (parseSource M (withoutBOM rawSource))"
    "spans_in (length (withoutBOM rawSource)) tree" "plain_texts tree" "unist_type tree = ''root''"
  shows "\<exists>c tree'. markdownSourceContext M (Suc n) (withoutBOM rawSource) = Some c
    \<and> transformMemoSyntax M R (Suc n) tree rawSource = Some tree' \<and> links_ok c tree'"
proof -
  obtain c t1 t2 where s: "markdownSourceContext M (Suc n) (withoutBOM rawSource) = Some c"
      "reconcileTextNodes M (withoutBOM rawSource) c tree = Some t1" "transformMemoTextNodes M R (withoutBOM rawSource) c t1 = Some t2"
      "transformMemoSyntax M R (Suc n) tree rawSource = Some t2"
    using plugin_stages [OF assms(1-4)] by metis
  have "links_ok c t1" using reconcile_links(1) [OF s(2)] assms(5) by simp
  moreover have "unist_type t1 = ''root''" using s(2) assms(5) by (cases tree) (auto simp: bind_eq_Some_conv)
  ultimately have "links_ok c t2" using transform_links [OF s(3)] by (simp add: TRANSPARENT_PARENT_TYPES_def)
  then show ?thesis using s by blast
qed

text \<open>C17. Turning tags and mentions into nodes of their own does not change what is displayed: the texts, tags and mentions of the
  memo spell the same text in the same elements as before.\<close>

theorem tags_keep_text:
  assumes "js_string rawSource" "reparse_within M n (withoutBOM rawSource) (parseSource M (withoutBOM rawSource))"
    "spans_in (length (withoutBOM rawSource)) tree" "plain_texts tree"
  shows "\<exists>c t1 t2. markdownSourceContext M (Suc n) (withoutBOM rawSource) = Some c
    \<and> reconcileTextNodes M (withoutBOM rawSource) c tree = Some t1
    \<and> transformMemoSyntax M R (Suc n) tree rawSource = Some t2 \<and> rendering t2 = rendering t1"
  by (rule plugin_stages [OF assms, of R]) blast

text \<open>The names that \<open>extractMentionUsernames\<close> returns are those of the mentions of the tree, each once.\<close>

theorem mention_usernames:
  assumes "js_string source" "reparse_within M n (withoutBOM source) (parseSource M (withoutBOM source))"
    "spans_in (length (withoutBOM source)) (parse source)" "plain_texts (parse source)"
  shows "\<exists>tree names. transformMemoSyntax M R (Suc n) (parse source) source = Some tree
    \<and> extractMentionUsernames M parse R (Suc n) source = Some names \<and> distinct names \<and> set names = set (mentionValues tree)"
  by (rule plugin_stages [OF assms, of R]) (auto simp: extractMentionUsernames_def simp del: markdownSourceContext.simps)

definition sample_tree :: unist where
  "sample_tree = ParentNode ''root'' [] (Some 0, Some 2) None
     [ParentNode ''paragraph'' [] (Some 0, Some 2) None [LiteralNode ''text'' (js ''#a'') None (Some 0, Some 2) None]]"

lemma sample_tree_ok: "js_string (js ''#a'')"
  "reparse_within sample_lib 0 (withoutBOM (js ''#a'')) (parseSource sample_lib (withoutBOM (js ''#a'')))"
  "spans_in (length (withoutBOM (js ''#a''))) sample_tree" "plain_texts sample_tree" "unist_type sample_tree = ''root''"
  by (simp_all add: js_string_def js_def withoutBOM_def startsWith_def sample_lib_def reparsedSources_def sample_tree_def span_in_def
      nodeSpan_def positionedSpan_def)

theorem memo_links_written_witness:
  "\<exists>c tree'. markdownSourceContext sample_lib (Suc 0) (withoutBOM (js ''#a'')) = Some c
    \<and> transformMemoSyntax sample_lib (emojiTrie []) (Suc 0) sample_tree (js ''#a'') = Some tree' \<and> links_ok c tree'"
  by (rule memo_links_written [OF sample_tree_ok])

theorem tags_keep_text_witness:
  "\<exists>c t1 t2. markdownSourceContext sample_lib (Suc 0) (withoutBOM (js ''#a'')) = Some c
    \<and> reconcileTextNodes sample_lib (withoutBOM (js ''#a'')) c sample_tree = Some t1
    \<and> transformMemoSyntax sample_lib (emojiTrie []) (Suc 0) sample_tree (js ''#a'') = Some t2 \<and> rendering t2 = rendering t1"
  by (rule tags_keep_text [OF sample_tree_ok(1-4)])

end
