(* ===== verification/Ai_Hub.thy ===== *)
theory Ai_Hub
  imports Memo_Filters
begin

text \<open>
  The AI Hub: the filter of the selected notes (\<^verbatim>\<open>web/src/lib/ai-context.ts\<close>), the conversation
  (\<^verbatim>\<open>web/src/hooks/useAiChat.ts\<close>), the cards of proposed changes (\<^verbatim>\<open>web/src/components/AIHub/ProposalCard.tsx\<close>), the estimate
  of the selection (\<^verbatim>\<open>web/src/contexts/AiContext.tsx\<close>) and the semantic analysis of a memo
  (\<^verbatim>\<open>web/src/contexts/SemanticAnalysisContext.tsx\<close>).

  Each is a state machine: a handler runs up to its next \<open>await\<close>, what it waits for is part of the state, and answers arrive
  in any order. A handler sees the state of the last render, which React finishes before the next event of the user.
  Identifiers from \<open>crypto.randomUUID\<close> are numbers that are never given out twice.
\<close>

section \<open>The filter of a selection\<close>

definition quoteCELString :: "jsstr \<Rightarrow> jsstr" where
  "quoteCELString value = [34] @ concat (map (\<lambda>c. if c = 92 then [92, 92] else if c = 34 then [92, 34] else [c]) value) @ [34]"

definition selectedNames :: "jsstr list \<Rightarrow> jsstr list" where
  "selectedNames tags = set_of (filter (\<lambda>tag. tag \<noteq> []) (map trim tags))"

definition buildContextFilter :: "jsstr list \<Rightarrow> jsstr" where
  "buildContextFilter tags =
     (let unique = selectedNames tags
      in if unique = [] then [] else js ''tag in ['' @ join (js '', '') (map quoteCELString unique) @ js '']'')"

text \<open>\<open>formatTokenCount\<close> is \<open>toLocaleString\<close> of a number; \<open>dot\<close> is the middle dot between the parts.\<close>

definition describeContextSelection :: "(nat \<Rightarrow> jsstr) \<Rightarrow> nat \<Rightarrow> nat \<Rightarrow> nat \<Rightarrow> jsstr" where
  "describeContextSelection formatTokenCount memoCount estimatedTokens budgetTokens =
     (if memoCount = 0 then js ''No notes selected''
      else dec memoCount @ js '' note'' @ (if memoCount = 1 then [] else js ''s'') @ [32, 183, 32] @ js ''~''
           @ formatTokenCount estimatedTokens @ js '' / '' @ formatTokenCount budgetTokens @ js '' tokens'')"

section \<open>The conversation\<close>

datatype ChatProposalAction = ACTION_UNSPECIFIED | ACTION_CREATE | ACTION_UPDATE

record ChatProposal =
  prop_action :: ChatProposalAction
  prop_content :: jsstr
  prop_target :: jsstr
  prop_targetContent :: "jsstr option"

datatype ChatRole = user_role | assistant_role

record HubMessage =
  msg_id :: nat
  msg_role :: ChatRole
  msg_content :: jsstr
  msg_proposals :: "(nat \<times> ChatProposal) list"
  msg_contextMemoCount :: nat
  msg_contextCommentCount :: nat
  msg_contextEstimatedTokens :: nat
  msg_truncated :: bool

record SendChatTurnOptions =
  opt_filter :: jsstr
  opt_includeComments :: bool
  opt_estimatedMemoCount :: "nat option"
  opt_estimatedCommentCount :: "nat option"

definition retireProposal :: "nat \<Rightarrow> nat \<Rightarrow> HubMessage list \<Rightarrow> HubMessage list" where
  "retireProposal messageId proposalId ms =
     map (\<lambda>m. if msg_id m = messageId then m\<lparr>msg_proposals := filter (\<lambda>p. fst p \<noteq> proposalId) (msg_proposals m)\<rparr> else m) ms"

datatype ChatPhase = idle_phase | preparing | resolving | asking | receiving | proposals_phase

definition PHASE_PHRASE_COUNT :: int where "PHASE_PHRASE_COUNT = 5"

fun phaseName :: "ChatPhase \<Rightarrow> jsstr" where
  "phaseName idle_phase = js ''idle''"
| "phaseName preparing = js ''preparing''"
| "phaseName resolving = js ''resolving''"
| "phaseName asking = js ''asking''"
| "phaseName receiving = js ''receiving''"
| "phaseName proposals_phase = js ''proposals''"

text \<open>The remainder of JavaScript has the sign of the dividend, which the second step of the code corrects.\<close>

definition js_rem :: "int \<Rightarrow> int \<Rightarrow> int" where
  "js_rem a b = (if a < 0 then - ((- a) mod b) else a mod b)"

definition phasePhraseKey :: "ChatPhase \<Rightarrow> int \<Rightarrow> jsstr" where
  "phasePhraseKey phase tick =
     (let index = js_rem (js_rem tick PHASE_PHRASE_COUNT + PHASE_PHRASE_COUNT) PHASE_PHRASE_COUNT
      in js ''ai.phase-'' @ phaseName phase @ js ''-'' @ num (index + 1))"

record ChatProgress =
  phase :: ChatPhase
  tick :: nat
  prog_memoCount :: nat
  prog_commentCount :: nat

definition IDLE_PROGRESS :: ChatProgress where
  "IDLE_PROGRESS = \<lparr>phase = idle_phase, tick = 0, prog_memoCount = 0, prog_commentCount = 0\<rparr>"

record ChatRequest =
  req_filter :: jsstr
  req_includeComments :: bool
  req_messages :: "(ChatRole \<times> jsstr) list"

record ChatResponse =
  resp_content :: jsstr
  resp_proposals :: "ChatProposal list"
  resp_contextMemoCount :: nat
  resp_contextCommentCount :: nat
  resp_contextEstimatedTokens :: nat
  resp_truncated :: bool

text \<open>A running turn with the \<open>await\<close> it stands at: the two frames before the request, the request, and the two frames
  behind the reply.\<close>

datatype turn_stage = Frame1 | Frame2 | Waiting | Frame3 ChatResponse | Frame4 ChatResponse

record turn =
  turn_stage :: turn_stage
  turn_request :: ChatRequest
  turn_memoCount :: nat
  turn_commentCount :: nat

record chat =
  messages :: "HubMessage list"
  isSending :: bool
  chat_progress :: ChatProgress
  chat_turns :: "turn list"
  chat_nextId :: nat

definition chat_start :: chat where
  "chat_start = \<lparr>messages = [], isSending = False, chat_progress = IDLE_PROGRESS, chat_turns = [], chat_nextId = 0\<rparr>"

definition reportProgress :: "ChatPhase \<Rightarrow> turn \<Rightarrow> chat \<Rightarrow> chat" where
  "reportProgress p t c =
     c\<lparr>chat_progress := \<lparr>phase = p, tick = 0, prog_memoCount = turn_memoCount t, prog_commentCount = turn_commentCount t\<rparr>\<rparr>"

definition send :: "jsstr \<Rightarrow> SendChatTurnOptions \<Rightarrow> chat \<Rightarrow> chat" where
  "send content options c =
     (let trimmed = trim content
      in if trimmed = [] \<or> isSending c then c
         else let userMessage = \<lparr>msg_id = chat_nextId c, msg_role = user_role, msg_content = trimmed, msg_proposals = [], msg_contextMemoCount = 0,
                    msg_contextCommentCount = 0, msg_contextEstimatedTokens = 0, msg_truncated = False\<rparr>;
                  transcript = messages c @ [userMessage];
                  t = \<lparr>turn_stage = Frame1,
                       turn_request = \<lparr>req_filter = opt_filter options, req_includeComments = opt_includeComments options,
                          req_messages = map (\<lambda>m. (msg_role m, msg_content m)) transcript\<rparr>,
                       turn_memoCount = (case opt_estimatedMemoCount options of None \<Rightarrow> 0 | Some k \<Rightarrow> k),
                       turn_commentCount = (if opt_includeComments options
                          then (case opt_estimatedCommentCount options of None \<Rightarrow> 0 | Some k \<Rightarrow> k) else 0)\<rparr>
              in c\<lparr>messages := transcript, isSending := True, chat_nextId := Suc (chat_nextId c), chat_turns := chat_turns c @ [t],
                    chat_progress := \<lparr>phase = preparing, tick = 0, prog_memoCount = 0, prog_commentCount = 0\<rparr>\<rparr>)"

text \<open>The turn at index \<open>i\<close> goes on from its \<open>await\<close>; \<open>finishTurn\<close> is the \<open>finally\<close> block.\<close>

definition stay :: "nat \<Rightarrow> turn_stage \<Rightarrow> chat \<Rightarrow> chat" where
  "stay i stage c = c\<lparr>chat_turns := (chat_turns c)[i := (chat_turns c ! i)\<lparr>turn_stage := stage\<rparr>]\<rparr>"

definition finishTurn :: "nat \<Rightarrow> chat \<Rightarrow> chat" where
  "finishTurn i c = c\<lparr>isSending := False, chat_progress := IDLE_PROGRESS, chat_turns := take i (chat_turns c) @ drop (Suc i) (chat_turns c)\<rparr>"

definition replyMessage :: "nat \<Rightarrow> ChatResponse \<Rightarrow> HubMessage" where
  "replyMessage k r =
     \<lparr>msg_id = k, msg_role = assistant_role, msg_content = resp_content r,
      msg_proposals = zip [Suc k..<Suc k + length (resp_proposals r)] (resp_proposals r), msg_contextMemoCount = resp_contextMemoCount r,
      msg_contextCommentCount = resp_contextCommentCount r, msg_contextEstimatedTokens = resp_contextEstimatedTokens r,
      msg_truncated = resp_truncated r\<rparr>"

definition frame_passes :: "nat \<Rightarrow> chat \<Rightarrow> chat" where
  "frame_passes i c =
     (let t = chat_turns c ! i
      in case turn_stage t of
           Frame1 \<Rightarrow> stay i Frame2 (reportProgress resolving t c)
         | Frame2 \<Rightarrow> stay i Waiting (reportProgress asking t c)
         | Waiting \<Rightarrow> c
         | Frame3 r \<Rightarrow> stay i (Frame4 r) (reportProgress proposals_phase t c)
         | Frame4 r \<Rightarrow> finishTurn i (c\<lparr>messages := messages c @ [replyMessage (chat_nextId c) r],
                                      chat_nextId := Suc (chat_nextId c + length (resp_proposals r))\<rparr>))"

definition reply_arrives :: "nat \<Rightarrow> ChatResponse \<Rightarrow> chat \<Rightarrow> chat" where
  "reply_arrives i r c = stay i (Frame3 r) (reportProgress receiving (chat_turns c ! i) c)"

definition request_fails :: "nat \<Rightarrow> chat \<Rightarrow> chat" where
  "request_fails i c = finishTurn i c"

definition timer_ticks_chat :: "chat \<Rightarrow> chat" where
  "timer_ticks_chat c =
     (if phase (chat_progress c) = idle_phase then c
      else c\<lparr>chat_progress := (chat_progress c)\<lparr>tick := tick (chat_progress c) + 1\<rparr>\<rparr>)"

definition chat_reset :: "chat \<Rightarrow> chat" where
  "chat_reset c = c\<lparr>messages := [], chat_progress := IDLE_PROGRESS\<rparr>"

definition resolveProposal :: "nat \<Rightarrow> nat \<Rightarrow> chat \<Rightarrow> chat" where
  "resolveProposal messageId proposalId c = c\<lparr>messages := retireProposal messageId proposalId (messages c)\<rparr>"

text \<open>The events of the page. The button for a new conversation is disabled while a turn runs.\<close>

inductive chat_run :: "chat \<Rightarrow> bool" where
  start: "chat_run chat_start"
| sent: "chat_run c \<Longrightarrow> chat_run (send content options c)"
| frame: "chat_run c \<Longrightarrow> i < length (chat_turns c) \<Longrightarrow> chat_run (frame_passes i c)"
| reply: "chat_run c \<Longrightarrow> i < length (chat_turns c) \<Longrightarrow> turn_stage (chat_turns c ! i) = Waiting \<Longrightarrow> chat_run (reply_arrives i r c)"
| failed: "chat_run c \<Longrightarrow> i < length (chat_turns c) \<Longrightarrow> turn_stage (chat_turns c ! i) = Waiting \<Longrightarrow> chat_run (request_fails i c)"
| ticked: "chat_run c \<Longrightarrow> chat_run (timer_ticks_chat c)"
| resetted: "chat_run c \<Longrightarrow> \<not> isSending c \<Longrightarrow> chat_run (chat_reset c)"
| resolved: "chat_run c \<Longrightarrow> chat_run (resolveProposal m p c)"

section \<open>A proposed change\<close>

datatype write_request =
  UpdateNote (upd_name: jsstr) (upd_content: jsstr) (upd_mask: "jsstr list") (upd_expected: "jsstr option")
| CreateNote (new_content: jsstr) (new_visibility: Visibility)

record card =
  isEditing :: bool
  draft :: jsstr
  appliedName :: "jsstr option"
  isApplying :: bool
  card_sent :: "write_request list"
  card_written :: "write_request list"

definition MEMOS_PREFIX :: jsstr where "MEMOS_PREFIX = js ''memos/''"

definition extractMemoUid :: "jsstr \<Rightarrow> jsstr" where
  "extractMemoUid name = trim (if startsWith name MEMOS_PREFIX then drop 6 name else name)"

definition isUpdate :: "ChatProposal \<Rightarrow> bool" where "isUpdate p \<longleftrightarrow> prop_action p = ACTION_UPDATE"

definition canApply :: "ChatProposal \<Rightarrow> bool" where
  "canApply p \<longleftrightarrow> \<not> isUpdate p \<or> extractMemoUid (prop_target p) \<noteq> [] \<and> prop_targetContent p \<noteq> None"

definition card_start :: "ChatProposal \<Rightarrow> card" where
  "card_start p = \<lparr>isEditing = False, draft = prop_content p, appliedName = None, isApplying = False, card_sent = [], card_written = []\<rparr>"

definition shownContent :: "ChatProposal \<Rightarrow> card \<Rightarrow> jsstr" where
  "shownContent p k = (if isEditing k then draft k else prop_content p)"

definition proposalRequest :: "ChatProposal \<Rightarrow> card \<Rightarrow> write_request" where
  "proposalRequest p k =
     (if isUpdate p
      then UpdateNote (MEMOS_PREFIX @ extractMemoUid (prop_target p)) (trim (shownContent p k)) [js ''content''] (prop_targetContent p)
      else CreateNote (trim (shownContent p k)) PRIVATE)"

definition handleApply :: "ChatProposal \<Rightarrow> card \<Rightarrow> card" where
  "handleApply p k =
     (if trim (shownContent p k) = [] then k
      else k\<lparr>isApplying := True, card_sent := card_sent k @ [proposalRequest p k]\<rparr>)"

text \<open>The answer to the request that was sent last.\<close>

definition apply_succeeds :: "jsstr \<Rightarrow> card \<Rightarrow> card" where
  "apply_succeeds memoName k =
     k\<lparr>appliedName := Some memoName, isEditing := False, isApplying := False, card_written := card_written k @ [last (card_sent k)]\<rparr>"

definition apply_fails :: "card \<Rightarrow> card" where
  "apply_fails k = k\<lparr>isApplying := False\<rparr>"

definition toggleEdit :: "ChatProposal \<Rightarrow> card \<Rightarrow> card" where
  "toggleEdit p k = (if isEditing k then k\<lparr>draft := prop_content p, isEditing := False\<rparr> else k\<lparr>isEditing := True\<rparr>)"

definition setDraft :: "jsstr \<Rightarrow> card \<Rightarrow> card" where
  "setDraft s k = k\<lparr>draft := s\<rparr>"

text \<open>The buttons are shown until the change is applied, and are disabled while it is being applied. The name of a memo that was
  written is not empty.\<close>

definition buttonsShown :: "card \<Rightarrow> bool" where
  "buttonsShown k \<longleftrightarrow> \<not> truthy (appliedName k) \<and> \<not> isApplying k"

inductive card_run :: "ChatProposal \<Rightarrow> card \<Rightarrow> bool" for p where
  shown: "card_run p (card_start p)"
| applied: "card_run p k \<Longrightarrow> buttonsShown k \<Longrightarrow> canApply p \<Longrightarrow> card_run p (handleApply p k)"
| succeeds: "card_run p k \<Longrightarrow> isApplying k \<Longrightarrow> memoName \<noteq> [] \<Longrightarrow> card_run p (apply_succeeds memoName k)"
| fails: "card_run p k \<Longrightarrow> isApplying k \<Longrightarrow> card_run p (apply_fails k)"
| edits: "card_run p k \<Longrightarrow> buttonsShown k \<Longrightarrow> card_run p (toggleEdit p k)"
| types: "card_run p k \<Longrightarrow> isEditing k \<Longrightarrow> card_run p (setDraft s k)"

section \<open>The estimate of a selection\<close>

record ChatContextEstimate =
  est_memoCount :: nat
  est_estimatedTokens :: nat
  est_budgetTokens :: nat
  est_fits :: bool

text \<open>\<open>est_timer\<close> is the armed timeout with its request, \<open>est_inflight\<close> the requests without an answer. \<open>est_log\<close> records what
  the server has answered to which filter.\<close>

record estimator =
  selectedTags :: "jsstr list"
  includeComments :: bool
  estimate :: "ChatContextEstimate option"
  estimateError :: "jsstr option"
  isEstimating :: bool
  requestIdRef :: nat
  est_timer :: "(nat \<times> jsstr) option"
  est_inflight :: "(nat \<times> jsstr) list"
  est_log :: "(jsstr \<times> (jsstr + ChatContextEstimate)) list"

definition contextFilter :: "estimator \<Rightarrow> jsstr" where
  "contextFilter s = buildContextFilter (selectedTags s)"

definition estimator_start :: estimator where
  "estimator_start = \<lparr>selectedTags = [], includeComments = False, estimate = None, estimateError = None, isEstimating = False,
     requestIdRef = 0, est_timer = None, est_inflight = [], est_log = []\<rparr>"

definition estimate_cleanup :: "estimator \<Rightarrow> estimator" where
  "estimate_cleanup s = (if contextFilter s = [] then s else s\<lparr>est_timer := None, isEstimating := False\<rparr>)"

definition estimate_effect :: "estimator \<Rightarrow> estimator" where
  "estimate_effect s =
     (if contextFilter s = [] then s\<lparr>estimate := None, estimateError := None, isEstimating := False\<rparr>
      else let requestId = requestIdRef s + 1
           in s\<lparr>requestIdRef := requestId, isEstimating := True, est_timer := Some (requestId, contextFilter s)\<rparr>)"

text \<open>The effect runs again only when the filter changes.\<close>

definition setSelectedTags :: "jsstr list \<Rightarrow> estimator \<Rightarrow> estimator" where
  "setSelectedTags tags s =
     (if buildContextFilter tags = contextFilter s then s\<lparr>selectedTags := tags\<rparr>
      else estimate_effect ((estimate_cleanup s)\<lparr>selectedTags := tags\<rparr>))"

definition toggleTag :: "jsstr \<Rightarrow> estimator \<Rightarrow> estimator" where
  "toggleTag tag s =
     setSelectedTags (if tag \<in> set (selectedTags s) then filter (\<lambda>item. item \<noteq> tag) (selectedTags s) else selectedTags s @ [tag]) s"

definition clearTags :: "estimator \<Rightarrow> estimator" where
  "clearTags s = setSelectedTags [] s"

definition setIncludeComments :: "bool \<Rightarrow> estimator \<Rightarrow> estimator" where
  "setIncludeComments b s = s\<lparr>includeComments := b\<rparr>"

definition estimate_timer_fires :: "estimator \<Rightarrow> estimator" where
  "estimate_timer_fires s =
     (case est_timer s of None \<Rightarrow> s | Some r \<Rightarrow> s\<lparr>est_timer := None, est_inflight := est_inflight s @ [r]\<rparr>)"

definition estimate_answered :: "nat \<times> jsstr \<Rightarrow> jsstr + ChatContextEstimate \<Rightarrow> estimator \<Rightarrow> estimator" where
  "estimate_answered r res s =
     (let s1 = s\<lparr>est_inflight := removeAll r (est_inflight s), est_log := (snd r, res) # est_log s\<rparr>
      in if requestIdRef s \<noteq> fst r then s1
         else case res of
                Inr e \<Rightarrow> s1\<lparr>estimate := Some e, estimateError := None, isEstimating := False\<rparr>
              | Inl message \<Rightarrow> s1\<lparr>estimate := None, estimateError := Some message, isEstimating := False\<rparr>)"

inductive estimator_run :: "estimator \<Rightarrow> bool" where
  mounted: "estimator_run estimator_start"
| toggled: "estimator_run s \<Longrightarrow> estimator_run (toggleTag tag s)"
| cleared: "estimator_run s \<Longrightarrow> estimator_run (clearTags s)"
| comments: "estimator_run s \<Longrightarrow> estimator_run (setIncludeComments b s)"
| fires: "estimator_run s \<Longrightarrow> estimator_run (estimate_timer_fires s)"
| answered: "estimator_run s \<Longrightarrow> r \<in> set (est_inflight s) \<Longrightarrow> estimator_run (estimate_answered r res s)"

section \<open>Semantic analysis of a memo\<close>

datatype AnalysisState = analysis_idle | analysis_loading | analysis_success | analysis_error

text \<open>A time stamp counts nanoseconds; its seconds and nanoseconds are part of the key.\<close>

definition revisionKey :: "Memo \<Rightarrow> jsstr" where
  "revisionKey memo =
     (let t = (case memo_updateTime memo of None \<Rightarrow> 0 | Some t \<Rightarrow> t)
      in memo_name memo @ js '':'' @ num (t div 1000000000) @ js '':'' @ num (t mod 1000000000) @ js '':'' @ memo_content memo)"

record 'r analysis =
  an_open :: bool
  an_memo :: "Memo option"
  an_result :: "'r option"
  an_status :: AnalysisState
  an_error :: "jsstr option"
  an_cache :: "(jsstr \<times> 'r) list"
  an_request :: nat
  an_pending :: "(nat \<times> jsstr) list"
  an_locationKey :: jsstr
  an_log :: "(jsstr \<times> 'r) list"

definition analysis_start :: "jsstr \<Rightarrow> 'r analysis" where
  "analysis_start loc = \<lparr>an_open = False, an_memo = None, an_result = None, an_status = analysis_idle, an_error = None, an_cache = [],
     an_request = 0, an_pending = [], an_locationKey = loc, an_log = []\<rparr>"

definition analyze :: "Memo \<Rightarrow> bool \<Rightarrow> 'r analysis \<Rightarrow> 'r analysis" where
  "analyze target bypassCache s =
     (let request = an_request s + 1; key = revisionKey target; s1 = s\<lparr>an_request := request\<rparr>
      in case (if bypassCache then None else map_of (an_cache s) key) of
           Some cached \<Rightarrow> s1\<lparr>an_result := Some cached, an_status := analysis_success, an_error := None\<rparr>
         | None \<Rightarrow> s1\<lparr>an_status := analysis_loading, an_result := (if bypassCache then an_result s else None), an_error := None,
                       an_pending := (request, key) # an_pending s\<rparr>)"

definition analysis_answered :: "nat \<times> jsstr \<Rightarrow> 'r \<Rightarrow> 'r analysis \<Rightarrow> 'r analysis" where
  "analysis_answered r response s =
     (let s1 = s\<lparr>an_pending := removeAll r (an_pending s), an_cache := AList.update (snd r) response (an_cache s),
                 an_log := (snd r, response) # an_log s\<rparr>
      in if fst r = an_request s then s1\<lparr>an_result := Some response, an_status := analysis_success\<rparr> else s1)"

definition analysis_failed :: "nat \<times> jsstr \<Rightarrow> jsstr \<Rightarrow> 'r analysis \<Rightarrow> 'r analysis" where
  "analysis_failed r message s =
     (let s1 = s\<lparr>an_pending := removeAll r (an_pending s)\<rparr>
      in if fst r = an_request s then s1\<lparr>an_error := Some message, an_status := analysis_error\<rparr> else s1)"

definition openForMemo :: "Memo \<Rightarrow> 'r analysis \<Rightarrow> 'r analysis" where
  "openForMemo target s = analyze target False (s\<lparr>an_memo := Some target, an_open := True\<rparr>)"

definition analysis_close :: "'r analysis \<Rightarrow> 'r analysis" where
  "analysis_close s = s\<lparr>an_request := an_request s + 1, an_open := False\<rparr>"

definition location_effect :: "jsstr \<Rightarrow> 'r analysis \<Rightarrow> 'r analysis" where
  "location_effect key s = (if an_locationKey s = key then s else analysis_close (s\<lparr>an_locationKey := key\<rparr>))"

definition syncMemo :: "Memo \<Rightarrow> 'r analysis \<Rightarrow> 'r analysis" where
  "syncMemo updated s =
     (case an_memo s of
        None \<Rightarrow> s
      | Some memo \<Rightarrow>
          if \<not> an_open s \<or> memo_name memo \<noteq> memo_name updated \<or> revisionKey memo = revisionKey updated then s
          else analyze updated False (s\<lparr>an_memo := Some updated\<rparr>))"

definition analysis_refresh :: "'r analysis \<Rightarrow> 'r analysis" where
  "analysis_refresh s = (case an_memo s of None \<Rightarrow> s | Some memo \<Rightarrow> analyze memo True s)"

inductive analysis_run :: "'r analysis \<Rightarrow> bool" where
  mounted: "analysis_run (analysis_start loc)"
| opened: "analysis_run s \<Longrightarrow> analysis_run (openForMemo m s)"
| synced: "analysis_run s \<Longrightarrow> analysis_run (syncMemo m s)"
| refreshed: "analysis_run s \<Longrightarrow> analysis_run (analysis_refresh s)"
| closed: "analysis_run s \<Longrightarrow> analysis_run (analysis_close s)"
| moved: "analysis_run s \<Longrightarrow> analysis_run (location_effect key s)"
| answered: "analysis_run s \<Longrightarrow> r \<in> set (an_pending s) \<Longrightarrow> analysis_run (analysis_answered r response s)"
| failed: "analysis_run s \<Longrightarrow> r \<in> set (an_pending s) \<Longrightarrow> analysis_run (analysis_failed r message s)"

section \<open>The filter names exactly the selection\<close>

lemma set_trim: "set (trim s) \<subseteq> set s"
  by (auto simp: trim_def trimStart_def trimEnd_def dest!: set_dropWhileD)

text \<open>A list of literals up to the closing bracket.\<close>

fun readLiterals :: "nat \<Rightarrow> jsstr \<Rightarrow> jsstr list option" where
  "readLiterals 0 s = None"
| "readLiterals (Suc n) s =
     (case readLiteral s of
        None \<Rightarrow> None
      | Some (v, r) \<Rightarrow>
          if r = js '']'' then Some [v]
          else if startsWith r (js '', '') then map_option (\<lambda>vs. v # vs) (readLiterals n (drop 2 r)) else None)"

lemma quoted_body:
  "(\<And>c. c \<in> set v \<Longrightarrow> 32 \<le> c) \<Longrightarrow>
   readLiteralBody (concat (map (\<lambda>c. if c = 92 then [92, 92] else if c = 34 then [92, 34] else [c]) v) @ [34] @ r) = Some (v, r)"
proof (induction v)
  case (Cons c v)
  have "32 \<le> c" "readLiteralBody (concat (map (\<lambda>c. if c = 92 then [92, 92] else if c = 34 then [92, 34] else [c]) v) @ [34] @ r) = Some (v, r)"
    using Cons by auto
  then show ?case by (auto simp: readJsonEscape_def)
qed simp

lemma readLiteral_quoted: "(\<And>c. c \<in> set v \<Longrightarrow> 32 \<le> c) \<Longrightarrow> readLiteral (quoteCELString v @ r) = Some (v, r)"
  using quoted_body [of v r] by (simp add: readLiteral_def quoteCELString_def)

lemma readLiterals_join:
  "vs \<noteq> [] \<Longrightarrow> (\<And>v c. v \<in> set vs \<Longrightarrow> c \<in> set v \<Longrightarrow> 32 \<le> c) \<Longrightarrow> length vs \<le> n \<Longrightarrow>
   readLiterals n (join (js '', '') (map quoteCELString vs) @ js '']'') = Some vs"
proof (induction vs arbitrary: n)
  case (Cons v vs)
  obtain m where n: "n = Suc m" using Cons.prems(3) by (cases n) auto
  have v: "readLiteral (quoteCELString v @ r) = Some (v, r)" for r using Cons.prems(2) by (intro readLiteral_quoted) auto
  show ?case
  proof (cases "vs = []")
    case True
    then show ?thesis by (simp add: n v)
  next
    case False
    have "readLiterals m (join (js '', '') (map quoteCELString vs) @ js '']'') = Some vs"
      by (rule Cons.IH) (use False Cons.prems n in auto)
    moreover have "join (js '', '') (map quoteCELString (v # vs)) = quoteCELString v @ js '', '' @ join (js '', '') (map quoteCELString vs)"
      using False by (cases vs) auto
    ultimately show ?thesis by (simp add: n v) (simp add: js_def startsWith_def)
  qed
qed simp

text \<open>The filter of a selection is empty exactly when no tag is left after trimming; otherwise it is one condition whose string
  literals denote the selected tags, each once and in order. A tag cannot become syntax of the filter.\<close>

theorem context_filter_exact:
  assumes "\<And>t c. t \<in> set tags \<Longrightarrow> c \<in> set t \<Longrightarrow> 32 \<le> c"
  shows "(buildContextFilter tags = [] \<longleftrightarrow> (\<forall>t \<in> set tags. trim t = []))
    \<and> ((\<exists>t \<in> set tags. trim t \<noteq> []) \<longrightarrow> (\<exists>q. buildContextFilter tags = js ''tag in ['' @ q
        \<and> readLiterals (length tags) q = Some (selectedNames tags)))
    \<and> distinct (selectedNames tags) \<and> set (selectedNames tags) = trim ` set tags - {[]}"
proof -
  have s: "distinct (selectedNames tags)" "set (selectedNames tags) = trim ` set tags - {[]}" by (auto simp: selectedNames_def)
  have e: "selectedNames tags = [] \<longleftrightarrow> (\<forall>t \<in> set tags. trim t = [])"
    using s(2) by (auto simp flip: set_empty2)
  have l: "length (selectedNames tags) \<le> length tags"
  proof -
    have "card (set (selectedNames tags)) \<le> card (trim ` set tags)" unfolding s(2) by (intro card_mono) auto
    also have "\<dots> \<le> length tags" using card_image_le [of "set tags" trim] card_length [of tags] by auto
    finally show ?thesis using distinct_card [OF s(1)] by simp
  qed
  have c: "32 \<le> c" if "v \<in> set (selectedNames tags)" "c \<in> set v" for v c
    using that assms s(2) set_trim by fastforce
  have "readLiterals (length tags) (join (js '', '') (map quoteCELString (selectedNames tags)) @ js '']'') = Some (selectedNames tags)"
    if "selectedNames tags \<noteq> []"
    by (rule readLiterals_join [OF that c l])
  then show ?thesis using s e by (simp add: buildContextFilter_def Let_def) (simp add: js_def)
qed

section \<open>The conversation stays in order\<close>

definition follows :: "ChatRole list \<Rightarrow> bool" where
  "follows rs \<longleftrightarrow> (\<forall>i < length rs. rs ! i = assistant_role \<longrightarrow> 0 < i \<and> rs ! (i - 1) = user_role)"

lemma follows_simps [simp]: "follows []" "follows (rs @ [user_role]) \<longleftrightarrow> follows rs"
  "follows (rs @ [assistant_role]) \<longleftrightarrow> follows rs \<and> rs \<noteq> [] \<and> last rs = user_role"
  by (auto simp: follows_def nth_append less_Suc_eq last_conv_nth)

definition hub_ids :: "HubMessage list \<Rightarrow> nat list" where
  "hub_ids ms = concat (map (\<lambda>m. msg_id m # map fst (msg_proposals m)) ms)"

definition spoken :: "HubMessage list \<Rightarrow> (ChatRole \<times> jsstr) list" where
  "spoken ms = map (\<lambda>m. (msg_role m, msg_content m)) ms"

definition turn_ok :: "chat \<Rightarrow> bool" where
  "turn_ok c \<longleftrightarrow>
     (case chat_turns c of
        [] \<Rightarrow> \<not> isSending c \<and> phase (chat_progress c) = idle_phase
      | t # ts \<Rightarrow> ts = [] \<and> isSending c \<and> phase (chat_progress c) \<noteq> idle_phase \<and> messages c \<noteq> []
          \<and> msg_role (last (messages c)) = user_role \<and> req_messages (turn_request t) = spoken (messages c))"

definition chat_inv :: "chat \<Rightarrow> bool" where
  "chat_inv c \<longleftrightarrow> turn_ok c \<and> follows (map msg_role (messages c)) \<and> distinct (hub_ids (messages c))
     \<and> (\<forall>k \<in> set (hub_ids (messages c)). k < chat_nextId c)"

lemma hub_ids_append [simp]: "hub_ids (ms @ [m]) = hub_ids ms @ msg_id m # map fst (msg_proposals m)" "hub_ids [] = []"
  by (simp_all add: hub_ids_def)

lemma send_inv: "chat_inv c \<Longrightarrow> chat_inv (send content options c)"
  by (auto simp: chat_inv_def turn_ok_def send_def Let_def spoken_def split: list.splits)

lemma stay_inv: "chat_inv c \<Longrightarrow> p \<noteq> idle_phase \<Longrightarrow> i < length (chat_turns c) \<Longrightarrow> chat_inv (stay i st (reportProgress p (chat_turns c ! i) c))"
  by (auto simp: chat_inv_def turn_ok_def stay_def reportProgress_def split: list.splits)

lemma finish_inv: "chat_inv c \<Longrightarrow> i < length (chat_turns c) \<Longrightarrow> chat_inv (finishTurn i c)"
  by (auto simp: chat_inv_def turn_ok_def finishTurn_def IDLE_PROGRESS_def split: list.splits)

lemma reply_inv:
  assumes "chat_inv c" "i < length (chat_turns c)"
  shows "chat_inv (finishTurn i (c\<lparr>messages := messages c @ [replyMessage (chat_nextId c) r],
           chat_nextId := Suc (chat_nextId c + length (resp_proposals r))\<rparr>))"
proof -
  have t: "messages c \<noteq> []" "msg_role (last (messages c)) = user_role" "i = 0" "length (chat_turns c) = 1"
    using assms by (auto simp: chat_inv_def turn_ok_def split: list.splits)
  have ids: "map fst (msg_proposals (replyMessage k r)) = [Suc k..<Suc k + length (resp_proposals r)]" "msg_id (replyMessage k r) = k"
      "msg_role (replyMessage k r) = assistant_role" for k
    by (simp_all add: replyMessage_def)
  have "\<forall>k \<in> set (hub_ids (messages c)). k < chat_nextId c" "distinct (hub_ids (messages c))" "follows (map msg_role (messages c))"
    using assms(1) by (auto simp: chat_inv_def)
  then show ?thesis using t by (auto simp: chat_inv_def turn_ok_def finishTurn_def IDLE_PROGRESS_def ids last_map)
qed

lemma frame_inv: "chat_inv c \<Longrightarrow> i < length (chat_turns c) \<Longrightarrow> chat_inv (frame_passes i c)"
  by (auto simp: frame_passes_def Let_def stay_inv reply_inv split: turn_stage.split)

lemma hub_ids_Cons: "hub_ids (m # ms) = msg_id m # map fst (msg_proposals m) @ hub_ids ms"
  by (simp add: hub_ids_def)

lemma retire_Cons:
  "retireProposal m p (a # ms) = (if msg_id a = m then a\<lparr>msg_proposals := filter (\<lambda>q. fst q \<noteq> p) (msg_proposals a)\<rparr> else a) # retireProposal m p ms"
  by (simp add: retireProposal_def)

lemma retire_ids: "set (hub_ids (retireProposal m p ms)) \<subseteq> set (hub_ids ms)"
proof (induction ms)
  case (Cons a ms)
  then show ?case by (auto simp: hub_ids_Cons retire_Cons)
qed (simp add: retireProposal_def)

lemma retire_distinct: "distinct (hub_ids ms) \<Longrightarrow> distinct (hub_ids (retireProposal m p ms))"
proof (induction ms)
  case (Cons a ms)
  have "set (hub_ids (retireProposal m p ms)) \<subseteq> set (hub_ids ms)" by (rule retire_ids)
  moreover obtain a' where a': "retireProposal m p (a # ms) = a' # retireProposal m p ms" "msg_id a' = msg_id a"
      "set (map fst (msg_proposals a')) \<subseteq> set (map fst (msg_proposals a))" "distinct (map fst (msg_proposals a'))"
    using Cons.prems distinct_map_filter [of fst "msg_proposals a"] by (cases "msg_id a = m") (auto simp: retire_Cons hub_ids_Cons)
  moreover have "distinct (hub_ids (retireProposal m p ms))" using Cons by (simp add: hub_ids_Cons)
  moreover have "msg_id a \<notin> set (map fst (msg_proposals a))" "msg_id a \<notin> set (hub_ids ms)"
      "set (map fst (msg_proposals a)) \<inter> set (hub_ids ms) = {}" using Cons.prems by (auto simp: hub_ids_Cons)
  ultimately show ?case unfolding a'(1) hub_ids_Cons a'(2) distinct.simps distinct_append set_append by blast
qed (simp add: retireProposal_def)

lemma retire_views: "map msg_role (retireProposal m p ms) = map msg_role ms" "spoken (retireProposal m p ms) = spoken ms"
  "retireProposal m p ms = [] \<longleftrightarrow> ms = []"
  by (auto simp: retireProposal_def spoken_def)

lemma resolve_inv:
  assumes "chat_inv c"
  shows "chat_inv (resolveProposal m p c)"
proof -
  have "msg_role (last (retireProposal m p ms)) = msg_role (last ms)" if "ms \<noteq> []" for ms
    using that retire_views(1) [of m p ms] retire_views(3) [of m p ms] by (metis last_map)
  then have "turn_ok (resolveProposal m p c)" using assms
    by (auto simp: chat_inv_def turn_ok_def resolveProposal_def retire_views split: list.splits)
  then show ?thesis using assms retire_ids [of m p "messages c"] retire_distinct [of "messages c" m p]
    by (auto simp: chat_inv_def resolveProposal_def retire_views)
qed

lemma chat_run_inv: "chat_run c \<Longrightarrow> chat_inv c"
proof (induction rule: chat_run.induct)
  case start
  then show ?case by (simp add: chat_inv_def turn_ok_def chat_start_def IDLE_PROGRESS_def)
next
  case (ticked c)
  then show ?case by (auto simp: chat_inv_def turn_ok_def timer_ticks_chat_def split: list.splits)
next
  case (resetted c)
  then show ?case by (auto simp: chat_inv_def turn_ok_def chat_reset_def IDLE_PROGRESS_def split: list.splits)
qed (simp_all add: send_inv frame_inv reply_arrives_def stay_inv request_fails_def finish_inv resolve_inv)

text \<open>C23. In every run of the page at most one turn is in flight, and the progress shown is idle exactly without one. Its request
  carries the whole conversation. Every reply directly follows a message of the user, and the identifiers of messages and
  proposals are distinct, so that retiring a proposal removes that one.\<close>

theorem chat_in_order:
  assumes "chat_run c"
  shows "length (chat_turns c) \<le> 1 \<and> (isSending c \<longleftrightarrow> chat_turns c \<noteq> []) \<and> (phase (chat_progress c) = idle_phase \<longleftrightarrow> chat_turns c = [])
    \<and> (\<forall>t \<in> set (chat_turns c). req_messages (turn_request t) = spoken (messages c))
    \<and> (\<forall>i < length (messages c). msg_role (messages c ! i) = assistant_role \<longrightarrow> 0 < i \<and> msg_role (messages c ! (i - 1)) = user_role)
    \<and> distinct (hub_ids (messages c))"
  using chat_run_inv [OF assms] by (auto simp: chat_inv_def turn_ok_def follows_def split: list.splits)

section \<open>Proposals are written as confirmed\<close>

definition request_ok :: "ChatProposal \<Rightarrow> write_request \<Rightarrow> bool" where
  "request_ok p w \<longleftrightarrow>
     (if isUpdate p
      then \<exists>c old. w = UpdateNote (MEMOS_PREFIX @ extractMemoUid (prop_target p)) c [js ''content''] (Some old) \<and> c \<noteq> []
             \<and> prop_targetContent p = Some old \<and> extractMemoUid (prop_target p) \<noteq> []
      else \<exists>c. w = CreateNote c PRIVATE \<and> c \<noteq> [])"

definition card_inv :: "ChatProposal \<Rightarrow> card \<Rightarrow> bool" where
  "card_inv p k \<longleftrightarrow> (\<forall>w \<in> set (card_sent k). request_ok p w) \<and> set (card_written k) \<subseteq> set (card_sent k)
     \<and> (truthy (appliedName k) \<longrightarrow> \<not> isApplying k \<and> length (card_written k) = 1)
     \<and> (\<not> truthy (appliedName k) \<longrightarrow> card_written k = []) \<and> (isApplying k \<longrightarrow> card_sent k \<noteq> [])"

lemma request_applied: "canApply p \<Longrightarrow> trim (shownContent p k) \<noteq> [] \<Longrightarrow> request_ok p (proposalRequest p k)"
  by (auto simp: request_ok_def proposalRequest_def canApply_def)

lemma card_run_inv: "card_run p k \<Longrightarrow> card_inv p k"
proof (induction rule: card_run.induct)
  case shown
  then show ?case by (simp add: card_inv_def card_start_def truthy_def)
next
  case (applied k)
  then show ?case using request_applied [of p k] by (auto simp: card_inv_def handleApply_def buttonsShown_def)
next
  case (succeeds k memoName)
  then show ?case by (auto simp: card_inv_def apply_succeeds_def truthy_def split: option.splits)
qed (auto simp: card_inv_def apply_fails_def toggleEdit_def setDraft_def)


section \<open>The estimate belongs to the selection\<close>

definition shows_answer :: "estimator \<Rightarrow> bool" where
  "shows_answer s \<longleftrightarrow>
     (\<exists>e. (contextFilter s, Inr e) \<in> set (est_log s) \<and> estimate s = Some e \<and> estimateError s = None)
     \<or> (\<exists>m. (contextFilter s, Inl m) \<in> set (est_log s) \<and> estimate s = None \<and> estimateError s = Some m)"

definition est_inv :: "estimator \<Rightarrow> bool" where
  "est_inv s \<longleftrightarrow>
     (\<forall>i f. est_timer s = Some (i, f) \<longrightarrow> i = requestIdRef s \<and> f = contextFilter s \<and> f \<noteq> [])
     \<and> (\<forall>i f. (i, f) \<in> set (est_inflight s) \<longrightarrow> i \<le> requestIdRef s \<and> (i = requestIdRef s \<and> contextFilter s \<noteq> [] \<longrightarrow> f = contextFilter s))
     \<and> (est_timer s \<noteq> None \<longrightarrow> isEstimating s \<and> (\<forall>f. (requestIdRef s, f) \<notin> set (est_inflight s)))
     \<and> (contextFilter s \<noteq> [] \<and> \<not> isEstimating s \<longrightarrow> shows_answer s)
     \<and> (isEstimating s \<longrightarrow> contextFilter s \<noteq> [] \<and> (est_timer s \<noteq> None \<or> (requestIdRef s, contextFilter s) \<in> set (est_inflight s)))"

lemma select_inv:
  assumes "est_inv s"
  shows "est_inv (setSelectedTags tags s)"
proof (cases "buildContextFilter tags = contextFilter s")
  case True
  with assms show ?thesis by (simp add: setSelectedTags_def est_inv_def contextFilter_def shows_answer_def)
next
  case False
  define s1 where "s1 = (estimate_cleanup s)\<lparr>selectedTags := tags\<rparr>"
  have "est_timer s = None" "\<not> isEstimating s" if "contextFilter s = []"
    using assms that unfolding est_inv_def by (metis not_Some_eq surj_pair)+
  then have s1: "est_timer s1 = None" "requestIdRef s1 = requestIdRef s" "est_inflight s1 = est_inflight s" "contextFilter s1 = buildContextFilter tags"
    by (auto simp: s1_def estimate_cleanup_def contextFilter_def)
  have old: "i \<le> requestIdRef s" if "(i, f) \<in> set (est_inflight s)" for i f using assms that by (auto simp: est_inv_def)
  have "est_inv (estimate_effect s1)"
  proof (cases "contextFilter s1 = []")
    case True
    then show ?thesis using s1 old by (auto simp: estimate_effect_def est_inv_def contextFilter_def)
  next
    case False
    then show ?thesis using s1 old by (fastforce simp: estimate_effect_def est_inv_def contextFilter_def Let_def)
  qed
  then show ?thesis using False by (simp add: setSelectedTags_def s1_def)
qed

lemma timer_inv: "est_inv s \<Longrightarrow> est_inv (estimate_timer_fires s)"
  by (cases "est_timer s") (auto simp: estimate_timer_fires_def est_inv_def contextFilter_def shows_answer_def)

lemma inflight_current:
  "est_inv s \<Longrightarrow> (requestIdRef s, f) \<in> set (est_inflight s) \<Longrightarrow> est_timer s = None \<and> (contextFilter s \<noteq> [] \<longrightarrow> f = contextFilter s)"
  unfolding est_inv_def by (metis not_Some_eq)

lemma answer_inv:
  assumes "est_inv s" "(i, f) \<in> set (est_inflight s)"
  shows "est_inv (estimate_answered (i, f) res s)"
proof (cases "requestIdRef s = i")
  case False
  have "shows_answer (s\<lparr>est_inflight := ps, est_log := (f, res) # est_log s\<rparr>)" if "shows_answer s" for ps
    using that by (auto simp: shows_answer_def contextFilter_def)
  moreover have "estimate_answered (i, f) res s = s\<lparr>est_inflight := removeAll (i, f) (est_inflight s), est_log := (f, res) # est_log s\<rparr>"
    using False by (simp add: estimate_answered_def Let_def)
  ultimately show ?thesis using assms(1) False unfolding est_inv_def by (simp add: contextFilter_def) blast
next
  case True
  define s' where "s' = estimate_answered (i, f) res s"
  have cur: "est_timer s = None" "contextFilter s \<noteq> [] \<longrightarrow> f = contextFilter s" using inflight_current [OF assms(1)] assms(2) True by auto
  have s': "est_timer s' = None" "requestIdRef s' = requestIdRef s" "est_inflight s' = removeAll (i, f) (est_inflight s)" "\<not> isEstimating s'"
      "contextFilter s' = contextFilter s"
    using cur True by (auto simp: s'_def estimate_answered_def Let_def contextFilter_def split: sum.split)
  have "shows_answer s'" if "contextFilter s \<noteq> []"
    using cur that True by (auto simp: s'_def estimate_answered_def Let_def contextFilter_def shows_answer_def split: sum.split)
  then show ?thesis using assms(1) s' unfolding est_inv_def s'_def [symmetric] by simp blast
qed

lemma estimator_run_inv: "estimator_run s \<Longrightarrow> est_inv s"
proof (induction rule: estimator_run.induct)
  case mounted
  then show ?case by (simp add: est_inv_def estimator_start_def contextFilter_def buildContextFilter_def selectedNames_def set_of_def)
next
  case (comments s b)
  then show ?case by (simp add: est_inv_def setIncludeComments_def contextFilter_def shows_answer_def)
next
  case (answered s r res)
  then show ?case by (cases r) (simp add: answer_inv)
qed (simp_all add: toggleTag_def clearTags_def select_inv timer_inv)

text \<open>However selections, timers and answers interleave, when some tag is selected and no estimate is being made, the estimate or
  the error shown is an answer of the server to the filter of the current selection; and while one is being made, a timer is
  armed or a request for that filter is unanswered.\<close>

theorem estimate_of_selection:
  assumes "estimator_run s" "contextFilter s \<noteq> []"
  shows "(\<not> isEstimating s \<longrightarrow>
      (\<exists>e. (contextFilter s, Inr e) \<in> set (est_log s) \<and> estimate s = Some e \<and> estimateError s = None)
      \<or> (\<exists>m. (contextFilter s, Inl m) \<in> set (est_log s) \<and> estimate s = None \<and> estimateError s = Some m))
    \<and> (isEstimating s \<longrightarrow> est_timer s = Some (requestIdRef s, contextFilter s) \<or> (requestIdRef s, contextFilter s) \<in> set (est_inflight s))"
  using estimator_run_inv [OF assms(1)] assms(2) unfolding est_inv_def shows_answer_def by (metis not_Some_eq surj_pair)

section \<open>The analysis belongs to the memo\<close>

definition analysis_inv :: "'r analysis \<Rightarrow> bool" where
  "analysis_inv s \<longleftrightarrow>
     set (an_cache s) \<subseteq> set (an_log s)
     \<and> (\<forall>i k. (i, k) \<in> set (an_pending s) \<longrightarrow> i \<le> an_request s \<and> (i = an_request s \<longrightarrow> (\<exists>m. an_memo s = Some m \<and> k = revisionKey m)))
     \<and> (an_status s = analysis_success \<longrightarrow> (\<exists>m r. an_memo s = Some m \<and> an_result s = Some r \<and> (revisionKey m, r) \<in> set (an_log s)))"

lemma pending_le: "analysis_inv s \<Longrightarrow> (i, k) \<in> set (an_pending s) \<Longrightarrow> i \<le> an_request s"
  by (simp add: analysis_inv_def)

lemma pending_current: "analysis_inv s \<Longrightarrow> (an_request s, k) \<in> set (an_pending s) \<Longrightarrow> \<exists>m. an_memo s = Some m \<and> k = revisionKey m"
  by (simp add: analysis_inv_def)

lemma pending_fresh:
  assumes "analysis_inv s"
  shows "(i, k) \<in> set (an_pending s) \<Longrightarrow> i \<le> Suc (an_request s)" "(Suc (an_request s), k) \<notin> set (an_pending s)"
  using pending_le [OF assms, of i k] pending_le [OF assms, of "Suc (an_request s)" k] by auto

lemma close_inv: "analysis_inv s \<Longrightarrow> analysis_inv (analysis_close s)"
  using pending_fresh [of s] by (simp add: analysis_inv_def analysis_close_def)

lemma analyze_inv:
  assumes "analysis_inv s"
  shows "analysis_inv (analyze m b (s\<lparr>an_memo := Some m, an_open := op\<rparr>))"
proof -
  note fresh = pending_fresh [OF assms]
  have cache: "set (an_cache s) \<subseteq> set (an_log s)" using assms by (simp add: analysis_inv_def)
  show ?thesis
  proof (cases "if b then None else map_of (an_cache s) (revisionKey m)")
    case None
    then show ?thesis using fresh cache by (auto simp: analysis_inv_def analyze_def Let_def)
  next
    case (Some r)
    then have "(revisionKey m, r) \<in> set (an_log s)" using cache map_of_SomeD by (fastforce split: if_splits)
    then show ?thesis using fresh cache Some by (auto simp: analysis_inv_def analyze_def Let_def)
  qed
qed

lemma set_update_sub: "set (AList.update k v al) \<subseteq> insert (k, v) (set al)"
  by (induction al) auto

lemma analysis_run_inv: "analysis_run s \<Longrightarrow> analysis_inv s"
proof (induction rule: analysis_run.induct)
  case (mounted loc)
  then show ?case by (simp add: analysis_inv_def analysis_start_def)
next
  case (opened s m)
  then show ?case using analyze_inv [of s m False True] by (simp add: openForMemo_def)
next
  case (synced s m)
  then show ?case using analyze_inv [of s m False "an_open s"] by (auto simp: syncMemo_def split: option.split)
next
  case (refreshed s)
  show ?case
  proof (cases "an_memo s")
    case (Some m)
    have same: "s\<lparr>an_memo := Some m, an_open := an_open s\<rparr> = s" using Some by (cases s) simp
    show ?thesis using Some analyze_inv [OF refreshed.IH, of m True "an_open s", unfolded same] by (simp add: analysis_refresh_def)
  qed (use refreshed in \<open>simp add: analysis_refresh_def\<close>)
next
  case (answered s r response)
  obtain i k where r: "r = (i, k)" by (cases r)
  have c: "set (AList.update k response (an_cache s)) \<subseteq> insert (k, response) (set (an_log s))"
    using set_update_sub [of k response "an_cache s"] answered.IH by (auto simp: analysis_inv_def)
  show ?case
  proof (cases "i = an_request s")
    case True
    then obtain m where "an_memo s = Some m" "k = revisionKey m" using pending_current [OF answered.IH, of k] answered.hyps(2) r by auto
    then show ?thesis using answered.IH c True r by (simp add: analysis_inv_def analysis_answered_def) blast
  next
    case False
    then show ?thesis using answered.IH c r by (auto simp: analysis_inv_def analysis_answered_def Let_def)
  qed
next
  case (failed s r message)
  then show ?case by (auto simp: analysis_inv_def analysis_failed_def Let_def)
next
  case (moved s key)
  have "analysis_inv (s\<lparr>an_locationKey := key\<rparr>)" using moved.IH by (simp add: analysis_inv_def)
  then show ?case using moved.IH close_inv by (auto simp: location_effect_def)
qed (simp_all add: close_inv)

text \<open>In every run, an analysis that is shown as finished is one that the server returned for the revision of the memo shown: an
  answer for another memo or an older revision is never shown.\<close>

theorem analysis_of_memo:
  assumes "analysis_run s" "an_status s = analysis_success"
  shows "\<exists>m r. an_memo s = Some m \<and> an_result s = Some r \<and> (revisionKey m, r) \<in> set (an_log s)"
  using analysis_run_inv [OF assms(1)] assms(2) by (simp add: analysis_inv_def)

section \<open>Witnesses and findings\<close>

theorem context_filter_exact_witness:
  "buildContextFilter [js '' a'', js ''b'', js ''a''] \<noteq> []
   \<and> (\<exists>q. buildContextFilter [js '' a'', js ''b'', js ''a''] = js ''tag in ['' @ q \<and> readLiterals 3 q = Some [js ''a'', js ''b''])"
proof -
  have n: "selectedNames [js '' a'', js ''b'', js ''a''] = [js ''a'', js ''b'']"
    by (simp add: selectedNames_def js_def trim_def trimStart_def trimEnd_def isWhiteSpace_def set_of_def set_add_def)
  have t: "trim (js ''b'') \<noteq> []" by (simp add: js_def trim_def trimStart_def trimEnd_def isWhiteSpace_def)
  have c: "32 \<le> c" if "t \<in> set [js '' a'', js ''b'', js ''a'']" "c \<in> set t" for t c using that by (auto simp: js_def)
  show ?thesis using context_filter_exact [of "[js '' a'', js ''b'', js ''a'']", OF c] t unfolding n by (auto simp: eval_nat_numeral)
qed

definition question :: chat where
  "question = send (js ''hi'') \<lparr>opt_filter = [], opt_includeComments = False, opt_estimatedMemoCount = None, opt_estimatedCommentCount = None\<rparr> chat_start"

lemma question_run: "chat_run question" "length (chat_turns question) = 1" "isSending question"
proof -
  show "chat_run question" unfolding question_def by (intro chat_run.sent chat_run.start)
  show "length (chat_turns question) = 1" "isSending question"
    by (simp_all add: question_def send_def chat_start_def js_def trim_def trimStart_def trimEnd_def isWhiteSpace_def Let_def)
qed

theorem chat_in_order_witness:
  "isSending question \<and> chat_turns question \<noteq> [] \<and> distinct (hub_ids (messages question))"
  using chat_in_order [OF question_run(1)] question_run(3) by blast

definition rewrite_note :: ChatProposal where
  "rewrite_note = \<lparr>prop_action = ACTION_UPDATE, prop_content = js ''new'', prop_target = js ''memos/x'', prop_targetContent = Some (js ''old'')\<rparr>"


definition tag_selected :: estimator where "tag_selected = toggleTag (js ''a'') estimator_start"

lemma filter_a: "buildContextFilter [js ''a''] = js ''tag in [\"a\"]''" "buildContextFilter [] = []"
  by (simp_all add: buildContextFilter_def selectedNames_def js_def trim_def trimStart_def trimEnd_def isWhiteSpace_def set_of_def set_add_def
      quoteCELString_def)

lemma tag_selected_state: "selectedTags tag_selected = [js ''a'']" "est_timer tag_selected = Some (1, contextFilter tag_selected)"
    "contextFilter tag_selected = js ''tag in [\"a\"]''" "requestIdRef tag_selected = 1" "est_inflight tag_selected = []" "isEstimating tag_selected"
  by (simp_all add: tag_selected_def toggleTag_def setSelectedTags_def estimator_start_def contextFilter_def filter_a estimate_effect_def
      estimate_cleanup_def Let_def) (simp_all add: js_def)

theorem estimate_of_selection_witness:
  "contextFilter tag_selected \<noteq> [] \<and> isEstimating tag_selected \<and> est_timer tag_selected = Some (requestIdRef tag_selected, contextFilter tag_selected)"
proof -
  have "estimator_run tag_selected" unfolding tag_selected_def by (intro estimator_run.toggled estimator_run.mounted)
  moreover have "contextFilter tag_selected \<noteq> []" unfolding tag_selected_state by (simp add: js_def)
  ultimately show ?thesis using estimate_of_selection [of tag_selected] tag_selected_state(5,6) by simp
qed

theorem analysis_of_memo_witness:
  "let m = empty_memo\<lparr>memo_name := js ''memos/x''\<rparr>; s = analysis_answered (1, revisionKey m) (7 :: nat) (openForMemo m (analysis_start []))
   in an_status s = analysis_success \<and> (\<exists>r. an_result s = Some r \<and> (revisionKey m, r) \<in> set (an_log s))"
proof -
  let ?m = "empty_memo\<lparr>memo_name := js ''memos/x''\<rparr>"
  let ?o = "openForMemo ?m (analysis_start []) :: nat analysis"
  have o: "an_pending ?o = [(1, revisionKey ?m)]" "an_request ?o = 1" "an_memo ?o = Some ?m"
    by (simp_all add: openForMemo_def analyze_def analysis_start_def Let_def)
  let ?s = "analysis_answered (1, revisionKey ?m) 7 ?o"
  have "analysis_run ?s" by (intro analysis_run.answered analysis_run.opened analysis_run.mounted) (simp add: o)
  moreover have "an_status ?s = analysis_success" "an_memo ?s = Some ?m" by (simp_all add: analysis_answered_def o Let_def)
  ultimately show ?thesis using analysis_of_memo [of ?s] by (auto simp: Let_def)
qed

text \<open>When the last tag is cleared while its request is unanswered, the request still counts as current: its failure is shown for the
  empty selection.\<close>

lemma cleared_selection_shows_error:
  "\<exists>s. estimator_run s \<and> contextFilter s = [] \<and> estimateError s \<noteq> None"
proof -
  let ?f = "contextFilter tag_selected"
  let ?s = "clearTags (estimate_timer_fires tag_selected)"
  have fired: "estimate_timer_fires tag_selected = tag_selected\<lparr>est_timer := None, est_inflight := [(1, ?f)]\<rparr>"
    by (simp add: estimate_timer_fires_def tag_selected_state(2,5))
  have ne: "?f \<noteq> []" unfolding tag_selected_state(3) by (simp add: js_def)
  have s: "est_inflight ?s = [(1, ?f)]" "requestIdRef ?s = 1" "selectedTags ?s = []"
    using ne by (simp_all add: fired clearTags_def setSelectedTags_def contextFilter_def estimate_effect_def estimate_cleanup_def filter_a
        tag_selected_state(1,4))
  have "estimator_run ?s" unfolding tag_selected_def
    by (intro estimator_run.cleared estimator_run.fires estimator_run.toggled estimator_run.mounted)
  then have "estimator_run (estimate_answered (1, ?f) (Inl (js ''cap'')) ?s)" by (rule estimator_run.answered) (simp add: s)
  moreover have "estimateError (estimate_answered (1, ?f) (Inl (js ''cap'')) ?s) = Some (js ''cap'')"
      "contextFilter (estimate_answered (1, ?f) (Inl (js ''cap'')) ?s) = []"
    by (simp_all add: estimate_answered_def s Let_def contextFilter_def filter_a)
  ultimately show ?thesis by blast
qed

end
