(* ===== verification/Session.thy ===== *)
theory Session
  imports Auth_State Managed_Attachments "HOL-Library.Monad_Syntax"
begin

text \<open>
  The contexts that hold a session: who is signed in and with which settings (\<^verbatim>\<open>web/src/contexts/AuthContext.tsx\<close>, with the sign-out
  of \<^verbatim>\<open>web/src/components/UserMenu.tsx\<close>), the instance and its settings (\<^verbatim>\<open>web/src/contexts/InstanceContext.tsx\<close>), and the
  composer that opens over every page (\<^verbatim>\<open>web/src/contexts/GlobalMemoEditorContext.tsx\<close>).

  A handler runs up to its next \<open>await\<close>; the calls it waits for are part of the state and are answered in any order.
\<close>

section \<open>The signed-in user\<close>

datatype 'v user_setting = GeneralSetting 'v | WebhooksSetting 'v | TagsSetting 'v | OtherSetting

record 'v UserSettings =
  userGeneralSetting :: "'v option"
  userWebhooksSetting :: "'v option"
  userTagsSetting :: "'v option"

record 'v AuthState =
  currentUser :: "User option"
  userSettings :: "'v UserSettings"
  isIdentityInitialized :: bool
  isUserSettingsInitialized :: bool
  isInitialized :: bool
  isLoading :: bool

definition NO_SETTINGS :: "'v UserSettings" where
  "NO_SETTINGS = \<lparr>userGeneralSetting = None, userWebhooksSetting = None, userTagsSetting = None\<rparr>"

definition INITIAL_STATE :: "'v AuthState" where
  "INITIAL_STATE = \<lparr>currentUser = None, userSettings = NO_SETTINGS, isIdentityInitialized = False, isUserSettingsInitialized = False,
     isInitialized = False, isLoading = True\<rparr>"

definition UNAUTHENTICATED_STATE :: "'v AuthState" where
  "UNAUTHENTICATED_STATE = \<lparr>currentUser = None, userSettings = NO_SETTINGS, isIdentityInitialized = True, isUserSettingsInitialized = True,
     isInitialized = True, isLoading = False\<rparr>"

text \<open>The cache of the query client as far as users go; \<open>clear\<close> empties it.\<close>

datatype user_key = CurrentUserKey | DetailKey jsstr

record 'c user_cache =
  setUser :: "user_key \<Rightarrow> User \<Rightarrow> 'c \<Rightarrow> 'c"
  removeUser :: "user_key \<Rightarrow> 'c \<Rightarrow> 'c"
  getUser :: "'c \<Rightarrow> user_key \<Rightarrow> User option"
  clearCache :: "'c \<Rightarrow> 'c"

datatype call = Refreshing | AskingUser | LoadingSettings User | Refetching jsstr | SigningOut

record ('v, 'c) session =
  app :: "'v AuthState"
  tokens :: auth_state
  users :: 'c
  calls :: "call list"
  served :: "(jsstr \<times> 'v UserSettings) list"

definition pickSettings :: "'v user_setting list \<Rightarrow> 'v UserSettings" where
  "pickSettings settings =
     \<lparr>userGeneralSetting = (case List.find (\<lambda>s. case s of GeneralSetting v \<Rightarrow> True | _ \<Rightarrow> False) settings of
          Some (GeneralSetting v) \<Rightarrow> Some v | _ \<Rightarrow> None),
      userWebhooksSetting = (case List.find (\<lambda>s. case s of WebhooksSetting v \<Rightarrow> True | _ \<Rightarrow> False) settings of
          Some (WebhooksSetting v) \<Rightarrow> Some v | _ \<Rightarrow> None),
      userTagsSetting = (case List.find (\<lambda>s. case s of TagsSetting v \<Rightarrow> True | _ \<Rightarrow> False) settings of
          Some (TagsSetting v) \<Rightarrow> Some v | _ \<Rightarrow> None)\<rparr>"

definition isCurrent :: "jsstr \<Rightarrow> 'v AuthState \<Rightarrow> bool" where
  "isCurrent userName st \<longleftrightarrow> map_option user_name (currentUser st) = Some userName"

text \<open>What \<open>fetchUserSettings\<close> does when its request is answered.\<close>

definition publishSettings :: "jsstr \<Rightarrow> 'v UserSettings \<Rightarrow> 'v AuthState \<Rightarrow> 'v AuthState" where
  "publishSettings userName settings st =
     (if isCurrent userName st then st\<lparr>userSettings := settings, isUserSettingsInitialized := True\<rparr> else st)"

definition signOutState :: "('v, 'c) session \<Rightarrow> ('v, 'c) session" where
  "signOutState s = s\<lparr>tokens := clearAccessToken (tokens s), app := UNAUTHENTICATED_STATE\<rparr>"

definition initialize :: "int \<Rightarrow> ('v, 'c) session \<Rightarrow> ('v, 'c) session" where
  "initialize now s =
     (let (token, a) = getAccessToken now (tokens s)
      in s\<lparr>app := (app s)\<lparr>isUserSettingsInitialized := False, isInitialized := False, isLoading := True\<rparr>, tokens := a,
           calls := calls s @ [if truthy token then AskingUser else Refreshing]\<rparr>)"

text \<open>\<open>granted\<close> is the token of a successful refresh with its expiry.\<close>

definition refresh_settles :: "int \<Rightarrow> (jsstr \<times> int) option \<Rightarrow> ('v, 'c) session \<Rightarrow> ('v, 'c) session" where
  "refresh_settles now granted s =
     (let a1 = (case granted of None \<Rightarrow> tokens s | Some (token, expiresAt) \<Rightarrow> setAccessToken (Some token) (Some expiresAt) (tokens s));
          (token, a2) = getAccessToken now a1;
          s1 = s\<lparr>tokens := a2, calls := remove1 Refreshing (calls s)\<rparr>
      in if truthy token then s1\<lparr>calls := calls s1 @ [AskingUser]\<rparr> else s1\<lparr>app := UNAUTHENTICATED_STATE\<rparr>)"

definition identity_answered :: "'c user_cache \<Rightarrow> User option option \<Rightarrow> ('v, 'c) session \<Rightarrow> ('v, 'c) session" where
  "identity_answered U answer s =
     (let s1 = s\<lparr>calls := remove1 AskingUser (calls s)\<rparr>
      in case answer of
           Some (Some user) \<Rightarrow>
             s1\<lparr>app := (app s1)\<lparr>currentUser := Some user, isIdentityInitialized := True\<rparr>,
                users := setUser U (DetailKey (user_name user)) user (setUser U CurrentUserKey user (users s1)),
                calls := calls s1 @ [LoadingSettings user]\<rparr>
         | _ \<Rightarrow> signOutState s1)"

definition settings_answered :: "User \<Rightarrow> 'v user_setting list option \<Rightarrow> ('v, 'c) session \<Rightarrow> ('v, 'c) session" where
  "settings_answered user answer s =
     (let s1 = s\<lparr>calls := remove1 (LoadingSettings user) (calls s)\<rparr>
      in case answer of
           None \<Rightarrow> signOutState s1
         | Some settings \<Rightarrow>
             (let picked = pickSettings settings
              in s1\<lparr>served := (user_name user, picked) # served s1,
                    app := (publishSettings (user_name user) picked (app s1))\<lparr>currentUser := Some user, userSettings := picked,
                       isIdentityInitialized := True, isUserSettingsInitialized := True, isInitialized := True, isLoading := False\<rparr>\<rparr>))"

definition logout :: "('v, 'c) session \<Rightarrow> ('v, 'c) session" where
  "logout s = s\<lparr>calls := calls s @ [SigningOut]\<rparr>"

text \<open>Behind the sign-out the menu removes what the user has stored and replaces the page, so that no other call returns.\<close>

definition keysToPreserve :: "jsstr list" where
  "keysToPreserve = [js ''memos-theme'', js ''memos-locale'', js ''memos-view-setting'', js ''tag-view-as-tree'']"

definition clearUserStorage :: "auth_state \<Rightarrow> auth_state" where
  "clearUserStorage a =
     (if storage_available a then a\<lparr>localStorage := filter (\<lambda>(k, v). k = [] \<or> k \<in> set keysToPreserve) (localStorage a)\<rparr> else a)"

definition signed_out :: "'c user_cache \<Rightarrow> ('v, 'c) session \<Rightarrow> ('v, 'c) session" where
  "signed_out U s =
     (let s1 = signOutState s
      in s1\<lparr>users := clearCache U (users s1), tokens := clearUserStorage (tokens s1), calls := []\<rparr>)"

definition refetchSettings :: "('v, 'c) session \<Rightarrow> ('v, 'c) session" where
  "refetchSettings s =
     (case currentUser (app s) of
        None \<Rightarrow> s
      | Some user \<Rightarrow> if user_name user = [] then s else s\<lparr>calls := calls s @ [Refetching (user_name user)]\<rparr>)"

definition refetch_answered :: "jsstr \<Rightarrow> 'v user_setting list option \<Rightarrow> ('v, 'c) session \<Rightarrow> ('v, 'c) session" where
  "refetch_answered userName answer s =
     (let s1 = s\<lparr>calls := remove1 (Refetching userName) (calls s)\<rparr>
      in case answer of
           None \<Rightarrow> s1
         | Some settings \<Rightarrow>
             (let picked = pickSettings settings; st = publishSettings userName picked (app s1)
              in s1\<lparr>served := (userName, picked) # served s1,
                    app := (if isCurrent userName st then st\<lparr>userSettings := picked\<rparr> else st)\<rparr>))"

definition setCurrentUser :: "'c user_cache \<Rightarrow> User option \<Rightarrow> ('v, 'c) session \<Rightarrow> ('v, 'c) session" where
  "setCurrentUser U user s =
     (let previousUser = getUser U (users s) CurrentUserKey
      in s\<lparr>app := (app s)\<lparr>currentUser := user\<rparr>,
           users := (case user of
              Some u \<Rightarrow> setUser U (DetailKey (user_name u)) u (setUser U CurrentUserKey u (users s))
            | None \<Rightarrow>
                (let c = removeUser U CurrentUserKey (users s)
                 in case previousUser of
                      None \<Rightarrow> c
                    | Some p \<Rightarrow> if user_name p = [] then c else removeUser U (DetailKey (user_name p)) c))\<rparr>)"

fun initializes :: "call \<Rightarrow> bool" where
  "initializes (LoadingSettings u) \<longleftrightarrow> True"
| "initializes Refreshing \<longleftrightarrow> True"
| "initializes AskingUser \<longleftrightarrow> True"
| "initializes SigningOut \<longleftrightarrow> False"
| "initializes (Refetching n) \<longleftrightarrow> False"

text \<open>The application initializes once at the start, after a sign-in with nobody signed in, and on the page that an identity provider
  returns to. That page has no menu, so what a user asks for is asked outside the time in which the identity is established. An
  account that gets another name keeps its settings.\<close>

definition identifying :: "('v, 'c) session \<Rightarrow> bool" where
  "identifying s \<longleftrightarrow> Refreshing \<in> set (calls s) \<or> AskingUser \<in> set (calls s)"

inductive session_run :: "'c user_cache \<Rightarrow> 'c \<Rightarrow> auth_state \<Rightarrow> ('v, 'c) session \<Rightarrow> bool" for U c0 a0 where
  loaded: "session_run U c0 a0 \<lparr>app = INITIAL_STATE, tokens = a0, users = c0, calls = [], served = []\<rparr>"
| initialized: "session_run U c0 a0 s \<Longrightarrow> currentUser (app s) = None \<Longrightarrow> filter initializes (calls s) = [] \<Longrightarrow> SigningOut \<notin> set (calls s)
    \<Longrightarrow> session_run U c0 a0 (initialize now s)"
| returned: "session_run U c0 a0 s \<Longrightarrow> calls s = [] \<Longrightarrow> session_run U c0 a0 (initialize now s)"
| signed_in: "session_run U c0 a0 s \<Longrightarrow> session_run U c0 a0 (s\<lparr>tokens := setAccessToken (Some t) e (tokens s)\<rparr>)"
| refreshed: "session_run U c0 a0 s \<Longrightarrow> Refreshing \<in> set (calls s) \<Longrightarrow> session_run U c0 a0 (refresh_settles now granted s)"
| identified: "session_run U c0 a0 s \<Longrightarrow> AskingUser \<in> set (calls s) \<Longrightarrow> session_run U c0 a0 (identity_answered U answer s)"
| settled: "session_run U c0 a0 s \<Longrightarrow> LoadingSettings u \<in> set (calls s) \<Longrightarrow> session_run U c0 a0 (settings_answered u res s)"
| leaving: "session_run U c0 a0 s \<Longrightarrow> currentUser (app s) \<noteq> None \<Longrightarrow> \<not> identifying s \<Longrightarrow> session_run U c0 a0 (logout s)"
| left: "session_run U c0 a0 s \<Longrightarrow> SigningOut \<in> set (calls s) \<Longrightarrow> session_run U c0 a0 (signed_out U s)"
| asked: "session_run U c0 a0 s \<Longrightarrow> \<not> identifying s \<Longrightarrow> session_run U c0 a0 (refetchSettings s)"
| refetched: "session_run U c0 a0 s \<Longrightarrow> Refetching n \<in> set (calls s) \<Longrightarrow> session_run U c0 a0 (refetch_answered n res s)"
| account: "session_run U c0 a0 s \<Longrightarrow> currentUser (app s) = Some u \<Longrightarrow> \<not> identifying s \<Longrightarrow>
    session_run U c0 a0 ((setCurrentUser U (Some u') s)
      \<lparr>served := served s @ map (\<lambda>(n, x). (user_name u', x)) (filter (\<lambda>(n, x). n = user_name u) (served s))\<rparr>)"

section \<open>The instance\<close>

datatype InstanceSetting_Key = KEY_UNSPECIFIED | GENERAL | STORAGE | MEMO_RELATED | TAGS | NOTIFICATION | AI | ACCESS

fun keyName :: "InstanceSetting_Key \<Rightarrow> jsstr" where
  "keyName KEY_UNSPECIFIED = js ''KEY_UNSPECIFIED''"
| "keyName GENERAL = js ''GENERAL''"
| "keyName STORAGE = js ''STORAGE''"
| "keyName MEMO_RELATED = js ''MEMO_RELATED''"
| "keyName TAGS = js ''TAGS''"
| "keyName NOTIFICATION = js ''NOTIFICATION''"
| "keyName AI = js ''AI''"
| "keyName ACCESS = js ''ACCESS''"

definition buildInstanceSettingName :: "InstanceSetting_Key \<Rightarrow> jsstr" where
  "buildInstanceSettingName key = js ''instance/settings/'' @ keyName key"

text \<open>The value of a setting is a message of one of the cases; an access setting holds the access mode.\<close>

datatype InstanceAccessMode = ACCESS_UNSPECIFIED | ACCESS_PRIVATE | ACCESS_PUBLIC

datatype 'v setting_value = AccessSetting InstanceAccessMode | SettingValue string 'v | NoValue

record 'v InstanceSetting =
  set_name :: jsstr
  set_value :: "'v setting_value"

record InstanceProfile_Challenge =
  challenge_provider :: jsstr
  challenge_siteKey :: jsstr

record InstanceProfile =
  profile_version :: jsstr
  profile_demo :: bool
  profile_instanceUrl :: jsstr
  profile_admin :: "User option"
  profile_commit :: jsstr
  profile_needsSetup :: bool
  profile_accessMode :: InstanceAccessMode
  profile_challenge :: "InstanceProfile_Challenge option"

definition emptyProfile :: InstanceProfile where
  "emptyProfile = \<lparr>profile_version = [], profile_demo = False, profile_instanceUrl = [], profile_admin = None, profile_commit = [],
     profile_needsSetup = False, profile_accessMode = ACCESS_UNSPECIFIED, profile_challenge = None\<rparr>"

datatype instance_call = ProfileCall | BatchCall | FetchCall "jsstr list"

record 'v instance_state =
  inst_profile :: InstanceProfile
  inst_settings :: "'v InstanceSetting list"
  isProfileInitialized :: bool
  inst_isInitialized :: bool
  inst_isLoading :: bool
  profileLoaded :: bool
  fetchedSettings :: "jsstr list"
  inst_calls :: "instance_call list"
  managed :: managed_state

definition instance_start :: "managed_state \<Rightarrow> 'v instance_state" where
  "instance_start m = \<lparr>inst_profile = emptyProfile, inst_settings = [], isProfileInitialized = False,
     inst_isInitialized = False, inst_isLoading = True, profileLoaded = False, fetchedSettings = [], inst_calls = [], managed = m\<rparr>"

definition accessSetting :: "InstanceAccessMode option \<Rightarrow> 'v instance_state \<Rightarrow> InstanceAccessMode" where
  "accessSetting queriedAccessSetting s = (case queriedAccessSetting of Some mode \<Rightarrow> mode | None \<Rightarrow> profile_accessMode (inst_profile s))"

text \<open>One selector per setting, all of the same shape: the value of the setting with the name of the key when it is of the expected
  case; None stands for the empty message.\<close>

definition settingOf :: "InstanceSetting_Key \<Rightarrow> string \<Rightarrow> 'v instance_state \<Rightarrow> 'v option" where
  "settingOf key c s =
     (case List.find (\<lambda>x. set_name x = buildInstanceSettingName key) (inst_settings s) of
        None \<Rightarrow> None
      | Some x \<Rightarrow> (case set_value x of SettingValue c' v \<Rightarrow> if c' = c then Some v else None | _ \<Rightarrow> None))"

definition initializeInstance :: "'v instance_state \<Rightarrow> 'v instance_state" where
  "initializeInstance s = s\<lparr>inst_isLoading := True, inst_calls := inst_calls s @ [ProfileCall, BatchCall]\<rparr>"

text \<open>\<open>Promise.all\<close>: the last of the two calls to settle ends the initialization, which runs once when the page is loaded.\<close>

definition finishInstance :: "'v instance_state \<Rightarrow> 'v instance_state" where
  "finishInstance s =
     (if ProfileCall \<in> set (inst_calls s) \<or> BatchCall \<in> set (inst_calls s) then s
      else s\<lparr>inst_isInitialized := True, inst_isLoading := False\<rparr>)"

definition profile_answered :: "managed_env \<Rightarrow> InstanceProfile option \<Rightarrow> 'v instance_state \<Rightarrow> 'v instance_state" where
  "profile_answered E answer s =
     (let s1 = s\<lparr>inst_calls := remove1 ProfileCall (inst_calls s)\<rparr>
      in finishInstance
           (case answer of
              None \<Rightarrow> s1\<lparr>isProfileInitialized := True\<rparr>
            | Some p \<Rightarrow> s1\<lparr>inst_profile := p, isProfileInitialized := True, profileLoaded := True,
                           managed := setManagedAttachmentInstanceUrl E (Some (profile_instanceUrl p)) (managed s1)\<rparr>))"

definition batch_answered :: "'v InstanceSetting list option \<Rightarrow> 'v instance_state \<Rightarrow> 'v instance_state" where
  "batch_answered answer s =
     (let s1 = s\<lparr>inst_calls := remove1 BatchCall (inst_calls s)\<rparr>
      in finishInstance
           (case answer of
              None \<Rightarrow> s1
            | Some settings \<Rightarrow> s1\<lparr>fetchedSettings := fold set_add (map set_name settings) (fetchedSettings s1), inst_settings := settings\<rparr>))"

definition fetchSettings :: "InstanceSetting_Key list \<Rightarrow> 'v instance_state \<Rightarrow> 'v instance_state" where
  "fetchSettings keys s =
     (let names = filter (\<lambda>n. n \<notin> set (fetchedSettings s)) (map buildInstanceSettingName (filter (\<lambda>k. k \<noteq> ACCESS) keys))
      in if names = [] then s
         else s\<lparr>fetchedSettings := fold set_add names (fetchedSettings s), inst_calls := inst_calls s @ [FetchCall names]\<rparr>)"

text \<open>A single setting is fetched by a call of its own, which stores the answer in the same way.\<close>

definition fetchSetting :: "InstanceSetting_Key \<Rightarrow> 'v instance_state \<Rightarrow> 'v instance_state" where
  "fetchSetting key s =
     (let n = buildInstanceSettingName key
      in if key = ACCESS \<or> n \<in> set (fetchedSettings s) then s
         else s\<lparr>fetchedSettings := set_add n (fetchedSettings s), inst_calls := inst_calls s @ [FetchCall [n]]\<rparr>)"

definition fetch_answered :: "jsstr list \<Rightarrow> 'v InstanceSetting list option \<Rightarrow> 'v instance_state \<Rightarrow> 'v instance_state" where
  "fetch_answered names answer s =
     (let s1 = s\<lparr>inst_calls := remove1 (FetchCall names) (inst_calls s)\<rparr>
      in case answer of
           None \<Rightarrow> s1\<lparr>fetchedSettings := filter (\<lambda>n. n \<notin> set names) (fetchedSettings s1)\<rparr>
         | Some settings \<Rightarrow>
             s1\<lparr>inst_settings := filter (\<lambda>x. set_name x \<notin> set (map set_name settings)) (inst_settings s1) @ settings\<rparr>)"

definition hasSetting :: "InstanceSetting_Key \<Rightarrow> 'v instance_state \<Rightarrow> bool" where
  "hasSetting key s \<longleftrightarrow> buildInstanceSettingName key \<in> set (fetchedSettings s)"

definition setting_updated :: "'v InstanceSetting \<Rightarrow> 'v InstanceSetting \<Rightarrow> 'v instance_state \<Rightarrow> 'v instance_state" where
  "setting_updated setting updated s =
     s\<lparr>inst_profile := (case set_value updated of
           AccessSetting mode \<Rightarrow> (inst_profile s)\<lparr>profile_accessMode := mode\<rparr>
         | _ \<Rightarrow> inst_profile s),
       inst_settings := (case set_value setting of
           AccessSetting mode \<Rightarrow> inst_settings s
         | _ \<Rightarrow> filter (\<lambda>x. set_name x \<noteq> set_name updated) (inst_settings s) @ [updated])\<rparr>"

text \<open>The server answers a request for settings with all of them or with an error. \<open>early\<close> says whether settings may be fetched
  while the first batch is still unanswered.\<close>

inductive instance_run :: "managed_env \<Rightarrow> managed_state \<Rightarrow> bool \<Rightarrow> 'v instance_state \<Rightarrow> bool" for E m early where
  created: "instance_run E m early (initializeInstance (instance_start m))"
| profiled: "instance_run E m early s \<Longrightarrow> ProfileCall \<in> set (inst_calls s) \<Longrightarrow> instance_run E m early (profile_answered E p s)"
| batched: "instance_run E m early s \<Longrightarrow> BatchCall \<in> set (inst_calls s) \<Longrightarrow> instance_run E m early (batch_answered b s)"
| fetching: "instance_run E m early s \<Longrightarrow> early \<or> BatchCall \<notin> set (inst_calls s) \<Longrightarrow> instance_run E m early (fetchSettings ks s)"
| fetchingOne: "instance_run E m early s \<Longrightarrow> early \<or> BatchCall \<notin> set (inst_calls s) \<Longrightarrow> instance_run E m early (fetchSetting k s)"
| fetched: "instance_run E m early s \<Longrightarrow> FetchCall ns \<in> set (inst_calls s) \<Longrightarrow>
    (\<And>xs. answer = Some xs \<Longrightarrow> set ns \<subseteq> set (map set_name xs)) \<Longrightarrow> instance_run E m early (fetch_answered ns answer s)"
| updated: "instance_run E m early s \<Longrightarrow> instance_run E m early (setting_updated x x' s)"

section \<open>The composer\<close>

record composer =
  opened :: "(jsstr \<times> jsstr option) option"
  editorLoaded :: bool
  isSavingRef :: bool
  homeAutoFocusPending :: bool
  openRequestVersion :: nat
  pendingLoads :: "(nat \<times> jsstr \<times> jsstr option) list"
  currentUserName :: "jsstr option"
  settingsReady :: bool
  isSpaceReady :: bool
  selectedSpaceName :: "jsstr option"
  mobileOpen :: bool
  quickFindOpen :: bool

definition claimHomeAutoFocus :: "bool \<Rightarrow> composer \<Rightarrow> bool \<times> composer" where
  "claimHomeAutoFocus nothingFocused s = (homeAutoFocusPending s \<and> nothingFocused, s\<lparr>homeAutoFocusPending := False\<rparr>)"

text \<open>The effect on a change of the location, of the user, of the space or of the width of the window.\<close>

definition home_effect :: "bool \<Rightarrow> composer \<Rightarrow> composer" where
  "home_effect atInitialHome s = (if \<not> atInitialHome then s\<lparr>homeAutoFocusPending := False\<rparr> else s)"

definition closeEditor :: "composer \<Rightarrow> composer" where
  "closeEditor s = s\<lparr>openRequestVersion := openRequestVersion s + 1, isSavingRef := False, opened := None\<rparr>"

definition requestCloseEditor :: "composer \<Rightarrow> composer" where
  "requestCloseEditor s = (if isSavingRef s then s else closeEditor s)"

definition reportSaving :: "bool \<Rightarrow> composer \<Rightarrow> composer" where
  "reportSaving b s = s\<lparr>isSavingRef := b\<rparr>"

definition canOpen :: "composer \<Rightarrow> bool" where
  "canOpen s \<longleftrightarrow> truthy (currentUserName s) \<and> settingsReady s \<and> isSpaceReady s"

definition openEditor :: "composer \<Rightarrow> composer" where
  "openEditor s =
     (case currentUserName s of
        None \<Rightarrow> s
      | Some user \<Rightarrow>
          if \<not> canOpen s then s
          else let requestVersion = openRequestVersion s + 1
               in s\<lparr>homeAutoFocusPending := False, mobileOpen := False, quickFindOpen := False, openRequestVersion := requestVersion, isSavingRef := False,
                    pendingLoads := pendingLoads s @ [(requestVersion, user, selectedSpaceName s)]\<rparr>)"

definition editor_loads :: "nat \<times> jsstr \<times> jsstr option \<Rightarrow> bool \<Rightarrow> composer \<Rightarrow> composer" where
  "editor_loads r ok s =
     (let s1 = s\<lparr>pendingLoads := remove1 r (pendingLoads s)\<rparr>
      in if \<not> ok \<or> openRequestVersion s \<noteq> fst r then s1 else s1\<lparr>editorLoaded := True, opened := Some (snd r)\<rparr>)"

text \<open>The effect on a change of the user or of the readiness of the settings.\<close>

definition session_changes :: "jsstr option \<Rightarrow> bool \<Rightarrow> composer \<Rightarrow> composer" where
  "session_changes user ready s =
     (let s1 = s\<lparr>currentUserName := user, settingsReady := ready\<rparr>
      in if user = currentUserName s \<and> ready = settingsReady s then s1 else closeEditor s1)"

definition onOpenChange :: "bool \<Rightarrow> composer \<Rightarrow> composer" where
  "onOpenChange op s =
     (if \<not> op \<and> isSavingRef s then s
      else if op then s\<lparr>opened := (case currentUserName s of
             None \<Rightarrow> None
           | Some user \<Rightarrow> if user = [] then None else Some (user, case opened s of None \<Rightarrow> None | Some p \<Rightarrow> snd p))\<rparr>
      else closeEditor s)"

definition editorIsOpen :: "composer \<Rightarrow> bool" where
  "editorIsOpen s \<longleftrightarrow> (case opened s of None \<Rightarrow> False | Some p \<Rightarrow> currentUserName s = Some (fst p))"

inductive composer_run :: "composer \<Rightarrow> bool" where
  mounted: "opened s = None \<Longrightarrow> pendingLoads s = [] \<Longrightarrow> composer_run s"
| asks: "composer_run s \<Longrightarrow> composer_run (openEditor s)"
| loads: "composer_run s \<Longrightarrow> r \<in> set (pendingLoads s) \<Longrightarrow> composer_run (editor_loads r ok s)"
| changes: "composer_run s \<Longrightarrow> composer_run (session_changes u b s)"
| moves: "composer_run s \<Longrightarrow> composer_run (s\<lparr>selectedSpaceName := sp, isSpaceReady := ready, mobileOpen := mo, quickFindOpen := q\<rparr>)"
| focuses: "composer_run s \<Longrightarrow> composer_run (snd (claimHomeAutoFocus f s))"
| leaves: "composer_run s \<Longrightarrow> composer_run (home_effect h s)"
| saves: "composer_run s \<Longrightarrow> composer_run (reportSaving b s)"
| cancels: "composer_run s \<Longrightarrow> composer_run (closeEditor s)"
| requests: "composer_run s \<Longrightarrow> composer_run (requestCloseEditor s)"
| dialog: "composer_run s \<Longrightarrow> composer_run (onOpenChange op s)"

section \<open>Settings belong to the user\<close>

definition session_inv :: "('v, 'c) session \<Rightarrow> bool" where
  "session_inv s \<longleftrightarrow>
     (\<forall>u. isUserSettingsInitialized (app s) \<and> currentUser (app s) = Some u \<longrightarrow> (user_name u, userSettings (app s)) \<in> set (served s))
     \<and> (identifying s \<longrightarrow> \<not> isUserSettingsInitialized (app s) \<and> SigningOut \<notin> set (calls s)
          \<and> (currentUser (app s) = None \<or> (\<forall>n. Refetching n \<notin> set (calls s))))
     \<and> length (filter initializes (calls s)) \<le> 1"

lemma single_filter:
  assumes "length (filter P xs) \<le> 1" "x \<in> set xs" "P x"
  shows "filter P (remove1 x xs) = []"
proof -
  have "x \<in> set (filter P xs)" using assms by simp
  then have "filter P xs = [x]" using assms(1) by (cases "filter P xs") auto
  then show ?thesis by (simp add: filter_remove1)
qed

lemma none_initializing: "filter initializes ks = [] \<Longrightarrow> Refreshing \<notin> set ks \<and> AskingUser \<notin> set ks \<and> LoadingSettings u \<notin> set ks"
  by (auto simp: filter_empty_conv)

lemma call_answered:
  assumes "session_inv s" "k \<in> set (calls s)" "initializes k"
  shows "filter initializes (remove1 k (calls s)) = []" "Refreshing \<notin> set (remove1 k (calls s))" "AskingUser \<notin> set (remove1 k (calls s))"
proof -
  show f: "filter initializes (remove1 k (calls s)) = []" by (rule single_filter) (use assms in \<open>simp_all add: session_inv_def\<close>)
  show "Refreshing \<notin> set (remove1 k (calls s))" "AskingUser \<notin> set (remove1 k (calls s))" using none_initializing [OF f] by blast+
qed

lemma signOut_inv:
  "filter initializes (calls s) = [] \<Longrightarrow> session_inv (signOutState s)"
  using none_initializing [of "calls s"] by (simp add: session_inv_def identifying_def signOutState_def UNAUTHENTICATED_STATE_def)

lemma initialize_inv:
  assumes "session_inv s" "currentUser (app s) = None \<or> calls s = []" "filter initializes (calls s) = []" "SigningOut \<notin> set (calls s)"
  shows "session_inv (initialize now s)"
  using assms by (auto simp: session_inv_def identifying_def initialize_def split: prod.split)

lemma refresh_inv:
  assumes "session_inv s" "Refreshing \<in> set (calls s)"
  shows "session_inv (refresh_settles now granted s)"
proof -
  note c = call_answered [OF assms, simplified]
  have "\<not> isUserSettingsInitialized (app s)" "SigningOut \<notin> set (calls s)" "currentUser (app s) = None \<or> (\<forall>n. Refetching n \<notin> set (calls s))"
    using assms by (auto simp: session_inv_def identifying_def)
  then show ?thesis using c notin_set_remove1 [of _ "calls s" Refreshing]
    by (auto simp: refresh_settles_def session_inv_def identifying_def UNAUTHENTICATED_STATE_def Let_def split: prod.split)
qed

lemma identity_inv:
  assumes "session_inv s" "AskingUser \<in> set (calls s)"
  shows "session_inv (identity_answered U answer s)"
proof -
  note c = call_answered [OF assms, simplified]
  have "\<not> isUserSettingsInitialized (app s)" using assms by (auto simp: session_inv_def identifying_def)
  then have "session_inv (identity_answered U (Some (Some u)) s)" for u
    using c by (simp add: identity_answered_def session_inv_def identifying_def Let_def)
  moreover have "session_inv (signOutState (s\<lparr>calls := remove1 AskingUser (calls s)\<rparr>))" by (rule signOut_inv) (simp add: c)
  ultimately show ?thesis by (auto simp: identity_answered_def Let_def split: option.split)
qed

lemma settings_inv:
  assumes "session_inv s" "LoadingSettings u \<in> set (calls s)"
  shows "session_inv (settings_answered u answer s)"
proof -
  note c = call_answered [OF assms, simplified]
  have "session_inv (signOutState (s\<lparr>calls := remove1 (LoadingSettings u) (calls s)\<rparr>))" by (rule signOut_inv) (simp add: c)
  moreover have "session_inv (settings_answered u (Some settings) s)" for settings
    using c by (simp add: settings_answered_def session_inv_def identifying_def Let_def)
  ultimately show ?thesis by (cases answer) (simp_all add: settings_answered_def Let_def)
qed

lemma refetch_inv:
  assumes "session_inv s" "Refetching n \<in> set (calls s)"
  shows "session_inv (refetch_answered n answer s)"
proof -
  have f: "filter initializes (remove1 (Refetching n) (calls s)) = filter initializes (calls s)"
    by (simp add: filter_remove1 remove1_idem)
  have m: "k \<in> set (remove1 (Refetching n) (calls s)) \<longleftrightarrow> k \<in> set (calls s)" if "k \<noteq> Refetching n" for k
    using that by (simp add: in_set_remove1)
  have sub: "k \<in> set (remove1 (Refetching n) (calls s)) \<Longrightarrow> k \<in> set (calls s)" for k using set_remove1_subset [of "Refetching n" "calls s"] by blast
  show ?thesis
  proof (cases "answer = None \<or> \<not> isCurrent n (app s)")
    case True
    then show ?thesis using assms(1) sub
      by (cases answer) (auto simp: refetch_answered_def session_inv_def identifying_def publishSettings_def f m Let_def)
  next
    case False
    then obtain u settings where u: "currentUser (app s) = Some u" "user_name u = n" "answer = Some settings" by (auto simp: isCurrent_def)
    then have "\<not> identifying s" using assms by (auto simp: session_inv_def)
    then show ?thesis using assms(1) u
      by (simp add: refetch_answered_def session_inv_def identifying_def publishSettings_def isCurrent_def f m Let_def)
  qed
qed

lemma account_inv:
  assumes "session_inv s" "currentUser (app s) = Some u" "\<not> identifying s"
  shows "session_inv ((setCurrentUser U (Some u') s)
      \<lparr>served := served s @ map (\<lambda>(n, x). (user_name u', x)) (filter (\<lambda>(n, x). n = user_name u) (served s))\<rparr>)"
  using assms by (force simp: session_inv_def identifying_def setCurrentUser_def Let_def)

lemma session_run_inv: "session_run U c0 a0 s \<Longrightarrow> session_inv s"
proof (induction rule: session_run.induct)
  case loaded
  then show ?case by (simp add: session_inv_def identifying_def INITIAL_STATE_def)
next
  case (leaving s)
  then show ?case by (auto simp: session_inv_def identifying_def logout_def)
next
  case (left s)
  then show ?case by (simp add: session_inv_def identifying_def signed_out_def signOutState_def UNAUTHENTICATED_STATE_def Let_def)
next
  case (asked s)
  then show ?case by (auto simp: session_inv_def identifying_def refetchSettings_def split: option.split)
next
  case (signed_in s t e)
  then show ?case by (simp add: session_inv_def identifying_def)
qed (simp_all add: initialize_inv refresh_inv identity_inv settings_inv refetch_inv account_inv)


definition sample_users :: "(user_key \<times> User) list user_cache" where
  "sample_users = \<lparr>setUser = AList.update, removeUser = AList.delete, getUser = map_of, clearCache = (\<lambda>c. [])\<rparr>"

definition sample_user :: User where
  "sample_user = \<lparr>user_name = js ''users/ann'', user_role = ROLE_USER, user_username = js ''ann'', user_email = [], user_displayName = [],
     user_avatarUrl = [], user_description = [], user_password = [], user_state = NORMAL, user_createTime = None, user_updateTime = None\<rparr>"

definition sample_tokens :: auth_state where
  "sample_tokens = \<lparr>accessToken = None, tokenExpiresAt = None, localStorage = [], storage_available = False, channel_available = False,
     outbox = []\<rparr>"

definition sample_loading :: "(nat, (user_key \<times> User) list) session" where
  "sample_loading =
     identity_answered sample_users (Some (Some sample_user))
       (refresh_settles 0 (Some (js ''token'', 90000))
         (initialize 0 \<lparr>app = INITIAL_STATE, tokens = sample_tokens, users = [], calls = [], served = []\<rparr>))"

lemmas sample_defs = sample_loading_def sample_tokens_def identity_answered_def refresh_settles_def initialize_def INITIAL_STATE_def
  getAccessToken_def setAccessToken_def truthy_def js_def Let_def

lemma sample_session_run:
  "session_run sample_users [] sample_tokens (settings_answered sample_user (Some [TagsSetting 7]) sample_loading)"
proof (rule session_run.settled)
  show "LoadingSettings sample_user \<in> set (calls sample_loading)" by (simp add: sample_defs)
  show "session_run sample_users [] sample_tokens sample_loading" unfolding sample_loading_def
  proof (intro session_run.identified session_run.refreshed session_run.initialized session_run.loaded)
    show "AskingUser \<in> set (calls (refresh_settles 0 (Some (js ''token'', 90000))
       (initialize 0 \<lparr>app = INITIAL_STATE, tokens = sample_tokens, users = [], calls = [], served = []\<rparr>)))"
      by (simp add: sample_defs)
    show "Refreshing \<in> set (calls (initialize 0 \<lparr>app = INITIAL_STATE, tokens = sample_tokens, users = [], calls = [], served = []\<rparr>))"
      by (simp add: sample_defs)
  qed (simp_all add: INITIAL_STATE_def)
qed



text \<open>After a sign-out nothing of the session is left: no user, no settings, no token, and nothing in the browser's storage but the
  preferences of the device (an entry under the empty key would stay too).\<close>

theorem sign_out_clears_session:
  assumes "storage_available (tokens s)"
  shows "currentUser (app (signed_out U s)) = None \<and> userSettings (app (signed_out U s)) = NO_SETTINGS
    \<and> accessToken (tokens (signed_out U s)) = None \<and> calls (signed_out U s) = []
    \<and> fst ` set (localStorage (tokens (signed_out U s))) \<subseteq> insert [] (set keysToPreserve)
    \<and> (\<forall>k \<in> set keysToPreserve. getItem (localStorage (tokens (signed_out U s))) k = getItem (localStorage (tokens s)) k)"
proof -
  have kept: "map_of (filter (\<lambda>(k, v). k = [] \<or> k \<in> A) al) k = map_of al k" if "k \<in> A" for A k and al :: "(jsstr \<times> stored) list"
    using that by (induction al) auto
  have token: "k \<noteq> TOKEN_KEY" "k \<noteq> EXPIRES_KEY" if "k \<in> set keysToPreserve" for k
    using that by (auto simp: keysToPreserve_def TOKEN_KEY_def EXPIRES_KEY_def js_def)
  show ?thesis using assms kept token
    by (auto simp: signed_out_def signOutState_def UNAUTHENTICATED_STATE_def clearAccessToken_def clearUserStorage_def Let_def
        getItem_def removeItem_def AList.delete_conv' map_of_delete)
qed

section \<open>Known settings are there\<close>

definition known_ok :: "'v instance_state \<Rightarrow> bool" where
  "known_ok s \<longleftrightarrow> (\<forall>n \<in> set (fetchedSettings s). n \<in> set (map set_name (inst_settings s)) \<or> (\<exists>ns. FetchCall ns \<in> set (inst_calls s) \<and> n \<in> set ns))"

definition inst_inv :: "'v instance_state \<Rightarrow> bool" where
  "inst_inv s \<longleftrightarrow> known_ok s \<and> count_list (inst_calls s) BatchCall \<le> 1 \<and> (BatchCall \<in> set (inst_calls s) \<longrightarrow> fetchedSettings s = [])"

lemma finish_simps [simp]: "fetchedSettings (finishInstance s) = fetchedSettings s" "inst_settings (finishInstance s) = inst_settings s"
  "inst_calls (finishInstance s) = inst_calls s"
  by (simp_all add: finishInstance_def)

lemma set_fold_add [simp]: "set (fold set_add ns xs) = set ns \<union> set xs"
  by (induction ns arbitrary: xs) auto

lemma fetch_calls_kept [simp]: "k \<noteq> FetchCall ns \<Longrightarrow> FetchCall ns \<in> set (remove1 k cs) \<longleftrightarrow> FetchCall ns \<in> set cs"
  by (auto simp: in_set_remove1)

lemma count_remove1_batch: "count_list cs BatchCall \<le> 1 \<Longrightarrow> BatchCall \<notin> set (remove1 BatchCall cs)"
  by (induction cs) (auto simp: count_list_0_iff)

lemma count_remove1_le: "count_list (remove1 k cs) j \<le> count_list cs j"
  by (induction cs) auto

lemma profile_inst_inv: "inst_inv s \<Longrightarrow> inst_inv (profile_answered E p s)"
  using count_remove1_le [of ProfileCall "inst_calls s" BatchCall]
  by (cases p) (auto simp: inst_inv_def known_ok_def profile_answered_def Let_def in_set_remove1)

lemma batch_inst_inv: "inst_inv s \<Longrightarrow> BatchCall \<in> set (inst_calls s) \<Longrightarrow> inst_inv (batch_answered b s)"
  using count_remove1_batch [of "inst_calls s"]
  by (cases b) (auto simp: inst_inv_def known_ok_def batch_answered_def Let_def count_list_0_iff)

lemma fetch_inst_inv: "inst_inv s \<Longrightarrow> BatchCall \<notin> set (inst_calls s) \<Longrightarrow> inst_inv (fetchSettings ks s)"
  by (auto simp: inst_inv_def known_ok_def fetchSettings_def Let_def)

lemma fetchOne_inst_inv: "inst_inv s \<Longrightarrow> BatchCall \<notin> set (inst_calls s) \<Longrightarrow> inst_inv (fetchSetting k s)"
  by (auto simp: inst_inv_def known_ok_def fetchSetting_def Let_def)

lemma fetched_inst_inv:
  assumes "inst_inv s" "\<And>xs. answer = Some xs \<Longrightarrow> set ns \<subseteq> set (map set_name xs)"
  shows "inst_inv (fetch_answered ns answer s)"
proof -
  have c: "count_list (remove1 (FetchCall ns) (inst_calls s)) BatchCall \<le> 1"
    using count_remove1_le [of "FetchCall ns" "inst_calls s" BatchCall] assms(1) by (simp add: inst_inv_def)
  have pending: "FetchCall ms \<in> set (remove1 (FetchCall ns) (inst_calls s))" if "FetchCall ms \<in> set (inst_calls s)" "n \<in> set ms" "n \<notin> set ns" for ms n
  proof -
    have "FetchCall ns \<noteq> FetchCall ms" using that by auto
    then show ?thesis using that by simp
  qed
  have "known_ok (fetch_answered ns answer s)"
  proof (cases answer)
    case None
    then show ?thesis using assms(1) pending by (fastforce simp: inst_inv_def known_ok_def fetch_answered_def Let_def)
  next
    case (Some xs)
    then have "set ns \<subseteq> set_name ` set xs" using assms(2) by simp
    then show ?thesis using assms(1) pending Some
      by (fastforce simp: inst_inv_def known_ok_def fetch_answered_def Let_def)
  qed
  then show ?thesis using assms(1) c by (cases answer) (auto simp: inst_inv_def fetch_answered_def Let_def in_set_remove1)
qed

lemma updated_inst_inv: "inst_inv s \<Longrightarrow> inst_inv (setting_updated x x' s)"
  by (cases "set_value x") (fastforce simp: inst_inv_def known_ok_def setting_updated_def)+

lemma instance_run_inv: "instance_run E m early s \<Longrightarrow> \<not> early \<Longrightarrow> inst_inv s"
proof (induction rule: instance_run.induct)
  case created
  then show ?case by (simp add: inst_inv_def known_ok_def initializeInstance_def instance_start_def)
qed (simp_all add: profile_inst_inv batch_inst_inv fetch_inst_inv fetchOne_inst_inv fetched_inst_inv updated_inst_inv)

text \<open>When no setting is fetched before the first batch is answered, a setting that counts as known is stored or its request is
  unanswered: no page mistakes a setting that is not loaded for one that is empty.\<close>

theorem known_settings_present:
  assumes "instance_run E m False s" "hasSetting key s" "\<And>ns. FetchCall ns \<notin> set (inst_calls s)"
  shows "\<exists>x \<in> set (inst_settings s). set_name x = buildInstanceSettingName key"
  using instance_run_inv [OF assms(1)] assms(2,3) by (fastforce simp: inst_inv_def known_ok_def hasSetting_def)

definition early_answers :: "managed_state \<Rightarrow> nat instance_state" where
  "early_answers m =
     (let general = \<lparr>set_name = buildInstanceSettingName GENERAL, set_value = SettingValue ''generalSetting'' 0\<rparr>;
          ai = \<lparr>set_name = buildInstanceSettingName AI, set_value = SettingValue ''aiSetting'' 1\<rparr>
      in batch_answered (Some [general])
           (fetch_answered [buildInstanceSettingName AI] (Some [ai])
             (fetchSetting AI (initializeInstance (instance_start m)))))"

text \<open>The batch of the initialization replaces the list of settings instead of adding to it. An editor that mounts as soon as the
  profile is there can have fetched the AI setting by then: it is dropped, counts as fetched for the rest of the session, and the
  AI page shows that no provider is configured.\<close>

theorem early_setting_lost:
  "instance_run E m True (early_answers m)
   \<and> hasSetting AI (early_answers m) \<and> settingOf AI ''aiSetting'' (early_answers m) = None
   \<and> fetchSetting AI (early_answers m) = early_answers m"
proof -
  let ?s1 = "fetchSetting AI (initializeInstance (instance_start m)) :: nat instance_state"
  let ?ai = "\<lparr>set_name = buildInstanceSettingName AI, set_value = SettingValue ''aiSetting'' (1::nat)\<rparr>"
  have "instance_run E m True ?s1" by (intro instance_run.fetchingOne instance_run.created) simp
  moreover have "FetchCall [buildInstanceSettingName AI] \<in> set (inst_calls ?s1)"
    by (simp add: fetchSetting_def initializeInstance_def instance_start_def Let_def)
  ultimately have "instance_run E m True (fetch_answered [buildInstanceSettingName AI] (Some [?ai]) ?s1)"
    by (rule instance_run.fetched) simp
  then have "instance_run E m True (early_answers m)" unfolding early_answers_def Let_def
    by (rule instance_run.batched) (simp add: fetch_answered_def fetchSetting_def initializeInstance_def instance_start_def Let_def)
  then show ?thesis
    by (simp add: early_answers_def hasSetting_def settingOf_def batch_answered_def fetch_answered_def fetchSetting_def finishInstance_def
        initializeInstance_def instance_start_def buildInstanceSettingName_def js_def Let_def)
qed

section \<open>The composer belongs to the user\<close>

definition composer_inv :: "composer \<Rightarrow> bool" where
  "composer_inv s \<longleftrightarrow>
     (\<forall>p. opened s = Some p \<longrightarrow> currentUserName s = Some (fst p))
     \<and> (\<forall>r \<in> set (pendingLoads s). fst r \<le> openRequestVersion s
          \<and> (fst r = openRequestVersion s \<longrightarrow> currentUserName s = Some (fst (snd r)) \<and> settingsReady s))"

lemma closeEditor_inv: "(\<forall>r \<in> set (pendingLoads s). fst r \<le> openRequestVersion s) \<Longrightarrow> composer_inv (closeEditor s)"
  by (fastforce simp: composer_inv_def closeEditor_def)

lemma openEditor_inv:
  assumes "composer_inv s"
  shows "composer_inv (openEditor s)"
proof (cases "currentUserName s")
  case (Some user)
  show ?thesis
  proof (cases "canOpen s")
    case True
    have "\<And>r. r \<in> set (pendingLoads s) \<Longrightarrow> fst r < Suc (openRequestVersion s)" using assms by (auto simp: composer_inv_def less_Suc_eq_le)
    then show ?thesis using assms Some True unfolding composer_inv_def openEditor_def canOpen_def Let_def
      by (simp add: ball_Un nat_less_le)
  qed (use assms Some in \<open>simp add: openEditor_def\<close>)
qed (use assms in \<open>simp add: openEditor_def\<close>)

lemma editor_loads_inv:
  assumes "composer_inv s" "r \<in> set (pendingLoads s)"
  shows "composer_inv (editor_loads r ok s)"
proof -
  have "composer_inv (s\<lparr>pendingLoads := remove1 r (pendingLoads s)\<rparr>)"
    using assms(1) set_remove1_subset [of r "pendingLoads s"] unfolding composer_inv_def by auto
  moreover have "openRequestVersion s = fst r \<Longrightarrow> currentUserName s = Some (fst (snd r))" using assms by (auto simp: composer_inv_def)
  ultimately show ?thesis by (auto simp: editor_loads_def Let_def composer_inv_def)
qed

lemma composer_run_inv: "composer_run s \<Longrightarrow> composer_inv s"
proof (induction rule: composer_run.induct)
  case (asks s)
  show ?case by (rule openEditor_inv [OF asks.IH])
next
  case (loads s r ok)
  show ?case by (rule editor_loads_inv [OF loads.IH loads.hyps(2)])
next
  case (changes s u b)
  then have "composer_inv (closeEditor (s\<lparr>currentUserName := u, settingsReady := b\<rparr>))"
    by (intro closeEditor_inv) (simp add: composer_inv_def)
  then show ?case using changes.IH by (auto simp: session_changes_def Let_def)
next
  case (cancels s)
  then show ?case by (intro closeEditor_inv) (simp add: composer_inv_def)
next
  case (requests s)
  then have "composer_inv (closeEditor s)" by (intro closeEditor_inv) (simp add: composer_inv_def)
  then show ?case using requests.IH by (simp add: requestCloseEditor_def)
next
  case (dialog s op)
  then have "composer_inv (closeEditor s)" by (intro closeEditor_inv) (simp add: composer_inv_def)
  then show ?case using dialog.IH by (auto simp: onOpenChange_def composer_inv_def split: option.splits)
qed (auto simp: composer_inv_def reportSaving_def claimHomeAutoFocus_def home_effect_def)

text \<open>An open composer is the one of the user who is signed in, even when the editor's code arrives after a sign-out or after
  another user signed in.\<close>

theorem composer_of_current_user:
  assumes "composer_run s" "opened s = Some (user, space)"
  shows "currentUserName s = Some user \<and> editorIsOpen s"
  using composer_run_inv [OF assms(1)] assms(2) by (simp add: composer_inv_def editorIsOpen_def)

text \<open>The code of the editor that arrives for a request which a sign-out, a close or a second request has overtaken opens nothing.\<close>

theorem overtaken_load_opens_nothing:
  assumes "composer_run s" "r \<in> set (pendingLoads s)" "fst r < openRequestVersion s"
  shows "opened (editor_loads r ok s) = opened s \<and> composer_run (editor_loads r ok s)"
proof
  show "opened (editor_loads r ok s) = opened s" using assms(3) by (simp add: editor_loads_def Let_def)
  show "composer_run (editor_loads r ok s)" by (rule composer_run.loads [OF assms(1,2)])
qed

end
