(* ===== verification/Sign_In.thy ===== *)
theory Sign_In
  imports Session OAuth Routes
begin

text \<open>
  The ways into a session: the page that an identity provider returns to (\<^verbatim>\<open>web/src/pages/AuthCallback.tsx\<close>) with the buttons that lead
  there (\<^verbatim>\<open>web/src/components/IdentityProviderButtons.tsx\<close>, \<^verbatim>\<open>web/src/components/Settings/LinkedIdentitySection.tsx\<close>), the forms with a
  password (\<^verbatim>\<open>web/src/components/PasswordSignInForm.tsx\<close>, \<^verbatim>\<open>web/src/pages/SignUp.tsx\<close>) and the messages of failed requests
  (\<^verbatim>\<open>web/src/lib/error.ts\<close>).

  The pages run on top of the session: a step of a page that awaits the initialization goes on when no call of it is left. The
  address that \<open>absolutifyLink\<close> returns for the callback and the error details that the RPC library decodes are arguments.
\<close>

section \<open>Errors\<close>

record ErrorInfo =
  reason :: jsstr
  domain :: jsstr
  errorMetadata :: "(jsstr \<times> jsstr) list"

text \<open>What a handler can catch: an error of the RPC library with the details it carries (None for one that does not decode), its
  raw message and the message with the code in front, an error of the language, a text, an object with a message, or anything else.\<close>

datatype caught =
    Rpc "ErrorInfo option" jsstr jsstr
  | Thrown jsstr
  | ThrownText jsstr
  | ThrownObject jsstr
  | ThrownOther

definition ERROR_REASON_RATE_LIMITED :: jsstr where "ERROR_REASON_RATE_LIMITED = js ''RATE_LIMITED''"
definition ERROR_REASON_CHALLENGE_REQUIRED :: jsstr where "ERROR_REASON_CHALLENGE_REQUIRED = js ''CHALLENGE_REQUIRED''"

fun getErrorInfo :: "caught \<Rightarrow> ErrorInfo option" where
  "getErrorInfo (Rpc info raw m) = info"
| "getErrorInfo _ = None"

definition hasErrorReason :: "caught \<Rightarrow> jsstr \<Rightarrow> bool" where
  "hasErrorReason err r \<longleftrightarrow> map_option reason (getErrorInfo err) = Some r"

text \<open>\<open>Number.parseInt(s, 10)\<close>: white space, a sign, and the digits that follow; None is \<open>NaN\<close>.\<close>

definition parseInt10 :: "jsstr \<Rightarrow> int option" where
  "parseInt10 s =
     (let t = dropWhile isWhiteSpace s;
          neg = (t \<noteq> [] \<and> hd t = 45);
          u = (if t \<noteq> [] \<and> (hd t = 45 \<or> hd t = 43) then tl t else t);
          ds = takeWhile isDigit u
      in if ds = [] then None
         else let n = foldl (\<lambda>a c. 10 * a + (int c - 48)) 0 ds in Some (if neg then - n else n))"

definition getRetryAfterSeconds :: "caught \<Rightarrow> int option" where
  "getRetryAfterSeconds err =
     (case getErrorInfo err of
        None \<Rightarrow> None
      | Some info \<Rightarrow>
          if reason info \<noteq> ERROR_REASON_RATE_LIMITED then None
          else case parseInt10 (case map_of (errorMetadata info) (js ''retry_after_seconds'') of None \<Rightarrow> [] | Some v \<Rightarrow> v) of
                 None \<Rightarrow> None
               | Some seconds \<Rightarrow> if 0 < seconds then Some seconds else None)"

definition ceil_div :: "int \<Rightarrow> int \<Rightarrow> int" where
  "ceil_div a b = (a + b - 1) div b"

definition formatWait :: "(int \<Rightarrow> jsstr) \<Rightarrow> int \<Rightarrow> jsstr" where
  "formatWait show_int seconds =
     (if seconds < 60 then show_int seconds @ js ''s''
      else let minutes = ceil_div seconds 60
           in if minutes < 60 then show_int minutes @ js '' min'' else show_int (ceil_div minutes 60) @ js '' h'')"

definition getErrorMessage :: "(int \<Rightarrow> jsstr) \<Rightarrow> caught \<Rightarrow> jsstr \<Rightarrow> jsstr" where
  "getErrorMessage show_int err fallbackMessage =
     (case err of
        Rpc info rawMessage m \<Rightarrow>
          (case getRetryAfterSeconds err of
             Some retryAfter \<Rightarrow> js ''Too many requests. Try again in '' @ formatWait show_int retryAfter @ js ''.''
           | None \<Rightarrow>
               if hasErrorReason err ERROR_REASON_CHALLENGE_REQUIRED then js ''Complete the verification challenge and try again.''
               else if rawMessage \<noteq> [] then rawMessage else fallbackMessage)
      | Thrown m \<Rightarrow> m
      | ThrownText m \<Rightarrow> m
      | ThrownObject m \<Rightarrow> m
      | ThrownOther \<Rightarrow> fallbackMessage)"

section \<open>Leaving for the provider\<close>

record OAuth2Config =
  cfg_authUrl :: jsstr
  cfg_clientId :: jsstr
  cfg_scopes :: "jsstr list"

text \<open>\<open>encodeURIComponent\<close> throws for a lone surrogate, which a provider's scopes could only hold by mistake: None.\<close>

definition authUrl :: "jsstr \<Rightarrow> OAuth2Config \<Rightarrow> jsstr \<Rightarrow> jsstr option \<Rightarrow> jsstr option" where
  "authUrl redirectUri cfg state codeChallenge =
     (case (encodeURIComponent redirectUri, encodeURIComponent (join (js '' '') (cfg_scopes cfg))) of
        (Some uri, Some scope) \<Rightarrow>
          Some (cfg_authUrl cfg @ js ''?client_id='' @ cfg_clientId cfg @ js ''&redirect_uri='' @ uri @ js ''&state='' @ state
            @ js ''&response_type=code&scope='' @ scope
            @ (if truthy codeChallenge then js ''&code_challenge='' @ the codeChallenge @ js ''&code_challenge_method=S256'' else []))
      | _ \<Rightarrow> None)"

datatype departure = NoConfig | Failed | LeavesFor jsstr | Stays

definition depart ::
  "browser_crypto \<Rightarrow> int \<Rightarrow> jsstr \<Rightarrow> jsstr \<Rightarrow> OAuth2Config option \<Rightarrow> OAuthFlowMode \<Rightarrow> jsstr option \<Rightarrow> jsstr option \<Rightarrow> session_storage
    \<Rightarrow> departure \<times> session_storage" where
  "depart C now redirectUri provider cfg mode ret user storage =
     (case cfg of
        None \<Rightarrow> (NoConfig, storage)
      | Some oauth2Config \<Rightarrow>
          (case storeOAuthState C now provider mode ret user storage of
             (None, st) \<Rightarrow> (Failed, st)
           | (Some (state, codeChallenge), st) \<Rightarrow>
               (case authUrl redirectUri oauth2Config state codeChallenge of
                  None \<Rightarrow> (Failed, st)
                | Some url \<Rightarrow> (LeavesFor url, st))))"

definition handleSignInWithIdentityProvider ::
  "browser_crypto \<Rightarrow> int \<Rightarrow> jsstr \<Rightarrow> bool \<Rightarrow> jsstr \<Rightarrow> OAuth2Config option \<Rightarrow> jsstr option \<Rightarrow> session_storage \<Rightarrow> departure \<times> session_storage"
where
  "handleSignInWithIdentityProvider C now redirectUri isOAuth2 provider cfg redirectTarget storage =
     (if isOAuth2 then depart C now redirectUri provider cfg signin redirectTarget None storage else (Stays, storage))"

definition handleLinkIdentityProvider ::
  "browser_crypto \<Rightarrow> int \<Rightarrow> jsstr \<Rightarrow> User option \<Rightarrow> jsstr \<Rightarrow> OAuth2Config option \<Rightarrow> location \<Rightarrow> session_storage \<Rightarrow> departure \<times> session_storage"
where
  "handleLinkIdentityProvider C now redirectUri user provider cfg loc storage =
     (case user of
        None \<Rightarrow> (Stays, storage)
      | Some u \<Rightarrow>
          if user_name u = [] then (Stays, storage)
          else depart C now redirectUri provider cfg link (Some (loc_pathname loc @ loc_search loc @ loc_hash loc)) (Some (user_name u)) storage)"

section \<open>Coming back\<close>

record callback_params =
  p_error :: "jsstr option"
  p_error_description :: "jsstr option"
  p_error_uri :: "jsstr option"
  p_code :: "jsstr option"
  p_state :: "jsstr option"

datatype sso_request =
    SignInRequest jsstr jsstr jsstr jsstr
  | LinkRequest jsstr jsstr jsstr jsstr jsstr

record ('v, 'c) callback =
  cb_session :: "('v, 'c) session"
  cb_storage :: session_storage
  handledRef :: bool
  cb_loading :: bool
  cb_errorMessage :: jsstr
  cb_crashed :: bool
  cb_waiting :: "(sso_request \<times> jsstr option) list"
  cb_returning :: "jsstr option list"
  cb_sent :: "(int \<times> sso_request) list"
  cb_navigated :: "jsstr list"

definition callback_mount :: "('v, 'c) session \<Rightarrow> session_storage \<Rightarrow> ('v, 'c) callback" where
  "callback_mount x storage = \<lparr>cb_session = x, cb_storage = storage, handledRef = False, cb_loading = True, cb_errorMessage = [], cb_crashed = False,
     cb_waiting = [], cb_returning = [], cb_sent = [], cb_navigated = []\<rparr>"

definition showError :: "jsstr \<Rightarrow> ('v, 'c) callback \<Rightarrow> ('v, 'c) callback" where
  "showError m s = s\<lparr>cb_loading := False, cb_errorMessage := m\<rparr>"

text \<open>The answer of the provider when it denied access; \<open>decodeURIComponent\<close> throws for a percent sign that starts no escape, and
  the error of an effect takes the page down.\<close>

definition provider_error :: "callback_params \<Rightarrow> jsstr option" where
  "provider_error P =
     (let m0 = js ''OAuth error: '' @ the (p_error P);
          m1 = (if truthy (p_error_description P)
                then map_option (\<lambda>d. m0 @ [10] @ d) (decodeURIComponent (the (p_error_description P))) else Some m0)
      in map_option (\<lambda>m. if truthy (p_error_uri P) then m @ [10] @ js ''More info: '' @ the (p_error_uri P) else m) m1)"

definition MISSING_PARAMETERS :: jsstr where
  "MISSING_PARAMETERS = js ''Failed to authorize. Missing authorization code or state parameter.''"

definition INVALID_STATE :: jsstr where
  "INVALID_STATE = js ''Failed to authorize. Invalid or expired state parameter. This may indicate a CSRF attack attempt.''"

definition LINK_SIGNED_OUT :: jsstr where
  "LINK_SIGNED_OUT = js ''Failed to link account. Please sign in to Memos again and retry.''"

definition LINK_USER_CHANGED :: jsstr where
  "LINK_USER_CHANGED =
     js ''The signed-in user changed before the OAuth callback completed. Please retry linking from account settings.''"

text \<open>The start of the asynchronous part, up to the request: an error message or the request.\<close>

definition sso_request_of :: "jsstr \<Rightarrow> User option \<Rightarrow> jsstr \<Rightarrow> validated \<Rightarrow> jsstr + sso_request" where
  "sso_request_of redirectUri user code v =
     (let verifier = (case v_codeVerifier v of None \<Rightarrow> [] | Some x \<Rightarrow> x)
      in case v_flowMode v of
           link \<Rightarrow>
             (case user of
                None \<Rightarrow> Inl LINK_SIGNED_OUT
              | Some u \<Rightarrow>
                  if user_name u = [] then Inl LINK_SIGNED_OUT
                  else if truthy (v_linkingUserName v) \<and> user_name u \<noteq> the (v_linkingUserName v) then Inl LINK_USER_CHANGED
                  else Inr (LinkRequest (user_name u) (v_identityProviderName v) code redirectUri verifier))
         | signin \<Rightarrow> Inr (SignInRequest (v_identityProviderName v) code redirectUri verifier))"

definition callback_effect :: "jsstr \<Rightarrow> callback_params \<Rightarrow> int \<Rightarrow> ('v, 'c) callback \<Rightarrow> ('v, 'c) callback" where
  "callback_effect redirectUri P now s =
     (if \<not> isInitialized (app (cb_session s)) then s
      else if handledRef s then s
      else if truthy (p_error P) then (case provider_error P of None \<Rightarrow> s\<lparr>cb_crashed := True\<rparr> | Some m \<Rightarrow> showError m s)
      else if \<not> truthy (p_code P) \<or> \<not> truthy (p_state P) then showError MISSING_PARAMETERS s
      else case validateOAuthState now (the (p_state P)) (cb_storage s) of
             (None, st) \<Rightarrow> showError INVALID_STATE (s\<lparr>cb_storage := st\<rparr>)
           | (Some v, st) \<Rightarrow>
               (let s1 = s\<lparr>cb_storage := st, handledRef := True\<rparr>
                in case sso_request_of redirectUri (currentUser (app (cb_session s))) (the (p_code P)) v of
                     Inl m \<Rightarrow> showError m s1
                   | Inr r \<Rightarrow> s1\<lparr>cb_waiting := cb_waiting s1 @ [(r, v_returnUrl v)], cb_sent := cb_sent s1 @ [(now, r)]\<rparr>))"

text \<open>A sign-in is answered with a token and its expiry, a link with nothing.\<close>

definition request_answered ::
  "int \<Rightarrow> sso_request \<times> jsstr option \<Rightarrow> (jsstr \<times> int option) option \<Rightarrow> ('v, 'c) callback \<Rightarrow> ('v, 'c) callback" where
  "request_answered now w token s =
     (let a = tokens (cb_session s);
          a1 = (case token of
                  Some (t, e) \<Rightarrow> if t \<noteq> [] then setAccessToken (Some t) e a else a
                | None \<Rightarrow> a)
      in s\<lparr>cb_waiting := remove1 w (cb_waiting s), cb_loading := False, cb_errorMessage := [],
           cb_session := initialize now ((cb_session s)\<lparr>tokens := a1\<rparr>), cb_returning := cb_returning s @ [snd w]\<rparr>)"

definition request_failed :: "sso_request \<times> jsstr option \<Rightarrow> caught \<Rightarrow> ('v, 'c) callback \<Rightarrow> ('v, 'c) callback" where
  "request_failed w err s =
     showError (case err of Rpc i raw m \<Rightarrow> m | Thrown m \<Rightarrow> m | _ \<Rightarrow> js ''Failed to authenticate.'')
       (s\<lparr>cb_waiting := remove1 w (cb_waiting s)\<rparr>)"

definition callback_returns :: "jsstr option \<Rightarrow> ('v, 'c) callback \<Rightarrow> ('v, 'c) callback" where
  "callback_returns target s =
     s\<lparr>cb_returning := remove1 target (cb_returning s),
       cb_navigated := cb_navigated s @ [case getSafeRedirectPath target of None \<Rightarrow> HOME | Some p \<Rightarrow> p]\<rparr>"

text \<open>The effect runs on every change of what it depends on; the answers of the session arrive at any time.\<close>

inductive callback_run ::
  "'c user_cache \<Rightarrow> jsstr \<Rightarrow> callback_params \<Rightarrow> session_storage \<Rightarrow> ('v, 'c) session \<Rightarrow> ('v, 'c) callback \<Rightarrow> bool" for U redirectUri P storage x where
  opened: "callback_run U redirectUri P storage x (callback_mount x storage)"
| effect: "callback_run U redirectUri P storage x s \<Longrightarrow> callback_run U redirectUri P storage x (callback_effect redirectUri P now s)"
| answered: "callback_run U redirectUri P storage x s \<Longrightarrow> w \<in> set (cb_waiting s) \<Longrightarrow> callback_run U redirectUri P storage x (request_answered now w token s)"
| failed: "callback_run U redirectUri P storage x s \<Longrightarrow> w \<in> set (cb_waiting s) \<Longrightarrow> callback_run U redirectUri P storage x (request_failed w err s)"
| returns: "callback_run U redirectUri P storage x s \<Longrightarrow> r \<in> set (cb_returning s) \<Longrightarrow> filter initializes (calls (cb_session s)) = [] \<Longrightarrow>
    callback_run U redirectUri P storage x (callback_returns r s)"
| refreshed: "callback_run U redirectUri P storage x s \<Longrightarrow> Refreshing \<in> set (calls (cb_session s)) \<Longrightarrow>
    callback_run U redirectUri P storage x (s\<lparr>cb_session := refresh_settles now granted (cb_session s)\<rparr>)"
| identified: "callback_run U redirectUri P storage x s \<Longrightarrow> AskingUser \<in> set (calls (cb_session s)) \<Longrightarrow>
    callback_run U redirectUri P storage x (s\<lparr>cb_session := identity_answered U answer (cb_session s)\<rparr>)"
| settled: "callback_run U redirectUri P storage x s \<Longrightarrow> LoadingSettings u \<in> set (calls (cb_session s)) \<Longrightarrow>
    callback_run U redirectUri P storage x (s\<lparr>cb_session := settings_answered u res (cb_session s)\<rparr>)"

section \<open>The forms\<close>

text \<open>Both forms send a name and a password; the form of the sign-up creates the user first and reads the instance again at the end.\<close>

datatype form_call = CreatingUser | SigningIn | AwaitingSession | AwaitingInstance

datatype form_request = CreateUser User "jsstr option" | PasswordSignIn jsstr jsstr "jsstr option"

record ('v, 'c) form =
  form_session :: "('v, 'c) session"
  signsUp :: bool
  username :: jsstr
  password :: jsstr
  challengeToken :: "jsstr option"
  challengeResetKey :: nat
  form_loading :: bool
  form_calls :: "form_call list"
  form_sent :: "form_request list"
  form_toasts :: "jsstr list"
  form_navigated :: "jsstr list"

definition challengeHeader :: "('v, 'c) form \<Rightarrow> jsstr option" where
  "challengeHeader s = (if truthy (challengeToken s) then challengeToken s else None)"

definition newUser :: "('v, 'c) form \<Rightarrow> User" where
  "newUser s = \<lparr>user_name = [], user_role = ROLE_USER, user_username = username s, user_email = [], user_displayName = [], user_avatarUrl = [],
     user_description = [], user_password = password s, user_state = STATE_UNSPECIFIED, user_createTime = None, user_updateTime = None\<rparr>"

definition handleFormSubmit :: "('v, 'c) form \<Rightarrow> ('v, 'c) form" where
  "handleFormSubmit s =
     (if username s = [] \<or> password s = [] then s
      else if form_loading s then s
      else let s1 = s\<lparr>form_loading := True\<rparr>
           in if signsUp s
              then s1\<lparr>form_calls := form_calls s1 @ [CreatingUser], form_sent := form_sent s1 @ [CreateUser (newUser s1) (challengeHeader s1)]\<rparr>
              else s1\<lparr>form_calls := form_calls s1 @ [SigningIn],
                      form_sent := form_sent s1 @ [PasswordSignIn (username s1) (password s1) (challengeHeader s1)]\<rparr>)"

text \<open>The inputs are read-only while a form is loading, so the values of the submission are still the ones of the form.\<close>

definition user_created :: "('v, 'c) form \<Rightarrow> ('v, 'c) form" where
  "user_created s =
     s\<lparr>form_calls := remove1 CreatingUser (form_calls s) @ [SigningIn],
       form_sent := form_sent s @ [PasswordSignIn (username s) (password s) (challengeHeader s)]\<rparr>"

definition form_signed_in :: "int \<Rightarrow> jsstr \<times> int option \<Rightarrow> ('v, 'c) form \<Rightarrow> ('v, 'c) form" where
  "form_signed_in now answer s =
     (let a = tokens (form_session s);
          a1 = (if fst answer \<noteq> [] then setAccessToken (Some (fst answer)) (snd answer) a else a)
      in s\<lparr>form_session := initialize now ((form_session s)\<lparr>tokens := a1\<rparr>),
           form_calls := remove1 SigningIn (form_calls s) @ [AwaitingSession]\<rparr>)"

definition form_finish :: "('v, 'c) form \<Rightarrow> ('v, 'c) form" where
  "form_finish s = s\<lparr>form_loading := False\<rparr>"

definition form_leaves :: "jsstr option \<Rightarrow> ('v, 'c) form \<Rightarrow> ('v, 'c) form" where
  "form_leaves redirectPath s =
     form_finish (s\<lparr>form_navigated := form_navigated s @ [if truthy redirectPath then the redirectPath else HOME]\<rparr>)"

definition session_ready :: "jsstr option \<Rightarrow> ('v, 'c) form \<Rightarrow> ('v, 'c) form" where
  "session_ready redirectPath s =
     (let s1 = s\<lparr>form_calls := remove1 AwaitingSession (form_calls s)\<rparr>
      in if signsUp s then s1\<lparr>form_calls := form_calls s1 @ [AwaitingInstance]\<rparr> else form_leaves redirectPath s1)"

definition instance_ready :: "jsstr option \<Rightarrow> ('v, 'c) form \<Rightarrow> ('v, 'c) form" where
  "instance_ready redirectPath s = form_leaves redirectPath (s\<lparr>form_calls := remove1 AwaitingInstance (form_calls s)\<rparr>)"

definition form_failed :: "(int \<Rightarrow> jsstr) \<Rightarrow> form_call \<Rightarrow> caught \<Rightarrow> ('v, 'c) form \<Rightarrow> ('v, 'c) form" where
  "form_failed show_int k err s =
     (let s1 = s\<lparr>form_calls := remove1 k (form_calls s)\<rparr>;
          s2 = (if hasErrorReason err ERROR_REASON_CHALLENGE_REQUIRED then s1\<lparr>challengeResetKey := challengeResetKey s1 + 1\<rparr> else s1)
      in form_finish (s2\<lparr>form_toasts := form_toasts s2
           @ [getErrorMessage show_int err (if signsUp s then js ''Sign up failed'' else js ''Failed to sign in.'')]\<rparr>))"

definition form_mount :: "bool \<Rightarrow> ('v, 'c) session \<Rightarrow> ('v, 'c) form" where
  "form_mount up x = \<lparr>form_session = x, signsUp = up, username = [], password = [], challengeToken = None, challengeResetKey = 0,
     form_loading = False, form_calls = [], form_sent = [], form_toasts = [], form_navigated = []\<rparr>"

inductive form_run :: "(int \<Rightarrow> jsstr) \<Rightarrow> jsstr option \<Rightarrow> bool \<Rightarrow> ('v, 'c) session \<Rightarrow> ('v, 'c) form \<Rightarrow> bool" for show_int redirect up x where
  shown: "form_run show_int redirect up x (form_mount up x)"
| typed: "form_run show_int redirect up x s \<Longrightarrow> \<not> form_loading s \<Longrightarrow> form_run show_int redirect up x (s\<lparr>username := u, password := p\<rparr>)"
| challenged: "form_run show_int redirect up x s \<Longrightarrow> form_run show_int redirect up x (s\<lparr>challengeToken := c\<rparr>)"
| submitted: "form_run show_int redirect up x s \<Longrightarrow> form_run show_int redirect up x (handleFormSubmit s)"
| created: "form_run show_int redirect up x s \<Longrightarrow> CreatingUser \<in> set (form_calls s) \<Longrightarrow> form_run show_int redirect up x (user_created s)"
| signed: "form_run show_int redirect up x s \<Longrightarrow> SigningIn \<in> set (form_calls s) \<Longrightarrow> form_run show_int redirect up x (form_signed_in now answer s)"
| ready: "form_run show_int redirect up x s \<Longrightarrow> AwaitingSession \<in> set (form_calls s) \<Longrightarrow> form_run show_int redirect up x (session_ready redirect s)"
| left: "form_run show_int redirect up x s \<Longrightarrow> AwaitingInstance \<in> set (form_calls s) \<Longrightarrow> form_run show_int redirect up x (instance_ready redirect s)"
| failed: "form_run show_int redirect up x s \<Longrightarrow> k \<in> {CreatingUser, SigningIn} \<inter> set (form_calls s) \<Longrightarrow>
    form_run show_int redirect up x (form_failed show_int k err s)"
| proceeds: "form_run show_int redirect up x s \<Longrightarrow> form_run show_int redirect up x (s\<lparr>form_session := y\<rparr>)"

section \<open>Only the flow that this browser began\<close>

definition request_allowed :: "jsstr \<Rightarrow> callback_params \<Rightarrow> OAuthState \<Rightarrow> int \<Rightarrow> sso_request \<Rightarrow> bool" where
  "request_allowed redirectUri P d t r \<longleftrightarrow>
     p_state P = Some (oauth_state d) \<and> truthy (p_code P) \<and> t - timestamp d \<le> STATE_EXPIRY_MS
     \<and> (let verifier = (case codeVerifier d of None \<Rightarrow> [] | Some v \<Rightarrow> v)
        in case r of
             SignInRequest idp code uri v \<Rightarrow> flowMode d \<noteq> Some link \<and> idp = identityProviderName d \<and> Some code = p_code P \<and> uri = redirectUri \<and> v = verifier
           | LinkRequest parent idp code uri v \<Rightarrow>
               flowMode d = Some link \<and> idp = identityProviderName d \<and> Some code = p_code P \<and> uri = redirectUri \<and> v = verifier
               \<and> parent \<noteq> [] \<and> (truthy (linkingUserName d) \<longrightarrow> linkingUserName d = Some parent))"

definition callback_inv :: "jsstr \<Rightarrow> callback_params \<Rightarrow> session_storage \<Rightarrow> ('v, 'c) callback \<Rightarrow> bool" where
  "callback_inv redirectUri P storage s \<longleftrightarrow>
     (getItem (cb_storage s) STATE_STORAGE_KEY = None \<or> \<not> handledRef s \<and> getItem (cb_storage s) STATE_STORAGE_KEY = getItem storage STATE_STORAGE_KEY)
     \<and> (\<not> handledRef s \<longrightarrow> cb_sent s = []) \<and> length (cb_sent s) \<le> 1
     \<and> (\<forall>(t, r) \<in> set (cb_sent s). \<exists>d. getItem storage STATE_STORAGE_KEY = Some (StateData d) \<and> request_allowed redirectUri P d t r)
     \<and> (\<forall>p \<in> set (cb_navigated s). startsWith p (js ''/'') \<and> \<not> startsWith p (js ''//''))"

lemma callback_inv_cong:
  "callback_inv redirectUri P storage s \<Longrightarrow> cb_storage s' = cb_storage s \<Longrightarrow> handledRef s' = handledRef s \<Longrightarrow> cb_sent s' = cb_sent s
   \<Longrightarrow> cb_navigated s' = cb_navigated s \<Longrightarrow> callback_inv redirectUri P storage s'"
  by (simp add: callback_inv_def)

lemma showError_simps [simp]: "cb_storage (showError m s) = cb_storage s" "handledRef (showError m s) = handledRef s"
  "cb_sent (showError m s) = cb_sent s" "cb_navigated (showError m s) = cb_navigated s"
  by (simp_all add: showError_def)

lemma validate_takes_state:
  "validateOAuthState now p st = (res, st') \<Longrightarrow> getItem st' STATE_STORAGE_KEY = None"
  by (auto simp: validateOAuthState_def split: option.splits stored_item.splits if_splits)

lemma validate_Some:
  assumes "validateOAuthState now p st = (Some v, st')"
  shows "\<exists>d. getItem st STATE_STORAGE_KEY = Some (StateData d) \<and> now - timestamp d \<le> STATE_EXPIRY_MS \<and> oauth_state d = p
    \<and> v = \<lparr>v_identityProviderName = identityProviderName d, v_flowMode = (case flowMode d of None \<Rightarrow> signin | Some m \<Rightarrow> m),
           v_returnUrl = returnUrl d, v_linkingUserName = linkingUserName d, v_codeVerifier = codeVerifier d\<rparr>"
  using assms by (auto simp: validateOAuthState_def split: option.splits stored_item.splits if_splits)

lemma request_of_allowed:
  assumes "validateOAuthState now p st = (Some v, st')" "p_state P = Some p" "truthy (p_code P)"
    "sso_request_of redirectUri user (the (p_code P)) v = Inr r"
  shows "\<exists>d. getItem st STATE_STORAGE_KEY = Some (StateData d) \<and> request_allowed redirectUri P d now r"
proof -
  obtain d where d: "getItem st STATE_STORAGE_KEY = Some (StateData d)" "now - timestamp d \<le> STATE_EXPIRY_MS" "oauth_state d = p"
    "v = \<lparr>v_identityProviderName = identityProviderName d, v_flowMode = (case flowMode d of None \<Rightarrow> signin | Some m \<Rightarrow> m),
          v_returnUrl = returnUrl d, v_linkingUserName = linkingUserName d, v_codeVerifier = codeVerifier d\<rparr>"
    using validate_Some [OF assms(1)] by blast
  have "request_allowed redirectUri P d now r"
    using assms(2-4) d(2-4)
    by (auto simp: request_allowed_def sso_request_of_def Let_def truthy_def split: option.splits OAuthFlowMode.splits if_splits)
  then show ?thesis using d(1) by blast
qed

lemma effect_inv:
  assumes inv: "callback_inv redirectUri P storage s"
  shows "callback_inv redirectUri P storage (callback_effect redirectUri P now s)"
proof (cases "isInitialized (app (cb_session s)) \<and> \<not> handledRef s \<and> \<not> truthy (p_error P) \<and> truthy (p_code P) \<and> truthy (p_state P)")
  case False
  then have "callback_effect redirectUri P now s = s \<or> callback_effect redirectUri P now s = s\<lparr>cb_crashed := True\<rparr>
      \<or> (\<exists>m. callback_effect redirectUri P now s = showError m s)"
    by (auto simp: callback_effect_def split: option.splits)
  then show ?thesis using inv by (auto intro: callback_inv_cong [OF inv])
next
  case True
  obtain res st where v: "validateOAuthState now (the (p_state P)) (cb_storage s) = (res, st)" by force
  have none: "getItem st STATE_STORAGE_KEY = None" by (rule validate_takes_state [OF v])
  show ?thesis
  proof (cases res)
    case None
    then show ?thesis using True inv none v by (simp add: callback_effect_def callback_inv_def)
  next
    case (Some w)
    have stored: "getItem (cb_storage s) STATE_STORAGE_KEY = getItem storage STATE_STORAGE_KEY"
      using inv validate_Some [OF v [unfolded Some]] by (auto simp: callback_inv_def)
    have p: "p_state P = Some (the (p_state P))" using True by (auto simp: truthy_def split: option.splits)
    show ?thesis
    proof (cases "sso_request_of redirectUri (currentUser (app (cb_session s))) (the (p_code P)) w")
      case (Inl m)
      then show ?thesis using True inv none v Some by (simp add: callback_effect_def callback_inv_def)
    next
      case (Inr r)
      have "\<exists>d. getItem storage STATE_STORAGE_KEY = Some (StateData d) \<and> request_allowed redirectUri P d now r"
        using request_of_allowed [OF v [unfolded Some] p _ Inr] True stored by simp
      then show ?thesis using True inv none v Some Inr by (simp add: callback_effect_def callback_inv_def Let_def)
    qed
  qed
qed

lemma safe_target:
  "startsWith (case getSafeRedirectPath r of None \<Rightarrow> HOME | Some p \<Rightarrow> p) (js ''/'')
   \<and> \<not> startsWith (case getSafeRedirectPath r of None \<Rightarrow> HOME | Some p \<Rightarrow> p) (js ''//'')"
  by (cases r) (auto simp: getSafeRedirectPath_def HOME_def truthy_def Let_def startsWith_def js_def)

lemma callback_run_inv: "callback_run U redirectUri P storage x s \<Longrightarrow> callback_inv redirectUri P storage s"
proof (induction rule: callback_run.induct)
  case opened
  then show ?case by (simp add: callback_inv_def callback_mount_def)
next
  case (effect s now)
  then show ?case by (simp add: effect_inv)
next
  case (returns s r)
  then show ?case using safe_target [of r] by (simp add: callback_inv_def callback_returns_def)
qed (erule callback_inv_cong; simp add: request_answered_def request_failed_def Let_def)+


definition stored_flow :: OAuthState where
  "stored_flow = \<lparr>oauth_state = js ''s'', identityProviderName = js ''idp'', flowMode = Some signin, timestamp = 0, returnUrl = Some (js ''/inbox''),
     linkingUserName = None, codeVerifier = Some (js ''v'')\<rparr>"

definition returning_params :: callback_params where
  "returning_params = \<lparr>p_error = None, p_error_description = None, p_error_uri = None, p_code = Some (js ''c''), p_state = Some (js ''s'')\<rparr>"

definition returning_session :: "(nat, (user_key \<times> User) list) session" where
  "returning_session = \<lparr>app = UNAUTHENTICATED_STATE, tokens = sample_tokens, users = [], calls = [], served = []\<rparr>"

definition returning_flow :: "(nat, (user_key \<times> User) list) callback" where
  "returning_flow = callback_effect (js ''/auth/callback'') returning_params 5
     (callback_mount returning_session [(STATE_STORAGE_KEY, StateData stored_flow)])"

lemma returning_run:
  "callback_run sample_users (js ''/auth/callback'') returning_params [(STATE_STORAGE_KEY, StateData stored_flow)] returning_session returning_flow"
  unfolding returning_flow_def by (intro callback_run.effect callback_run.opened)

lemma returning_sent:
  "cb_sent returning_flow = [(5, SignInRequest (js ''idp'') (js ''c'') (js ''/auth/callback'') (js ''v''))]"
  by (simp add: returning_flow_def callback_effect_def callback_mount_def returning_session_def UNAUTHENTICATED_STATE_def returning_params_def
      stored_flow_def validateOAuthState_def sso_request_of_def truthy_def js_def getItem_def STATE_EXPIRY_MS_def Let_def)


text \<open>A provider that describes its error with a percent sign takes the page down: the description is decoded twice.\<close>

lemma error_description_crashes:
  assumes "isInitialized (app x)"
  shows "cb_crashed (callback_effect redirectUri
      \<lparr>p_error = Some (js ''access_denied''), p_error_description = Some (js ''100% of seats used''), p_error_uri = None, p_code = None, p_state = None\<rparr>
      now (callback_mount x storage))"
  using assms by (simp add: callback_effect_def callback_mount_def provider_error_def truthy_def js_def readEscape_def hexVal_def isDigit_def)

section \<open>One submission at a time\<close>

definition form_inv :: "bool \<Rightarrow> ('v, 'c) form \<Rightarrow> bool" where
  "form_inv up s \<longleftrightarrow> signsUp s = up \<and> length (form_calls s) = (if form_loading s then 1 else 0)
     \<and> (form_loading s \<longrightarrow> username s \<noteq> [] \<and> password s \<noteq> [])
     \<and> (\<forall>q \<in> set (form_sent s). case q of
          CreateUser u c \<Rightarrow> up \<and> user_role u = ROLE_USER \<and> user_username u \<noteq> [] \<and> user_password u \<noteq> []
        | PasswordSignIn n p c \<Rightarrow> n \<noteq> [] \<and> p \<noteq> [])"

lemma single_call: "length ks = (if b then 1 else 0) \<Longrightarrow> k \<in> set ks \<Longrightarrow> remove1 k ks = [] \<and> b"
  by (cases ks) (auto split: if_splits)

lemma form_run_inv: "form_run show_int redirect up x s \<Longrightarrow> form_inv up s"
proof (induction rule: form_run.induct)
  case shown
  then show ?case by (simp add: form_inv_def form_mount_def)
next
  case (submitted s)
  then show ?case by (auto simp: form_inv_def handleFormSubmit_def newUser_def Let_def)
next
  case (created s)
  then show ?case using single_call [of "form_calls s" "form_loading s" CreatingUser] by (simp add: form_inv_def user_created_def)
next
  case (signed s now answer)
  then show ?case using single_call [of "form_calls s" "form_loading s" SigningIn] by (simp add: form_inv_def form_signed_in_def Let_def)
next
  case (ready s)
  then show ?case using single_call [of "form_calls s" "form_loading s" AwaitingSession]
    by (simp add: form_inv_def session_ready_def form_leaves_def form_finish_def Let_def)
next
  case (left s)
  then show ?case using single_call [of "form_calls s" "form_loading s" AwaitingInstance]
    by (simp add: form_inv_def instance_ready_def form_leaves_def form_finish_def)
next
  case (failed s k err)
  then show ?case using single_call [of "form_calls s" "form_loading s" k]
    by (auto simp: form_inv_def form_failed_def form_finish_def Let_def)
qed (simp_all add: form_inv_def)

text \<open>A form has at most one request under way, exactly while it shows that it is loading; it never sends an empty name or password,
  and a user who signs up never asks for another role than the plain one.\<close>

theorem form_submits_once:
  assumes "form_run show_int redirect up x s"
  shows "length (form_calls s) = (if form_loading s then 1 else 0)"
    and "CreateUser u c \<in> set (form_sent s) \<Longrightarrow> up \<and> user_role u = ROLE_USER"
    and "PasswordSignIn n p c \<in> set (form_sent s) \<Longrightarrow> n \<noteq> [] \<and> p \<noteq> []"
  using form_run_inv [OF assms] by (auto simp: form_inv_def)

section \<open>Waiting after a limit\<close>

lemma ceil_div_bounds: "0 < b \<Longrightarrow> a \<le> ceil_div a b * b \<and> ceil_div a b * b < a + b" for a b :: int
proof -
  assume "0 < b"
  then have "(a + b - 1) div b * b = (a + b - 1) - (a + b - 1) mod b" "0 \<le> (a + b - 1) mod b" "(a + b - 1) mod b < b"
    by (simp_all add: minus_mod_eq_div_mult)
  then show ?thesis by (simp add: ceil_div_def)
qed

text \<open>The wait that a message names is never shorter than the one the server asks for, and longer by little more than an hour at most.\<close>

lemma formatWait_suffices:
  "\<exists>n u. formatWait show_int seconds = show_int n @ js u
     \<and> (u, n) \<in> {(''s'', seconds)} \<union> {('' min'', m) |m. seconds \<le> 60 * m \<and> 60 * m < seconds + 60}
         \<union> {('' h'', h) |h. seconds \<le> 3600 * h \<and> 3600 * h < seconds + 3660}"
proof -
  let ?m = "ceil_div seconds 60"
  have m: "seconds \<le> 60 * ?m" "60 * ?m < seconds + 60" using ceil_div_bounds [of 60 seconds] by simp_all
  have h: "seconds \<le> 3600 * ceil_div ?m 60" "3600 * ceil_div ?m 60 < seconds + 3660" using m ceil_div_bounds [of 60 ?m] by simp_all
  consider "seconds < 60" | "\<not> seconds < 60" "?m < 60" | "\<not> seconds < 60" "\<not> ?m < 60" by blast
  then show ?thesis
  proof cases
    case 1
    then show ?thesis by (intro exI [of _ seconds] exI [of _ "''s''"]) (simp add: formatWait_def)
  next
    case 2
    then show ?thesis using m by (intro exI [of _ ?m] exI [of _ "'' min''"]) (simp add: formatWait_def Let_def)
  next
    case 3
    then show ?thesis using h by (intro exI [of _ "ceil_div ?m 60"] exI [of _ "'' h''"]) (simp add: formatWait_def Let_def)
  qed
qed

end
