(* ===== verification/Tag_Tree.thy ===== *)
theory Tag_Tree
  imports Calendar Memo_Filters
begin

text \<open>
  The tags of the sidebar (\<^verbatim>\<open>web/src/components/TagTree.tsx\<close>, \<^verbatim>\<open>web/src/components/AppSidebar/TagsSection.tsx\<close>): the tree of the nested
  tags, the branches that are open, and the filter that a click sets. The collation of \<open>localeCompare\<close> is an argument.
\<close>

section \<open>The tree\<close>

datatype TagTreeNode = TagTreeNode (node_key: jsstr) (node_text: jsstr) (amount: "nat option") (subTags: "TagTreeNode list")

definition slash :: code_unit where "slash = 47"

definition extendPath :: "jsstr \<Rightarrow> jsstr \<Rightarrow> jsstr" where
  "extendPath path segment = (if path \<noteq> [] then path @ [slash] @ segment else segment)"

text \<open>\<open>find\<close> and, when nothing is found, \<open>push\<close>: the node is then changed in place.\<close>

fun findOrPush :: "jsstr \<Rightarrow> TagTreeNode \<Rightarrow> (TagTreeNode \<Rightarrow> TagTreeNode) \<Rightarrow> TagTreeNode list \<Rightarrow> TagTreeNode list" where
  "findOrPush segment new change [] = [change new]"
| "findOrPush segment new change (n # ns) = (if node_key n = segment then change n # ns else n # findOrPush segment new change ns)"

text \<open>The loop over the segments of a tag; the parent's \<open>subTags\<close> are the list.\<close>

primrec addSegments :: "jsstr list \<Rightarrow> jsstr \<Rightarrow> nat \<Rightarrow> TagTreeNode list \<Rightarrow> TagTreeNode list" where
  "addSegments [] path n nodes = nodes"
| "addSegments (segment # segments) path n nodes =
     (let path' = extendPath path segment
      in findOrPush segment (TagTreeNode segment path' None [])
           (\<lambda>node. TagTreeNode (node_key node) (node_text node) (if segments = [] then Some n else amount node)
                     (addSegments segments path' n (subTags node)))
           nodes)"

definition addTag :: "jsstr \<times> nat \<Rightarrow> TagTreeNode list \<Rightarrow> TagTreeNode list" where
  "addTag t nodes = addSegments (split_on slash (fst t)) [] (snd t) nodes"

definition buildTagTree :: "(jsstr \<Rightarrow> jsstr \<Rightarrow> int) \<Rightarrow> (jsstr \<times> nat) list \<Rightarrow> TagTreeNode list" where
  "buildTagTree collate tagAmounts = fold addTag (sort_by (\<lambda>a b. collate (fst a) (fst b)) tagAmounts) []"

definition parentPathsOf :: "jsstr \<Rightarrow> jsstr list" where
  "parentPathsOf tag =
     (let segments = split_on slash tag
      in map (\<lambda>index. join [slash] (take (index + 1) segments)) [0..<length (butlast segments)])"

section \<open>Rows\<close>

text \<open>What \<open>TagItem\<close> renders: the row of a node, and the rows of its children while it is open. A row of a tag carries its count.\<close>

fun tagItem :: "jsstr list \<Rightarrow> TagTreeNode \<Rightarrow> (jsstr \<times> nat option) list" where
  "tagItem expanded (TagTreeNode k text n sub) =
     (text, n) # (if sub \<noteq> [] \<and> text \<in> set expanded then concat (map (tagItem expanded) sub) else [])"

definition tagRows :: "jsstr list \<Rightarrow> TagTreeNode list \<Rightarrow> (jsstr \<times> nat option) list" where
  "tagRows expanded nodes = concat (map (tagItem expanded) nodes)"

section \<open>Open branches\<close>

record TagTreeExpansion =
  expanded :: "jsstr list option"
  revealedFor :: "jsstr option"

definition expandedPaths :: "TagTreeExpansion option \<Rightarrow> jsstr list" where
  "expandedPaths current = (case current of None \<Rightarrow> [] | Some c \<Rightarrow> (case expanded c of None \<Rightarrow> [] | Some ps \<Rightarrow> ps))"

definition handleToggle :: "jsstr \<Rightarrow> TagTreeExpansion option \<Rightarrow> TagTreeExpansion option" where
  "handleToggle path current =
     (let paths = expandedPaths current
      in Some \<lparr>expanded = Some (if path \<in> set paths then filter (\<lambda>i. i \<noteq> path) paths else paths @ [path]),
               revealedFor = Option.bind current revealedFor\<rparr>)"

definition revealActiveTag :: "jsstr option \<Rightarrow> TagTreeExpansion option \<Rightarrow> TagTreeExpansion option" where
  "revealActiveTag activeTag current =
     (if \<not> truthy activeTag
      then (if Option.bind current revealedFor = None then current
            else map_option (\<lambda>c. c\<lparr>revealedFor := None\<rparr>) current)
      else if Option.bind current revealedFor = activeTag then current
      else let parents = parentPathsOf (the activeTag);
               paths = expandedPaths current;
               missing = list_ex (\<lambda>p. p \<notin> set paths) parents
           in Some \<lparr>expanded = Some (if missing then set_of (paths @ parents) else paths), revealedFor = activeTag\<rparr>)"

section \<open>The filter of a tag\<close>

definition tagSearch :: jsstr where "tagSearch = js ''tagSearch''"

definition activeTags :: "MemoFilter list \<Rightarrow> jsstr list" where
  "activeTags fs = set_of (map filter_value (filter (\<lambda>f. factor f = tagSearch) fs))"

definition activeTag :: "MemoFilter list \<Rightarrow> jsstr option" where
  "activeTag fs = (case activeTags fs of [] \<Rightarrow> None | t # ts \<Rightarrow> Some t)"

definition sortedTags :: "(jsstr \<Rightarrow> jsstr \<Rightarrow> int) \<Rightarrow> (jsstr \<times> nat) list \<Rightarrow> (jsstr \<times> nat) list" where
  "sortedTags collate counts =
     sort_by (\<lambda>a b. if snd a \<noteq> snd b then int (snd b) - int (snd a) else collate (fst a) (fst b)) counts"

definition handleTagClick :: "jsstr \<Rightarrow> MemoFilter list \<Rightarrow> MemoFilter list" where
  "handleTagClick tag fs =
     (if tag \<in> set (activeTags fs) then removeFilter (\<lambda>f. factor f = tagSearch \<and> filter_value f = tag) fs
      else addFilter \<lparr>factor = tagSearch, filter_value = tag\<rparr> (removeFilter (\<lambda>f. factor f = tagSearch) fs))"

section \<open>Looking a tag up\<close>

primrec tagAmount :: "jsstr list \<Rightarrow> TagTreeNode list \<Rightarrow> nat option" where
  "tagAmount [] nodes = None"
| "tagAmount (segment # segments) nodes =
     (case List.find (\<lambda>n. node_key n = segment) nodes of
        None \<Rightarrow> None
      | Some n \<Rightarrow> if segments = [] then amount n else tagAmount segments (subTags n))"

primrec pathText :: "jsstr \<Rightarrow> jsstr list \<Rightarrow> jsstr" where
  "pathText path [] = path"
| "pathText path (segment # segments) = pathText (extendPath path segment) segments"

fun node_ok :: "jsstr \<Rightarrow> TagTreeNode \<Rightarrow> bool" where
  "node_ok path (TagTreeNode k text n sub) \<longleftrightarrow> text = extendPath path k \<and> (\<forall>x \<in> set sub. node_ok text x)"

definition forest_ok :: "jsstr \<Rightarrow> TagTreeNode list \<Rightarrow> bool" where
  "forest_ok path nodes \<longleftrightarrow> (\<forall>x \<in> set nodes. node_ok path x)"

fun tagsOf :: "TagTreeNode \<Rightarrow> (jsstr \<times> nat) multiset" where
  "tagsOf (TagTreeNode k text n sub) = (case n of None \<Rightarrow> {#} | Some a \<Rightarrow> {#(text, a)#}) + \<Sum>\<^sub># (mset (map tagsOf sub))"

definition forestTags :: "TagTreeNode list \<Rightarrow> (jsstr \<times> nat) multiset" where
  "forestTags nodes = \<Sum>\<^sub># (mset (map tagsOf nodes))"

lemma forestTags_simps [simp]: "forestTags [] = {#}" "forestTags (n # ns) = tagsOf n + forestTags ns"
  by (simp_all add: forestTags_def)

lemma tagsOf_node: "tagsOf n = (case amount n of None \<Rightarrow> {#} | Some a \<Rightarrow> {#(node_text n, a)#}) + forestTags (subTags n)"
  by (cases n) (simp add: forestTags_def split: option.split)

lemma node_ok_node: "node_ok path n \<longleftrightarrow> node_text n = extendPath path (node_key n) \<and> forest_ok (node_text n) (subTags n)"
  by (cases n) (simp add: forest_ok_def)

lemma forest_ok_simps [simp]: "forest_ok path []" "forest_ok path (n # ns) \<longleftrightarrow> node_ok path n \<and> forest_ok path ns"
  by (simp_all add: forest_ok_def)

lemma find_findOrPush:
  assumes "node_key new = segment" "\<And>n. node_key (change n) = node_key n"
  shows "List.find (\<lambda>n. node_key n = s) (findOrPush segment new change nodes) =
     (if s = segment then Some (change (case List.find (\<lambda>n. node_key n = segment) nodes of None \<Rightarrow> new | Some n \<Rightarrow> n))
      else List.find (\<lambda>n. node_key n = s) nodes)"
  using assms by (induction nodes) auto

lemma findOrPush_ok:
  assumes "forest_ok path nodes" "node_ok path (change new)"
    "\<And>n. n \<in> set nodes \<Longrightarrow> node_key n = segment \<Longrightarrow> node_ok path (change n)"
  shows "forest_ok path (findOrPush segment new change nodes)"
  using assms by (induction nodes) auto

lemma findOrPush_tags:
  "List.find (\<lambda>n. node_key n = segment) nodes = None \<Longrightarrow>
     forestTags (findOrPush segment new change nodes) = forestTags nodes + tagsOf (change new)"
  "List.find (\<lambda>n. node_key n = segment) nodes = Some n \<Longrightarrow>
     forestTags (findOrPush segment new change nodes) + tagsOf n = forestTags nodes + tagsOf (change n)"
  by (induction nodes) (auto split: if_splits simp: add_ac)

lemma found_ok:
  assumes "forest_ok path nodes" "List.find (\<lambda>n. node_key n = segment) nodes = Some n"
  shows "node_ok path n" "node_key n = segment"
  using assms by (auto simp: find_Some_iff forest_ok_def)

section \<open>Adding a tag\<close>

lemma addSegments_amount:
  "segments \<noteq> [] \<Longrightarrow> tagAmount segments' (addSegments segments path n nodes) = (if segments' = segments then Some n else tagAmount segments' nodes)"
proof (induction segments arbitrary: path nodes segments')
  case (Cons s segments)
  have empty: "tagAmount ss [] = None" for ss by (cases ss) simp_all
  show ?case
  proof (cases segments')
    case (Cons s' ss)
    then show ?thesis using Cons.IH empty
      by (cases "segments = []") (auto simp: Let_def find_findOrPush split: option.splits)
  qed simp
qed simp

lemma addSegments_ok: "forest_ok path nodes \<Longrightarrow> forest_ok path (addSegments segments path n nodes)"
proof (induction segments arbitrary: path nodes)
  case (Cons s segments)
  let ?p = "extendPath path s"
  let ?change = "\<lambda>node. TagTreeNode (node_key node) (node_text node) (if segments = [] then Some n else amount node)
      (addSegments segments ?p n (subTags node))"
  have changed: "node_ok path (?change x)" if "node_key x = s" "node_ok path x" for x
    using that Cons.IH [of ?p "subTags x"] by (auto simp: node_ok_node)
  show ?case unfolding addSegments.simps Let_def
  proof (rule findOrPush_ok [OF Cons.prems])
    show "node_ok path (?change (TagTreeNode s ?p None []))" by (rule changed) (simp_all add: node_ok_node)
    show "node_ok path (?change x)" if "x \<in> set nodes" "node_key x = s" for x
      using that Cons.prems by (intro changed) (auto simp: forest_ok_def)
  qed
qed simp

lemma addSegments_tags:
  "forest_ok path nodes \<Longrightarrow> segments \<noteq> [] \<Longrightarrow> tagAmount segments nodes = None \<Longrightarrow>
   forestTags (addSegments segments path n nodes) = add_mset (pathText path segments, n) (forestTags nodes)"
proof (induction segments arbitrary: path nodes)
  case (Cons s segments)
  have empty: "tagAmount ss [] = None" for ss by (cases ss) simp_all
  let ?p = "extendPath path s"
  let ?change = "\<lambda>node. TagTreeNode (node_key node) (node_text node) (if segments = [] then Some n else amount node)
      (addSegments segments ?p n (subTags node))"
  have changed: "tagsOf (?change x) = add_mset (pathText path (s # segments), n) (tagsOf x)"
    if "node_text x = ?p" "forest_ok ?p (subTags x)" "segments = [] \<Longrightarrow> amount x = None" "segments \<noteq> [] \<Longrightarrow> tagAmount segments (subTags x) = None" for x
    using that Cons.IH [of ?p "subTags x"] by (cases "segments = []") (auto simp: tagsOf_node split: option.split)
  show ?case
  proof (cases "List.find (\<lambda>n. node_key n = s) nodes")
    case None
    then show ?thesis using changed [of "TagTreeNode s ?p None []"] empty by (simp add: Let_def findOrPush_tags(1))
  next
    case (Some x)
    then have "tagsOf (?change x) = add_mset (pathText path (s # segments), n) (tagsOf x)"
      using Cons.prems found_ok [OF Cons.prems(1) Some] by (intro changed) (auto simp: node_ok_node)
    then show ?thesis using findOrPush_tags(2) [OF Some, of "TagTreeNode s ?p None []" ?change] by (simp add: Let_def)
  qed
qed simp

section \<open>The tree lists the tags\<close>

lemma pathText_join:
  "path \<noteq> [] \<Longrightarrow> segments \<noteq> [] \<Longrightarrow> pathText path segments = path @ [slash] @ join [slash] segments"
proof (induction segments arbitrary: path)
  case (Cons s segments)
  then show ?case using Cons.IH [of "path @ slash # s"] by (cases segments) (simp_all add: extendPath_def)
qed simp

definition plainTag :: "jsstr \<Rightarrow> bool" where
  "plainTag tag \<longleftrightarrow> \<not> startsWith tag [slash]"

lemma first_segment: "plainTag tag \<Longrightarrow> split_on slash tag = s # ss \<Longrightarrow> s = [] \<Longrightarrow> ss = []"
  by (cases tag) (auto simp: plainTag_def startsWith_def split: if_splits list.splits)

lemma pathText_split: 
  assumes "plainTag tag"
  shows "pathText [] (split_on slash tag) = tag"
proof (cases "split_on slash tag")
  case (Cons s ss)
  have j: "join [slash] (s # ss) = tag" using join_split [of slash tag] Cons by simp
  show ?thesis
  proof (cases "ss = []")
    case True
    then show ?thesis using j Cons by (simp add: extendPath_def)
  next
    case False
    then have "s \<noteq> []" using first_segment [OF assms Cons] by blast
    then show ?thesis using j Cons False pathText_join [of s ss] by (cases ss) (simp_all add: extendPath_def)
  qed
qed simp

lemma fold_addTag:
  assumes "distinct (map fst ts)" "\<And>t. t \<in> set ts \<Longrightarrow> plainTag (fst t)" "forest_ok [] nodes"
    "\<And>t. t \<in> set ts \<Longrightarrow> tagAmount (split_on slash (fst t)) nodes = None"
  shows "forest_ok [] (fold addTag ts nodes) \<and> forestTags (fold addTag ts nodes) = mset ts + forestTags nodes
    \<and> (\<forall>ss. tagAmount ss (fold addTag ts nodes) =
         (case map_of (map (\<lambda>t. (split_on slash (fst t), snd t)) ts) ss of None \<Rightarrow> tagAmount ss nodes | Some n \<Rightarrow> Some n))"
  using assms
proof (induction ts arbitrary: nodes)
  case (Cons t ts)
  have inj: "split_on slash x = split_on slash y \<longleftrightarrow> x = y" for x y by (metis join_split)
  have new: "tagAmount ss (addTag t nodes) = (if ss = split_on slash (fst t) then Some (snd t) else tagAmount ss nodes)" for ss
    by (simp add: addTag_def addSegments_amount)
  have fresh: "tagAmount (split_on slash (fst x)) (addTag t nodes) = None" if "x \<in> set ts" for x
    using that Cons.prems(1,4) by (auto simp: new inj rev_image_eqI)
  have "forest_ok [] (addTag t nodes)" using Cons.prems(3) by (simp add: addTag_def addSegments_ok)
  note IH = Cons.IH [OF _ _ this fresh]
  have tags: "forestTags (addTag t nodes) = add_mset t (forestTags nodes)"
    using Cons.prems by (simp add: addTag_def addSegments_tags pathText_split)
  have "map_of (map (\<lambda>t. (split_on slash (fst t), snd t)) ts) (split_on slash (fst t)) = None"
    using Cons.prems(1) by (auto simp: map_of_eq_None_iff inj rev_image_eqI)
  then show ?case using IH Cons.prems(1,2) tags new by (auto split: option.splits)
qed simp

lemma tree_ok:
  assumes "distinct (map fst tagAmounts)" "\<And>t. t \<in> set tagAmounts \<Longrightarrow> plainTag (fst t)"
  shows "forest_ok [] (buildTagTree collate tagAmounts)" "forestTags (buildTagTree collate tagAmounts) = mset tagAmounts"
    "(tag, n) \<in> set tagAmounts \<Longrightarrow> tagAmount (split_on slash tag) (buildTagTree collate tagAmounts) = Some n"
proof -
  let ?ts = "sort_by (\<lambda>a b. collate (fst a) (fst b)) tagAmounts"
  have d: "distinct (map fst ?ts)"
  proof -
    have "mset (map fst ?ts) = mset (map fst tagAmounts)" by simp
    then show ?thesis using assms(1) mset_eq_imp_distinct_iff by blast
  qed
  have none: "tagAmount ss [] = None" for ss by (cases ss) simp_all
  have f: "forest_ok [] (fold addTag ?ts []) \<and> forestTags (fold addTag ?ts []) = mset ?ts + forestTags []
      \<and> (\<forall>ss. tagAmount ss (fold addTag ?ts []) =
           (case map_of (map (\<lambda>t. (split_on slash (fst t), snd t)) ?ts) ss of None \<Rightarrow> tagAmount ss [] | Some n \<Rightarrow> Some n))"
    by (rule fold_addTag [OF d]) (simp_all add: assms(2) none)
  show "forest_ok [] (buildTagTree collate tagAmounts)" "forestTags (buildTagTree collate tagAmounts) = mset tagAmounts"
    using f by (simp_all add: buildTagTree_def)
  assume "(tag, n) \<in> set tagAmounts"
  then have "(split_on slash tag, n) \<in> set (map (\<lambda>t. (split_on slash (fst t), snd t)) ?ts)" by force
  moreover have "distinct (map fst (map (\<lambda>t. (split_on slash (fst t), snd t)) ?ts))"
  proof -
    have "map fst (map (\<lambda>t. (split_on slash (fst t), snd t)) ?ts) = map (split_on slash) (map fst ?ts)" by simp
    moreover have "inj_on (split_on slash) A" for A by (metis inj_onI join_split)
    ultimately show ?thesis using d by (metis distinct_map)
  qed
  ultimately have "map_of (map (\<lambda>t. (split_on slash (fst t), snd t)) ?ts) (split_on slash tag) = Some n" by (simp only: map_of_is_SomeI)
  then show "tagAmount (split_on slash tag) (buildTagTree collate tagAmounts) = Some n" using f by (simp add: buildTagTree_def)
qed

text \<open>With every branch open the rows are the nodes of the tree, and the ones with a count are the tags.\<close>

definition tagsShown :: "(jsstr \<times> nat option) list \<Rightarrow> (jsstr \<times> nat) list" where
  "tagsShown rows = List.map_filter (\<lambda>(text, n). map_option (\<lambda>a. (text, a)) n) rows"

lemma tagsShown_simps [simp]: "tagsShown [] = []" "tagsShown ((t, n) # rs) = (case n of None \<Rightarrow> [] | Some a \<Rightarrow> [(t, a)]) @ tagsShown rs"
  "tagsShown (rs @ rs') = tagsShown rs @ tagsShown rs'"
  by (auto simp: tagsShown_def List.map_filter_def split: option.split)

lemma tagsShown_concat: "tagsShown (concat rss) = concat (map tagsShown rss)"
  by (induction rss) simp_all

fun branchesOf :: "TagTreeNode \<Rightarrow> jsstr list" where
  "branchesOf (TagTreeNode k text n sub) = (if sub = [] then [] else text # concat (map branchesOf sub))"

lemma tagItem_open: "set (branchesOf n) \<subseteq> set paths \<Longrightarrow> mset (tagsShown (tagItem paths n)) = tagsOf n"
proof (induction paths n rule: tagItem.induct)
  case (1 paths k label n sub)
  have sub: "mset (tagsShown (tagItem paths x)) = tagsOf x" if "x \<in> set sub" for x
    using that 1 by (cases "sub = []") auto
  have "mset (tagsShown (concat (map (tagItem paths) sub))) = \<Sum>\<^sub># (mset (map tagsOf sub))"
    using sub by (simp add: tagsShown_concat mset_concat o_def flip: sum_mset_sum_list cong: map_cong)
  moreover have "sub = [] \<or> label \<in> set paths" using "1.prems" by (auto split: if_splits)
  ultimately show ?case by (cases n) auto
qed

text \<open>For different tags of which none starts with a slash, the tree holds every tag with its count once and nothing else that
  counts as a tag: when all branches are open, the rows with a count are the tags, in whatever order they were given.\<close>

theorem tag_tree_lists_tags:
  assumes "distinct (map fst tagAmounts)" "\<forall>t \<in> set tagAmounts. plainTag (fst t)"
    "set (concat (map branchesOf (buildTagTree collate tagAmounts))) \<subseteq> set paths"
  shows "mset (tagsShown (tagRows paths (buildTagTree collate tagAmounts))) = mset tagAmounts"
proof -
  let ?tree = "buildTagTree collate tagAmounts"
  have "mset (tagsShown (tagItem paths n)) = tagsOf n" if "n \<in> set ?tree" for n
    by (rule tagItem_open) (use that assms(3) in auto)
  then have "mset (tagsShown (tagRows paths ?tree)) = forestTags ?tree"
    by (simp add: tagRows_def tagsShown_concat mset_concat forestTags_def o_def flip: sum_mset_sum_list cong: map_cong)
  then show ?thesis using tree_ok(2) [of tagAmounts collate] assms(1,2) by simp
qed

section \<open>The active tag is shown\<close>

lemma shown_when_open:
  assumes "forest_ok path nodes" "tagAmount segments nodes = Some n"
    "\<And>i. 0 < i \<Longrightarrow> i < length segments \<Longrightarrow> pathText path (take i segments) \<in> set paths"
  shows "(pathText path segments, Some n) \<in> set (tagRows paths nodes)"
  using assms
proof (induction segments arbitrary: path nodes)
  case (Cons s segments)
  obtain x where x: "List.find (\<lambda>n. node_key n = s) nodes = Some x" using Cons.prems(2) by (auto split: option.splits)
  then have mem: "x \<in> set nodes" and key: "node_key x = s" by (auto simp: find_Some_iff)
  have ok: "node_text x = extendPath path s" "forest_ok (extendPath path s) (subTags x)"
    using found_ok [OF Cons.prems(1) x] key by (auto simp: node_ok_node)
  show ?case
  proof (cases "segments = []")
    case True
    then have "(node_text x, Some n) \<in> set (tagItem paths x)" using Cons.prems(2) x by (cases x) simp
    then show ?thesis using True mem ok by (auto simp: tagRows_def)
  next
    case False
    have "tagAmount segments (subTags x) = Some n" using Cons.prems(2) x False by simp
    moreover have "pathText (extendPath path s) (take i segments) \<in> set paths" if "0 < i" "i < length segments" for i
      using Cons.prems(3) [of "Suc i"] that by simp
    ultimately have "(pathText (extendPath path s) segments, Some n) \<in> set (tagRows paths (subTags x))"
      by (rule Cons.IH [OF ok(2)])
    moreover have "node_text x \<in> set paths" using Cons.prems(3) [of 1] False ok by (cases segments) auto
    ultimately have "(pathText path (s # segments), Some n) \<in> set (tagItem paths x)"
      by (cases x) (auto simp: tagRows_def)
    then show ?thesis using mem by (auto simp: tagRows_def)
  qed
qed simp

lemma take_plain:
  assumes "plainTag tag" "0 < i" "i < length (split_on slash tag)"
  shows "pathText [] (take i (split_on slash tag)) = join [slash] (take i (split_on slash tag))"
proof -
  obtain s ss where t: "split_on slash tag = s # ss" by (cases "split_on slash tag") auto
  obtain k where k: "i = Suc k" using assms(2) by (cases i) auto
  have "ss \<noteq> []" using assms(3) t k by auto
  then have "s \<noteq> []" using first_segment [OF assms(1) t] by blast
  then have "pathText s (take k ss) = join [slash] (s # take k ss)" using pathText_join [of s "take k ss"]
    by (cases "take k ss") (auto simp: take_eq_Nil simp del: take_eq_Nil2)
  then show ?thesis using t k by (simp add: extendPath_def)
qed

lemma parents_open:
  assumes "truthy tag" "Option.bind current revealedFor \<noteq> tag"
  shows "set (parentPathsOf (the tag)) \<subseteq> set (expandedPaths (revealActiveTag tag current))"
proof -
  let ?paths = "expandedPaths current"
  have "expandedPaths (revealActiveTag tag current) =
      (if list_ex (\<lambda>p. p \<notin> set ?paths) (parentPathsOf (the tag)) then set_of (?paths @ parentPathsOf (the tag)) else ?paths)"
    using assms by (simp add: revealActiveTag_def Let_def expandedPaths_def [of "Some x" for x])
  then show ?thesis by (auto simp: list_ex_iff)
qed

text \<open>A tag that becomes the active one is shown in the tree with its count, whatever branches were closed; and a branch that is closed
  afterwards stays closed while the tag is the active one.\<close>

theorem active_tag_shown:
  assumes "distinct (map fst tagAmounts)" "\<forall>t \<in> set tagAmounts. plainTag (fst t)" "(tag, n) \<in> set tagAmounts" "tag \<noteq> []"
    "Option.bind current revealedFor \<noteq> Some tag"
  shows "(tag, Some n) \<in> set (tagRows (expandedPaths (revealActiveTag (Some tag) current)) (buildTagTree collate tagAmounts))
    \<and> (let closed = handleToggle path (revealActiveTag (Some tag) current) in revealActiveTag (Some tag) closed = closed)"
proof
  let ?segments = "split_on slash tag"
  have plain: "plainTag tag" using assms(2,3) by auto
  have "(pathText [] ?segments, Some n) \<in> set (tagRows (expandedPaths (revealActiveTag (Some tag) current)) (buildTagTree collate tagAmounts))"
  proof (rule shown_when_open)
    show "forest_ok [] (buildTagTree collate tagAmounts)" "tagAmount ?segments (buildTagTree collate tagAmounts) = Some n"
      using tree_ok [of tagAmounts] assms(1-3) by auto
    fix i assume i: "0 < i" "i < length ?segments"
    then have "join [slash] (take i ?segments) \<in> set (parentPathsOf tag)"
      by (auto simp: parentPathsOf_def Let_def image_iff intro!: bexI [of _ "i - 1"])
    then show "pathText [] (take i ?segments) \<in> set (expandedPaths (revealActiveTag (Some tag) current))"
      using parents_open [of "Some tag" current] assms(4,5) take_plain [OF plain i] by (auto simp: truthy_def)
  qed
  then show "(tag, Some n) \<in> set (tagRows (expandedPaths (revealActiveTag (Some tag) current)) (buildTagTree collate tagAmounts))"
    by (simp add: pathText_split [OF plain])
  show "let closed = handleToggle path (revealActiveTag (Some tag) current) in revealActiveTag (Some tag) closed = closed"
    using assms(4,5) by (simp add: handleToggle_def revealActiveTag_def truthy_def Let_def)
qed

section \<open>Clicking a tag\<close>

lemma set_activeTags: "set (activeTags fs) = filter_value ` {f \<in> set fs. factor f = tagSearch}"
  by (simp add: activeTags_def)

lemma FilterFactors_no_colon: "fac \<in> set FilterFactors \<Longrightarrow> 58 \<notin> set fac"
  by (auto simp: FilterFactors_def js_def)

text \<open>A click on a tag that is not active makes it the only active one; a click on an active tag removes it.\<close>

theorem click_selects_one_tag:
  assumes "\<forall>f \<in> set fs. factor f \<in> set FilterFactors"
  shows "activeTags (handleTagClick tag fs) = (if tag \<in> set (activeTags fs) then set_of (filter (\<lambda>t. t \<noteq> tag) (map filter_value (filter (\<lambda>f. factor f = tagSearch) fs))) else [tag])"
proof (cases "tag \<in> set (activeTags fs)")
  case True
  have "filter (\<lambda>f. factor f = tagSearch) (removeFilter (\<lambda>f. factor f = tagSearch \<and> filter_value f = tag) fs)
      = filter (\<lambda>f. filter_value f \<noteq> tag) (filter (\<lambda>f. factor f = tagSearch) fs)"
    by (auto simp: removeFilter_def intro: filter_cong)
  then show ?thesis using True by (simp add: handleTagClick_def activeTags_def filter_map o_def)
next
  case False
  let ?new = "\<lparr>factor = tagSearch, filter_value = tag\<rparr>"
  let ?rest = "removeFilter (\<lambda>f. factor f = tagSearch) fs"
  let ?result = "dedupe_from getMemoFilterKey {} (?rest @ [?new])"
  have rest: "factor f \<noteq> tagSearch \<and> 58 \<notin> set (factor f)" if "f \<in> set ?rest" for f
    using that assms FilterFactors_no_colon by (auto simp: removeFilter_def)
  have other: "getMemoFilterKey f \<noteq> getMemoFilterKey ?new" if "f \<in> set ?rest" for f
  proof
    assume "getMemoFilterKey f = getMemoFilterKey ?new"
    then have "takeWhile (\<lambda>c. c \<noteq> 58) (factor f @ 58 # filter_value f) = takeWhile (\<lambda>c. c \<noteq> 58) (tagSearch @ 58 # tag)"
      by (simp add: getMemoFilterKey_def js_def)
    moreover have "58 \<notin> set tagSearch" by (simp add: tagSearch_def js_def)
    ultimately show False using rest [OF that] by (auto simp: takeWhile_append split: if_splits)
  qed
  have "getMemoFilterKey ?new \<in> getMemoFilterKey ` set ?result" by (simp add: dedupe_from_keys)
  then obtain g where g: "g \<in> set ?result" "getMemoFilterKey g = getMemoFilterKey ?new" by force
  have sub: "set ?result \<subseteq> insert ?new (set ?rest)" using dedupe_from_set [of getMemoFilterKey "{}" "?rest @ [?new]"] by auto
  then have "g = ?new" using g other by auto
  then have "{f \<in> set ?result. factor f = tagSearch} = {?new}" using g(1) sub rest by auto
  then have "set (activeTags ?result) = {tag}" by (simp add: set_activeTags)
  moreover have "distinct (activeTags ?result)" by (simp add: activeTags_def)
  ultimately have "activeTags ?result = [tag]" by (cases "activeTags ?result"; cases "tl (activeTags ?result)") auto
  then show ?thesis using False by (simp add: handleTagClick_def addFilter_def)
qed

section \<open>Samples\<close>

definition sample_tags :: "(jsstr \<times> nat) list" where
  "sample_tags = [(js ''a/b'', 2), (js ''a'', 1), (js ''c/d/e'', 3)]"

lemma sample_tags_ok: "distinct (map fst sample_tags)" "\<forall>t \<in> set sample_tags. plainTag (fst t)"
  by (simp_all add: sample_tags_def js_def plainTag_def startsWith_def slash_def)

definition sample_tree :: "TagTreeNode list" where
  "sample_tree = buildTagTree (\<lambda>a b. 0) sample_tags"

theorem tag_tree_lists_tags_witness:
  "mset (tagsShown (tagRows (concat (map branchesOf sample_tree)) sample_tree)) = mset sample_tags"
  unfolding sample_tree_def by (rule tag_tree_lists_tags [OF sample_tags_ok]) simp

theorem active_tag_shown_witness:
  "(js ''c/d/e'', Some 3) \<in> set (tagRows (expandedPaths (revealActiveTag (Some (js ''c/d/e'')) None)) sample_tree)
   \<and> js ''c/d'' \<in> set (expandedPaths (revealActiveTag (Some (js ''c/d/e'')) None))"
proof
  show "(js ''c/d/e'', Some 3) \<in> set (tagRows (expandedPaths (revealActiveTag (Some (js ''c/d/e'')) None)) sample_tree)"
    using active_tag_shown [OF sample_tags_ok, of "js ''c/d/e''" 3 None] by (simp add: sample_tree_def sample_tags_def js_def)
  show "js ''c/d'' \<in> set (expandedPaths (revealActiveTag (Some (js ''c/d/e'')) None))"
    by (simp add: revealActiveTag_def expandedPaths_def parentPathsOf_def js_def slash_def truthy_def Let_def upt_rec)
qed

end
