(* ===== verification/Attachment_Library.thy ===== *)
theory Attachment_Library
  imports Calendar Memo_Filters Attachments
begin

text \<open>
  The page of all attachments (\<^verbatim>\<open>web/src/hooks/useAttachmentLibrary.ts\<close>, \<^verbatim>\<open>web/src/components/MemoMetadata/Attachment/attachmentHelpers.ts\<close>, the
  labels of \<^verbatim>\<open>web/src/utils/format.ts\<close>) and the files that a user picks (\<^verbatim>\<open>web/src/components/MemoEditor/hooks/useFileUpload.ts\<close>).

  Dates in the reader's language, the case mappings of the language, the label of a size and random identifiers are arguments.
\<close>

section \<open>Kinds of attachments\<close>

definition isImageAttachment :: "Attachment \<Rightarrow> bool" where
  "isImageAttachment a \<longleftrightarrow> getAttachmentType a = js ''image/*''"

definition isVideoAttachment :: "Attachment \<Rightarrow> bool" where
  "isVideoAttachment a \<longleftrightarrow> getAttachmentType a = js ''video/*''"

definition isAudioAttachment :: "Attachment \<Rightarrow> bool" where
  "isAudioAttachment a \<longleftrightarrow> getAttachmentType a = js ''audio/*''"

record AttachmentGroups =
  g_visual :: "Attachment list"
  g_audio :: "Attachment list"
  g_docs :: "Attachment list"

definition separateAttachments :: "Attachment list \<Rightarrow> AttachmentGroups" where
  "separateAttachments atts =
     foldl (\<lambda>groups a.
        if isImageAttachment a \<or> isVideoAttachment a then groups\<lparr>g_visual := g_visual groups @ [a]\<rparr>
        else if isAudioAttachment a then groups\<lparr>g_audio := g_audio groups @ [a]\<rparr>
        else groups\<lparr>g_docs := g_docs groups @ [a]\<rparr>)
      \<lparr>g_visual = [], g_audio = [], g_docs = []\<rparr> atts"

text \<open>A whole number of seconds; what is not finite or negative is shown as zero.\<close>

definition formatAudioTime :: "nat option \<Rightarrow> jsstr" where
  "formatAudioTime seconds =
     (case seconds of
        None \<Rightarrow> js ''0:00''
      | Some rounded \<Rightarrow>
          (let hours = rounded div 3600; minutes = (rounded mod 3600) div 60; secs = rounded mod 60
           in if hours > 0 then dec hours @ js '':'' @ padStart2 (dec minutes) @ js '':'' @ padStart2 (dec secs)
              else dec minutes @ js '':'' @ padStart2 (dec secs)))"

section \<open>Labels of types\<close>

record label_env =
  lower :: "jsstr \<Rightarrow> jsstr"
  upper :: "jsstr \<Rightarrow> jsstr"
  sizeLabel :: "nat \<Rightarrow> jsstr"

definition specialCases :: "(jsstr \<times> jsstr) list" where
  "specialCases =
     [(js ''application/pdf'', js ''PDF''), (js ''application/zip'', js ''ZIP''), (js ''application/x-zip-compressed'', js ''ZIP''),
      (js ''application/json'', js ''JSON''), (js ''application/xml'', js ''XML''), (js ''text/plain'', js ''TXT''), (js ''text/html'', js ''HTML''),
      (js ''text/css'', js ''CSS''), (js ''text/javascript'', js ''JS''), (js ''application/javascript'', js ''JS'')]"

definition imageTypes :: "(jsstr \<times> jsstr) list" where
  "imageTypes =
     [(js ''jpeg'', js ''JPEG''), (js ''jpg'', js ''JPEG''), (js ''png'', js ''PNG''), (js ''gif'', js ''GIF''), (js ''webp'', js ''WebP''),
      (js ''svg'', js ''SVG''), (js ''svg+xml'', js ''SVG''), (js ''bmp'', js ''BMP''), (js ''ico'', js ''ICO'')]"

definition videoTypes :: "(jsstr \<times> jsstr) list" where
  "videoTypes =
     [(js ''mp4'', js ''MP4''), (js ''webm'', js ''WEBM''), (js ''ogg'', js ''OGG''), (js ''avi'', js ''AVI''), (js ''mov'', js ''MOV''),
      (js ''quicktime'', js ''MOV'')]"

definition audioTypes :: "(jsstr \<times> jsstr) list" where
  "audioTypes = [(js ''mp3'', js ''MP3''), (js ''mpeg'', js ''MP3''), (js ''wav'', js ''WAV''), (js ''ogg'', js ''OGG''), (js ''webm'', js ''WEBM'')]"

definition subtypeLabel :: "label_env \<Rightarrow> (jsstr \<times> jsstr) list \<Rightarrow> jsstr \<Rightarrow> jsstr" where
  "subtypeLabel L types subtype = (case map_of types subtype of Some l \<Rightarrow> l | None \<Rightarrow> upper L subtype)"

definition getFileTypeLabel :: "label_env \<Rightarrow> jsstr \<Rightarrow> jsstr" where
  "getFileTypeLabel L mimeType =
     (if mimeType = [] then js ''File''
      else let normalized = trim (hd (split_on 59 (lower L mimeType)));
               parts = split_on 47 normalized;
               category = hd parts;
               subtype = (case tl parts of [] \<Rightarrow> [] | s # r \<Rightarrow> s)
           in case map_of specialCases normalized of
                Some l \<Rightarrow> l
              | None \<Rightarrow>
                  if category = js ''image'' then subtypeLabel L imageTypes subtype
                  else if category = js ''video'' then subtypeLabel L videoTypes subtype
                  else if category = js ''audio'' then subtypeLabel L audioTypes subtype
                  else if subtype \<noteq> [] then upper L subtype else upper L category)"

definition getAttachmentMetadata :: "label_env \<Rightarrow> Attachment \<Rightarrow> jsstr \<times> jsstr option" where
  "getAttachmentMetadata L a = (getFileTypeLabel L (att_type a), if att_size a \<noteq> 0 then Some (sizeLabel L (att_size a)) else None)"

section \<open>The library\<close>

record library_env = label_env +
  le_ms :: "timestamp \<Rightarrow> int"
  dateLabel :: "int \<Rightarrow> jsstr"
  monthKeyOf :: "int \<Rightarrow> jsstr"
  monthLabel :: "jsstr \<Rightarrow> jsstr"
  keyCompare :: "jsstr \<Rightarrow> jsstr \<Rightarrow> int"
  pageOrigin :: jsstr
  livePhotoLabel :: jsstr
  unknownDateLabel :: jsstr

record AttachmentLibraryStats =
  st_unused :: nat
  st_media :: nat
  st_documents :: nat
  st_audio :: nat

record AttachmentLibraryListItem =
  li_attachment :: Attachment
  li_createdAt :: "int option"
  li_createdLabel :: jsstr
  li_fileTypeLabel :: jsstr
  li_fileSizeLabel :: "jsstr option"
  li_memoName :: "jsstr option"
  li_sourceUrl :: jsstr

record AttachmentLibraryMediaItem =
  mi_item :: AttachmentVisualItem
  mi_primaryAttachment :: Attachment
  mi_createdAt :: "int option"
  mi_createdLabel :: jsstr
  mi_fileTypeLabel :: jsstr
  mi_memoName :: "jsstr option"

record AttachmentLibraryMonthGroup =
  mg_key :: jsstr
  mg_label :: jsstr
  mg_items :: "AttachmentLibraryMediaItem list"

definition sortByNewest :: "int option \<Rightarrow> int option \<Rightarrow> int" where
  "sortByNewest a b = (case b of None \<Rightarrow> 0 | Some t \<Rightarrow> t) - (case a of None \<Rightarrow> 0 | Some t \<Rightarrow> t)"

definition isLinkedAttachment :: "Attachment \<Rightarrow> bool" where
  "isLinkedAttachment a \<longleftrightarrow> truthy (att_memo a)"

definition isLibraryVisual :: "Attachment \<Rightarrow> bool" where
  "isLibraryVisual a \<longleftrightarrow> isImageAttachment a \<or> isVideoAttachment a \<or> isMotionAttachment a"

definition buildAttachmentLibraryStats :: "att_env \<Rightarrow> Attachment list \<Rightarrow> AttachmentLibraryStats" where
  "buildAttachmentLibraryStats E atts =
     (let linked = filter isLinkedAttachment atts; visual = filter isLibraryVisual linked
      in \<lparr>st_unused = length atts - length linked, st_media = countLogicalAttachmentItems E visual,
          st_documents = length (filter (\<lambda>a. \<not> isLibraryVisual a \<and> \<not> isAudioAttachment a) linked),
          st_audio = length (filter isAudioAttachment linked)\<rparr>)"

definition toCreatedAt :: "'z library_env_scheme \<Rightarrow> Attachment \<Rightarrow> int option" where
  "toCreatedAt L a = map_option (le_ms L) (att_createTime a)"

definition formatCreatedAt :: "'z library_env_scheme \<Rightarrow> int option \<Rightarrow> jsstr" where
  "formatCreatedAt L d = (case d of None \<Rightarrow> [8212] | Some t \<Rightarrow> dateLabel L t)"

definition toLibraryListItem :: "library_env \<Rightarrow> Attachment \<Rightarrow> AttachmentLibraryListItem" where
  "toLibraryListItem L a =
     (let (fileTypeLabel, fileSizeLabel) = getAttachmentMetadata (label_env.truncate L) a
      in \<lparr>li_attachment = a, li_createdAt = toCreatedAt L a, li_createdLabel = formatCreatedAt L (toCreatedAt L a),
          li_fileTypeLabel = fileTypeLabel, li_fileSizeLabel = fileSizeLabel, li_memoName = att_memo a,
          li_sourceUrl = (if att_externalLink a \<noteq> [] then att_externalLink a
             else pageOrigin L @ js ''/file/'' @ att_name a @ js ''/'' @ att_filename a)\<rparr>)"

definition toLibraryMediaItem :: "library_env \<Rightarrow> AttachmentVisualItem \<Rightarrow> AttachmentLibraryMediaItem" where
  "toLibraryMediaItem L i =
     (let primary = hd (vi_attachments i)
      in \<lparr>mi_item = i, mi_primaryAttachment = primary, mi_createdAt = toCreatedAt L primary, mi_createdLabel = formatCreatedAt L (toCreatedAt L primary),
          mi_fileTypeLabel = (if vi_kind i = motion_kind then livePhotoLabel L else fst (getAttachmentMetadata (label_env.truncate L) primary)),
          mi_memoName = att_memo primary\<rparr>)"

definition UNKNOWN :: jsstr where "UNKNOWN = js ''unknown''"

definition monthOf :: "library_env \<Rightarrow> AttachmentLibraryMediaItem \<Rightarrow> jsstr" where
  "monthOf L i = (case mi_createdAt i of None \<Rightarrow> UNKNOWN | Some t \<Rightarrow> monthKeyOf L t)"

definition month_compare :: "library_env \<Rightarrow> jsstr \<Rightarrow> jsstr \<Rightarrow> int" where
  "month_compare L a b = (if a = UNKNOWN then 1 else if b = UNKNOWN then -1 else keyCompare L b a)"

definition groupMediaByMonth :: "library_env \<Rightarrow> AttachmentLibraryMediaItem list \<Rightarrow> AttachmentLibraryMonthGroup list" where
  "groupMediaByMonth L items =
     (let groups = map (\<lambda>key. (key, filter (\<lambda>i. monthOf L i = key) items)) (set_of (map (monthOf L) items))
      in map (\<lambda>(key, grouped). \<lparr>mg_key = key, mg_label = (if key = UNKNOWN then unknownDateLabel L else monthLabel L key),
                mg_items = sort_by (\<lambda>a b. sortByNewest (mi_createdAt a) (mi_createdAt b)) grouped\<rparr>)
           (sort_by (\<lambda>a b. month_compare L (fst a) (fst b)) groups))"

record library =
  lb_mediaGroups :: "AttachmentLibraryMonthGroup list"
  lb_mediaItems :: "AttachmentLibraryMediaItem list"
  lb_documentItems :: "AttachmentLibraryListItem list"
  lb_audioItems :: "AttachmentLibraryListItem list"
  lb_unusedItems :: "AttachmentLibraryListItem list"
  lb_stats :: AttachmentLibraryStats

definition newestFirst :: "library_env \<Rightarrow> Attachment list \<Rightarrow> Attachment list" where
  "newestFirst L xs = sort_by (\<lambda>a b. sortByNewest (toCreatedAt L a) (toCreatedAt L b)) xs"

definition useAttachmentLibrary :: "library_env \<Rightarrow> att_env \<Rightarrow> Attachment list list \<Rightarrow> library" where
  "useAttachmentLibrary L E pages =
     (let atts = concat pages;
          linked = newestFirst L (filter isLinkedAttachment atts);
          unused = newestFirst L (filter (\<lambda>a. \<not> isLinkedAttachment a) atts);
          mediaItems = sort_by (\<lambda>a b. sortByNewest (mi_createdAt a) (mi_createdAt b))
            (map (toLibraryMediaItem L) (buildAttachmentVisualItems E (filter isLibraryVisual linked)));
          documentItems = map (toLibraryListItem L) (filter (\<lambda>a. \<not> isLibraryVisual a \<and> \<not> isAudioAttachment a) linked);
          audioItems = map (toLibraryListItem L) (filter isAudioAttachment linked)
      in \<lparr>lb_mediaGroups = groupMediaByMonth L mediaItems, lb_mediaItems = mediaItems, lb_documentItems = documentItems,
          lb_audioItems = audioItems, lb_unusedItems = map (toLibraryListItem L) unused,
          lb_stats = \<lparr>st_unused = length unused, st_media = length mediaItems, st_documents = length documentItems, st_audio = length audioItems\<rparr>\<rparr>)"

definition useAttachmentLibraryStats :: "att_env \<Rightarrow> Attachment list list \<Rightarrow> AttachmentLibraryStats" where
  "useAttachmentLibraryStats E pages = buildAttachmentLibraryStats E (concat pages)"

definition unusedRequestFilter :: "jsstr option \<Rightarrow> jsstr option" where
  "unusedRequestFilter f = combineCELFilters [Some (js ''memo_id == null''), f]"

definition useUnusedAttachmentLibrary :: "library_env \<Rightarrow> Attachment list list \<Rightarrow> AttachmentLibraryListItem list" where
  "useUnusedAttachmentLibrary L pages =
     sort_by (\<lambda>a b. sortByNewest (li_createdAt a) (li_createdAt b)) (map (toLibraryListItem L) (concat pages))"

section \<open>Picked files\<close>

definition normalizeFilenameStem :: "(jsstr \<Rightarrow> jsstr) \<Rightarrow> jsstr \<Rightarrow> jsstr" where
  "normalizeFilenameStem low filename =
     (let parts = split_on 46 filename
      in if length parts \<le> 1 then low filename else low (join [46] (butlast parts)))"

definition buildLocalMotionMedia :: "jsstr \<Rightarrow> MotionMediaRole \<Rightarrow> MotionMedia" where
  "buildLocalMotionMedia groupId role =
     \<lparr>mm_family = APPLE_LIVE_PHOTO, mm_role = role, mm_groupId = groupId, mm_presentationTimestampUs = 0, mm_hasEmbeddedVideo = False\<rparr>"

text \<open>\<open>uuid\<close> gives the identifier that is drawn when the first file of a stem is paired and kept for the others.\<close>

definition stemOf :: "(jsstr \<Rightarrow> jsstr) \<Rightarrow> LocalFile \<Rightarrow> jsstr" where
  "stemOf low f = normalizeFilenameStem low (file_name (lf_file f))"

definition pairFile :: "(jsstr \<Rightarrow> jsstr) \<Rightarrow> (jsstr \<Rightarrow> jsstr) \<Rightarrow> LocalFile list \<Rightarrow> LocalFile \<Rightarrow> LocalFile" where
  "pairFile low uuid picked f =
     (let stem = stemOf low f;
          group = filter (\<lambda>x. stemOf low x = stem) picked;
          images = filter (\<lambda>x. startsWith (file_type (lf_file x)) (js ''image/'')) group;
          videos = filter (\<lambda>x. startsWith (file_type (lf_file x)) (js ''video/'')) group
      in if length images \<noteq> 1 \<or> length videos \<noteq> 1 then f
         else let groupId = stem @ js ''-'' @ uuid stem
              in if lf_previewUrl f = lf_previewUrl (hd images) then f\<lparr>lf_motionMedia := Some (buildLocalMotionMedia groupId STILL)\<rparr>
                 else if lf_previewUrl f = lf_previewUrl (hd videos) then f\<lparr>lf_motionMedia := Some (buildLocalMotionMedia groupId VIDEO)\<rparr>
                 else f)"

definition pairAppleLivePhotoFiles :: "(jsstr \<Rightarrow> jsstr) \<Rightarrow> (jsstr \<Rightarrow> jsstr) \<Rightarrow> LocalFile list \<Rightarrow> LocalFile list" where
  "pairAppleLivePhotoFiles low uuid picked = map (pairFile low uuid picked) picked"

text \<open>\<open>blobUrls\<close> are the object URLs that \<open>createBlobUrl\<close> returns for the files, in order.\<close>

definition toLocalFiles ::
  "(jsstr \<Rightarrow> jsstr) \<Rightarrow> (jsstr \<Rightarrow> jsstr) \<Rightarrow> jsstr list \<Rightarrow> (File \<Rightarrow> MediaMetadata option) \<Rightarrow> bool \<Rightarrow> File list \<Rightarrow> LocalFile list" where
  "toLocalFiles low uuid blobUrls extract saveMediaMetadata files =
     pairAppleLivePhotoFiles low uuid
       (map (\<lambda>(f, url). \<lparr>lf_file = f, lf_previewUrl = url, lf_origin = Some upload_origin, lf_durationSeconds = None, lf_motionMedia = None,
                  lf_mediaMetadata = (if saveMediaMetadata then extract f else None)\<rparr>) (zip files blobUrls))"

section \<open>The counts agree\<close>

text \<open>The ids of the visual items of a list do not depend on its order.\<close>

definition groupIds :: "Attachment list \<Rightarrow> jsstr \<Rightarrow> jsstr set" where
  "groupIds atts g = (if livePair (groupOf atts g) = None then att_name ` set (groupOf atts g) else {g})"

definition ownIds :: "Attachment list \<Rightarrow> Attachment \<Rightarrow> jsstr set" where
  "ownIds atts a = (if isAndroidMotionContainer a then {att_name a}
     else case getAttachmentMotionGroupId a of None \<Rightarrow> {att_name a} | Some g \<Rightarrow> groupIds atts g)"

lemma step_ids:
  assumes "a \<in> set atts"
  shows "vi_id ` set (snd (visual_step E atts a consumed)) =
    (if \<not> isAndroidMotionContainer a \<and> (\<exists>g \<in> set consumed. getAttachmentMotionGroupId a = Some g) then {} else ownIds atts a)"
proof -
  have member: "a \<in> set (groupOf atts g)" if "getAttachmentMotionGroupId a = Some g" for g using that assms by (simp add: groupOf_def)
  have singles: "vi_id ` set (singles E a members) = att_name ` set members" if "a \<in> set members" for members
    using that by (auto simp: singles_def image_iff)
  show ?thesis
  proof (cases "getAttachmentMotionGroupId a")
    case None
    then show ?thesis by (simp add: visual_step_def ownIds_def)
  next
    case (Some g)
    then show ?thesis using singles [OF member [OF Some]] apple_id
      by (auto simp: visual_step_def ownIds_def groupIds_def split: option.split)
  qed
qed

lemma visualLoop_ids:
  assumes "set rest \<subseteq> set atts" "\<And>g. g \<in> set consumed \<Longrightarrow> groupIds atts g \<subseteq> vi_id ` set items"
  shows "vi_id ` set (visualLoop E atts rest consumed items) = vi_id ` set items \<union> (\<Union>a \<in> set rest. ownIds atts a)"
  using assms
proof (induction rest arbitrary: consumed items)
  case (Cons a rest)
  let ?step = "visual_step E atts a consumed"
  have a: "a \<in> set atts" using Cons.prems(1) by simp
  have ids: "vi_id ` set (items @ snd ?step) = vi_id ` set items \<union> ownIds atts a"
  proof (cases "\<not> isAndroidMotionContainer a \<and> (\<exists>g \<in> set consumed. getAttachmentMotionGroupId a = Some g)")
    case True
    then obtain g where "g \<in> set consumed" "ownIds atts a = groupIds atts g" by (auto simp: ownIds_def)
    then have "ownIds atts a \<subseteq> vi_id ` set items" using Cons.prems(2) by simp
    then show ?thesis using step_ids [OF a, of E consumed] True by auto
  next
    case False
    then show ?thesis unfolding set_append image_Un step_ids [OF a] by (simp only: if_False)
  qed
  have "groupIds atts g \<subseteq> vi_id ` set (items @ snd ?step)" if "g \<in> set (fst ?step)" for g
  proof (cases "g \<in> set consumed")
    case True
    then show ?thesis using Cons.prems(2) by auto
  next
    case False
    then have "\<not> isAndroidMotionContainer a" "getAttachmentMotionGroupId a = Some g"
      using that by (auto simp: visual_step_def split: if_splits option.splits)
    then show ?thesis unfolding ids by (simp add: ownIds_def)
  qed
  then have "vi_id ` set (visualLoop E atts rest (fst ?step) (items @ snd ?step)) = vi_id ` set (items @ snd ?step) \<union> (\<Union>a \<in> set rest. ownIds atts a)"
    using Cons.prems(1) by (intro Cons.IH) auto
  then show ?case by (simp only: visualLoop_step ids) auto
qed simp

lemma visual_items_length: "length (buildAttachmentVisualItems E atts) = card (\<Union>a \<in> set atts. ownIds atts a)"
proof -
  let ?items = "visualLoop E atts atts [] []"
  have "length (dedupeVisualItems ?items) = card (vi_id ` set (dedupeVisualItems ?items))"
    using dedupe_from_distinct [of vi_id "{}" ?items] by (metis dedupeVisualItems_def distinct_card length_map set_map)
  also have "vi_id ` set (dedupeVisualItems ?items) = vi_id ` set ?items" by (simp add: dedupeVisualItems_def dedupe_from_keys)
  also have "\<dots> = (\<Union>a \<in> set atts. ownIds atts a)" by (subst visualLoop_ids) simp_all
  finally show ?thesis by (simp add: buildAttachmentVisualItems_def)
qed

lemma livePair_None: "livePair xs = None \<longleftrightarrow>
    (\<forall>x \<in> set xs. \<not> isAppleLivePhotoStill x) \<or> (\<forall>x \<in> set xs. \<not> isAppleLivePhotoVideo x) \<or> length xs \<noteq> 2"
  by (auto simp: livePair_def find_None_iff split: option.splits) (metis find_SomeD)+

lemma ownIds_perm:
  assumes "mset xs = mset ys"
  shows "ownIds xs a = ownIds ys a"
proof -
  have g: "mset (groupOf xs g) = mset (groupOf ys g)" for g using assms by (simp add: groupOf_def)
  have "livePair (groupOf xs g) = None \<longleftrightarrow> livePair (groupOf ys g) = None" for g
    unfolding livePair_None mset_eq_setD [OF g] mset_eq_length [OF g] ..
  then have "groupIds xs g = groupIds ys g" for g unfolding groupIds_def mset_eq_setD [OF g] by simp
  then show ?thesis by (simp add: ownIds_def split: option.split)
qed

lemma visual_items_perm: "mset xs = mset ys \<Longrightarrow> length (buildAttachmentVisualItems E xs) = length (buildAttachmentVisualItems E ys)"
  unfolding visual_items_length using mset_eq_setD [of xs ys] ownIds_perm [of xs ys] by simp

lemma length_filter_sort [simp]: "length (filter P (sort_by cmp xs)) = length (filter P xs)"
  by (metis mset_filter mset_sort_by size_mset)

lemma length_sort_by [simp]: "length (sort_by cmp xs) = length xs"
  by (metis mset_sort_by size_mset)

lemma count_visual: "countLogicalAttachmentItems E (filter isLibraryVisual xs) = length (buildAttachmentVisualItems E (filter isLibraryVisual xs))"
proof -
  have "(\<lambda>a. getAttachmentType a = js ''image/*'' \<or> getAttachmentType a = js ''video/*'' \<or> isMotionAttachment a) = isLibraryVisual"
    by (auto simp: isLibraryVisual_def isImageAttachment_def isVideoAttachment_def)
  then have v: "filter (\<lambda>a. getAttachmentType a = js ''image/*'' \<or> getAttachmentType a = js ''video/*'' \<or> isMotionAttachment a)
      (filter isLibraryVisual xs) = filter isLibraryVisual xs"
    by simp
  have "filter (\<lambda>a. att_name a \<notin> set (set_of (map att_name (filter isLibraryVisual xs)))) (filter isLibraryVisual xs) = []"
    by (simp add: filter_empty_conv)
  then show ?thesis by (simp only: countLogicalAttachmentItems_def v Let_def list.size add_0_right)
qed

text \<open>C36. The counts on the tabs, taken from the list of all attachments as it comes, are the numbers of items that the page shows
  once every page is loaded, where live photos are paired after the attachments are ordered by date.\<close>

theorem library_counts_agree: "lb_stats (useAttachmentLibrary L E pages) = useAttachmentLibraryStats E pages"
proof -
  let ?linked = "filter isLinkedAttachment (concat pages)"
  have media: "length (buildAttachmentVisualItems E (filter isLibraryVisual (newestFirst L ?linked)))
      = countLogicalAttachmentItems E (filter isLibraryVisual ?linked)"
    unfolding count_visual by (rule visual_items_perm) (simp only: newestFirst_def mset_filter mset_sort_by)
  have unused: "length (filter (\<lambda>a. \<not> isLinkedAttachment a) xs) = length xs - length (filter isLinkedAttachment xs)" for xs
    using sum_length_filter_compl [of isLinkedAttachment xs] by simp
  show ?thesis
    by (simp add: useAttachmentLibrary_def useAttachmentLibraryStats_def buildAttachmentLibraryStats_def Let_def media unused [of "concat pages"] media [unfolded newestFirst_def] newestFirst_def del: filter_filter)
qed

section \<open>Months\<close>

lemma partition_mset:
  assumes "distinct ks" "\<And>x. x \<in> set xs \<Longrightarrow> f x \<in> set ks"
  shows "mset (concat (map (\<lambda>k. filter (\<lambda>x. f x = k) xs) ks)) = mset xs"
  using assms
proof (induction ks arbitrary: xs)
  case (Cons k ks)
  let ?rest = "filter (\<lambda>x. f x \<noteq> k) xs"
  have "mset (concat (map (\<lambda>k. filter (\<lambda>x. f x = k) ?rest) ks)) = mset ?rest" by (rule Cons.IH) (use Cons.prems in auto)
  moreover have same: "map (\<lambda>j. filter (\<lambda>x. f x = j) ?rest) ks = map (\<lambda>j. filter (\<lambda>x. f x = j) xs) ks"
    using Cons.prems(1) by (auto simp: filter_filter intro!: filter_cong)
  ultimately have "mset (concat (map (\<lambda>j. filter (\<lambda>x. f x = j) xs) ks)) = mset ?rest" by (simp only: same)
  then show ?case using multiset_partition [of "mset xs" "\<lambda>x. f x = k"] by simp
next
  case Nil
  then show ?case by (cases xs) auto
qed

lemma mset_concat_map: "mset (concat (map g xs)) = \<Sum>\<^sub># (image_mset (\<lambda>x. mset (g x)) (mset xs))"
  by (induction xs) simp_all

text \<open>Every media item is in the group of its month, and the groups hold the items once each; a group of items without a date comes
  under its own heading.\<close>

theorem months_partition_media:
  "mset (concat (map mg_items (groupMediaByMonth L items))) = mset items
   \<and> distinct (map mg_key (groupMediaByMonth L items))
   \<and> (\<forall>g \<in> set (groupMediaByMonth L items). mg_items g \<noteq> [] \<and> (\<forall>i \<in> set (mg_items g). monthOf L i = mg_key g))"
proof -
  let ?keys = "set_of (map (monthOf L) items)"
  let ?groups = "map (\<lambda>key. (key, filter (\<lambda>i. monthOf L i = key) items)) ?keys"
  let ?sorted = "sort_by (\<lambda>a b. month_compare L (fst a) (fst b)) ?groups"
  have groups: "mset (concat (map snd ?groups)) = mset items"
    using partition_mset [of ?keys items "monthOf L"] by (simp add: o_def)
  have "mset (concat (map mg_items (groupMediaByMonth L items))) = mset (concat (map snd ?sorted))"
    by (simp add: groupMediaByMonth_def mset_concat_map Let_def o_def case_prod_beta multiset.map_comp)
  also have "\<dots> = mset (concat (map snd ?groups))" unfolding mset_concat_map by simp
  finally have 1: "mset (concat (map mg_items (groupMediaByMonth L items))) = mset items" using groups by simp
  have "map mg_key (groupMediaByMonth L items) = map fst ?sorted" by (simp add: groupMediaByMonth_def Let_def case_prod_beta)
  moreover have "mset (map fst ?sorted) = mset ?keys" by (simp add: multiset.map_comp o_def)
  ultimately have "mset (map mg_key (groupMediaByMonth L items)) = mset ?keys" by (simp only:)
  then have 2: "distinct (map mg_key (groupMediaByMonth L items))" using mset_eq_imp_distinct_iff [of _ ?keys] by simp
  have "mg_items g \<noteq> [] \<and> (\<forall>i \<in> set (mg_items g). monthOf L i = mg_key g)" if g: "g \<in> set (groupMediaByMonth L items)" for g
  proof -
    obtain key where key: "key \<in> monthOf L ` set items" "mg_key g = key" "set (mg_items g) = set (filter (\<lambda>i. monthOf L i = key) items)"
      using g by (fastforce simp: groupMediaByMonth_def Let_def)
    then have "set (mg_items g) \<noteq> {}" by auto
    then show ?thesis using key by auto
  qed
  with 1 2 show ?thesis by blast
qed

section \<open>Live photos\<close>

lemma groupId_inject:
  assumes "\<forall>s. length (uuid s) = 36" "s @ js ''-'' @ uuid s = t @ js ''-'' @ uuid t"
  shows "s = t"
proof -
  have "length s = length t" using arg_cong [OF assms(2), of length] assms(1) by simp
  then show ?thesis using assms(2) by simp
qed

lemma single_eq: "length xs = 1 \<Longrightarrow> x \<in> set xs \<Longrightarrow> xs = [x]"
  by (cases xs) auto

definition live_pair :: "(jsstr \<Rightarrow> jsstr) \<Rightarrow> LocalFile list \<Rightarrow> jsstr \<Rightarrow> LocalFile \<Rightarrow> LocalFile \<Rightarrow> bool" where
  "live_pair low picked stem i v \<longleftrightarrow>
     filter (\<lambda>x. startsWith (file_type (lf_file x)) (js ''image/'')) (filter (\<lambda>x. stemOf low x = stem) picked) = [i]
     \<and> filter (\<lambda>x. startsWith (file_type (lf_file x)) (js ''video/'')) (filter (\<lambda>x. stemOf low x = stem) picked) = [v]"

lemma live_pair_members:
  assumes "live_pair low picked stem i v"
  shows "i \<in> set picked" "v \<in> set picked" "i \<noteq> v" "stemOf low i = stem" "stemOf low v = stem"
    "startsWith (file_type (lf_file i)) (js ''image/'')" "startsWith (file_type (lf_file v)) (js ''video/'')"
proof -
  have "i \<in> set (filter (\<lambda>x. startsWith (file_type (lf_file x)) (js ''image/'')) (filter (\<lambda>x. stemOf low x = stem) picked))"
    "v \<in> set (filter (\<lambda>x. startsWith (file_type (lf_file x)) (js ''video/'')) (filter (\<lambda>x. stemOf low x = stem) picked))"
    using assms by (simp_all add: live_pair_def)
  then show 1: "i \<in> set picked" "v \<in> set picked" "stemOf low i = stem" "stemOf low v = stem"
    "startsWith (file_type (lf_file i)) (js ''image/'')" "startsWith (file_type (lf_file v)) (js ''video/'')" by auto
  then show "i \<noteq> v" by (auto simp: startsWith_def js_def take_Cons' split: if_splits)
qed

definition liveMedia :: "(jsstr \<Rightarrow> jsstr) \<Rightarrow> jsstr \<Rightarrow> MotionMediaRole \<Rightarrow> MotionMedia option" where
  "liveMedia uuid stem role = Some (buildLocalMotionMedia (stem @ js ''-'' @ uuid stem) role)"

lemma pairFile_unpaired: "(\<And>i v. \<not> live_pair low picked (stemOf low f) i v) \<Longrightarrow> pairFile low uuid picked f = f"
  by (auto simp: pairFile_def live_pair_def Let_def length_Suc_conv)

lemma pairFile_paired:
  assumes "distinct (map lf_previewUrl picked)" "f \<in> set picked" "live_pair low picked (stemOf low f) i v"
  shows "lf_motionMedia (pairFile low uuid picked f) =
    (if f = i then liveMedia uuid (stemOf low f) STILL else if f = v then liveMedia uuid (stemOf low f) VIDEO else lf_motionMedia f)"
proof -
  have url: "x = y" if "x \<in> set picked" "y \<in> set picked" "lf_previewUrl x = lf_previewUrl y" for x y
    using assms(1) that by (auto simp: distinct_map inj_on_def)
  have eq: "lf_previewUrl f = lf_previewUrl i \<longleftrightarrow> f = i" "lf_previewUrl f = lf_previewUrl v \<longleftrightarrow> f = v"
    using url assms(2) live_pair_members(1,2) [OF assms(3)] by blast+
  show ?thesis using assms(3) unfolding pairFile_def live_pair_def Let_def liveMedia_def by (simp add: eq)
qed

lemma paired_media:
  assumes "distinct (map lf_previewUrl picked)" "\<forall>f \<in> set picked. lf_motionMedia f = None" "f \<in> set picked"
    "lf_motionMedia (pairFile low uuid picked f) \<noteq> None"
  shows "\<exists>i v role. live_pair low picked (stemOf low f) i v \<and> f \<in> {i, v} \<and> lf_motionMedia (pairFile low uuid picked f) = liveMedia uuid (stemOf low f) role"
proof -
  obtain i v where iv: "live_pair low picked (stemOf low f) i v"
    using pairFile_unpaired [of low picked f uuid] assms(2-4) by metis
  have "f \<in> {i, v}" using pairFile_paired [OF assms(1,3) iv, of uuid] assms(2-4) by (cases "f = i"; cases "f = v") simp_all
  moreover have "lf_motionMedia (pairFile low uuid picked f) = liveMedia uuid (stemOf low f) (if f = i then STILL else VIDEO)"
    using pairFile_paired [OF assms(1,3) iv, of uuid] calculation by auto
  ultimately show ?thesis using iv by (intro exI [of _ i] exI [of _ v] exI [of _ "if f = i then STILL else VIDEO"]) blast
qed

lemma group_of_media: "lf_motionMedia x = liveMedia uuid stem role \<Longrightarrow> localGroupId x = Some (stem @ js ''-'' @ uuid stem)"
  by (simp add: localGroupId_def liveMedia_def buildLocalMotionMedia_def js_def)

lemma paired_group:
  assumes "distinct (map lf_previewUrl picked)" "\<forall>f \<in> set picked. lf_motionMedia f = None" "\<forall>s. length (uuid s) = 36"
    "live_pair low picked stem i v" "f \<in> set picked"
  shows "localGroupId (pairFile low uuid picked f) = Some (stem @ js ''-'' @ uuid stem) \<longleftrightarrow> f \<in> {i, v}"
proof
  assume g: "localGroupId (pairFile low uuid picked f) = Some (stem @ js ''-'' @ uuid stem)"
  then have "lf_motionMedia (pairFile low uuid picked f) \<noteq> None" by (auto simp: localGroupId_def split: option.splits)
  from paired_media [OF assms(1,2,5) this] obtain i' v' role where iv: "live_pair low picked (stemOf low f) i' v'" "f \<in> {i', v'}"
    "lf_motionMedia (pairFile low uuid picked f) = liveMedia uuid (stemOf low f) role" by blast
  have "stemOf low f @ js ''-'' @ uuid (stemOf low f) = stem @ js ''-'' @ uuid stem" using group_of_media [OF iv(3)] g by (simp only: option.inject)
  from groupId_inject [OF assms(3) this] have "stemOf low f = stem" .
  then have "i' = i \<and> v' = v" using iv(1) assms(4) by (simp add: live_pair_def)
  then show "f \<in> {i, v}" using iv(2) by blast
next
  assume f: "f \<in> {i, v}"
  then have stem: "stemOf low f = stem" using live_pair_members(4,5) [OF assms(4)] by auto
  have "f = i \<or> f = v" using f by simp
  then have "lf_motionMedia (pairFile low uuid picked f) = liveMedia uuid stem (if f = i then STILL else VIDEO)"
    using pairFile_paired [OF assms(1,5), of low i v uuid] assms(4) unfolding stem by (elim disjE) (simp_all split: if_split)
  then show "localGroupId (pairFile low uuid picked f) = Some (stem @ js ''-'' @ uuid stem)" by (rule group_of_media)
qed

lemma pairFile_file: "lf_file (pairFile low uuid picked f) = lf_file f" "lf_previewUrl (pairFile low uuid picked f) = lf_previewUrl f"
  by (simp_all add: pairFile_def Let_def)

text \<open>Picking files keeps every file in its place, and a file becomes part of a live photo only together with one other: the group that
  it is given holds exactly one still image and one video, picked under the same name.\<close>

theorem live_photos_paired:
  assumes "distinct (map lf_previewUrl picked)" "\<forall>f \<in> set picked. lf_motionMedia f = None" "\<forall>s. length (uuid s) = 36"
    "x \<in> set (pairAppleLivePhotoFiles low uuid picked)" "localGroupId x = Some g"
  shows "map lf_file (pairAppleLivePhotoFiles low uuid picked) = map lf_file picked
    \<and> (\<exists>still video. mset (filter (\<lambda>y. localGroupId y = Some g) (pairAppleLivePhotoFiles low uuid picked)) = {#still, video#}
        \<and> isLivePhoto STILL (lf_motionMedia still) \<and> isLivePhoto VIDEO (lf_motionMedia video)
        \<and> startsWith (file_type (lf_file still)) (js ''image/'') \<and> startsWith (file_type (lf_file video)) (js ''video/'')
        \<and> stemOf low still = stemOf low video)"
proof
  let ?pf = "pairFile low uuid picked"
  show "map lf_file (pairAppleLivePhotoFiles low uuid picked) = map lf_file picked"
    by (simp add: pairAppleLivePhotoFiles_def pairFile_file o_def)
  obtain f where f: "f \<in> set picked" "x = ?pf f" using assms(4) by (auto simp: pairAppleLivePhotoFiles_def)
  have "lf_motionMedia (?pf f) \<noteq> None" using assms(5) f by (auto simp: localGroupId_def split: option.splits)
  from paired_media [OF assms(1,2) f(1) this] obtain i v role where iv: "live_pair low picked (stemOf low f) i v" "f \<in> {i, v}"
    "lf_motionMedia (?pf f) = liveMedia uuid (stemOf low f) role" by blast
  note m = live_pair_members [OF iv(1)]
  have g: "g = stemOf low f @ js ''-'' @ uuid (stemOf low f)" using group_of_media [OF iv(3)] assms(5) f(2) by simp
  have "filter (\<lambda>y. localGroupId (?pf y) = Some g) picked = filter (\<lambda>y. y \<in> {i, v}) picked"
    using paired_group [OF assms(1-3) iv(1)] g by (intro filter_cong) auto
  moreover have "mset (filter (\<lambda>y. y \<in> {i, v}) picked) = {#i, v#}"
  proof -
    have "distinct (filter (\<lambda>y. y \<in> {i, v}) picked)" using assms(1) by (simp add: distinct_map)
    moreover have "set (filter (\<lambda>y. y \<in> {i, v}) picked) = set [i, v]" using m(1,2) by auto
    ultimately have "mset (filter (\<lambda>y. y \<in> {i, v}) picked) = mset [i, v]" using m(3) by (subst set_eq_iff_mset_eq_distinct [symmetric]) simp_all
    then show ?thesis by simp
  qed
  ultimately have "mset (filter (\<lambda>y. localGroupId y = Some g) (pairAppleLivePhotoFiles low uuid picked)) = {#?pf i, ?pf v#}"
    by (simp add: pairAppleLivePhotoFiles_def filter_map o_def)
  moreover have "lf_motionMedia (?pf i) = liveMedia uuid (stemOf low f) STILL" "lf_motionMedia (?pf v) = liveMedia uuid (stemOf low f) VIDEO"
    using pairFile_paired [OF assms(1) m(1), of low i v uuid] pairFile_paired [OF assms(1) m(2), of low i v uuid] iv(1) m(3-5) by simp_all
  ultimately show "\<exists>still video. mset (filter (\<lambda>y. localGroupId y = Some g) (pairAppleLivePhotoFiles low uuid picked)) = {#still, video#}
        \<and> isLivePhoto STILL (lf_motionMedia still) \<and> isLivePhoto VIDEO (lf_motionMedia video)
        \<and> startsWith (file_type (lf_file still)) (js ''image/'') \<and> startsWith (file_type (lf_file video)) (js ''video/'')
        \<and> stemOf low still = stemOf low video"
    using m by (intro exI [of _ "?pf i"] exI [of _ "?pf v"]) (simp add: pairFile_file isLivePhoto_def liveMedia_def buildLocalMotionMedia_def stemOf_def)
qed

section \<open>Groups of a memo\<close>

lemma separate_filters:
  "separateAttachments atts =
     \<lparr>g_visual = filter (\<lambda>a. isImageAttachment a \<or> isVideoAttachment a) atts,
      g_audio = filter isAudioAttachment atts,
      g_docs = filter (\<lambda>a. \<not> isImageAttachment a \<and> \<not> isVideoAttachment a \<and> \<not> isAudioAttachment a) atts\<rparr>"
proof (induction atts rule: rev_induct)
  case (snoc a atts)
  have "isAudioAttachment a \<Longrightarrow> \<not> isImageAttachment a \<and> \<not> isVideoAttachment a"
    by (auto simp: isAudioAttachment_def isImageAttachment_def isVideoAttachment_def js_def)
  then show ?case using snoc by (auto simp: separateAttachments_def)
qed (simp add: separateAttachments_def)

end
