(* ===== verification/Media_Metadata.thy ===== *)
theory Media_Metadata
  imports Complex_Main JS_URI Attachments
begin

text \<open>
  What the editor reads from a picked photo or video before it uploads it
  (\<^verbatim>\<open>web/src/components/MemoEditor/services/mediaMetadataService.ts\<close>). The EXIF parser, the image decoder and the video element are arguments or
  events; their numbers are rational, and the sum of degrees, minutes and seconds, which the code rounds, is an argument.
\<close>

section \<open>Values\<close>

text \<open>A value of a tag: a finite number, a number that is not finite, a text, an array, or anything else.\<close>

datatype exif_value = Finite rat | NonFinite | Text_value jsstr | Items "exif_value list" | Other_value

type_synonym exif_tags = "(string \<times> exif_value) list"

definition MAX_METADATA_STRING_BYTES :: nat where "MAX_METADATA_STRING_BYTES = 256"
definition MAX_SAFE_INTEGER :: rat where "MAX_SAFE_INTEGER = 9007199254740991"

fun normalizeFiniteNumber :: "exif_value \<Rightarrow> rat option" where
  "normalizeFiniteNumber (Finite n) = Some n"
| "normalizeFiniteNumber (Items (v # vs)) = normalizeFiniteNumber v"
| "normalizeFiniteNumber _ = None"

definition finiteNumber :: "exif_value option \<Rightarrow> rat option" where
  "finiteNumber v = Option.bind v normalizeFiniteNumber"

definition normalizePositiveNumber :: "exif_value option \<Rightarrow> rat option" where
  "normalizePositiveNumber v = (case finiteNumber v of None \<Rightarrow> None | Some n \<Rightarrow> if 0 < n then Some n else None)"

definition is_integer :: "rat \<Rightarrow> bool" where
  "is_integer n \<longleftrightarrow> of_int \<lfloor>n\<rfloor> = n"

definition normalizeInteger :: "exif_value option \<Rightarrow> rat \<Rightarrow> rat \<Rightarrow> int option" where
  "normalizeInteger v minimum maximum =
     (case finiteNumber v of
        None \<Rightarrow> None
      | Some n \<Rightarrow> if is_integer n \<and> minimum \<le> n \<and> n \<le> maximum then Some \<lfloor>n\<rfloor> else None)"

definition normalizeDimensions :: "rat \<Rightarrow> rat \<Rightarrow> (int \<times> int) option" where
  "normalizeDimensions width height =
     (if is_integer width \<and> 0 < width \<and> is_integer height \<and> 0 < height then Some (\<lfloor>width\<rfloor>, \<lfloor>height\<rfloor>) else None)"

text \<open>\<open>value.replace(/[\0\s]+$/g, "").trimStart()\<close>.\<close>

definition cleanExifString :: "jsstr \<Rightarrow> jsstr" where
  "cleanExifString s = dropWhile isWhiteSpace (rev (dropWhile (\<lambda>c. c = 0 \<or> isWhiteSpace c) (rev s)))"

definition isControl :: "code_unit \<Rightarrow> bool" where
  "isControl c \<longleftrightarrow> c < 32 \<or> 127 \<le> c \<and> c < 160"

definition byteLength :: "jsstr \<Rightarrow> nat" where
  "byteLength s = length (concat (map utf8 (codePoints s)))"

definition normalizeMetadataString :: "exif_value option \<Rightarrow> jsstr option" where
  "normalizeMetadataString v =
     (case v of
        Some (Text_value s) \<Rightarrow>
          (let normalized = trim (filter (\<lambda>c. \<not> isControl c) s)
           in if normalized = [] \<or> length normalized > MAX_METADATA_STRING_BYTES then None
              else if byteLength normalized > MAX_METADATA_STRING_BYTES then None else Some normalized)
      | _ \<Rightarrow> None)"

section \<open>Capture time\<close>

record MediaCaptureTime =
  localDateTime :: jsstr
  utcOffset :: "jsstr option"

definition digits :: "jsstr \<Rightarrow> bool" where
  "digits s \<longleftrightarrow> list_all isDigit s"

definition number :: "jsstr \<Rightarrow> nat" where
  "number s = foldl (\<lambda>n c. 10 * n + (c - 48)) 0 s"

text \<open>The match of \<open>(\d{4}):(\d{2}):(\d{2})[ T](\d{2}):(\d{2}):(\d{2})\<close> with the whole text: year, month, day, hour, minute and second.\<close>

definition matchExifDate :: "jsstr \<Rightarrow> (jsstr \<times> jsstr \<times> jsstr \<times> jsstr \<times> jsstr \<times> jsstr) option" where
  "matchExifDate s =
     (let y = take 4 s; mo = take 2 (drop 5 s); d = take 2 (drop 8 s); h = take 2 (drop 11 s); mi = take 2 (drop 14 s); sec = take 2 (drop 17 s)
      in if length s = 19 \<and> digits y \<and> digits mo \<and> digits d \<and> digits h \<and> digits mi \<and> digits sec
            \<and> s ! 4 = 58 \<and> s ! 7 = 58 \<and> (s ! 10 = 32 \<or> s ! 10 = 84) \<and> s ! 13 = 58 \<and> s ! 16 = 58
         then Some (y, mo, d, h, mi, sec) else None)"

definition leapYear :: "nat \<Rightarrow> bool" where
  "leapYear y \<longleftrightarrow> 4 dvd y \<and> (\<not> 100 dvd y \<or> 400 dvd y)"

definition monthDays :: "nat \<Rightarrow> nat \<Rightarrow> nat" where
  "monthDays y m = (if m = 2 then (if leapYear y then 29 else 28) else if m \<in> {4, 6, 9, 11} then 30 else 31)"

text \<open>The dates that \<open>Date\<close> neither rejects nor rolls over.\<close>

definition validDateTime :: "nat \<Rightarrow> nat \<Rightarrow> nat \<Rightarrow> nat \<Rightarrow> nat \<Rightarrow> nat \<Rightarrow> bool" where
  "validDateTime y mo d h mi s \<longleftrightarrow> 1 \<le> mo \<and> mo \<le> 12 \<and> 1 \<le> d \<and> d \<le> monthDays y mo \<and> h \<le> 23 \<and> mi \<le> 59 \<and> s \<le> 59"

definition normalizeUTCOffset :: "exif_value option \<Rightarrow> jsstr option" where
  "normalizeUTCOffset v =
     (case v of
        Some (Text_value s) \<Rightarrow>
          (let offset = cleanExifString s; hours = number (take 2 (drop 1 offset)); minutes = number (take 2 (drop 4 offset))
           in if offset = [90] then Some offset
              else if length offset = 6 \<and> (hd offset = 43 \<or> hd offset = 45) \<and> digits (take 2 (drop 1 offset)) \<and> offset ! 3 = 58
                   \<and> digits (take 2 (drop 4 offset))
              then (if hours \<le> 14 \<and> minutes \<le> 59 \<and> (hours \<noteq> 14 \<or> minutes = 0) then Some offset else None)
              else None)
      | _ \<Rightarrow> None)"

definition baseText :: "jsstr \<times> jsstr \<times> jsstr \<times> jsstr \<times> jsstr \<times> jsstr \<Rightarrow> jsstr" where
  "baseText f = (case f of (y, mo, d, h, mi, s) \<Rightarrow> y @ [45] @ mo @ [45] @ d @ [84] @ h @ [58] @ mi @ [58] @ s)"

definition subsecondsOf :: "exif_value option \<Rightarrow> jsstr option" where
  "subsecondsOf v =
     (let cleaned = (case v of Some (Text_value s) \<Rightarrow> cleanExifString s | _ \<Rightarrow> [])
      in if digits cleaned \<and> 1 \<le> length cleaned \<and> length cleaned \<le> 9 then Some cleaned else None)"

definition normalizeCaptureTime :: "exif_value option \<Rightarrow> exif_value option \<Rightarrow> exif_value option \<Rightarrow> MediaCaptureTime option" where
  "normalizeCaptureTime dateValue subsecondValue offsetValue =
     (case dateValue of
        Some (Text_value s) \<Rightarrow>
          (case matchExifDate (cleanExifString s) of
             None \<Rightarrow> None
           | Some (y, mo, d, h, mi, sec) \<Rightarrow>
               if number y = 0 then None
               else if \<not> validDateTime (number y) (number mo) (number d) (number h) (number mi) (number sec) then None
               else let base = baseText (y, mo, d, h, mi, sec)
                    in Some \<lparr>localDateTime = (case subsecondsOf subsecondValue of None \<Rightarrow> base | Some sub \<Rightarrow> base @ [46] @ sub),
                             utcOffset = normalizeUTCOffset offsetValue\<rparr>)
      | _ \<Rightarrow> None)"

definition readCaptureTime :: "exif_tags \<Rightarrow> MediaCaptureTime option" where
  "readCaptureTime tags =
     (case normalizeCaptureTime (map_of tags ''DateTimeOriginal'') (map_of tags ''SubSecTimeOriginal'') (map_of tags ''OffsetTimeOriginal'') of
        Some t \<Rightarrow> Some t
      | None \<Rightarrow> normalizeCaptureTime (map_of tags ''CreateDate'') (map_of tags ''SubSecTimeDigitized'') (map_of tags ''OffsetTimeDigitized''))"

section \<open>Location\<close>

record exif_env =
  sumDMS :: "rat \<Rightarrow> rat \<Rightarrow> rat \<Rightarrow> rat"
  upperCase :: "jsstr \<Rightarrow> jsstr"

record MediaLocation =
  latitude :: rat
  longitude :: rat
  altitudeMeters :: "rat option"

definition dmsCoordinate :: "exif_env \<Rightarrow> exif_value option \<Rightarrow> exif_value option \<Rightarrow> rat \<Rightarrow> jsstr \<Rightarrow> jsstr \<Rightarrow> rat option" where
  "dmsCoordinate E dms ref maximum positiveRef negativeRef =
     (let direction = (case ref of Some (Text_value s) \<Rightarrow> upperCase E (cleanExifString s) | _ \<Rightarrow> [])
      in case dms of
           Some (Items (a # b # c # rest)) \<Rightarrow>
             if direction \<noteq> positiveRef \<and> direction \<noteq> negativeRef then None
             else (case (normalizeFiniteNumber a, normalizeFiniteNumber b, normalizeFiniteNumber c) of
                     (Some degrees, Some minutes, Some seconds) \<Rightarrow>
                       if degrees < 0 \<or> minutes < 0 \<or> minutes \<ge> 60 \<or> seconds < 0 \<or> seconds \<ge> 60 then None
                       else let sum = sumDMS E degrees minutes seconds; result = (if direction = negativeRef then - sum else sum)
                            in if - maximum \<le> result \<and> result \<le> maximum then Some result else None
                   | _ \<Rightarrow> None)
         | _ \<Rightarrow> None)"

definition normalizeCoordinate ::
  "exif_env \<Rightarrow> exif_value option \<Rightarrow> exif_value option \<Rightarrow> exif_value option \<Rightarrow> rat \<Rightarrow> jsstr \<Rightarrow> jsstr \<Rightarrow> rat option" where
  "normalizeCoordinate E computed dms ref maximum positiveRef negativeRef =
     (case finiteNumber computed of
        Some n \<Rightarrow> if - maximum \<le> n \<and> n \<le> maximum then Some n else dmsCoordinate E dms ref maximum positiveRef negativeRef
      | None \<Rightarrow> dmsCoordinate E dms ref maximum positiveRef negativeRef)"

definition readLocation :: "exif_env \<Rightarrow> exif_tags \<Rightarrow> MediaLocation option" where
  "readLocation E tags =
     (case (normalizeCoordinate E (map_of tags ''latitude'') (map_of tags ''GPSLatitude'') (map_of tags ''GPSLatitudeRef'') 90 [78] [83],
            normalizeCoordinate E (map_of tags ''longitude'') (map_of tags ''GPSLongitude'') (map_of tags ''GPSLongitudeRef'') 180 [69] [87]) of
        (Some lat, Some lng) \<Rightarrow>
          (let rawAltitude = finiteNumber (map_of tags ''GPSAltitude''); altitudeRef = finiteNumber (map_of tags ''GPSAltitudeRef'')
           in Some \<lparr>latitude = lat, longitude = lng,
                    altitudeMeters = map_option (\<lambda>a. if altitudeRef = Some 1 then - a else a) rawAltitude\<rparr>)
      | _ \<Rightarrow> None)"

section \<open>Photos\<close>

record PhotoMetadata =
  captureTime :: "MediaCaptureTime option"
  photoLocation :: "MediaLocation option"
  sourceExifOrientation :: "int option"
  cameraMake :: "jsstr option"
  cameraModel :: "jsstr option"
  lensModel :: "jsstr option"
  fNumber :: "rat option"
  exposureTimeSeconds :: "rat option"
  iso :: "int option"
  focalLengthMm :: "rat option"

datatype media_details = Photo PhotoMetadata | Video rat | NoDetails

record extracted =
  ex_width :: "int option"
  ex_height :: "int option"
  ex_details :: media_details

definition readExifDimensions :: "exif_tags \<Rightarrow> int option \<Rightarrow> (int \<times> int) option" where
  "readExifDimensions tags orientation =
     (let pick = (\<lambda>a b. case map_of tags a of None \<Rightarrow> map_of tags b | Some v \<Rightarrow> Some v)
      in case (normalizeInteger (pick ''ExifImageWidth'' ''ImageWidth'') 1 MAX_SAFE_INTEGER,
               normalizeInteger (pick ''ExifImageHeight'' ''ImageHeight'') 1 MAX_SAFE_INTEGER) of
           (Some width, Some height) \<Rightarrow>
             (case orientation of
                Some r \<Rightarrow> if r \<ge> 5 then Some (height, width) else Some (width, height)
              | None \<Rightarrow> Some (width, height))
         | _ \<Rightarrow> None)"

definition photoFields :: "exif_env \<Rightarrow> exif_tags \<Rightarrow> PhotoMetadata" where
  "photoFields E tags =
     \<lparr>captureTime = readCaptureTime tags, photoLocation = readLocation E tags, sourceExifOrientation = normalizeInteger (map_of tags ''Orientation'') 1 8,
      cameraMake = normalizeMetadataString (map_of tags ''Make''), cameraModel = normalizeMetadataString (map_of tags ''Model''),
      lensModel = normalizeMetadataString (map_of tags ''LensModel''), fNumber = normalizePositiveNumber (map_of tags ''FNumber''),
      exposureTimeSeconds = normalizePositiveNumber (map_of tags ''ExposureTime''), iso = normalizeInteger (map_of tags ''ISO'') 1 MAX_SAFE_INTEGER,
      focalLengthMm = normalizePositiveNumber (map_of tags ''FocalLength'')\<rparr>"

definition noPhotoFields :: PhotoMetadata where
  "noPhotoFields = \<lparr>captureTime = None, photoLocation = None, sourceExifOrientation = None, cameraMake = None, cameraModel = None, lensModel = None,
     fNumber = None, exposureTimeSeconds = None, iso = None, focalLengthMm = None\<rparr>"

text \<open>\<open>exif\<close> is None when the parser failed or did not answer in time, \<open>bitmap\<close> when the image could not be decoded in time.\<close>

definition extractImageMetadata :: "exif_env \<Rightarrow> exif_tags option \<Rightarrow> (rat \<times> rat) option \<Rightarrow> extracted option" where
  "extractImageMetadata E exif bitmap =
     (let tags = (case exif of None \<Rightarrow> [] | Some t \<Rightarrow> t);
          fields = photoFields E tags;
          dimensions = (case readExifDimensions tags (sourceExifOrientation fields) of
             Some d \<Rightarrow> Some d
           | None \<Rightarrow> Option.bind bitmap (\<lambda>(w, h). normalizeDimensions w h));
          hasPhotoDetails = (fields \<noteq> noPhotoFields)
      in if dimensions = None \<and> \<not> hasPhotoDetails then None
         else Some \<lparr>ex_width = map_option fst dimensions, ex_height = map_option snd dimensions,
                    ex_details = (if hasPhotoDetails then Photo fields else NoDetails)\<rparr>)"

section \<open>Videos\<close>

text \<open>The promise around the video element with what it holds: the object URL, the timer and the two listeners.\<close>

datatype video_outcome = Resolved "(int \<times> int) option" "rat option" | Rejected

record video_probe =
  vp_url :: bool
  vp_timer :: bool
  vp_listening :: bool
  vp_outcomes :: "video_outcome list"

definition readVideoMetadata :: video_probe where
  "readVideoMetadata = \<lparr>vp_url = True, vp_timer = True, vp_listening = True, vp_outcomes = []\<rparr>"

definition video_cleanup :: "video_probe \<Rightarrow> video_probe" where
  "video_cleanup s = s\<lparr>vp_timer := False, vp_listening := False, vp_url := False\<rparr>"

definition video_fail :: "video_probe \<Rightarrow> video_probe" where
  "video_fail s = (video_cleanup s)\<lparr>vp_outcomes := vp_outcomes s @ [Rejected]\<rparr>"

text \<open>\<open>duration\<close> is None when it is not finite.\<close>

definition handleLoadedMetadata :: "rat \<Rightarrow> rat \<Rightarrow> rat option \<Rightarrow> video_probe \<Rightarrow> video_probe" where
  "handleLoadedMetadata w h duration s =
     (let dimensions = normalizeDimensions w h;
          durationSeconds = (case duration of None \<Rightarrow> None | Some d \<Rightarrow> if 0 \<le> d then Some d else None)
      in (video_cleanup s)\<lparr>vp_outcomes := vp_outcomes s @ [Resolved dimensions durationSeconds]\<rparr>)"

inductive video_run :: "video_probe \<Rightarrow> bool" where
  begun: "video_run readVideoMetadata"
| loaded: "video_run s \<Longrightarrow> vp_listening s \<Longrightarrow> video_run (handleLoadedMetadata w h d s)"
| failed: "video_run s \<Longrightarrow> vp_listening s \<Longrightarrow> video_run (video_fail s)"
| expired: "video_run s \<Longrightarrow> vp_timer s \<Longrightarrow> video_run (video_fail s)"

definition extractVideoMetadata :: "video_outcome \<Rightarrow> extracted option" where
  "extractVideoMetadata r =
     (case r of
        Rejected \<Rightarrow> None
      | Resolved dimensions durationSeconds \<Rightarrow>
          if dimensions = None \<and> durationSeconds = None then None
          else Some \<lparr>ex_width = map_option fst dimensions, ex_height = map_option snd dimensions,
                     ex_details = (case durationSeconds of None \<Rightarrow> NoDetails | Some d \<Rightarrow> Video d)\<rparr>)"

definition extractMedia :: "exif_env \<Rightarrow> File \<Rightarrow> exif_tags option \<Rightarrow> (rat \<times> rat) option \<Rightarrow> video_outcome \<Rightarrow> extracted option" where
  "extractMedia E file exif bitmap r =
     (if isImage (file_type file) then extractImageMetadata E exif bitmap
      else if startsWith (file_type file) (js ''video/'') then extractVideoMetadata r
      else None)"

section \<open>Limits of the server\<close>

definition string_ok :: "jsstr \<Rightarrow> bool" where
  "string_ok s \<longleftrightarrow> s \<noteq> [] \<and> byteLength s \<le> MAX_METADATA_STRING_BYTES \<and> list_all (\<lambda>c. \<not> isControl c) s"

definition offset_ok :: "jsstr \<Rightarrow> bool" where
  "offset_ok x \<longleftrightarrow> x = [90] \<or> (\<exists>sign hh mm. x = sign # hh @ 58 # mm \<and> sign \<in> {43, 45} \<and> length hh = 2 \<and> length mm = 2 \<and> digits hh \<and> digits mm
     \<and> number mm \<le> 59 \<and> 60 * number hh + number mm \<le> 60 * 14)"

definition fields_ok :: "jsstr \<times> jsstr \<times> jsstr \<times> jsstr \<times> jsstr \<times> jsstr \<Rightarrow> bool" where
  "fields_ok f \<longleftrightarrow> (case f of (y, mo, d, h, mi, s) \<Rightarrow>
     length y = 4 \<and> length mo = 2 \<and> length d = 2 \<and> length h = 2 \<and> length mi = 2 \<and> length s = 2 \<and> digits (y @ mo @ d @ h @ mi @ s)
     \<and> number y \<noteq> 0 \<and> validDateTime (number y) (number mo) (number d) (number h) (number mi) (number s))"

definition time_ok :: "MediaCaptureTime \<Rightarrow> bool" where
  "time_ok t \<longleftrightarrow> (\<exists>f sub. fields_ok f \<and> localDateTime t = baseText f @ sub \<and> (sub = [] \<or> (\<exists>ds. sub = 46 # ds \<and> digits ds \<and> length ds \<in> {1..9})))
     \<and> pred_option offset_ok (utcOffset t)"

definition location_ok :: "MediaLocation \<Rightarrow> bool" where
  "location_ok l \<longleftrightarrow> - 90 \<le> latitude l \<and> latitude l \<le> 90 \<and> - 180 \<le> longitude l \<and> longitude l \<le> 180"

definition photo_ok :: "PhotoMetadata \<Rightarrow> bool" where
  "photo_ok p \<longleftrightarrow> pred_option time_ok (captureTime p) \<and> pred_option location_ok (photoLocation p)
     \<and> pred_option (\<lambda>r. 1 \<le> r \<and> r \<le> 8) (sourceExifOrientation p) \<and> pred_option string_ok (cameraMake p) \<and> pred_option string_ok (cameraModel p)
     \<and> pred_option string_ok (lensModel p) \<and> pred_option (\<lambda>n. 0 < n) (fNumber p) \<and> pred_option (\<lambda>n. 0 < n) (exposureTimeSeconds p)
     \<and> pred_option (\<lambda>n. 1 \<le> n) (iso p) \<and> pred_option (\<lambda>n. 0 < n) (focalLengthMm p)"

definition extracted_ok :: "extracted \<Rightarrow> bool" where
  "extracted_ok e \<longleftrightarrow> (ex_width e = None \<longleftrightarrow> ex_height e = None) \<and> pred_option (\<lambda>n. 1 \<le> n) (ex_width e) \<and> pred_option (\<lambda>n. 1 \<le> n) (ex_height e)
     \<and> (case ex_details e of Photo p \<Rightarrow> p \<noteq> noPhotoFields \<and> photo_ok p | Video d \<Rightarrow> 0 \<le> d | NoDetails \<Rightarrow> ex_width e \<noteq> None)"

lemma integer_ok: "normalizeInteger v a b = Some n \<Longrightarrow> a \<le> of_int n \<and> of_int n \<le> b"
  by (auto simp: normalizeInteger_def is_integer_def split: option.splits if_splits)

lemma integer_bounds:
  "pred_option (\<lambda>n. 1 \<le> n) (normalizeInteger v 1 b)" "pred_option (\<lambda>n. 1 \<le> n \<and> n \<le> 8) (normalizeInteger v 1 8)"
proof -
  have "1 \<le> n" if "normalizeInteger v 1 b = Some n" for n b
    using integer_ok [OF that] by (metis of_int_1_le_iff)
  moreover have "n \<le> 8" if "normalizeInteger v 1 8 = Some n" for n
    using integer_ok [OF that] by (metis of_int_le_numeral_iff)
  ultimately show "pred_option (\<lambda>n. 1 \<le> n) (normalizeInteger v 1 b)" "pred_option (\<lambda>n. 1 \<le> n \<and> n \<le> 8) (normalizeInteger v 1 8)"
    by (auto simp: option.pred_set elem_set)
qed

lemma positive_ok: "pred_option (\<lambda>n. 0 < n) (normalizePositiveNumber v)"
  by (simp add: normalizePositiveNumber_def split: option.split)

lemma dimensions_ok: "normalizeDimensions w h = Some (a, b) \<Longrightarrow> 1 \<le> a \<and> 1 \<le> b"
  by (auto simp: normalizeDimensions_def is_integer_def int_one_le_iff_zero_less split: if_splits)

lemma exif_dimensions_ok: "readExifDimensions tags r = Some (a, b) \<Longrightarrow> 1 \<le> a \<and> 1 \<le> b"
  using integer_bounds(1) by (fastforce simp: readExifDimensions_def Let_def option.pred_set elem_set split: option.splits if_splits prod.splits)

lemma trim_subset: "set (trim s) \<subseteq> set s"
  unfolding trim_def trimStart_def trimEnd_def by (metis (no_types, lifting) set_dropWhileD set_rev subsetI)

lemma metadata_string_ok: "pred_option string_ok (normalizeMetadataString v)"
proof -
  have "string_ok (trim (filter (\<lambda>c. \<not> isControl c) s))"
    if "trim (filter (\<lambda>c. \<not> isControl c) s) \<noteq> []" "byteLength (trim (filter (\<lambda>c. \<not> isControl c) s)) \<le> MAX_METADATA_STRING_BYTES" for s
    using that trim_subset [of "filter (\<lambda>c. \<not> isControl c) s"] by (auto simp: string_ok_def list_all_iff)
  then show ?thesis by (auto simp: normalizeMetadataString_def Let_def split: option.split exif_value.split)
qed

lemma six_units:
  assumes "length s = 6"
  shows "s = hd s # take 2 (drop 1 s) @ s ! 3 # take 2 (drop 4 s)"
proof -
  obtain a b c d e f where "s = [a, b, c, d, e, f]" using assms by (auto simp: numeral_eq_Suc length_Suc_conv)
  then show ?thesis by simp
qed

lemma utc_offset_ok: "pred_option offset_ok (normalizeUTCOffset v)"
proof -
  have "offset_ok x"
    if "length x = 6" "hd x = 43 \<or> hd x = 45" "digits (take 2 (drop 1 x))" "x ! 3 = 58" "digits (take 2 (drop 4 x))"
      "number (take 2 (drop 1 x)) \<le> 14" "number (take 2 (drop 4 x)) \<le> 59" "number (take 2 (drop 1 x)) \<noteq> 14 \<or> number (take 2 (drop 4 x)) = 0" for x
    unfolding offset_ok_def
  proof (intro disjI2 exI conjI)
    show "x = hd x # take 2 (drop 1 x) @ 58 # take 2 (drop 4 x)" using six_units [OF that(1)] that(4) by metis
  qed (use that in auto)
  then show ?thesis by (auto simp: normalizeUTCOffset_def offset_ok_def [of "[90]"] Let_def split: option.split exif_value.split)
qed

lemma match_fields:
  "matchExifDate s = Some (y, mo, d, h, mi, sec) \<Longrightarrow> length y = 4 \<and> length mo = 2 \<and> length d = 2 \<and> length h = 2 \<and> length mi = 2 \<and> length sec = 2
     \<and> digits (y @ mo @ d @ h @ mi @ sec)"
  by (auto simp: matchExifDate_def digits_def Let_def split: if_splits)

lemma capture_time_ok: "pred_option time_ok (normalizeCaptureTime a b c)"
proof (cases "normalizeCaptureTime a b c")
  case (Some t)
  then obtain s f where s: "matchExifDate (cleanExifString s) = Some f"
    and n: "case f of (y, mo, d, h, mi, sec) \<Rightarrow>
      number y \<noteq> 0 \<and> validDateTime (number y) (number mo) (number d) (number h) (number mi) (number sec)"
    and t: "localDateTime t = baseText f @ (case subsecondsOf b of None \<Rightarrow> [] | Some sub \<Rightarrow> [46] @ sub)" "utcOffset t = normalizeUTCOffset c"
    by (cases "subsecondsOf b") (auto simp: normalizeCaptureTime_def Let_def split: option.splits exif_value.splits if_splits)
  have f: "fields_ok f" using match_fields [of "cleanExifString s"] s n by (cases f) (auto simp: fields_ok_def)
  have "(case subsecondsOf b of None \<Rightarrow> [] | Some sub \<Rightarrow> [46] @ sub) = []
      \<or> (\<exists>ds. (case subsecondsOf b of None \<Rightarrow> [] | Some sub \<Rightarrow> [46] @ sub) = 46 # ds \<and> digits ds \<and> length ds \<in> {1..9})"
    by (auto simp: subsecondsOf_def Let_def split: option.split)
  then have "time_ok t" unfolding time_ok_def t using f utc_offset_ok [of c] by blast
  then show ?thesis using Some by simp
qed simp

lemma coordinate_ok: "normalizeCoordinate E v dms ref m p n = Some x \<Longrightarrow> - m \<le> x \<and> x \<le> m"
proof -
  have "dmsCoordinate E dms ref m p n = Some x \<Longrightarrow> - m \<le> x \<and> x \<le> m"
    by (auto simp: dmsCoordinate_def Let_def split: option.splits exif_value.splits list.splits if_splits)
  then show "normalizeCoordinate E v dms ref m p n = Some x \<Longrightarrow> - m \<le> x \<and> x \<le> m"
    by (auto simp: normalizeCoordinate_def split: option.splits if_splits)
qed

lemma read_location_ok: "pred_option location_ok (readLocation E tags)"
  using coordinate_ok by (fastforce simp: readLocation_def location_ok_def Let_def split: option.split)

lemma photo_fields_ok: "photo_ok (photoFields E tags)"
proof -
  have "pred_option time_ok (readCaptureTime tags)" unfolding readCaptureTime_def using capture_time_ok by (metis option.case_eq_if option.collapse)
  then show ?thesis using read_location_ok integer_bounds positive_ok metadata_string_ok by (simp add: photo_ok_def photoFields_def)
qed

lemma video_run_inv: "video_run s \<Longrightarrow> vp_timer s = vp_listening s \<and> vp_url s = vp_listening s \<and> length (vp_outcomes s) = (if vp_listening s then 0 else 1)
    \<and> (\<forall>d t. Resolved d t \<in> set (vp_outcomes s) \<longrightarrow> pred_option (\<lambda>(a, b). 1 \<le> a \<and> 1 \<le> b) d \<and> pred_option (\<lambda>n. 0 \<le> n) t)"
proof (induction rule: video_run.induct)
  case (loaded s w h d)
  then have "vp_outcomes s = []" by simp
  then show ?case using dimensions_ok [of w h]
    by (auto simp: handleLoadedMetadata_def video_cleanup_def Let_def option.pred_set elem_set split: option.splits)
qed (auto simp: readVideoMetadata_def video_fail_def video_cleanup_def)

text \<open>The video element is asked once: its promise settles at most once, and with that the object URL, the timer and the listeners
  are released.\<close>

theorem video_released_once:
  assumes "video_run s"
  shows "length (vp_outcomes s) \<le> 1 \<and> (vp_outcomes s \<noteq> [] \<longleftrightarrow> \<not> vp_url s \<and> \<not> vp_timer s \<and> \<not> vp_listening s)"
  using video_run_inv [OF assms] by auto

lemma image_ok: "extractImageMetadata E exif bitmap = Some e \<Longrightarrow> extracted_ok e"
proof -
  define tags where "tags = (case exif of None \<Rightarrow> [] | Some t \<Rightarrow> t)"
  define dims where "dims = (case readExifDimensions tags (sourceExifOrientation (photoFields E tags)) of
      Some d \<Rightarrow> Some d | None \<Rightarrow> Option.bind bitmap (\<lambda>(w, h). normalizeDimensions w h))"
  have d: "1 \<le> a \<and> 1 \<le> b" if "dims = Some (a, b)" for a b
    using that exif_dimensions_ok dimensions_ok by (auto simp: dims_def split: option.splits bind_splits)
  assume "extractImageMetadata E exif bitmap = Some e"
  then show "extracted_ok e" using d photo_fields_ok [of E tags]
    by (cases dims) (auto simp: extractImageMetadata_def Let_def extracted_ok_def simp flip: tags_def dims_def split: if_splits)
qed


definition sample_photo :: exif_tags where
  "sample_photo = [(''Make'', Text_value (js ''Acme'')), (''Orientation'', Finite 6), (''ImageWidth'', Finite 40), (''ImageHeight'', Items [Finite 30])]"

definition sample_exif :: exif_env where
  "sample_exif = \<lparr>sumDMS = (\<lambda>d m s. d + m / 60 + s / 3600), upperCase = (\<lambda>s. s)\<rparr>"

definition sample_extract :: "extracted option" where
  "sample_extract = extractMedia sample_exif \<lparr>file_name = [], file_type = js ''image/png'', file_bytes = []\<rparr> (Some sample_photo) None Rejected"

lemma sample_extracted: "map_option ex_width sample_extract = Some (Some 30) \<and> map_option ex_height sample_extract = Some (Some 40)"
proof -
  have n: "normalizeInteger (Some (Finite 40)) 1 MAX_SAFE_INTEGER = Some 40" "normalizeInteger (Some (Items [Finite 30])) 1 MAX_SAFE_INTEGER = Some 30"
    "normalizeInteger (Some (Finite 6)) 1 8 = Some 6"
    by (simp_all add: normalizeInteger_def finiteNumber_def is_integer_def MAX_SAFE_INTEGER_def)
  have "readExifDimensions sample_photo (Some 6) = Some (30, 40)" by (simp add: readExifDimensions_def sample_photo_def n Let_def)
  moreover have "sourceExifOrientation (photoFields sample_exif sample_photo) = Some 6" by (simp add: photoFields_def sample_photo_def n)
  moreover have "isImage (js ''image/png'')" by (simp add: isImage_def isPSD_def startsWith_def js_def)
  ultimately show ?thesis by (simp add: sample_extract_def extractMedia_def extractImageMetadata_def Let_def)
qed


end
