(* ===== verification/People.thy ===== *)
theory People
  imports Memo_Syntax Calendar Memo_Filters "HOL-Library.List_Lexorder"
begin

text \<open>
  The users that the pages name: the cached queries of users (\<^verbatim>\<open>web/src/hooks/useUserQueries.ts\<close>), the resolution of the
  mentions and creators of a list of memos (\<^verbatim>\<open>web/src/components/MemoContent/MentionResolutionContext.tsx\<close>) and the reactions of
  a memo (\<^verbatim>\<open>web/src/components/MemoReactionListView/hooks.ts\<close>).

  A query function runs up to its \<open>await\<close> and goes on with the answers and the cache of that moment. The query client is the one
  of the memo cache.
\<close>

section \<open>Keys\<close>

definition BATCH_GET_USERS_LIMIT :: nat where "BATCH_GET_USERS_LIMIT = 100"
definition USER_PROFILE_STALE_TIME :: nat where "USER_PROFILE_STALE_TIME = 1000 * 60 * 5"

definition user_all :: qkey where "user_all = [S (js ''users'')]"
definition user_details :: qkey where "user_details = user_all @ [S (js ''detail'')]"
definition user_detail :: "jsstr \<Rightarrow> qkey" where "user_detail n = user_details @ [S n]"
definition userStats_key :: "jsstr \<Rightarrow> jsstr option \<Rightarrow> qkey" where
  "userStats_key n condition = (if truthy condition then user_stats @ [S n, S (the condition)] else user_stats @ [S n])"
definition allUserStats_key :: "jsstr \<Rightarrow> qkey" where "allUserStats_key request = user_stats @ [S (js ''all''), R request]"
definition currentUser_key :: qkey where "currentUser_key = user_all @ [S (js ''current'')]"

text \<open>An absent part of a key is serialised as \<open>null\<close>. The order of strings is the one of their code units.\<close>

definition key_or_null :: "jsstr option \<Rightarrow> key_part" where
  "key_or_null p = (case p of None \<Rightarrow> R (js ''null'') | Some n \<Rightarrow> S n)"

definition memoViews_key :: "jsstr option \<Rightarrow> qkey" where "memoViews_key parent = user_all @ [S (js ''memoViews''), key_or_null parent]"
definition userSettings_key :: qkey where "userSettings_key = user_all @ [S (js ''settings'')]"
definition byNames_key :: "jsstr list \<Rightarrow> qkey" where "byNames_key names = user_all @ S (js ''byNames'') # map S (sort names)"
definition byUsernames_key :: "jsstr list \<Rightarrow> qkey" where
  "byUsernames_key usernames = user_all @ S (js ''byUsernames'') # map S (sort usernames)"

lemmas user_key_defs = user_all_def user_details_def user_detail_def user_stats_def user_notifications_def userStats_key_def
  allUserStats_key_def currentUser_key_def memoViews_key_def userSettings_key_def byNames_key_def byUsernames_key_def

section \<open>Single queries\<close>

text \<open>What a query function does: it returns without a request, throws, or outcomes the result of an RPC.\<close>

datatype ('q, 'a) query_call = Returns 'a | Throws jsstr | Asks 'q

definition useUserStats_queryFn :: "jsstr option \<Rightarrow> jsstr option \<Rightarrow> (jsstr \<times> jsstr option, 'a) query_call" where
  "useUserStats_queryFn username condition =
     (if \<not> truthy username then Throws (js ''Username is required'') else Asks (the username, condition))"

definition useUserStats_enabled :: "jsstr option \<Rightarrow> bool option \<Rightarrow> bool" where
  "useUserStats_enabled username enabled \<longleftrightarrow> truthy username \<and> (case enabled of None \<Rightarrow> True | Some b \<Rightarrow> b)"

definition useMemoViews_queryFn :: "jsstr option \<Rightarrow> (jsstr, 'a list) query_call" where
  "useMemoViews_queryFn parent = (if \<not> truthy parent then Returns [] else Asks (the parent))"

definition useUserSettings_queryFn :: "jsstr option \<Rightarrow> (jsstr, 'a list) query_call" where
  "useUserSettings_queryFn parent = (if \<not> truthy parent then Returns [] else Asks (the parent))"

definition useNotifications_queryFn :: "User option \<Rightarrow> (jsstr, UserNotification list) query_call" where
  "useNotifications_queryFn currentUser =
     (if \<not> truthy (map_option user_name currentUser) then Returns [] else Asks (user_name (the currentUser)))"

text \<open>\<open>useTagCounts\<close>: its key, its function and the selection from the data of the query. For the current user the query holds
  the statistics (\<open>Inl\<close>), otherwise the merged counts (\<open>Inr\<close>).\<close>

definition tagCounts_key :: "bool \<Rightarrow> jsstr option \<Rightarrow> qkey" where
  "tagCounts_key forCurrentUser currentName =
     (if forCurrentUser \<and> truthy currentName then userStats_key (the currentName) None
      else user_stats @ [S (js ''tagCounts''), S (if forCurrentUser then js ''current'' else js ''all'')])"

definition tagCounts_queryFn ::
  "(jsstr \<Rightarrow> rpc_error + UserStats) \<Rightarrow> (rpc_error + UserStats list) \<Rightarrow> bool \<Rightarrow> jsstr option
     \<Rightarrow> rpc_error + (UserStats option + (jsstr \<times> int) list)" where
  "tagCounts_queryFn getUserStats allStats forCurrentUser currentName =
     (if forCurrentUser
      then (if \<not> truthy currentName then Inr (Inl None)
            else case getUserStats (the currentName) of Inl e \<Rightarrow> Inl e | Inr stats \<Rightarrow> Inr (Inl (Some stats)))
      else case allStats of Inl e \<Rightarrow> Inl e | Inr stats \<Rightarrow> Inr (Inr (mergeTagCounts (map tagCount stats))))"

definition tagCounts_select :: "UserStats option + (jsstr \<times> int) list \<Rightarrow> (jsstr \<times> int) list" where
  "tagCounts_select data =
     (case data of Inl stats \<Rightarrow> mergeTagCounts [Option.bind stats tagCount] | Inr counts \<Rightarrow> counts)"

text \<open>\<open>useListUsers\<close>: the loop over the pages is the one of the lists of Spaces.\<close>

definition listUsers :: "(User, 'w) page_call \<Rightarrow> 'w \<Rightarrow> ((rpc_error + User list) \<times> 'w) option" where
  "listUsers call w = drainPages call [] [] w"

section \<open>Mutations\<close>

fun notifications_of :: "cached \<Rightarrow> UserNotification list option" where
  "notifications_of (NotificationList ns) = Some ns"
| "notifications_of d = None"

definition updateCachedNotifications ::
  "'c query_client \<Rightarrow> (UserNotification list \<Rightarrow> UserNotification list) \<Rightarrow> 'c \<Rightarrow> 'c" where
  "updateCachedNotifications Q update c =
     (case Option.bind (getQueryData Q c user_notifications) notifications_of of
        None \<Rightarrow> c
      | Some notifications \<Rightarrow> setQueryData Q user_notifications (NotificationList (update notifications)) c)"

definition archiveNotification_request :: "jsstr \<Rightarrow> (jsstr \<times> UserNotification_Status) \<times> jsstr list" where
  "archiveNotification_request n = ((n, STATUS_ARCHIVED), [js ''status''])"

definition archiveNotification_onSuccess :: "'c query_client \<Rightarrow> UserNotification \<Rightarrow> 'c \<Rightarrow> 'c" where
  "archiveNotification_onSuccess Q updated c =
     invalidateQueries Q user_notifications
       (updateCachedNotifications Q
          (map (\<lambda>notification. if nt_name notification = nt_name updated then updated else notification)) c)"

definition deleteNotification_onSuccess :: "'c query_client \<Rightarrow> jsstr \<Rightarrow> 'c \<Rightarrow> 'c" where
  "deleteNotification_onSuccess Q n c =
     invalidateQueries Q user_notifications
       (updateCachedNotifications Q (filter (\<lambda>notification. nt_name notification \<noteq> n)) c)"

definition updateUser_onSuccess :: "'c query_client \<Rightarrow> User \<Rightarrow> 'c \<Rightarrow> 'c" where
  "updateUser_onSuccess Q updatedUser c =
     invalidateQueries Q currentUser_key (setQueryData Q (user_detail (user_name updatedUser)) (UserData updatedUser) c)"

definition deleteUser_onSuccess :: "'c query_client \<Rightarrow> jsstr \<Rightarrow> 'c \<Rightarrow> 'c" where
  "deleteUser_onSuccess Q n c = invalidateQueries Q user_all (removeQueries Q (user_detail n) c)"

definition updateUserSetting_onSuccess :: "'c query_client \<Rightarrow> 'c \<Rightarrow> 'c" where
  "updateUserSetting_onSuccess Q c = invalidateQueries Q userSettings_key c"

datatype UserSetting_Key = USER_KEY_UNSPECIFIED | USER_GENERAL | USER_WEBHOOKS | USER_TAGS

definition getUserSettingKeyName :: "UserSetting_Key \<Rightarrow> jsstr" where
  "getUserSettingKeyName key =
     (case key of USER_KEY_UNSPECIFIED \<Rightarrow> js ''KEY_UNSPECIFIED'' | USER_GENERAL \<Rightarrow> js ''GENERAL''
      | USER_WEBHOOKS \<Rightarrow> js ''WEBHOOKS'' | USER_TAGS \<Rightarrow> js ''TAGS'')"

definition buildUserSettingName :: "jsstr \<Rightarrow> UserSetting_Key \<Rightarrow> jsstr" where
  "buildUserSettingName username key = username @ js ''/settings/'' @ getUserSettingKeyName key"

text \<open>\<open>useUpdateUserGeneralSetting\<close>: the name of the setting, its value and the mask, or the error without a user.\<close>

definition updateUserGeneralSetting_request ::
  "jsstr option \<Rightarrow> 'v \<Rightarrow> jsstr list \<Rightarrow> (jsstr \<times> 'v \<times> jsstr list, unit) query_call" where
  "updateUserGeneralSetting_request currentUserName generalSetting updateMask =
     (if \<not> truthy currentUserName then Throws (js ''No current user'')
      else Asks (buildUserSettingName (the currentUserName) USER_GENERAL, generalSetting, updateMask))"

section \<open>Several users\<close>

fun user_of :: "cached \<Rightarrow> User option" where
  "user_of (UserData u) = Some u"
| "user_of d = None"

definition cachedUser :: "'c query_client \<Rightarrow> 'c \<Rightarrow> jsstr \<Rightarrow> User option" where
  "cachedUser Q c n = Option.bind (getQueryData Q c (user_detail n)) user_of"

text \<open>\<open>queryClient.fetchQuery(userDetailQueryOptions(name))\<close>: data that is neither invalidated nor older than the stale time is
  returned, anything else is requested and stored.\<close>

definition detailIsFresh :: "'c query_client \<Rightarrow> nat \<Rightarrow> 'c \<Rightarrow> jsstr \<Rightarrow> bool" where
  "detailIsFresh Q now c n =
     (case getQueryState Q c (user_detail n) of
        None \<Rightarrow> False
      | Some st \<Rightarrow> \<not> isInvalidated st \<and> now < dataUpdatedAt st + USER_PROFILE_STALE_TIME)"

definition fetchUser :: "'c query_client \<Rightarrow> nat \<Rightarrow> (jsstr \<Rightarrow> rpc_error + User) \<Rightarrow> jsstr \<Rightarrow> 'c \<Rightarrow> (rpc_error + User) \<times> 'c" where
  "fetchUser Q now getUser n c =
     (if cachedUser Q c n \<noteq> None \<and> detailIsFresh Q now c n then (Inr (the (cachedUser Q c n)), c)
      else case getUser n of
             Inl e \<Rightarrow> (Inl e, c)
           | Inr u \<Rightarrow> (Inr u, setQueryData Q (user_detail n) (UserData u) c))"

fun fetchUsers ::
  "'c query_client \<Rightarrow> nat \<Rightarrow> (jsstr \<Rightarrow> rpc_error + User) \<Rightarrow> jsstr list \<Rightarrow> 'c \<Rightarrow> (jsstr \<times> User option) list \<times> 'c" where
  "fetchUsers Q now getUser [] c = ([], c)"
| "fetchUsers Q now getUser (n # ns) c =
     (let (r, c1) = fetchUser Q now getUser n c;
          user = (case r of Inl e \<Rightarrow> None | Inr u \<Rightarrow> Some u);
          (rest, c2) = fetchUsers Q now getUser ns c1
      in ((n, user) # rest, c2))"

definition usersByNames_queryFn ::
  "'c query_client \<Rightarrow> nat \<Rightarrow> (jsstr \<Rightarrow> rpc_error + User) \<Rightarrow> jsstr list \<Rightarrow> 'c \<Rightarrow> (jsstr \<times> User option) list \<times> 'c" where
  "usersByNames_queryFn Q now getUser names c =
     (let (found, c') = fetchUsers Q now getUser (set_of names) c
      in (foldl (\<lambda>userMap (n, user). setItem n user userMap) [] found, c'))"

text \<open>\<open>useUsersByUsernames\<close>: what the cache already has, the batches that are asked for, and what is done with the answers. The
  clock stands still during the synchronous part. Unlike \<open>fetchQuery\<close>, this query does not look at \<open>isInvalidated\<close>.\<close>

definition cacheIsFresh :: "'c query_client \<Rightarrow> nat \<Rightarrow> 'c \<Rightarrow> jsstr \<Rightarrow> bool" where
  "cacheIsFresh Q now c n =
     (case getQueryState Q c (user_detail n) of
        Some st \<Rightarrow> int now - int (dataUpdatedAt st) < int USER_PROFILE_STALE_TIME
      | None \<Rightarrow> False)"

definition freshUser :: "'c query_client \<Rightarrow> nat \<Rightarrow> 'c \<Rightarrow> jsstr \<Rightarrow> User option" where
  "freshUser Q now c username =
     (if cacheIsFresh Q now c (userNamePrefix @ username) then cachedUser Q c (userNamePrefix @ username) else None)"

fun splitCached ::
  "'c query_client \<Rightarrow> nat \<Rightarrow> 'c \<Rightarrow> jsstr list \<Rightarrow> (jsstr \<times> User) list \<Rightarrow> jsstr list \<Rightarrow> (jsstr \<times> User) list \<times> jsstr list" where
  "splitCached Q now c [] usersByUsername missingUsernames = (usersByUsername, missingUsernames)"
| "splitCached Q now c (username # rest) usersByUsername missingUsernames =
     (case freshUser Q now c username of
        Some user \<Rightarrow> splitCached Q now c rest (setItem username user usersByUsername) missingUsernames
      | None \<Rightarrow> splitCached Q now c rest usersByUsername (missingUsernames @ [username]))"

function batchesFrom :: "'a list \<Rightarrow> nat \<Rightarrow> 'a list list" where
  "batchesFrom xs i =
     (if i < length xs then slice xs i (i + BATCH_GET_USERS_LIMIT) # batchesFrom xs (i + BATCH_GET_USERS_LIMIT) else [])"
  by auto
termination by (relation "measure (\<lambda>(xs, i). length xs - i)") (auto simp: BATCH_GET_USERS_LIMIT_def)

declare batchesFrom.simps [simp del]

record users_query =
  uq_usernames :: "jsstr list"
  uq_known :: "(jsstr \<times> User) list"
  uq_batches :: "jsstr list list"

definition usersByUsernames_start :: "'c query_client \<Rightarrow> nat \<Rightarrow> jsstr list \<Rightarrow> 'c \<Rightarrow> users_query" where
  "usersByUsernames_start Q now usernames c =
     (let uniqueUsernames = set_of usernames;
          (usersByUsername, missingUsernames) = splitCached Q now c uniqueUsernames [] []
      in \<lparr>uq_usernames = uniqueUsernames, uq_known = usersByUsername, uq_batches = batchesFrom missingUsernames 0\<rparr>)"

text \<open>\<open>Promise.all\<close> rejects when one of its promises does; which of several errors arrives first does not matter here.\<close>

fun promise_all :: "(rpc_error + 'a) list \<Rightarrow> rpc_error + 'a list" where
  "promise_all [] = Inr []"
| "promise_all (r # rs) =
     (case r of Inl e \<Rightarrow> Inl e | Inr x \<Rightarrow> (case promise_all rs of Inl e \<Rightarrow> Inl e | Inr xs \<Rightarrow> Inr (x # xs)))"

definition storeUsers ::
  "'c query_client \<Rightarrow> User list \<Rightarrow> (jsstr \<times> User) list \<Rightarrow> 'c \<Rightarrow> (jsstr \<times> User) list \<times> 'c" where
  "storeUsers Q users usersByUsername c =
     foldl (\<lambda>(m, c) user. (setItem (user_username user) user m, setQueryData Q (user_detail (user_name user)) (UserData user) c))
       (usersByUsername, c) users"

definition usersByUsernames_finish ::
  "'c query_client \<Rightarrow> users_query \<Rightarrow> (rpc_error + User list) list \<Rightarrow> 'c \<Rightarrow> (rpc_error + (jsstr \<times> User option) list) \<times> 'c" where
  "usersByUsernames_finish Q q outcomes c =
     (case promise_all outcomes of
        Inl e \<Rightarrow> (Inl e, c)
      | Inr responses \<Rightarrow>
          (let (usersByUsername, c') = storeUsers Q (concat responses) (uq_known q) c
           in (Inr (foldl (\<lambda>userMap username. setItem username (getItem usersByUsername username) userMap) [] (uq_usernames q)), c')))"

section \<open>Mentions and creators of a list of memos\<close>

text \<open>The names that a memo mentions, once the parts of its source that are parsed again are within the bound.\<close>

definition mentionUsernamesIn :: "markdown_lib \<Rightarrow> (jsstr \<Rightarrow> unist) \<Rightarrow> EmojiTrieNode \<Rightarrow> nat \<Rightarrow> jsstr \<Rightarrow> jsstr list" where
  "mentionUsernamesIn M parse trie n source =
     (case extractMentionUsernames M parse trie n source of None \<Rightarrow> [] | Some names \<Rightarrow> names)"

record user_resolution =
  mentionUsernamesByContent :: "(jsstr \<times> jsstr list) list"
  requestedUserNames :: "jsstr list"
  resolvedMentionUsernames :: "jsstr list"
  usersByName :: "(jsstr \<times> User option) list"

definition mentionsByContent :: "(jsstr \<Rightarrow> jsstr list) \<Rightarrow> jsstr list \<Rightarrow> (jsstr \<times> jsstr list) list" where
  "mentionsByContent names_in contents = foldl (\<lambda>m source. setItem source (names_in source) m) [] contents"

definition mentionUsernames :: "(jsstr \<Rightarrow> jsstr list) \<Rightarrow> jsstr list \<Rightarrow> jsstr list" where
  "mentionUsernames names_in contents = set_of (concat (map snd (mentionsByContent names_in contents)))"

definition requestedUsernames :: "(jsstr \<Rightarrow> jsstr list) \<Rightarrow> jsstr list \<Rightarrow> jsstr list \<Rightarrow> jsstr list" where
  "requestedUsernames names_in contents userNames =
     set_of (mentionUsernames names_in contents @ map extractUsernameFromName (set_of (filter (\<lambda>n. n \<noteq> []) userNames)))"

definition resolveUsers ::
  "jsstr list \<Rightarrow> (jsstr \<times> User option) list \<Rightarrow> jsstr list \<Rightarrow> (jsstr \<times> User option) list \<Rightarrow> jsstr list \<times> (jsstr \<times> User option) list" where
  "resolveUsers mentioned usersByUsername resolved byName =
     foldl (\<lambda>(resolved, byName) (username, user).
              case user of
                None \<Rightarrow> (resolved, byName)
              | Some u \<Rightarrow> (if username \<in> set mentioned then set_add username resolved else resolved,
                           setItem (user_name u) (Some u) byName))
       (resolved, byName) usersByUsername"

definition mentionResolution ::
  "(jsstr \<Rightarrow> jsstr list) \<Rightarrow> jsstr list \<Rightarrow> jsstr list \<Rightarrow> (jsstr \<times> User option) list option \<Rightarrow> user_resolution" where
  "mentionResolution names_in contents userNames usersByUsername =
     (let (resolved, byName) = resolveUsers (mentionUsernames names_in contents) (case usersByUsername of None \<Rightarrow> [] | Some m \<Rightarrow> m) [] []
      in \<lparr>mentionUsernamesByContent = mentionsByContent names_in contents,
          requestedUserNames = set_of (filter (\<lambda>n. n \<noteq> []) userNames),
          resolvedMentionUsernames = resolved, usersByName = byName\<rparr>)"

text \<open>The hooks. \<open>mentionUsers\<close> and \<open>own\<close> are the data of the hook's own queries.\<close>

definition usernamesToResolve :: "(jsstr \<Rightarrow> jsstr list) \<Rightarrow> user_resolution option \<Rightarrow> jsstr \<Rightarrow> jsstr list" where
  "usernamesToResolve names_in shared source =
     (case Option.bind shared (\<lambda>s. getItem (mentionUsernamesByContent s) source) of
        Some usernames \<Rightarrow> usernames
      | None \<Rightarrow> names_in source)"

definition useResolvedMentionUsernames ::
  "(jsstr \<Rightarrow> jsstr list) \<Rightarrow> user_resolution option \<Rightarrow> (jsstr \<times> User option) list option \<Rightarrow> jsstr \<Rightarrow> jsstr list" where
  "useResolvedMentionUsernames names_in shared mentionUsers source =
     (case shared of
        Some s \<Rightarrow> set_of (filter (\<lambda>username. username \<in> set (resolvedMentionUsernames s)) (usernamesToResolve names_in shared source))
      | None \<Rightarrow>
          (case mentionUsers of
             None \<Rightarrow> []
           | Some m \<Rightarrow> set_of (concat (map (\<lambda>(username, user). if user = None then [] else [username]) m))))"

definition useResolvedUser :: "user_resolution option \<Rightarrow> bool option \<Rightarrow> User option \<Rightarrow> jsstr \<Rightarrow> User option" where
  "useResolvedUser shared enabled own n =
     (let useShared = ((case enabled of None \<Rightarrow> True | Some b \<Rightarrow> b) \<and> (case shared of None \<Rightarrow> False | Some s \<Rightarrow> n \<in> set (requestedUserNames s)))
      in if useShared then Option.bind (getItem (usersByName (the shared)) n) id
         else if (case enabled of None \<Rightarrow> True | Some b \<Rightarrow> b) then own else None)"

definition useResolvedUsersByNames ::
  "user_resolution option \<Rightarrow> (jsstr \<Rightarrow> User option) \<Rightarrow> jsstr list \<Rightarrow> (jsstr \<times> User option) list" where
  "useResolvedUsersByNames shared own names =
     (let useShared = (case shared of None \<Rightarrow> False | Some s \<Rightarrow> list_all (\<lambda>n. n \<in> set (requestedUserNames s)) names)
      in if useShared
         then foldl (\<lambda>m n. setItem n (Option.bind (getItem (usersByName (the shared)) n) id) m) [] names
         else foldl (\<lambda>m n. setItem n (own n) m) [] (set_of names))"

section \<open>Reactions\<close>

definition reactionGroups :: "(jsstr \<times> User option) list \<Rightarrow> Reaction list \<Rightarrow> (jsstr \<times> User list) list" where
  "reactionGroups userMap reactions =
     foldl (\<lambda>reactionGroup reaction.
              case Option.bind (getItem userMap (reaction_creator reaction)) id of
                None \<Rightarrow> reactionGroup
              | Some user \<Rightarrow>
                  setItem (reactionType reaction)
                    ((case getItem reactionGroup (reactionType reaction) of None \<Rightarrow> [] | Some users \<Rightarrow> users) @ [user]) reactionGroup)
       [] reactions"

definition hasReacted :: "jsstr option \<Rightarrow> Memo \<Rightarrow> jsstr \<Rightarrow> bool" where
  "hasReacted currentName memo kind \<longleftrightarrow>
     list_ex (\<lambda>r. reactionType r = kind \<and> Some (reaction_creator r) = currentName) (memo_reactions memo)"

datatype reaction_request = DeleteMemoReaction jsstr | UpsertMemoReaction jsstr jsstr

definition reaction_requests :: "jsstr option \<Rightarrow> Memo \<Rightarrow> jsstr \<Rightarrow> reaction_request list" where
  "reaction_requests currentName memo kind =
     (case currentName of
        None \<Rightarrow> []
      | Some me \<Rightarrow>
          if hasReacted currentName memo kind
          then map (\<lambda>r. DeleteMemoReaction (reaction_name r))
                 (filter (\<lambda>r. reactionType r = kind \<and> reaction_creator r = me) (memo_reactions memo))
          else [UpsertMemoReaction (memo_name memo) kind])"

text \<open>After the requests: \<open>succeeded\<close> tells whether all of them succeeded, \<open>answer\<close> is what \<open>getMemo\<close> returns. Errors are dropped.\<close>

definition handleReactionClick :: "'c query_client \<Rightarrow> jsstr option \<Rightarrow> Memo \<Rightarrow> bool \<Rightarrow> (rpc_error + Memo) \<Rightarrow> 'c \<Rightarrow> 'c" where
  "handleReactionClick Q currentName memo succeeded answer c =
     (if currentName = None \<or> \<not> succeeded then c
      else case answer of
             Inl e \<Rightarrow> c
           | Inr updatedMemo \<Rightarrow>
               (let c1 = invalidateQueries Q memo_lists (setQueryData Q (memo_detail (memo_name memo)) (DetailData updatedMemo) c)
                in if truthy (memo_parent memo) then invalidateQueries Q (memo_comments (the (memo_parent memo))) c1 else c1))"

definition formatUserName :: "User \<Rightarrow> jsstr" where
  "formatUserName user = (if user_displayName user \<noteq> [] then user_displayName user else user_username user)"

definition formatReactionTooltip :: "(jsstr \<Rightarrow> jsstr) \<Rightarrow> User list \<Rightarrow> jsstr \<Rightarrow> jsstr" where
  "formatReactionTooltip lowercase users kind =
     (if users = [] then []
      else if length users < 5
      then join (js '', '') (map formatUserName users) @ js '' reacted with '' @ lowercase kind
      else join (js '', '') (map formatUserName (take 4 users)) @ js '' and '' @ dec (length users - 4) @ js '' more reacted with ''
             @ lowercase kind)"

section \<open>Names of queries\<close>

text \<open>Two lists of names share a cached query exactly when they ask for the same names.\<close>

lemma byUsernames_key_eq: "byUsernames_key (set_of xs) = byUsernames_key (set_of ys) \<longleftrightarrow> set xs = set ys"
proof -
  have "map S (sort (set_of xs)) = map S (sort (set_of ys)) \<longleftrightarrow> sort (set_of xs) = sort (set_of ys)"
    by (rule inj_map_eq_map) (simp add: inj_def)
  moreover have "sort (set_of xs) = sort (set_of ys) \<longleftrightarrow> set xs = set ys"
    by (metis distinct_set_of set_set_of set_sort sorted_list_of_set_sort_remdups distinct_remdups_id)
  ultimately show ?thesis by (simp add: byUsernames_key_def)
qed

section \<open>Maps filled in a loop\<close>

lemma getItem_Nil: "getItem [] k = None"
  by (simp add: getItem_def)

lemma getItem_filled:
  "getItem (foldl (\<lambda>m x. setItem x (f x) m) m0 xs) k = (if k \<in> set xs then Some (f k) else getItem m0 k)"
  by (induction xs arbitrary: m0) auto

lemma setItem_new: "k \<notin> fst ` set m \<Longrightarrow> setItem k v m = m @ [(k, v)]"
  by (induction m) (auto simp: setItem_def)

lemma set_setItem: "set (setItem k v m) \<subseteq> insert (k, v) (set m)"
  by (induction m) (auto simp: setItem_def)

lemma filled_distinct:
  "distinct xs \<Longrightarrow> set xs \<inter> fst ` set m0 = {} \<Longrightarrow> foldl (\<lambda>m x. setItem x (f x) m) m0 xs = m0 @ map (\<lambda>x. (x, f x)) xs"
proof (induction xs arbitrary: m0)
  case (Cons x xs)
  then have "setItem x (f x) m0 = m0 @ [(x, f x)]" by (intro setItem_new) auto
  with Cons show ?case by auto
qed simp

section \<open>Profiles are resolved\<close>

text \<open>The users of the server by their names, and answers that follow it.\<close>

definition directory :: "(jsstr \<Rightarrow> User option) \<Rightarrow> bool" where
  "directory dir \<longleftrightarrow> (\<forall>n u. dir n = Some u \<longrightarrow> user_username u = n \<and> user_name u = userNamePrefix @ n)"

definition answered :: "(jsstr \<Rightarrow> User option) \<Rightarrow> jsstr list list \<Rightarrow> (rpc_error + User list) list \<Rightarrow> bool" where
  "answered dir bs outcomes \<longleftrightarrow>
     list_all2 (\<lambda>b r. case r of Inl e \<Rightarrow> False | Inr us \<Rightarrow> \<forall>u. u \<in> set us \<longleftrightarrow> (\<exists>n \<in> set b. dir n = Some u)) bs outcomes"

lemma splitCached_missing:
  "snd (splitCached Q now c ns m missing) = missing @ filter (\<lambda>n. freshUser Q now c n = None) ns"
  by (induction ns arbitrary: m missing) (auto split: option.splits)

lemma splitCached_known:
  "getItem (fst (splitCached Q now c ns m missing)) n =
     (if n \<in> set ns \<and> freshUser Q now c n \<noteq> None then freshUser Q now c n else getItem m n)"
  by (induction ns arbitrary: m missing) (auto split: option.splits)

lemma batches_of: "concat (batchesFrom xs i) = drop i xs \<and> (\<forall>b \<in> set (batchesFrom xs i). b \<noteq> [] \<and> length b \<le> BATCH_GET_USERS_LIMIT)"
proof (induction xs i rule: batchesFrom.induct)
  case (1 xs i)
  show ?case
  proof (cases "i < length xs")
    case True
    have "slice xs i (i + BATCH_GET_USERS_LIMIT) @ drop (i + BATCH_GET_USERS_LIMIT) xs = drop i xs"
      by (simp add: slice_def add.commute flip: drop_drop)
    moreover have "slice xs i (i + BATCH_GET_USERS_LIMIT) \<noteq> []" "length (slice xs i (i + BATCH_GET_USERS_LIMIT)) \<le> BATCH_GET_USERS_LIMIT"
      using True by (simp_all add: slice_def BATCH_GET_USERS_LIMIT_def)
    ultimately show ?thesis using 1 [OF True] True by (simp add: batchesFrom.simps [of xs i])
  qed (simp add: batchesFrom.simps [of xs i])
qed

lemma answered_all:
  "answered dir bs outcomes \<Longrightarrow>
     \<exists>responses. promise_all outcomes = Inr responses \<and> (\<forall>u. u \<in> set (concat responses) \<longleftrightarrow> (\<exists>n \<in> set (concat bs). dir n = Some u))"
proof (induction bs arbitrary: outcomes)
  case Nil
  then show ?case by (simp add: answered_def)
next
  case (Cons b bs)
  then obtain r rest where r: "outcomes = r # rest" "answered dir bs rest"
    "case r of Inl e \<Rightarrow> False | Inr us \<Rightarrow> \<forall>u. u \<in> set us \<longleftrightarrow> (\<exists>n \<in> set b. dir n = Some u)"
    unfolding answered_def by (auto simp: list_all2_Cons1)
  then obtain us where "r = Inr us" "\<forall>u. u \<in> set us \<longleftrightarrow> (\<exists>n \<in> set b. dir n = Some u)" by (cases r) auto
  with r Cons.IH [of rest] show ?case by (auto simp: bex_Un)
qed

lemma storeUsers_Cons:
  "storeUsers Q (u # us) m c =
     storeUsers Q us (setItem (user_username u) u m) (setQueryData Q (user_detail (user_name u)) (UserData u) c)"
  by (simp add: storeUsers_def)

lemma storeUsers_known:
  assumes "\<forall>u \<in> set us. dir (user_username u) = Some u"
  shows "getItem (fst (storeUsers Q us m c)) n = (if n \<in> user_username ` set us then dir n else getItem m n)"
  using assms
proof (induction us arbitrary: m c)
  case Nil
  then show ?case by (simp add: storeUsers_def)
qed (auto simp: storeUsers_Cons)

lemma user_detail_inject [simp]: "user_detail n = user_detail m \<longleftrightarrow> n = m"
  by (simp add: user_detail_def)

lemma storeUsers_cache:
  assumes Q: "query_client Q" and us: "\<forall>u \<in> set us. dir (user_username u) = Some u" and dir: "directory dir"
  shows "getQueryData Q (snd (storeUsers Q us m c)) (user_detail (userNamePrefix @ n)) =
      (if n \<in> user_username ` set us then map_option UserData (dir n) else getQueryData Q c (user_detail (userNamePrefix @ n)))"
  using us
proof (induction us arbitrary: m c)
  case Nil
  then show ?case by (simp add: storeUsers_def)
next
  case (Cons u us)
  then have "user_name u = userNamePrefix @ user_username u" using dir by (auto simp: directory_def)
  with Cons show ?case by (auto simp: storeUsers_Cons query_client.get_set [OF Q])
qed

text \<open>What a query of user names answers: the fresh entry of the cache, or what the server knows.\<close>

definition profile :: "'c query_client \<Rightarrow> nat \<Rightarrow> 'c \<Rightarrow> (jsstr \<Rightarrow> User option) \<Rightarrow> jsstr \<Rightarrow> User option" where
  "profile Q now c dir n = (case freshUser Q now c n of Some u \<Rightarrow> Some u | None \<Rightarrow> dir n)"

lemma usersByUsernames_facts:
  assumes Q: "query_client Q" and dir: "directory dir" and q: "q = usersByUsernames_start Q now usernames c"
    and a: "answered dir (uq_batches q) outcomes"
  shows "\<forall>b \<in> set (uq_batches q). b \<noteq> [] \<and> length b \<le> BATCH_GET_USERS_LIMIT"
    and "concat (uq_batches q) = filter (\<lambda>n. freshUser Q now c n = None) (set_of usernames)"
    and "fst (usersByUsernames_finish Q q outcomes c') = Inr (map (\<lambda>n. (n, profile Q now c dir n)) (set_of usernames))"
    and "getQueryData Q (snd (usersByUsernames_finish Q q outcomes c')) (user_detail (userNamePrefix @ n)) =
      (if n \<in> set usernames \<and> freshUser Q now c n = None \<and> dir n \<noteq> None then map_option UserData (dir n)
       else getQueryData Q c' (user_detail (userNamePrefix @ n)))"
proof -
  let ?missing = "filter (\<lambda>n. freshUser Q now c n = None) (set_of usernames)"
  have parts: "uq_usernames q = set_of usernames" "uq_known q = fst (splitCached Q now c (set_of usernames) [] [])"
    "uq_batches q = batchesFrom ?missing 0"
    using splitCached_missing [of Q now c "set_of usernames" "[]" "[]"]
    by (simp_all add: q usersByUsernames_start_def case_prod_beta Let_def)
  show batched: "\<forall>b \<in> set (uq_batches q). b \<noteq> [] \<and> length b \<le> BATCH_GET_USERS_LIMIT"
    "concat (uq_batches q) = ?missing"
    using batches_of [of ?missing 0] by (simp_all add: parts)
  from answered_all [OF a] obtain responses where r: "promise_all outcomes = Inr responses"
    and us: "\<And>u. u \<in> set (concat responses) \<longleftrightarrow> (\<exists>n \<in> set ?missing. dir n = Some u)"
    unfolding batched(2) by blast
  have consistent: "\<forall>u \<in> set (concat responses). dir (user_username u) = Some u"
    using us dir by (auto simp: directory_def)
  have found: "n \<in> user_username ` set (concat responses) \<longleftrightarrow> n \<in> set ?missing \<and> dir n \<noteq> None" for n
    using us dir by (fastforce simp: directory_def image_iff)
  let ?stored = "storeUsers Q (concat responses) (uq_known q) c'"
  have finish: "usersByUsernames_finish Q q outcomes c' =
      (Inr (map (\<lambda>n. (n, getItem (fst ?stored) n)) (set_of usernames)), snd ?stored)"
    by (simp add: usersByUsernames_finish_def r case_prod_beta parts(1) filled_distinct)
  have "getItem (fst ?stored) n = profile Q now c dir n" if "n \<in> set usernames" for n
    using that found [of n]
    by (auto simp: storeUsers_known [OF consistent] parts(2) splitCached_known profile_def getItem_Nil split: option.splits)
  then show "fst (usersByUsernames_finish Q q outcomes c') = Inr (map (\<lambda>n. (n, profile Q now c dir n)) (set_of usernames))"
    by (simp add: finish)
  show "getQueryData Q (snd (usersByUsernames_finish Q q outcomes c')) (user_detail (userNamePrefix @ n)) =
      (if n \<in> set usernames \<and> freshUser Q now c n = None \<and> dir n \<noteq> None then map_option UserData (dir n)
       else getQueryData Q c' (user_detail (userNamePrefix @ n)))"
    using found [of n] by (simp add: finish storeUsers_cache [OF Q consistent dir])
qed

text \<open>A query of user names asks for every name once, only for those without a fresh entry in the cache and never for more than the
  limit at a time. When the server answers, the query has for every name the fresh entry or what the server knows, in the order of
  the names, and the users found are stored under their own keys and no other user's entry changes, whatever happened to the cache
  meanwhile. When one request fails, so does the query, and nothing is stored.\<close>

theorem profiles_resolved:
  assumes "query_client Q" "directory dir" "q = usersByUsernames_start Q now usernames c" "answered dir (uq_batches q) outcomes"
  shows "(\<forall>b \<in> set (uq_batches q). b \<noteq> [] \<and> length b \<le> 100)
    \<and> concat (uq_batches q) = filter (\<lambda>n. freshUser Q now c n = None) (set_of usernames)
    \<and> fst (usersByUsernames_finish Q q outcomes c') = Inr (map (\<lambda>n. (n, profile Q now c dir n)) (set_of usernames))
    \<and> getQueryData Q (snd (usersByUsernames_finish Q q outcomes c')) (user_detail (userNamePrefix @ n)) =
        (if n \<in> set usernames \<and> freshUser Q now c n = None \<and> dir n \<noteq> None then map_option UserData (dir n)
         else getQueryData Q c' (user_detail (userNamePrefix @ n)))
    \<and> (Inl e \<in> set failing \<longrightarrow> (\<exists>e'. usersByUsernames_finish Q q failing c' = (Inl e', c')))"
proof -
  have "Inl e \<in> set failing \<Longrightarrow> \<exists>e'. promise_all failing = Inl e'"
    by (induction failing) (auto split: sum.splits)
  then have "Inl e \<in> set failing \<longrightarrow> (\<exists>e'. usersByUsernames_finish Q q failing c' = (Inl e', c'))"
    by (auto simp: usersByUsernames_finish_def)
  then show ?thesis using usersByUsernames_facts [OF assms] by (simp add: BATCH_GET_USERS_LIMIT_def)
qed

definition ann :: User where
  "ann = \<lparr>user_name = js ''users/ann'', user_role = ROLE_USER, user_username = js ''ann'', user_email = [], user_displayName = [],
     user_avatarUrl = [], user_description = [], user_password = [], user_state = NORMAL, user_createTime = None, user_updateTime = None\<rparr>"

definition ann_only :: "jsstr \<Rightarrow> User option" where
  "ann_only n = (if n = js ''ann'' then Some ann else None)"

lemma ann_only_directory: "directory ann_only"
  by (auto simp: directory_def ann_only_def ann_def userNamePrefix_def js_def)

definition ann_query :: users_query where
  "ann_query = usersByUsernames_start list_client 0 [js ''ann'', js ''bob'', js ''ann''] []"

lemma ann_query_batches: "uq_batches ann_query = [[js ''ann'', js ''bob'']]"
  by (simp add: ann_query_def usersByUsernames_start_def set_of_def set_add_def js_def freshUser_def cacheIsFresh_def list_client_def
      batchesFrom.simps slice_def BATCH_GET_USERS_LIMIT_def Let_def)

lemma profiles_resolved_witness:
  "getQueryData list_client (snd (usersByUsernames_finish list_client ann_query [Inr [ann]] [])) (user_detail (js ''users/ann''))
     = Some (UserData ann)"
proof -
  have a: "answered ann_only (uq_batches ann_query) [Inr [ann]]"
    by (auto simp: answered_def ann_query_batches ann_only_def)
  have "freshUser list_client 0 [] (js ''ann'') = None" by (simp add: freshUser_def cacheIsFresh_def list_client_def)
  then show ?thesis
    using profiles_resolved [OF list_cache.query_client_axioms ann_only_directory ann_query_def a, of "[]" "js ''ann''" undefined "[]"]
    by (simp add: ann_only_def userNamePrefix_def js_def)
qed

section \<open>Resolving for a list of memos and for one memo\<close>

lemma mentionsByContent_get: "getItem (mentionsByContent names_in contents) x = (if x \<in> set contents then Some (names_in x) else None)"
  by (simp add: mentionsByContent_def getItem_filled getItem_Nil)

lemma mentionUsernames_set: "set (mentionUsernames names_in contents) = (\<Union>x \<in> set contents. set (names_in x))"
proof -
  have fill: "set (foldl (\<lambda>m x. setItem x (names_in x) m) m0 xs) \<subseteq> set m0 \<union> (\<lambda>x. (x, names_in x)) ` set xs" for m0 xs
    by (induction xs arbitrary: m0) (use set_setItem in fastforce)+
  have "set (mentionsByContent names_in contents) = (\<lambda>x. (x, names_in x)) ` set contents"
  proof
    show "set (mentionsByContent names_in contents) \<subseteq> (\<lambda>x. (x, names_in x)) ` set contents"
      using fill [of "[]" contents] by (simp add: mentionsByContent_def)
    show "(\<lambda>x. (x, names_in x)) ` set contents \<subseteq> set (mentionsByContent names_in contents)"
      using mentionsByContent_get [of names_in contents] by (auto simp: getItem_def intro!: map_of_SomeD)
  qed
  then show ?thesis by (auto simp: mentionUsernames_def)
qed

lemma resolveUsers_mentions:
  "set (fst (resolveUsers mentioned (map (\<lambda>n. (n, F n)) ns) resolved byName)) =
     set resolved \<union> {n \<in> set ns. F n \<noteq> None \<and> n \<in> set mentioned}"
proof (induction ns arbitrary: resolved byName)
  case (Cons n ns)
  then show ?case by (cases "F n") (auto simp: resolveUsers_def)
qed (simp add: resolveUsers_def)

lemma resolveUsers_names:
  assumes "\<forall>n u. F n = Some u \<longrightarrow> user_name u = userNamePrefix @ n"
  shows "getItem (snd (resolveUsers mentioned (map (\<lambda>n. (n, F n)) ns) resolved byName)) (userNamePrefix @ x) =
     (if x \<in> set ns \<and> F x \<noteq> None then Some (F x) else getItem byName (userNamePrefix @ x))"
proof (induction ns arbitrary: resolved byName)
  case (Cons n ns)
  then show ?case using assms by (cases "F n") (auto simp: resolveUsers_def)
qed (simp add: resolveUsers_def)

lemma shared_mentions:
  assumes "source \<in> set contents"
  shows "set (useResolvedMentionUsernames names_in
      (Some (mentionResolution names_in contents userNames (Some (map (\<lambda>n. (n, F n)) (set_of (requestedUsernames names_in contents userNames))))))
      own source) = {n \<in> set (names_in source). F n \<noteq> None}"
  using assms
  by (auto simp: useResolvedMentionUsernames_def usernamesToResolve_def mentionResolution_def case_prod_beta mentionsByContent_get
      resolveUsers_mentions mentionUsernames_set requestedUsernames_def Let_def)

lemma own_mentions:
  "set (useResolvedMentionUsernames names_in None (Some (map (\<lambda>n. (n, F n)) (set_of (names_in source)))) source) =
     {n \<in> set (names_in source). F n \<noteq> None}"
  by (auto simp: useResolvedMentionUsernames_def split: if_splits)

lemma shared_user:
  assumes "\<forall>n u. F n = Some u \<longrightarrow> user_name u = userNamePrefix @ n" "userNamePrefix @ x \<in> set userNames"
  shows "useResolvedUser
      (Some (mentionResolution names_in contents userNames (Some (map (\<lambda>n. (n, F n)) (set_of (requestedUsernames names_in contents userNames))))))
      None own (userNamePrefix @ x) = F x"
proof -
  have "x = extractUsernameFromName (userNamePrefix @ x)" by (simp add: extractUsernameFromName_def startsWith_def)
  moreover have "userNamePrefix @ x \<noteq> []" by (simp add: userNamePrefix_def js_def)
  ultimately have "x \<in> set (requestedUsernames names_in contents userNames)" "userNamePrefix @ x \<in> set (filter (\<lambda>n. n \<noteq> []) userNames)"
    using assms(2) by (auto simp: requestedUsernames_def)
  then show ?thesis
    by (auto simp: useResolvedUser_def mentionResolution_def case_prod_beta resolveUsers_names [OF assms(1)] getItem_Nil Let_def)
qed

text \<open>A user is cached under its own name.\<close>

definition users_named :: "'c query_client \<Rightarrow> 'c \<Rightarrow> bool" where
  "users_named Q c \<longleftrightarrow> (\<forall>n u. cachedUser Q c n = Some u \<longrightarrow> user_name u = n)"

lemma profile_named:
  "users_named Q c \<Longrightarrow> directory dir \<Longrightarrow> \<forall>n u. profile Q now c dir n = Some u \<longrightarrow> user_name u = userNamePrefix @ n"
  by (auto simp: profile_def freshUser_def users_named_def directory_def split: option.splits if_splits)

text \<open>C28. A page that asks once for all mentions and creators of its memos shows in every memo exactly the mentions as links that the memo
  would by itself, and every creator as the user it would find by its name: as the fresh entry of the cache or as the server knows
  it.\<close>

theorem shared_resolution_agrees:
  assumes Q: "query_client Q" and dir: "directory dir" and named: "users_named Q c"
    and names_in: "names_in = mentionUsernamesIn M parse trie k"
    and q: "q = usersByUsernames_start Q now (requestedUsernames names_in contents userNames) c" "answered dir (uq_batches q) outcomes"
      "usersByUsernames_finish Q q outcomes c1 = (Inr shared, c2)"
    and own: "q' = usersByUsernames_start Q now (names_in source) c" "answered dir (uq_batches q') outcomes'"
      "usersByUsernames_finish Q q' outcomes' c3 = (Inr alone, c4)"
    and source: "source \<in> set contents" and x: "userNamePrefix @ x \<in> set userNames"
  shows "set (useResolvedMentionUsernames names_in (Some (mentionResolution names_in contents userNames (Some shared))) None source)
      = set (useResolvedMentionUsernames names_in None (Some alone) source)
    \<and> useResolvedUser (Some (mentionResolution names_in contents userNames (Some shared))) None None (userNamePrefix @ x)
      = profile Q now c dir x"
proof -
  have "shared = map (\<lambda>n. (n, profile Q now c dir n)) (set_of (requestedUsernames names_in contents userNames))"
    using usersByUsernames_facts(3) [OF Q dir q(1,2), of c1] q(3) by simp
  moreover have "alone = map (\<lambda>n. (n, profile Q now c dir n)) (set_of (names_in source))"
    using usersByUsernames_facts(3) [OF Q dir own(1,2), of c3] own(3) by simp
  ultimately show ?thesis
    by (simp only: shared_mentions [OF source] own_mentions shared_user [OF profile_named [OF named dir] x])
qed

text \<open>A server that answers from a directory.\<close>

definition replies :: "(jsstr \<Rightarrow> User option) \<Rightarrow> jsstr list list \<Rightarrow> (rpc_error + User list) list" where
  "replies dir bs = map (\<lambda>b. Inr (List.map_filter dir b)) bs"

lemma answered_replies: "answered dir bs (replies dir bs)"
  by (auto simp: answered_def replies_def list_all2_map2 list_all2_same map_filter_def image_iff intro: rev_bexI)

definition sample_names :: "jsstr \<Rightarrow> jsstr list" where
  "sample_names = mentionUsernamesIn sample_lib (\<lambda>source. sample_tree) (emojiTrie []) 1"

definition page_query :: users_query where
  "page_query = usersByUsernames_start list_client 0 (requestedUsernames sample_names [js ''#a''] [userNamePrefix @ js ''ann'']) []"

definition memo_query :: users_query where
  "memo_query = usersByUsernames_start list_client 0 (sample_names (js ''#a'')) []"

lemma shared_resolution_agrees_witness:
  "\<exists>shared c. usersByUsernames_finish list_client page_query (replies ann_only (uq_batches page_query)) [] = (Inr shared, c)
    \<and> useResolvedUser (Some (mentionResolution sample_names [js ''#a''] [userNamePrefix @ js ''ann''] (Some shared))) None None
        (userNamePrefix @ js ''ann'') = Some ann"
proof -
  have split: "fst p = Inr y \<Longrightarrow> \<exists>c. p = (Inr y, c)" for p :: "(rpc_error + (jsstr \<times> User option) list) \<times> query_list" and y
    by (cases p) simp
  note finished = split [OF usersByUsernames_facts(3) [OF list_cache.query_client_axioms ann_only_directory _ answered_replies]]
  obtain shared c where s: "usersByUsernames_finish list_client page_query (replies ann_only (uq_batches page_query)) [] = (Inr shared, c)"
    using finished [OF page_query_def, of "[]"] by blast
  obtain alone c' where a: "usersByUsernames_finish list_client memo_query (replies ann_only (uq_batches memo_query)) [] = (Inr alone, c')"
    using finished [OF memo_query_def, of "[]"] by blast
  have "users_named list_client []" by (simp add: users_named_def cachedUser_def list_client_def)
  then have "useResolvedUser (Some (mentionResolution sample_names [js ''#a''] [userNamePrefix @ js ''ann''] (Some shared))) None None
      (userNamePrefix @ js ''ann'') = profile list_client 0 [] ann_only (js ''ann'')"
    using shared_resolution_agrees [OF list_cache.query_client_axioms ann_only_directory _ sample_names_def page_query_def answered_replies s
        memo_query_def answered_replies a, of "js ''ann''"] by simp
  moreover have "profile list_client 0 [] ann_only (js ''ann'') = Some ann"
    by (simp add: profile_def freshUser_def cacheIsFresh_def list_client_def ann_only_def)
  ultimately show ?thesis using s by auto
qed

section \<open>Notifications and lists\<close>

lemma updateCachedNotifications_get:
  assumes "query_client Q"
  shows "getQueryData Q (updateCachedNotifications Q f c) k =
    (case Option.bind (getQueryData Q c k) notifications_of of
       Some ns \<Rightarrow> if k = user_notifications then Some (NotificationList (f ns)) else getQueryData Q c k
     | None \<Rightarrow> getQueryData Q c k)"
  by (auto simp: updateCachedNotifications_def query_client.get_set [OF assms] split: option.splits)

text \<open>Archiving a notification replaces its entry in the cached list, deleting removes it; the others keep their places, no other query
  changes, and a list that was not loaded is not made up.\<close>

theorem notifications_updated:
  assumes Q: "query_client Q"
  shows "getQueryData Q (archiveNotification_onSuccess Q updated c) user_notifications =
      (case Option.bind (getQueryData Q c user_notifications) notifications_of of
         Some ns \<Rightarrow> Some (NotificationList (map (\<lambda>n. if nt_name n = nt_name updated then updated else n) ns))
       | None \<Rightarrow> getQueryData Q c user_notifications)
    \<and> getQueryData Q (deleteNotification_onSuccess Q name c) user_notifications =
      (case Option.bind (getQueryData Q c user_notifications) notifications_of of
         Some ns \<Rightarrow> Some (NotificationList (filter (\<lambda>n. nt_name n \<noteq> name) ns))
       | None \<Rightarrow> getQueryData Q c user_notifications)
    \<and> (k \<noteq> user_notifications \<longrightarrow> getQueryData Q (archiveNotification_onSuccess Q updated c) k = getQueryData Q c k
         \<and> getQueryData Q (deleteNotification_onSuccess Q name c) k = getQueryData Q c k)"
  by (auto simp: archiveNotification_onSuccess_def deleteNotification_onSuccess_def updateCachedNotifications_get [OF Q]
      query_client.get_invalidate [OF Q] split: option.splits)

text \<open>The list of users has every page of the server.\<close>

lemma listUsers_complete: "serves call [] w ps w' \<Longrightarrow> listUsers call w = Some (Inr (concat ps), w')"
  by (simp add: listUsers_def drainPages_serves)

text \<open>Counts of tags over all users are the sums over the users.\<close>

lemma tagCounts_all:
  assumes "tagCounts_queryFn getUserStats (Inr stats) False currentName = Inr data"
  shows "count_of tag (tagCounts_select data) =
    sum_list (map (\<lambda>s. sum_list (map snd (filter (\<lambda>e. fst e = tag) (case tagCount s of None \<Rightarrow> [] | Some es \<Rightarrow> es)))) stats)"
proof -
  have "data = Inr (mergeTagCounts (map tagCount stats))" using assms by (simp add: tagCounts_queryFn_def)
  then have "count_of tag (tagCounts_select data) =
      sum_list (map snd (filter (\<lambda>e. fst e = tag) (concat (map (\<lambda>s. case tagCount s of None \<Rightarrow> [] | Some es \<Rightarrow> es) stats))))"
    by (simp add: tagCounts_select_def merged_count comp_def)
  also have "\<dots> = sum_list (map (\<lambda>s. sum_list (map snd (filter (\<lambda>e. fst e = tag) (case tagCount s of None \<Rightarrow> [] | Some es \<Rightarrow> es)))) stats)"
    by (induction stats) simp_all
  finally show ?thesis .
qed

section \<open>Reactions are grouped\<close>

definition reactors :: "(jsstr \<times> User option) list \<Rightarrow> Reaction list \<Rightarrow> jsstr \<Rightarrow> User list" where
  "reactors userMap reactions kind =
     List.map_filter (\<lambda>r. if reactionType r = kind then Option.bind (getItem userMap (reaction_creator r)) id else None) reactions"

text \<open>A group has the known users that reacted in its way, in the order of their reactions, and no group is empty.\<close>

theorem reactions_grouped:
  "getItem (reactionGroups userMap reactions) kind =
     (if reactors userMap reactions kind = [] then None else Some (reactors userMap reactions kind))"
proof (induction reactions rule: rev_induct)
  case Nil
  then show ?case by (simp add: reactionGroups_def reactors_def getItem_Nil)
next
  case (snoc r rs)
  have step: "reactors userMap (rs @ [r]) kind = reactors userMap rs kind
      @ (case Option.bind (getItem userMap (reaction_creator r)) id of Some u \<Rightarrow> if reactionType r = kind then [u] else [] | None \<Rightarrow> [])"
    by (simp add: reactors_def map_filter_def split: option.splits)
  show ?case using snoc
    by (cases "Option.bind (getItem userMap (reaction_creator r)) id") (auto simp: step reactionGroups_def)
qed

text \<open>A click takes back exactly the own reactions of that kind, or adds one when there is none; it is not sent without a user.\<close>

theorem click_toggles_own_reaction:
  "reaction_requests None memo kind = []
    \<and> (if hasReacted (Some me) memo kind
       then reaction_requests (Some me) memo kind \<noteq> []
         \<and> (DeleteMemoReaction n \<in> set (reaction_requests (Some me) memo kind)
              \<longleftrightarrow> (\<exists>r \<in> set (memo_reactions memo). reaction_name r = n \<and> reaction_creator r = me \<and> reactionType r = kind))
       else reaction_requests (Some me) memo kind = [UpsertMemoReaction (memo_name memo) kind])"
  by (auto simp: reaction_requests_def hasReacted_def list_ex_iff filter_empty_conv)

end
