(* ===== verification/Editor_Open.thy ===== *)
theory Editor_Open
  imports Memo_Save Memo_Filters
begin

text \<open>
  Opening the editor (\<^verbatim>\<open>web/src/components/MemoEditor/hooks/useMemoInit.ts\<close>, with the effects of
  \<^verbatim>\<open>web/src/components/MemoEditor/index.tsx\<close> that follow it) on a memo or on a stored draft, and the search for a memo to link to
  (\<^verbatim>\<open>web/src/components/MemoEditor/hooks/useLinkMemo.ts\<close>, \<^verbatim>\<open>web/src/hooks/useDebouncedEffect.ts\<close>).

  What is shown together here was shown of the parts before: the draft cache, the reducer and the conversion of a memo.
\<close>

section \<open>Opening the editor\<close>

record editor_defaults =
  default_visibility :: "Visibility option"
  default_createTime :: "int option"
  default_location :: "Location option"

definition no_metadata :: PartialMetadata where
  "no_metadata = \<lparr>p_visibility = None, p_attachments = None, p_relations = None, p_location = None\<rparr>"

text \<open>The actions that the effect dispatches for a draft.\<close>

definition draft_actions :: "EditorDraft \<Rightarrow> editor_defaults \<Rightarrow> EditorAction list" where
  "draft_actions cachedDraft d =
     (if draft_content cachedDraft \<noteq> [] then [setContent (draft_content cachedDraft)] else [])
     @ (if length (draft_attachments cachedDraft) > 0
        then [setMetadata (no_metadata\<lparr>p_attachments := Some (draft_attachments cachedDraft)\<rparr>)] else [])
     @ [setMetadata (no_metadata\<lparr>p_location := Some (case draft_location cachedDraft of
          Some None \<Rightarrow> None | Some (Some l) \<Rightarrow> Some l | None \<Rightarrow> default_location d)\<rparr>)]
     @ (case default_visibility d of None \<Rightarrow> [] | Some v \<Rightarrow> [setMetadata (no_metadata\<lparr>p_visibility := Some v\<rparr>)])
     @ (case default_createTime d of
          None \<Rightarrow> [] | Some t \<Rightarrow> [setTimestamps \<lparr>p_createTime = Some (Some t), p_updateTime = Some (Some t)\<rparr>])"

text \<open>What is to happen after a tenth of a second: a cursor to restore, and whether the editor asks for the focus.\<close>

record opened =
  op_state :: EditorState
  op_cache :: cache
  op_timer :: "nat option option"
  op_initialized :: bool

text \<open>The effect. \<open>autoFocus\<close> tells whether the property is given; a function counts as given.\<close>

definition useMemoInit ::
  "'w memo_api \<Rightarrow> (entry \<Rightarrow> jsstr) \<Rightarrow> Memo option \<Rightarrow> jsstr \<Rightarrow> jsstr option \<Rightarrow> bool \<Rightarrow> editor_defaults \<Rightarrow> opened \<Rightarrow> opened" where
  "useMemoInit A raw memo username cacheKey autoFocus d s =
     (if op_initialized s then s
      else
        let key = cache_key username cacheKey;
            (actions, c) = (case memo of
               Some m \<Rightarrow> (let (text, meta, ts) = fromMemo A m in ([initMemo text meta ts], cache_clear key (op_cache s)))
             | None \<Rightarrow> (draft_actions (loadDraft raw key (op_cache s)) d, op_cache s));
            cachedCursor = loadCursor key c
        in \<lparr>op_state = foldl editorReducer (op_state s) actions, op_cache = c,
            op_timer = (if autoFocus \<or> cachedCursor \<noteq> None then Some cachedCursor else None), op_initialized = True\<rparr>)"

text \<open>The cleanup of the effect.\<close>

definition useMemoInit_cleanup :: "opened \<Rightarrow> opened" where
  "useMemoInit_cleanup s = s\<lparr>op_timer := None\<rparr>"

text \<open>The creation time follows the calendar while a new memo is written.\<close>

definition sync_timestamps :: "Memo option \<Rightarrow> int option \<Rightarrow> opened \<Rightarrow> opened" where
  "sync_timestamps memo defaultCreateTime s =
     (if memo \<noteq> None \<or> \<not> op_initialized s then s
      else s\<lparr>op_state := editorReducer (op_state s)
               (setTimestamps \<lparr>p_createTime = Some defaultCreateTime, p_updateTime = Some defaultCreateTime\<rparr>)\<rparr>)"

text \<open>Autosave starts when the editor is initialized and shows no memo; it keeps the draft of its first render until then.\<close>

definition autosave_starts :: "jsstr \<Rightarrow> jsstr option \<Rightarrow> Memo option \<Rightarrow> EditorDraft \<Rightarrow> opened \<Rightarrow> autosave" where
  "autosave_starts username cacheKey memo firstDraft s =
     (let a = \<lparr>as_key = cache_key username cacheKey, latestDraft = firstDraft, discardedDraft = None, as_cache = op_cache s\<rparr>
      in if op_initialized s \<and> memo = None then persist (editor_draft (op_state s)) a else a)"

definition mount_editor :: "bool \<Rightarrow> cache \<Rightarrow> opened" where
  "mount_editor initialFocusMode c =
     \<lparr>op_state = createInitialState initialFocusMode, op_cache = c, op_timer = None, op_initialized = False\<rparr>"

text \<open>Leaving and loading the page again: only the browser's storage is kept.\<close>

definition page_reload :: "cache \<Rightarrow> cache" where
  "page_reload c = empty_cache\<lparr>drafts := drafts c\<rparr>"

section \<open>Searching for a memo to link\<close>

record link_search =
  isOpen :: bool
  searchText :: jsstr
  isFetching :: bool
  fetchedMemos :: "Memo list"
  debounced :: bool
  fetches :: "jsstr list"

definition link_mount :: "bool \<Rightarrow> link_search" where
  "link_mount b = \<lparr>isOpen = b, searchText = [], isFetching = True, fetchedMemos = [], debounced = True, fetches = []\<rparr>"

text \<open>A change of a dependency restarts the timer; opening also empties the search text.\<close>

definition set_open :: "bool \<Rightarrow> link_search \<Rightarrow> link_search" where
  "set_open b s =
     (if b = isOpen s then s else s\<lparr>isOpen := b, searchText := (if b then [] else searchText s), debounced := True\<rparr>)"

definition setSearchText :: "jsstr \<Rightarrow> link_search \<Rightarrow> link_search" where
  "setSearchText t s = (if t = searchText s then s else s\<lparr>searchText := t, debounced := True\<rparr>)"

definition link_filter :: "jsstr option \<Rightarrow> jsstr \<Rightarrow> jsstr" where
  "link_filter userName t =
     join (js '' && '')
       ((case buildMemoCreatorFilter (case userName of None \<Rightarrow> [] | Some n \<Rightarrow> n) of None \<Rightarrow> [] | Some q \<Rightarrow> [q])
        @ (if t \<noteq> [] then [js ''content.contains('' @ [34] @ t @ [34] @ js '')''] else []))"

text \<open>The timer fires; the requests that wait for an answer are kept with their search texts.\<close>

definition search_timer_fires :: "link_search \<Rightarrow> link_search" where
  "search_timer_fires s =
     (if \<not> debounced s then s
      else if \<not> isOpen s then s\<lparr>debounced := False\<rparr>
      else s\<lparr>debounced := False, isFetching := True, fetches := fetches s @ [searchText s]\<rparr>)"

definition search_answered :: "nat \<Rightarrow> Memo list option \<Rightarrow> link_search \<Rightarrow> link_search" where
  "search_answered i answer s =
     (if i < length (fetches s)
      then s\<lparr>fetches := take i (fetches s) @ drop (Suc i) (fetches s), isFetching := False,
             fetchedMemos := (case answer of None \<Rightarrow> fetchedMemos s | Some ms \<Rightarrow> ms)\<rparr>
      else s)"

definition filteredMemos :: "jsstr option \<Rightarrow> link_search \<Rightarrow> Memo list" where
  "filteredMemos currentMemoName s = filter (\<lambda>memo. Some (memo_name memo) \<noteq> currentMemoName) (fetchedMemos s)"

definition isAlreadyLinked :: "MemoRelation list \<Rightarrow> jsstr \<Rightarrow> bool" where
  "isAlreadyLinked existingRelations memoName \<longleftrightarrow>
     memoName \<in> set (List.map_filter (\<lambda>r. map_option rm_name (rel_relatedMemo r)) existingRelations)"

definition addMemoRelation :: "Memo \<Rightarrow> MemoRelation" where
  "addMemoRelation memo =
     \<lparr>rel_memo = None, rel_relatedMemo = Some \<lparr>rm_name = memo_name memo, rm_snippet = memo_snippet memo\<rparr>, rel_type = REFERENCE\<rparr>"

section \<open>A draft is opened as it was left\<close>

lemma loadDraft_reload: "loadDraft raw key (page_reload c) = loadDraft raw key c"
  by (simp add: loadDraft_def page_reload_def)

lemma draft_actions_state:
  assumes "content e = []" "meta_attachments (metadata e) = []"
  shows "content (foldl editorReducer e (draft_actions draft d)) = draft_content draft"
    "meta_attachments (metadata (foldl editorReducer e (draft_actions draft d))) = draft_attachments draft"
    "meta_location (metadata (foldl editorReducer e (draft_actions draft d))) =
       (case draft_location draft of None \<Rightarrow> default_location d | Some l \<Rightarrow> l)"
    "meta_visibility (metadata (foldl editorReducer e (draft_actions draft d))) =
       (case default_visibility d of None \<Rightarrow> meta_visibility (metadata e) | Some v \<Rightarrow> v)"
  using assms
  by (cases "draft_content draft = []"; cases "draft_attachments draft = []"; cases "default_visibility d"; cases "default_createTime d";
      simp add: draft_actions_def no_metadata_def setContent_def setMetadata_def setTimestamps_def override_def split: option.splits)+

lemma opened_draft:
  assumes s: "s = useMemoInit A raw None username cacheKey focus d (mount_editor fm c)"
    and draft: "draft = loadDraft raw (cache_key username cacheKey) c"
  shows "content (op_state s) = draft_content draft" "meta_attachments (metadata (op_state s)) = draft_attachments draft"
    "meta_location (metadata (op_state s)) = (case draft_location draft of None \<Rightarrow> default_location d | Some l \<Rightarrow> l)"
    "meta_visibility (metadata (op_state s)) = (case default_visibility d of None \<Rightarrow> PRIVATE | Some v \<Rightarrow> v)"
    "op_cache s = c" "op_initialized s"
proof -
  have op: "op_state s = foldl editorReducer (createInitialState fm) (draft_actions draft d)" "op_cache s = c" "op_initialized s"
    by (simp_all add: s draft useMemoInit_def mount_editor_def Let_def)
  have e: "content (createInitialState fm) = []" "meta_attachments (metadata (createInitialState fm)) = []"
    "meta_visibility (metadata (createInitialState fm)) = PRIVATE"
    by (simp_all add: createInitialState_def defaultState_def)
  show "content (op_state s) = draft_content draft" "meta_attachments (metadata (op_state s)) = draft_attachments draft"
    "meta_location (metadata (op_state s)) = (case draft_location draft of None \<Rightarrow> default_location d | Some l \<Rightarrow> l)"
    "meta_visibility (metadata (op_state s)) = (case default_visibility d of None \<Rightarrow> PRIVATE | Some v \<Rightarrow> v)"
    "op_cache s = c" "op_initialized s"
    using draft_actions_state [OF e(1,2), of draft d] e(3) op by (simp_all cong: option.case_cong)
qed

text \<open>C8. A draft that is flushed when its page is left is opened again with the same text, attachments and location; a location that was
  removed stays removed although the page has one to offer. Opening does not change what is stored: when autosave starts and its timer
  fires, the entry is the one that was there. An empty draft opens as an empty editor with the location that the page offers.\<close>

theorem draft_reopens:
  assumes live: "discardedDraft a \<noteq> Some (latestDraft a)" "latestDraft a = editor_draft e" "as_key a = cache_key username cacheKey"
    and s: "s = useMemoInit A raw None username cacheKey focus d (mount_editor fm (page_reload (as_cache (flushDraft a))))"
    and b: "b = autosave_starts username cacheKey None firstDraft s"
  shows "(if trim (content e) \<noteq> [] \<or> meta_attachments (metadata e) \<noteq> []
      then editor_draft (op_state s) = editor_draft e
      else editor_draft (op_state s) = \<lparr>draft_content = [], draft_attachments = [], draft_location = Some (default_location d)\<rparr>)
    \<and> getItem (drafts (timer_fires (next_timer (op_cache s)) (as_cache b))) (as_key a) = getItem (drafts (as_cache (flushDraft a))) (as_key a)"
proof -
  let ?c = "page_reload (as_cache (flushDraft a))"
  have loaded: "loadDraft raw (as_key a) ?c =
      (if trim (content e) \<noteq> [] \<or> meta_attachments (metadata e) \<noteq> [] then editor_draft e
       else \<lparr>draft_content = [], draft_attachments = [], draft_location = None\<rparr>)"
    using flushed_draft_loads [OF live(1), of "meta_location (metadata e)" raw] live(2)
    by (simp add: loadDraft_reload editor_draft_def)
  note o = opened_draft [OF s, OF loaded [unfolded live(3), symmetric]]
  have draft: "editor_draft (op_state s) = (if trim (content e) \<noteq> [] \<or> meta_attachments (metadata e) \<noteq> [] then editor_draft e
      else \<lparr>draft_content = [], draft_attachments = [], draft_location = Some (default_location d)\<rparr>)"
    using o(1,2,3) by (simp add: editor_draft_def)
  have stored: "getItem (drafts (as_cache (flushDraft a))) (as_key a) =
      (if trim (content e) \<noteq> [] \<or> meta_attachments (metadata e) \<noteq> []
       then Some (serializeDraft (content e) (meta_attachments (metadata e)) (meta_location (metadata e))) else None)"
    using live(1,2) by (auto simp: flushDraft_def saveNow_def getItem_writeEntry editor_draft_def or_null_def split: option.splits)
  have "cache_inv (op_cache s)" using empty_cache_inv by (simp add: o(5) page_reload_def cache_inv_def timer_key_def)
  note fired = debounce_last_wins [OF this, THEN conjunct2, THEN conjunct1]
  have "as_cache b = cache_save (as_key a) (draft_content (editor_draft (op_state s))) (draft_attachments (editor_draft (op_state s)))
      (or_null (draft_location (editor_draft (op_state s)))) (op_cache s)"
    by (simp add: b autosave_starts_def o(6) persist_def live(3))
  then have "getItem (drafts (timer_fires (next_timer (op_cache s)) (as_cache b))) (as_key a) =
      (if trim (draft_content (editor_draft (op_state s))) \<noteq> [] \<or> draft_attachments (editor_draft (op_state s)) \<noteq> []
       then Some (serializeDraft (draft_content (editor_draft (op_state s))) (draft_attachments (editor_draft (op_state s)))
              (or_null (draft_location (editor_draft (op_state s))))) else None)"
    using fired [of "as_key a @ [0]" "as_key a"] by simp
  with draft stored show ?thesis by (auto simp: editor_draft_def or_null_def trim_def trimStart_def trimEnd_def)
qed

text \<open>A host page with a location to offer; the draft was left without one.\<close>

definition left_state :: EditorState where
  "left_state = defaultState\<lparr>content := js ''a''\<rparr>"

definition left_draft :: autosave where
  "left_draft = \<lparr>as_key = cache_key (js ''users/ann'') None, latestDraft = editor_draft left_state, discardedDraft = None, as_cache = empty_cache\<rparr>"

definition map_defaults :: editor_defaults where
  "map_defaults = \<lparr>default_visibility = None, default_createTime = None,
     default_location = Some \<lparr>placeholder = js ''here'', latitude = 0, longitude = 0\<rparr>\<rparr>"

lemma draft_reopens_witness:
  "editor_draft (op_state (useMemoInit demo_api (\<lambda>r. []) None (js ''users/ann'') None True map_defaults
      (mount_editor False (page_reload (as_cache (flushDraft left_draft)))))) = editor_draft left_state"
  using draft_reopens [of left_draft left_state "js ''users/ann''" None, OF _ _ _ refl refl, THEN conjunct1]
  by (simp add: left_draft_def left_state_def js_def trim_def trimStart_def trimEnd_def isWhiteSpace_def)

text \<open>A memo is opened as it is, whatever draft is stored under the same key, and that draft and its cursor are dropped. The effect does
  its work once: a later run changes nothing.\<close>

theorem memo_opens_as_saved:
  assumes "s = useMemoInit A raw (Some m) username cacheKey focus d (mount_editor fm c)"
  shows "(content (op_state s), metadata (op_state s), timestamps (op_state s)) = fromMemo A m
    \<and> getItem (drafts (op_cache s)) (cache_key username cacheKey) = None
    \<and> op_timer s = (if focus then Some None else None)
    \<and> useMemoInit A raw memo' username' cacheKey' focus' d' s = s"
  using assms
  by (auto simp: useMemoInit_def mount_editor_def fromMemo_def initMemo_def Let_def cache_clear_def loadCursor_def)

lemma memo_opens_as_saved_witness:
  "content (op_state (useMemoInit demo_api (\<lambda>r. []) (Some (empty_memo\<lparr>memo_content := js ''a''\<rparr>)) [] None False map_defaults
      (mount_editor False empty_cache))) = js ''a''"
  using memo_opens_as_saved [OF refl, of demo_api "\<lambda>r. []" "empty_memo\<lparr>memo_content := js ''a''\<rparr>" "[]" None False map_defaults False empty_cache]
  by (simp add: fromMemo_def)

section \<open>Searching\<close>

text \<open>The list never offers the memo that is edited, and a memo that was added as a relation is marked as linked.\<close>

lemma link_candidates:
  "m \<in> set (filteredMemos (Some n) s) \<Longrightarrow> memo_name m \<noteq> n"
  "isAlreadyLinked (rs @ [addMemoRelation m]) (memo_name m)"
  by (simp_all add: filteredMemos_def isAlreadyLinked_def addMemoRelation_def map_filter_def)

text \<open>Runs of the search. Every request was sent while the menu was open, and \<open>isFetching\<close> is set while no answer has arrived.\<close>

inductive link_run :: "bool \<Rightarrow> link_search \<Rightarrow> bool" for b where
  mounted: "link_run b (link_mount b)"
| opens: "link_run b s \<Longrightarrow> link_run b (set_open x s)"
| typed: "link_run b s \<Longrightarrow> link_run b (setSearchText t s)"
| timer: "link_run b s \<Longrightarrow> link_run b (search_timer_fires s)"
| answer: "link_run b s \<Longrightarrow> i < length (fetches s) \<Longrightarrow> link_run b (search_answered i r s)"

text \<open>When the menu is open and neither a timer nor a request is pending, a request for the text shown was sent last.\<close>

definition quiet :: "link_search \<Rightarrow> bool" where
  "quiet s \<longleftrightarrow> isOpen s \<and> \<not> debounced s \<and> fetches s = []"

lemma link_run_fetching: "link_run b s \<Longrightarrow> quiet s \<Longrightarrow> \<not> isFetching s"
proof (induction rule: link_run.induct)
  case (answer s i r)
  then show ?case by (auto simp: search_answered_def)
qed (auto simp: quiet_def link_mount_def set_open_def setSearchText_def search_timer_fires_def split: if_splits)

text \<open>A request is not withdrawn when the text changes, and its answer is not told apart: when it arrives last, the list shows the memos
  of the older text under the newer one, with nothing pending.\<close>

lemma older_search_shown:
  assumes "m \<noteq> m'"
  shows "\<exists>s. link_run True s \<and> quiet s \<and> searchText s = js ''ab'' \<and> fetchedMemos s = [m]
    \<and> (\<exists>s0. link_run True s0 \<and> fetches s0 = [js ''a'', js ''ab'']
        \<and> s = search_answered 0 (Some [m]) (search_answered 1 (Some [m']) s0))"
proof -
  let ?s0 = "search_timer_fires (setSearchText (js ''ab'') (search_timer_fires (setSearchText (js ''a'') (link_mount True))))"
  have run: "link_run True ?s0" by (intro link_run.intros)
  have s0: "fetches ?s0 = [js ''a'', js ''ab'']" "searchText ?s0 = js ''ab''" "isOpen ?s0" "\<not> debounced ?s0"
    by (simp_all add: search_timer_fires_def setSearchText_def link_mount_def js_def)
  have "link_run True (search_answered 0 (Some [m]) (search_answered 1 (Some [m']) ?s0))"
    by (intro link_run.answer run) (simp_all add: s0 search_answered_def)
  then show ?thesis using run s0
    by (intro exI [of _ "search_answered 0 (Some [m]) (search_answered 1 (Some [m']) ?s0)"]) (auto simp: quiet_def search_answered_def)
qed

text \<open>The text is written into the condition as it is. A quotation mark ends the literal, so that what follows it is read as part of the
  condition; the search of the page writes the same text as one literal.\<close>

lemma link_filter_not_escaped:
  "\<exists>q. link_filter None [34, 97] = js ''content.contains('' @ q \<and> readLiteral q = Some ([], js ''a'' @ [34] @ js '')'')"
  by (simp add: link_filter_def buildMemoCreatorFilter_def readLiteral_def js_def)

end
