(* ===== verification/Memo_Actions.thy ===== *)
theory Memo_Actions
  imports Query_Cache Markdown_Edit Routes Attachments
begin

text \<open>
  What the menu of a memo does (\<^verbatim>\<open>web/src/components/MemoActionMenu/hooks.ts\<close>), links that share a memo
  (\<^verbatim>\<open>web/src/hooks/useMemoShareQueries.ts\<close>), the choices of visibility (\<^verbatim>\<open>web/src/utils/memo.ts\<close>) and the gallery of a memo's pictures
  (\<^verbatim>\<open>web/src/components/MemoMetadata/Attachment/visualGalleryLayout.ts\<close>).

  The mutations are those of the memo cache: an update is shown at once, and its request is answered later.
\<close>

section \<open>Choices of visibility\<close>

record VisibilityOption =
  vo_value :: Visibility
  vo_name :: jsstr
  vo_labelKey :: jsstr
  vo_descriptionKey :: jsstr
  vo_requiresSpace :: bool

definition visibility_option :: "Visibility \<Rightarrow> string \<Rightarrow> string \<Rightarrow> bool \<Rightarrow> VisibilityOption" where
  "visibility_option v name key space =
     \<lparr>vo_value = v, vo_name = js name, vo_labelKey = js (''memo.visibility.'' @ key),
      vo_descriptionKey = js (''memo.visibility.'' @ key @ ''-description''), vo_requiresSpace = space\<rparr>"

definition VISIBILITY_OPTIONS :: "VisibilityOption list" where
  "VISIBILITY_OPTIONS =
     [visibility_option PRIVATE ''PRIVATE'' ''private'' False, visibility_option SPACE ''SPACE'' ''space'' True,
      visibility_option PROTECTED ''PROTECTED'' ''protected'' False, visibility_option PUBLIC ''PUBLIC'' ''public'' False]"

definition getVisibilityOption :: "Visibility \<Rightarrow> VisibilityOption option" where
  "getVisibilityOption v = List.find (\<lambda>opt. vo_value opt = v) VISIBILITY_OPTIONS"

definition getAssignableVisibilityOptions :: "bool \<Rightarrow> Visibility option \<Rightarrow> VisibilityOption list" where
  "getAssignableVisibilityOptions hasSpacePlacement current =
     filter (\<lambda>opt. \<not> vo_requiresSpace opt \<or> hasSpacePlacement \<or> Some (vo_value opt) = current) VISIBILITY_OPTIONS"

definition DEFAULT_VISIBILITY_OPTIONS :: "VisibilityOption list" where
  "DEFAULT_VISIBILITY_OPTIONS = filter (\<lambda>opt. \<not> vo_requiresSpace opt) VISIBILITY_OPTIONS"

definition convertVisibilityFromString :: "jsstr \<Rightarrow> Visibility" where
  "convertVisibilityFromString s =
     (case List.find (\<lambda>opt. vo_name opt = s) VISIBILITY_OPTIONS of None \<Rightarrow> PUBLIC | Some opt \<Rightarrow> vo_value opt)"

definition convertVisibilityToString :: "Visibility \<Rightarrow> jsstr" where
  "convertVisibilityToString v = (case getVisibilityOption v of None \<Rightarrow> js ''PRIVATE'' | Some opt \<Rightarrow> vo_name opt)"

section \<open>The menu of a memo\<close>

definition named_patch :: "jsstr \<Rightarrow> MemoPatch" where
  "named_patch n = \<lparr>mp_name = n, mp_state = None, mp_creator = None, mp_createTime = None, mp_updateTime = None, mp_content = None,
     mp_visibility = None, mp_tags = None, mp_pinned = None, mp_attachments = None, mp_relations = None, mp_reactions = None,
     mp_property = None, mp_parent = None, mp_snippet = None, mp_location = None, mp_space = None\<rparr>"

datatype menu_action = TogglePin | ToggleStatus | CheckAll | UncheckAll

text \<open>The update that an action asks for; \<open>None\<close> when there is nothing to change.\<close>

definition menu_update :: "markdown_parser \<Rightarrow> menu_action \<Rightarrow> Memo \<Rightarrow> (MemoPatch \<times> jsstr list) option" where
  "menu_update parse action memo =
     (let rewrite = (\<lambda>nextContent. if nextContent = memo_content memo then None
            else Some ((named_patch (memo_name memo))\<lparr>mp_content := Some nextContent\<rparr>, [js ''content'', js ''update_time'']))
      in case action of
           TogglePin \<Rightarrow> Some ((named_patch (memo_name memo))\<lparr>mp_pinned := Some (\<not> memo_pinned memo)\<rparr>, [js ''pinned''])
         | ToggleStatus \<Rightarrow>
             Some ((named_patch (memo_name memo))\<lparr>mp_state := Some (if memo_state memo = ARCHIVED_STATE then NORMAL else ARCHIVED_STATE)\<rparr>,
                   [js ''state''])
         | CheckAll \<Rightarrow> rewrite (checkAllTasks parse (memo_content memo))
         | UncheckAll \<Rightarrow> rewrite (uncheckAllTasks parse (memo_content memo)))"

datatype menu_notice = Told string | Complained string

record 'c menu_page =
  mn_cache :: 'c
  mn_notices :: "menu_notice list"
  mn_path :: jsstr

definition menu_success :: "menu_action \<Rightarrow> Memo \<Rightarrow> menu_notice list" where
  "menu_success action memo =
     (case action of
        TogglePin \<Rightarrow> []
      | ToggleStatus \<Rightarrow> [Told (if memo_state memo = ARCHIVED_STATE then ''message.restored-successfully'' else ''message.archived-successfully'')]
      | _ \<Rightarrow> [Told ''memo.task-actions.updated''])"

definition menu_failure :: "menu_action \<Rightarrow> Memo \<Rightarrow> menu_notice list" where
  "menu_failure action memo =
     (case action of
        TogglePin \<Rightarrow> []
      | ToggleStatus \<Rightarrow> [Complained (if memo_state memo \<noteq> ARCHIVED_STATE then ''Archive memo'' else ''Restore memo'')]
      | CheckAll \<Rightarrow> [Complained ''Check memo task list items'']
      | UncheckAll \<Rightarrow> [Complained ''Uncheck memo task list items''])"

text \<open>The action up to its request, with the memo that a failure brings back, and what its answer does. \<open>onDetail\<close> tells whether the page is
  the one of the memo.\<close>

definition menu_begins ::
  "'c query_client \<Rightarrow> nat \<Rightarrow> markdown_parser \<Rightarrow> menu_action \<Rightarrow> Memo \<Rightarrow> 'c menu_page \<Rightarrow> (MemoPatch \<times> jsstr list \<times> Memo option) option \<times> 'c menu_page" where
  "menu_begins Q now parse action memo p =
     (case menu_update parse action memo of
        None \<Rightarrow> (None, p)
      | Some (update, updateMask) \<Rightarrow>
          (let (previous, c) = updateMemo_onMutate Q now update updateMask (mn_cache p)
           in (Some (update, updateMask, previous), p\<lparr>mn_cache := c\<rparr>)))"

definition menu_settles ::
  "'c query_client \<Rightarrow> menu_action \<Rightarrow> Memo \<Rightarrow> bool \<Rightarrow> MemoPatch \<times> jsstr list \<times> Memo option \<Rightarrow> (rpc_error + Memo) \<Rightarrow> 'c menu_page \<Rightarrow> 'c menu_page" where
  "menu_settles Q action memo onDetail call answer p =
     (let (update, updateMask, previous) = call
      in case answer of
           Inl e \<Rightarrow> p\<lparr>mn_cache := updateMemo_onError Q update previous (mn_cache p), mn_notices := mn_notices p @ menu_failure action memo\<rparr>
         | Inr updated \<Rightarrow>
             (let p1 = p\<lparr>mn_cache := updateMemo_onSuccess Q updated updateMask (mn_cache p), mn_notices := mn_notices p @ menu_success action memo\<rparr>
              in if action = ToggleStatus
                 then p1\<lparr>mn_cache := invalidateQueries Q user_stats (mn_cache p1),
                         mn_path := (if onDetail then (if memo_state memo = ARCHIVED_STATE then HOME else ARCHIVED) else mn_path p1)\<rparr>
                 else p1))"

definition confirmDeleteMemo ::
  "'c query_client \<Rightarrow> Memo \<Rightarrow> bool \<Rightarrow> jsstr option \<Rightarrow> rpc_error option \<Rightarrow> 'c menu_page \<Rightarrow> 'c menu_page" where
  "confirmDeleteMemo Q memo onDetail parentPage failure p =
     (case failure of
        Some e \<Rightarrow> p\<lparr>mn_notices := mn_notices p @ [Complained ''Delete memo'']\<rparr>
      | None \<Rightarrow>
          (let c = deleteMemo_onSuccess Q (memo_name memo) (mn_cache p);
               c' = (if truthy (memo_parent memo)
                     then invalidateQueries Q (memo_detail (the (memo_parent memo)))
                            (invalidateQueries Q (memo_comments (the (memo_parent memo))) c) else c)
           in p\<lparr>mn_cache := invalidateQueries Q user_stats c', mn_notices := mn_notices p @ [Told ''message.deleted-successfully''],
                mn_path := (if onDetail then (if truthy parentPage then the parentPage else HOME) else mn_path p)\<rparr>))"

definition canMove :: "Memo \<Rightarrow> jsstr option \<Rightarrow> jsstr \<Rightarrow> bool" where
  "canMove memo currentName pathname \<longleftrightarrow> Some (memo_creator memo) = currentName \<and> \<not> startsWith pathname SHARED_MEMO"

definition copiedLink :: "jsstr \<Rightarrow> jsstr \<Rightarrow> Memo \<Rightarrow> jsstr" where
  "copiedLink instanceUrl pageOrigin memo = (if instanceUrl = [] then pageOrigin else instanceUrl) @ js ''/'' @ memo_name memo"

section \<open>Shared links\<close>

definition share_all :: qkey where "share_all = [S (js ''memo-shares'')]"
definition share_list :: "jsstr \<Rightarrow> qkey" where "share_list memoName = share_all @ [S (js ''list''), S memoName]"
definition share_byShare :: "jsstr \<Rightarrow> qkey" where "share_byShare shareToken = share_all @ [S (js ''by-share''), S shareToken]"

definition memoShare_onSuccess :: "'c query_client \<Rightarrow> jsstr \<Rightarrow> 'c \<Rightarrow> 'c" where
  "memoShare_onSuccess Q memoName c = invalidateQueries Q (share_list memoName) c"

definition getShareToken :: "jsstr \<Rightarrow> jsstr" where
  "getShareToken shareName = last (split_on 47 shareName)"

definition getShareUrl :: "jsstr \<Rightarrow> jsstr \<Rightarrow> jsstr" where
  "getShareUrl pageOrigin shareName = pageOrigin @ js ''/memos/shares/'' @ getShareToken shareName"

text \<open>\<open>None\<close> is the exception of \<open>encodeURIComponent\<close> for a lone surrogate.\<close>

definition shareAttachmentLink :: "jsstr \<Rightarrow> jsstr \<Rightarrow> Attachment \<Rightarrow> Attachment option" where
  "shareAttachmentLink pageOrigin token a =
     (if att_externalLink a \<noteq> [] then Some a
      else map_option (\<lambda>t. a\<lparr>att_externalLink := pageOrigin @ js ''/file/'' @ att_name a @ js ''/'' @ att_filename a @ js ''?share_token='' @ t\<rparr>)
             (encodeURIComponent token))"

definition withShareAttachmentLinks :: "jsstr \<Rightarrow> Attachment list \<Rightarrow> jsstr \<Rightarrow> Attachment list option" where
  "withShareAttachmentLinks pageOrigin atts token = those (map (shareAttachmentLink pageOrigin token) atts)"

section \<open>The gallery\<close>

record 'a gallery_cell =
  cell_item :: 'a
  cell_rows :: nat
  cell_label :: "jsstr option"

datatype 'a gallery = Single 'a | Collage nat nat "'a gallery_cell list"

definition COLLAGE_MAX_VISIBLE_CELLS :: nat where "COLLAGE_MAX_VISIBLE_CELLS = 6"

definition plain_cell :: "'a \<Rightarrow> 'a gallery_cell" where
  "plain_cell x = \<lparr>cell_item = x, cell_rows = 1, cell_label = None\<rparr>"

text \<open>The grid of a collage is given by its columns and rows.\<close>

definition resolveVisualGalleryLayout :: "'a list \<Rightarrow> 'a gallery option" where
  "resolveVisualGalleryLayout items =
     (let count = length items
      in if count = 0 then None
         else if count = 1 then Some (Single (items ! 0))
         else if count = 2 then Some (Collage 2 1 (map plain_cell items))
         else if count = 3 then Some (Collage 2 2 [(plain_cell (items ! 0))\<lparr>cell_rows := 2\<rparr>, plain_cell (items ! 1), plain_cell (items ! 2)])
         else if count = 4 then Some (Collage 2 2 (map plain_cell items))
         else
           let visible = take COLLAGE_MAX_VISIBLE_CELLS items; overflowCount = count - length visible
           in Some (Collage 3 2 (map (\<lambda>i. (plain_cell (visible ! i))
                \<lparr>cell_label := (if i = length visible - 1 \<and> overflowCount > 0 then Some (js ''+'' @ dec overflowCount) else None)\<rparr>)
                [0..<length visible])))"

section \<open>Audiences\<close>

text \<open>A stored visibility is read back, every audience is offered to a memo in a Space, and the one a memo has is always offered.\<close>

theorem visibility_choices:
  assumes "v \<noteq> VISIBILITY_UNSPECIFIED"
  shows "convertVisibilityFromString (convertVisibilityToString v) = v
    \<and> v \<in> vo_value ` set (getAssignableVisibilityOptions placed (Some v))
    \<and> (vo_value ` set (getAssignableVisibilityOptions placed None) = (if placed then UNIV - {VISIBILITY_UNSPECIFIED} else vo_value ` set DEFAULT_VISIBILITY_OPTIONS))
    \<and> SPACE \<notin> vo_value ` set DEFAULT_VISIBILITY_OPTIONS"
proof -
  have all: "UNIV - {VISIBILITY_UNSPECIFIED} = {PRIVATE, SPACE, PROTECTED, PUBLIC}"
    using Visibility.exhaust by auto
  have "convertVisibilityFromString (convertVisibilityToString v) = v"
    using assms by (cases v) (simp_all add: convertVisibilityFromString_def convertVisibilityToString_def getVisibilityOption_def
        VISIBILITY_OPTIONS_def visibility_option_def js_def)
  moreover have "v \<in> vo_value ` set (getAssignableVisibilityOptions placed (Some v))"
    using assms by (cases v) (auto simp: getAssignableVisibilityOptions_def VISIBILITY_OPTIONS_def visibility_option_def)
  ultimately show ?thesis
    by (auto simp: getAssignableVisibilityOptions_def VISIBILITY_OPTIONS_def DEFAULT_VISIBILITY_OPTIONS_def visibility_option_def all)
qed

lemma visibility_choices_witness: "convertVisibilityFromString (convertVisibilityToString PROTECTED) = PROTECTED"
  using visibility_choices [of PROTECTED] by simp

section \<open>An action that fails leaves no trace\<close>

lemma menu_update_simple:
  assumes "menu_update parse action memo = Some (u, updateMask)"
  shows "mp_name u = memo_name memo" "undoable u m"
  using assms by (cases action; auto simp: menu_update_def named_patch_def undoable_def Let_def split: if_splits)+

text \<open>An action of the menu shows at once. When its request fails, every cached list is what it was before, the memo is shown as it was,
  the page is not left and at most one complaint appears.\<close>

theorem failed_action_undone:
  assumes Q: "query_client Q" and begins: "menu_begins Q now parse action memo p = (Some (u, updateMask, Some m), p')"
    and name: "memo_name m = memo_name memo"
    and same: "\<forall>k d. startsWith k memo_all \<longrightarrow> getQueryData Q (mn_cache p) k = Some d \<longrightarrow> copies_are m d"
    and s: "s = menu_settles Q action memo onDetail (u, updateMask, Some m) (Inl e) p'"
  shows "getQueryData Q (mn_cache p') (memo_detail (memo_name memo)) = Some (DetailData (spread m u))
    \<and> getQueryData Q (mn_cache s) k = (if k = memo_detail (memo_name memo) then Some (DetailData m) else getQueryData Q (mn_cache p) k)
    \<and> mn_path s = mn_path p \<and> mn_notices s = mn_notices p @ menu_failure action memo \<and> length (menu_failure action memo) \<le> 1"
proof -
  have up: "menu_update parse action memo = Some (u, updateMask)"
    and step: "updateMemo_onMutate Q now u updateMask (mn_cache p) = (Some m, mn_cache p')"
    and frame: "mn_path p' = mn_path p" "mn_notices p' = mn_notices p"
    using begins by (auto simp: menu_begins_def split: option.splits prod.splits)
  note simple = menu_update_simple [OF up]
  have copies: "\<And>k d. startsWith k memo_all \<Longrightarrow> getQueryData Q (mn_cache p) k = Some d \<Longrightarrow> copies_are m d" using same by blast
  have "memo_name m = mp_name u" by (simp add: simple name)
  note facts = failed_update_rolled_back_facts [OF Q step this simple(2)]
  have "getQueryData Q (mn_cache p') (memo_detail (mp_name u)) = Some (DetailData (spread m u))"
    by (rule facts(1)) (blast intro: copies)
  moreover have "getQueryData Q (updateMemo_onError Q u (Some m) (mn_cache p')) k =
      (if k = memo_detail (mp_name u) then Some (DetailData m) else getQueryData Q (mn_cache p) k)"
    by (rule facts(2)) (blast intro: copies)
  ultimately show ?thesis unfolding simple(1) by (cases action) (simp_all add: s menu_settles_def frame menu_failure_def)
qed

text \<open>A memo that is deleted leaves its page, and its entry in the cache is gone; a failure changes nothing but the notices.\<close>

theorem deleted_memo_left:
  assumes "query_client Q"
  shows "getQueryData Q (mn_cache (confirmDeleteMemo Q memo True parentPage None p)) (memo_detail (memo_name memo)) = None
    \<and> mn_path (confirmDeleteMemo Q memo True parentPage None p) = (if truthy parentPage then the parentPage else HOME)
    \<and> mn_cache (confirmDeleteMemo Q memo onDetail parentPage (Some e) p) = mn_cache p
    \<and> mn_path (confirmDeleteMemo Q memo onDetail parentPage (Some e) p) = mn_path p"
  by (simp add: confirmDeleteMemo_def deleteMemo_onSuccess_def Let_def query_client.get_invalidate [OF assms]
      query_client.get_remove [OF assms] startsWith_def)

section \<open>Links that share\<close>

text \<open>The address of a share ends in its token, and the links of a shared memo's attachments carry the token unless they lead elsewhere.\<close>

lemma shareUrl_token: "split_on 47 (getShareUrl pageOrigin shareName) \<noteq> [] \<and> last (split_on 47 (getShareUrl pageOrigin shareName)) = getShareToken shareName"
proof -
  have no: "47 \<notin> set (getShareToken shareName)"
    using split_on_parts [of "getShareToken shareName" 47 shareName] by (simp add: getShareToken_def)
  have "\<exists>ws. ws \<noteq> [] \<and> split_on c (xs @ c # t) = ws @ split_on c t" for c xs and t :: jsstr
  proof (induction xs)
    case Nil
    show ?case by (intro exI [of _ "[[]]"]) simp
  next
    case (Cons x xs)
    then obtain w ws where "split_on c (xs @ c # t) = (w # ws) @ split_on c t" by (metis neq_Nil_conv)
    then show ?case by (cases "x = c") (auto intro: exI [of _ "[] # w # ws"] exI [of _ "(x # w) # ws"])
  qed
  then have "last (split_on c (xs @ c # t)) = t" if "c \<notin> set t" for c xs and t :: jsstr
    using that by (metis last_appendR last.simps list.distinct(1) split_on_absent)
  from this [OF no, of "pageOrigin @ js ''/memos/shares''"] show ?thesis by (simp add: getShareUrl_def js_def)
qed

lemma shared_links:
  assumes "withShareAttachmentLinks pageOrigin atts token = Some links"
  shows "length links = length atts"
    and "i < length atts \<Longrightarrow> (if att_externalLink (atts ! i) \<noteq> [] then links ! i = atts ! i
      else \<exists>t. encodeURIComponent token = Some t \<and> endsWith (att_externalLink (links ! i)) (js ''?share_token='' @ t))"
proof -
  have "those os = Some xs \<Longrightarrow> length xs = length os \<and> (\<forall>i < length os. os ! i = Some (xs ! i))" for os :: "Attachment option list" and xs
    by (induction os arbitrary: xs) (auto simp: less_Suc_eq_0_disj split: option.splits)
  from this [OF assms [unfolded withShareAttachmentLinks_def]]
  have l: "length links = length atts" "\<And>i. i < length atts \<Longrightarrow> shareAttachmentLink pageOrigin token (atts ! i) = Some (links ! i)" by auto
  show "length links = length atts" by (rule l)
  show "if att_externalLink (atts ! i) \<noteq> [] then links ! i = atts ! i
      else \<exists>t. encodeURIComponent token = Some t \<and> endsWith (att_externalLink (links ! i)) (js ''?share_token='' @ t)" if "i < length atts"
    using l(2) [OF that] by (auto simp: shareAttachmentLink_def endsWith_def split: if_splits dest!: sym [of _ "links ! i"])
qed

text \<open>The name of the file is not encoded. In a link to a file with a number sign in its name, the token belongs to the fragment, which the
  browser does not send.\<close>

lemma share_token_in_fragment:
  "\<exists>a'. shareAttachmentLink (js ''https://a'') (js ''t'') (empty_attachment\<lparr>att_name := js ''attachments/x'', att_filename := js ''c#1.png''\<rparr>) = Some a'
    \<and> takeWhile (\<lambda>c. c \<noteq> 35) (att_externalLink a') = js ''https://a/file/attachments/x/c''"
  by (simp add: shareAttachmentLink_def empty_attachment_def js_def encodeURIComponent_def isSurrogate_def)

section \<open>The gallery shows or counts every item\<close>

fun shown_cells :: "'a gallery \<Rightarrow> 'a gallery_cell list" where
  "shown_cells (Single x) = [plain_cell x]"
| "shown_cells (Collage cols rows cells) = cells"

fun grid_places :: "'a gallery \<Rightarrow> nat" where
  "grid_places (Single x) = 1"
| "grid_places (Collage cols rows cells) = cols * rows"

text \<open>The cells show the first six items in order and never need more places than the grid has. Items beyond the sixth are counted on the last
  cell, and only there.\<close>

theorem gallery_complete:
  assumes "resolveVisualGalleryLayout items = Some g"
  shows "map cell_item (shown_cells g) = take 6 items
    \<and> sum_list (map cell_rows (shown_cells g)) \<le> grid_places g
    \<and> (\<forall>c \<in> set (butlast (shown_cells g)). cell_label c = None)
    \<and> cell_label (last (shown_cells g)) = (if length items > 6 then Some (js ''+'' @ dec (length items - 6)) else None)"
proof (cases "length items \<le> 4")
  case True
  then consider "items = []" | a where "items = [a]" | a b where "items = [a, b]" | a b c where "items = [a, b, c]"
    | a b c d where "items = [a, b, c, d]"
    by (cases items rule: list.exhaust [case_product list.exhaust]) (auto simp: le_Suc_eq length_Suc_conv numeral_eq_Suc)
  then show ?thesis using assms by cases (auto simp: resolveVisualGalleryLayout_def plain_cell_def numeral_eq_Suc)
next
  case False
  let ?v = "take 6 items"
  let ?cells = "map (\<lambda>i. (plain_cell (?v ! i))
      \<lparr>cell_label := (if i = length ?v - 1 \<and> length items - length ?v > 0 then Some (js ''+'' @ dec (length items - length ?v)) else None)\<rparr>)
      [0..<length ?v]"
  have g: "g = Collage 3 2 ?cells"
  proof -
    have "items \<noteq> []" "length items \<noteq> 1" "length items \<noteq> 2" "length items \<noteq> 3" "length items \<noteq> 4" using False by auto
    then show ?thesis using assms by (simp add: resolveVisualGalleryLayout_def COLLAGE_MAX_VISIBLE_CELLS_def Let_def)
  qed
  have n: "0 < length ?v" "length ?v \<le> 6" using False by auto
  have "map cell_item ?cells = ?v" using map_nth [of ?v] by (simp add: plain_cell_def comp_def)
  moreover have "sum_list (map cell_rows ?cells) = length ?v" by (simp add: plain_cell_def comp_def sum_list_triv)
  moreover have "\<forall>c \<in> set (butlast ?cells). cell_label c = None"
  proof -
    have "butlast [0..<k] = [0..<k - 1]" for k :: nat by (cases k) simp_all
    then show ?thesis by (auto simp: plain_cell_def simp flip: map_butlast)
  qed
  moreover have "cell_label (last ?cells) = (if length items > 6 then Some (js ''+'' @ dec (length items - 6)) else None)"
    using n(1) by (subst last_map) auto
  ultimately show ?thesis using n(2) g by simp
qed

lemma gallery_complete_witness: "\<exists>g. resolveVisualGalleryLayout [1..<9] = Some g \<and> map cell_item (shown_cells g) = [1..<7]"
proof -
  obtain g where g: "resolveVisualGalleryLayout [1..<9] = Some g" by (simp add: resolveVisualGalleryLayout_def Let_def)
  from gallery_complete [OF this] g show ?thesis by (simp add: upt_rec)
qed

end
