(* ===== verification/Spec2Isabelle.thy ===== *)
theory Spec2Isabelle
  imports Tag_Grammar Mention_Grammar Routes Connect OAuth Memo_Save Attachments Memo_Filters Live_Refresh Space_Cache Query_Cache
    Markdown_Edit Feed_Layout Managed_Attachments Calendar Editor_Commands Literal_Source Audio_Recorder Inline_Upload Memo_Syntax Ai_Hub Session Sign_In Tag_Tree Attachment_Library Media_Metadata People Editor_Open Memo_Actions
begin

text \<open>
  Verification of the web client of Memos, the TypeScript code under \<^verbatim>\<open>src/web/src\<close>.

  \<^bold>\<open>The program.\<close> The client shows and edits memos. A session token (\<^verbatim>\<open>auth-state.ts\<close>) is kept in memory and in the
  browser's storage; the RPC transport (\<^verbatim>\<open>connect.ts\<close>) puts it on every request, refreshes it and signs the user out.
  Queries fill a cache (\<^verbatim>\<open>hooks/useMemoQueries.ts\<close>, \<^verbatim>\<open>hooks/useSpaceQueries.ts\<close>) that mutations patch and that the
  event stream (\<^verbatim>\<open>hooks/useLiveMemoRefresh.ts\<close>) invalidates. Routes and filters (\<^verbatim>\<open>router/routes.ts\<close>,
  \<^verbatim>\<open>contexts/MemoFilterContext.tsx\<close>) live in the URL. The editor (\<^verbatim>\<open>components/MemoEditor\<close>) keeps a reducer state, stores
  drafts, uploads files and saves memos; the text of a memo is scanned for tags, mentions, URLs, tasks and references to
  its own attachments.

  \<^bold>\<open>Theories and what they model.\<close>
  \<^item> \<open>JS_Prelude\<close>, \<open>JS_URI\<close>, \<open>Web_Storage\<close>: the parts of JavaScript and of the browser that the code uses. A string is a
    list of UTF-16 code units, \<open>undefined\<close> and \<open>null\<close> are \<open>None\<close>, a thrown exception is \<open>None\<close> or \<open>Inl\<close>, a \<open>Map\<close> is an
    association list in insertion order. The locale \<open>key_value\<close> states the laws of a store and is interpreted on the
    association lists.
  \<^item> \<open>Tag_Unicode_Data\<close>, \<open>Tag_Grammar\<close> (\<^verbatim>\<open>utils/tag-grammar.ts\<close>): emoji trie, binary search, tag scanner. The scanner returns, its
    matches are ordered and in bounds, ASCII tags are recognised, the trie finds the longest emoji sequence.
  \<^item> \<open>Mention_Grammar\<close> (\<^verbatim>\<open>utils/mention-grammar.ts\<close>, \<^verbatim>\<open>utils/username.ts\<close>): the scanner equals a declarative enumeration.
  \<^item> \<open>Autolinks\<close> (\<^verbatim>\<open>utils/gfm-url.ts\<close>, \<^verbatim>\<open>utils/gfm-email.ts\<close>, \<^verbatim>\<open>utils/markdown-source-boundaries.ts\<close>): written URLs, e-mail
    addresses, escapes and character references of a run of source text; the scanners end, and the URL scanner is complete.
  \<^item> \<open>Literal_Source\<close> (\<^verbatim>\<open>utils/markdown-link.ts\<close>, \<^verbatim>\<open>components/MemoEditor/Editor/markdownTagRanges.ts\<close>): resolved links and the literal
    ranges of a syntax tree. The ranges are exact, and the tags and mentions found in them (two interpretations of the locale
    \<open>run_scanner\<close>) have no character in a URL, e-mail address, escape or character reference. Pieces of the source are parsed
    again; \<open>n\<close> bounds how deep, and \<open>reparse_within\<close> is the condition under which \<open>n\<close> is enough.
  \<^item> \<open>Markdown_Edit\<close> (\<^verbatim>\<open>utils/markdown-task-actions.ts\<close>, \<^verbatim>\<open>utils/markdown-manipulation.ts\<close>), \<open>Editor_Commands\<close>
    (\<^verbatim>\<open>components/MemoEditor/Editor\<close>, \<^verbatim>\<open>components/MemoEditor/formatting\<close>), \<open>Managed_Attachments\<close>
    (\<^verbatim>\<open>utils/managed-attachment.ts\<close>): edits of the source. Each changes exactly the lines or characters it is about; anchors of
    headings are unique; references read back what was written; the index cache cannot be noticed.
  \<^item> \<open>Routes\<close> (\<^verbatim>\<open>router/routes.ts\<close>, \<^verbatim>\<open>utils/redirect-safety.ts\<close>, \<^verbatim>\<open>lib/memo-views.ts\<close> and others): routes read back what was built;
    which redirect targets are accepted.
  \<^item> \<open>Auth_State\<close> (\<^verbatim>\<open>auth-state.ts\<close>, locale \<open>token_store\<close>), \<open>Connect\<close> (\<^verbatim>\<open>connect.ts\<close>), \<open>OAuth\<close> (\<^verbatim>\<open>utils/oauth.ts\<close>): one refresh
    in flight, at most one retry, an OAuth state is used once.
  \<^item> \<open>Proto_Types\<close>: the messages of the API as records.
  \<^item> \<open>Editor_State\<close>, \<open>Draft_Cache\<close>, \<open>Upload_Service\<close>, \<open>Memo_Save\<close> (\<^verbatim>\<open>components/MemoEditor\<close>): the reducer, debounced drafts as a
    state machine with the browser's timers, chunked uploads and the pool of uploads as a state machine, the update mask and
    the save transaction. A failed save loses nothing, an unchanged memo is not sent, the patch brings the memo to the state
    of the editor.
  \<^item> \<open>Attachments\<close> (\<^verbatim>\<open>utils/attachment.ts\<close>, \<^verbatim>\<open>utils/media-item.ts\<close>): every attachment is shown in some item.
  \<^item> \<open>Memo_Filters\<close> (\<^verbatim>\<open>contexts/MemoFilterContext.tsx\<close>, \<^verbatim>\<open>lib/cel-filter.ts\<close> and others): the filters are those of the URL in every
    run; texts in CEL conditions are single literals.
  \<^item> \<open>Query_Cache\<close> (locale \<open>query_client\<close>), \<open>Space_Cache\<close> (locale \<open>cached_list\<close>): handlers of the mutations over the laws of
    the query client; unreadable memos leave the cache, failed updates are rolled back, paged lists are complete.
  \<^item> \<open>Live_Refresh\<close> (\<^verbatim>\<open>hooks/useLiveMemoRefresh.ts\<close>): the event reader does not depend on the chunks, one live connection per tab,
    back-off.
  \<^item> \<open>Feed_Layout\<close> (\<^verbatim>\<open>hooks/useMemoSorting.ts\<close>, \<^verbatim>\<open>components/ColumnGrid\<close>), \<open>Calendar\<close> (\<^verbatim>\<open>components/CalendarView\<close>,
    \<^verbatim>\<open>components/ActivityCalendar\<close>, \<^verbatim>\<open>lib/tag.ts\<close>): tiles do not overlap; hidden memos show nothing in the calendar, whose model
    does not depend on the order of the pages.

  \<^item> \<open>Memo_Syntax\<close> (\<^verbatim>\<open>utils/remark-plugins/remark-tag.ts\<close>): the tree that is rendered. Its tags and mentions are those of the literal
    source, no text is lost or made up, and links are those that were written.
  \<^item> \<open>Audio_Recorder\<close> (\<^verbatim>\<open>components/MemoEditor/hooks/useAudioRecorder.ts\<close>), \<open>Inline_Upload\<close>
    (\<^verbatim>\<open>components/MemoEditor/Editor/uploadAnchors.ts\<close>, \<^verbatim>\<open>components/MemoEditor/hooks/useInlineImageUpload.ts\<close>), \<open>Media_Metadata\<close>
    (\<^verbatim>\<open>components/MemoEditor/services/mediaMetadataService.ts\<close>): state machines of the editor with what the browser holds for them. The
    microphone is released, no save goes out while an image is inserted and every insertion ends, metadata is within the limits of its
    fields and a video is released once.
  \<^item> \<open>Editor_Open\<close> (\<^verbatim>\<open>components/MemoEditor/hooks/useMemoInit.ts\<close>, \<^verbatim>\<open>components/MemoEditor/hooks/useLinkMemo.ts\<close>): the composition of the
    draft cache, the reducer and autosave. A draft is opened as it was left, a memo as it was saved.
  \<^item> \<open>Session\<close> (\<^verbatim>\<open>contexts/AuthContext.tsx\<close>, \<^verbatim>\<open>contexts/InstanceContext.tsx\<close>, \<^verbatim>\<open>contexts/GlobalMemoEditorContext.tsx\<close>), \<open>Sign_In\<close>
    (\<^verbatim>\<open>pages/AuthCallback.tsx\<close>, \<^verbatim>\<open>pages/SignUp.tsx\<close>, \<^verbatim>\<open>components/PasswordSignInForm.tsx\<close>): answers arrive in any order, and still the
    settings shown belong to the user shown; the callback page completes only a flow that this browser began, and a form submits once.
  \<^item> \<open>Ai_Hub\<close> (\<^verbatim>\<open>hooks/useAiChat.ts\<close>, \<^verbatim>\<open>components/AIHub/ProposalCard.tsx\<close>, \<^verbatim>\<open>contexts/AiContext.tsx\<close> and others): the conversation keeps its
    order, and a proposed change is written at most once and as it was shown.
  \<^item> \<open>Tag_Tree\<close> (\<^verbatim>\<open>components/TagTree.tsx\<close>, \<^verbatim>\<open>components/AppSidebar/TagsSection.tsx\<close>), \<open>Attachment_Library\<close>
    (\<^verbatim>\<open>hooks/useAttachmentLibrary.ts\<close>, \<^verbatim>\<open>components/MemoEditor/hooks/useFileUpload.ts\<close> and others): the tree lists every tag; the counts of the
    page of attachments agree with what it lists, and months partition the media.
  \<^item> \<open>People\<close> (\<^verbatim>\<open>hooks/useUserQueries.ts\<close>, \<^verbatim>\<open>components/MemoContent/MentionResolutionContext.tsx\<close>,
    \<^verbatim>\<open>components/MemoReactionListView/hooks.ts\<close>): users are asked for in batches, once each and only when the cache has no fresh entry;
    resolving a whole page agrees with resolving each memo; reactions are grouped completely.
  \<^item> \<open>Memo_Actions\<close> (\<^verbatim>\<open>components/MemoActionMenu/hooks.ts\<close>, \<^verbatim>\<open>hooks/useMemoShareQueries.ts\<close>, \<^verbatim>\<open>utils/memo.ts\<close>,
    \<^verbatim>\<open>components/MemoMetadata/Attachment/visualGalleryLayout.ts\<close>): a failed action leaves no trace; every picture is shown or counted.

  \<^bold>\<open>Arguments.\<close> Code outside \<^verbatim>\<open>src\<close> is a field of an environment record (\<open>route_env\<close>, \<open>memo_api\<close>, \<open>upload_env\<close>, \<open>managed_env\<close>,
  \<open>calendar_env\<close>, \<open>markdown_lib\<close>, \<open>query_client\<close>): the RPC clients, the URL and Markdown parsers, dayjs, Unicode classes, random
  bytes and hashes, the syntax tree of the editor. What a property needs of it is a named hypothesis, and its witness
  instantiates the argument with a concrete function.

  \<^bold>\<open>Loops.\<close> Recursion carries its termination proof. Loops that need not end (\<open>drainPages\<close>, \<open>projectLoop\<close>, the search for a
  free anchor) are partial functions into \<open>option\<close>, and that they return is a theorem. The lists of server answers in
  \<open>Connect\<close> and \<open>Live_Refresh\<close> are the events of a run, of any length.

  Theorems that are not among the listed properties support them or state further facts of their component; lemmas whose text describes
  behaviour against the intention of the code (a microphone left open, a search text that is not escaped) record findings.

  \<^bold>\<open>Not modelled.\<close> The Go server, whose answers are arguments, and the tests. Generated descriptors beyond the messages used. React
  components that only render, dialogs, and the forms of the settings pages, which copy fields of messages. Themes, translations and icons,
  which are data. The map and the statistics of habits, which compute in floating point numbers whose rounding the model has no account
  of. The estimated heights of cards, which the layout of the feed takes as an argument.
\<close>

end
